(* ===== verification/Go_Prelude.thy ===== *)
theory Go_Prelude
  imports
    Main
    "HOL-Library.Char_ord"
    "HOL-Library.List_Lexorder"
    "HOL-Library.AList"
    "HOL-Library.Sublist"
    "HOL-Library.Word"
begin

text \<open>
  Vocabulary shared by every theory of the development.

  A Go string or byte slice is a list of bytes, and HOL's \<^typ>\<open>char\<close> is a byte, so both
  are the type \<^typ>\<open>string\<close>; \<open>of_char\<close> reads the byte as a number and the order on
  strings is bytewise lexicographic, as Go's.  The functions of the package strings (and their
  twins of bytes) that the sources call are modelled here on lists, with \<^const>\<open>None\<close>
  where Go returns the index -1.  A call that may panic returns a value of the type \<open>go\<close>;
  a call that returns an error returns a sum.  A Go map is an association list with distinct keys:
  its order stands for one of the iteration orders the language allows.
\<close>

named_theorems strs "facts on the string functions of the standard library"

section \<open>Calls that may panic and calls that return an error\<close>

datatype 'a go = Panic string | Ret 'a

fun go_bind :: "'a go \<Rightarrow> ('a \<Rightarrow> 'b go) \<Rightarrow> 'b go" where
  "go_bind (Panic m) f = Panic m"
| "go_bind (Ret a) f = f a"

fun panics :: "'a go \<Rightarrow> bool" where
  "panics (Panic m) = True"
| "panics (Ret a) = False"

lemma go_bind_Ret: "go_bind x f = Ret b \<longleftrightarrow> (\<exists>a. x = Ret a \<and> f a = Ret b)"
  by (cases x) auto

lemma go_bind_cong [fundef_cong]:
  "x = y \<Longrightarrow> (\<And>a. y = Ret a \<Longrightarrow> f a = g a) \<Longrightarrow> go_bind x f = go_bind y g"
  by (cases y) auto

lemma not_panics: "\<not> panics x \<longleftrightarrow> (\<exists>a. x = Ret a)"
  by (cases x) auto

fun and_then :: "'e + 'a \<Rightarrow> ('a \<Rightarrow> 'e + 'b) \<Rightarrow> 'e + 'b" where
  "and_then (Inl e) f = Inl e"
| "and_then (Inr a) f = f a"

lemma and_then_Inr: "and_then x f = Inr b \<longleftrightarrow> (\<exists>a. x = Inr a \<and> f a = Inr b)"
  by (cases x) auto

lemma and_then_cong [fundef_cong]:
  "x = y \<Longrightarrow> (\<And>a. y = Inr a \<Longrightarrow> f a = g a) \<Longrightarrow> and_then x f = and_then y g"
  by (cases y) auto

text \<open>A byte between two bounds, as the sources test for letters and digits.\<close>

abbreviation in_range :: "char \<Rightarrow> char \<Rightarrow> char \<Rightarrow> bool" where
  "in_range lo hi c \<equiv> lo \<le> c \<and> c \<le> hi"

section \<open>Go maps\<close>

type_synonym ('k, 'v) gomap = "('k \<times> 'v) list"

abbreviation gomap_ok :: "('k, 'v) gomap \<Rightarrow> bool" where
  "gomap_ok m \<equiv> distinct (map fst m)"

abbreviation keys_of :: "('k, 'v) gomap \<Rightarrow> 'k list" where
  "keys_of m \<equiv> map fst m"

lemma keys_of_update: "set (keys_of (AList.update k v m)) = insert k (set (keys_of m))"
  by (induction m) auto

lemma keys_of_delete: "set (keys_of (AList.delete k m)) = set (keys_of m) - {k}"
  by (auto simp: AList.delete_eq)

section \<open>The string functions the sources call\<close>

fun index_byte :: "char \<Rightarrow> string \<Rightarrow> nat option" where
  "index_byte c [] = None"
| "index_byte c (x # xs) = (if x = c then Some 0 else map_option Suc (index_byte c xs))"

fun last_index_byte :: "char \<Rightarrow> string \<Rightarrow> nat option" where
  "last_index_byte c [] = None"
| "last_index_byte c (x # xs) =
     (case last_index_byte c xs of
        Some i \<Rightarrow> Some (Suc i)
      | None \<Rightarrow> if x = c then Some 0 else None)"

fun cut_byte :: "char \<Rightarrow> string \<Rightarrow> string \<times> string \<times> bool" where
  "cut_byte c [] = ([], [], False)"
| "cut_byte c (x # xs) =
     (if x = c then ([], xs, True)
      else (case cut_byte c xs of (a, b, f) \<Rightarrow> (x # a, b, f)))"

definition contains_byte :: "char \<Rightarrow> string \<Rightarrow> bool" where
  "contains_byte c s = (c \<in> set s)"

definition count_byte :: "char \<Rightarrow> string \<Rightarrow> nat" where
  "count_byte c s = length (filter (\<lambda>x. x = c) s)"

definition has_prefix :: "string \<Rightarrow> string \<Rightarrow> bool" where
  "has_prefix s p = (take (length p) s = p)"

definition has_suffix :: "string \<Rightarrow> string \<Rightarrow> bool" where
  "has_suffix s p = (length p \<le> length s \<and> drop (length s - length p) s = p)"

definition trim_suffix :: "string \<Rightarrow> string \<Rightarrow> string" where
  "trim_suffix s p = (if has_suffix s p then take (length s - length p) s else s)"

definition cut_suffix :: "string \<Rightarrow> string \<Rightarrow> string \<times> bool" where
  "cut_suffix s p =
     (if has_suffix s p then (take (length s - length p) s, True) else (s, False))"

fun index_str :: "string \<Rightarrow> string \<Rightarrow> nat option" where
  "index_str p [] = (if p = [] then Some 0 else None)"
| "index_str p (x # xs) =
     (if has_prefix (x # xs) p then Some 0 else map_option Suc (index_str p xs))"

fun split_byte :: "char \<Rightarrow> string \<Rightarrow> string list" where
  "split_byte c [] = [[]]"
| "split_byte c (x # xs) =
     (if x = c then [] # split_byte c xs
      else (case split_byte c xs of [] \<Rightarrow> [[x]] | w # ws \<Rightarrow> (x # w) # ws))"

fun join_with :: "string \<Rightarrow> string list \<Rightarrow> string" where
  "join_with sep [] = []"
| "join_with sep [w] = w"
| "join_with sep (w # v # ws) = w @ sep @ join_with sep (v # ws)"

text \<open>The trimming functions drop bytes from one end or from both.\<close>

definition trim_left_by :: "(char \<Rightarrow> bool) \<Rightarrow> string \<Rightarrow> string" where
  "trim_left_by P s = dropWhile P s"

definition trim_right_by :: "(char \<Rightarrow> bool) \<Rightarrow> string \<Rightarrow> string" where
  "trim_right_by P s = rev (dropWhile P (rev s))"

section \<open>Facts on these functions\<close>

lemma index_byte_None [strs]: "index_byte c s = None \<longleftrightarrow> c \<notin> set s"
  by (induction s) auto

lemma index_byte_Some [strs]:
  "index_byte c s = Some i \<longleftrightarrow> i < length s \<and> s ! i = c \<and> c \<notin> set (take i s)"
proof (induction s arbitrary: i)
  case (Cons x xs)
  then show ?case by (cases i) auto
qed simp

lemma last_index_byte_None [strs]: "last_index_byte c s = None \<longleftrightarrow> c \<notin> set s"
  by (induction s) (auto split: option.splits)

lemma last_index_byte_Some [strs]:
  "last_index_byte c s = Some i \<longleftrightarrow> i < length s \<and> s ! i = c \<and> c \<notin> set (drop (Suc i) s)"
proof (induction s arbitrary: i)
  case (Cons x xs)
  show ?case
  proof (cases i)
    case 0
    then show ?thesis using last_index_byte_None[of c xs] by (auto split: option.splits)
  next
    case (Suc j)
    then show ?thesis
      using Cons.IH[of j] last_index_byte_None[of c xs]
      by (auto split: option.splits)
  qed
qed simp

lemma cut_byte_notin [strs]: "c \<notin> set s \<Longrightarrow> cut_byte c s = (s, [], False)"
  by (induction s) auto

lemma cut_byte_in [strs]: "c \<notin> set a \<Longrightarrow> cut_byte c (a @ c # b) = (a, b, True)"
  by (induction a) auto

lemma cut_byte_eq [strs]:
  "cut_byte c s = (a, b, f) \<longleftrightarrow>
     (if f then s = a @ c # b \<and> c \<notin> set a else s = a \<and> b = [] \<and> c \<notin> set s)"
proof (induction s arbitrary: a b f)
  case (Cons x xs)
  obtain a' b' f' where c: "cut_byte c xs = (a', b', f')" by (cases "cut_byte c xs")
  then show ?case
    using Cons.IH[of a' b' f'] Cons.IH[of "tl a" b f]
    by (cases a) (auto split: if_splits)
qed auto

lemma length_cut_byte [termination_simp]:
  "cut_byte c s = (a, b, f) \<Longrightarrow> length a \<le> length s \<and> length b \<le> length s"
  by (auto simp: cut_byte_eq split: if_splits)

lemma length_cut_byte_rest [termination_simp]:
  "cut_byte c s = (a, b, f) \<Longrightarrow> s \<noteq> [] \<Longrightarrow> length b < length s"
  by (auto simp: cut_byte_eq split: if_splits)

lemma has_prefix_iff [strs]: "has_prefix s p \<longleftrightarrow> (\<exists>t. s = p @ t)"
  unfolding has_prefix_def by (metis append_eq_conv_conj append_take_drop_id)

lemma has_suffix_iff [strs]: "has_suffix s p \<longleftrightarrow> (\<exists>t. s = t @ p)"
  unfolding has_suffix_def
  by (metis append_take_drop_id diff_diff_cancel drop_append length_append
      le_add2 length_drop append_eq_conv_conj add_diff_cancel_right')

lemma split_byte_not_Nil [simp]: "split_byte c s \<noteq> []"
  by (cases s) (auto split: list.splits)

lemma split_byte_notin [strs]: "c \<notin> set s \<Longrightarrow> split_byte c s = [s]"
  by (induction s) auto

lemma split_byte_append [strs]:
  "c \<notin> set a \<Longrightarrow> split_byte c (a @ c # b) = a # split_byte c b"
  by (induction a) auto

lemma join_split_byte [strs]: "join_with [c] (split_byte c s) = s"
proof (induction s)
  case (Cons x xs)
  obtain w ws where "split_byte c xs = w # ws"
    using split_byte_not_Nil by (meson list.exhaust)
  with Cons show ?case by (cases ws) auto
qed simp

lemma split_byte_parts [strs]: "w \<in> set (split_byte c s) \<Longrightarrow> c \<notin> set w"
  by (induction s arbitrary: w) (auto split: list.splits if_splits)

lemma set_join_with_subset: "set (join_with sep ws) \<subseteq> set sep \<union> (\<Union>w\<in>set ws. set w)"
  by (induction sep ws rule: join_with.induct) auto

lemma split_join_byte [strs]:
  "ws \<noteq> [] \<Longrightarrow> \<forall>w\<in>set ws. c \<notin> set w \<Longrightarrow> split_byte c (join_with [c] ws) = ws"
  by (induction "[c]" ws rule: join_with.induct) (auto simp: split_byte_notin split_byte_append)

lemma trim_left_by_id [simp]: "s = [] \<or> \<not> P (hd s) \<Longrightarrow> trim_left_by P s = s"
  by (cases s) (auto simp: trim_left_by_def)

lemma trim_right_by_id [simp]: "s = [] \<or> \<not> P (last s) \<Longrightarrow> trim_right_by P s = s"
  by (cases s rule: rev_cases) (auto simp: trim_right_by_def)

lemma set_trim_left_by: "set (trim_left_by P s) \<subseteq> set s"
  by (auto simp: trim_left_by_def dest: set_dropWhileD)

lemma set_trim_right_by: "set (trim_right_by P s) \<subseteq> set s"
  by (auto simp: trim_right_by_def dest: set_dropWhileD)

lemma last_trim_right_by: "trim_right_by P s \<noteq> [] \<Longrightarrow> \<not> P (last (trim_right_by P s))"
  by (auto simp: trim_right_by_def last_rev hd_dropWhile)

lemma hd_trim_left_by: "trim_left_by P s \<noteq> [] \<Longrightarrow> \<not> P (hd (trim_left_by P s))"
  by (auto simp: trim_left_by_def hd_dropWhile)

section \<open>Checking a byte predicate on all 256 bytes\<close>

lemma all_bytesD: "list_all P Enum.enum \<Longrightarrow> P (c::char)"
  by (simp add: enum_UNIV list_all_iff)

end
