(* ===== verification/Ascii.thy ===== *)
theory Ascii
  imports Go_Prelude
begin

text \<open>
  The package internal/ascii (src/http/internal/ascii/print.go): case folding and the printable
  range, restricted to ASCII, and the white space test that several packages repeat.
\<close>

definition lower :: "char \<Rightarrow> char" where
  "lower b = (if CHR ''A'' \<le> b \<and> b \<le> CHR ''Z'' then char_of (of_char b + (32 :: nat)) else b)"

fun equal_fold_loop :: "string \<Rightarrow> string \<Rightarrow> bool" where
  "equal_fold_loop (x # xs) (y # ys) = (if lower x \<noteq> lower y then False else equal_fold_loop xs ys)"
| "equal_fold_loop _ _ = True"

definition EqualFold :: "string \<Rightarrow> string \<Rightarrow> bool" where
  "EqualFold s t = (if length s \<noteq> length t then False else equal_fold_loop s t)"

definition IsPrint :: "string \<Rightarrow> bool" where
  "IsPrint s = list_all (\<lambda>c. \<not> (c < CHR '' '' \<or> CHR ''~'' < c)) s"

definition Is :: "string \<Rightarrow> bool" where
  "Is s = list_all (\<lambda>c. \<not> (CHR 0x7F < c)) s"

text \<open>
  On a printable ASCII string strings.ToLower lowers each letter byte.
\<close>

definition ToLower :: "string \<Rightarrow> string \<times> bool" where
  "ToLower s = (if \<not> IsPrint s then ([], False) else (map lower s, True))"

definition isASCIISpace :: "char \<Rightarrow> bool" where
  "isASCIISpace b = (b = CHR '' '' \<or> b = CHR 0x09 \<or> b = CHR 0x0A \<or> b = CHR 0x0D)"

lemma lower_idem [simp]: "lower (lower c) = lower c"
  by (auto simp: lower_def less_eq_char_def)

lemma EqualFold_iff: "EqualFold s t \<longleftrightarrow> map lower s = map lower t"
proof -
  have "length s = length t \<Longrightarrow> equal_fold_loop s t \<longleftrightarrow> map lower s = map lower t"
    by (induction s t rule: list_induct2) auto
  then show ?thesis
    unfolding EqualFold_def using map_eq_imp_length_eq by auto
qed

lemma EqualFold_refl [simp]: "EqualFold s s"
  by (simp add: EqualFold_iff)

lemma EqualFold_sym: "EqualFold s t \<Longrightarrow> EqualFold t s"
  by (simp add: EqualFold_iff)

lemma EqualFold_trans: "EqualFold s t \<Longrightarrow> EqualFold t u \<Longrightarrow> EqualFold s u"
  by (simp add: EqualFold_iff)

lemma IsPrint_Is: "IsPrint s \<Longrightarrow> Is s"
  by (auto simp: IsPrint_def Is_def less_char_def elim!: list.pred_mono_strong)

end
