(* ===== verification/Url_Escape.thy ===== *)
theory Url_Escape
  imports Ascii
begin

unbundle bit_operations_syntax

text \<open>
  Percent escaping of src/url/url.go: which bytes of a component are escaped, escape and
  unescape.  A byte is read as a number by \<open>of_char\<close>; the nibble arithmetic is written with the
  bit operations of the source.
\<close>

section \<open>Hexadecimal digits\<close>

definition upperhex :: string where
  "upperhex = ''0123456789ABCDEF''"

definition ishex :: "char \<Rightarrow> bool" where
  "ishex c =
     (if in_range (CHR ''0'') (CHR ''9'') c then True
      else if in_range (CHR ''a'') (CHR ''f'') c then True
      else if in_range (CHR ''A'') (CHR ''F'') c then True
      else False)"

definition unhex :: "char \<Rightarrow> nat" where
  "unhex c =
     (if in_range (CHR ''0'') (CHR ''9'') c then of_char c - of_char (CHR ''0'')
      else if in_range (CHR ''a'') (CHR ''f'') c then of_char c - of_char (CHR ''a'') + 10
      else if in_range (CHR ''A'') (CHR ''F'') c then of_char c - of_char (CHR ''A'') + 10
      else 0)"

definition unhex_pair :: "char \<Rightarrow> char \<Rightarrow> char" where
  "unhex_pair a b = char_of (push_bit 4 (unhex a) OR unhex b)"

section \<open>The encodings\<close>

datatype encoding =
  encodePath | encodePathSegment | encodeHost | encodeZone
| encodeUserPassword | encodeQueryComponent | encodeFragment

instantiation encoding :: enum
begin

definition enum_encoding :: "encoding list" where
  "enum_encoding = [encodePath, encodePathSegment, encodeHost, encodeZone,
     encodeUserPassword, encodeQueryComponent, encodeFragment]"

definition enum_all_encoding :: "(encoding \<Rightarrow> bool) \<Rightarrow> bool" where
  "enum_all_encoding P = list_all P enum_class.enum"

definition enum_ex_encoding :: "(encoding \<Rightarrow> bool) \<Rightarrow> bool" where
  "enum_ex_encoding P = list_ex P enum_class.enum"

instance
proof
  show u: "(UNIV :: encoding set) = set enum_class.enum"
    by (auto simp: enum_encoding_def) (metis encoding.exhaust)
  show "distinct (enum_class.enum :: encoding list)"
    by (simp add: enum_encoding_def)
  show "enum_class.enum_all P = Ball (UNIV :: encoding set) P" for P
    by (simp add: enum_all_encoding_def list_all_iff u)
  show "enum_class.enum_ex P = Bex (UNIV :: encoding set) P" for P
    by (simp add: enum_ex_encoding_def list_ex_iff u)
qed

end

datatype url_error =
  EscapeError string
| InvalidHostError string
| UrlMsg string

definition shouldEscape :: "char \<Rightarrow> encoding \<Rightarrow> bool" where
  "shouldEscape c mode =
     (if in_range (CHR ''a'') (CHR ''z'') c \<or> in_range (CHR ''A'') (CHR ''Z'') c
         \<or> in_range (CHR ''0'') (CHR ''9'') c then False
      else if (mode = encodeHost \<or> mode = encodeZone)
         \<and> c \<in> set (''!$&'' @ [CHR 0x27] @ ''()*+,;=:[]<>'' @ [CHR 0x22]) then False
      else if c \<in> set ''-_.~'' then False
      else if c \<in> set ''$&+,/:;=?@'' \<and> mode \<notin> {encodeHost, encodeZone} then
        (case mode of
           encodePath \<Rightarrow> c = CHR ''?''
         | encodePathSegment \<Rightarrow> c = CHR ''/'' \<or> c = CHR '';'' \<or> c = CHR '','' \<or> c = CHR ''?''
         | encodeUserPassword \<Rightarrow> c = CHR ''@'' \<or> c = CHR ''/'' \<or> c = CHR ''?'' \<or> c = CHR '':''
         | encodeQueryComponent \<Rightarrow> True
         | _ \<Rightarrow> False)
      else if mode = encodeFragment \<and> c \<in> set ''!()*'' then False
      else True)"

section \<open>unescape\<close>

text \<open>
  The first loop counts the escapes and checks that they are well formed; the second decodes.
\<close>

fun unescape_check :: "encoding \<Rightarrow> string \<Rightarrow> nat \<Rightarrow> bool \<Rightarrow> url_error + nat \<times> bool" where
  "unescape_check mode [] n hasPlus = Inr (n, hasPlus)"
| "unescape_check mode (c # s) n hasPlus =
     (if c = CHR ''%'' then
        (case s of
           a # b # s' \<Rightarrow>
             if \<not> ishex a \<or> \<not> ishex b then Inl (EscapeError (take 3 (c # s)))
             else if mode = encodeHost \<and> unhex a < 8 \<and> [c, a, b] \<noteq> ''%25'' then
               Inl (EscapeError [c, a, b])
             else if mode = encodeZone \<and> [c, a, b] \<noteq> ''%25'' \<and> unhex_pair a b \<noteq> CHR '' ''
                 \<and> shouldEscape (unhex_pair a b) encodeHost then
               Inl (EscapeError [c, a, b])
             else unescape_check mode s' (Suc n) hasPlus
         | _ \<Rightarrow> Inl (EscapeError (take 3 (c # s))))
      else if c = CHR ''+'' then unescape_check mode s n (mode = encodeQueryComponent)
      else if (mode = encodeHost \<or> mode = encodeZone) \<and> c < CHR 0x80 \<and> shouldEscape c mode then
        Inl (InvalidHostError [c])
      else unescape_check mode s n hasPlus)"

fun unescape_decode :: "encoding \<Rightarrow> string \<Rightarrow> string" where
  "unescape_decode mode [] = []"
| "unescape_decode mode (c # s) =
     (if c = CHR ''%'' then
        (case s of a # b # s' \<Rightarrow> unhex_pair a b # unescape_decode mode s' | _ \<Rightarrow> [])
      else if c = CHR ''+'' then
        (if mode = encodeQueryComponent then CHR '' '' else CHR ''+'') # unescape_decode mode s
      else c # unescape_decode mode s)"

definition unescape :: "string \<Rightarrow> encoding \<Rightarrow> url_error + string" where
  "unescape s mode =
     and_then (unescape_check mode s 0 False)
       (\<lambda>(n, hasPlus). if n = 0 \<and> \<not> hasPlus then Inr s else Inr (unescape_decode mode s))"

definition QueryUnescape :: "string \<Rightarrow> url_error + string" where
  "QueryUnescape s = unescape s encodeQueryComponent"

definition PathUnescape :: "string \<Rightarrow> url_error + string" where
  "PathUnescape s = unescape s encodePathSegment"

section \<open>escape\<close>

definition escape_spaceCount :: "string \<Rightarrow> encoding \<Rightarrow> nat" where
  "escape_spaceCount s mode =
     length (filter (\<lambda>c. shouldEscape c mode \<and> c = CHR '' '' \<and> mode = encodeQueryComponent) s)"

definition escape_hexCount :: "string \<Rightarrow> encoding \<Rightarrow> nat" where
  "escape_hexCount s mode =
     length (filter (\<lambda>c. shouldEscape c mode \<and> \<not> (c = CHR '' '' \<and> mode = encodeQueryComponent)) s)"

fun escape_fill :: "string \<Rightarrow> encoding \<Rightarrow> string" where
  "escape_fill [] mode = []"
| "escape_fill (c # s) mode =
     (if c = CHR '' '' \<and> mode = encodeQueryComponent then CHR ''+'' # escape_fill s mode
      else if shouldEscape c mode then
        CHR ''%'' # upperhex ! drop_bit 4 (of_char c) # upperhex ! (of_char c AND 15)
          # escape_fill s mode
      else c # escape_fill s mode)"

definition escape :: "string \<Rightarrow> encoding \<Rightarrow> string" where
  "escape s mode =
     (if escape_spaceCount s mode = 0 \<and> escape_hexCount s mode = 0 then s
      else if escape_hexCount s mode = 0 then
        map (\<lambda>c. if c = CHR '' '' then CHR ''+'' else c) s
      else escape_fill s mode)"

definition QueryEscape :: "string \<Rightarrow> string" where
  "QueryEscape s = escape s encodeQueryComponent"

definition PathEscape :: "string \<Rightarrow> string" where
  "PathEscape s = escape s encodePathSegment"

definition validEncoded :: "string \<Rightarrow> encoding \<Rightarrow> bool" where
  "validEncoded s mode =
     list_all (\<lambda>c.
       if c \<in> set (''!$&'' @ [CHR 0x27] @ ''()*+,;=:@'') then True
       else if c \<in> set ''[]'' then True
       else if c = CHR ''%'' then True
       else \<not> shouldEscape c mode) s"

section \<open>Correctness\<close>

text \<open>The fast paths of the two functions compute what their general loops compute.\<close>

lemma shouldEscape_space: "shouldEscape (CHR '' '') mode"
  by (cases mode) (simp_all add: shouldEscape_def)

lemma shouldEscape_percent: "shouldEscape (CHR ''%'') mode"
  by (cases mode) (simp_all add: shouldEscape_def)

lemma shouldEscape_plus_query: "shouldEscape (CHR ''+'') encodeQueryComponent"
  by (simp add: shouldEscape_def)

lemma escape_fill_id:
  "escape_spaceCount s mode = 0 \<Longrightarrow> escape_hexCount s mode = 0 \<Longrightarrow> escape_fill s mode = s"
  by (induction s)
    (auto simp: escape_spaceCount_def escape_hexCount_def shouldEscape_space split: if_splits)

lemma escape_fill_spaces:
  "escape_hexCount s mode = 0 \<Longrightarrow> escape_spaceCount s mode \<noteq> 0 \<Longrightarrow>
     escape_fill s mode = map (\<lambda>c. if c = CHR '' '' then CHR ''+'' else c) s"
proof -
  assume h: "escape_hexCount s mode = 0" and "escape_spaceCount s mode \<noteq> 0"
  then have m: "mode = encodeQueryComponent"
    by (auto simp: escape_spaceCount_def filter_empty_conv)
  from h show ?thesis unfolding m
    by (induction s) (auto simp: escape_hexCount_def split: if_splits)
qed

lemma escape_is_fill: "escape s mode = escape_fill s mode"
  by (auto simp: escape_def escape_fill_id escape_fill_spaces)

lemma unescape_check_count:
  "unescape_check mode s n p = Inr (n', p') \<Longrightarrow> n \<le> n' \<and>
     (n' = n \<longrightarrow> CHR ''%'' \<notin> set s) \<and>
     (mode = encodeQueryComponent \<and> (p \<or> n' = n \<and> CHR ''+'' \<in> set s) \<longrightarrow> p')"
proof (induction mode s n p rule: unescape_check.induct)
  case (2 mode c s n p)
  show ?case
  proof (cases "c = CHR ''%''")
    case True
    then obtain a b s' where s: "s = a # b # s'"
      using "2.prems" by (auto split: list.splits)
    have "unescape_check mode s' (Suc n) p = Inr (n', p')"
      using "2.prems" True by (simp add: s split: if_splits)
    then show ?thesis
      using "2.IH"(1)[OF True s] "2.prems" True by (simp add: s split: if_splits)
  next
    case False
    then show ?thesis
      using "2.IH"(2)[OF False] "2.IH"(3)[OF False] "2.prems"
      by (simp split: if_splits)
  qed
qed auto

lemma unescape_decode_id:
  "CHR ''%'' \<notin> set s \<Longrightarrow> mode = encodeQueryComponent \<longrightarrow> CHR ''+'' \<notin> set s \<Longrightarrow>
     unescape_decode mode s = s"
  by (induction s) auto

lemma unescape_is_decode:
  "unescape s mode =
     (case unescape_check mode s 0 False of
        Inl e \<Rightarrow> Inl e
      | Inr _ \<Rightarrow> Inr (unescape_decode mode s))"
proof (cases "unescape_check mode s 0 False")
  case (Inr r)
  obtain n p where r: "r = (n, p)" by (cases r)
  then show ?thesis
    using Inr unescape_check_count[of mode s 0 False n p]
    by (auto simp: unescape_def intro!: unescape_decode_id[symmetric])
qed (simp add: unescape_def)

text \<open>What escape writes for one byte is read back as that byte.\<close>

abbreviation hi_digit :: "char \<Rightarrow> char" where
  "hi_digit c \<equiv> upperhex ! drop_bit 4 (of_char c)"

abbreviation lo_digit :: "char \<Rightarrow> char" where
  "lo_digit c \<equiv> upperhex ! (of_char c AND 15)"

lemma upperhex_digit: "i < 16 \<Longrightarrow> ishex (upperhex ! i) \<and> unhex (upperhex ! i) = i"
proof -
  have "list_all (\<lambda>i. ishex (upperhex ! i) \<and> unhex (upperhex ! i) = i) [0..<16]"
    by code_simp
  then show "i < 16 \<Longrightarrow> ?thesis" by (simp add: list_all_iff)
qed

lemma nibbles: "push_bit 4 (drop_bit 4 n) OR (n AND 15) = (n :: nat)"
proof -
  have "n AND 15 = take_bit 4 n" by (simp add: take_bit_eq_mask mask_eq_exp_minus_1)
  then show ?thesis by (auto intro!: bit_eqI simp: bit_simps)
qed

lemma escape_digits:
  "ishex (hi_digit c) \<and> ishex (lo_digit c) \<and> unhex_pair (hi_digit c) (lo_digit c) = c"
proof -
  let ?n = "of_char c :: nat"
  have "?n < 256" by simp
  then have "drop_bit 4 ?n < 16" by (simp add: drop_bit_eq_div div_less_iff_less_mult)
  moreover have "?n AND 15 < 16"
    using take_bit_nat_less_exp[of 4 ?n] by (simp add: take_bit_eq_mask mask_eq_exp_minus_1)
  ultimately show ?thesis
    by (simp add: upperhex_digit unhex_pair_def nibbles)
qed

lemmas escape_digit_simps [simp] =
  escape_digits[THEN conjunct1] escape_digits[THEN conjunct2, THEN conjunct1]
  escape_digits[THEN conjunct2, THEN conjunct2]

lemma decode_escape_fill: "unescape_decode mode (escape_fill s mode) = s"
proof (induction s)
  case (Cons c s)
  then show ?case
    using shouldEscape_percent[of mode] shouldEscape_plus_query
    by auto
qed simp

text \<open>
  The bytes for which a mode's escaping is reversible.  Every byte is, except in the two host
  modes: there RFC 3986 and RFC 6874 restrict what an escape may stand for, so some bytes are
  escaped to a triple that unescape refuses.
\<close>

definition reversible :: "encoding \<Rightarrow> char \<Rightarrow> bool" where
  "reversible mode c =
     (case mode of
        encodeHost \<Rightarrow> shouldEscape c mode \<longrightarrow> c = CHR ''%'' \<or> CHR 0x80 \<le> c
      | encodeZone \<Rightarrow> shouldEscape c mode \<longrightarrow> c = CHR ''%'' \<or> c = CHR '' ''
      | _ \<Rightarrow> True)"

lemma hi_digit_ascii: "unhex (hi_digit c) < 8 \<longleftrightarrow> c < CHR 0x80"
proof -
  have "drop_bit 4 (of_char c :: nat) < 16" by (simp add: drop_bit_eq_div div_less_iff_less_mult)
  then have "unhex (hi_digit c) = of_char c div 16"
    by (simp add: upperhex_digit drop_bit_eq_div)
  then show ?thesis by (simp add: less_char_def div_less_iff_less_mult)
qed

lemma percent_digits: "hi_digit c = CHR ''2'' \<and> lo_digit c = CHR ''5'' \<longleftrightarrow> c = CHR ''%''"
proof
  assume "hi_digit c = CHR ''2'' \<and> lo_digit c = CHR ''5''"
  then have "unhex_pair (CHR ''2'') (CHR ''5'') = c" using escape_digits[of c] by metis
  moreover have "unhex_pair (CHR ''2'') (CHR ''5'') = CHR ''%''" by code_simp
  ultimately show "c = CHR ''%''" by simp
qed (simp add: upperhex_def)

lemma shouldEscape_zone: "shouldEscape c encodeZone = shouldEscape c encodeHost"
  by (simp add: shouldEscape_def)

lemma shouldEscape_plus_host: "\<not> shouldEscape (CHR ''+'') encodeHost"
  by (simp add: shouldEscape_def)

lemma check_escape_fill:
  "(\<exists>r. unescape_check mode (escape_fill s mode) n p = Inr r) \<longleftrightarrow> list_all (reversible mode) s"
proof (induction s arbitrary: n p)
  case (Cons c s)
  have plain: "reversible mode c" if "\<not> shouldEscape c mode"
    using that by (auto simp: reversible_def split: encoding.split)
  have space: "reversible mode (CHR '' '')" if "mode = encodeQueryComponent"
    using that by (simp add: reversible_def)
  show ?case
    using Cons.IH plain space shouldEscape_percent[of mode]
    by (cases mode)
      (auto simp: reversible_def shouldEscape_zone percent_digits hi_digit_ascii not_less
        split: if_splits)
qed simp

lemma unescape_escape_iff: "unescape (escape s mode) mode = Inr s \<longleftrightarrow> list_all (reversible mode) s"
  unfolding check_escape_fill[of mode s 0 False, symmetric] escape_is_fill unescape_is_decode
  by (auto simp: decode_escape_fill split: sum.splits)

lemma unescape_escape:
  "mode \<notin> {encodeHost, encodeZone} \<Longrightarrow> unescape (escape s mode) mode = Inr s"
  by (cases mode) (auto simp: unescape_escape_iff reversible_def list_all_iff)

text \<open>An escaped string holds no byte that its mode would escape again.\<close>

lemma upperhex_plain: "i < 16 \<Longrightarrow> \<not> shouldEscape (upperhex ! i) mode"
proof -
  have "list_all (\<lambda>i. CHR ''A'' \<le> upperhex ! i \<and> upperhex ! i \<le> CHR ''F''
      \<or> CHR ''0'' \<le> upperhex ! i \<and> upperhex ! i \<le> CHR ''9'') [0..<16]"
    by code_simp
  then have "i < 16 \<Longrightarrow> CHR ''A'' \<le> upperhex ! i \<and> upperhex ! i \<le> CHR ''F''
      \<or> CHR ''0'' \<le> upperhex ! i \<and> upperhex ! i \<le> CHR ''9''"
    by (simp add: list_all_iff)
  then show "i < 16 \<Longrightarrow> ?thesis"
    unfolding shouldEscape_def by (auto intro: order_trans)
qed

lemma digits_plain: "\<not> shouldEscape (hi_digit c) mode" "\<not> shouldEscape (lo_digit c) mode"
proof -
  show "\<not> shouldEscape (hi_digit c) mode"
    by (rule upperhex_plain) (simp add: drop_bit_eq_div div_less_iff_less_mult)
  show "\<not> shouldEscape (lo_digit c) mode"
    using take_bit_nat_less_exp[of 4 "of_char c"]
    by (intro upperhex_plain) (simp add: take_bit_eq_mask mask_eq_exp_minus_1)
qed

definition escaped_byte :: "encoding \<Rightarrow> char \<Rightarrow> bool" where
  "escaped_byte mode c = (c = CHR ''%'' \<or> c = CHR ''+'' \<or> \<not> shouldEscape c mode)"

lemma validEncodedI: "list_all (escaped_byte mode) s \<Longrightarrow> validEncoded s mode"
  unfolding validEncoded_def escaped_byte_def by (erule list.pred_mono_strong) auto

lemma escaped_byte_escape: "list_all (escaped_byte mode) (escape s mode)"
  unfolding escape_is_fill by (induction s) (auto simp: escaped_byte_def digits_plain)

lemma validEncoded_escape: "validEncoded (escape s mode) mode"
  by (rule validEncodedI[OF escaped_byte_escape])

lemma unescape_length: "unescape s mode = Inr t \<Longrightarrow> length t \<le> length s"
proof -
  have "length (unescape_decode mode s) \<le> length s"
  proof (induction s rule: length_induct)
    case (1 s)
    show ?case
    proof (cases s)
      case (Cons c t)
      have "length (unescape_decode mode t) \<le> length t" using 1 Cons by simp
      moreover have "t = a # b # u \<Longrightarrow> length (unescape_decode mode u) \<le> length u" for a b u
        using 1 Cons by simp
      ultimately show ?thesis using Cons by (force split: list.split)
    qed simp
  qed
  then show "unescape s mode = Inr t \<Longrightarrow> ?thesis"
    by (auto simp: unescape_is_decode split: sum.splits)
qed

lemma unescape_Nil [simp]: "unescape [] mode = Inr []"
  by (simp add: unescape_def)

lemma escape_Nil [simp]: "escape [] mode = []"
  by (simp add: escape_is_fill)

section \<open>Properties\<close>

text \<open>C19: Escaping and unescaping are inverse in a mode exactly when every byte of the string is
  reversible in it: always outside host names, and in host names for all but the ASCII bytes that would have
  to be escaped, which the decoder refuses there.  What escape produces is always a valid encoding, and
  unescape never lengthens its input.\<close>

theorem escape_roundtrip:
  "(unescape (escape s mode) mode = Inr s \<longleftrightarrow> list_all (reversible mode) s) \<and>
   validEncoded (escape s mode) mode \<and>
   (case unescape s mode of Inl _ \<Rightarrow> True | Inr t \<Rightarrow> length t \<le> length s)"
  using unescape_escape_iff validEncoded_escape unescape_length by (auto split: sum.split)

end
