(* ===== verification/Clean_Path.thy ===== *)
theory Clean_Path
  imports Go_Prelude
begin

text \<open>
  Lexical cleaning of slash separated paths: the functions Clean, Join and Split of the standard
  package path that the sources call, on the segments of the path, and cleanPath of
  src/http/server.go, which puts the trailing slash back.
\<close>

section \<open>The package path\<close>

definition clean_step :: "bool \<Rightarrow> string list \<Rightarrow> string \<Rightarrow> string list" where
  "clean_step rooted st e =
     (if e = [] \<or> e = ''.'' then st
      else if e = ''..'' then
        (case st of
           [] \<Rightarrow> if rooted then [] else [''..'']
         | t # ts \<Rightarrow> if t = ''..'' then ''..'' # st else ts)
      else e # st)"

definition clean_stack :: "bool \<Rightarrow> string list \<Rightarrow> string list" where
  "clean_stack rooted ws = rev (fold (\<lambda>e st. clean_step rooted st e) ws [])"

definition path_Clean :: "string \<Rightarrow> string" where
  "path_Clean p =
     (if p = [] then ''.''
      else let rooted = (hd p = CHR ''/'');
               body = join_with ''/'' (clean_stack rooted (split_byte (CHR ''/'') p))
           in if rooted then CHR ''/'' # body
              else if body = [] then ''.'' else body)"

definition path_Join :: "string list \<Rightarrow> string" where
  "path_Join elem =
     (let ne = filter (\<lambda>e. e \<noteq> []) elem
      in if ne = [] then [] else path_Clean (join_with ''/'' ne))"

definition path_Split :: "string \<Rightarrow> string \<times> string" where
  "path_Split p =
     (case last_index_byte (CHR ''/'') p of
        None \<Rightarrow> ([], p)
      | Some i \<Rightarrow> (take (Suc i) p, drop (Suc i) p))"

section \<open>cleanPath\<close>

definition cleanPath :: "string \<Rightarrow> string" where
  "cleanPath p0 =
     (if p0 = [] then ''/''
      else let p = (if hd p0 \<noteq> CHR ''/'' then CHR ''/'' # p0 else p0);
               np = path_Clean p
           in if last p = CHR ''/'' \<and> np \<noteq> ''/'' then
                (if length p = length np + 1 \<and> has_prefix p np then p else np @ ''/'')
              else np)"

text \<open>
  A clean path is rooted, and none of its segments is a dot segment or empty, except that it may
  end in a slash.
\<close>

definition plain_segment :: "string \<Rightarrow> bool" where
  "plain_segment w = (w \<noteq> [] \<and> w \<noteq> ''.'' \<and> w \<noteq> ''..'')"

definition is_clean :: "string \<Rightarrow> bool" where
  "is_clean q =
     (q \<noteq> [] \<and> hd q = CHR ''/'' \<and>
      (let ws = split_byte (CHR ''/'') (tl q)
       in list_all plain_segment (butlast ws) \<and> (last ws = [] \<or> plain_segment (last ws))))"

section \<open>Correctness\<close>

lemma clean_step_plain: "plain_segment w \<Longrightarrow> clean_step r st w = w # st"
  by (simp add: clean_step_def plain_segment_def)

lemma clean_fold_plain:
  "list_all plain_segment ws \<Longrightarrow> fold (\<lambda>e st. clean_step r st e) ws st = rev ws @ st"
  by (induction ws arbitrary: st) (auto simp: clean_step_plain)

lemma clean_stack_plain: "list_all plain_segment ws \<Longrightarrow> clean_stack r ws = ws"
  by (simp add: clean_stack_def clean_fold_plain)

lemma clean_stack_empty_ends:
  "clean_stack r ([] # ws) = clean_stack r ws" "clean_stack r (ws @ [[]]) = clean_stack r ws"
  by (simp_all add: clean_stack_def clean_step_def)

lemma clean_fold_rooted:
  "list_all plain_segment st \<Longrightarrow>
     list_all plain_segment (fold (\<lambda>e st. clean_step True st e) ws st) \<and>
     set (fold (\<lambda>e st. clean_step True st e) ws st) \<subseteq> set st \<union> set ws"
proof (induction ws arbitrary: st)
  case (Cons w ws)
  have "list_all plain_segment (clean_step True st w)" "set (clean_step True st w) \<subseteq> insert w (set st)"
    using Cons.prems
    by (auto simp: clean_step_def list_all_iff split: list.splits) (auto simp: plain_segment_def)
  then show ?case using Cons.IH[of "clean_step True st w"] by auto
qed simp

lemma clean_stack_rooted:
  "list_all plain_segment (clean_stack True ws)" "set (clean_stack True ws) \<subseteq> set ws"
  using clean_fold_rooted[of "[]" ws] by (auto simp: clean_stack_def list_all_iff)

abbreviation slash_free :: "string list \<Rightarrow> bool" where
  "slash_free ws \<equiv> \<forall>w\<in>set ws. CHR ''/'' \<notin> set w"

lemma join_snoc_empty:
  "ws \<noteq> [] \<Longrightarrow> join_with ''/'' (ws @ [[]]) = join_with ''/'' ws @ ''/''"
  by (induction "''/''" ws rule: join_with.induct) auto

lemma join_Nil_iff: "list_all plain_segment ws \<Longrightarrow> join_with ''/'' ws = [] \<longleftrightarrow> ws = []"
  by (cases ws rule: remdups_adj.cases) (auto simp: plain_segment_def)

lemma last_join: "list_all plain_segment ws \<Longrightarrow> slash_free ws \<Longrightarrow> ws \<noteq> [] \<Longrightarrow>
    last (join_with ''/'' ws) \<noteq> CHR ''/''"
proof (induction "''/''" ws rule: join_with.induct)
  case (2 w)
  then have "w \<noteq> []" "CHR ''/'' \<notin> set w" by (auto simp: plain_segment_def)
  then show ?case by (metis join_with.simps(2) last_in_set)
next
  case (3 w v ws)
  then show ?case
    using join_Nil_iff[of "v # ws"] by (auto simp: list_all_iff)
qed simp

lemma is_clean_join:
  assumes "list_all plain_segment ws" and "slash_free ws"
  shows "is_clean (CHR ''/'' # join_with ''/'' ws)"
    and "ws \<noteq> [] \<Longrightarrow> is_clean (CHR ''/'' # join_with ''/'' ws @ ''/'')"
proof -
  show "is_clean (CHR ''/'' # join_with ''/'' ws)"
  proof (cases "ws = []")
    case False
    then have "split_byte (CHR ''/'') (join_with ''/'' ws) = ws"
      using assms(2) by (rule split_join_byte)
    then show ?thesis using assms(1) False
      by (simp add: is_clean_def list_all_iff) (meson in_set_butlastD last_in_set)
  qed (simp add: is_clean_def)
next
  assume ne: "ws \<noteq> []"
  have "split_byte (CHR ''/'') (join_with ''/'' (ws @ [[]])) = ws @ [[]]"
    using assms(2) by (intro split_join_byte) auto
  then show "is_clean (CHR ''/'' # join_with ''/'' ws @ ''/'')"
    using assms(1) ne by (simp add: is_clean_def join_snoc_empty)
qed

lemma path_Clean_rooted:
  assumes "p \<noteq> []" and "hd p = CHR ''/''"
  obtains ws where "list_all plain_segment ws" and "slash_free ws"
    and "path_Clean p = CHR ''/'' # join_with ''/'' ws"
proof -
  obtain q where p: "p = CHR ''/'' # q" using assms by (cases p) auto
  let ?ws = "clean_stack True (split_byte (CHR ''/'') q)"
  have "slash_free ?ws"
    using clean_stack_rooted(2)[of "split_byte (CHR ''/'') q"] split_byte_parts by blast
  then show thesis
    using that[of ?ws] clean_stack_rooted(1)[of "split_byte (CHR ''/'') q"] p
    by (simp add: path_Clean_def clean_stack_empty_ends)
qed

text \<open>The fast path of cleanPath returns what its general case computes.\<close>

lemma cleanPath_rooted_eq:
  assumes "p \<noteq> []" and "hd p = CHR ''/''"
  shows "cleanPath p =
     (if last p = CHR ''/'' \<and> path_Clean p \<noteq> ''/'' then path_Clean p @ ''/'' else path_Clean p)"
proof -
  have same: "p = path_Clean p @ ''/''"
    if "last p = CHR ''/''" and l: "length p = length (path_Clean p) + 1"
      and pre: "has_prefix p (path_Clean p)"
  proof -
    obtain t where t: "p = path_Clean p @ t" using pre by (auto simp: has_prefix_iff)
    then have "length t = 1" using l by (metis add_left_cancel length_append)
    then obtain c where "t = [c]" by (cases t) auto
    then show ?thesis using t \<open>last p = CHR ''/''\<close> by (metis last_snoc)
  qed
  have "cleanPath p = (if last p = CHR ''/'' \<and> path_Clean p \<noteq> ''/'' then
        (if length p = length (path_Clean p) + 1 \<and> has_prefix p (path_Clean p) then p
         else path_Clean p @ ''/'') else path_Clean p)"
    using assms unfolding cleanPath_def Let_def by simp
  then show ?thesis using same by metis
qed

lemma cleanPath_unrooted: "hd p \<noteq> CHR ''/'' \<Longrightarrow> p \<noteq> [] \<Longrightarrow> cleanPath p = cleanPath (CHR ''/'' # p)"
  by (simp add: cleanPath_def)

lemma cleanPath_is_clean: "is_clean (cleanPath p)"
proof -
  have rooted: "is_clean (cleanPath p')" if p': "p' \<noteq> []" "hd p' = CHR ''/''" for p'
  proof -
    obtain ws where ws: "list_all plain_segment ws" "slash_free ws"
      "path_Clean p' = CHR ''/'' # join_with ''/'' ws"
      using p' by (rule path_Clean_rooted)
    then show ?thesis
      using is_clean_join[OF ws(1,2)] join_Nil_iff[OF ws(1)] by (auto simp: cleanPath_rooted_eq[OF p'])
  qed
  show ?thesis
  proof (cases "p = []")
    case False
    then show ?thesis using rooted[of p] rooted[of "CHR ''/'' # p"] cleanPath_unrooted[of p] by fastforce
  qed (simp add: cleanPath_def is_clean_def)
qed

lemma cleanPath_fixed:
  assumes "is_clean p"
  shows "cleanPath p = p"
proof -
  obtain q where p: "p = CHR ''/'' # q" using assms by (cases p) (auto simp: is_clean_def)
  let ?ws = "split_byte (CHR ''/'') q"
  have sf: "slash_free ?ws" using split_byte_parts by blast
  have j: "join_with ''/'' ?ws = q" by (rule join_split_byte)
  have ws: "list_all plain_segment (butlast ?ws)" "last ?ws = [] \<or> plain_segment (last ?ws)"
    using assms by (auto simp: is_clean_def p Let_def)
  have bl: "butlast ?ws @ [last ?ws] = ?ws" by simp
  have eq: "cleanPath p =
     (if last p = CHR ''/'' \<and> path_Clean p \<noteq> ''/'' then path_Clean p @ ''/'' else path_Clean p)"
    by (rule cleanPath_rooted_eq) (simp_all add: p)
  have pc: "path_Clean p = CHR ''/'' # join_with ''/'' (clean_stack True ?ws)"
    by (simp add: path_Clean_def p clean_stack_empty_ends)
  show ?thesis
  proof (cases "last ?ws = []")
    case True
    then have st: "clean_stack True ?ws = butlast ?ws"
      using bl clean_stack_empty_ends(2)[of True "butlast ?ws"] clean_stack_plain[OF ws(1)] by simp
    show ?thesis
    proof (cases "butlast ?ws = []")
      case True
      then have "?ws = [[]]" using bl \<open>last ?ws = []\<close> by simp
      then have "q = []" using j by simp
      then show ?thesis using pc eq by (simp add: p clean_stack_def clean_step_def)
    next
      case False
      then have "q = join_with ''/'' (butlast ?ws) @ ''/''"
        using join_snoc_empty[of "butlast ?ws"] bl \<open>last ?ws = []\<close> j by simp
      then have "p = path_Clean p @ ''/''" using pc st p by simp
      moreover from this have "last p = CHR ''/''" by (metis last_snoc)
      moreover have "path_Clean p \<noteq> ''/''"
        using pc st join_Nil_iff[OF ws(1)] False by auto
      ultimately show ?thesis using eq by simp
    qed
  next
    case False
    then have all: "list_all plain_segment ?ws" using ws bl by (metis list.pred_inject list_all_append)
    then have "path_Clean p = p" using pc j p by (simp add: clean_stack_plain)
    moreover have "last p \<noteq> CHR ''/''"
      using last_join[OF all sf] j False p by auto
    ultimately show ?thesis using eq by simp
  qed
qed

lemma cleanPath_iff: "cleanPath p = p \<longleftrightarrow> is_clean p"
  using cleanPath_fixed cleanPath_is_clean by metis

lemma cleanPath_idem [simp]: "cleanPath (cleanPath p) = cleanPath p"
  by (rule cleanPath_fixed[OF cleanPath_is_clean])

lemma cleanPath_rooted: "\<exists>q. cleanPath p = CHR ''/'' # q"
  using cleanPath_is_clean[of p] by (cases "cleanPath p") (auto simp: is_clean_def)

section \<open>Properties\<close>

text \<open>cleanPath yields a rooted path without empty and dot segments, and leaves exactly such paths
  as they are.\<close>

theorem cleanPath_normal_form: "is_clean (cleanPath p) \<and> (cleanPath p = p \<longleftrightarrow> is_clean p)"
  using cleanPath_is_clean cleanPath_iff by blast

end
