(* ===== verification/Go_Utf8.thy ===== *)
theory Go_Utf8
  imports Go_Prelude
begin

unbundle bit_operations_syntax

text \<open>
  The loop \<open>for _, r := range s\<close> of Go: the code points of a string, read as UTF-8, with the
  replacement character for each byte that does not start a valid encoding.  The classification of
  code points beyond ASCII is a table of the standard library; the record \<open>unicode\<close> is the
  parameter that stands for it.
\<close>

record unicode =
  uni_letter :: "nat \<Rightarrow> bool"
  uni_digit :: "nat \<Rightarrow> bool"

abbreviation RuneError :: nat where
  "RuneError \<equiv> 0xFFFD"

abbreviation cont_byte :: "nat \<Rightarrow> nat \<Rightarrow> nat \<Rightarrow> bool" where
  "cont_byte lo hi b \<equiv> lo \<le> b \<and> b \<le> hi"

definition rune2 :: "nat \<Rightarrow> nat \<Rightarrow> nat" where
  "rune2 b0 b1 = push_bit 6 (b0 AND 0x1F) OR (b1 AND 0x3F)"

definition rune3 :: "nat \<Rightarrow> nat \<Rightarrow> nat \<Rightarrow> nat" where
  "rune3 b0 b1 b2 = push_bit 12 (b0 AND 0x0F) OR push_bit 6 (b1 AND 0x3F) OR (b2 AND 0x3F)"

definition rune4 :: "nat \<Rightarrow> nat \<Rightarrow> nat \<Rightarrow> nat \<Rightarrow> nat" where
  "rune4 b0 b1 b2 b3 = push_bit 18 (b0 AND 0x07) OR push_bit 12 (b1 AND 0x3F)
     OR push_bit 6 (b2 AND 0x3F) OR (b3 AND 0x3F)"

text \<open>The first code point of a string of byte values, and the number of bytes it takes.\<close>

definition decode_rune :: "nat list \<Rightarrow> nat \<times> nat" where
  "decode_rune bs =
     (case bs of
        [] \<Rightarrow> (RuneError, 1)
      | b0 # t \<Rightarrow>
          if b0 < 0x80 then (b0, 1)
          else if 0xC2 \<le> b0 \<and> b0 \<le> 0xDF then
            (case t of
               b1 # _ \<Rightarrow> if cont_byte 0x80 0xBF b1 then (rune2 b0 b1, 2) else (RuneError, 1)
             | _ \<Rightarrow> (RuneError, 1))
          else if 0xE0 \<le> b0 \<and> b0 \<le> 0xEF then
            (case t of
               b1 # b2 # _ \<Rightarrow>
                 if cont_byte (if b0 = 0xE0 then 0xA0 else 0x80) (if b0 = 0xED then 0x9F else 0xBF) b1
                   \<and> cont_byte 0x80 0xBF b2
                 then (rune3 b0 b1 b2, 3) else (RuneError, 1)
             | _ \<Rightarrow> (RuneError, 1))
          else if 0xF0 \<le> b0 \<and> b0 \<le> 0xF4 then
            (case t of
               b1 # b2 # b3 # _ \<Rightarrow>
                 if cont_byte (if b0 = 0xF0 then 0x90 else 0x80) (if b0 = 0xF4 then 0x8F else 0xBF) b1
                   \<and> cont_byte 0x80 0xBF b2 \<and> cont_byte 0x80 0xBF b3
                 then (rune4 b0 b1 b2 b3, 4) else (RuneError, 1)
             | _ \<Rightarrow> (RuneError, 1))
          else (RuneError, 1))"

lemma decode_rune_width: "0 < snd (decode_rune bs)"
  by (auto simp: decode_rune_def split: list.splits)

function runes_of :: "nat list \<Rightarrow> nat list" where
  "runes_of bs =
     (if bs = [] then []
      else let (r, w) = decode_rune bs in r # runes_of (drop w bs))"
  by pat_completeness auto
termination
proof (relation "measure length")
  fix bs :: "nat list" and p r w
  assume "bs \<noteq> []" "p = decode_rune bs" "(r, w) = p"
  then have "0 < w" using decode_rune_width[of bs] by (metis snd_conv)
  then show "(drop w bs, bs) \<in> measure length" using \<open>bs \<noteq> []\<close> by simp
qed simp

declare runes_of.simps [simp del]

definition runes :: "string \<Rightarrow> nat list" where
  "runes s = runes_of (map of_char s)"

definition IsLetter :: "unicode \<Rightarrow> nat \<Rightarrow> bool" where
  "IsLetter U r =
     (if r < 0x80 then 0x41 \<le> r \<and> r \<le> 0x5A \<or> 0x61 \<le> r \<and> r \<le> 0x7A else uni_letter U r)"

definition IsDigit :: "unicode \<Rightarrow> nat \<Rightarrow> bool" where
  "IsDigit U r = (if r < 0x80 then 0x30 \<le> r \<and> r \<le> 0x39 else uni_digit U r)"

lemma runes_Nil [simp]: "runes [] = []"
  by (simp add: runes_def runes_of.simps)

lemma runes_ascii [simp]: "c < CHR 0x80 \<Longrightarrow> runes (c # s) = of_char c # runes s"
  by (simp add: runes_def runes_of.simps[of "of_char c # map of_char s"] decode_rune_def less_char_def)

text \<open>On an ASCII string the code points are the bytes.\<close>

lemma runes_all_ascii: "list_all (\<lambda>c. c < CHR 0x80) s \<Longrightarrow> runes s = map of_char s"
  by (induction s) auto

lemma runes_of_nonempty: "runes s = [] \<longleftrightarrow> s = []"
  by (cases s) (auto simp: runes_def runes_of.simps split: prod.splits)

text \<open>
  An ASCII byte is decoded as itself wherever it stands: an encoding of several bytes consists of
  bytes from 0x80 upwards.
\<close>

lemma decode_rune_head:
  assumes "decode_rune bs = (r, w)" and "bs \<noteq> []"
  shows "\<forall>b\<in>set (take w bs). b < 0x80 \<longrightarrow> b = r"
  using assms by (auto simp: decode_rune_def split: list.splits if_splits)

lemma runes_of_ascii: "b \<in> set bs \<Longrightarrow> b < 0x80 \<Longrightarrow> b \<in> set (runes_of bs)"
proof (induction bs rule: runes_of.induct)
  case (1 bs)
  then have ne: "bs \<noteq> []" by auto
  obtain r w where rw: "decode_rune bs = (r, w)" by fastforce
  have "b \<in> set (take w bs) \<or> b \<in> set (drop w bs)"
    using "1.prems"(1) by (metis Un_iff append_take_drop_id set_append)
  then show ?case
    using "1.IH"[OF ne rw[symmetric] refl] decode_rune_head[OF rw ne] "1.prems"(2) ne rw
    by (auto simp: runes_of.simps[of bs])
qed

lemma runes_ascii_mem: "c \<in> set s \<Longrightarrow> c < CHR 0x80 \<Longrightarrow> of_char c \<in> set (runes s)"
  unfolding runes_def by (intro runes_of_ascii) (auto simp: less_char_def)

end
