(* ===== verification/Pattern.thy ===== *)
theory Pattern
  imports Url_Escape Clean_Path Go_Utf8
begin

text \<open>
  The patterns of ServeMux (src/http/pattern.go): a pattern string is parsed into an optional
  method, an optional host and a list of segments.
\<close>

record segment =
  seg_s :: string
  wild :: bool
  multi :: bool

record pattern =
  p_str :: string
  p_method :: string
  p_host :: string
  p_segments :: "segment list"
  p_loc :: string

abbreviation lit_seg :: "string \<Rightarrow> segment" where
  "lit_seg s \<equiv> \<lparr>seg_s = s, wild = False, multi = False\<rparr>"

abbreviation wild_seg :: "string \<Rightarrow> bool \<Rightarrow> segment" where
  "wild_seg s m \<equiv> \<lparr>seg_s = s, wild = True, multi = m\<rparr>"

text \<open>
  The errors of parsePattern.  All but the first carry the offset that the deferred function adds.
\<close>

datatype pattern_msg =
  HostPathMissingSlash | HostContainsBrace | UncleanPath
| BadWildcardStart | BadWildcardEnd | DollarNotAtEnd | MultiNotAtEnd
| EmptyWildcard | BadWildcardName string | DuplicateWildcardName string

datatype pattern_error = EmptyPattern | AtOffset nat pattern_msg

definition lastSegment :: "pattern \<Rightarrow> segment go" where
  "lastSegment p = (if p_segments p = [] then Panic ''index out of range''
                    else Ret (last (p_segments p)))"

fun wildcard_name_loop :: "unicode \<Rightarrow> bool \<Rightarrow> nat list \<Rightarrow> bool" where
  "wildcard_name_loop U is_first [] = True"
| "wildcard_name_loop U is_first (c # cs) =
     (if \<not> IsLetter U c \<and> c \<noteq> of_char (CHR ''_'') \<and> (is_first \<or> \<not> IsDigit U c) then False
      else wildcard_name_loop U False cs)"

definition isValidWildcardName :: "unicode \<Rightarrow> string \<Rightarrow> bool" where
  "isValidWildcardName U s = (if s = [] then False else wildcard_name_loop U True (runes s))"

definition pathUnescape :: "string \<Rightarrow> string" where
  "pathUnescape path = (case PathUnescape path of Inl _ \<Rightarrow> path | Inr u \<Rightarrow> u)"

text \<open>
  One pass of the loop over the path: the segment between two slashes, with \<open>at_end\<close> when
  nothing follows it.
\<close>

definition parse_segment ::
  "unicode \<Rightarrow> string list \<Rightarrow> string \<Rightarrow> bool \<Rightarrow> pattern_msg + segment" where
  "parse_segment U seenNames seg at_end =
     (case index_byte (CHR ''{'') seg of
        None \<Rightarrow> Inr (lit_seg (pathUnescape seg))
      | Some j \<Rightarrow>
          if j \<noteq> 0 then Inl BadWildcardStart
          else if last seg \<noteq> CHR ''}'' then Inl BadWildcardEnd
          else let name0 = take (length seg - 2) (drop 1 seg)
          in if name0 = ''$'' then
               (if \<not> at_end then Inl DollarNotAtEnd else Inr (lit_seg ''/''))
             else let (name, m) = cut_suffix name0 ''...''
             in if m \<and> \<not> at_end then Inl MultiNotAtEnd
                else if name = [] then Inl EmptyWildcard
                else if \<not> isValidWildcardName U name then Inl (BadWildcardName name)
                else if name \<in> set seenNames then Inl (DuplicateWildcardName name)
                else Inr (wild_seg name m))"

text \<open>
  The loop.  The argument \<open>len_s\<close> is the length of the whole pattern string, from which the
  offset is computed.
\<close>

function parse_segments ::
  "unicode \<Rightarrow> nat \<Rightarrow> string \<Rightarrow> string list \<Rightarrow> segment list \<Rightarrow> pattern_error + segment list" where
  "parse_segments U len_s rest0 seenNames segs =
     (if rest0 = [] then Inr segs
      else let rest = tl rest0; off = len_s - length rest
      in if rest = [] then Inr (segs @ [wild_seg [] True])
      else let i = (case index_byte (CHR ''/'') rest of None \<Rightarrow> length rest | Some i \<Rightarrow> i);
               seg = take i rest; rest' = drop i rest
      in (case parse_segment U seenNames seg (rest' = []) of
            Inl m \<Rightarrow> Inl (AtOffset off m)
          | Inr sg \<Rightarrow>
              parse_segments U len_s rest' (if wild sg then seg_s sg # seenNames else seenNames)
                (segs @ [sg])))"
  by pat_completeness auto
termination
  by (relation "measure (\<lambda>(U, n, rest, seen, segs). length rest)") auto

declare parse_segments.simps [simp del]

definition parsePattern :: "unicode \<Rightarrow> string \<Rightarrow> pattern_error + pattern" where
  "parsePattern U s =
     (if s = [] then Inl EmptyPattern
      else let (before, after, found) = cut_byte (CHR '' '') s;
               method = (if found then before else []);
               rest = (if found then after else before);
               off = (if found then length before + 1 else 0)
      in (case index_byte (CHR ''/'') rest of
            None \<Rightarrow> Inl (AtOffset off HostPathMissingSlash)
          | Some i \<Rightarrow>
              let host = take i rest; path = drop i rest
              in (case index_byte (CHR ''{'') host of
                    Some j \<Rightarrow> Inl (AtOffset (off + j) HostContainsBrace)
                  | None \<Rightarrow>
                      if method \<noteq> [] \<and> method \<noteq> ''CONNECT'' \<and> path \<noteq> cleanPath path then
                        Inl (AtOffset (off + i) UncleanPath)
                      else and_then (parse_segments U (length s) path [] [])
                        (\<lambda>segs. Inr \<lparr>p_str = s, p_method = method, p_host = host,
                                      p_segments = segs, p_loc = []\<rparr>))))"

section \<open>What a parsed pattern satisfies\<close>

definition wild_names :: "segment list \<Rightarrow> string list" where
  "wild_names segs = map seg_s (filter (\<lambda>s. wild s \<and> seg_s s \<noteq> []) segs)"

definition wf_segments :: "segment list \<Rightarrow> bool" where
  "wf_segments segs =
     (segs \<noteq> [] \<and> list_all (\<lambda>s. \<not> multi s) (butlast segs) \<and>
      list_all (\<lambda>s. multi s \<longrightarrow> wild s) segs \<and>
      list_all (\<lambda>s. wild s \<and> \<not> multi s \<longrightarrow> seg_s s \<noteq> []) segs \<and>
      distinct (wild_names segs))"

definition wf_pattern :: "pattern \<Rightarrow> bool" where
  "wf_pattern p = wf_segments (p_segments p)"

text \<open>What the loop knows of the segments found so far.\<close>

definition partial_segments :: "string list \<Rightarrow> segment list \<Rightarrow> bool" where
  "partial_segments seen segs =
     (list_all (\<lambda>s. \<not> multi s) segs \<and> list_all (\<lambda>s. wild s \<longrightarrow> seg_s s \<noteq> []) segs \<and>
      distinct (wild_names segs) \<and> set (wild_names segs) \<subseteq> set seen)"

lemma partial_snoc_lit: "partial_segments seen segs \<Longrightarrow> partial_segments seen (segs @ [lit_seg s])"
  by (auto simp: partial_segments_def wild_names_def)

lemma partial_snoc_wild:
  "partial_segments seen segs \<Longrightarrow> n \<notin> set seen \<Longrightarrow> n \<noteq> [] \<Longrightarrow>
     partial_segments (n # seen) (segs @ [wild_seg n False])"
  by (auto simp: partial_segments_def wild_names_def)

lemma wf_partial: "partial_segments seen segs \<Longrightarrow> segs \<noteq> [] \<Longrightarrow> wf_segments segs"
  by (auto simp: partial_segments_def wf_segments_def list_all_iff dest: in_set_butlastD)

lemma wf_partial_multi:
  "partial_segments seen segs \<Longrightarrow> n \<notin> set seen \<or> n = [] \<Longrightarrow> wf_segments (segs @ [wild_seg n True])"
  by (auto simp: partial_segments_def wf_segments_def wild_names_def list_all_iff)

lemma parse_segments_done: "parse_segments U n [] seen segs = Inr segs"
  by (simp add: parse_segments.simps)

text \<open>One pass keeps what is known, or ends the path.\<close>

lemma parse_segment_partial:
  assumes "parse_segment U seen seg at_end = Inr sg" and "partial_segments seen segs"
  shows "if multi sg then at_end \<and> wf_segments (segs @ [sg])
    else partial_segments (if wild sg then seg_s sg # seen else seen) (segs @ [sg])"
proof -
  have "sg = lit_seg (seg_s sg) \<or>
      (\<exists>m. sg = wild_seg (seg_s sg) m \<and> (m \<longrightarrow> at_end) \<and> seg_s sg \<noteq> [] \<and> seg_s sg \<notin> set seen)"
    using assms(1)
    by (auto simp: parse_segment_def Let_def split: option.splits if_splits prod.splits)
  then consider "sg = lit_seg (seg_s sg)"
    | "sg = wild_seg (seg_s sg) False" "seg_s sg \<noteq> []" "seg_s sg \<notin> set seen"
    | "sg = wild_seg (seg_s sg) True" "at_end" "seg_s sg \<notin> set seen"
    by (metis (full_types))
  then show ?thesis
  proof cases
    case 1
    then have "\<not> wild sg \<and> \<not> multi sg" by (metis segment.select_convs)
    then show ?thesis using partial_snoc_lit[OF assms(2), of "seg_s sg"] 1 by metis
  next
    case 2
    then have "wild sg \<and> \<not> multi sg" by (metis segment.select_convs)
    then show ?thesis using partial_snoc_wild[OF assms(2), of "seg_s sg"] 2 by metis
  next
    case 3
    then have "multi sg" by (metis segment.select_convs)
    then show ?thesis using wf_partial_multi[OF assms(2), of "seg_s sg"] 3 by metis
  qed
qed

lemma parse_segments_wf:
  "parse_segments U n rest seen segs = Inr segs' \<Longrightarrow> partial_segments seen segs \<Longrightarrow>
     rest \<noteq> [] \<or> segs \<noteq> [] \<Longrightarrow> wf_segments segs'"
proof (induction U n rest seen segs rule: parse_segments.induct)
  case (1 U n rest0 seen segs)
  define i where "i = (case index_byte (CHR ''/'') (tl rest0) of None \<Rightarrow> length (tl rest0) | Some i \<Rightarrow> i)"
  define seg where "seg = take i (tl rest0)"
  define rest' where "rest' = drop i (tl rest0)"
  note d = i_def seg_def rest'_def
  show ?case
  proof (cases "rest0 = [] \<or> tl rest0 = []")
    case True
    then have "segs' = (if rest0 = [] then segs else segs @ [wild_seg [] True])"
      using "1.prems"(1)
      by (cases "rest0 = []") (simp_all add: parse_segments_done parse_segments.simps[of U n rest0])
    then show ?thesis
      using "1.prems"(2,3) wf_partial wf_partial_multi[of seen segs "[]"] by (simp split: if_splits)
  next
    case False
    then obtain sg where sg: "parse_segment U seen seg (rest' = []) = Inr sg"
      and rec: "parse_segments U n rest' (if wild sg then seg_s sg # seen else seen) (segs @ [sg]) = Inr segs'"
      using "1.prems"(1) by (simp add: parse_segments.simps[of U n rest0] Let_def d split: sum.splits)
    show ?thesis
    proof (cases "multi sg")
      case True
      then have "rest' = []" "wf_segments (segs @ [sg])"
        using parse_segment_partial[OF sg "1.prems"(2)] by auto
      then show ?thesis using rec by (simp add: parse_segments_done)
    next
      case nm: False
      then show ?thesis
        using "1.IH"[OF _ refl refl _ i_def seg_def rest'_def sg] rec False
          parse_segment_partial[OF sg "1.prems"(2)] by simp
    qed
  qed
qed

lemma parsePattern_shape:
  assumes "parsePattern U s = Inr p"
  obtains path where
    "s = (if p_method p = [] then [] else p_method p @ '' '') @ p_host p @ path
     \<or> p_method p = [] \<and> s = '' '' @ p_host p @ path"
    "path \<noteq> []" "hd path = CHR ''/''"
    "CHR ''/'' \<notin> set (p_host p)" "CHR ''{'' \<notin> set (p_host p)"
    "p_method p = [] \<or> p_method p = ''CONNECT'' \<or> cleanPath path = path"
    "parse_segments U (length s) path [] [] = Inr (p_segments p)"
    "p_str p = s" "p_loc p = []"
proof -
  obtain b a f where cut: "cut_byte (CHR '' '') s = (b, a, f)" by (metis surj_pair)
  define meth rest where d: "meth = (if f then b else [])" "rest = (if f then a else b)"
  obtain i where i: "index_byte (CHR ''/'') rest = Some i"
    using assms cut d by (auto simp: parsePattern_def Let_def split: option.splits if_splits)
  have host: "index_byte (CHR ''{'') (take i rest) = None"
    using assms cut d i by (auto simp: parsePattern_def Let_def split: option.splits if_splits)
  have clean: "\<not> (meth \<noteq> [] \<and> meth \<noteq> ''CONNECT'' \<and> drop i rest \<noteq> cleanPath (drop i rest))"
    and p: "\<exists>segs. parse_segments U (length s) (drop i rest) [] [] = Inr segs \<and>
      p = \<lparr>p_str = s, p_method = meth, p_host = take i rest, p_segments = segs, p_loc = []\<rparr>"
    using assms cut i host unfolding parsePattern_def d
    by (simp_all add: Let_def and_then_Inr split: if_splits) metis+
  have s: "s = (if f then meth @ '' '' else []) @ take i rest @ drop i rest"
    using cut d by (auto simp: cut_byte_eq split: if_splits)
  have sl: "drop i rest \<noteq> []" "hd (drop i rest) = CHR ''/''" "CHR ''/'' \<notin> set (take i rest)"
    using i by (auto simp: index_byte_Some hd_drop_conv_nth)
  show thesis
    by (rule that[of "drop i rest"])
      (use s sl clean p host[unfolded index_byte_None] d in \<open>auto split: if_splits\<close>)
qed

lemma parsePattern_wf:
  assumes "parsePattern U s = Inr p"
  shows "wf_pattern p"
  using assms
proof (rule parsePattern_shape)
  fix path
  assume "path \<noteq> []" "parse_segments U (length s) path [] [] = Inr (p_segments p)"
  then show ?thesis unfolding wf_pattern_def
    by (intro parse_segments_wf[of U "length s" path "[]" "[]"])
      (auto simp: partial_segments_def wild_names_def)
qed

section \<open>Printing a pattern, and parsing what was printed\<close>

definition render_segment :: "segment \<Rightarrow> string" where
  "render_segment s =
     (if multi s then (if seg_s s = [] then [] else ''{'' @ seg_s s @ ''...}'')
      else if wild s then ''{'' @ seg_s s @ ''}''
      else if seg_s s = ''/'' then ''{$}''
      else PathEscape (seg_s s))"

definition render_path :: "segment list \<Rightarrow> string" where
  "render_path segs = concat (map (\<lambda>s. CHR ''/'' # render_segment s) segs)"

definition render_pattern :: "pattern \<Rightarrow> string" where
  "render_pattern p =
     (if p_method p = [] then [] else p_method p @ '' '') @ p_host p @ render_path (p_segments p)"

text \<open>The patterns that a pattern string can express exactly.\<close>

definition printable :: "unicode \<Rightarrow> segment list \<Rightarrow> bool" where
  "printable U segs =
     (wf_segments segs \<and>
      list_all (\<lambda>s. if wild s then seg_s s = [] \<or> isValidWildcardName U (seg_s s)
                    else seg_s s \<noteq> []) segs \<and>
      list_all (\<lambda>s. \<not> wild s \<longrightarrow> seg_s s \<noteq> ''/'') (butlast segs))"

lemma wildcard_loop_runes:
  "wildcard_name_loop U b rs \<Longrightarrow>
     \<forall>r\<in>set rs. IsLetter U r \<or> IsDigit U r \<or> r = of_char (CHR ''_'')"
  by (induction U b rs rule: wildcard_name_loop.induct) (auto split: if_splits)

lemma valid_name_bytes:
  assumes "isValidWildcardName U s" and "c \<in> set s"
  shows "c \<notin> set ''/{}.$ ''"
proof
  assume "c \<in> set ''/{}.$ ''"
  moreover from this have "of_char c \<in> set (runes s)"
    using assms(2) by (intro runes_ascii_mem) (auto simp: less_char_def)
  ultimately show False
    using assms(1) wildcard_loop_runes[of U True "runes s"]
    by (auto simp: isValidWildcardName_def IsLetter_def IsDigit_def split: if_splits)
qed

lemma parse_segments_step:
  assumes "CHR ''/'' \<notin> set seg" and "rest' = [] \<or> hd rest' = CHR ''/''" and "seg @ rest' \<noteq> []"
    and "parse_segment U seen seg (rest' = []) = Inr sg"
  shows "parse_segments U n (CHR ''/'' # seg @ rest') seen segs =
    parse_segments U n rest' (if wild sg then seg_s sg # seen else seen) (segs @ [sg])"
proof -
  have "(case index_byte (CHR ''/'') (seg @ rest') of None \<Rightarrow> length (seg @ rest') | Some i \<Rightarrow> i)
      = length seg"
  proof (cases rest')
    case Nil
    then show ?thesis using assms(1) by (simp add: index_byte_None[THEN iffD2])
  next
    case (Cons c t)
    then have "index_byte (CHR ''/'') (seg @ rest') = Some (length seg)"
      using assms(1,2) by (simp add: index_byte_Some)
    then show ?thesis by simp
  qed
  then show ?thesis
    using assms(3,4) by (auto simp: parse_segments.simps[of U n "CHR ''/'' # seg @ rest'"] Let_def)
qed

lemma pathUnescape_PathEscape [simp]: "pathUnescape (PathEscape s) = s"
  by (simp add: pathUnescape_def PathUnescape_def PathEscape_def unescape_escape)

lemma PathEscape_bytes: "CHR ''/'' \<notin> set (PathEscape s) \<and> CHR ''{'' \<notin> set (PathEscape s)"
proof -
  have "\<not> escaped_byte encodePathSegment (CHR ''/'')" "\<not> escaped_byte encodePathSegment (CHR ''{'')"
    by (simp_all add: escaped_byte_def shouldEscape_def)
  then show ?thesis
    using escaped_byte_escape[where mode = encodePathSegment and s = s] by (auto simp: PathEscape_def list_all_iff)
qed

lemma PathEscape_Nil [simp]: "PathEscape s = [] \<longleftrightarrow> s = []"
  by (metis pathUnescape_PathEscape PathEscape_def escape_Nil)

lemma cut_suffix_dots: "CHR ''.'' \<notin> set n \<Longrightarrow> cut_suffix n ''...'' = (n, False)"
  by (auto simp: cut_suffix_def strs)

lemma cut_suffix_append: "cut_suffix (n @ suf) suf = (n, True)"
  by (simp add: cut_suffix_def has_suffix_def)

lemma render_path_start: "render_path segs = [] \<or> hd (render_path segs) = CHR ''/''"
  by (cases segs) (auto simp: render_path_def)

text \<open>Each printed segment is parsed as the segment it came from.\<close>

lemma parse_segment_literal:
  "parse_segment U seen (PathEscape s) at_end = Inr (lit_seg s)"
  using PathEscape_bytes[of s] by (simp add: parse_segment_def index_byte_None[THEN iffD2])

lemma parse_segment_dollar: "parse_segment U seen ''{$}'' True = Inr (lit_seg ''/'')"
  by (simp add: parse_segment_def)

lemma parse_segment_wild:
  assumes "isValidWildcardName U s" and "s \<notin> set seen" and "m \<longrightarrow> at_end"
  shows "parse_segment U seen (''{'' @ s @ (if m then ''...}'' else ''}'')) at_end = Inr (wild_seg s m)"
proof -
  have b: "CHR ''.'' \<notin> set s" "CHR ''$'' \<notin> set s" "s \<noteq> []"
    using valid_name_bytes[OF assms(1)] assms(1) by (auto simp: isValidWildcardName_def)
  have "s @ ''...'' \<noteq> ''$''" by (cases s) auto
  moreover have "s \<noteq> ''$''" using b by auto
  ultimately show ?thesis
    using b assms cut_suffix_append[of s "''...''"]
    by (auto simp: parse_segment_def cut_suffix_dots Let_def)
qed

definition printable_segment :: "unicode \<Rightarrow> string list \<Rightarrow> bool \<Rightarrow> segment \<Rightarrow> bool" where
  "printable_segment U seen at_end sg =
     ((multi sg \<longrightarrow> wild sg \<and> at_end) \<and>
      (if wild sg then seg_s sg = [] \<and> multi sg \<or> isValidWildcardName U (seg_s sg) \<and> seg_s sg \<notin> set seen
       else seg_s sg \<noteq> [] \<and> (seg_s sg = ''/'' \<longrightarrow> at_end)))"

lemma render_segment_no_slash:
  assumes "printable_segment U seen at_end sg"
  shows "CHR ''/'' \<notin> set (render_segment sg)"
  using assms PathEscape_bytes[of "seg_s sg"] valid_name_bytes[of U "seg_s sg" "CHR ''/''"]
  by (auto simp: render_segment_def printable_segment_def split: if_splits)

lemma parse_render_segment:
  assumes "printable_segment U seen at_end sg" and "render_segment sg \<noteq> []"
  shows "parse_segment U seen (render_segment sg) at_end = Inr sg"
proof -
  obtain s w m where sg: "sg = \<lparr>seg_s = s, wild = w, multi = m\<rparr>" by (cases sg)
  show ?thesis
    using assms parse_segment_wild[of U s seen m at_end] parse_segment_literal[of U seen s at_end]
      parse_segment_dollar[of U seen]
    by (auto simp: sg printable_segment_def render_segment_def split: if_splits)
qed

lemma printable_Cons:
  assumes "printable U (sg # ss)" and "set (wild_names (sg # ss)) \<inter> set seen = {}"
  shows "printable_segment U seen (ss = []) sg"
    and "ss \<noteq> [] \<Longrightarrow> printable U ss"
    and "set (wild_names ss) \<inter> set (if wild sg then seg_s sg # seen else seen) = {}"
proof -
  show "printable_segment U seen (ss = []) sg"
    using assms
    by (cases "ss = []")
      (auto simp: printable_def wf_segments_def printable_segment_def wild_names_def split: if_splits)
  show "ss \<noteq> [] \<Longrightarrow> printable U ss"
    using assms by (auto simp: printable_def wf_segments_def wild_names_def split: if_splits)
  show "set (wild_names ss) \<inter> set (if wild sg then seg_s sg # seen else seen) = {}"
    using assms by (auto simp: printable_def wf_segments_def wild_names_def split: if_splits)
qed

lemma parse_render_segments:
  "printable U segs \<Longrightarrow> set (wild_names segs) \<inter> set seen = {} \<Longrightarrow>
     parse_segments U n (render_path segs) seen acc = Inr (acc @ segs)"
proof (induction segs arbitrary: seen acc)
  case (Cons sg ss)
  note pc = printable_Cons[OF Cons.prems]
  have path: "render_path (sg # ss) = CHR ''/'' # render_segment sg @ render_path ss"
    by (simp add: render_path_def)
  have rest: "parse_segments U n (render_path ss) (if wild sg then seg_s sg # seen else seen) (acc @ [sg])
      = Inr (acc @ sg # ss)"
  proof (cases "ss = []")
    case True
    then show ?thesis by (simp add: render_path_def parse_segments_done)
  next
    case False
    then show ?thesis using Cons.IH[OF pc(2)[OF False] pc(3), of "acc @ [sg]"] by simp
  qed
  have ne: "render_path ss = [] \<longleftrightarrow> ss = []" by (cases ss) (auto simp: render_path_def)
  show ?case
  proof (cases "render_segment sg = []")
    case True
    then have m: "multi sg" "seg_s sg = []"
      by (auto simp: render_segment_def split: if_splits) (use pc(1) in \<open>auto simp: printable_segment_def\<close>)
    then have "ss = []" "sg = wild_seg [] True"
      using pc(1) by (auto simp: printable_segment_def intro!: segment.equality)
    then show ?thesis using True by (simp add: path render_path_def parse_segments.simps[of U n "''/''"])
  next
    case False
    then show ?thesis
      unfolding path
      using parse_segments_step[OF render_segment_no_slash[OF pc(1)] render_path_start[of ss], of U seen sg n acc]
        parse_render_segment[OF pc(1)] rest ne by simp
  qed
qed (simp add: printable_def wf_segments_def)

text \<open>The strings that may stand before the path.\<close>

definition printable_prefix :: "pattern \<Rightarrow> bool" where
  "printable_prefix p =
     (CHR '' '' \<notin> set (p_method p) \<and>
      CHR ''/'' \<notin> set (p_host p) \<and> CHR ''{'' \<notin> set (p_host p) \<and>
      (p_method p = [] \<longrightarrow> CHR '' '' \<notin> set (p_host p)) \<and>
      (p_method p = [] \<or> p_method p = ''CONNECT'' \<or> is_clean (render_path (p_segments p))))"

lemma render_path_no_space:
  assumes "printable U segs"
  shows "CHR '' '' \<notin> set (render_path segs)"
proof -
  have "CHR '' '' \<notin> set (PathEscape s)" for s
    using escaped_byte_escape[where mode = encodePathSegment and s = s] shouldEscape_space
    by (auto simp: PathEscape_def list_all_iff escaped_byte_def)
  moreover have "isValidWildcardName U s \<Longrightarrow> CHR '' '' \<notin> set s" for s
    using valid_name_bytes[of U s "CHR '' ''"] by auto
  moreover have "sg \<in> set segs \<Longrightarrow> wild sg \<Longrightarrow> seg_s sg = [] \<or> isValidWildcardName U (seg_s sg)" for sg
    using assms by (auto simp: printable_def list_all_iff split: if_splits)
  moreover have "sg \<in> set segs \<Longrightarrow> multi sg \<Longrightarrow> wild sg" for sg
    using assms by (auto simp: printable_def wf_segments_def list_all_iff)
  ultimately have "CHR '' '' \<notin> set (render_segment sg)" if "sg \<in> set segs" for sg
    using that by (auto simp: render_segment_def)
  then show ?thesis by (auto simp: render_path_def)
qed

lemma parsePattern_render:
  assumes "printable U (p_segments p)" and "printable_prefix p"
  shows "parsePattern U (render_pattern p) = Inr (p\<lparr>p_str := render_pattern p, p_loc := []\<rparr>)"
proof -
  let ?path = "render_path (p_segments p)"
  let ?b = "if p_method p = [] then p_host p @ ?path else p_method p"
  let ?a = "if p_method p = [] then [] else p_host p @ ?path"
  note px = assms(2)[unfolded printable_prefix_def]
  have ne: "?path \<noteq> []"
    using assms(1) by (cases "p_segments p") (auto simp: printable_def wf_segments_def render_path_def)
  have cut: "cut_byte (CHR '' '') (render_pattern p) = (?b, ?a, p_method p \<noteq> [])"
    using px render_path_no_space[OF assms(1)]
    by (simp add: cut_byte_eq render_pattern_def)
  have i: "index_byte (CHR ''/'') (p_host p @ ?path) = Some (length (p_host p))"
    using px ne render_path_start[of "p_segments p"]
    by (cases ?path) (auto simp: index_byte_Some)
  have h: "index_byte (CHR ''{'') (p_host p) = None"
    using px by (simp add: index_byte_None)
  have clean: "\<not> (p_method p \<noteq> [] \<and> p_method p \<noteq> ''CONNECT'' \<and> ?path \<noteq> cleanPath ?path)"
    using px cleanPath_fixed by metis
  have "render_pattern p \<noteq> []" using ne by (simp add: render_pattern_def)
  then show ?thesis
    using cut i h clean parse_render_segments[OF assms(1), of "[]" "length (render_pattern p)" "[]"]
    by (cases "p_method p = []") (simp_all add: parsePattern_def Let_def)
qed

section \<open>Properties\<close>

text \<open>C17: A pattern written as text is parsed back to the same method, host and segments.\<close>

theorem parsePattern_roundtrip:
  assumes "printable U (p_segments p)" and "printable_prefix p"
  shows "parsePattern U (render_pattern p) = Inr (p\<lparr>p_str := render_pattern p, p_loc := []\<rparr>)"
  by (rule parsePattern_render[OF assms])

lemma parsePattern_roundtrip_witness:
  "\<exists>p. parsePattern \<lparr>uni_letter = (\<lambda>r. False), uni_digit = (\<lambda>r. False)\<rparr> ''GET h/a%20b/{x}/{y...}'' = Inr p \<and>
     p_segments p = [lit_seg ''a b'', wild_seg ''x'' False, wild_seg ''y'' True]"
proof -
  let ?p = "\<lparr>p_str = [], p_method = ''GET'', p_host = ''h'',
      p_segments = [lit_seg ''a b'', wild_seg ''x'' False, wild_seg ''y'' True], p_loc = []\<rparr>"
  let ?U = "\<lparr>uni_letter = (\<lambda>r. False), uni_digit = (\<lambda>r. False)\<rparr>"
  have pr: "printable ?U (p_segments ?p)" by code_simp
  have pp: "printable_prefix ?p" by code_simp
  have r: "render_pattern ?p = ''GET h/a%20b/{x}/{y...}''" by code_simp
  show ?thesis by (rule exI, rule conjI, rule parsePattern_roundtrip[OF pr pp, unfolded r]) simp
qed

text \<open>C23: Every pattern that parsePattern accepts has a segment, a multi wildcard only at its end, a name
  for each single wildcard and no name twice; with a method other than CONNECT its path is clean.\<close>

theorem parsePattern_well_formed:
  assumes "parsePattern U s = Inr p"
  shows "wf_pattern p \<and> p_str p = s \<and> CHR ''{'' \<notin> set (p_host p) \<and> CHR ''/'' \<notin> set (p_host p) \<and>
    (p_method p = [] \<or> p_method p = ''CONNECT'' \<or>
     (\<exists>path. cleanPath path = path \<and> s = p_method p @ '' '' @ p_host p @ path))"
proof -
  have "wf_pattern p" by (rule parsePattern_wf[OF assms])
  with assms show ?thesis by (elim parsePattern_shape) auto
qed

lemma parsePattern_well_formed_witness:
  "wf_pattern \<lparr>p_str = ''/a/{x}'', p_method = [], p_host = [],
     p_segments = [lit_seg ''a'', wild_seg ''x'' False], p_loc = []\<rparr>"
proof -
  have "parsePattern \<lparr>uni_letter = (\<lambda>r. False), uni_digit = (\<lambda>r. False)\<rparr> ''/a/{x}'' =
      Inr \<lparr>p_str = ''/a/{x}'', p_method = [], p_host = [],
        p_segments = [lit_seg ''a'', wild_seg ''x'' False], p_loc = []\<rparr>"
    by code_simp
  from parsePattern_well_formed[OF this] show ?thesis by blast
qed

end
