(* ===== verification/Go_Mapping.thy ===== *)
theory Go_Mapping
  imports Go_Prelude
begin

text \<open>
  The generic mapping of src/http/mapping.go: a slice of pairs while there are at most
  \<open>maxSlice\<close> of them, a Go map afterwards.  The locale \<open>key_store\<close> is the interface that
  the routing tree uses; the mapping is interpreted as one.
\<close>

section \<open>The interface\<close>

locale key_store =
  fixes empty :: "'s"
    and add :: "'k \<Rightarrow> 'v \<Rightarrow> 's \<Rightarrow> 's"
    and find :: "'s \<Rightarrow> 'k \<Rightarrow> 'v option"
    and pairs :: "'s \<Rightarrow> ('k \<times> 'v) list"
    and ok :: "'s \<Rightarrow> bool"
  assumes empty_ok: "ok empty"
    and find_empty: "find empty k = None"
    and add_ok: "ok s \<Longrightarrow> find s k = None \<Longrightarrow> ok (add k v s)"
    and find_add: "ok s \<Longrightarrow> find s k = None \<Longrightarrow> find (add k v s) = (find s)(k \<mapsto> v)"
    and find_pairs: "ok s \<Longrightarrow> find s = map_of (pairs s)"
    and pairs_distinct: "ok s \<Longrightarrow> distinct (map fst (pairs s))"
begin

fun add_all :: "('k \<times> 'v) list \<Rightarrow> 's \<Rightarrow> 's" where
  "add_all [] s = s"
| "add_all ((k, v) # kvs) s = add_all kvs (add k v s)"

lemma add_all_correct:
  assumes "ok s" and "distinct (map fst kvs)" and "\<forall>k\<in>set (map fst kvs). find s k = None"
  shows "ok (add_all kvs s) \<and> find (add_all kvs s) = find s ++ map_of kvs"
  using assms
proof (induction kvs arbitrary: s)
  case (Cons kv kvs)
  obtain k v where kv: "kv = (k, v)" by (cases kv)
  have ok: "ok (add k v s)" and f: "find (add k v s) = (find s)(k \<mapsto> v)"
    using Cons.prems kv by (auto intro: add_ok find_add)
  have "ok (add_all kvs (add k v s)) \<and>
      find (add_all kvs (add k v s)) = find (add k v s) ++ map_of kvs"
    using Cons.prems kv f by (intro Cons.IH ok) auto
  moreover have "(find s)(k \<mapsto> v) ++ map_of kvs = find s ++ map_of ((k, v) # kvs)"
    using Cons.prems kv
    by (simp add: map_add_upd_left dom_map_of_conv_image_fst)
  moreover have "add_all (kv # kvs) s = add_all kvs (add k v s)" using kv by simp
  ultimately show ?case using kv f by (metis)
qed simp

lemma in_pairs: "ok s \<Longrightarrow> (k, v) \<in> set (pairs s) \<longleftrightarrow> find s k = Some v"
  by (simp add: find_pairs pairs_distinct)

end

section \<open>The mapping\<close>

datatype ('k, 'v) mapping = Mapping (m_s: "('k \<times> 'v) list") (m_m: "('k, 'v) gomap option")

definition maxSlice :: nat where
  "maxSlice = 8"

definition mapping_empty :: "('k, 'v) mapping" where
  "mapping_empty = Mapping [] None"

definition mapping_add :: "'k \<Rightarrow> 'v \<Rightarrow> ('k, 'v) mapping \<Rightarrow> ('k, 'v) mapping" where
  "mapping_add k v h =
     (case m_m h of
        None \<Rightarrow>
          if length (m_s h) < maxSlice then Mapping (m_s h @ [(k, v)]) None
          else Mapping [] (Some (AList.update k v (fold (\<lambda>(k', v') m. AList.update k' v' m) (m_s h) [])))
      | Some m \<Rightarrow> Mapping (m_s h) (Some (AList.update k v m)))"

fun find_entry :: "('k \<times> 'v) list \<Rightarrow> 'k \<Rightarrow> 'v option" where
  "find_entry [] k = None"
| "find_entry ((k', v) # es) k = (if k' = k then Some v else find_entry es k)"

definition mapping_find :: "('k, 'v) mapping \<Rightarrow> 'k \<Rightarrow> 'v option" where
  "mapping_find h k = (case m_m h of Some m \<Rightarrow> map_of m k | None \<Rightarrow> find_entry (m_s h) k)"

text \<open>The pairs that eachPair visits, in the order it visits them.\<close>

definition mapping_pairs :: "('k, 'v) mapping \<Rightarrow> ('k \<times> 'v) list" where
  "mapping_pairs h = (case m_m h of Some m \<Rightarrow> m | None \<Rightarrow> m_s h)"

fun each_pair :: "('k \<Rightarrow> 'v \<Rightarrow> 'a \<Rightarrow> 'a \<times> bool) \<Rightarrow> ('k \<times> 'v) list \<Rightarrow> 'a \<Rightarrow> 'a" where
  "each_pair f [] a = a"
| "each_pair f ((k, v) # es) a = (case f k v a of (a', go_on) \<Rightarrow> if go_on then each_pair f es a' else a')"

definition mapping_eachPair :: "('k \<Rightarrow> 'v \<Rightarrow> 'a \<Rightarrow> 'a \<times> bool) \<Rightarrow> ('k, 'v) mapping \<Rightarrow> 'a \<Rightarrow> 'a" where
  "mapping_eachPair f h a = each_pair f (mapping_pairs h) a"

definition mapping_ok :: "('k, 'v) mapping \<Rightarrow> bool" where
  "mapping_ok h = (gomap_ok (mapping_pairs h) \<and>
     (case m_m h of None \<Rightarrow> length (m_s h) \<le> maxSlice | Some m \<Rightarrow> m_s h = [] \<and> maxSlice < length m))"

section \<open>Correctness\<close>

lemma find_entry_map_of: "find_entry es = map_of es"
proof
  show "find_entry es k = map_of es k" for k by (induction es k rule: find_entry.induct) auto
qed

lemma mapping_find_map_of: "mapping_find h = map_of (mapping_pairs h)"
  by (auto simp: mapping_find_def mapping_pairs_def find_entry_map_of split: option.splits)

lemma fold_update_self:
  assumes "distinct (map fst es)"
  shows "fold (\<lambda>(k, v) m. AList.update k v m) es [] = es"
proof -
  have "distinct (map fst es) \<Longrightarrow> set (map fst m) \<inter> set (map fst es) = {} \<Longrightarrow>
      fold (\<lambda>(k, v) m. AList.update k v m) es m = m @ es" for m
  proof (induction es arbitrary: m)
    case (Cons e es)
    obtain k v where e: "e = (k, v)" by (cases e)
    have "k \<notin> set (map fst m)" using Cons.prems e by auto
    then have "AList.update k v m = m @ [(k, v)]"
      by (induction m) auto
    then show ?case using Cons.prems e Cons.IH[of "m @ [(k, v)]"] by auto
  qed simp
  from this[of "[]"] assms show ?thesis by simp
qed

lemma update_new: "map_of m k = None \<Longrightarrow> AList.update k v m = m @ [(k, v)]"
  by (induction m) (auto split: if_splits)

lemma mapping_pairs_add:
  assumes "mapping_ok h" and "mapping_find h k = None"
  shows "mapping_pairs (mapping_add k v h) = mapping_pairs h @ [(k, v)]"
  using assms
  by (auto simp: mapping_add_def mapping_pairs_def mapping_ok_def mapping_find_map_of
      fold_update_self update_new split: option.splits)

lemma mapping_ok_add:
  assumes "mapping_ok h" and "mapping_find h k = None"
  shows "mapping_ok (mapping_add k v h)"
proof -
  have k: "k \<notin> fst ` set (mapping_pairs h)"
    using assms(2) by (simp add: mapping_find_map_of map_of_eq_None_iff)
  then have "gomap_ok (mapping_pairs (mapping_add k v h))"
    using assms by (simp add: mapping_pairs_add) (simp add: mapping_ok_def)
  then show ?thesis
    using assms mapping_pairs_add[OF assms, of v]
    by (auto simp: mapping_ok_def mapping_add_def mapping_pairs_def split: option.splits if_splits)
qed

interpretation gm: key_store mapping_empty mapping_add mapping_find mapping_pairs mapping_ok
proof unfold_locales
  fix h :: "('k, 'v) mapping" and k v
  assume h: "mapping_ok h" "mapping_find h k = None"
  show "mapping_ok (mapping_add k v h)" by (rule mapping_ok_add[OF h])
  show "mapping_find (mapping_add k v h) = (mapping_find h)(k \<mapsto> v)"
    using h mapping_pairs_add[OF h, of v]
    by (auto simp: mapping_find_map_of fun_eq_iff map_add_def split: option.splits)
qed (auto simp: mapping_empty_def mapping_ok_def mapping_pairs_def mapping_find_map_of)

end
