(* ===== verification/Routing_Tree.thy ===== *)
theory Routing_Tree
  imports Pattern Go_Mapping
begin

text \<open>
  The decision tree of ServeMux (src/http/routing_tree.go).  A node is a value; a method that
  follows pointers down the tree and changes the node it reaches returns the changed tree.
  A nil node is \<^const>\<open>None\<close>.  The panics of the code (a second pattern at a leaf, a multi
  wildcard that is not last, a nil pattern) are values of the type \<open>go\<close>.
\<close>

datatype 'h routingNode =
  Node (nd_pattern: "pattern option") (nd_handler: "'h option")
    (nd_children: "(string, 'h routingNode) mapping") (nd_emptyChild: "'h routingNode option")

definition new_node :: "'h routingNode" where
  "new_node = Node None None mapping_empty None"

definition findChild :: "'h routingNode \<Rightarrow> string \<Rightarrow> 'h routingNode option" where
  "findChild n key =
     (if key = [] then nd_emptyChild n else mapping_find (nd_children n) key)"

definition addChild :: "string \<Rightarrow> 'h routingNode \<Rightarrow> 'h routingNode" where
  "addChild key n =
     (if key = [] then
        (case nd_emptyChild n of
           None \<Rightarrow> Node (nd_pattern n) (nd_handler n) (nd_children n) (Some new_node)
         | Some _ \<Rightarrow> n)
      else (case findChild n key of
              Some _ \<Rightarrow> n
            | None \<Rightarrow> Node (nd_pattern n) (nd_handler n)
                        (mapping_add key new_node (nd_children n)) (nd_emptyChild n)))"

text \<open>
  What a change made through the pointer that addChild returns does to the parent: the value stored
  under the key is replaced, in whichever of the two representations the mapping has.
\<close>

definition replace_pair :: "'k \<Rightarrow> 'v \<Rightarrow> 'k \<times> 'v \<Rightarrow> 'k \<times> 'v" where
  "replace_pair k v e = (if fst e = k then (k, v) else e)"

definition mapping_replace :: "'k \<Rightarrow> 'v \<Rightarrow> ('k, 'v) mapping \<Rightarrow> ('k, 'v) mapping" where
  "mapping_replace k v h =
     Mapping (map (replace_pair k v) (m_s h)) (map_option (map (replace_pair k v)) (m_m h))"

definition setChild :: "string \<Rightarrow> 'h routingNode \<Rightarrow> 'h routingNode \<Rightarrow> 'h routingNode" where
  "setChild key c n =
     (if key = [] then Node (nd_pattern n) (nd_handler n) (nd_children n) (Some c)
      else Node (nd_pattern n) (nd_handler n) (mapping_replace key c (nd_children n)) (nd_emptyChild n))"

definition at_child ::
  "string \<Rightarrow> ('h routingNode \<Rightarrow> 'h routingNode go) \<Rightarrow> 'h routingNode \<Rightarrow> 'h routingNode go" where
  "at_child key f n =
     (case findChild (addChild key n) key of
        None \<Rightarrow> Panic ''nil''
      | Some c \<Rightarrow> go_bind (f c) (\<lambda>c'. Ret (setChild key c' (addChild key n))))"

definition set_leaf :: "pattern \<Rightarrow> 'h \<Rightarrow> 'h routingNode \<Rightarrow> 'h routingNode go" where
  "set_leaf p h n =
     (if nd_pattern n \<noteq> None \<or> nd_handler n \<noteq> None then Panic ''non-nil leaf fields''
      else Ret (Node (Some p) (Some h) (nd_children n) (nd_emptyChild n)))"

fun addSegments :: "segment list \<Rightarrow> pattern \<Rightarrow> 'h \<Rightarrow> 'h routingNode \<Rightarrow> 'h routingNode go" where
  "addSegments [] p h n = set_leaf p h n"
| "addSegments (seg # segs) p h n =
     (if multi seg then
        (if segs \<noteq> [] then Panic ''multi wildcard not last'' else at_child ''*'' (set_leaf p h) n)
      else if wild seg then at_child [] (addSegments segs p h) n
      else at_child (seg_s seg) (addSegments segs p h) n)"

definition addPattern :: "pattern \<Rightarrow> 'h \<Rightarrow> 'h routingNode \<Rightarrow> 'h routingNode go" where
  "addPattern p h root =
     at_child (p_host p) (at_child (p_method p) (addSegments (p_segments p) p h)) root"

section \<open>Matching\<close>

definition firstSegment :: "string \<Rightarrow> string \<times> string" where
  "firstSegment path =
     (if path = ''/'' then (''/'', [])
      else let p = tl path;
               i = (case index_byte (CHR ''/'') p of None \<Rightarrow> length p | Some i \<Rightarrow> i)
           in (pathUnescape (take i p), drop i p))"

lemma firstSegment_shorter [termination_simp]:
  "firstSegment path = (seg, rest) \<Longrightarrow> path \<noteq> [] \<Longrightarrow> length rest < length path"
  by (cases path) (auto simp: firstSegment_def Let_def split: if_splits option.splits)

type_synonym 'h found = "('h routingNode \<times> string list) option go"

text \<open>The first attempt that finds a node wins; a panic in an attempt is a panic of the call.\<close>

fun or_else :: "'h found \<Rightarrow> 'h found \<Rightarrow> 'h found" where
  "or_else (Panic m) y = Panic m"
| "or_else (Ret (Some r)) y = Ret (Some r)"
| "or_else (Ret None) y = y"

lemma or_else_cong [fundef_cong]:
  "x = x' \<Longrightarrow> (x' = Ret None \<Longrightarrow> y = y') \<Longrightarrow> or_else x y = or_else x' y'"
  by (cases "(x', y)" rule: or_else.cases) auto

function matchPath :: "'h routingNode option \<Rightarrow> string \<Rightarrow> string list \<Rightarrow> 'h found" where
  "matchPath None path matches = Ret None"
| "matchPath (Some n) path matches =
     (if path = [] then
        (if nd_pattern n = None then Ret None else Ret (Some (n, matches)))
      else let (seg, rest) = firstSegment path
      in or_else (matchPath (findChild n seg) rest matches)
        (or_else
          (if seg \<noteq> ''/'' then matchPath (nd_emptyChild n) rest (matches @ [seg]) else Ret None)
          (case findChild n ''*'' of
             None \<Rightarrow> Ret None
           | Some c \<Rightarrow>
               (case nd_pattern c of
                  None \<Rightarrow> Panic ''nil pointer dereference''
                | Some p \<Rightarrow>
                    go_bind (lastSegment p)
                      (\<lambda>ls. Ret (Some (c, if seg_s ls \<noteq> [] then matches @ [pathUnescape (tl path)]
                                          else matches)))))))"
  by pat_completeness auto
termination
  by (relation "measure (\<lambda>(n, path, ms). length path)") (auto, (metis firstSegment_shorter)+)

declare matchPath.simps(2) [simp del]

definition matchMethodAndPath ::
  "'h routingNode option \<Rightarrow> string \<Rightarrow> string \<Rightarrow> 'h found" where
  "matchMethodAndPath n0 method path =
     (case n0 of
        None \<Rightarrow> Ret None
      | Some n \<Rightarrow>
          or_else (matchPath (findChild n method) path [])
            (or_else
              (if method = ''HEAD'' then matchPath (findChild n ''GET'') path [] else Ret None)
              (matchPath (nd_emptyChild n) path [])))"

definition match_tree :: "'h routingNode \<Rightarrow> string \<Rightarrow> string \<Rightarrow> string \<Rightarrow> 'h found" where
  "match_tree root host method path =
     or_else
       (if host \<noteq> [] then matchMethodAndPath (findChild root host) method path else Ret None)
       (matchMethodAndPath (nd_emptyChild root) method path)"

text \<open>
  The set of methods is a Go map to bool; as only true is stored in it, its keys represent it.
\<close>

fun matching_children :: "string \<Rightarrow> (string \<times> 'h routingNode) list \<Rightarrow> string list \<Rightarrow> string list go" where
  "matching_children path [] s = Ret s"
| "matching_children path ((method, c) # es) s =
     go_bind (matchPath (Some c) path [])
       (\<lambda>r. matching_children path es (if r \<noteq> None then List.insert method s else s))"

definition matchingMethodsPath :: "'h routingNode option \<Rightarrow> string \<Rightarrow> string list \<Rightarrow> string list go" where
  "matchingMethodsPath n0 path s =
     (case n0 of
        None \<Rightarrow> Ret s
      | Some n \<Rightarrow> matching_children path (mapping_pairs (nd_children n)) s)"

definition tree_matchingMethods :: "'h routingNode \<Rightarrow> string \<Rightarrow> string \<Rightarrow> string list \<Rightarrow> string list go" where
  "tree_matchingMethods root host path s =
     go_bind (if host \<noteq> [] then matchingMethodsPath (findChild root host) path s else Ret s)
       (\<lambda>s1. go_bind (matchingMethodsPath (nd_emptyChild root) path s1)
          (\<lambda>s2. Ret (if ''GET'' \<in> set s2 then List.insert ''HEAD'' s2 else s2)))"

section \<open>The tree as a map from key lists to leaves\<close>

fun node_at :: "'h routingNode \<Rightarrow> string list \<Rightarrow> 'h routingNode option" where
  "node_at n [] = Some n"
| "node_at n (k # ks) = (case findChild n k of None \<Rightarrow> None | Some c \<Rightarrow> node_at c ks)"

definition leaf_of :: "'h routingNode \<Rightarrow> (pattern \<times> 'h) option" where
  "leaf_of n =
     (case (nd_pattern n, nd_handler n) of (Some p, Some h) \<Rightarrow> Some (p, h) | _ \<Rightarrow> None)"

definition leaf_at :: "'h routingNode \<Rightarrow> string list \<Rightarrow> (pattern \<times> 'h) option" where
  "leaf_at n ks = Option.bind (node_at n ks) leaf_of"

definition node_ok :: "'h routingNode \<Rightarrow> bool" where
  "node_ok n = (mapping_ok (nd_children n) \<and> mapping_find (nd_children n) [] = None \<and> (nd_pattern n = None \<longleftrightarrow> nd_handler n = None))"

definition tree_ok :: "'h routingNode \<Rightarrow> bool" where
  "tree_ok n = (\<forall>ks m. node_at n ks = Some m \<longrightarrow> node_ok m)"

definition seg_key :: "segment \<Rightarrow> string" where
  "seg_key s = (if multi s then ''*'' else if wild s then [] else seg_s s)"

definition pattern_keys :: "pattern \<Rightarrow> string list" where
  "pattern_keys p = p_host p # p_method p # map seg_key (p_segments p)"

lemma leaf_at_simps:
  "leaf_at n [] = leaf_of n"
  "leaf_at n (k # ks) = Option.bind (findChild n k) (\<lambda>c. leaf_at c ks)"
  by (auto simp: leaf_at_def split: option.split Option.bind_splits)

lemma tree_ok_root: "tree_ok n \<Longrightarrow> node_ok n"
  unfolding tree_ok_def by (metis node_at.simps(1))

lemma tree_ok_child: "tree_ok n \<Longrightarrow> findChild n k = Some c \<Longrightarrow> tree_ok c"
  unfolding tree_ok_def by (metis node_at.simps(2) option.simps(5))

lemma tree_okI: "node_ok n \<Longrightarrow> (\<And>k c. findChild n k = Some c \<Longrightarrow> tree_ok c) \<Longrightarrow> tree_ok n"
  unfolding tree_ok_def
proof (intro allI impI)
  fix ks m
  assume "node_ok n" and ch: "\<And>k c. findChild n k = Some c \<Longrightarrow> \<forall>ks m. node_at c ks = Some m \<longrightarrow> node_ok m"
    and "node_at n ks = Some m"
  then show "node_ok m" by (cases ks) (auto split: option.splits)
qed

lemma findChild_new [simp]: "findChild new_node k = None"
  by (simp add: findChild_def new_node_def gm.find_empty)

lemma new_node_sel:
  "nd_pattern new_node = None" "nd_handler new_node = None" "nd_children new_node = mapping_empty"
  by (simp_all add: new_node_def)

lemma tree_ok_new: "tree_ok new_node"
  by (rule tree_okI) (simp_all add: node_ok_def new_node_sel gm.empty_ok gm.find_empty)

lemma leaf_at_new [simp]: "leaf_at new_node ks = None"
  by (cases ks) (simp_all add: leaf_at_simps leaf_of_def new_node_sel)

text \<open>Replacing the value of a key changes neither the keys nor the representation.\<close>

lemma map_of_replace: "map_of (map (replace_pair k v) es) j = (if j = k \<and> map_of es k \<noteq> None then Some v else map_of es j)"
  by (induction es) (auto simp: replace_pair_def)

lemma mapping_pairs_replace: "mapping_pairs (mapping_replace k v h) = map (replace_pair k v) (mapping_pairs h)"
  by (auto simp: mapping_pairs_def mapping_replace_def split: option.split)

lemma keys_replace: "keys_of (map (replace_pair k v) es) = keys_of es"
  by (auto simp: replace_pair_def)

lemma mapping_ok_replace: "mapping_ok h \<Longrightarrow> mapping_ok (mapping_replace k v h)"
  unfolding mapping_ok_def mapping_pairs_replace keys_replace
  by (auto simp: mapping_replace_def split: option.splits)

definition child_or_new :: "'h routingNode \<Rightarrow> string \<Rightarrow> 'h routingNode" where
  "child_or_new n key = (case findChild n key of None \<Rightarrow> new_node | Some c \<Rightarrow> c)"

lemma addChild_spec:
  assumes "node_ok n"
  shows "findChild (addChild key n) k = (if k = key then Some (child_or_new n key) else findChild n k)"
    and "node_ok (addChild key n)" and "leaf_of (addChild key n) = leaf_of n"
  using assms gm.find_add[of "nd_children n" key new_node] gm.add_ok[of "nd_children n" key new_node]
  by (auto simp: addChild_def findChild_def child_or_new_def node_ok_def leaf_of_def split: option.split)

lemma setChild_spec:
  assumes "node_ok n" and "findChild n key \<noteq> None"
  shows "findChild (setChild key c n) k = (if k = key then Some c else findChild n k)"
    and "node_ok (setChild key c n)" and "leaf_of (setChild key c n) = leaf_of n"
  using assms mapping_ok_replace[of "nd_children n" key c]
  by (auto simp: setChild_def findChild_def node_ok_def leaf_of_def mapping_find_map_of
      mapping_pairs_replace map_of_replace)

lemma at_child_spec:
  assumes "node_ok n" and "f (child_or_new n key) = Ret c'"
  obtains n' where "at_child key f n = Ret n'" and "node_ok n'" and "leaf_of n' = leaf_of n"
    and "\<And>k. findChild n' k = (if k = key then Some c' else findChild n k)"
proof
  let ?n = "addChild key n"
  show "at_child key f n = Ret (setChild key c' ?n)"
    using assms by (simp add: at_child_def addChild_spec)
  show "node_ok (setChild key c' ?n)" "leaf_of (setChild key c' ?n) = leaf_of n"
    and "findChild (setChild key c' ?n) k = (if k = key then Some c' else findChild n k)" for k
    using assms(1) by (simp_all add: addChild_spec setChild_spec)
qed

lemma at_child_panic:
  assumes "node_ok n" and "f (child_or_new n key) = Panic m"
  shows "at_child key f n = Panic m"
  using assms by (simp add: at_child_def addChild_spec)

lemma child_or_new_ok: "tree_ok n \<Longrightarrow> tree_ok (child_or_new n key)"
  by (auto simp: child_or_new_def tree_ok_new tree_ok_child split: option.split)

lemma leaf_at_child_or_new: "leaf_at (child_or_new n key) ks = leaf_at n (key # ks)"
  by (auto simp: child_or_new_def leaf_at_simps split: option.split)

section \<open>Adding a pattern\<close>

text \<open>
  An insertion at a key list: it panics when the leaf there is taken, and otherwise the tree changes
  at this key list only.
\<close>

definition inserts_at ::
  "string list \<Rightarrow> pattern \<Rightarrow> 'h \<Rightarrow> ('h routingNode \<Rightarrow> 'h routingNode go) \<Rightarrow> bool" where
  "inserts_at ks p h f =
     (\<forall>n. tree_ok n \<longrightarrow>
        (if leaf_at n ks = None then
           (\<exists>n'. f n = Ret n' \<and> tree_ok n' \<and> leaf_at n' = (leaf_at n)(ks \<mapsto> (p, h)))
         else panics (f n)))"

lemma inserts_set_leaf: "inserts_at [] p (h :: 'h) (set_leaf p h)"
  unfolding inserts_at_def
proof (intro allI impI)
  fix n :: "'h routingNode"
  assume ok: "tree_ok n"
  let ?n = "Node (Some p) (Some h) (nd_children n) (nd_emptyChild n)"
  have fc: "findChild ?n k = findChild n k" for k by (simp add: findChild_def)
  have "tree_ok ?n"
  proof (rule tree_okI)
    show "node_ok ?n" using tree_ok_root[OF ok] by (simp add: node_ok_def)
    show "findChild ?n k = Some c \<Longrightarrow> tree_ok c" for k c using tree_ok_child[OF ok] fc by metis
  qed
  moreover have "leaf_at ?n ks = ((leaf_at n)([] \<mapsto> (p, h))) ks" for ks
    by (cases ks) (simp_all add: leaf_at_simps fc leaf_of_def)
  ultimately have spec: "tree_ok ?n \<and> leaf_at ?n = (leaf_at n)([] \<mapsto> (p, h))" by blast
  have "leaf_at n [] = None \<longleftrightarrow> nd_pattern n = None \<and> nd_handler n = None"
    using tree_ok_root[OF ok]
    by (cases "nd_pattern n"; cases "nd_handler n") (simp_all add: leaf_at_simps leaf_of_def node_ok_def)
  then show "if leaf_at n [] = None
      then \<exists>n'. set_leaf p h n = Ret n' \<and> tree_ok n' \<and> leaf_at n' = (leaf_at n)([] \<mapsto> (p, h))
      else panics (set_leaf p h n)"
    using spec by (simp add: set_leaf_def)
qed

lemma inserts_at_child:
  fixes h :: 'h
  assumes "inserts_at ks p h f"
  shows "inserts_at (key # ks) p h (at_child key f)"
  unfolding inserts_at_def
proof (intro allI impI)
  fix n :: "'h routingNode"
  assume ok: "tree_ok n"
  let ?c = "child_or_new n key"
  note root = tree_ok_root[OF ok]
  show "if leaf_at n (key # ks) = None
      then \<exists>n'. at_child key f n = Ret n' \<and> tree_ok n' \<and> leaf_at n' = (leaf_at n)(key # ks \<mapsto> (p, h))
      else panics (at_child key f n)"
  proof (cases "leaf_at n (key # ks) = None")
    case True
    then obtain c' where c': "f ?c = Ret c'" "tree_ok c'" "leaf_at c' = (leaf_at ?c)(ks \<mapsto> (p, h))"
      using assms child_or_new_ok[OF ok] unfolding inserts_at_def leaf_at_child_or_new[symmetric]
      by metis
    obtain n' where n': "at_child key f n = Ret n'" "node_ok n'" "leaf_of n' = leaf_of n"
      "\<And>k. findChild n' k = (if k = key then Some c' else findChild n k)"
      using at_child_spec[where n = n and f = f and key = key, OF root c'(1)] by blast
    have "tree_ok n'"
    proof (rule tree_okI)
      show "node_ok n'" by (rule n'(2))
      show "findChild n' k = Some c \<Longrightarrow> tree_ok c" for k c
        using n'(4)[of k] c'(2) tree_ok_child[OF ok, of k c] by (simp split: if_splits)
    qed
    moreover have "leaf_at n' js = ((leaf_at n)(key # ks \<mapsto> (p, h))) js" for js
      using n' c'(3) leaf_at_child_or_new[of n key]
      by (cases js) (auto simp: leaf_at_simps)
    ultimately show ?thesis using True n'(1) by auto
  next
    case False
    then have "panics (f ?c)"
      using assms child_or_new_ok[OF ok] unfolding inserts_at_def leaf_at_child_or_new[symmetric]
      by metis
    then show ?thesis using False at_child_panic[OF root] by (cases "f ?c") auto
  qed
qed

lemma inserts_addSegments:
  assumes "list_all (\<lambda>s. \<not> multi s) (butlast segs)"
  shows "inserts_at (map seg_key segs) p h (addSegments segs p h)"
  using assms
proof (induction segs)
  case Nil
  have "addSegments [] p h = set_leaf p h" by (rule ext) simp
  then show ?case using inserts_set_leaf by simp
next
  case (Cons seg segs)
  have eq: "addSegments (seg # segs) p h =
      (if multi seg then at_child ''*'' (set_leaf p h)
       else at_child (seg_key seg) (addSegments segs p h))"
    using Cons.prems by (intro ext) (auto simp: seg_key_def)
  have "multi seg \<Longrightarrow> segs = []" using Cons.prems by (cases segs) auto
  moreover have "list_all (\<lambda>s. \<not> multi s) (butlast segs)" using Cons.prems by (cases segs) auto
  ultimately show ?case
    unfolding eq list.map
    using Cons.IH inserts_at_child[of "map seg_key segs" p h "addSegments segs p h"]
      inserts_at_child[OF inserts_set_leaf[of p h]]
    by (cases "multi seg") (simp_all add: seg_key_def[of seg])
qed

lemma inserts_addPattern: "wf_pattern p \<Longrightarrow> inserts_at (pattern_keys p) p h (addPattern p h)"
proof -
  assume "wf_pattern p"
  then have "inserts_at (map seg_key (p_segments p)) p h (addSegments (p_segments p) p h)"
    by (intro inserts_addSegments) (auto simp: wf_pattern_def wf_segments_def)
  moreover have "addPattern p h = at_child (p_host p) (at_child (p_method p) (addSegments (p_segments p) p h))"
    by (rule ext) (simp add: addPattern_def)
  ultimately show ?thesis by (simp add: pattern_keys_def inserts_at_child)
qed

end
