(* ===== verification/Routing_Match.thy ===== *)
theory Routing_Match
  imports Routing_Tree
begin

text \<open>
  Correctness of the decision tree.  The tree is a pattern store: the locale states what the
  multiplexer relies on when it registers patterns.  Matching is compared with a declarative
  reading of patterns: which key lists match a path, which values the wildcards take, and which of
  several matching key lists is preferred.
\<close>

section \<open>The interface of a pattern store\<close>

locale pattern_store =
  fixes empty :: "'t"
    and add :: "'p \<Rightarrow> 'h \<Rightarrow> 't \<Rightarrow> 't go"
    and leaf :: "'t \<Rightarrow> 'k \<Rightarrow> ('p \<times> 'h) option"
    and ok :: "'t \<Rightarrow> bool"
    and key :: "'p \<Rightarrow> 'k"
    and wf :: "'p \<Rightarrow> bool"
  assumes ok_empty: "ok empty"
    and leaf_empty: "leaf empty = Map.empty"
    and add_free: "ok t \<Longrightarrow> wf p \<Longrightarrow> leaf t (key p) = None \<Longrightarrow>
      \<exists>t'. add p h t = Ret t' \<and> ok t' \<and> leaf t' = (leaf t)(key p \<mapsto> (p, h))"
    and add_taken: "ok t \<Longrightarrow> wf p \<Longrightarrow> leaf t (key p) \<noteq> None \<Longrightarrow> panics (add p h t)"
begin

lemma add_Ret:
  assumes "ok t" and "wf p" and "add p h t = Ret t'"
  shows "leaf t (key p) = None" and "ok t'" and "leaf t' = (leaf t)(key p \<mapsto> (p, h))"
proof -
  show "leaf t (key p) = None" using assms add_taken[of t p h] by (cases "leaf t (key p) = None") auto
  then show "ok t'" "leaf t' = (leaf t)(key p \<mapsto> (p, h))"
    using add_free[OF assms(1,2), of h] assms(3) by auto
qed

fun add_all :: "('p \<times> 'h) list \<Rightarrow> 't \<Rightarrow> 't go" where
  "add_all [] t = Ret t"
| "add_all ((p, h) # ps) t = go_bind (add p h t) (add_all ps)"

lemma add_all_iff:
  assumes "ok t" and "\<forall>(p, h)\<in>set ps. wf p"
  shows "if distinct (map (key \<circ> fst) ps) \<and> (\<forall>(p, h)\<in>set ps. leaf t (key p) = None)
    then \<exists>t'. add_all ps t = Ret t' \<and> ok t' \<and>
      leaf t' = leaf t ++ map_of (map (\<lambda>(p, h). (key p, p, h)) ps)
    else panics (add_all ps t)"
  using assms
proof (induction ps arbitrary: t)
  case (Cons e ps)
  obtain p h where e: "e = (p, h)" by (cases e)
  show ?case
  proof (cases "leaf t (key p) = None")
    case True
    then obtain t1 where t1: "add p h t = Ret t1" "ok t1" "leaf t1 = (leaf t)(key p \<mapsto> (p, h))"
      using add_free[of t p h] Cons.prems e by auto
    have all: "add_all (e # ps) t = add_all ps t1" using e t1(1) by simp
    have wf: "\<forall>(p, h)\<in>set ps. wf p" using Cons.prems by simp
    have cond: "distinct (map (key \<circ> fst) (e # ps)) \<and> (\<forall>(p, h)\<in>set (e # ps). leaf t (key p) = None)
        \<longleftrightarrow> distinct (map (key \<circ> fst) ps) \<and> (\<forall>(p, h)\<in>set ps. leaf t1 (key p) = None)"
      using True e t1(3) by (auto simp: case_prod_beta image_iff split: if_splits)
    have upd: "(leaf t)(key p \<mapsto> (p, h)) ++ m = leaf t ++ m(key p \<mapsto> (p, h))" if "key p \<notin> dom m" for m
      using that by (auto simp: fun_eq_iff map_add_def split: option.splits)
    have dom_new: "key p \<notin> dom (map_of (map (\<lambda>(p, h). (key p, p, h)) ps))"
      if "distinct (map (key \<circ> fst) (e # ps))"
      using that e by (auto simp: dom_map_of_conv_image_fst image_iff case_prod_beta)
    show ?thesis
    proof (cases "distinct (map (key \<circ> fst) ps) \<and> (\<forall>(p, h)\<in>set ps. leaf t1 (key p) = None)")
      case c: True
      then obtain t' where t': "add_all ps t1 = Ret t'" "ok t'"
        "leaf t' = leaf t1 ++ map_of (map (\<lambda>(p, h). (key p, p, h)) ps)"
        using Cons.IH[OF t1(2) wf] unfolding if_P[OF c] by blast
      have "leaf t' = leaf t ++ map_of (map (\<lambda>(p, h). (key p, p, h)) (e # ps))"
        using t'(3) upd[OF dom_new] c cond e t1(3) by simp
      then show ?thesis using t' c unfolding cond all by simp
    next
      case False
      then show ?thesis using Cons.IH[OF t1(2) wf] unfolding cond all if_not_P[OF False] by simp
    qed
  next
    case False
    then show ?thesis using add_taken[of t p h] Cons.prems e by (cases "add p h t") auto
  qed
qed (simp add: assms)

end

interpretation rt: pattern_store new_node addPattern leaf_at tree_ok pattern_keys wf_pattern
proof unfold_locales
  fix t :: "'h routingNode" and p h
  assume "tree_ok t" "wf_pattern p"
  then show "leaf_at t (pattern_keys p) = None \<Longrightarrow>
      \<exists>t'. addPattern p h t = Ret t' \<and> tree_ok t' \<and> leaf_at t' = (leaf_at t)(pattern_keys p \<mapsto> (p, h))"
    and "leaf_at t (pattern_keys p) \<noteq> None \<Longrightarrow> panics (addPattern p h t)"
    using inserts_addPattern[of p h] unfolding inserts_at_def by metis+
qed (auto simp: tree_ok_new)

section \<open>The nodes of multi wildcards\<close>

text \<open>
  A literal segment that is a star shares its key with the multi wildcards.  The third step of
  matchPath relies on a pattern in each node under this key.  A literal star that is not the last
  segment breaks that: its node is a hole, and matchPath dereferences nil there.  Where no such
  segment is registered, there is no hole.
\<close>

definition starless :: "segment list \<Rightarrow> bool" where
  "starless segs = list_all (\<lambda>s. \<not> wild s \<longrightarrow> seg_s s \<noteq> ''*'') segs"

definition has_segments :: "'h routingNode \<Rightarrow> bool" where
  "has_segments n = (\<exists>p. nd_pattern n = Some p \<and> p_segments p \<noteq> [])"

definition stars_ok :: "'h routingNode \<Rightarrow> bool" where
  "stars_ok n = (\<forall>ks m. node_at n (ks @ [''*'']) = Some m \<longrightarrow> has_segments m)"

definition all_stars_ok :: "'h routingNode \<Rightarrow> bool" where
  "all_stars_ok root = (\<forall>host method n. node_at root [host, method] = Some n \<longrightarrow> stars_ok n)"

lemma stars_ok_iff:
  "stars_ok n \<longleftrightarrow> (\<forall>m. findChild n ''*'' = Some m \<longrightarrow> has_segments m) \<and>
     (\<forall>k c. findChild n k = Some c \<longrightarrow> stars_ok c)"
proof
  assume s: "stars_ok n"
  show "(\<forall>m. findChild n ''*'' = Some m \<longrightarrow> has_segments m) \<and>
     (\<forall>k c. findChild n k = Some c \<longrightarrow> stars_ok c)"
  proof (intro conjI allI impI)
    fix m assume "findChild n ''*'' = Some m"
    then have "node_at n ([] @ [''*'']) = Some m" by simp
    then show "has_segments m" using s unfolding stars_ok_def by blast
  next
    fix k c assume c: "findChild n k = Some c"
    have "has_segments m" if "node_at c (ks @ [''*'']) = Some m" for ks m
    proof -
      have "node_at n ((k # ks) @ [''*'']) = Some m" using c that by simp
      then show ?thesis using s unfolding stars_ok_def by blast
    qed
    then show "stars_ok c" unfolding stars_ok_def by blast
  qed
next
  assume r: "(\<forall>m. findChild n ''*'' = Some m \<longrightarrow> has_segments m) \<and>
     (\<forall>k c. findChild n k = Some c \<longrightarrow> stars_ok c)"
  have "has_segments m" if "node_at n (ks @ [''*'']) = Some m" for ks m
    using that r by (cases ks) (auto simp: stars_ok_def split: option.splits)
  then show "stars_ok n" unfolding stars_ok_def by blast
qed

lemma stars_ok_new: "stars_ok new_node"
  by (simp add: stars_ok_iff[of new_node])

lemma stars_ok_child: "stars_ok n \<Longrightarrow> findChild n k = Some c \<Longrightarrow> stars_ok c"
  by (simp add: stars_ok_iff[of n])

lemma stars_ok_child_or_new: "stars_ok n \<Longrightarrow> stars_ok (child_or_new n k)"
  by (auto simp: child_or_new_def stars_ok_new stars_ok_child split: option.split)

lemma set_leaf_stars:
  assumes "set_leaf p h n = Ret n'" and "stars_ok n"
  shows "stars_ok n'" and "nd_pattern n' = Some p"
proof -
  have n': "n' = Node (Some p) (Some h) (nd_children n) (nd_emptyChild n)"
    using assms(1) by (simp add: set_leaf_def split: if_splits)
  then have "findChild n' k = findChild n k" for k by (simp add: findChild_def)
  then show "stars_ok n'" using assms(2) stars_ok_iff by metis
  show "nd_pattern n' = Some p" using n' by simp
qed

lemma at_child_Ret:
  assumes "node_ok n" and "at_child key f n = Ret n'"
  obtains c' where "f (child_or_new n key) = Ret c'"
    and "\<And>k. findChild n' k = (if k = key then Some c' else findChild n k)"
proof -
  obtain c' where c': "f (child_or_new n key) = Ret c'"
    using assms at_child_panic[of n f key] by (cases "f (child_or_new n key)") auto
  then show thesis using at_child_spec[where f = f and key = key, OF assms(1) c'] assms(2) that
    by (metis go.inject(2))
qed

lemma addSegments_stars:
  assumes "addSegments segs p h n = Ret n'" and "tree_ok n" and "stars_ok n"
    and "starless segs" and "p_segments p \<noteq> []"
  shows "stars_ok n'"
  using assms
proof (induction segs arbitrary: n n')
  case Nil
  then show ?case by (auto intro: set_leaf_stars)
next
  case (Cons seg segs)
  let ?key = "seg_key seg"
  let ?f = "if multi seg then set_leaf p h else addSegments segs p h"
  have "at_child ?key ?f n = Ret n'"
    using Cons.prems(1) by (auto simp: seg_key_def split: if_splits)
  then obtain c' where c': "?f (child_or_new n ?key) = Ret c'"
    "\<And>k. findChild n' k = (if k = ?key then Some c' else findChild n k)"
    using at_child_Ret[OF tree_ok_root[OF Cons.prems(2)]] by metis
  note cn = stars_ok_child_or_new[OF Cons.prems(3)] child_or_new_ok[OF Cons.prems(2)]
  have "stars_ok c'"
    using c'(1) set_leaf_stars(1)[OF _ cn(1)] Cons.IH[OF _ cn(2) cn(1)] Cons.prems(4,5)
    by (cases "multi seg") (simp_all add: starless_def)
  moreover have "has_segments c'" if "?key = ''*''"
    using that c'(1) set_leaf_stars(2)[OF _ cn(1)] Cons.prems(4,5)
    by (auto simp: seg_key_def starless_def has_segments_def split: if_splits)
  ultimately show ?case
    using c'(2) Cons.prems(3) unfolding stars_ok_iff[of n'] stars_ok_iff[of n] by (metis option.inject)
qed

lemma addPattern_stars:
  assumes "addPattern p h root = Ret root'" and "tree_ok root" and "all_stars_ok root"
    and "starless (p_segments p)" and "p_segments p \<noteq> []"
  shows "all_stars_ok root'"
proof -
  let ?c = "child_or_new root (p_host p)"
  let ?d = "child_or_new ?c (p_method p)"
  obtain c' where c': "at_child (p_method p) (addSegments (p_segments p) p h) ?c = Ret c'"
    "\<And>k. findChild root' k = (if k = p_host p then Some c' else findChild root k)"
    using at_child_Ret[OF tree_ok_root[OF assms(2)]] assms(1) unfolding addPattern_def by metis
  have ok: "tree_ok ?c" "tree_ok ?d" using assms(2) by (simp_all add: child_or_new_ok)
  obtain d' where d': "addSegments (p_segments p) p h ?d = Ret d'"
    "\<And>k. findChild c' k = (if k = p_method p then Some d' else findChild ?c k)"
    using at_child_Ret[OF tree_ok_root[OF ok(1)] c'(1)] by metis
  have old: "stars_ok n" if "findChild root h' = Some b" "findChild b m' = Some n" for h' m' b n
  proof -
    have "node_at root [h', m'] = Some n" using that by simp
    then show ?thesis using assms(3) unfolding all_stars_ok_def by blast
  qed
  have "stars_ok ?d"
    using old[of "p_host p" _ "p_method p"]
    by (auto simp: child_or_new_def stars_ok_new split: option.split)
  then have "stars_ok d'" using addSegments_stars[OF d'(1) ok(2)] assms(4,5) by simp
  moreover have "stars_ok n" if "findChild ?c m' = Some n" for m' n
    using that old[of "p_host p" _ m' n] by (auto simp: child_or_new_def split: option.splits)
  ultimately show ?thesis
    unfolding all_stars_ok_def using c'(2) d'(2) old
    by (auto split: option.splits if_splits)
qed

lemma all_stars_ok_new: "all_stars_ok new_node"
  by (simp add: all_stars_ok_def)

section \<open>Which key lists match a path\<close>

fun keys_match :: "string list \<Rightarrow> string \<Rightarrow> bool" where
  "keys_match [] path = (path = [])"
| "keys_match (k # ks) path =
     (path \<noteq> [] \<and>
      (let (seg, rest) = firstSegment path
       in k = seg \<and> keys_match ks rest \<or>
          k = [] \<and> seg \<noteq> ''/'' \<and> keys_match ks rest \<or>
          k = ''*'' \<and> ks = []))"

text \<open>
  The preference among key lists that match a path: at the first segment where they differ, a
  literal comes before a single wildcard, and a single wildcard before a multi wildcard.
\<close>

fun ranks :: "string list \<Rightarrow> string \<Rightarrow> nat list" where
  "ranks [] path = []"
| "ranks (k # ks) path =
     (let (seg, rest) = firstSegment path
      in if k = seg \<and> keys_match ks rest then 0 # ranks ks rest
         else if k = [] then 1 # ranks ks rest
         else [2])"

text \<open>The values recorded for the wildcards; an anonymous multi wildcard records none.\<close>

fun wild_values :: "bool \<Rightarrow> string list \<Rightarrow> string \<Rightarrow> string list" where
  "wild_values named [] path = []"
| "wild_values named (k # ks) path =
     (let (seg, rest) = firstSegment path
      in if k = seg \<and> keys_match ks rest then wild_values named ks rest
         else if k = [] then seg # wild_values named ks rest
         else if named then [pathUnescape (tl path)] else [])"

definition ends_named :: "'h routingNode \<Rightarrow> bool" where
  "ends_named m = (\<exists>p. nd_pattern m = Some p \<and> seg_s (last (p_segments p)) \<noteq> [])"

definition best_leaf :: "'h routingNode \<Rightarrow> string \<Rightarrow> string list \<Rightarrow> bool" where
  "best_leaf n path ks =
     (leaf_at n ks \<noteq> None \<and> keys_match ks path \<and>
      (\<forall>ks'. leaf_at n ks' \<noteq> None \<longrightarrow> keys_match ks' path \<longrightarrow> ranks ks path \<le> ranks ks' path))"

definition match_spec :: "'h routingNode \<Rightarrow> string \<Rightarrow> string list \<Rightarrow> 'h found \<Rightarrow> bool" where
  "match_spec n path ms r =
     (case r of
        Panic _ \<Rightarrow> False
      | Ret None \<Rightarrow> (\<forall>ks. leaf_at n ks \<noteq> None \<longrightarrow> \<not> keys_match ks path)
      | Ret (Some (m, ms')) \<Rightarrow>
          (\<exists>ks. node_at n ks = Some m \<and> best_leaf n path ks \<and>
             ms' = ms @ wild_values (ends_named m) ks path))"

text \<open>A hole under the key of the multi wildcards, at which the path can arrive.\<close>

definition star_hole :: "'h routingNode \<Rightarrow> string \<Rightarrow> bool" where
  "star_hole n path =
     (\<exists>ks m. node_at n (ks @ [''*'']) = Some m \<and> nd_pattern m = None \<and> keys_match (ks @ [''*'']) path)"

definition leaves_segments :: "'h routingNode \<Rightarrow> bool" where
  "leaves_segments n = (\<forall>ks e. leaf_at n (ks @ [''*'']) = Some e \<longrightarrow> p_segments (fst e) \<noteq> [])"

definition search_ok :: "'h routingNode \<Rightarrow> string \<Rightarrow> string list \<Rightarrow> 'h found \<Rightarrow> bool" where
  "search_ok n path ms r = (case r of Panic _ \<Rightarrow> star_hole n path | Ret _ \<Rightarrow> match_spec n path ms r)"

lemma search_ok_simps [simp]:
  "search_ok n path ms (Panic e) = star_hole n path"
  "search_ok n path ms (Ret r) = match_spec n path ms (Ret r)"
  by (simp_all add: search_ok_def)

lemma leaves_segments_child: "leaves_segments n \<Longrightarrow> findChild n k = Some c \<Longrightarrow> leaves_segments c"
  unfolding leaves_segments_def by (metis append_Cons bind.bind_lunit leaf_at_simps(2))

lemma stars_ok_segments: "stars_ok n \<Longrightarrow> leaves_segments n"
  unfolding stars_ok_def leaves_segments_def has_segments_def leaf_at_def
  by (fastforce simp: bind_eq_Some_conv leaf_of_def split: option.splits)

lemma stars_ok_no_hole: "stars_ok n \<Longrightarrow> \<not> star_hole n path"
  unfolding stars_ok_def star_hole_def has_segments_def by (metis option.discI)

lemma star_hole_child:
  assumes "findChild n k = Some c" and "star_hole c rest" and "path \<noteq> []" and "firstSegment path = (seg, rest)"
    and "k = seg \<or> k = [] \<and> seg \<noteq> ''/''"
  shows "star_hole n path"
proof -
  obtain ks m where m: "node_at c (ks @ [''*'']) = Some m" "nd_pattern m = None" "keys_match (ks @ [''*'']) rest"
    using assms(2) by (auto simp: star_hole_def)
  then have "node_at n ((k # ks) @ [''*'']) = Some m" "keys_match ((k # ks) @ [''*'']) path"
    using assms(1,3-5) by auto
  then show ?thesis using m(2) unfolding star_hole_def by blast
qed

lemma match_spec_None: "match_spec n path ms (Ret None) \<longleftrightarrow> (\<forall>ks. leaf_at n ks \<noteq> None \<longrightarrow> \<not> keys_match ks path)"
  by (simp add: match_spec_def)

lemma match_spec_Some:
  "match_spec n path ms (Ret (Some (m, ms'))) \<longleftrightarrow>
     (\<exists>ks. node_at n ks = Some m \<and> best_leaf n path ks \<and> ms' = ms @ wild_values (ends_named m) ks path)"
  by (simp add: match_spec_def)

lemma keys_match_Nil: "keys_match ks [] \<longleftrightarrow> ks = []"
  by (cases ks) auto

lemma matchPath_end:
  assumes "tree_ok n"
  shows "match_spec n [] ms (matchPath (Some n) [] ms)"
proof -
  have root: "leaf_at n [] = None \<longleftrightarrow> nd_pattern n = None"
    using tree_ok_root[OF assms]
    by (cases "nd_pattern n"; cases "nd_handler n") (auto simp: leaf_at_simps leaf_of_def node_ok_def)
  show ?thesis
  proof (cases "nd_pattern n")
    case None
    then show ?thesis using root by (auto simp: matchPath.simps match_spec_None keys_match_Nil)
  next
    case (Some p)
    then have "best_leaf n [] []" using root by (simp add: best_leaf_def keys_match_Nil)
    then have "match_spec n [] ms (Ret (Some (n, ms)))"
      unfolding match_spec_Some by (intro exI[of _ "[]"]) simp
    then show ?thesis using Some by (simp add: matchPath.simps)
  qed
qed

text \<open>
  One step of the search, with the three attempts given by their specifications: the literal child,
  the single wildcard child, and the multi wildcard child.
\<close>

definition multi_attempt :: "'h routingNode \<Rightarrow> string \<Rightarrow> string list \<Rightarrow> 'h found" where
  "multi_attempt n path matches =
     (case findChild n ''*'' of
        None \<Rightarrow> Ret None
      | Some c \<Rightarrow>
          (case nd_pattern c of
             None \<Rightarrow> Panic ''nil pointer dereference''
           | Some p \<Rightarrow>
               go_bind (lastSegment p)
                 (\<lambda>ls. Ret (Some (c, if seg_s ls \<noteq> [] then matches @ [pathUnescape (tl path)]
                                     else matches)))))"

definition child_spec :: "'h routingNode option \<Rightarrow> string \<Rightarrow> string list \<Rightarrow> 'h found \<Rightarrow> bool" where
  "child_spec c path ms r = (case c of None \<Rightarrow> r = Ret None | Some n \<Rightarrow> search_ok n path ms r)"

lemma matchPath_step:
  assumes "path \<noteq> []" and "firstSegment path = (seg, rest)"
  shows "matchPath (Some n) path ms =
    or_else (matchPath (findChild n seg) rest ms)
      (or_else (if seg \<noteq> ''/'' then matchPath (findChild n []) rest (ms @ [seg]) else Ret None)
        (multi_attempt n path ms))"
  using assms by (simp add: matchPath.simps(2)[of n path] multi_attempt_def findChild_def[of n "[]"])

lemma multi_attempt_cases:
  assumes "tree_ok n" and "leaves_segments n"
  obtains "findChild n ''*'' = None" "multi_attempt n path ms = Ret None"
  | c e where "findChild n ''*'' = Some c" "nd_pattern c = None" "multi_attempt n path ms = Panic e"
  | c where "findChild n ''*'' = Some c" "nd_pattern c \<noteq> None"
      "multi_attempt n path ms = Ret (Some (c, ms @ (if ends_named c then [pathUnescape (tl path)] else [])))"
proof (cases "findChild n ''*''")
  case None
  then show ?thesis using that(1) by (simp add: multi_attempt_def)
next
  case (Some c)
  show ?thesis
  proof (cases "nd_pattern c")
    case None
    then show ?thesis using that(2)[OF Some] by (simp add: multi_attempt_def Some)
  next
    case p: (Some p)
    obtain h where "leaf_at n ([] @ [''*'']) = Some (p, h)"
      using tree_ok_root[OF tree_ok_child[OF assms(1) Some]] Some p
      by (auto simp: leaf_at_simps leaf_of_def node_ok_def)
    then have "p_segments p \<noteq> []" using assms(2) unfolding leaves_segments_def by fastforce
    then show ?thesis
      using that(3)[OF Some] by (simp add: multi_attempt_def Some p lastSegment_def ends_named_def)
  qed
qed

text \<open>How a key list that matches a path starts.\<close>

lemma keys_match_cases:
  assumes "keys_match ks path" and "path \<noteq> []" and "firstSegment path = (seg, rest)"
  obtains (literal) ks1 where "ks = seg # ks1" "keys_match ks1 rest"
      "ranks ks path = 0 # ranks ks1 rest"
      "\<And>b. wild_values b ks path = wild_values b ks1 rest"
  | (single) ks1 where "ks = [] # ks1" "seg \<noteq> ''/''" "keys_match ks1 rest"
      "ranks ks path = 1 # ranks ks1 rest \<or> ranks ks path = 0 # ranks ks1 rest \<and> seg = []"
  | (multi) "ks = [''*'']" "ranks ks path = [2] \<or> seg = ''*'' \<and> keys_match [] rest"
  using assms
proof (cases ks)
  case (Cons k ks1)
  then consider "k = seg \<and> keys_match ks1 rest"
    | "k = [] \<and> seg \<noteq> ''/'' \<and> keys_match ks1 rest" | "k = ''*'' \<and> ks1 = []"
    using assms by auto
  then show ?thesis
  proof cases
    case 1 then show ?thesis using literal[of ks1] Cons assms by simp
  next
    case 2 then show ?thesis using single[of ks1] Cons assms by simp
  next
    case 3
    then show ?thesis using multi Cons assms by auto
  qed
qed simp

lemma rank_le:
  "(0 :: nat) # xs \<le> 0 # ys \<longleftrightarrow> xs \<le> ys" "(1 :: nat) # xs \<le> 1 # ys \<longleftrightarrow> xs \<le> ys"
  "(0 :: nat) # xs \<le> 1 # ys" "(0 :: nat) # xs \<le> 2 # ys" "(1 :: nat) # xs \<le> 2 # ys"
  by simp_all

lemma single_found:
  assumes path: "path \<noteq> []" "firstSegment path = (seg, rest)"
    and no_literal: "\<And>ks. \<not> (leaf_at n (seg # ks) \<noteq> None \<and> keys_match ks rest)"
    and seg: "seg \<noteq> ''/''" and B: "child_spec (findChild n []) rest (ms @ [seg]) (Ret (Some f))"
  shows "match_spec n path ms (Ret (Some f))"
proof -
  obtain m ms' c ks where f: "f = (m, ms')" and c: "findChild n [] = Some c"
    and ks: "node_at c ks = Some m" "best_leaf c rest ks"
      "ms' = (ms @ [seg]) @ wild_values (ends_named m) ks rest"
    using B by (cases f) (auto simp: child_spec_def match_spec_Some split: option.splits)
  have km: "keys_match ks rest" and leaf: "leaf_at n ([] # ks) \<noteq> None"
    using ks c by (simp_all add: best_leaf_def leaf_at_simps)
  have ne: "seg \<noteq> []" using no_literal[of ks] km leaf by auto
  have "best_leaf n path ([] # ks)"
    unfolding best_leaf_def
  proof (intro conjI allI impI)
    show "leaf_at n ([] # ks) \<noteq> None" by (rule leaf)
    show "keys_match ([] # ks) path" using km path seg by simp
    fix ks' assume l: "leaf_at n ks' \<noteq> None" and "keys_match ks' path"
    from \<open>keys_match ks' path\<close> path show "ranks ([] # ks) path \<le> ranks ks' path"
    proof (cases rule: keys_match_cases)
      case (literal ks1)
      then show ?thesis using l no_literal by blast
    next
      case (single ks1)
      then show ?thesis using l c ks path km ne by (auto simp: leaf_at_simps best_leaf_def)
    next
      case multi
      then show ?thesis using l no_literal[of "[]"] path km ne by auto
    qed
  qed
  moreover have "node_at n ([] # ks) = Some m" using c ks by simp
  moreover have "ms' = ms @ wild_values (ends_named m) ([] # ks) path" using ks ne path by simp
  ultimately show ?thesis
    unfolding f match_spec_Some by (intro exI[of _ "[] # ks"] conjI)
qed

lemma multi_found:
  assumes path: "path \<noteq> []" "firstSegment path = (seg, rest)"
    and ok: "tree_ok n" "leaves_segments n"
    and no_literal: "\<And>ks. \<not> (leaf_at n (seg # ks) \<noteq> None \<and> keys_match ks rest)"
    and no_single: "\<And>ks. \<not> (seg \<noteq> ''/'' \<and> leaf_at n ([] # ks) \<noteq> None \<and> keys_match ks rest)"
  shows "search_ok n path ms (multi_attempt n path ms)"
proof -
  have only: "ks = [''*''] \<and> ranks ks path = [2]" if "leaf_at n ks \<noteq> None" "keys_match ks path" for ks
    using that(2) path
  proof (cases rule: keys_match_cases)
    case multi
    then show ?thesis using that no_literal[of "[]"] by auto
  qed (use that no_literal no_single in blast)+
  consider (none) "findChild n ''*'' = None" "multi_attempt n path ms = Ret None"
    | (hole) c e where "findChild n ''*'' = Some c" "nd_pattern c = None" "multi_attempt n path ms = Panic e"
    | (some) c where "findChild n ''*'' = Some c" "nd_pattern c \<noteq> None"
      "multi_attempt n path ms = Ret (Some (c, ms @ (if ends_named c then [pathUnescape (tl path)] else [])))"
    using multi_attempt_cases[OF ok] by metis
  then show ?thesis
  proof cases
    case none
    then have "leaf_at n [''*''] = None" by (simp add: leaf_at_simps)
    then show ?thesis unfolding none(2) search_ok_simps match_spec_None using only by metis
  next
    case (hole c e)
    then have "node_at n ([] @ [''*'']) = Some c" "keys_match ([] @ [''*'']) path" using path by simp_all
    then show ?thesis using hole(2,3) unfolding star_hole_def hole(3) search_ok_simps by blast
  next
    case (some c)
    have leaf: "leaf_at n [''*''] \<noteq> None"
      using some(1,2) tree_ok_root[OF tree_ok_child[OF ok(1) some(1)]]
      by (auto simp: leaf_at_simps leaf_of_def node_ok_def split: option.split)
    have km: "keys_match [''*''] path" using path by simp
    have "ranks [''*''] path = [2]" using only[OF leaf km] by simp
    then have "best_leaf n path [''*'']"
      unfolding best_leaf_def using leaf km only by fastforce
    moreover have "wild_values b [''*''] path = (if b then [pathUnescape (tl path)] else [])" for b
      using path leaf no_literal[of "[]"] by auto
    ultimately show ?thesis
      unfolding some(3) search_ok_simps match_spec_Some using some(1) by (intro exI[of _ "[''*'']"]) simp
  qed
qed

lemma match_step_correct:
  assumes path: "path \<noteq> []" "firstSegment path = (seg, rest)"
    and ok: "tree_ok n" "leaves_segments n"
    and A: "child_spec (findChild n seg) rest ms A"
    and B: "A = Ret None \<Longrightarrow> seg \<noteq> ''/'' \<Longrightarrow> child_spec (findChild n []) rest (ms @ [seg]) B"
  shows "search_ok n path ms
    (or_else A (or_else (if seg \<noteq> ''/'' then B else Ret None) (multi_attempt n path ms)))"
proof -
  have leafA: "leaf_at n (seg # ks) = Option.bind (findChild n seg) (\<lambda>c. leaf_at c ks)" for ks
    by (rule leaf_at_simps)
  show ?thesis
  proof (cases A)
    case (Panic m)
    then obtain c where "findChild n seg = Some c" "star_hole c rest"
      using A by (auto simp: child_spec_def split: option.splits)
    then show ?thesis using star_hole_child[OF _ _ path] Panic by auto
  next
    case A': (Ret r)
    show ?thesis
    proof (cases r)
      case (Some f)
      then obtain m ms' c ks where f: "f = (m, ms')" and c: "findChild n seg = Some c"
        and ks: "node_at c ks = Some m" "best_leaf c rest ks"
          "ms' = ms @ wild_values (ends_named m) ks rest"
        using A A' by (cases f) (auto simp: child_spec_def match_spec_Some split: option.splits)
      have km: "keys_match ks rest" using ks by (simp add: best_leaf_def)
      have "best_leaf n path (seg # ks)"
        unfolding best_leaf_def
      proof (intro conjI allI impI)
        show "leaf_at n (seg # ks) \<noteq> None" using ks c by (simp add: leaf_at_simps best_leaf_def)
        show "keys_match (seg # ks) path" using km path by simp
        fix ks' assume l: "leaf_at n ks' \<noteq> None" and "keys_match ks' path"
        from \<open>keys_match ks' path\<close> path show "ranks (seg # ks) path \<le> ranks ks' path"
        proof (cases rule: keys_match_cases)
          case (literal ks1)
          then show ?thesis using l c ks path km by (simp add: leaf_at_simps best_leaf_def)
        next
          case (single ks1)
          then show ?thesis using l c ks path km by (auto simp: leaf_at_simps best_leaf_def)
        next
          case multi
          show ?thesis
          proof (cases "seg = ''*'' \<and> keys_match [] rest")
            case True
            then have "ks = []" using km by (simp add: keys_match_Nil)
            then show ?thesis using True multi(1) by simp
          next
            case False
            then show ?thesis using multi km path by (auto simp: keys_match_Nil)
          qed
        qed
      qed
      moreover have "node_at n (seg # ks) = Some m" using c ks by simp
      moreover have "ms' = ms @ wild_values (ends_named m) (seg # ks) path" using ks km path by simp
      ultimately have "match_spec n path ms (Ret (Some f))"
        unfolding f match_spec_Some by (intro exI[of _ "seg # ks"] conjI)
      then show ?thesis using Some A' by simp
    next
      case None
      then have noA: "leaf_at n (seg # ks) = None \<or> \<not> keys_match ks rest" for ks
        using A A' by (auto simp: leafA child_spec_def match_spec_None split: option.splits)
      have A0: "A = Ret None" using A' None by simp
      have no_literal: "\<not> (leaf_at n (seg # ks) \<noteq> None \<and> keys_match ks rest)" for ks
        using noA[of ks] by auto
      show ?thesis
      proof (cases "if seg \<noteq> ''/'' then B else Ret None")
        case (Panic msg)
        then have seg: "seg \<noteq> ''/''" and BP: "B = Panic msg" by (auto split: if_splits)
        then obtain c where "findChild n [] = Some c" "star_hole c rest"
          using B[OF A0 seg] by (auto simp: child_spec_def split: option.splits)
        then show ?thesis using star_hole_child[OF _ _ path] seg A0 BP by auto
      next
        case B': (Ret r2)
        show ?thesis
        proof (cases r2)
          case (Some f)
          then have seg: "seg \<noteq> ''/''" and BS: "B = Ret (Some f)" using B' by (auto split: if_splits)
          have "match_spec n path ms (Ret (Some f))"
            using single_found[OF path no_literal seg] B[OF A0 seg] unfolding BS by blast
          then show ?thesis using A0 BS seg by simp
        next
          case None2: None
          have no_single: "\<not> (seg \<noteq> ''/'' \<and> leaf_at n ([] # ks) \<noteq> None \<and> keys_match ks rest)" for ks
            using B A' None B' None2
            by (auto simp: leaf_at_simps child_spec_def match_spec_None split: option.splits if_splits)
          have "search_ok n path ms (multi_attempt n path ms)"
            by (rule multi_found[OF path ok no_literal no_single])
          then show ?thesis using A' None B' None2 by simp
        qed
      qed
    qed
  qed
qed

lemma matchPath_search_ok:
  assumes "tree_ok n" and "leaves_segments n"
  shows "search_ok n path ms (matchPath (Some n) path ms)"
  using assms
proof (induction "length path" arbitrary: n path ms rule: less_induct)
  case less
  show ?case
  proof (cases "path = []")
    case True
    then show ?thesis using matchPath_end[OF less.prems(1), of ms] by (auto simp: matchPath.simps(2))
  next
    case False
    obtain seg rest where fs: "firstSegment path = (seg, rest)" by fastforce
    have IH: "child_spec (findChild n k) rest ms' (matchPath (findChild n k) rest ms')" for k ms'
      using less.hyps[OF firstSegment_shorter[OF fs False]] less.prems
      by (auto simp: child_spec_def dest: tree_ok_child leaves_segments_child split: option.split)
    show ?thesis
      unfolding matchPath_step[OF False fs]
      by (rule match_step_correct[OF False fs less.prems]) (rule IH)+
  qed
qed

lemma or_else_None_iff: "or_else x y = Ret None \<longleftrightarrow> x = Ret None \<and> y = Ret None"
  by (cases "(x, y)" rule: or_else.cases) auto

text \<open>A search that finds nothing has met no node under the key of the multi wildcards.\<close>

lemma matchPath_None_no_star:
  assumes "matchPath (Some n) path ms = Ret None" and "keys_match (ks @ [''*'']) path"
  shows "node_at n (ks @ [''*'']) = None"
  using assms
proof (induction ks arbitrary: n path ms)
  case Nil
  then have ne: "path \<noteq> []" by auto
  obtain seg rest where fs: "firstSegment path = (seg, rest)" by fastforce
  have "multi_attempt n path ms = Ret None"
    using Nil.prems(1) unfolding matchPath_step[OF ne fs] or_else_None_iff by blast
  then show ?case
    by (auto simp: multi_attempt_def go_bind_Ret lastSegment_def split: option.splits if_splits)
next
  case (Cons k ks)
  then have ne: "path \<noteq> []" by auto
  obtain seg rest where fs: "firstSegment path = (seg, rest)" by fastforce
  have k: "k = seg \<or> k = [] \<and> seg \<noteq> ''/''" and km: "keys_match (ks @ [''*'']) rest"
    using Cons.prems(2) fs by auto
  obtain ms' where "matchPath (findChild n k) rest ms' = Ret None"
    using Cons.prems(1) k unfolding matchPath_step[OF ne fs] or_else_None_iff by auto
  then show ?case using Cons.IH[OF _ km] by (auto split: option.split)
qed

lemma matchPath_hole_panics:
  assumes "tree_ok n" and "leaves_segments n" and "star_hole n path"
    and "\<And>ks. leaf_at n ks \<noteq> None \<Longrightarrow> \<not> keys_match ks path"
  shows "panics (matchPath (Some n) path ms)"
proof (cases "matchPath (Some n) path ms")
  case (Ret r)
  have spec: "match_spec n path ms (Ret r)"
    using matchPath_search_ok[OF assms(1,2), of path ms] unfolding Ret by simp
  have "r = None"
    using spec assms(4) by (cases r) (auto simp: match_spec_Some best_leaf_def)
  then show ?thesis
    using matchPath_None_no_star[of n path ms] assms(3) Ret by (auto simp: star_hole_def)
qed simp

text \<open>Where every node under the key of the multi wildcards holds a pattern, the search never panics.\<close>

lemma matchPath_match_spec:
  assumes "tree_ok n" and "stars_ok n"
  shows "match_spec n path ms (matchPath (Some n) path ms)"
  using matchPath_search_ok[OF assms(1) stars_ok_segments[OF assms(2)], of path ms] stars_ok_no_hole[OF assms(2)]
  by (cases "matchPath (Some n) path ms") simp_all

section \<open>Properties\<close>

text \<open>C15: The decision tree refines a map from key lists to patterns: adding any list of well-formed
  patterns to the empty tree succeeds exactly when no two of them have the same keys, and then the tree holds
  exactly these patterns, each under its own keys.\<close>

theorem addPatterns_refine_map:
  assumes "\<forall>(p, h)\<in>set ps. wf_pattern p"
  shows "if distinct (map (pattern_keys \<circ> fst) ps)
    then \<exists>t. rt.add_all ps new_node = Ret t \<and> tree_ok t \<and>
      leaf_at t = map_of (map (\<lambda>(p, h). (pattern_keys p, p, h)) ps)
    else panics (rt.add_all ps new_node)"
proof -
  have e: "leaf_at new_node ks = None" for ks by simp
  have m: "leaf_at new_node ++ f = f" for f by (auto simp: fun_eq_iff map_add_def split: option.split)
  have free: "(\<forall>(p, h)\<in>set ps. leaf_at new_node (pattern_keys p) = None) = True" by auto
  show ?thesis using rt.add_all_iff[OF tree_ok_new assms] unfolding m free simp_thms .
qed

lemma addPatterns_refine_map_witness:
  "panics (rt.add_all [(\<lparr>p_str = ''/{x}'', p_method = [], p_host = [], p_segments = [wild_seg ''x'' False], p_loc = []\<rparr>, 1 :: nat),
     (\<lparr>p_str = ''/{y}'', p_method = [], p_host = [], p_segments = [wild_seg ''y'' False], p_loc = []\<rparr>, 2)] new_node)"
proof -
  let ?ps = "[(\<lparr>p_str = ''/{x}'', p_method = [], p_host = [], p_segments = [wild_seg ''x'' False], p_loc = []\<rparr>, 1 :: nat),
     (\<lparr>p_str = ''/{y}'', p_method = [], p_host = [], p_segments = [wild_seg ''y'' False], p_loc = []\<rparr>, 2)]"
  have "\<forall>(p, h)\<in>set ?ps. wf_pattern p" by (simp add: wf_pattern_def wf_segments_def wild_names_def)
  from addPatterns_refine_map[OF this] show ?thesis by (simp add: pattern_keys_def seg_key_def)
qed

text \<open>A tree built by the code, with a literal star before a literal segment and a single wildcard.\<close>

definition star_pattern :: pattern where
  "star_pattern = \<lparr>p_str = ''/*/b'', p_method = [], p_host = [],
     p_segments = [lit_seg ''*'', lit_seg ''b''], p_loc = []\<rparr>"

definition wild_pattern :: pattern where
  "wild_pattern = \<lparr>p_str = ''/a/{x}'', p_method = [], p_host = [],
     p_segments = [lit_seg ''a'', wild_seg ''x'' False], p_loc = []\<rparr>"

definition star_tree :: "nat routingNode" where
  "star_tree =
     (case go_bind (addPattern star_pattern 1 new_node) (addPattern wild_pattern 2) of
        Ret t \<Rightarrow> (case node_at t [[], []] of Some n \<Rightarrow> n | None \<Rightarrow> new_node)
      | Panic _ \<Rightarrow> new_node)"

text \<open>C5: The backtracking search of matchPath returns, for a path, the registered leaf that is preferred
  among all that match it (a literal before a wildcard before a multi wildcard, at the first segment where two
  differ), with the values of its wildcards, and nothing only when no leaf matches.  It panics only when the
  path arrives at a node under the key of the multi wildcards that holds no pattern, which a literal star
  before the last segment of a pattern makes; and with such a node and no leaf that matches it always
  panics.\<close>

theorem matchPath_best_leaf:
  assumes "tree_ok n" and "\<And>ks e. leaf_at n ks = Some e \<Longrightarrow> p_segments (fst e) \<noteq> []"
  shows "(if panics (matchPath (Some n) path ms) then star_hole n path
      else match_spec n path ms (matchPath (Some n) path ms)) \<and>
    (star_hole n path \<and> (\<forall>ks. leaf_at n ks \<noteq> None \<longrightarrow> \<not> keys_match ks path) \<longrightarrow>
      panics (matchPath (Some n) path ms))"
proof -
  have segs: "leaves_segments n" using assms(2) by (simp add: leaves_segments_def)
  have "panics (matchPath (Some n) path ms)"
    if "star_hole n path \<and> (\<forall>ks. leaf_at n ks \<noteq> None \<longrightarrow> \<not> keys_match ks path)"
    using matchPath_hole_panics[OF assms(1) segs, of path ms] that by blast
  moreover have "if panics (matchPath (Some n) path ms) then star_hole n path
      else match_spec n path ms (matchPath (Some n) path ms)"
    using matchPath_search_ok[OF assms(1) segs, of path ms]
    by (cases "matchPath (Some n) path ms") simp_all
  ultimately show ?thesis by blast
qed

lemma star_tree_ok: "tree_ok star_tree \<and> (\<forall>ks e. leaf_at star_tree ks = Some e \<longrightarrow> p_segments (fst e) \<noteq> [])"
proof -
  let ?ps = "[(star_pattern, 1 :: nat), (wild_pattern, 2)]"
  have wf: "\<forall>(p, h)\<in>set ?ps. wf_pattern p" by (simp add: star_pattern_def wild_pattern_def wf_pattern_def wf_segments_def wild_names_def)
  have dist: "distinct (map (pattern_keys \<circ> fst) ?ps) \<and> (\<forall>(p, h)\<in>set ?ps. leaf_at (new_node :: nat routingNode) (pattern_keys p) = None)"
    by (simp add: star_pattern_def wild_pattern_def pattern_keys_def seg_key_def)
  obtain t where t: "rt.add_all ?ps new_node = Ret t" "tree_ok t"
    "leaf_at t = leaf_at new_node ++ map_of (map (\<lambda>(p, h). (pattern_keys p, p, h)) ?ps)"
    using rt.add_all_iff[OF tree_ok_new wf] unfolding if_P[OF dist] by blast
  have add: "go_bind (addPattern star_pattern 1 new_node) (addPattern wild_pattern 2) = Ret t"
    using t(1) by (cases "addPattern star_pattern 1 new_node :: nat routingNode go") (simp_all add: go_bind_Ret)
  show ?thesis
  proof (cases "node_at t [[], []]")
    case None
    then show ?thesis
      using add by (simp add: star_tree_def tree_ok_new del: node_at.simps)
  next
    case (Some n)
    then have n: "star_tree = n" using add by (simp add: star_tree_def del: node_at.simps)
    obtain c where c: "findChild t [] = Some c" "findChild c [] = Some n"
      using Some by (auto split: option.splits)
    have "leaf_at t ([] # [] # ks) = leaf_at n ks" for ks using c by (simp add: leaf_at_simps)
    moreover have "p_segments (fst e) \<noteq> []" if "leaf_at t ks = Some e" for ks e
      using that unfolding t(3) by (auto simp: star_pattern_def wild_pattern_def split: if_splits)
    ultimately have "\<forall>ks e. leaf_at n ks = Some e \<longrightarrow> p_segments (fst e) \<noteq> []" by metis
    then show ?thesis using n tree_ok_child[OF tree_ok_child[OF t(2) c(1)] c(2)] by simp
  qed
qed

lemma matchPath_best_leaf_witness:
  "star_hole star_tree ''/x'' \<and> panics (matchPath (Some star_tree) ''/x'' []) \<and>
   match_spec star_tree ''/a/c'' [] (matchPath (Some star_tree) ''/a/c'' []) \<and>
   (\<exists>m. matchPath (Some star_tree) ''/a/c'' [] = Ret (Some (m, [''c''])))"
proof -
  have ok: "tree_ok star_tree" "\<And>ks e. leaf_at star_tree ks = Some e \<Longrightarrow> p_segments (fst e) \<noteq> []"
    using star_tree_ok by blast+
  have "panics (matchPath (Some star_tree) ''/x'' [])" by code_simp
  moreover have "case matchPath (Some star_tree) ''/a/c'' [] of Ret (Some (_, vs)) \<Rightarrow> vs = [''c''] | _ \<Rightarrow> False"
    by code_simp
  ultimately show ?thesis
    using matchPath_best_leaf[OF ok, where path = "''/x''" and ms = "[]"]
      matchPath_best_leaf[OF ok, where path = "''/a/c''" and ms = "[]"]
    by (cases "matchPath (Some star_tree) ''/a/c'' []") (auto split: option.splits)
qed

end
