(* ===== verification/Url.thy ===== *)
theory Url
  imports Url_Escape Clean_Path
begin

text \<open>
  URLs (src/url/url.go): the parser and its stages, the printer, the escaped forms of the path and of
  the fragment, host and port, reference resolution and the values of a query.  A pointer to a
  structure is the structure, a nil pointer \<^const>\<open>None\<close>; a method that changes its receiver
  returns the changed one.
\<close>

record Userinfo =
  username :: string
  password :: string
  passwordSet :: bool

record URL =
  Scheme :: string
  Opaque :: string
  User :: "Userinfo option"
  Host :: string
  Path :: string
  RawPath :: string
  OmitHost :: bool
  ForceQuery :: bool
  RawQuery :: string
  Fragment :: string
  RawFragment :: string

definition new_URL :: URL where
  "new_URL = \<lparr>Scheme = [], Opaque = [], User = None, Host = [], Path = [], RawPath = [],
     OmitHost = False, ForceQuery = False, RawQuery = [], Fragment = [], RawFragment = []\<rparr>"

text \<open>
  The errors: a fixed message, the error of unescape, an invalid port (whose text is quoted in the
  message), and the wrapper of the exported parsers, with the text it names.
\<close>

datatype parse_error =
  Msg string
| Unescaping url_error
| InvalidPort string
| ParseError string parse_error

definition unescape_in :: "string \<Rightarrow> encoding \<Rightarrow> parse_error + string" where
  "unescape_in s mode = (case unescape s mode of Inl e \<Rightarrow> Inl (Unescaping e) | Inr t \<Rightarrow> Inr t)"

lemma unescape_in_Inr [simp]: "unescape_in s mode = Inr t \<longleftrightarrow> unescape s mode = Inr t"
  by (simp add: unescape_in_def split: sum.split)

section \<open>User information\<close>

definition User_of :: "string \<Rightarrow> Userinfo" where
  "User_of name = \<lparr>username = name, password = [], passwordSet = False\<rparr>"

definition UserPassword :: "string \<Rightarrow> string \<Rightarrow> Userinfo" where
  "UserPassword name pw = \<lparr>username = name, password = pw, passwordSet = True\<rparr>"

definition Username :: "Userinfo option \<Rightarrow> string" where
  "Username u = (case u of None \<Rightarrow> [] | Some i \<Rightarrow> username i)"

definition Password :: "Userinfo option \<Rightarrow> string \<times> bool" where
  "Password u = (case u of None \<Rightarrow> ([], False) | Some i \<Rightarrow> (password i, passwordSet i))"

definition Userinfo_String :: "Userinfo option \<Rightarrow> string" where
  "Userinfo_String u =
     (case u of
        None \<Rightarrow> []
      | Some i \<Rightarrow>
          escape (username i) encodeUserPassword @
          (if passwordSet i then CHR '':'' # escape (password i) encodeUserPassword else []))"

text \<open>
  The loop of validUserinfo ranges over runes; a rune that is not ASCII, as well as an invalid byte,
  is refused, so ranging over bytes gives the same answer.
\<close>

definition validUserinfo :: "string \<Rightarrow> bool" where
  "validUserinfo s =
     list_all (\<lambda>r.
       if in_range (CHR ''A'') (CHR ''Z'') r then True
       else if in_range (CHR ''a'') (CHR ''z'') r then True
       else if in_range (CHR ''0'') (CHR ''9'') r then True
       else r \<in> set (''-._:~!$&'' @ [CHR 0x27] @ ''()*+,;=%@'')) s"

section \<open>The stages of the parser\<close>

fun getScheme_loop :: "string \<Rightarrow> nat \<Rightarrow> string \<Rightarrow> parse_error + string \<times> string" where
  "getScheme_loop rawURL i [] = Inr ([], rawURL)"
| "getScheme_loop rawURL i (c # cs) =
     (if in_range (CHR ''a'') (CHR ''z'') c \<or> in_range (CHR ''A'') (CHR ''Z'') c then
        getScheme_loop rawURL (Suc i) cs
      else if in_range (CHR ''0'') (CHR ''9'') c \<or> c = CHR ''+'' \<or> c = CHR ''-'' \<or> c = CHR ''.'' then
        (if i = 0 then Inr ([], rawURL) else getScheme_loop rawURL (Suc i) cs)
      else if c = CHR '':'' then
        (if i = 0 then Inl (Msg ''missing protocol scheme'')
         else Inr (take i rawURL, drop (Suc i) rawURL))
      else Inr ([], rawURL))"

definition getScheme :: "string \<Rightarrow> parse_error + string \<times> string" where
  "getScheme rawURL = getScheme_loop rawURL 0 rawURL"

definition validOptionalPort :: "string \<Rightarrow> bool" where
  "validOptionalPort port =
     (if port = [] then True
      else if hd port \<noteq> CHR '':'' then False
      else list_all (\<lambda>b. \<not> (b < CHR ''0'' \<or> CHR ''9'' < b)) (tl port))"

definition parseHost :: "string \<Rightarrow> parse_error + string" where
  "parseHost host =
     (if has_prefix host ''['' then
        (case last_index_byte (CHR '']'') host of
           None \<Rightarrow> Inl (Msg (''missing '' @ [CHR 0x27] @ '']'' @ [CHR 0x27] @ '' in host''))
         | Some i \<Rightarrow>
             (let colonPort = drop (Suc i) host
              in if \<not> validOptionalPort colonPort then Inl (InvalidPort colonPort)
                 else (case index_str ''%25'' (take i host) of
                         Some zone \<Rightarrow>
                           and_then (unescape_in (take zone host) encodeHost) (\<lambda>host1.
                           and_then (unescape_in (drop zone (take i host)) encodeZone) (\<lambda>host2.
                           and_then (unescape_in (drop i host) encodeHost) (\<lambda>host3.
                             Inr (host1 @ host2 @ host3))))
                       | None \<Rightarrow> unescape_in host encodeHost)))
      else
        (case last_index_byte (CHR '':'') host of
           Some i \<Rightarrow>
             (let colonPort = drop i host
              in if \<not> validOptionalPort colonPort then Inl (InvalidPort colonPort)
                 else unescape_in host encodeHost)
         | None \<Rightarrow> unescape_in host encodeHost))"

definition parseAuthority :: "string \<Rightarrow> parse_error + Userinfo option \<times> string" where
  "parseAuthority authority =
     (let i = last_index_byte (CHR ''@'') authority
      in and_then (case i of None \<Rightarrow> parseHost authority | Some i \<Rightarrow> parseHost (drop (Suc i) authority))
        (\<lambda>host.
          case i of
            None \<Rightarrow> Inr (None, host)
          | Some i \<Rightarrow>
              (let userinfo = take i authority
               in if \<not> validUserinfo userinfo then Inl (Msg ''net/url: invalid userinfo'')
                  else if \<not> contains_byte (CHR '':'') userinfo then
                    and_then (unescape_in userinfo encodeUserPassword) (\<lambda>name.
                      Inr (Some (User_of name), host))
                  else (let (name, pw, _) = cut_byte (CHR '':'') userinfo
                        in and_then (unescape_in name encodeUserPassword) (\<lambda>name'.
                           and_then (unescape_in pw encodeUserPassword) (\<lambda>pw'.
                             Inr (Some (UserPassword name' pw'), host)))))))"

definition setPath :: "string \<Rightarrow> URL \<Rightarrow> parse_error + URL" where
  "setPath p u =
     and_then (unescape_in p encodePath) (\<lambda>path.
       Inr (u\<lparr>Path := path, RawPath := if p = escape path encodePath then [] else p\<rparr>))"

definition setFragment :: "string \<Rightarrow> URL \<Rightarrow> parse_error + URL" where
  "setFragment f u =
     and_then (unescape_in f encodeFragment) (\<lambda>frag.
       Inr (u\<lparr>Fragment := frag, RawFragment := if f = escape frag encodeFragment then [] else f\<rparr>))"

definition stringContainsCTLByte :: "string \<Rightarrow> bool" where
  "stringContainsCTLByte s = list_ex (\<lambda>b. b < CHR '' '' \<or> b = CHR 0x7F) s"

text \<open>
  The stages of parse after the scheme: the query is cut off, a rootless rest is opaque or checked,
  and the authority is parsed when there is one.
\<close>

definition parse_query_part :: "string \<Rightarrow> URL \<Rightarrow> string \<times> URL" where
  "parse_query_part rest url =
     (if has_suffix rest ''?'' \<and> count_byte (CHR ''?'') rest = 1 then
        (take (length rest - 1) rest, url\<lparr>ForceQuery := True\<rparr>)
      else (let (rest', q, _) = cut_byte (CHR ''?'') rest in (rest', url\<lparr>RawQuery := q\<rparr>)))"

definition parse_path_part :: "string \<Rightarrow> bool \<Rightarrow> URL \<Rightarrow> parse_error + URL" where
  "parse_path_part rest viaRequest url =
     (if (Scheme url \<noteq> [] \<or> \<not> viaRequest \<and> \<not> has_prefix rest ''///'') \<and> has_prefix rest ''//'' then
        (let a = drop 2 rest;
             (authority, rest') = (case index_byte (CHR ''/'') a of
                                     Some i \<Rightarrow> (take i a, drop i a) | None \<Rightarrow> (a, []))
         in and_then (parseAuthority authority) (\<lambda>(user, host).
              setPath rest' (url\<lparr>User := user, Host := host\<rparr>)))
      else if Scheme url \<noteq> [] \<and> has_prefix rest ''/'' then
        setPath rest (url\<lparr>OmitHost := True\<rparr>)
      else setPath rest url)"

definition parse_rest :: "string \<Rightarrow> bool \<Rightarrow> URL \<Rightarrow> parse_error + URL" where
  "parse_rest rest viaRequest url =
     (if \<not> has_prefix rest ''/'' then
        (if Scheme url \<noteq> [] then Inr (url\<lparr>Opaque := rest\<rparr>)
         else if viaRequest then Inl (Msg ''invalid URI for request'')
         else if contains_byte (CHR '':'') (fst (cut_byte (CHR ''/'') rest)) then
           Inl (Msg ''first path segment in URL cannot contain colon'')
         else parse_path_part rest viaRequest url)
      else parse_path_part rest viaRequest url)"

definition parse :: "string \<Rightarrow> bool \<Rightarrow> parse_error + URL" where
  "parse rawURL viaRequest =
     (if stringContainsCTLByte rawURL then Inl (Msg ''net/url: invalid control character in URL'')
      else if rawURL = [] \<and> viaRequest then Inl (Msg ''empty url'')
      else if rawURL = ''*'' then Inr (new_URL\<lparr>Path := ''*''\<rparr>)
      else and_then (getScheme rawURL) (\<lambda>(scheme, rest).
        (let (rest', url) = parse_query_part rest (new_URL\<lparr>Scheme := map lower scheme\<rparr>)
         in parse_rest rest' viaRequest url)))"

definition Parse :: "string \<Rightarrow> parse_error + URL" where
  "Parse rawURL =
     (let (u, frag, _) = cut_byte (CHR ''#'') rawURL
      in case parse u False of
           Inl e \<Rightarrow> Inl (ParseError u e)
         | Inr url \<Rightarrow>
             if frag = [] then Inr url
             else (case setFragment frag url of
                     Inl e \<Rightarrow> Inl (ParseError rawURL e)
                   | Inr url' \<Rightarrow> Inr url'))"

definition ParseRequestURI :: "string \<Rightarrow> parse_error + URL" where
  "ParseRequestURI rawURL =
     (case parse rawURL True of Inl e \<Rightarrow> Inl (ParseError rawURL e) | Inr url \<Rightarrow> Inr url)"

section \<open>Printing\<close>

definition EscapedPath :: "URL \<Rightarrow> string" where
  "EscapedPath u =
     (if RawPath u \<noteq> [] \<and> validEncoded (RawPath u) encodePath
         \<and> unescape (RawPath u) encodePath = Inr (Path u) then RawPath u
      else if Path u = ''*'' then ''*''
      else escape (Path u) encodePath)"

definition EscapedFragment :: "URL \<Rightarrow> string" where
  "EscapedFragment u =
     (if RawFragment u \<noteq> [] \<and> validEncoded (RawFragment u) encodeFragment
         \<and> unescape (RawFragment u) encodeFragment = Inr (Fragment u) then RawFragment u
      else escape (Fragment u) encodeFragment)"

definition String_authority :: "URL \<Rightarrow> string" where
  "String_authority u =
     (if Scheme u \<noteq> [] \<or> Host u \<noteq> [] \<or> User u \<noteq> None then
        (if OmitHost u \<and> Host u = [] \<and> User u = None then []
         else (if Host u \<noteq> [] \<or> Path u \<noteq> [] \<or> User u \<noteq> None then ''//'' else []) @
           (if User u \<noteq> None then Userinfo_String (User u) @ ''@'' else []) @
           (if Host u \<noteq> [] then escape (Host u) encodeHost else []))
      else [])"

definition URL_String :: "URL \<Rightarrow> string" where
  "URL_String u =
     (let buf = (if Scheme u \<noteq> [] then Scheme u @ '':'' else []);
          buf = (if Opaque u \<noteq> [] then buf @ Opaque u
                 else (let buf = buf @ String_authority u;
                           path = EscapedPath u;
                           buf = (if path \<noteq> [] \<and> hd path \<noteq> CHR ''/'' \<and> Host u \<noteq> []
                                  then buf @ ''/'' else buf);
                           buf = (if buf = [] \<and> contains_byte (CHR '':'') (fst (cut_byte (CHR ''/'') path))
                                  then buf @ ''./'' else buf)
                       in buf @ path));
          buf = (if ForceQuery u \<or> RawQuery u \<noteq> [] then buf @ ''?'' @ RawQuery u else buf)
      in if Fragment u \<noteq> [] then buf @ ''#'' @ EscapedFragment u else buf)"

definition Redacted :: "URL option \<Rightarrow> string" where
  "Redacted u =
     (case u of
        None \<Rightarrow> []
      | Some u \<Rightarrow>
          (let ru = (if snd (Password (User u))
                     then u\<lparr>User := Some (UserPassword (Username (User u)) ''xxxxx'')\<rparr> else u)
           in URL_String ru))"

definition RequestURI :: "URL \<Rightarrow> string" where
  "RequestURI u =
     (let result = (if Opaque u = [] then (if EscapedPath u = [] then ''/'' else EscapedPath u)
                    else if has_prefix (Opaque u) ''//'' then Scheme u @ '':'' @ Opaque u
                    else Opaque u)
      in if ForceQuery u \<or> RawQuery u \<noteq> [] then result @ ''?'' @ RawQuery u else result)"

definition splitHostPort :: "string \<Rightarrow> string \<times> string" where
  "splitHostPort hostPort =
     (let (host, port) = (case last_index_byte (CHR '':'') hostPort of
                            Some colon \<Rightarrow>
                              if validOptionalPort (drop colon hostPort)
                              then (take colon hostPort, drop (Suc colon) hostPort)
                              else (hostPort, [])
                          | None \<Rightarrow> (hostPort, []))
      in if has_prefix host ''['' \<and> has_suffix host '']''
         then (drop 1 (take (length host - 1) host), port) else (host, port))"

definition Hostname :: "URL \<Rightarrow> string" where
  "Hostname u = fst (splitHostPort (Host u))"

definition Port :: "URL \<Rightarrow> string" where
  "Port u = snd (splitHostPort (Host u))"

definition IsAbs :: "URL \<Rightarrow> bool" where
  "IsAbs u = (Scheme u \<noteq> [])"

definition UnmarshalBinary :: "string \<Rightarrow> URL \<Rightarrow> (parse_error \<times> URL) + URL" where
  "UnmarshalBinary t u = (case Parse t of Inl e \<Rightarrow> Inl (e, u) | Inr u1 \<Rightarrow> Inr u1)"

section \<open>Resolving references\<close>

text \<open>The loop of resolvePath; the string built so far always starts with a slash.\<close>

definition resolve_step :: "string \<Rightarrow> string \<Rightarrow> bool \<Rightarrow> string \<times> bool" where
  "resolve_step elem dst first =
     (if elem = ''.'' then (dst, False)
      else if elem = ''..'' then
        (let str = tl dst
         in case last_index_byte (CHR ''/'') str of
              None \<Rightarrow> (''/'', True)
            | Some index \<Rightarrow> (''/'' @ take index str, first))
      else ((if \<not> first then dst @ ''/'' else dst) @ elem, False))"

function resolve_loop :: "string \<Rightarrow> string \<Rightarrow> bool \<Rightarrow> string \<times> string" where
  "resolve_loop remaining dst first =
     (case cut_byte (CHR ''/'') remaining of
        (elem, remaining', found) \<Rightarrow>
          (case resolve_step elem dst first of
             (dst', first') \<Rightarrow>
               if found then resolve_loop remaining' dst' first' else (dst', elem)))"
  by pat_completeness auto
termination
  by (relation "measure (\<lambda>(r, d, f). length r)") (auto simp: cut_byte_eq dest!: sym[of "(_, _, True)"])

declare resolve_loop.simps [simp del]

definition resolvePath :: "string \<Rightarrow> string \<Rightarrow> string" where
  "resolvePath base ref =
     (let full = (if ref = [] then base
                  else if hd ref \<noteq> CHR ''/'' then
                    take (case last_index_byte (CHR ''/'') base of None \<Rightarrow> 0 | Some i \<Rightarrow> Suc i) base @ ref
                  else ref)
      in if full = [] then []
         else (let (dst, elem) = resolve_loop full ''/'' True;
                   r = (if elem = ''.'' \<or> elem = ''..'' then dst @ ''/'' else dst)
               in if 1 < length r \<and> r ! 1 = CHR ''/'' then tl r else r))"

text \<open>A setPath whose error the caller drops leaves the URL as it was.\<close>

definition setPath_drop :: "string \<Rightarrow> URL \<Rightarrow> URL" where
  "setPath_drop p u = (case setPath p u of Inl _ \<Rightarrow> u | Inr u' \<Rightarrow> u')"

definition ResolveReference :: "URL \<Rightarrow> URL \<Rightarrow> URL" where
  "ResolveReference u ref =
     (let url = (if Scheme ref = [] then ref\<lparr>Scheme := Scheme u\<rparr> else ref)
      in if Scheme ref \<noteq> [] \<or> Host ref \<noteq> [] \<or> User ref \<noteq> None then
           setPath_drop (resolvePath (EscapedPath ref) []) url
         else if Opaque ref \<noteq> [] then url\<lparr>User := None, Host := [], Path := []\<rparr>
         else (let url = (if Path ref = [] \<and> \<not> ForceQuery ref \<and> RawQuery ref = [] then
                            (let url = url\<lparr>RawQuery := RawQuery u\<rparr>
                             in if Fragment ref = [] then
                                  url\<lparr>Fragment := Fragment u, RawFragment := RawFragment u\<rparr>
                                else url)
                          else url)
               in setPath_drop (resolvePath (EscapedPath u) (EscapedPath ref))
                    (url\<lparr>Host := Host u, User := User u\<rparr>)))"

definition URL_Parse :: "URL \<Rightarrow> string \<Rightarrow> parse_error + URL" where
  "URL_Parse u ref = and_then (Parse ref) (\<lambda>refURL. Inr (ResolveReference u refURL))"

definition URL_JoinPath :: "URL \<Rightarrow> string list \<Rightarrow> URL" where
  "URL_JoinPath u elems =
     (let elem = EscapedPath u # elems;
          p = (if \<not> has_prefix (hd elem) ''/'' then drop 1 (path_Join ((''/'' @ hd elem) # tl elem))
               else path_Join elem);
          last_elem = (if elems = [] \<and> \<not> has_prefix (hd elem) ''/'' then ''/'' @ hd elem else last elem);
          p' = (if has_suffix last_elem ''/'' \<and> \<not> has_suffix p ''/'' then p @ ''/'' else p)
      in setPath_drop p' u)"

definition JoinPath :: "string \<Rightarrow> string list \<Rightarrow> parse_error + string" where
  "JoinPath base elems = and_then (Parse base) (\<lambda>url. Inr (URL_String (URL_JoinPath url elems)))"

end
