(* ===== verification/Host_Port.thy ===== *)
theory Host_Port
  imports Go_Prelude
begin

text \<open>
  Splitting and joining host and port (src/ipsock.go).  The exact set of texts that SplitHostPort
  accepts is given, and what it makes of them.
\<close>

record addr_error =
  ae_Err :: string
  ae_Addr :: string

definition addrErr :: "string \<Rightarrow> string \<Rightarrow> addr_error + 'a" where
  "addrErr addr why = Inl \<lparr>ae_Err = why, ae_Addr = addr\<rparr>"

definition missingPort :: string where "missingPort = ''missing port in address''"

definition tooManyColons :: string where "tooManyColons = ''too many colons in address''"

text \<open>
  The checks after the host is found: \<open>j\<close> and \<open>k\<close> are where brackets must not occur from, and
  \<open>i\<close> is the last colon.
\<close>

definition split_tail :: "string \<Rightarrow> string \<Rightarrow> nat \<Rightarrow> nat \<Rightarrow> nat \<Rightarrow> addr_error + string \<times> string" where
  "split_tail hostport host j k i =
     (if contains_byte (CHR ''['') (drop j hostport) then
        addrErr hostport (''unexpected '' @ [CHR 0x27] @ ''['' @ [CHR 0x27] @ '' in address'')
      else if contains_byte (CHR '']'') (drop k hostport) then
        addrErr hostport (''unexpected '' @ [CHR 0x27] @ '']'' @ [CHR 0x27] @ '' in address'')
      else Inr (host, drop (Suc i) hostport))"

definition SplitHostPort :: "string \<Rightarrow> addr_error + string \<times> string" where
  "SplitHostPort hostport =
     (case last_index_byte (CHR '':'') hostport of
        None \<Rightarrow> addrErr hostport missingPort
      | Some i \<Rightarrow>
          if hd hostport = CHR ''['' then
            (case index_byte (CHR '']'') hostport of
               None \<Rightarrow> addrErr hostport (''missing '' @ [CHR 0x27] @ '']'' @ [CHR 0x27] @ '' in address'')
             | Some end_ \<Rightarrow>
                 if Suc end_ = length hostport then addrErr hostport missingPort
                 else if Suc end_ = i then
                   split_tail hostport (drop 1 (take end_ hostport)) 1 (Suc end_) i
                 else if hostport ! Suc end_ = CHR '':'' then addrErr hostport tooManyColons
                 else addrErr hostport missingPort)
          else
            (let host = take i hostport
             in if contains_byte (CHR '':'') host then addrErr hostport tooManyColons
                else split_tail hostport host 0 0 i))"

definition JoinHostPort :: "string \<Rightarrow> string \<Rightarrow> string" where
  "JoinHostPort host port =
     (if contains_byte (CHR '':'') host then ''['' @ host @ '']:'' @ port else host @ '':'' @ port)"

definition no_bracket :: "string \<Rightarrow> bool" where
  "no_bracket s = (CHR ''['' \<notin> set s \<and> CHR '']'' \<notin> set s)"

lemma last_colon_split:
  "last_index_byte c s = Some i \<longleftrightarrow> (\<exists>a b. s = a @ c # b \<and> length a = i \<and> c \<notin> set b)"
proof
  assume "last_index_byte c s = Some i"
  then have i: "i < length s" "s ! i = c" "c \<notin> set (drop (Suc i) s)"
    by (simp_all add: last_index_byte_Some)
  have "s = take i s @ c # drop (Suc i) s" using i id_take_nth_drop[of i s] by simp
  then show "\<exists>a b. s = a @ c # b \<and> length a = i \<and> c \<notin> set b"
    using i by (intro exI[of _ "take i s"] exI[of _ "drop (Suc i) s"]) simp
next
  assume "\<exists>a b. s = a @ c # b \<and> length a = i \<and> c \<notin> set b"
  then show "last_index_byte c s = Some i" by (auto simp: last_index_byte_Some nth_append)
qed

lemma first_index_split:
  "index_byte c s = Some i \<longleftrightarrow> (\<exists>a b. s = a @ c # b \<and> length a = i \<and> c \<notin> set a)"
proof
  assume "index_byte c s = Some i"
  then have i: "i < length s" "s ! i = c" "c \<notin> set (take i s)"
    by (simp_all add: index_byte_Some)
  have "s = take i s @ c # drop (Suc i) s" using i id_take_nth_drop[of i s] by simp
  then show "\<exists>a b. s = a @ c # b \<and> length a = i \<and> c \<notin> set a"
    using i by (intro exI[of _ "take i s"] exI[of _ "drop (Suc i) s"]) simp
next
  assume "\<exists>a b. s = a @ c # b \<and> length a = i \<and> c \<notin> set a"
  then show "index_byte c s = Some i" by (auto simp: index_byte_Some nth_append)
qed

definition host_port_text :: "string \<Rightarrow> string \<Rightarrow> string \<Rightarrow> bool" where
  "host_port_text s host port =
     (no_bracket host \<and> no_bracket port \<and> CHR '':'' \<notin> set port \<and>
      (s = ''['' @ host @ '']:'' @ port \<or> CHR '':'' \<notin> set host \<and> s = host @ '':'' @ port))"

lemma split_tail_Inr:
  "split_tail s h j k i = Inr (host, port) \<longleftrightarrow>
     CHR ''['' \<notin> set (drop j s) \<and> CHR '']'' \<notin> set (drop k s) \<and> host = h \<and> port = drop (Suc i) s"
  by (auto simp: split_tail_def addrErr_def contains_byte_def)

lemma SplitHostPort_sound:
  assumes "SplitHostPort s = Inr (host, port)"
  shows "host_port_text s host port"
proof -
  obtain a b where s: "s = a @ CHR '':'' # b" "CHR '':'' \<notin> set b" "last_index_byte (CHR '':'') s = Some (length a)"
  proof -
    have "last_index_byte (CHR '':'') s \<noteq> None"
      using assms by (auto simp: SplitHostPort_def addrErr_def split: option.splits)
    then obtain i where i: "last_index_byte (CHR '':'') s = Some i" by blast
    then show thesis using last_colon_split[of "CHR '':''" s i] that by blast
  qed
  show ?thesis
  proof (cases "hd s = CHR ''[''")
    case True
    then obtain e where e: "index_byte (CHR '']'') s = Some e" "Suc e = length a"
      "split_tail s (drop 1 (take e s)) 1 (Suc e) (length a) = Inr (host, port)"
      using assms s by (auto simp: SplitHostPort_def addrErr_def split: option.splits if_splits)
    obtain x y where xy: "s = x @ CHR '']'' # y" "length x = e" "CHR '']'' \<notin> set x"
      using e(1) first_index_split by blast
    have "a = take (Suc e) s" using e(2) s(1) by simp
    then have a: "a = x @ '']''" using xy by simp
    then obtain h where h: "x = CHR ''['' # h" using True s(1) by (cases x) auto
    have "host = h" "port = b" "CHR ''['' \<notin> set (drop 1 s)" "CHR '']'' \<notin> set (drop (Suc e) s)"
      using e(3) unfolding split_tail_Inr using s(1) a h xy(2) by auto
    then show ?thesis
      using s a h xy(2,3) by (auto simp: host_port_text_def no_bracket_def)
  next
    case False
    then show ?thesis
      using assms s
      by (auto simp: SplitHostPort_def addrErr_def split_tail_Inr contains_byte_def Let_def
          host_port_text_def no_bracket_def split: if_splits)
  qed
qed

lemma SplitHostPort_complete:
  assumes "host_port_text s host port"
  shows "SplitHostPort s = Inr (host, port)"
proof -
  have free: "no_bracket host" "no_bracket port" "CHR '':'' \<notin> set port"
    using assms by (simp_all add: host_port_text_def)
  consider (bracket) "s = ''['' @ host @ '']:'' @ port" | (plain) "CHR '':'' \<notin> set host" "s = host @ '':'' @ port"
    using assms by (auto simp: host_port_text_def)
  then show ?thesis
  proof cases
    case bracket
    have "last_index_byte (CHR '':'') s = Some (length host + 2)"
      unfolding last_colon_split using bracket free
      by (intro exI[of _ "''['' @ host @ '']''"] exI[of _ port]) simp
    moreover have "index_byte (CHR '']'') s = Some (length host + 1)"
      unfolding first_index_split using bracket free
      by (intro exI[of _ "''['' @ host"] exI[of _ "'':'' @ port"]) (simp add: no_bracket_def)
    ultimately show ?thesis
      using bracket free by (simp add: SplitHostPort_def split_tail_Inr no_bracket_def)
  next
    case plain
    have "last_index_byte (CHR '':'') s = Some (length host)"
      unfolding last_colon_split using plain free by auto
    moreover have "hd s \<noteq> CHR ''[''" using plain free by (cases host) (auto simp: no_bracket_def)
    ultimately show ?thesis
      using plain free by (simp add: SplitHostPort_def split_tail_Inr no_bracket_def contains_byte_def Let_def)
  qed
qed

lemma SplitHostPort_iff: "SplitHostPort s = Inr (host, port) \<longleftrightarrow> host_port_text s host port"
  using SplitHostPort_sound SplitHostPort_complete by blast

lemma SplitHostPort_Join:
  "no_bracket host \<Longrightarrow> no_bracket port \<Longrightarrow> CHR '':'' \<notin> set port \<Longrightarrow>
     SplitHostPort (JoinHostPort host port) = Inr (host, port)"
  by (auto simp: SplitHostPort_iff host_port_text_def JoinHostPort_def contains_byte_def)

section \<open>Properties\<close>

text \<open>C24: SplitHostPort accepts exactly the texts that are a host and a port around a colon, with the host in
  brackets when it holds a colon and no other bracket anywhere, and gives this host and port.\<close>

theorem SplitHostPort_exact: "SplitHostPort s = Inr (host, port) \<longleftrightarrow> host_port_text s host port"
  by (rule SplitHostPort_iff)

text \<open>A host and a port without brackets, the port without a colon, are found again in the text that
  JoinHostPort makes of them.\<close>

theorem SplitHostPort_JoinHostPort:
  assumes "no_bracket host" and "no_bracket port" and "CHR '':'' \<notin> set port"
  shows "SplitHostPort (JoinHostPort host port) = Inr (host, port)"
  by (rule SplitHostPort_Join[OF assms])

lemma SplitHostPort_JoinHostPort_witness: "SplitHostPort ''[::1]:80'' = Inr (''::1'', ''80'')"
proof -
  have "JoinHostPort ''::1'' ''80'' = ''[::1]:80''" by code_simp
  then show ?thesis using SplitHostPort_JoinHostPort[of "''::1''" "''80''"] by (simp add: no_bracket_def)
qed

end
