(* ===== verification/Serve_Mux.thy ===== *)
theory Serve_Mux
  imports Routing_Match Url Host_Port
begin

text \<open>
  The request multiplexer (src/http/server.go and src/http/routing_index.go): registration of
  patterns, the search for the handler of a request with its redirects, and the list of methods of a
  405 answer.  A handler is a value of a type parameter; the handlers that the multiplexer builds
  itself are the other constructors of \<open>served\<close>.  The lock is not modelled: each operation holds it
  while it reads or changes the tree.
\<close>

section \<open>The routing index\<close>

record routingIndex =
  segments_idx :: "(nat \<times> string, pattern list) gomap"
  multis :: "pattern list"

definition index_append ::
  "nat \<times> string \<Rightarrow> pattern \<Rightarrow> (nat \<times> string, pattern list) gomap \<Rightarrow> (nat \<times> string, pattern list) gomap" where
  "index_append key pat m =
     AList.update key ((case map_of m key of None \<Rightarrow> [] | Some ps \<Rightarrow> ps) @ [pat]) m"

fun index_segments ::
  "pattern \<Rightarrow> nat \<Rightarrow> segment list \<Rightarrow> (nat \<times> string, pattern list) gomap \<Rightarrow> (nat \<times> string, pattern list) gomap" where
  "index_segments pat pos [] m = m"
| "index_segments pat pos (seg # segs) m =
     index_segments pat (Suc pos) segs
       (index_append (pos, if wild seg then [] else seg_s seg) pat m)"

definition index_addPattern :: "pattern \<Rightarrow> routingIndex \<Rightarrow> routingIndex go" where
  "index_addPattern pat idx =
     go_bind (lastSegment pat) (\<lambda>ls.
       if multi ls then Ret (idx\<lparr>multis := multis idx @ [pat]\<rparr>)
       else Ret (idx\<lparr>segments_idx := index_segments pat 0 (p_segments pat) (segments_idx idx)\<rparr>))"

section \<open>Registration\<close>

record 'h ServeMux =
  tree :: "'h routingNode"
  index :: routingIndex
  patterns :: "pattern list"

definition empty_mux :: "'h ServeMux" where
  "empty_mux = \<lparr>tree = new_node, index = \<lparr>segments_idx = [], multis = []\<rparr>, patterns = []\<rparr>"

datatype 'h handler_arg = NilHandler | NilHandlerFunc | HandlerValue 'h

datatype register_error = InvalidPattern | NilHandlerError | Parsing string pattern_error

text \<open>
  The text of the caller's location, from the runtime, is the argument \<open>loc\<close>.
\<close>

definition registerErr ::
  "unicode \<Rightarrow> string \<Rightarrow> string \<Rightarrow> 'h handler_arg \<Rightarrow> 'h ServeMux \<Rightarrow> (register_error + 'h ServeMux) go" where
  "registerErr U loc patstr handler mux =
     (if patstr = [] then Ret (Inl InvalidPattern)
      else case handler of
        NilHandler \<Rightarrow> Ret (Inl NilHandlerError)
      | NilHandlerFunc \<Rightarrow> Ret (Inl NilHandlerError)
      | HandlerValue h \<Rightarrow>
          (case parsePattern U patstr of
             Inl err \<Rightarrow> Ret (Inl (Parsing patstr err))
           | Inr pat0 \<Rightarrow>
               (let pat = pat0\<lparr>p_loc := loc\<rparr>
                in go_bind (addPattern pat h (tree mux)) (\<lambda>t.
                   go_bind (index_addPattern pat (index mux)) (\<lambda>i.
                     Ret (Inr (mux\<lparr>tree := t, index := i, patterns := patterns mux @ [pat]\<rparr>)))))))"

definition register ::
  "unicode \<Rightarrow> string \<Rightarrow> string \<Rightarrow> 'h handler_arg \<Rightarrow> 'h ServeMux \<Rightarrow> 'h ServeMux go" where
  "register U loc patstr handler mux =
     go_bind (registerErr U loc patstr handler mux) (\<lambda>r.
       case r of Inl err \<Rightarrow> Panic ''register'' | Inr mux' \<Rightarrow> Ret mux')"

section \<open>Finding a handler\<close>

text \<open>The fields of a request that the multiplexer reads.\<close>

record mux_request =
  rq_Method :: string
  rq_Host :: string
  rq_URL :: URL

datatype 'h served =
  UserHandler 'h
| RedirectHandler string nat
| MethodNotAllowed "string list"
| NotFoundHandler
| NoHandler

definition StatusMovedPermanently :: nat where "StatusMovedPermanently = 301"

definition stripHostPort :: "string \<Rightarrow> string" where
  "stripHostPort h =
     (if \<not> contains_byte (CHR '':'') h then h
      else case SplitHostPort h of Inl _ \<Rightarrow> h | Inr (host, _) \<Rightarrow> host)"

definition node_pattern :: "'h routingNode \<Rightarrow> pattern go" where
  "node_pattern n =
     (case nd_pattern n of None \<Rightarrow> Panic ''nil pointer dereference'' | Some p \<Rightarrow> Ret p)"

definition exactMatch :: "'h routingNode option \<Rightarrow> string \<Rightarrow> bool go" where
  "exactMatch n path =
     (case n of
        None \<Rightarrow> Ret False
      | Some n \<Rightarrow>
          go_bind (node_pattern n) (\<lambda>p.
          go_bind (lastSegment p) (\<lambda>ls.
            if \<not> multi ls then Ret True
            else if 0 < length path \<and> last path \<noteq> CHR ''/'' then Ret False
            else Ret (length (p_segments p) = count_byte (CHR ''/'') path))))"

text \<open>The node and the matches of a search, nil where it found none.\<close>

definition found_node :: "('h routingNode \<times> string list) option \<Rightarrow> 'h routingNode option \<times> string list" where
  "found_node r = (case r of None \<Rightarrow> (None, []) | Some (n, ms) \<Rightarrow> (Some n, ms))"

definition matchOrRedirect ::
  "'h ServeMux \<Rightarrow> string \<Rightarrow> string \<Rightarrow> string \<Rightarrow> URL option \<Rightarrow>
     ('h routingNode option \<times> string list \<times> URL option) go" where
  "matchOrRedirect mux host method path u =
     go_bind (match_tree (tree mux) host method path) (\<lambda>r.
     let (n, matches) = found_node r in
     go_bind (exactMatch n path) (\<lambda>exact.
       case u of
         None \<Rightarrow> Ret (n, matches, None)
       | Some url \<Rightarrow>
           if exact then Ret (n, matches, None)
           else
             go_bind (match_tree (tree mux) host method (path @ ''/'')) (\<lambda>r2.
             go_bind (exactMatch (fst (found_node r2)) (path @ ''/'')) (\<lambda>exact2.
               if exact2 then
                 Ret (None, [], Some (new_URL\<lparr>Path := cleanPath (Path url) @ ''/'', RawQuery := RawQuery url\<rparr>))
               else Ret (n, matches, None)))))"

definition matchingMethods :: "'h ServeMux \<Rightarrow> string \<Rightarrow> string \<Rightarrow> string list go" where
  "matchingMethods mux host path =
     go_bind (tree_matchingMethods (tree mux) host path []) (\<lambda>ms1.
     go_bind (tree_matchingMethods (tree mux) host (path @ ''/'') ms1) (\<lambda>ms2.
       Ret (sort ms2)))"

type_synonym 'h find_result = "('h served \<times> string \<times> pattern option \<times> string list) go"

definition use_node :: "'h routingNode option \<Rightarrow> string list \<Rightarrow> 'h find_result" where
  "use_node n matches =
     (case n of
        None \<Rightarrow> Panic ''nil pointer dereference''
      | Some n \<Rightarrow>
          go_bind (node_pattern n) (\<lambda>p.
            Ret (case nd_handler n of None \<Rightarrow> NoHandler | Some h \<Rightarrow> UserHandler h,
                 p_str p, nd_pattern n, matches)))"

definition redirect_to :: "URL \<Rightarrow> string \<Rightarrow> 'h find_result" where
  "redirect_to u patStr =
     Ret (RedirectHandler (URL_String u) StatusMovedPermanently, patStr, None, [])"

definition findHandler_connect :: "'h ServeMux \<Rightarrow> mux_request \<Rightarrow> 'h find_result" where
  "findHandler_connect mux r =
     (let path = EscapedPath (rq_URL r)
      in go_bind (matchOrRedirect mux (Host (rq_URL r)) (rq_Method r) path (Some (rq_URL r))) (\<lambda>(_, _, u).
           case u of
             Some u \<Rightarrow> redirect_to u (Path u)
           | None \<Rightarrow>
               go_bind (matchOrRedirect mux (rq_Host r) (rq_Method r) path None) (\<lambda>(n, matches, _).
                 use_node n matches)))"

definition findHandler_clean :: "'h ServeMux \<Rightarrow> mux_request \<Rightarrow> 'h find_result" where
  "findHandler_clean mux r =
     (let escapedPath = EscapedPath (rq_URL r);
          host = stripHostPort (rq_Host r);
          path = cleanPath escapedPath
      in go_bind (matchOrRedirect mux host (rq_Method r) path (Some (rq_URL r))) (\<lambda>(n, matches, u).
           case u of
             Some u \<Rightarrow> redirect_to u (Path u)
           | None \<Rightarrow>
               if path \<noteq> escapedPath then
                 go_bind (case n of None \<Rightarrow> Ret [] | Some n \<Rightarrow> go_bind (node_pattern n) (\<lambda>p. Ret (p_str p)))
                   (\<lambda>patStr. redirect_to (new_URL\<lparr>Path := path, RawQuery := RawQuery (rq_URL r)\<rparr>) patStr)
               else if n = None then
                 go_bind (matchingMethods mux host path) (\<lambda>allowedMethods.
                   if 0 < length allowedMethods then Ret (MethodNotAllowed allowedMethods, [], None, [])
                   else Ret (NotFoundHandler, [], None, []))
               else use_node n matches))"

definition findHandler :: "'h ServeMux \<Rightarrow> mux_request \<Rightarrow> 'h find_result" where
  "findHandler mux r =
     (if rq_Method r = ''CONNECT'' then findHandler_connect mux r else findHandler_clean mux r)"

definition Handler :: "'h ServeMux \<Rightarrow> mux_request \<Rightarrow> ('h served \<times> string) go" where
  "Handler mux r = go_bind (findHandler mux r) (\<lambda>(h, p, _, _). Ret (h, p))"

end
