(* ===== verification/Mux_Correct.thy ===== *)
theory Mux_Correct
  imports Serve_Mux
begin

text \<open>
  Correctness of the multiplexer: an invariant that every registration keeps, the order in which the
  tree is searched, and what findHandler answers in terms of the registered patterns.
\<close>

section \<open>The invariant and registration\<close>

definition leaf_ok :: "string list \<Rightarrow> pattern \<times> 'h \<Rightarrow> bool" where
  "leaf_ok ks e = (ks = pattern_keys (fst e) \<and> wf_pattern (fst e))"

text \<open>
  What holds after any registrations: the tree is well formed, each leaf is a well-formed pattern under
  its own keys, and the leaves are exactly the patterns listed, no two of them with the same keys.
\<close>

definition mux_base :: "'h ServeMux \<Rightarrow> bool" where
  "mux_base mux = (tree_ok (tree mux) \<and>
     (\<forall>ks e. leaf_at (tree mux) ks = Some e \<longrightarrow> leaf_ok ks e \<and> fst e \<in> set (patterns mux)) \<and>
     (\<forall>p\<in>set (patterns mux). \<exists>h. leaf_at (tree mux) (pattern_keys p) = Some (p, h)) \<and>
     distinct (map pattern_keys (patterns mux)))"

definition mux_starless :: "'h ServeMux \<Rightarrow> bool" where
  "mux_starless mux = list_all (\<lambda>p. starless (p_segments p)) (patterns mux)"

text \<open>What the searches rely on.  A registered pattern with a literal star can break the second part.\<close>

definition mux_ok :: "'h ServeMux \<Rightarrow> bool" where
  "mux_ok mux = (tree_ok (tree mux) \<and> all_stars_ok (tree mux) \<and>
     (\<forall>ks e. leaf_at (tree mux) ks = Some e \<longrightarrow> leaf_ok ks e))"

lemma mux_base_ok: "mux_base mux \<Longrightarrow> all_stars_ok (tree mux) \<Longrightarrow> mux_ok mux"
  by (simp add: mux_base_def mux_ok_def)

lemma mux_base_empty: "mux_base empty_mux"
  by (simp add: mux_base_def empty_mux_def tree_ok_new)

lemma wf_segments_ne: "wf_pattern p \<Longrightarrow> p_segments p \<noteq> []"
  by (simp add: wf_pattern_def wf_segments_def)

lemma index_addPattern_Ret: "p_segments p \<noteq> [] \<Longrightarrow> \<exists>i. index_addPattern p idx = Ret i"
  by (simp add: index_addPattern_def lastSegment_def)

lemma loc_simps [simp]:
  "pattern_keys (p\<lparr>p_loc := l\<rparr>) = pattern_keys p" "wf_pattern (p\<lparr>p_loc := l\<rparr>) = wf_pattern p"
  by (simp_all add: pattern_keys_def wf_pattern_def)

lemma registerErr_free:
  assumes ok: "mux_base mux" and p: "patstr \<noteq> []" "parsePattern U patstr = Inr p"
    and free: "leaf_at (tree mux) (pattern_keys p) = None"
  obtains mux' where "registerErr U loc patstr (HandlerValue h) mux = Ret (Inr mux')"
    and "addPattern (p\<lparr>p_loc := loc\<rparr>) h (tree mux) = Ret (tree mux')" and "tree_ok (tree mux')"
    and "leaf_at (tree mux') = (leaf_at (tree mux))(pattern_keys p \<mapsto> (p\<lparr>p_loc := loc\<rparr>, h))"
    and "patterns mux' = patterns mux @ [p\<lparr>p_loc := loc\<rparr>]"
proof -
  let ?p = "p\<lparr>p_loc := loc\<rparr>"
  have wf: "wf_pattern ?p" using parsePattern_wf[OF p(2)] by simp
  have t: "tree_ok (tree mux)" using ok unfolding mux_base_def by blast
  obtain t' where t': "addPattern ?p h (tree mux) = Ret t'" "tree_ok t'"
    "leaf_at t' = (leaf_at (tree mux))(pattern_keys ?p \<mapsto> (?p, h))"
    using rt.add_free[OF t wf, of h] free by auto
  obtain i where i: "index_addPattern ?p (index mux) = Ret i"
    using index_addPattern_Ret[OF wf_segments_ne[OF wf]] by blast
  define mux' where "mux' = mux\<lparr>tree := t', index := i, patterns := patterns mux @ [?p]\<rparr>"
  have "registerErr U loc patstr (HandlerValue h) mux = Ret (Inr mux')"
    using p t'(1) i by (simp add: registerErr_def mux'_def Let_def)
  moreover have "tree mux' = t'" "patterns mux' = patterns mux @ [?p]" by (simp_all add: mux'_def)
  ultimately show thesis using that[of mux'] t' by simp
qed

lemma registerErr_taken:
  assumes ok: "mux_base mux" and p: "patstr \<noteq> []" "parsePattern U patstr = Inr p"
    and taken: "leaf_at (tree mux) (pattern_keys p) \<noteq> None"
  shows "panics (registerErr U loc patstr (HandlerValue h) mux)"
proof -
  let ?p = "p\<lparr>p_loc := loc\<rparr>"
  have "panics (addPattern ?p h (tree mux))"
    using rt.add_taken[of "tree mux" ?p h] parsePattern_wf[OF p(2)] ok taken by (simp add: mux_base_def)
  then show ?thesis
    using p by (cases "addPattern ?p h (tree mux)") (auto simp: registerErr_def Let_def)
qed

lemma mux_base_register:
  assumes base: "mux_base mux" and wf: "wf_pattern p" and free: "leaf_at (tree mux) (pattern_keys p) = None"
    and t: "tree_ok (tree mux')" "leaf_at (tree mux') = (leaf_at (tree mux))(pattern_keys p \<mapsto> (p, h))"
    and ps: "patterns mux' = patterns mux @ [p]"
  shows "mux_base mux'"
proof -
  have old: "\<And>ks e. leaf_at (tree mux) ks = Some e \<Longrightarrow> leaf_ok ks e \<and> fst e \<in> set (patterns mux)"
    "\<And>q. q \<in> set (patterns mux) \<Longrightarrow> \<exists>h. leaf_at (tree mux) (pattern_keys q) = Some (q, h)"
    "distinct (map pattern_keys (patterns mux))"
    using base unfolding mux_base_def by blast+
  have new: "pattern_keys q \<noteq> pattern_keys p" if "q \<in> set (patterns mux)" for q
    using old(2)[OF that] free by auto
  have "leaf_ok ks e \<and> fst e \<in> set (patterns mux')" if "leaf_at (tree mux') ks = Some e" for ks e
    using that old(1) wf unfolding t(2) ps by (auto simp: leaf_ok_def split: if_splits)
  moreover have "\<exists>h. leaf_at (tree mux') (pattern_keys q) = Some (q, h)" if "q \<in> set (patterns mux')" for q
    using that old(2) new unfolding t(2) ps by auto
  moreover have "pattern_keys p \<notin> pattern_keys ` set (patterns mux)" using new by (metis imageE)
  then have "distinct (map pattern_keys (patterns mux'))" using old(3) unfolding ps by simp
  ultimately show ?thesis using t(1) by (simp add: mux_base_def)
qed

text \<open>The multiplexers that registrations reach.\<close>

inductive registered :: "unicode \<Rightarrow> 'h ServeMux \<Rightarrow> bool" for U where
  start: "registered U empty_mux"
| again: "registered U mux \<Longrightarrow> registerErr U loc patstr (HandlerValue h) mux = Ret (Inr mux') \<Longrightarrow> registered U mux'"

lemma registered_base:
  "registered U mux \<Longrightarrow> mux_base mux \<and> (mux_starless mux \<longrightarrow> all_stars_ok (tree mux))"
proof (induction rule: registered.induct)
  case start
  show ?case using mux_base_empty by (simp add: empty_mux_def all_stars_ok_new)
next
  case (again mux loc patstr h mux')
  then obtain p where p: "patstr \<noteq> []" "parsePattern U patstr = Inr p"
    by (auto simp: registerErr_def split: if_splits sum.splits)
  have base: "mux_base mux" using again.IH by blast
  let ?p = "p\<lparr>p_loc := loc\<rparr>"
  have wf: "wf_pattern ?p" using parsePattern_wf[OF p(2)] by simp
  have free: "leaf_at (tree mux) (pattern_keys p) = None"
    using registerErr_taken[OF base p, of loc h] again.hyps(2) by (metis panics.simps(2))
  obtain m where m: "registerErr U loc patstr (HandlerValue h) mux = Ret (Inr m)"
    "addPattern ?p h (tree mux) = Ret (tree m)" "tree_ok (tree m)"
    "leaf_at (tree m) = (leaf_at (tree mux))(pattern_keys p \<mapsto> (?p, h))"
    "patterns m = patterns mux @ [?p]"
    using registerErr_free[OF base p free] by metis
  have eq: "m = mux'" using m(1) again.hyps(2) by simp
  have "mux_base m" using mux_base_register[OF base wf _ m(3), of h] free m(4,5) by simp
  moreover have "all_stars_ok (tree m)" if "mux_starless m"
    using that addPattern_stars[OF m(2)] again.IH base wf_segments_ne[OF wf]
    by (simp add: mux_starless_def m(5) mux_base_def)
  ultimately show ?case unfolding eq by blast
qed

lemma registered_mux_ok: "registered U mux \<Longrightarrow> mux_starless mux \<Longrightarrow> mux_ok mux"
  using registered_base mux_base_ok by blast

section \<open>The order of the search\<close>

definition method_attempts :: "string \<Rightarrow> string list" where
  "method_attempts method = method # (if method = ''HEAD'' then [''GET''] else []) @ [[]]"

definition attempts :: "string \<Rightarrow> string \<Rightarrow> (string \<times> string) list" where
  "attempts host method =
     (if host \<noteq> [] then map (Pair host) (method_attempts method) else []) @
     map (Pair []) (method_attempts method)"

fun first_found :: "'h routingNode \<Rightarrow> string \<Rightarrow> (string \<times> string) list \<Rightarrow> 'h found" where
  "first_found root path [] = Ret None"
| "first_found root path ((h, m) # as) =
     or_else (matchPath (node_at root [h, m]) path []) (first_found root path as)"

lemma or_else_assoc: "or_else (or_else x y) z = or_else x (or_else y z)"
  by (cases "(x, y)" rule: or_else.cases) auto

lemma or_else_None [simp]: "or_else x (Ret None) = x"
  by (cases "(x, x)" rule: or_else.cases) auto

lemma first_found_append: "first_found root path (as @ bs) = or_else (first_found root path as) (first_found root path bs)"
proof (induction as)
  case (Cons a as)
  then show ?case by (cases a) (simp add: or_else_assoc del: node_at.simps)
qed simp

lemma matchMethodAndPath_attempts:
  "matchMethodAndPath (findChild root host) method path = first_found root path (map (Pair host) (method_attempts method))"
  by (cases "findChild root host")
    (auto simp: matchMethodAndPath_def method_attempts_def findChild_def[of _ "[]"] split: option.split)

lemma match_tree_attempts: "match_tree root host method path = first_found root path (attempts host method)"
proof -
  have "nd_emptyChild root = findChild root []" by (simp add: findChild_def)
  then show ?thesis
    unfolding match_tree_def attempts_def first_found_append
    by (simp add: matchMethodAndPath_attempts del: map_append)
qed

text \<open>Some pattern registered for this host and this method matches the path.\<close>

definition matches_at :: "'h routingNode \<Rightarrow> string \<Rightarrow> string \<times> string \<Rightarrow> bool" where
  "matches_at root path a =
     (\<exists>ks. leaf_at root (fst a # snd a # ks) \<noteq> None \<and> keys_match ks path)"

definition found_at ::
  "'h routingNode \<Rightarrow> string \<Rightarrow> string \<times> string \<Rightarrow> 'h routingNode \<Rightarrow> string list \<Rightarrow> bool" where
  "found_at root path a n ms =
     (\<exists>b ks. node_at root [fst a, snd a] = Some b \<and> node_at b ks = Some n \<and> best_leaf b path ks \<and>
        ms = wild_values (ends_named n) ks path)"

lemma node_at_pair: "node_at root [h, m] = Option.bind (findChild root h) (\<lambda>c. findChild c m)"
  by (auto split: option.split)

lemma leaf_at_pair: "leaf_at root (h # m # ks) = Option.bind (node_at root [h, m]) (\<lambda>b. leaf_at b ks)"
  by (auto simp: node_at_pair leaf_at_simps split: Option.bind_splits)

lemma attempt_ok:
  assumes "tree_ok root" and "all_stars_ok root" and "node_at root [h, m] = Some b"
  shows "tree_ok b" and "stars_ok b"
proof -
  obtain c where "findChild root h = Some c" "findChild c m = Some b"
    using assms(3) unfolding node_at_pair by (auto simp: bind_eq_Some_conv)
  then show "tree_ok b" using assms(1) tree_ok_child by blast
  show "stars_ok b" using assms(2,3) unfolding all_stars_ok_def by blast
qed

lemma attempt_spec:
  assumes "tree_ok root" and "all_stars_ok root"
  shows "(matchPath (node_at root [h, m]) path [] = Ret None \<and> \<not> matches_at root path (h, m)) \<or>
    (\<exists>n ms. matchPath (node_at root [h, m]) path [] = Ret (Some (n, ms)) \<and> found_at root path (h, m) n ms)"
proof (cases "node_at root [h, m]")
  case None
  then show ?thesis by (simp add: matches_at_def leaf_at_pair del: node_at.simps)
next
  case (Some b)
  have spec: "match_spec b path [] (matchPath (Some b) path [])"
    using attempt_ok[OF assms Some] by (rule matchPath_match_spec)
  show ?thesis
  proof (cases "matchPath (Some b) path []")
    case (Panic e)
    then show ?thesis using spec by (simp add: match_spec_def)
  next
    case (Ret r)
    show ?thesis
    proof (cases r)
      case None
      then show ?thesis
        using spec Some Ret by (auto simp: match_spec_None matches_at_def leaf_at_pair simp del: node_at.simps)
    next
      case r: (Some f)
      obtain n ms where "f = (n, ms)" by (cases f)
      then show ?thesis
        using spec Some Ret r unfolding found_at_def fst_conv snd_conv by (auto simp: match_spec_Some)
    qed
  qed
qed

lemma found_at_matches: "found_at root path a n ms \<Longrightarrow> matches_at root path a"
  unfolding found_at_def matches_at_def leaf_at_pair best_leaf_def by force

definition search_spec ::
  "'h routingNode \<Rightarrow> string \<Rightarrow> (string \<times> string) list \<Rightarrow> 'h found \<Rightarrow> bool" where
  "search_spec root path as r =
     (case r of
        Panic _ \<Rightarrow> False
      | Ret None \<Rightarrow> (\<forall>a\<in>set as. \<not> matches_at root path a)
      | Ret (Some (n, ms)) \<Rightarrow>
          (\<exists>as1 a as2. as = as1 @ a # as2 \<and> (\<forall>b\<in>set as1. \<not> matches_at root path b) \<and>
             found_at root path a n ms))"

lemma first_found_spec:
  assumes "tree_ok root" and "all_stars_ok root"
  shows "search_spec root path as (first_found root path as)"
proof (induction as)
  case (Cons a as)
  obtain h m where a: "a = (h, m)" by (cases a)
  from attempt_spec[OF assms, of h m path] show ?case
  proof
    assume none: "matchPath (node_at root [h, m]) path [] = Ret None \<and> \<not> matches_at root path (h, m)"
    then have eq: "first_found root path (a # as) = first_found root path as"
      by (simp add: a del: node_at.simps)
    show ?thesis
    proof (cases "first_found root path as")
      case (Panic e)
      then show ?thesis using Cons by (simp add: search_spec_def)
    next
      case (Ret r)
      show ?thesis
      proof (cases r)
        case None
        then show ?thesis using Cons Ret none unfolding eq by (simp add: search_spec_def a)
      next
        case (Some f)
        obtain n ms where f: "f = (n, ms)" by (cases f)
        obtain as1 c as2 where "as = as1 @ c # as2" "\<forall>b\<in>set as1. \<not> matches_at root path b" "found_at root path c n ms"
          using Cons Ret Some f by (auto simp: search_spec_def)
        then have "a # as = (a # as1) @ c # as2 \<and> (\<forall>b\<in>set (a # as1). \<not> matches_at root path b) \<and>
            found_at root path c n ms" using none a by simp
        then show ?thesis unfolding eq search_spec_def Ret Some f go.case option.case prod.case by blast
      qed
    qed
  next
    assume "\<exists>n ms. matchPath (node_at root [h, m]) path [] = Ret (Some (n, ms)) \<and> found_at root path (h, m) n ms"
    then obtain n ms where "first_found root path (a # as) = Ret (Some (n, ms))" "found_at root path a n ms"
      by (auto simp: a simp del: node_at.simps)
    then show ?thesis
      unfolding search_spec_def
      by (simp del: first_found.simps) (metis append.left_neutral empty_iff empty_set prod.collapse)
  qed
qed (simp add: search_spec_def)

lemma match_tree_search:
  "tree_ok root \<Longrightarrow> all_stars_ok root \<Longrightarrow>
     search_spec root path (attempts host method) (match_tree root host method path)"
  unfolding match_tree_attempts by (rule first_found_spec)

section \<open>The search in terms of registered patterns\<close>

definition has_leaf :: "'h ServeMux \<Rightarrow> pattern \<Rightarrow> 'h \<Rightarrow> bool" where
  "has_leaf mux p h = (leaf_at (tree mux) (pattern_keys p) = Some (p, h))"

definition pattern_matches :: "pattern \<Rightarrow> string \<Rightarrow> bool" where
  "pattern_matches p path = keys_match (map seg_key (p_segments p)) path"

definition serves :: "'h ServeMux \<Rightarrow> string \<Rightarrow> string \<times> string \<Rightarrow> bool" where
  "serves mux path a =
     (\<exists>p h. has_leaf mux p h \<and> (p_host p, p_method p) = a \<and> pattern_matches p path)"

lemma serves_matches_at:
  assumes "mux_ok mux"
  shows "matches_at (tree mux) path a \<longleftrightarrow> serves mux path a"
proof
  assume "matches_at (tree mux) path a"
  then obtain ks e where e: "leaf_at (tree mux) (fst a # snd a # ks) = Some e" "keys_match ks path"
    by (auto simp: matches_at_def)
  then have "leaf_ok (fst a # snd a # ks) e" using assms unfolding mux_ok_def by blast
  then show "serves mux path a"
    using e unfolding serves_def has_leaf_def pattern_matches_def
    by (intro exI[of _ "fst e"] exI[of _ "snd e"]) (cases a, auto simp: leaf_ok_def pattern_keys_def)
next
  assume "serves mux path a"
  then obtain p h where "leaf_at (tree mux) (fst a # snd a # map seg_key (p_segments p)) = Some (p, h)"
    "keys_match (map seg_key (p_segments p)) path"
    by (auto simp: serves_def has_leaf_def pattern_keys_def pattern_matches_def)
  then show "matches_at (tree mux) path a" unfolding matches_at_def by blast
qed

lemma found_at_leaf:
  assumes "mux_ok mux" and "found_at (tree mux) path a n ms"
  obtains p h where "nd_pattern n = Some p" and "nd_handler n = Some h" and "has_leaf mux p h"
    and "wf_pattern p" and "(p_host p, p_method p) = a" and "pattern_matches p path"
proof -
  obtain b ks where b: "node_at (tree mux) [fst a, snd a] = Some b" "node_at b ks = Some n"
    "leaf_at b ks \<noteq> None" "keys_match ks path"
    using assms(2) by (auto simp: found_at_def best_leaf_def)
  then obtain p h where leaf: "leaf_of n = Some (p, h)" by (auto simp: leaf_at_def)
  then have n: "nd_pattern n = Some p" "nd_handler n = Some h"
    by (auto simp: leaf_of_def split: option.splits)
  have e: "leaf_at (tree mux) (fst a # snd a # ks) = Some (p, h)"
    using b leaf unfolding leaf_at_pair by (simp add: leaf_at_def del: node_at.simps)
  then have "leaf_ok (fst a # snd a # ks) (p, h)" using assms(1) unfolding mux_ok_def by blast
  then have "fst a # snd a # ks = pattern_keys p" "wf_pattern p" by (simp_all add: leaf_ok_def)
  then show thesis
    using that n e b(4) by (cases a) (auto simp: has_leaf_def pattern_keys_def pattern_matches_def)
qed

definition exact_pattern :: "pattern \<Rightarrow> string \<Rightarrow> bool" where
  "exact_pattern p path =
     (if \<not> multi (last (p_segments p)) then True
      else (path = [] \<or> last path = CHR ''/'') \<and> length (p_segments p) = count_byte (CHR ''/'') path)"

lemma exactMatch_leaf:
  "nd_pattern n = Some p \<Longrightarrow> wf_pattern p \<Longrightarrow> exactMatch (Some n) path = Ret (exact_pattern p path)"
  by (auto simp: exactMatch_def node_pattern_def lastSegment_def exact_pattern_def dest: wf_segments_ne)

text \<open>The result of one search, with the order of the attempts.\<close>

definition first_serving ::
  "'h ServeMux \<Rightarrow> string \<Rightarrow> string \<Rightarrow> string \<Rightarrow> pattern \<Rightarrow> bool" where
  "first_serving mux host method path p =
     (\<exists>as1 as2. attempts host method = as1 @ (p_host p, p_method p) # as2 \<and>
        (\<forall>b\<in>set as1. \<not> serves mux path b) \<and> pattern_matches p path)"

definition unserved :: "'h ServeMux \<Rightarrow> string \<Rightarrow> string \<Rightarrow> string \<Rightarrow> bool" where
  "unserved mux host method path = (\<forall>a\<in>set (attempts host method). \<not> serves mux path a)"

lemma match_tree_cases:
  assumes "mux_ok mux"
  obtains (none) "match_tree (tree mux) host method path = Ret None" "unserved mux host method path"
  | (found) n ms p h where "match_tree (tree mux) host method path = Ret (Some (n, ms))"
      "nd_pattern n = Some p" "nd_handler n = Some h" "has_leaf mux p h" "wf_pattern p"
      "first_serving mux host method path p" "\<exists>a. found_at (tree mux) path a n ms"
proof -
  have spec: "search_spec (tree mux) path (attempts host method) (match_tree (tree mux) host method path)"
    using match_tree_search assms unfolding mux_ok_def by blast
  show thesis
  proof (cases "match_tree (tree mux) host method path")
    case (Panic e)
    then show thesis using spec by (simp add: search_spec_def)
  next
    case (Ret r)
    show thesis
    proof (cases r)
      case None
      then show thesis
        using none Ret spec serves_matches_at[OF assms] by (simp add: search_spec_def unserved_def)
    next
      case (Some f)
      obtain n ms where f: "f = (n, ms)" by (cases f)
      obtain as1 a as2 where a: "attempts host method = as1 @ a # as2"
        "\<forall>b\<in>set as1. \<not> matches_at (tree mux) path b" "found_at (tree mux) path a n ms"
        using spec unfolding search_spec_def Ret Some f by auto
      obtain p h where p: "nd_pattern n = Some p" "nd_handler n = Some h" "has_leaf mux p h" "wf_pattern p"
        "(p_host p, p_method p) = a" "pattern_matches p path"
        using found_at_leaf[OF assms a(3)] by blast
      have "first_serving mux host method path p"
        using a p unfolding first_serving_def serves_matches_at[OF assms] by blast
      then show thesis using found[of n ms p h] Ret Some f p a(3) by blast
    qed
  qed
qed

section \<open>What findHandler answers\<close>

lemma matchOrRedirect_cases:
  assumes "mux_ok mux"
  obtains (redirect) url where "u = Some url"
      "matchOrRedirect mux host meth path u =
         Ret (None, [], Some (new_URL\<lparr>Path := cleanPath (Path url) @ ''/'', RawQuery := RawQuery url\<rparr>))"
      "\<exists>p h. has_leaf mux p h \<and> first_serving mux host meth (path @ ''/'') p \<and> exact_pattern p (path @ ''/'')"
  | (none) "matchOrRedirect mux host meth path u = Ret (None, [], None)" "unserved mux host meth path"
  | (found) n ms p h where "matchOrRedirect mux host meth path u = Ret (Some n, ms, None)"
      "nd_pattern n = Some p" "nd_handler n = Some h" "has_leaf mux p h"
      "first_serving mux host meth path p" "\<exists>a. found_at (tree mux) path a n ms"
proof -
  let ?red = "\<lambda>url. new_URL\<lparr>Path := cleanPath (Path url) @ ''/'', RawQuery := RawQuery url\<rparr>"
  have second: "(\<exists>r2. match_tree (tree mux) host meth (path @ ''/'') = Ret r2 \<and>
      (\<exists>b. exactMatch (fst (found_node r2)) (path @ ''/'') = Ret b \<and>
        (b \<longrightarrow> (\<exists>p h. has_leaf mux p h \<and> first_serving mux host meth (path @ ''/'') p \<and>
           exact_pattern p (path @ ''/'')))))"
    using assms
  proof (cases rule: match_tree_cases[of mux host meth "path @ ''/''"])
    case none
    then show ?thesis by (auto simp: found_node_def exactMatch_def intro: exI[of _ False])
  next
    case (found n ms p h)
    then show ?thesis using exactMatch_leaf[of n p] by (auto simp: found_node_def)
  qed
  then obtain r2 b where r2: "match_tree (tree mux) host meth (path @ ''/'') = Ret r2"
    "exactMatch (fst (found_node r2)) (path @ ''/'') = Ret b"
    "b \<Longrightarrow> \<exists>p h. has_leaf mux p h \<and> first_serving mux host meth (path @ ''/'') p \<and>
           exact_pattern p (path @ ''/'')" by blast
  from assms show thesis
  proof (cases rule: match_tree_cases[of mux host meth path])
    case none0: none
    show thesis
    proof (cases "u \<noteq> None \<and> b")
      case True
      then show thesis
        using redirect none0(1) r2 by (auto simp: matchOrRedirect_def found_node_def exactMatch_def)
    next
      case False
      then show thesis
        using none none0 r2 by (cases u) (auto simp: matchOrRedirect_def found_node_def exactMatch_def)
    qed
  next
    case found0: (found n ms p h)
    have ex: "exactMatch (Some n) path = Ret (exact_pattern p path)"
      using exactMatch_leaf[OF found0(2,5)] .
    show thesis
    proof (cases "u \<noteq> None \<and> b \<and> \<not> exact_pattern p path")
      case True
      then show thesis
        using redirect found0(1) r2 ex by (auto simp: matchOrRedirect_def found_node_def)
    next
      case False
      then show thesis
        using found[of n ms p h] found0 r2 ex
        by (cases u) (auto simp: matchOrRedirect_def found_node_def)
    qed
  qed
qed










text \<open>
  A CONNECT request that no pattern serves ends in a nil dereference: the check for a nil node
  stands in the branch for the other methods only.
\<close>

lemma findHandler_connect_panics:
  assumes "mux_ok mux" and "rq_Method r = ''CONNECT''"
    and "unserved mux (Host (rq_URL r)) ''CONNECT'' (EscapedPath (rq_URL r) @ ''/'')"
    and "unserved mux (rq_Host r) ''CONNECT'' (EscapedPath (rq_URL r))"
  shows "panics (findHandler mux r)"
proof -
  let ?p = "EscapedPath (rq_URL r)"
  have not_first: "\<not> first_serving mux host meth path p" if "unserved mux host meth path" "has_leaf mux p h" for host meth path p h
  proof
    assume "first_serving mux host meth path p"
    then have "(p_host p, p_method p) \<in> set (attempts host meth)" "pattern_matches p path"
      by (auto simp: first_serving_def)
    then show False using that unfolding unserved_def serves_def by blast
  qed
  have m2: "matchOrRedirect mux (rq_Host r) ''CONNECT'' ?p None = Ret (None, [], None)"
    using assms(1)
  proof (cases rule: matchOrRedirect_cases[of mux None "rq_Host r" "''CONNECT''" ?p])
    case (found n ms p h)
    then show ?thesis using not_first[OF assms(4)] by blast
  qed simp_all
  from assms(1) have "\<exists>n ms. matchOrRedirect mux (Host (rq_URL r)) ''CONNECT'' ?p (Some (rq_URL r)) = Ret (n, ms, None)"
  proof (cases rule: matchOrRedirect_cases[of mux "Some (rq_URL r)" "Host (rq_URL r)" "''CONNECT''" ?p])
    case redirect
    then show ?thesis using not_first[OF assms(3)] by blast
  qed auto
  then show ?thesis
    using m2 assms(2) by (auto simp: findHandler_def findHandler_connect_def Let_def use_node_def)
qed

section \<open>Properties\<close>

text \<open>A multiplexer with one pattern, registered by the code, for the concrete instances.\<close>

definition no_letters :: unicode where
  "no_letters = \<lparr>uni_letter = (\<lambda>r. False), uni_digit = (\<lambda>r. False)\<rparr>"

definition one_route :: "nat ServeMux" where
  "one_route = (case registerErr no_letters ''main.go:7'' ''GET /a/{x}'' (HandlerValue 7) empty_mux of
      Ret (Inr m) \<Rightarrow> m | _ \<Rightarrow> empty_mux)"

lemma one_route_parsed:
  "parsePattern no_letters ''GET /a/{x}'' =
     Inr \<lparr>p_str = ''GET /a/{x}'', p_method = ''GET'', p_host = [],
       p_segments = [lit_seg ''a'', wild_seg ''x'' False], p_loc = []\<rparr>"
  by code_simp

lemma one_route_registered: "registered no_letters one_route"
proof (rule registered.again[OF registered.start])
  show "registerErr no_letters ''main.go:7'' ''GET /a/{x}'' (HandlerValue 7) empty_mux = Ret (Inr one_route)"
    by code_simp
qed

lemma one_route_starless: "mux_starless one_route"
  by code_simp



text \<open>C14: The invariant of the multiplexer holds in every state that registrations reach, whatever the
  patterns: the tree is well formed, each leaf is a well-formed pattern under its own keys, the leaves are
  exactly the patterns that are listed, and no two of these have the same keys.  When none of them has a star as
  a literal segment, moreover each node under a multi wildcard holds a pattern.\<close>

theorem registered_invariant:
  "registered U mux \<Longrightarrow> mux_base mux \<and> (mux_starless mux \<longrightarrow> all_stars_ok (tree mux))"
  by (rule registered_base)

lemma registered_invariant_witness: "mux_base one_route \<and> all_stars_ok (tree one_route)"
  using registered_invariant[OF one_route_registered] one_route_starless by blast

text \<open>C21: Registering a pattern on a reachable multiplexer panics when a pattern with the same keys (method,
  host and segments, up to the names of the wildcards, and with a literal star under the key of the multi
  wildcards) is there, and otherwise succeeds, adds exactly this leaf to the tree and lists the pattern
  last.\<close>

theorem registerErr_conflict:
  assumes "registered V mux" and "patstr \<noteq> []" and "parsePattern U patstr = Inr p"
  shows "if leaf_at (tree mux) (pattern_keys p) \<noteq> None then panics (registerErr U loc patstr (HandlerValue h) mux)
    else \<exists>mux'. registerErr U loc patstr (HandlerValue h) mux = Ret (Inr mux') \<and>
      leaf_at (tree mux') = (leaf_at (tree mux))(pattern_keys p \<mapsto> (p\<lparr>p_loc := loc\<rparr>, h)) \<and>
      patterns mux' = patterns mux @ [p\<lparr>p_loc := loc\<rparr>]"
proof -
  have base: "mux_base mux" using registered_base[OF assms(1)] by blast
  show ?thesis
  proof (cases "leaf_at (tree mux) (pattern_keys p) = None")
    case True
    from registerErr_free[OF base assms(2,3) this, of loc h] True show ?thesis by auto
  next
    case False
    with registerErr_taken[OF base assms(2,3) False, of loc h] show ?thesis by simp
  qed
qed

lemma registerErr_conflict_witness:
  "panics (registerErr no_letters ''main.go:9'' ''GET /a/{x}'' (HandlerValue 8) one_route)"
proof -
  let ?p = "\<lparr>p_str = ''GET /a/{x}'', p_method = ''GET'', p_host = [],
       p_segments = [lit_seg ''a'', wild_seg ''x'' False], p_loc = []\<rparr>"
  have ne: "''GET /a/{x}'' \<noteq> []" by simp
  have "leaf_at (tree one_route) (pattern_keys ?p) \<noteq> None" by code_simp
  then show ?thesis
    using registerErr_conflict[OF one_route_registered ne one_route_parsed, of "''main.go:9''" 8]
    unfolding if_P by simp
qed



text \<open>A CONNECT request that no registered pattern serves ends in a nil dereference.\<close>

theorem connect_without_match_panics:
  assumes "registered U mux" and "mux_starless mux" and "rq_Method r = ''CONNECT''"
    and "unserved mux (Host (rq_URL r)) ''CONNECT'' (EscapedPath (rq_URL r) @ ''/'')"
    and "unserved mux (rq_Host r) ''CONNECT'' (EscapedPath (rq_URL r))"
  shows "panics (findHandler mux r)"
  by (rule findHandler_connect_panics[OF registered_mux_ok[OF assms(1,2)] assms(3-5)])

lemma connect_without_match_panics_witness:
  "panics (findHandler (empty_mux :: nat ServeMux)
     \<lparr>rq_Method = ''CONNECT'', rq_Host = ''h:1'', rq_URL = new_URL\<lparr>Host := ''h:1''\<rparr>\<rparr>)"
proof -
  have "unserved (empty_mux :: nat ServeMux) host meth path" for host meth path
    by (simp add: unserved_def serves_def has_leaf_def empty_mux_def)
  then show ?thesis
    by (intro connect_without_match_panics[OF registered.start[of no_letters]])
      (simp_all add: mux_starless_def empty_mux_def)
qed

text \<open>
  A pattern with a star as a literal segment is accepted.  The tree files it under the key of the multi
  wildcards.  As the last segment it then matches every rest of a path; before the last segment its node
  holds no pattern, and a request that arrives there dereferences nil.
\<close>

definition star_route :: "string \<Rightarrow> nat ServeMux" where
  "star_route pat = (case registerErr no_letters ''main.go:7'' pat (HandlerValue 7) empty_mux of
      Ret (Inr m) \<Rightarrow> m | _ \<Rightarrow> empty_mux)"

lemma star_pattern_panics:
  "registered no_letters (star_route ''/*/b'') \<and>
   panics (findHandler (star_route ''/*/b'')
     \<lparr>rq_Method = ''GET'', rq_Host = ''h'', rq_URL = new_URL\<lparr>Path := ''/x''\<rparr>\<rparr>)"
proof
  have "registerErr no_letters ''main.go:7'' ''/*/b'' (HandlerValue 7) empty_mux = Ret (Inr (star_route ''/*/b''))"
    by code_simp
  then show "registered no_letters (star_route ''/*/b'')" by (rule registered.again[OF registered.start])
qed code_simp

lemma star_pattern_matches_all:
  "registered no_letters (star_route ''/*'') \<and>
   (\<exists>pat p. findHandler (star_route ''/*'')
     \<lparr>rq_Method = ''GET'', rq_Host = ''h'', rq_URL = new_URL\<lparr>Path := ''/x/y''\<rparr>\<rparr> =
       Ret (UserHandler 7, pat, p, [''x/y'']))"
proof
  have "registerErr no_letters ''main.go:7'' ''/*'' (HandlerValue 7) empty_mux = Ret (Inr (star_route ''/*''))"
    by code_simp
  then show "registered no_letters (star_route ''/*'')" by (rule registered.again[OF registered.start])
  have "case findHandler (star_route ''/*'')
     \<lparr>rq_Method = ''GET'', rq_Host = ''h'', rq_URL = new_URL\<lparr>Path := ''/x/y''\<rparr>\<rparr> of
      Ret (s, _, _, vs) \<Rightarrow> s = UserHandler 7 \<and> vs = [''x/y''] | Panic _ \<Rightarrow> False" by code_simp
  then show "\<exists>pat p. findHandler (star_route ''/*'')
     \<lparr>rq_Method = ''GET'', rq_Host = ''h'', rq_URL = new_URL\<lparr>Path := ''/x/y''\<rparr>\<rparr> =
       Ret (UserHandler 7, pat, p, [''x/y''])" by (auto split: go.splits)
qed

end
