(* ===== verification/Url_Resolve.thy ===== *)
theory Url_Resolve
  imports Url_Correct
begin

text \<open>
  resolvePath of src/url/url.go builds a string and takes segments off its end.  Here it is compared
  with a reference that works on the list of segments, and shown to leave no dot segment.
\<close>

section \<open>The segments the loop keeps\<close>

definition seg_step :: "string list \<Rightarrow> string \<Rightarrow> string list" where
  "seg_step st elem =
     (if elem = ''.'' then (if st = [] then [[]] else st)
      else if elem = ''..'' then butlast st
      else st @ [elem])"

definition no_slash :: "string list \<Rightarrow> bool" where
  "no_slash ws = (\<forall>w\<in>set ws. CHR ''/'' \<notin> set w)"

abbreviation rooted :: "string list \<Rightarrow> string" where
  "rooted ws \<equiv> CHR ''/'' # join_with ''/'' ws"

lemma join_snoc: "ws \<noteq> [] \<Longrightarrow> join_with sep (ws @ [w]) = join_with sep ws @ sep @ w"
  by (induction sep ws rule: join_with.induct) auto

lemma no_slash_split [simp]: "no_slash (split_byte (CHR ''/'') s)"
  using split_byte_parts by (auto simp: no_slash_def)

lemma no_slash_simps [simp]:
  "no_slash []" "no_slash (w # ws) \<longleftrightarrow> CHR ''/'' \<notin> set w \<and> no_slash ws"
  "no_slash (xs @ ys) \<longleftrightarrow> no_slash xs \<and> no_slash ys"
  by (auto simp: no_slash_def)

lemma no_slash_butlast: "no_slash st \<Longrightarrow> no_slash (butlast st)"
  by (auto simp: no_slash_def dest: in_set_butlastD)

lemma seg_step_no_slash: "no_slash st \<Longrightarrow> CHR ''/'' \<notin> set e \<Longrightarrow> no_slash (seg_step st e)"
  by (auto simp: seg_step_def no_slash_butlast)

lemma resolve_step_segs:
  assumes "no_slash st"
  shows "resolve_step elem (rooted st) (st = []) = (rooted (seg_step st elem), seg_step st elem = [])"
proof (cases "elem = ''..''")
  case True
  show ?thesis
  proof (cases st rule: rev_cases)
    case (snoc ws w)
    show ?thesis
    proof (cases "ws = []")
      case False
      have "last_index_byte (CHR ''/'') (join_with ''/'' ws @ CHR ''/'' # w) = Some (length (join_with ''/'' ws))"
        using assms snoc by (intro last_index_byte_append) simp
      then show ?thesis using True snoc False by (simp add: resolve_step_def seg_step_def join_snoc Let_def)
    next
      case ws: True
      then have "last_index_byte (CHR ''/'') w = None" using assms snoc by (simp add: last_index_byte_None)
      then show ?thesis using True snoc ws by (simp add: resolve_step_def seg_step_def)
    qed
  qed (use True in \<open>simp add: resolve_step_def seg_step_def\<close>)
next
  case False
  then show ?thesis by (auto simp: resolve_step_def seg_step_def join_snoc)
qed

lemma resolve_loop_segs:
  "no_slash st \<Longrightarrow>
     resolve_loop s (rooted st) (st = []) =
       (rooted (foldl seg_step st (split_byte (CHR ''/'') s)), last (split_byte (CHR ''/'') s))"
proof (induction "length s" arbitrary: s st rule: less_induct)
  case less
  obtain elem rem found where c: "cut_byte (CHR ''/'') s = (elem, rem, found)" by (cases "cut_byte (CHR ''/'') s")
  have s: "s = (if found then elem @ CHR ''/'' # rem else elem)" and free: "CHR ''/'' \<notin> set elem"
    using c unfolding cut_byte_eq by (auto split: if_splits)
  have step: "resolve_loop s (rooted st) (st = []) =
      (if found then resolve_loop rem (rooted (seg_step st elem)) (seg_step st elem = [])
       else (rooted (seg_step st elem), elem))"
    by (subst resolve_loop.simps) (simp add: c resolve_step_segs[OF less.prems])
  show ?case
  proof (cases found)
    case True
    have "resolve_loop rem (rooted (seg_step st elem)) (seg_step st elem = []) =
       (rooted (foldl seg_step (seg_step st elem) (split_byte (CHR ''/'') rem)), last (split_byte (CHR ''/'') rem))"
      using s True less.prems free by (intro less.hyps seg_step_no_slash) auto
    then show ?thesis unfolding step using True s free by (simp add: split_byte_append)
  next
    case False
    then show ?thesis unfolding step using s free by (simp add: split_byte_notin)
  qed
qed

section \<open>The reference\<close>

definition dot_segment :: "string \<Rightarrow> bool" where
  "dot_segment w = (w = ''.'' \<or> w = ''..'')"

definition final_segments :: "string list \<Rightarrow> string list" where
  "final_segments ws =
     (let st = foldl seg_step [] ws;
          st' = (if dot_segment (last ws) then (if st = [] then [[], []] else st @ [[]]) else st)
      in if hd st' = [] \<and> tl st' \<noteq> [] then tl st' else st')"

definition full_path :: "string \<Rightarrow> string \<Rightarrow> string" where
  "full_path base ref =
     (if ref = [] then base
      else if hd ref \<noteq> CHR ''/'' then
        take (case last_index_byte (CHR ''/'') base of None \<Rightarrow> 0 | Some i \<Rightarrow> Suc i) base @ ref
      else ref)"

lemma foldl_seg_no_slash: "no_slash st \<Longrightarrow> no_slash ws \<Longrightarrow> no_slash (foldl seg_step st ws)"
  by (induction ws arbitrary: st) (auto simp: seg_step_no_slash)

lemma rooted_second:
  assumes "no_slash ws" and "ws \<noteq> []"
  shows "1 < length (rooted ws) \<and> rooted ws ! 1 = CHR ''/'' \<longleftrightarrow> hd ws = [] \<and> tl ws \<noteq> []"
proof -
  have "w \<noteq> [] \<Longrightarrow> CHR ''/'' \<notin> set w \<Longrightarrow> w ! 0 \<noteq> CHR ''/''" for w :: string
    by (metis length_greater_0_conv nth_mem)
  then show ?thesis
    using assms by (cases "(''/'', ws)" rule: join_with.cases) (auto simp: nth_append split: if_splits)
qed

lemma rooted_Nil: "rooted [] = rooted [[]]"
  by simp

lemma resolvePath_segments:
  "resolvePath base ref =
     (if full_path base ref = [] then []
      else rooted (final_segments (split_byte (CHR ''/'') (full_path base ref))))"
proof -
  let ?f = "full_path base ref"
  let ?ws = "split_byte (CHR ''/'') ?f"
  let ?st = "foldl seg_step [] ?ws"
  define st' where "st' = (if dot_segment (last ?ws) then (if ?st = [] then [[], []] else ?st @ [[]]) else ?st)"
  have loop: "resolve_loop ?f ''/'' True = (rooted ?st, last ?ws)"
    using resolve_loop_segs[of "[]" ?f] by simp
  have free: "no_slash st'" using foldl_seg_no_slash[of "[]" ?ws] by (simp add: st'_def)
  have r: "(if last ?ws = ''.'' \<or> last ?ws = ''..'' then rooted ?st @ ''/'' else rooted ?st) = rooted st'"
    by (auto simp: st'_def dot_segment_def join_snoc)
  have "resolvePath base ref = (if ?f = [] then []
      else if 1 < length (rooted st') \<and> rooted st' ! 1 = CHR ''/'' then tl (rooted st') else rooted st')"
    unfolding resolvePath_def full_path_def[symmetric] Let_def loop prod.case r by simp
  moreover have "(if 1 < length (rooted st') \<and> rooted st' ! 1 = CHR ''/'' then tl (rooted st') else rooted st')
      = rooted (final_segments ?ws)"
  proof (cases "st' = []")
    case True
    then show ?thesis unfolding final_segments_def Let_def st'_def[symmetric] by simp
  next
    case False
    then show ?thesis
      unfolding rooted_second[OF free False] final_segments_def Let_def st'_def[symmetric]
      by (cases "(''/'', st')" rule: join_with.cases) auto
  qed
  ultimately show ?thesis by simp
qed

text \<open>No dot segment is left.\<close>

lemma seg_step_no_dots:
  "\<forall>w\<in>set st. \<not> dot_segment w \<Longrightarrow> \<forall>w\<in>set (seg_step st e). \<not> dot_segment w"
  by (auto simp: seg_step_def dot_segment_def dest: in_set_butlastD)

lemma foldl_no_dots:
  "\<forall>w\<in>set st. \<not> dot_segment w \<Longrightarrow> \<forall>w\<in>set (foldl seg_step st ws). \<not> dot_segment w"
proof (induction ws arbitrary: st)
  case (Cons a ws)
  then show ?case using seg_step_no_dots[of st a] by simp
qed simp

lemma final_segments_no_dots: "\<forall>w\<in>set (final_segments ws). \<not> dot_segment w"
proof -
  have empty: "\<not> dot_segment []" by (simp add: dot_segment_def)
  have "\<forall>w\<in>set (tl xs). \<not> dot_segment w" if "\<forall>w\<in>set xs. \<not> dot_segment w" for xs
    using that by (cases xs) auto
  then show ?thesis
    using foldl_no_dots[of "[]" ws] empty by (simp add: final_segments_def Let_def)
qed

lemma final_segments_no_slash: "no_slash ws \<Longrightarrow> no_slash (final_segments ws)"
proof -
  assume "no_slash ws"
  then have "no_slash (foldl seg_step [] ws)" by (simp add: foldl_seg_no_slash)
  moreover have "no_slash xs \<Longrightarrow> no_slash (tl xs)" for xs by (cases xs) auto
  ultimately show ?thesis by (simp add: final_segments_def Let_def)
qed

lemma split_rooted:
  assumes "no_slash ws"
  shows "split_byte (CHR ''/'') (rooted ws) = [] # (if ws = [] then [[]] else ws)"
  using assms split_join_byte[of ws "CHR ''/''"] by (auto simp: no_slash_def)

definition dot_free_path :: "string \<Rightarrow> bool" where
  "dot_free_path p =
     (p = [] \<or> hd p = CHR ''/'' \<and> list_all (\<lambda>w. \<not> dot_segment w) (split_byte (CHR ''/'') p))"

lemma resolvePath_dot_free_path: "dot_free_path (resolvePath base ref)"
proof -
  let ?ws = "final_segments (split_byte (CHR ''/'') (full_path base ref))"
  have "list_all (\<lambda>w. \<not> dot_segment w) (split_byte (CHR ''/'') (rooted ?ws))"
    using final_segments_no_dots[of "split_byte (CHR ''/'') (full_path base ref)"]
    by (subst split_rooted) (auto simp: list_all_iff final_segments_no_slash dot_segment_def)
  then show ?thesis by (auto simp: dot_free_path_def resolvePath_segments)
qed

lemma foldl_plain: "\<forall>w\<in>set ws. \<not> dot_segment w \<Longrightarrow> foldl seg_step st ws = st @ ws"
  by (induction ws arbitrary: st) (auto simp: seg_step_def dot_segment_def)

lemma resolvePath_dot_free_id:
  assumes "dot_free_path p"
  shows "resolvePath p [] = p"
proof (cases "p = []")
  case False
  then obtain q where p: "p = CHR ''/'' # q" using assms by (cases p) (auto simp: dot_free_path_def)
  let ?ws = "split_byte (CHR ''/'') q"
  have nd: "\<forall>w\<in>set ([] # ?ws). \<not> dot_segment w"
    using assms p by (auto simp: dot_free_path_def list_all_iff)
  have "foldl seg_step [] ([] # ?ws) = [] # ?ws" using foldl_plain[OF nd, of "[]"] by simp
  moreover have "\<not> dot_segment (last ([] # ?ws))" using nd last_in_set[of "[] # ?ws"] by blast
  ultimately have "final_segments ([] # ?ws) = ?ws"
    unfolding final_segments_def by (simp add: Let_def)
  then show ?thesis
    using p by (simp add: resolvePath_segments full_path_def join_split_byte)
qed (simp add: resolvePath_segments full_path_def)

lemma resolvePath_idem: "resolvePath (resolvePath base ref) [] = resolvePath base ref"
  by (rule resolvePath_dot_free_id[OF resolvePath_dot_free_path])

section \<open>Properties\<close>

text \<open>C16: The string loop of resolvePath computes what a reference computes on the list of segments.\<close>

theorem resolvePath_reference:
  "resolvePath base ref =
     (if full_path base ref = [] then []
      else rooted (final_segments (split_byte (CHR ''/'') (full_path base ref))))"
  by (rule resolvePath_segments)

text \<open>A resolved path is empty or rooted and has no dot segment, and resolving it once more changes
  nothing.\<close>

theorem resolvePath_normal_form:
  "dot_free_path (resolvePath base ref) \<and> resolvePath (resolvePath base ref) [] = resolvePath base ref"
  using resolvePath_dot_free_path resolvePath_idem by blast

end
