(* ===== verification/Multi_Store.thy ===== *)
theory Multi_Store
  imports Go_Prelude
begin

text \<open>
  The interface that url.Values, textproto.MIMEHeader and http.Header share: a map from keys to lists
  of values, in which a key is first put into its canonical form (the identity for url.Values).
  The laws say what the list of values of a key is after each operation; the lemmas below are what
  the callers rely on, proved once.
\<close>

type_synonym multimap = "(string, string list) gomap"

text \<open>Reading a missing key of a Go map of slices gives the empty slice.\<close>

definition values_at :: "multimap \<Rightarrow> string \<Rightarrow> string list" where
  "values_at m k = (case map_of m k of None \<Rightarrow> [] | Some vs \<Rightarrow> vs)"

lemma values_at_update: "values_at (AList.update k vs m) j = (if j = k then vs else values_at m j)"
  by (simp add: values_at_def update_conv)

lemma values_at_delete: "values_at (AList.delete k m) j = (if j = k then [] else values_at m j)"
  by (simp add: values_at_def delete_conv)

lemma values_at_Nil [simp]: "values_at [] k = []"
  by (simp add: values_at_def)

locale multi_store =
  fixes canon :: "string \<Rightarrow> string"
    and get :: "string \<Rightarrow> 'm \<Rightarrow> string"
    and vals :: "string \<Rightarrow> 'm \<Rightarrow> string list"
    and put :: "string \<Rightarrow> string \<Rightarrow> 'm \<Rightarrow> 'm"
    and add :: "string \<Rightarrow> string \<Rightarrow> 'm \<Rightarrow> 'm"
    and del :: "string \<Rightarrow> 'm \<Rightarrow> 'm"
    and ok :: "'m \<Rightarrow> bool"
  assumes get_vals: "get k m = (case vals k m of [] \<Rightarrow> [] | v # _ \<Rightarrow> v)"
    and vals_put: "vals j (put k v m) = (if canon j = canon k then [v] else vals j m)"
    and vals_add: "vals j (add k v m) = (if canon j = canon k then vals j m @ [v] else vals j m)"
    and vals_del: "vals j (del k m) = (if canon j = canon k then [] else vals j m)"
    and put_ok: "ok m \<Longrightarrow> ok (put k v m)"
    and add_ok: "ok m \<Longrightarrow> ok (add k v m)"
    and del_ok: "ok m \<Longrightarrow> ok (del k m)"
begin

lemma get_put: "get j (put k v m) = (if canon j = canon k then v else get j m)"
  by (simp add: get_vals vals_put)

lemma get_add: "get j (add k v m) = (if canon j = canon k \<and> vals j m = [] then v else get j m)"
  by (auto simp: get_vals vals_add split: list.split)

lemma get_del: "get j (del k m) = (if canon j = canon k then [] else get j m)"
  by (simp add: get_vals vals_del)

text \<open>Adding a list of entries appends to each key its values, in order.\<close>

definition add_list :: "(string \<times> string) list \<Rightarrow> 'm \<Rightarrow> 'm" where
  "add_list kvs m = fold (\<lambda>(k, v). add k v) kvs m"

lemma vals_add_list:
  "vals j (add_list kvs m) = vals j m @ map snd (filter (\<lambda>e. canon (fst e) = canon j) kvs)"
  unfolding add_list_def
  by (induction kvs arbitrary: m) (auto simp: vals_add)

lemma add_list_ok: "ok m \<Longrightarrow> ok (add_list kvs m)"
  unfolding add_list_def by (induction kvs arbitrary: m) (auto simp: add_ok)

lemma vals_put_add_list:
  "vals j (add_list kvs (put k v m)) =
     (if canon j = canon k then [v] else vals j m) @ map snd (filter (\<lambda>e. canon (fst e) = canon j) kvs)"
  by (simp add: vals_add_list vals_put)

end

end
