(* ===== verification/Url_Values.thy ===== *)
theory Url_Values
  imports Url Multi_Store
begin

text \<open>
  Query values (the type Values of src/url/url.go): the operations on the map, the parser of a query
  string and its printer, and the proof that a printed map is parsed back.  A Values is a map that is
  not nil; a write to a nil map would panic.
\<close>

definition Values_Get :: "string \<Rightarrow> multimap \<Rightarrow> string" where
  "Values_Get key v =
     (let vs = values_at v key in if length vs = 0 then [] else vs ! 0)"

definition Values_Set :: "string \<Rightarrow> string \<Rightarrow> multimap \<Rightarrow> multimap" where
  "Values_Set key val v = AList.update key [val] v"

definition Values_Add :: "string \<Rightarrow> string \<Rightarrow> multimap \<Rightarrow> multimap" where
  "Values_Add key val v = AList.update key (values_at v key @ [val]) v"

definition Values_Del :: "string \<Rightarrow> multimap \<Rightarrow> multimap" where
  "Values_Del key v = AList.delete key v"

definition Values_Has :: "string \<Rightarrow> multimap \<Rightarrow> bool" where
  "Values_Has key v = (map_of v key \<noteq> None)"

interpretation qv: multi_store "\<lambda>k. k" Values_Get "\<lambda>k m. values_at m k" Values_Set Values_Add Values_Del gomap_ok
  by unfold_locales
    (auto simp: Values_Get_def Values_Set_def Values_Add_def Values_Del_def values_at_update
      values_at_delete Let_def distinct_update distinct_delete split: list.split)

section \<open>Parsing and printing\<close>

text \<open>
  One setting of the query: the new map and the error, which is the first one found, except that a
  semicolon replaces an error found before.
\<close>

definition parseQuery_setting ::
  "multimap \<Rightarrow> string \<Rightarrow> url_error option \<Rightarrow> multimap \<times> url_error option" where
  "parseQuery_setting m key err =
     (if contains_byte (CHR '';'') key then
        (m, Some (UrlMsg ''invalid semicolon separator in query''))
      else if key = [] then (m, err)
      else (let (key, val, _) = cut_byte (CHR ''='') key
            in case QueryUnescape key of
                 Inl err1 \<Rightarrow> (m, if err = None then Some err1 else err)
               | Inr key' \<Rightarrow>
                   (case QueryUnescape val of
                      Inl err1 \<Rightarrow> (m, if err = None then Some err1 else err)
                    | Inr val' \<Rightarrow> (AList.update key' (values_at m key' @ [val']) m, err))))"

function parseQuery :: "multimap \<Rightarrow> string \<Rightarrow> url_error option \<Rightarrow> multimap \<times> url_error option" where
  "parseQuery m query err =
     (if query = [] then (m, err)
      else (case cut_byte (CHR ''&'') query of
              (key, query', _) \<Rightarrow>
                (case parseQuery_setting m key err of
                   (m', err') \<Rightarrow> parseQuery m' query' err')))"
  by pat_completeness auto
termination
  by (relation "measure (\<lambda>(m, q, e). length q)") (auto dest!: sym[of "(_, _, _)"] length_cut_byte_rest)

declare parseQuery.simps [simp del]

definition ParseQuery :: "string \<Rightarrow> multimap \<times> url_error option" where
  "ParseQuery query = parseQuery [] query None"

definition Query :: "URL \<Rightarrow> multimap" where
  "Query u = fst (ParseQuery (RawQuery u))"

fun encode_values :: "string \<Rightarrow> string list \<Rightarrow> string \<Rightarrow> string" where
  "encode_values keyEscaped [] buf = buf"
| "encode_values keyEscaped (v # vs) buf =
     encode_values keyEscaped vs
       ((if buf \<noteq> [] then buf @ ''&'' else buf) @ keyEscaped @ ''='' @ QueryEscape v)"

fun encode_keys :: "multimap \<Rightarrow> string list \<Rightarrow> string \<Rightarrow> string" where
  "encode_keys v [] buf = buf"
| "encode_keys v (k # ks) buf = encode_keys v ks (encode_values (QueryEscape k) (values_at v k) buf)"

definition Encode :: "multimap \<Rightarrow> string" where
  "Encode v = encode_keys v (sort (keys_of v)) []"

section \<open>A printed map is parsed back\<close>

definition setting_text :: "string \<times> string \<Rightarrow> string" where
  "setting_text e = QueryEscape (fst e) @ ''='' @ QueryEscape (snd e)"

definition entries_of :: "multimap \<Rightarrow> string list \<Rightarrow> (string \<times> string) list" where
  "entries_of v ks = concat (map (\<lambda>k. map (Pair k) (values_at v k)) ks)"

lemma setting_text_not_Nil [simp]: "setting_text e \<noteq> []"
  by (simp add: setting_text_def)

lemma query_escape_bytes:
  assumes "c \<in> set (QueryEscape s)"
  shows "c \<noteq> CHR ''&'' \<and> c \<noteq> CHR '';'' \<and> c \<noteq> CHR ''=''"
proof -
  have c: "escaped_byte encodeQueryComponent c"
    using assms escaped_byte_escape[of encodeQueryComponent s] by (simp add: QueryEscape_def list_all_iff)
  have "\<not> escaped_byte encodeQueryComponent (CHR ''&'')" "\<not> escaped_byte encodeQueryComponent (CHR '';'')"
    "\<not> escaped_byte encodeQueryComponent (CHR ''='')"
    by (simp_all add: escaped_byte_def shouldEscape_def)
  then show ?thesis using c by blast
qed

lemma setting_text_bytes: "CHR ''&'' \<notin> set (setting_text e)" "CHR '';'' \<notin> set (setting_text e)"
  using query_escape_bytes by (auto simp: setting_text_def)

lemma encode_values_join:
  "encode_values (QueryEscape k) vs (join_with ''&'' (map setting_text es)) =
     join_with ''&'' (map setting_text (es @ map (Pair k) vs))"
proof (induction vs arbitrary: es)
  case (Cons v vs)
  have snoc: "join_with ''&'' (map setting_text (es @ [e])) =
      (if join_with ''&'' (map setting_text es) \<noteq> [] then join_with ''&'' (map setting_text es) @ ''&''
       else join_with ''&'' (map setting_text es)) @ setting_text e" for e
  proof (induction "''&''" "map setting_text es" arbitrary: es rule: join_with.induct)
    case (3 w v ws)
    then obtain e1 e2 es' where "es = e1 # e2 # es'" by (metis map_eq_Cons_D)
    then show ?case using 3(1)[of "e2 # es'"] 3(2) by (cases es') (auto split: if_splits)
  qed auto
  have "encode_values (QueryEscape k) (v # vs) (join_with ''&'' (map setting_text es)) =
      encode_values (QueryEscape k) vs (join_with ''&'' (map setting_text (es @ [(k, v)])))"
    unfolding snoc by (simp add: setting_text_def)
  then show ?case using Cons.IH[of "es @ [(k, v)]"] by simp
qed simp

lemma encode_keys_join:
  "encode_keys v ks (join_with ''&'' (map setting_text es)) =
     join_with ''&'' (map setting_text (es @ entries_of v ks))"
proof (induction ks arbitrary: es)
  case (Cons k ks)
  then show ?case
    using Cons.IH[of "es @ map (Pair k) (values_at v k)"]
    by (simp only: encode_keys.simps encode_values_join) (simp add: entries_of_def)
qed (simp add: entries_of_def)

lemma Encode_join: "Encode v = join_with ''&'' (map setting_text (entries_of v (sort (keys_of v))))"
  using encode_keys_join[of v "sort (keys_of v)" "[]"] by (simp add: Encode_def)

lemma parseQuery_setting_text:
  "parseQuery_setting m (setting_text (k, v)) err = (Values_Add k v m, err)"
proof -
  have "CHR ''='' \<notin> set (QueryEscape k)" using query_escape_bytes by blast
  then have "cut_byte (CHR ''='') (setting_text (k, v)) = (QueryEscape k, QueryEscape v, True)"
    by (simp add: setting_text_def cut_byte_in)
  moreover have "QueryUnescape (QueryEscape s) = Inr s" for s
    by (simp add: QueryUnescape_def QueryEscape_def unescape_escape)
  ultimately show ?thesis
    using setting_text_bytes(2)[of "(k, v)"]
    by (simp add: parseQuery_setting_def contains_byte_def Values_Add_def)
qed

lemma parseQuery_text:
  "parseQuery m (join_with ''&'' (map setting_text es)) err = (qv.add_list es m, err)"
proof (induction es arbitrary: m)
  case Nil
  then show ?case by (simp add: parseQuery.simps qv.add_list_def)
next
  case (Cons e es)
  obtain k v where e: "e = (k, v)" by (cases e)
  have cut: "cut_byte (CHR ''&'') (join_with ''&'' (map setting_text (e # es))) =
      (setting_text e, join_with ''&'' (map setting_text es), es \<noteq> [])"
    using setting_text_bytes(1)[of e] by (cases es) (simp_all add: cut_byte_in cut_byte_notin)
  have "join_with ''&'' (map setting_text (e # es)) \<noteq> []" by (cases es) simp_all
  then have "parseQuery m (join_with ''&'' (map setting_text (e # es))) err =
      parseQuery (Values_Add k v m) (join_with ''&'' (map setting_text es)) err"
    using cut[unfolded e] unfolding e by (subst parseQuery.simps) (simp add: parseQuery_setting_text)
  then show ?case using Cons.IH by (simp add: qv.add_list_def e)
qed

lemma entries_filter:
  "distinct ks \<Longrightarrow> map snd (filter (\<lambda>e. fst e = j) (entries_of v ks)) =
     (if j \<in> set ks then values_at v j else [])"
proof (induction ks)
  case (Cons k ks)
  have "map snd (filter (\<lambda>e. fst e = j) (map (Pair k) vs)) = (if k = j then vs else [])" for vs :: "string list"
    by (induction vs) auto
  then show ?case using Cons by (auto simp: entries_of_def)
qed (simp add: entries_of_def)

lemma ParseQuery_Encode_values:
  assumes "gomap_ok v"
  shows "snd (ParseQuery (Encode v)) = None" and "values_at (fst (ParseQuery (Encode v))) k = values_at v k"
proof -
  have r: "ParseQuery (Encode v) = (qv.add_list (entries_of v (sort (keys_of v))) [], None)"
    unfolding ParseQuery_def Encode_join by (rule parseQuery_text)
  then show "snd (ParseQuery (Encode v)) = None" by simp
  have "values_at v k = []" if "k \<notin> set (keys_of v)"
    using that by (simp add: values_at_def map_of_eq_None_iff[THEN iffD2])
  then show "values_at (fst (ParseQuery (Encode v))) k = values_at v k"
    using entries_filter[of "sort (keys_of v)" k v] assms
    unfolding r by (simp add: qv.vals_add_list)
qed

section \<open>Properties\<close>

text \<open>C18: What Encode writes, ParseQuery reads without an error, and every key has the values it had, in
  their order.\<close>

theorem query_roundtrip:
  assumes "gomap_ok v"
  shows "snd (ParseQuery (Encode v)) = None \<and> (\<forall>k. values_at (fst (ParseQuery (Encode v))) k = values_at v k)"
  using ParseQuery_Encode_values[OF assms] by blast

lemma query_roundtrip_witness:
  "values_at (fst (ParseQuery (Encode [(''b'', [''1&2'', '' '']), (''a'', [])]))) ''b'' = [''1&2'', '' '']"
proof -
  have "gomap_ok [(''b'', [''1&2'', '' '']), (''a'', [])]" by code_simp
  from query_roundtrip[OF this] show ?thesis by (simp add: values_at_def)
qed

end
