(* ===== verification/Go_Bufio.thy ===== *)
theory Go_Bufio
  imports Go_Prelude
begin

text \<open>
  What the sources use of bufio.Reader and io.  The reader holds the bytes of its buffer and the pieces
  that the next reads of its source will deliver; after the last piece the source answers EOF.  How the
  pieces are cut is arbitrary, so a theorem over all readers covers every way the network may deliver
  the same bytes.
\<close>

datatype io_error = EOF | UnexpectedEOF | BufferFull | ShortWrite | IoMsg string

record bufio =
  bf_buf :: string
  bf_src :: "string list"

definition bufio_size :: nat where "bufio_size = 4096"

definition stream :: "bufio \<Rightarrow> string" where
  "stream r = bf_buf r @ concat (bf_src r)"

definition Buffered :: "bufio \<Rightarrow> nat" where
  "Buffered r = length (bf_buf r)"

text \<open>One read of the source into the free part of the buffer.\<close>

definition bufio_fill :: "bufio \<Rightarrow> bufio" where
  "bufio_fill r =
     (case bf_src r of
        [] \<Rightarrow> r
      | c # cs \<Rightarrow>
          (let k = bufio_size - length (bf_buf r)
           in \<lparr>bf_buf = bf_buf r @ take k c, bf_src = (if drop k c = [] then cs else drop k c # cs)\<rparr>))"

text \<open>Pieces still to come, a measure of the loops that fill the buffer.\<close>

definition pending :: "bufio \<Rightarrow> nat" where
  "pending r = length (concat (bf_src r)) + length (bf_src r)"

lemma stream_fill [simp]: "stream (bufio_fill r) = stream r"
  by (auto simp: stream_def bufio_fill_def Let_def split: list.split)

lemma pending_fill: "bf_src r \<noteq> [] \<Longrightarrow> length (bf_buf r) < bufio_size \<Longrightarrow> pending (bufio_fill r) < pending r"
  by (auto simp: pending_def bufio_fill_def Let_def split: list.split)

section \<open>ReadSlice\<close>

function ReadSlice :: "char \<Rightarrow> bufio \<Rightarrow> string \<times> io_error option \<times> bufio" where
  "ReadSlice delim r =
     (case index_byte delim (bf_buf r) of
        Some i \<Rightarrow> (take (Suc i) (bf_buf r), None, r\<lparr>bf_buf := drop (Suc i) (bf_buf r)\<rparr>)
      | None \<Rightarrow>
          if bufio_size \<le> length (bf_buf r) then (bf_buf r, Some BufferFull, r\<lparr>bf_buf := []\<rparr>)
          else if bf_src r = [] then (bf_buf r, Some EOF, r\<lparr>bf_buf := []\<rparr>)
          else ReadSlice delim (bufio_fill r))"
  by pat_completeness auto
termination
  by (relation "measure (\<lambda>(d, r). pending r)") (auto simp: pending_fill not_le)

declare ReadSlice.simps [simp del]

lemma bufio_eqI: "stream r = stream r' \<Longrightarrow> bf_src r = bf_src r' \<Longrightarrow> r = (r' :: bufio)"
  by (cases r; cases r') (simp add: stream_def)

text \<open>A line that fits into the buffer is read whole, however the bytes arrive.\<close>

lemma ReadSlice_line:
  assumes "stream r = l @ delim # rest" and "delim \<notin> set l" and "length l < bufio_size"
    and "length (bf_buf r) \<le> bufio_size"
  shows "\<exists>r'. ReadSlice delim r = (l @ [delim], None, r') \<and> stream r' = rest \<and>
    length (bf_buf r') \<le> bufio_size"
  using assms
proof (induction delim r rule: ReadSlice.induct)
  case (1 delim r)
  show ?case
  proof (cases "index_byte delim (bf_buf r)")
    case (Some i)
    then have i: "i < length (bf_buf r)" "bf_buf r ! i = delim" "delim \<notin> set (take i (bf_buf r))"
      by (simp_all add: index_byte_Some)
    have buf: "bf_buf r = take i (bf_buf r) @ delim # drop (Suc i) (bf_buf r)"
      using i id_take_nth_drop[of i "bf_buf r"] by simp
    then have "take i (bf_buf r) @ delim # (drop (Suc i) (bf_buf r) @ concat (bf_src r)) = l @ delim # rest"
      using 1(2) unfolding stream_def by (metis append.assoc append_Cons)
    then have l: "l = take i (bf_buf r)" "rest = drop (Suc i) (bf_buf r) @ concat (bf_src r)"
      using cut_byte_in[OF i(3)] cut_byte_in[OF 1(3), of rest] by (metis prod.inject)+
    have "take (Suc i) (bf_buf r) = l @ [delim]" using i l by (simp add: take_Suc_conv_app_nth)
    then show ?thesis
      using Some l 1(5) by (simp add: ReadSlice.simps[of delim r] stream_def)
  next
    case None
    then have nd: "delim \<notin> set (bf_buf r)" by (simp add: index_byte_None)
    have "delim \<in> set (take (Suc (length l)) (stream r))" using 1(2) by simp
    then have short: "length (bf_buf r) < Suc (length l)"
      using nd by (auto simp: stream_def dest: in_set_takeD split: if_splits)
        (metis in_set_takeD not_less_eq take_all_iff le_eq_less_or_eq append.right_neutral diff_is_0_eq' nat_le_linear take0)
    then have lt: "length (bf_buf r) < bufio_size" using 1(4) by simp
    have src: "bf_src r \<noteq> []"
    proof
      assume "bf_src r = []"
      then have "delim \<in> set (bf_buf r)" using 1(2) by (simp add: stream_def)
      then show False using nd by simp
    qed
    have "length (bf_buf (bufio_fill r)) \<le> bufio_size"
      using lt by (auto simp: bufio_fill_def Let_def split: list.split)
    then show ?thesis
      using 1(1)[OF None _ src] 1(2-4) lt None src by (simp add: ReadSlice.simps[of delim r])
  qed
qed

section \<open>Read and ReadFull\<close>

text \<open>
  One call of Read with a slice of \<open>k\<close> bytes: it takes from the buffer, filling it once when it is
  empty, or reads the source directly when the slice is at least as long as the buffer.
\<close>

definition bufio_Read :: "nat \<Rightarrow> bufio \<Rightarrow> string \<times> io_error option \<times> bufio" where
  "bufio_Read k r =
     (if k = 0 then ([], None, r)
      else if bf_buf r \<noteq> [] then (take k (bf_buf r), None, r\<lparr>bf_buf := drop k (bf_buf r)\<rparr>)
      else (case bf_src r of
              [] \<Rightarrow> ([], Some EOF, r)
            | c # cs \<Rightarrow>
                if bufio_size \<le> k then
                  (take k c, None, r\<lparr>bf_src := (if drop k c = [] then cs else drop k c # cs)\<rparr>)
                else (let r' = bufio_fill r
                      in (take k (bf_buf r'), None, r'\<lparr>bf_buf := drop k (bf_buf r')\<rparr>))))"

text \<open>The pieces of the source are not empty: a reader that returns no bytes and no error is not used.\<close>

definition bufio_ok :: "bufio \<Rightarrow> bool" where
  "bufio_ok r = ([] \<notin> set (bf_src r) \<and> length (bf_buf r) \<le> bufio_size)"

lemma take_drop_split: "k \<le> m \<Longrightarrow> take k x @ drop k (take m x) @ drop m x = x"
  by (metis append.assoc append_take_drop_id min.absorb1 take_take)

lemma bufio_Read_spec:
  assumes "bufio_Read k r = (d, e, r')" and "bufio_ok r"
  shows "stream r = d @ stream r'" and "bufio_ok r'" and "length d \<le> k"
    and "e = None \<Longrightarrow> 0 < k \<Longrightarrow> d \<noteq> []"
    and "e \<noteq> None \<Longrightarrow> e = Some EOF \<and> d = [] \<and> stream r = []"
    and "k = 0 \<Longrightarrow> r' = r" and "stream r \<noteq> [] \<Longrightarrow> e = None"
  using assms
  by (auto simp: bufio_Read_def bufio_ok_def stream_def bufio_fill_def Let_def bufio_size_def take_drop_split
      split: if_splits list.splits dest: in_set_takeD in_set_dropD)

lemma bufio_fill_ok: "bufio_ok r \<Longrightarrow> bufio_ok (bufio_fill r)"
  by (auto simp: bufio_ok_def bufio_fill_def Let_def split: list.split)

lemma ReadSlice_ok: "ReadSlice delim r = (p, e, r') \<Longrightarrow> bufio_ok r \<Longrightarrow> bufio_ok r'"
proof (induction delim r rule: ReadSlice.induct)
  case (1 delim r)
  show ?case
  proof (cases "index_byte delim (bf_buf r) = None \<and> \<not> bufio_size \<le> length (bf_buf r) \<and> bf_src r \<noteq> []")
    case True
    then show ?thesis using 1 bufio_fill_ok[of r] by (simp add: ReadSlice.simps[of delim r])
  next
    case False
    then show ?thesis
      using 1(2,3) by (auto simp: ReadSlice.simps[of delim r] bufio_ok_def split: option.splits if_splits)
  qed
qed

text \<open>io.ReadFull of \<open>k\<close> bytes.\<close>

function ReadFull_loop :: "nat \<Rightarrow> string \<Rightarrow> bufio \<Rightarrow> string \<times> io_error option \<times> bufio" where
  "ReadFull_loop k got r =
     (if k \<le> length got then (got, None, r)
      else (case bufio_Read (k - length got) r of
              (d, e, r') \<Rightarrow>
                (case e of
                   None \<Rightarrow> if d = [] then (got, Some UnexpectedEOF, r') else ReadFull_loop k (got @ d) r'
                 | Some err \<Rightarrow> (got, Some (if err = EOF \<and> got \<noteq> [] then UnexpectedEOF else err), r'))))"
  by pat_completeness auto
termination
  by (relation "measure (\<lambda>(k, got, r). k - length got)") (auto intro!: diff_less_mono2 simp: not_le)

declare ReadFull_loop.simps [simp del]

definition ReadFull :: "nat \<Rightarrow> bufio \<Rightarrow> string \<times> io_error option \<times> bufio" where
  "ReadFull k r = ReadFull_loop k [] r"

lemma ReadFull_loop_enough:
  assumes "bufio_ok r" and "length got \<le> k" and "k - length got \<le> length (stream r)"
  shows "\<exists>r'. ReadFull_loop k got r = (got @ take (k - length got) (stream r), None, r') \<and>
    stream r' = drop (k - length got) (stream r) \<and> bufio_ok r'"
  using assms
proof (induction k got r rule: ReadFull_loop.induct)
  case (1 k got r)
  show ?case
  proof (cases "k \<le> length got")
    case True
    then show ?thesis using 1 by (simp add: ReadFull_loop.simps)
  next
    case False
    obtain d e r' where rd: "bufio_Read (k - length got) r = (d, e, r')" by (cases "bufio_Read (k - length got) r")
    note spec = bufio_Read_spec[OF rd 1(2)]
    have e: "e = None" using 1(4) False by (intro spec(7)) auto
    then have d: "d \<noteq> []" using spec(4) False by simp
    have "\<exists>r''. ReadFull_loop k (got @ d) r' = ((got @ d) @ take (k - length (got @ d)) (stream r'), None, r'') \<and>
        stream r'' = drop (k - length (got @ d)) (stream r') \<and> bufio_ok r''"
      using 1(1)[OF False rd[symmetric] refl e d] 1(3,4) False spec(1,2,3) by simp
    then show ?thesis
      using False rd e d spec(1,3) by (subst ReadFull_loop.simps) auto
  qed
qed

lemma ReadFull_enough:
  assumes "bufio_ok r" and "k \<le> length (stream r)"
  shows "\<exists>r'. ReadFull k r = (take k (stream r), None, r') \<and> stream r' = drop k (stream r) \<and> bufio_ok r'"
  using ReadFull_loop_enough[OF assms(1), of "[]" k] assms(2) by (simp add: ReadFull_def)

section \<open>A measure for loops that read\<close>

text \<open>The bytes and the pieces still to come; a read that succeeds makes it smaller.\<close>

definition rsize :: "bufio \<Rightarrow> nat" where
  "rsize r = length (stream r) + length (bf_src r)"

lemma rsize_fill: "rsize (bufio_fill r) \<le> rsize r"
  by (auto simp: rsize_def stream_def bufio_fill_def Let_def split: list.split)

lemma rsize_ReadSlice_len:
  "ReadSlice d r = (p, e, r') \<Longrightarrow> rsize r' + length p \<le> rsize r \<and> (e = None \<longrightarrow> p \<noteq> [] \<and> last p = d) \<and>
     (e = Some BufferFull \<longrightarrow> bufio_size \<le> length p)"
proof (induction d r rule: ReadSlice.induct)
  case (1 delim r)
  show ?case
  proof (cases "index_byte delim (bf_buf r)")
    case (Some i)
    then have "i < length (bf_buf r)" "bf_buf r ! i = delim" by (simp_all add: index_byte_Some)
    then show ?thesis
      using 1(2) Some by (auto simp: ReadSlice.simps[of delim r] rsize_def stream_def take_Suc_conv_app_nth)
  next
    case None
    show ?thesis
    proof (cases "bufio_size \<le> length (bf_buf r) \<or> bf_src r = []")
      case True
      then show ?thesis
        using 1(2) None by (auto simp: ReadSlice.simps[of delim r] rsize_def stream_def split: if_splits)
    next
      case False
      then have "ReadSlice delim (bufio_fill r) = (p, e, r')"
        using 1(2) None by (simp add: ReadSlice.simps[of delim r])
      then show ?thesis using 1(1)[OF None] False rsize_fill[of r] by fastforce
    qed
  qed
qed

lemma rsize_ReadSlice:
  "ReadSlice d r = (p, e, r') \<Longrightarrow> rsize r' \<le> rsize r \<and> (e = None \<longrightarrow> rsize r' < rsize r)"
  using rsize_ReadSlice_len[of d r p e r'] by (cases p) auto

lemma rsize_Read:
  "bufio_Read k r = (d, e, r') \<Longrightarrow> rsize r' \<le> rsize r \<and> (e = None \<longrightarrow> 0 < k \<longrightarrow> rsize r' < rsize r)"
  by (auto simp: bufio_Read_def rsize_def stream_def bufio_fill_def Let_def split: if_splits list.splits)

lemma rsize_ReadFull_loop:
  "ReadFull_loop k got r = (d, e, r') \<Longrightarrow> rsize r' \<le> rsize r \<and>
     (e = None \<longrightarrow> length got < k \<longrightarrow> rsize r' < rsize r)"
proof (induction k got r rule: ReadFull_loop.induct)
  case (1 k got r)
  obtain d0 e0 r0 where rd: "bufio_Read (k - length got) r = (d0, e0, r0)" by (cases "bufio_Read (k - length got) r")
  note le = rsize_Read[OF rd]
  show ?case
  proof (cases "k \<le> length got \<or> e0 \<noteq> None \<or> d0 = []")
    case True
    then show ?thesis
      using 1(2) rd le by (auto simp: ReadFull_loop.simps[of k got r] split: if_splits option.splits)
  next
    case False
    then have "ReadFull_loop k (got @ d0) r0 = (d, e, r')"
      using 1(2) rd by (simp add: ReadFull_loop.simps[of k got r])
    then have "rsize r' \<le> rsize r0" using 1(1)[OF _ rd[symmetric] refl] False by auto
    then show ?thesis using le False by auto
  qed
qed

section \<open>ReadLine, ReadByte, UnreadByte and Peek\<close>

text \<open>A line without its end, and whether more of it follows; a final line may lack its end.\<close>

definition bufio_ReadLine :: "bufio \<Rightarrow> string \<times> bool \<times> io_error option \<times> bufio" where
  "bufio_ReadLine b =
     (case ReadSlice (CHR 0x0A) b of
        (line, err, b') \<Rightarrow>
          if err = Some BufferFull then
            (if line \<noteq> [] \<and> last line = CHR 0x0D then
               (butlast line, True, None, b'\<lparr>bf_buf := CHR 0x0D # bf_buf b'\<rparr>)
             else (line, True, None, b'))
          else if line = [] then ([], False, err, b')
          else if last line = CHR 0x0A then
            (let l = butlast line
             in (if l \<noteq> [] \<and> last l = CHR 0x0D then butlast l else l, False, None, b'))
          else (line, False, None, b'))"

function ReadByte :: "bufio \<Rightarrow> char option \<times> io_error option \<times> bufio" where
  "ReadByte b =
     (case bf_buf b of
        c # cs \<Rightarrow> (Some c, None, b\<lparr>bf_buf := cs\<rparr>)
      | [] \<Rightarrow> if bf_src b = [] then (None, Some EOF, b) else ReadByte (bufio_fill b))"
  by pat_completeness auto
termination
  by (relation "measure pending") (auto intro!: pending_fill simp: bufio_size_def)

declare ReadByte.simps [simp del]

definition UnreadByte :: "char \<Rightarrow> bufio \<Rightarrow> bufio" where
  "UnreadByte c b = b\<lparr>bf_buf := c # bf_buf b\<rparr>"

function Peek :: "nat \<Rightarrow> bufio \<Rightarrow> string \<times> io_error option \<times> bufio" where
  "Peek n b =
     (if length (bf_buf b) < n \<and> length (bf_buf b) < bufio_size \<and> bf_src b \<noteq> [] then Peek n (bufio_fill b)
      else (take n (bf_buf b),
            if n \<le> length (bf_buf b) then None
            else if bufio_size < n then Some BufferFull else Some EOF, b))"
  by pat_completeness auto
termination
  by (relation "measure (\<lambda>(n, b). pending b)") (auto intro!: pending_fill)

declare Peek.simps [simp del]

lemma rsize_ReadLine:
  "bufio_ReadLine b = (l, cont, None, b') \<Longrightarrow> rsize b' < rsize b"
proof -
  assume rl: "bufio_ReadLine b = (l, cont, None, b')"
  obtain p e b1 where rs: "ReadSlice (CHR 0x0A) b = (p, e, b1)" by (cases "ReadSlice (CHR 0x0A) b")
  have put: "rsize (b1\<lparr>bf_buf := CHR 0x0D # bf_buf b1\<rparr>) = Suc (rsize b1)" by (simp add: rsize_def stream_def)
  note len = rsize_ReadSlice_len[OF rs]
  have "p \<noteq> []" using rl len by (auto simp: bufio_ReadLine_def rs bufio_size_def split: if_splits)
  then have lt: "rsize b1 < rsize b" using len by (cases p) auto
  have "b' = b1 \<or> e = Some BufferFull \<and> b' = b1\<lparr>bf_buf := CHR 0x0D # bf_buf b1\<rparr>"
    using rl by (auto simp: bufio_ReadLine_def rs Let_def split: if_splits)
  then show ?thesis
  proof
    assume "e = Some BufferFull \<and> b' = b1\<lparr>bf_buf := CHR 0x0D # bf_buf b1\<rparr>"
    then show ?thesis using put len by (simp add: bufio_size_def)
  qed (use lt in simp)
qed

lemma ReadLine_shrink: "bufio_ReadLine b = (l, cont, e, b') \<Longrightarrow> rsize b' \<le> rsize b"
proof -
  assume rl: "bufio_ReadLine b = (l, cont, e, b')"
  obtain p e1 b1 where rs: "ReadSlice (CHR 0x0A) b = (p, e1, b1)" by (cases "ReadSlice (CHR 0x0A) b")
  have put: "rsize (b1\<lparr>bf_buf := CHR 0x0D # bf_buf b1\<rparr>) = Suc (rsize b1)" by (simp add: rsize_def stream_def)
  have "b' = b1 \<or> e1 = Some BufferFull \<and> b' = b1\<lparr>bf_buf := CHR 0x0D # bf_buf b1\<rparr>"
    using rl by (auto simp: bufio_ReadLine_def rs Let_def split: if_splits)
  then show ?thesis using put rsize_ReadSlice_len[OF rs] by (auto simp: bufio_size_def)
qed

lemma ReadByte_stream:
  "ReadByte b = (r, e, b') \<Longrightarrow>
     (case stream b of
        [] \<Rightarrow> r = None \<and> e = Some EOF \<and> stream b' = []
      | c # s \<Rightarrow> r = Some c \<and> e = None \<and> stream b' = s) \<and> (bufio_ok b \<longrightarrow> bufio_ok b') \<and>
     (e = None \<longrightarrow> rsize b' < rsize b) \<and> rsize b' \<le> rsize b"
proof (induction b rule: ReadByte.induct)
  case (1 b)
  show ?case
  proof (cases "bf_buf b")
    case (Cons c cs)
    then show ?thesis using 1(2) by (auto simp: ReadByte.simps[of b] stream_def bufio_ok_def rsize_def)
  next
    case Nil
    show ?thesis
    proof (cases "bf_src b = []")
      case True
      then show ?thesis using 1(2) Nil by (auto simp: ReadByte.simps[of b] stream_def)
    next
      case False
      then have "ReadByte (bufio_fill b) = (r, e, b')" using 1(2) Nil by (simp add: ReadByte.simps[of b])
      then show ?thesis using 1(1)[OF Nil False] bufio_fill_ok[of b] rsize_fill[of b] by auto
    qed
  qed
qed

lemma rsize_ReadByte: "ReadByte b = (Some c, e, b') \<Longrightarrow> rsize b' < rsize b"
  using ReadByte_stream[of b "Some c" e b'] by (auto split: list.splits)

lemma stream_Unread [simp]: "stream (UnreadByte c b) = c # stream b" "rsize (UnreadByte c b) = Suc (rsize b)"
  by (simp_all add: UnreadByte_def stream_def rsize_def)

lemma stream_Peek: "Peek n b = (p, e, b') \<Longrightarrow> stream b' = stream b \<and> rsize b' \<le> rsize b \<and> (bufio_ok b \<longrightarrow> bufio_ok b')"
proof (induction n b rule: Peek.induct)
  case (1 n b)
  show ?case
  proof (cases "length (bf_buf b) < n \<and> length (bf_buf b) < bufio_size \<and> bf_src b \<noteq> []")
    case True
    then have "Peek n (bufio_fill b) = (p, e, b')" using 1(2) by (simp add: Peek.simps[of n b])
    then show ?thesis using 1(1)[OF True] rsize_fill[of b] bufio_fill_ok[of b] by auto
  next
    case False
    then show ?thesis using 1(2) by (simp add: Peek.simps[of n b] split: if_splits)
  qed
qed

end
