(* ===== verification/Go_Strconv.thy ===== *)
theory Go_Strconv
  imports Go_Prelude
begin

text \<open>
  The conversions of the package strconv that the sources call, in base 10: ParseUint, ParseInt and Atoi
  with their two errors, and Itoa.
\<close>

datatype num_error = ErrSyntax | ErrRange

definition digit :: "char \<Rightarrow> bool" where
  "digit c = (CHR ''0'' \<le> c \<and> c \<le> CHR ''9'')"

definition digit_value :: "char \<Rightarrow> nat" where
  "digit_value c = of_char c - 48"

text \<open>The loop stops at the first byte that is no digit, or at the first overflow.\<close>

fun ParseUint_loop :: "nat \<Rightarrow> nat \<Rightarrow> string \<Rightarrow> num_error + nat" where
  "ParseUint_loop bits n [] = Inr n"
| "ParseUint_loop bits n (c # s) =
     (if \<not> digit c then Inl ErrSyntax
      else if 2 ^ bits \<le> n * 10 + digit_value c then Inl ErrRange
      else ParseUint_loop bits (n * 10 + digit_value c) s)"

definition ParseUint :: "nat \<Rightarrow> string \<Rightarrow> num_error + nat" where
  "ParseUint bits s = (if s = [] then Inl ErrSyntax else ParseUint_loop bits 0 s)"

definition ParseInt :: "nat \<Rightarrow> string \<Rightarrow> num_error + int" where
  "ParseInt bits s =
     (if s = [] then Inl ErrSyntax
      else let neg = (hd s = CHR ''-'');
               body = (if hd s = CHR ''+'' \<or> hd s = CHR ''-'' then tl s else s)
           in case ParseUint 64 body of
                Inl ErrSyntax \<Rightarrow> Inl ErrSyntax
              | Inl ErrRange \<Rightarrow> Inl ErrRange
              | Inr un \<Rightarrow>
                  if \<not> neg \<and> 2 ^ (bits - 1) \<le> un then Inl ErrRange
                  else if neg \<and> 2 ^ (bits - 1) < un then Inl ErrRange
                  else Inr (if neg then - int un else int un))"

definition Atoi :: "string \<Rightarrow> num_error + int" where
  "Atoi s = ParseInt 64 s"

fun utoa :: "nat \<Rightarrow> string" where
  "utoa n = (if n < 10 then [char_of (48 + n)] else utoa (n div 10) @ [char_of (48 + n mod 10)])"

declare utoa.simps [simp del]

definition Itoa :: "int \<Rightarrow> string" where
  "Itoa i = (if i < 0 then CHR ''-'' # utoa (nat (- i)) else utoa (nat i))"

lemma digit_char: "n < 10 \<Longrightarrow> digit (char_of (48 + n :: nat)) \<and> digit_value (char_of (48 + n :: nat)) = n"
  by (simp add: digit_def digit_value_def less_eq_char_def)

lemma utoa_not_Nil [simp]: "utoa n \<noteq> []"
  by (subst utoa.simps) simp

lemma utoa_digits: "list_all digit (utoa n)"
proof (induction n rule: utoa.induct)
  case (1 n)
  then show ?case using digit_char[of n] digit_char[of "n mod 10"] by (subst utoa.simps) auto
qed

lemma ParseUint_loop_append:
  "ParseUint_loop bits n s = Inr m \<Longrightarrow> ParseUint_loop bits n (s @ t) = ParseUint_loop bits m t"
  by (induction bits n s rule: ParseUint_loop.induct) (auto split: if_splits)

lemma ParseUint_loop_utoa: "n < 2 ^ bits \<Longrightarrow> ParseUint_loop bits 0 (utoa n) = Inr n"
proof (induction n rule: utoa.induct)
  case (1 n)
  show ?case
  proof (cases "n < 10")
    case True
    then show ?thesis using 1 digit_char[of n] by (subst utoa.simps) simp
  next
    case False
    have "n div 10 < 2 ^ bits" using 1(2) by (meson div_le_dividend le_less_trans)
    then have "ParseUint_loop bits 0 (utoa (n div 10)) = Inr (n div 10)" using 1(1) False by simp
    moreover have "n div 10 * 10 + n mod 10 = n" by simp
    ultimately show ?thesis
      using 1(2) False digit_char[of "n mod 10"]
      by (subst utoa.simps) (simp add: ParseUint_loop_append)
  qed
qed

lemma ParseUint_utoa: "n < 2 ^ bits \<Longrightarrow> ParseUint bits (utoa n) = Inr n"
  by (simp add: ParseUint_def ParseUint_loop_utoa)

lemma digit_no_sign: "digit c \<Longrightarrow> c \<noteq> CHR ''+'' \<and> c \<noteq> CHR ''-''"
  by (auto simp: digit_def less_eq_char_def)

lemma Atoi_Itoa:
  assumes "- (2 ^ 63) \<le> i" and "i < 2 ^ 63"
  shows "Atoi (Itoa i) = Inr i"
proof (cases "i < 0")
  case True
  then have "nat (- i) < 2 ^ 64" "nat (- i) \<le> 2 ^ 63" using assms by auto
  then show ?thesis
    using True by (simp add: Atoi_def ParseInt_def Itoa_def ParseUint_utoa)
next
  case False
  then have n: "nat i < 2 ^ 64" "nat i < 2 ^ 63" using assms by auto
  have "digit (hd (utoa (nat i)))" using utoa_digits[of "nat i"] by (cases "utoa (nat i)") auto
  then show ?thesis
    using False n digit_no_sign[of "hd (utoa (nat i))"]
    by (simp add: Atoi_def ParseInt_def Itoa_def ParseUint_utoa)
qed

lemma ParseUint_loop_value:
  "ParseUint_loop bits n s = Inr m \<Longrightarrow> n < 2 ^ bits \<Longrightarrow>
     m < 2 ^ bits \<and> list_all digit s \<and> m = foldl (\<lambda>a c. a * 10 + digit_value c) n s"
  by (induction bits n s rule: ParseUint_loop.induct) (auto split: if_splits)

lemma ParseInt_bounds:
  assumes "ParseInt bits s = Inr i" and "0 < bits"
  shows "- (2 ^ (bits - 1)) \<le> i \<and> i < 2 ^ (bits - 1)"
proof -
  have pow: "(int u < 2 ^ (bits - 1)) = (u < 2 ^ (bits - 1))" "(int u \<le> 2 ^ (bits - 1)) = (u \<le> 2 ^ (bits - 1))" for u
    by (metis of_nat_less_iff of_nat_numeral of_nat_power) (metis of_nat_le_iff of_nat_numeral of_nat_power)
  have le: "u < 2 ^ (bits - 1) \<Longrightarrow> u \<le> (2 :: nat) ^ (bits - 1)" for u by simp
  obtain un where un: "ParseUint 64 (if hd s = CHR ''+'' \<or> hd s = CHR ''-'' then tl s else s) = Inr un"
    "if hd s = CHR ''-'' then un \<le> 2 ^ (bits - 1) \<and> i = - int un else un < 2 ^ (bits - 1) \<and> i = int un"
    using assms(1) unfolding ParseInt_def Let_def
    by (auto simp: not_le not_less split: if_splits sum.splits num_error.splits)
  have nonneg: "0 \<le> (2 :: int) ^ (bits - 1)" "0 < (2 :: int) ^ (bits - 1)" by simp_all
  show ?thesis
  proof (cases "hd s = CHR ''-''")
    case True
    then have "int un \<le> 2 ^ (bits - 1)" "i = - int un" using un(2) pow by simp_all
    then show ?thesis using nonneg by linarith
  next
    case False
    then have "int un < 2 ^ (bits - 1)" "i = int un" using un(2) pow by simp_all
    then show ?thesis using nonneg by linarith
  qed
qed

end
