(* ===== verification/Mime_Key.thy ===== *)
theory Mime_Key
  imports Ascii Multi_Store
begin

unbundle bit_operations_syntax

text \<open>
  Header keys and MIME headers (src/textproto/reader.go and src/textproto/header.go): the byte classes,
  written with the bit masks of the source, the canonical form of a key, and the operations on the map,
  which keep each key in canonical form.
\<close>

section \<open>Byte classes\<close>

text \<open>A shift of a 64-bit one by a byte: zero from 64 on.  The byte \<open>c - 64\<close> wraps.\<close>

definition shl1 :: "nat \<Rightarrow> 64 word" where
  "shl1 k = push_bit k 1"

definition byte_minus_64 :: "char \<Rightarrow> nat" where
  "byte_minus_64 c = (of_char c + 192) mod 256"

definition field_mask :: nat where
  "field_mask = push_bit 48 (2 ^ 10 - 1) OR push_bit 97 (2 ^ 26 - 1) OR push_bit 65 (2 ^ 26 - 1) OR
     fold (\<lambda>c m. m OR push_bit (of_char c) 1) (''!#$%&'' @ [CHR 0x27] @ ''*+-.^_'' @ [CHR 0x60] @ ''|~'') 0"

definition validHeaderFieldByte :: "char \<Rightarrow> bool" where
  "validHeaderFieldByte c =
     ((shl1 (of_char c) AND of_nat (field_mask AND (2 ^ 64 - 1)) OR
       shl1 (byte_minus_64 c) AND of_nat (drop_bit 64 field_mask)) \<noteq> 0)"

definition value_mask :: nat where
  "value_mask = push_bit 33 (2 ^ (127 - 33) - 1) OR push_bit 32 1 OR push_bit 9 1"

definition validHeaderValueByte :: "char \<Rightarrow> bool" where
  "validHeaderValueByte c =
     ((shl1 (of_char c) AND NOT (of_nat (value_mask AND (2 ^ 64 - 1))) OR
       shl1 (byte_minus_64 c) AND NOT (of_nat (drop_bit 64 value_mask))) = 0)"

definition isASCIILetter :: "char \<Rightarrow> bool" where
  "isASCIILetter b =
     (let b' = (char_of (of_char b OR 32 :: nat) :: char) in in_range (CHR ''a'') (CHR ''z'') b')"

section \<open>The canonical form of a key\<close>

definition upcase :: "char \<Rightarrow> char" where
  "upcase c = (if in_range (CHR ''a'') (CHR ''z'') c then char_of (of_char c - 32 :: nat) else c)"

fun canon_loop :: "bool \<Rightarrow> string \<Rightarrow> string" where
  "canon_loop upper [] = []"
| "canon_loop upper (c # cs) =
     (let c' = (if upper \<and> in_range (CHR ''a'') (CHR ''z'') c then char_of (of_char c - 32 :: nat)
                else if \<not> upper \<and> in_range (CHR ''A'') (CHR ''Z'') c then char_of (of_char c + 32 :: nat)
                else c)
      in c' # canon_loop (c' = CHR ''-'') cs)"

text \<open>
  The first loop: whether a byte is invalid, and whether there is a space.  The table of common headers
  returns the string it is asked for, so it changes nothing.
\<close>

fun canon_scan :: "bool \<Rightarrow> string \<Rightarrow> bool option" where
  "canon_scan noCanon [] = Some noCanon"
| "canon_scan noCanon (c # cs) =
     (if validHeaderFieldByte c then canon_scan noCanon cs
      else if c = CHR '' '' then canon_scan True cs
      else None)"

definition canonicalMIMEHeaderKey :: "string \<Rightarrow> string \<times> bool" where
  "canonicalMIMEHeaderKey a =
     (case canon_scan False a of
        None \<Rightarrow> (a, False)
      | Some noCanon \<Rightarrow> if noCanon then (a, True) else (canon_loop True a, True))"

fun quick_loop :: "string \<Rightarrow> bool \<Rightarrow> string \<Rightarrow> string" where
  "quick_loop s upper [] = s"
| "quick_loop s upper (c # cs) =
     (if \<not> validHeaderFieldByte c then s
      else if upper \<and> in_range (CHR ''a'') (CHR ''z'') c then fst (canonicalMIMEHeaderKey s)
      else if \<not> upper \<and> in_range (CHR ''A'') (CHR ''Z'') c then fst (canonicalMIMEHeaderKey s)
      else quick_loop s (c = CHR ''-'') cs)"

definition CanonicalMIMEHeaderKey :: "string \<Rightarrow> string" where
  "CanonicalMIMEHeaderKey s = quick_loop s True s"

section \<open>The header map\<close>

definition MIMEHeader_Add :: "string \<Rightarrow> string \<Rightarrow> multimap \<Rightarrow> multimap" where
  "MIMEHeader_Add key val h =
     (let key = CanonicalMIMEHeaderKey key in AList.update key (values_at h key @ [val]) h)"

definition MIMEHeader_Set :: "string \<Rightarrow> string \<Rightarrow> multimap \<Rightarrow> multimap" where
  "MIMEHeader_Set key val h = AList.update (CanonicalMIMEHeaderKey key) [val] h"

definition MIMEHeader_Get :: "string \<Rightarrow> multimap \<Rightarrow> string" where
  "MIMEHeader_Get key h =
     (let v = values_at h (CanonicalMIMEHeaderKey key) in if length v = 0 then [] else v ! 0)"

definition MIMEHeader_Del :: "string \<Rightarrow> multimap \<Rightarrow> multimap" where
  "MIMEHeader_Del key h = AList.delete (CanonicalMIMEHeaderKey key) h"

definition MIMEHeader_Values :: "string \<Rightarrow> multimap \<Rightarrow> string list" where
  "MIMEHeader_Values key h = values_at h (CanonicalMIMEHeaderKey key)"

interpretation mh: multi_store CanonicalMIMEHeaderKey MIMEHeader_Get MIMEHeader_Values MIMEHeader_Set
  MIMEHeader_Add MIMEHeader_Del gomap_ok
  by unfold_locales
    (auto simp: MIMEHeader_Get_def MIMEHeader_Set_def MIMEHeader_Add_def MIMEHeader_Del_def MIMEHeader_Values_def
      values_at_update values_at_delete Let_def distinct_update distinct_delete split: list.split)

section \<open>Facts on the byte classes\<close>

lemma bit_shl1: "bit (shl1 k) n \<longleftrightarrow> k = n \<and> n < 64"
  by (auto simp: shl1_def bit_simps)

lemma shl1_AND: "shl1 k AND w = 0 \<longleftrightarrow> \<not> (k < 64 \<and> bit w k)"
proof
  assume "shl1 k AND w = 0"
  then have "\<not> bit (shl1 k AND w) k" by simp
  then show "\<not> (k < 64 \<and> bit w k)" by (simp add: bit_and_iff bit_shl1)
next
  assume "\<not> (k < 64 \<and> bit w k)"
  then show "shl1 k AND w = 0" by (intro bit_eqI) (auto simp: bit_and_iff bit_shl1)
qed

lemma word_or_zero: "(a OR b = 0) = (a = 0 \<and> b = (0 :: 64 word))"
  by (metis or.right_neutral or_eq_0_iff)

lemma byte_minus_64_less: "byte_minus_64 c < 64 \<longleftrightarrow> 64 \<le> (of_char c :: nat) \<and> of_char c < (128 :: nat)"
  and byte_minus_64_eq: "64 \<le> (of_char c :: nat) \<Longrightarrow> byte_minus_64 c = of_char c - 64"
proof -
  have lt: "of_char c < (256 :: nat)" by simp
  show high: "64 \<le> (of_char c :: nat) \<Longrightarrow> byte_minus_64 c = of_char c - 64"
  proof -
    assume "64 \<le> (of_char c :: nat)"
    then have "of_char c + 192 = (of_char c - 64) + (256 :: nat)" by simp
    moreover have "(of_char c - 64) mod 256 = (of_char c - 64 :: nat)" using lt by (intro mod_less le_less_trans[OF diff_le_self])
    ultimately show ?thesis unfolding byte_minus_64_def by (simp only: mod_add_self2)
  qed
  have low: "byte_minus_64 c = of_char c + 192" if "of_char c < (64 :: nat)"
    using that by (simp add: byte_minus_64_def)
  show "byte_minus_64 c < 64 \<longleftrightarrow> 64 \<le> (of_char c :: nat) \<and> of_char c < (128 :: nat)"
    using high low by (cases "of_char c < (64 :: nat)") auto
qed

lemma low_bits: "k < 64 \<Longrightarrow> bit (of_nat (m AND (2 ^ 64 - 1)) :: 64 word) k = bit m k"
  unfolding mask_eq_exp_minus_1[symmetric] take_bit_eq_mask[symmetric]
  by (simp add: bit_of_nat_iff bit_take_bit_iff)

lemma high_bits: "64 \<le> k \<Longrightarrow> k < 128 \<Longrightarrow> bit (of_nat (drop_bit 64 m) :: 64 word) (k - 64) = bit m k"
  by (auto simp: bit_of_nat_iff bit_drop_bit_eq)

lemma validHeaderFieldByte_bit:
  "validHeaderFieldByte c \<longleftrightarrow> of_char c < (128 :: nat) \<and> bit field_mask (of_char c)"
proof -
  let ?n = "of_char c :: nat"
  show ?thesis
    unfolding validHeaderFieldByte_def word_or_zero shl1_AND byte_minus_64_less
    using low_bits[of ?n field_mask] high_bits[of ?n field_mask] byte_minus_64_eq[of c] by auto
qed

lemma validHeaderValueByte_bit:
  "validHeaderValueByte c \<longleftrightarrow> 128 \<le> (of_char c :: nat) \<or> bit value_mask (of_char c)"
proof -
  let ?n = "of_char c :: nat"
  show ?thesis
    unfolding validHeaderValueByte_def word_or_zero shl1_AND byte_minus_64_less
    using low_bits[of ?n value_mask] high_bits[of ?n value_mask] byte_minus_64_eq[of c]
    by (auto simp: bit_not_iff)
qed

lemma bits_run: "bit (push_bit a (2 ^ k - 1) :: nat) n \<longleftrightarrow> a \<le> n \<and> n < a + k"
  unfolding mask_eq_exp_minus_1[symmetric] by (auto simp: bit_push_bit_iff bit_mask_iff)

lemma bits_one: "bit (push_bit a 1 :: nat) n \<longleftrightarrow> n = a"
  using bits_run[of a 1 n] by auto

lemma bits_fold: "bit (fold (\<lambda>c m. m OR push_bit (of_char c) 1) cs (m :: nat)) n \<longleftrightarrow> bit m n \<or> n \<in> of_char ` set cs"
proof (induction cs arbitrary: m)
  case (Cons c cs)
  have eq: "fold (\<lambda>c m. m OR push_bit (of_char c) 1) (c # cs) m =
      fold (\<lambda>c m. m OR push_bit (of_char c) 1) cs (m OR push_bit (of_char c) 1)" by (rule fold_simps)
  show ?case unfolding eq Cons.IH bit_or_iff bits_one by auto
qed simp

definition token_byte :: "char \<Rightarrow> bool" where
  "token_byte c = (in_range (CHR ''0'') (CHR ''9'') c \<or> in_range (CHR ''a'') (CHR ''z'') c \<or>
     in_range (CHR ''A'') (CHR ''Z'') c \<or>
     c \<in> set (''!#$%&'' @ [CHR 0x27] @ ''*+-.^_'' @ [CHR 0x60] @ ''|~''))"

lemma of_char_image: "(of_char c :: nat) \<in> of_char ` set cs \<longleftrightarrow> c \<in> set cs"
  by (auto simp: image_iff)

lemma validHeaderFieldByte_token: "validHeaderFieldByte c = token_byte c"
proof -
  let ?n = "of_char c :: nat"
  let ?S = "''!#$%&'' @ [CHR 0x27] @ ''*+-.^_'' @ [CHR 0x60] @ ''|~''"
  have S: "?n < 128" if "c \<in> set ?S"
  proof -
    have "list_all (\<lambda>c. (of_char c :: nat) < 128) ?S" by simp
    then show ?thesis using that unfolding list_all_iff by blast
  qed
  have "validHeaderFieldByte c \<longleftrightarrow> ?n < 128 \<and> ((48 \<le> ?n \<and> ?n < 58) \<or> (97 \<le> ?n \<and> ?n < 123) \<or>
      (65 \<le> ?n \<and> ?n < 91) \<or> c \<in> set ?S)"
    unfolding validHeaderFieldByte_bit field_mask_def bit_or_iff bits_run bits_fold of_char_image
    by (simp del: set_append list.set)
  then show ?thesis
    unfolding token_byte_def using S by (auto simp: less_eq_char_def simp del: set_append list.set)
qed

lemma validHeaderValueByte_iff: "validHeaderValueByte c \<longleftrightarrow> c = CHR 0x09 \<or> CHR '' '' \<le> c \<and> c \<noteq> CHR 0x7F"
proof -
  let ?n = "of_char c :: nat"
  have "validHeaderValueByte c \<longleftrightarrow> 128 \<le> ?n \<or> (33 \<le> ?n \<and> ?n < 127) \<or> ?n = 32 \<or> ?n = 9"
    unfolding validHeaderValueByte_bit value_mask_def bit_or_iff bits_run bits_one by auto
  moreover have "?n = of_char (CHR 0x09) \<longleftrightarrow> c = CHR 0x09" "?n = of_char (CHR 0x7F) \<longleftrightarrow> c = CHR 0x7F"
    by (simp_all only: of_char_eq_iff)
  ultimately show ?thesis by (auto simp: less_eq_char_def)
qed

section \<open>Facts on canonical keys\<close>

abbreviation token :: "string \<Rightarrow> bool" where
  "token s \<equiv> list_all validHeaderFieldByte s"

definition lowercase :: "char \<Rightarrow> bool" where
  "lowercase c = (in_range (CHR ''a'') (CHR ''z'') c)"

definition uppercase :: "char \<Rightarrow> bool" where
  "uppercase c = (in_range (CHR ''A'') (CHR ''Z'') c)"

definition to_upper :: "char \<Rightarrow> char" where
  "to_upper c = (if lowercase c then char_of (of_char c - 32 :: nat) else c)"

lemma case_bytes:
  "lowercase c \<Longrightarrow> uppercase (char_of (of_char c - 32 :: nat))"
  "lowercase c \<Longrightarrow> char_of (of_char (char_of (of_char c - 32 :: nat) :: char) + 32 :: nat) = c"
  "uppercase c \<Longrightarrow> lowercase (char_of (of_char c + 32 :: nat))"
  "uppercase c \<Longrightarrow> char_of (of_char (char_of (of_char c + 32 :: nat) :: char) - 32 :: nat) = c"
  "lowercase c \<Longrightarrow> \<not> uppercase c"
  by (auto simp: lowercase_def uppercase_def less_eq_char_def)

lemma lower_cases: "lower c = (if uppercase c then char_of (of_char c + 32 :: nat) else c)"
  by (simp add: lower_def uppercase_def)

lemma canon_loop_Cons:
  "canon_loop upper (c # cs) =
     (let c' = (if upper then to_upper c else lower c) in c' # canon_loop (c' = CHR ''-'') cs)"
  by (auto simp: to_upper_def lower_def lowercase_def Let_def)

declare canon_loop.simps(2) [simp del]

lemma to_upper_lower [simp]: "to_upper (to_upper c) = to_upper c" "to_upper (lower c) = to_upper c"
  "lower (to_upper c) = lower c"
  using case_bytes[of c] case_bytes(5)[of "char_of (of_char c - 32 :: nat)"]
    case_bytes(5)[of "char_of (of_char c + 32 :: nat)"]
  by (auto simp only: to_upper_def lower_cases if_True if_False split: if_split)

lemma dash_case: "to_upper c = CHR ''-'' \<longleftrightarrow> c = CHR ''-''" "lower c = CHR ''-'' \<longleftrightarrow> c = CHR ''-''"
  by (auto simp: to_upper_def lower_cases lowercase_def uppercase_def less_eq_char_def
      dest!: arg_cong[where f = "of_char :: char \<Rightarrow> nat"])

lemma canon_loop_lower: "canon_loop upper (map lower s) = canon_loop upper s"
proof (induction s arbitrary: upper)
  case (Cons c s)
  then show ?case by (simp add: canon_loop_Cons Let_def dash_case)
qed simp

lemma lower_canon_loop: "map lower (canon_loop upper s) = map lower s"
proof (induction s arbitrary: upper)
  case (Cons c s)
  then show ?case by (simp add: canon_loop_Cons Let_def)
qed simp

lemma canon_loop_idem: "canon_loop upper (canon_loop upper s) = canon_loop upper s"
  by (metis canon_loop_lower lower_canon_loop)

lemma token_byte_case: "token_byte (to_upper c) = token_byte c" "token_byte (lower c) = token_byte c"
proof -
  have l: "token_byte c" if "lowercase c \<or> uppercase c" for c
    using that by (auto simp: token_byte_def lowercase_def uppercase_def)
  show "token_byte (to_upper c) = token_byte c" "token_byte (lower c) = token_byte c"
    using l case_bytes[of c] by (auto simp: to_upper_def lower_cases)
qed

lemma token_canon_loop: "token (canon_loop upper s) = token s"
proof (induction s arbitrary: upper)
  case (Cons c s)
  then show ?case by (simp add: canon_loop_Cons Let_def validHeaderFieldByte_token token_byte_case)
qed simp

lemma canon_scan_token: "token s \<Longrightarrow> canon_scan b s = Some b"
  by (induction s) auto

lemma canonicalMIMEHeaderKey_token: "token s \<Longrightarrow> canonicalMIMEHeaderKey s = (canon_loop True s, True)"
  by (simp add: canonicalMIMEHeaderKey_def canon_scan_token)

lemma quick_loop_token:
  "token s \<Longrightarrow> token t \<Longrightarrow> (canon_loop upper t = t \<Longrightarrow> canon_loop True s = s) \<Longrightarrow>
     quick_loop s upper t = canon_loop True s"
proof (induction t arbitrary: upper)
  case (Cons c t)
  show ?case
  proof (cases "upper \<and> lowercase c \<or> \<not> upper \<and> uppercase c")
    case True
    then show ?thesis
      using Cons.prems by (auto simp: canonicalMIMEHeaderKey_token lowercase_def uppercase_def)
  next
    case False
    then have same: "(if upper then to_upper c else lower c) = c" by (auto simp: to_upper_def lower_cases)
    have "quick_loop s upper (c # t) = quick_loop s (c = CHR ''-'') t"
      using Cons.prems(2) False by (auto simp: lowercase_def uppercase_def)
    moreover have "canon_loop upper (c # t) = c # canon_loop (c = CHR ''-'') t"
      using same by (simp add: canon_loop_Cons Let_def)
    ultimately show ?thesis using Cons.IH[of "c = CHR ''-''"] Cons.prems by auto
  qed
qed simp

lemma CanonicalMIMEHeaderKey_token: "token s \<Longrightarrow> CanonicalMIMEHeaderKey s = canon_loop True s"
  unfolding CanonicalMIMEHeaderKey_def by (rule quick_loop_token) simp_all

lemma CanonicalMIMEHeaderKey_other: "\<not> token s \<Longrightarrow> CanonicalMIMEHeaderKey s = s"
proof -
  assume s: "\<not> token s"
  have scan: "canon_scan b t \<noteq> Some False" if "\<not> token t" for b t
    using that
  proof (induction t arbitrary: b)
    case (Cons c t)
    have "canon_scan True u \<noteq> Some False" for u by (induction u) auto
    then show ?case using Cons by auto
  qed simp
  have "fst (canonicalMIMEHeaderKey s) = s"
    using scan[OF s, of False] by (auto simp: canonicalMIMEHeaderKey_def split: option.split)
  then have "quick_loop s upper t = s" for upper t by (induction t arbitrary: upper) auto
  then show ?thesis by (simp add: CanonicalMIMEHeaderKey_def)
qed

lemma CanonicalMIMEHeaderKey_idem [simp]:
  "CanonicalMIMEHeaderKey (CanonicalMIMEHeaderKey s) = CanonicalMIMEHeaderKey s"
  by (cases "token s")
    (simp_all add: CanonicalMIMEHeaderKey_token CanonicalMIMEHeaderKey_other token_canon_loop canon_loop_idem)

lemma CanonicalMIMEHeaderKey_eq_iff:
  assumes "token s" and "token t"
  shows "CanonicalMIMEHeaderKey s = CanonicalMIMEHeaderKey t \<longleftrightarrow> EqualFold s t"
  unfolding EqualFold_iff CanonicalMIMEHeaderKey_token[OF assms(1)] CanonicalMIMEHeaderKey_token[OF assms(2)]
  by (metis canon_loop_lower lower_canon_loop)

section \<open>Properties\<close>

text \<open>C25: Two header names that are tokens have the same canonical form exactly when they differ in the case
  of letters only; the canonical form is canonical; and a name that is not a token stays as it is.\<close>

theorem canonical_key_folds_case:
  "(token s \<and> token t \<longrightarrow> (CanonicalMIMEHeaderKey s = CanonicalMIMEHeaderKey t \<longleftrightarrow> EqualFold s t)) \<and>
   CanonicalMIMEHeaderKey (CanonicalMIMEHeaderKey s) = CanonicalMIMEHeaderKey s \<and>
   (\<not> token s \<longrightarrow> CanonicalMIMEHeaderKey s = s)"
  using CanonicalMIMEHeaderKey_eq_iff CanonicalMIMEHeaderKey_idem CanonicalMIMEHeaderKey_other by blast

lemma canonical_key_folds_case_witness:
  "CanonicalMIMEHeaderKey ''content-TYPE'' = CanonicalMIMEHeaderKey ''Content-type''"
proof -
  have "list_all token_byte ''content-TYPE''" "list_all token_byte ''Content-type''"
    "EqualFold ''content-TYPE'' ''Content-type''"
    by code_simp+
  then have "token ''content-TYPE''" "token ''Content-type''" "EqualFold ''content-TYPE'' ''Content-type''"
    by (simp_all only: validHeaderFieldByte_token[abs_def])
  then show ?thesis using canonical_key_folds_case[of "''content-TYPE''" "''Content-type''"] by blast
qed

text \<open>The bit masks of validHeaderFieldByte and validHeaderValueByte, with their shifts at 64 bits, hold
  exactly the token bytes of RFC 7230 and the bytes that a field value may hold.\<close>

theorem header_byte_masks:
  "validHeaderFieldByte c = token_byte c \<and>
   (validHeaderValueByte c \<longleftrightarrow> c = CHR 0x09 \<or> CHR '' '' \<le> c \<and> c \<noteq> CHR 0x7F)"
  by (intro conjI validHeaderFieldByte_token validHeaderValueByte_iff)

end
