(* ===== verification/Textproto.thy ===== *)
theory Textproto
  imports Go_Bufio Go_Strconv Mime_Key
begin

text \<open>
  The text protocol reader (src/textproto/reader.go): lines and continued lines, response codes, the
  decoder of dot-encoded blocks with its state machine, and the MIME header.  The reusable buffer of the
  reader and the preallocated slice of ReadMIMEHeader hold no information and are left out.
\<close>

text \<open>
  The errors: one of the reader below, a protocol error with its text (the one that quotes a line has
  the line), a numeric answer of the server, or another message.
\<close>

datatype tp_error =
  TpIo io_error
| ProtocolError string
| MissingColon string
| NumericError int string
| TpMsg string

section \<open>The dot decoder\<close>

datatype dot_state = BeginLine | Dot | DotCR | CR | Data | DotEOF

text \<open>
  One byte: the next state, the byte written to the caller's slice if any, and whether the byte read is
  put back.
\<close>

definition dot_step :: "dot_state \<Rightarrow> char \<Rightarrow> dot_state \<times> char option \<times> bool" where
  "dot_step st c =
     (case st of
        BeginLine \<Rightarrow>
          if c = CHR ''.'' then (Dot, None, False)
          else if c = CHR 0x0D then (CR, None, False)
          else (Data, Some c, False)
      | Dot \<Rightarrow>
          if c = CHR 0x0D then (DotCR, None, False)
          else if c = CHR 0x0A then (DotEOF, None, False)
          else (Data, Some c, False)
      | DotCR \<Rightarrow>
          if c = CHR 0x0A then (DotEOF, None, False) else (Data, Some (CHR 0x0D), True)
      | CR \<Rightarrow>
          if c = CHR 0x0A then (BeginLine, Some c, False) else (Data, Some (CHR 0x0D), True)
      | Data \<Rightarrow>
          if c = CHR 0x0D then (CR, None, False)
          else if c = CHR 0x0A then (BeginLine, Some c, False)
          else (Data, Some c, False)
      | DotEOF \<Rightarrow> (DotEOF, Some c, False))"

lemma dot_step_progress:
  "dot_step st c = (st', None, u) \<Longrightarrow> \<not> u"
  by (auto simp: dot_step_def split: dot_state.splits if_splits)

function dot_loop ::
  "nat \<Rightarrow> dot_state \<Rightarrow> bufio \<Rightarrow> string \<Rightarrow> string \<times> io_error option \<times> dot_state \<times> bufio" where
  "dot_loop k st b got =
     (if k = 0 \<or> st = DotEOF then (got, None, st, b)
      else case ReadByte b of
        (None, err, b') \<Rightarrow> (got, if err = Some EOF then Some UnexpectedEOF else err, st, b')
      | (Some c, _, b') \<Rightarrow>
          (case dot_step st c of
             (st', out, unread) \<Rightarrow>
               (let b'' = (if unread then UnreadByte c b' else b')
                in case out of
                     None \<Rightarrow> dot_loop k st' b'' got
                   | Some d \<Rightarrow> dot_loop (k - 1) st' b'' (got @ [d]))))"
  by pat_completeness auto
termination
  by (relation "measures [\<lambda>(k, st, b, got). k, \<lambda>(k, st, b, got). rsize b]")
    (auto dest!: sym[of _ "ReadByte _"] sym[of _ "dot_step _ _"] dest: rsize_ReadByte dot_step_progress)

declare dot_loop.simps [simp del]

text \<open>Read of the decoder into \<open>k\<close> bytes; with an error, the reader forgets the decoder.\<close>

definition dot_Read :: "nat \<Rightarrow> dot_state \<Rightarrow> bufio \<Rightarrow> string \<times> io_error option \<times> dot_state \<times> bufio" where
  "dot_Read k st b =
     (case dot_loop k st b [] of
        (got, err, st', b') \<Rightarrow> (got, if err = None \<and> st' = DotEOF then Some EOF else err, st', b'))"

text \<open>A carriage return that was read and not yet written is a byte that a later step writes.\<close>

definition saved :: "dot_state \<Rightarrow> nat" where
  "saved st = (if st = CR \<or> st = DotCR then 1 else 0)"

lemma dot_loop_size:
  "dot_loop k st b got = (got', e, st', b') \<Longrightarrow>
     length got' + rsize b' \<le> length got + rsize b + saved st \<and>
     (e = None \<longrightarrow> st' \<noteq> DotEOF \<longrightarrow> length got' = length got + k)"
proof (induction k st b got rule: dot_loop.induct)
  case (1 k st b got)
  show ?case
  proof (cases "k = 0 \<or> st = DotEOF")
    case True
    then show ?thesis using 1(3) by (auto simp: dot_loop.simps[of k st b got])
  next
    case False
    obtain r e1 b1 where rb: "ReadByte b = (r, e1, b1)" by (cases "ReadByte b")
    note sz = ReadByte_stream[OF rb]
    show ?thesis
    proof (cases r)
      case None
      then have "e1 \<noteq> None" using sz by (auto split: list.splits)
      then show ?thesis using 1(3) False rb None sz by (auto simp: dot_loop.simps[of k st b got])
    next
      case (Some c)
      then have e1: "e1 = None" using sz by (auto split: list.splits)
      obtain st1 out u where ds: "dot_step st c = (st1, out, u)" by (cases "dot_step st c")
      let ?b2 = "if u then UnreadByte c b1 else b1"
      have size: "rsize ?b2 + saved st1 + (if out = None then 0 else 1) \<le> rsize b + saved st"
        using ds sz e1
        by (auto simp: dot_step_def saved_def split: dot_state.splits if_splits)
      show ?thesis
      proof (cases out)
        case None
        then have "dot_loop k st1 ?b2 got = (got', e, st', b')"
          using 1(3) False rb Some ds by (simp add: dot_loop.simps[of k st b got] Let_def)
        then show ?thesis using 1(1)[OF False rb[symmetric] Some refl ds[symmetric] refl refl None] size None by auto
      next
        case (Some d)
        then have "dot_loop (k - 1) st1 ?b2 (got @ [d]) = (got', e, st', b')"
          using 1(3) False rb \<open>r = Some c\<close> ds by (simp add: dot_loop.simps[of k st b got] Let_def)
        then show ?thesis
          using 1(2)[OF False rb[symmetric] \<open>r = Some c\<close> refl ds[symmetric] refl refl Some] size Some False by auto
      qed
    qed
  qed
qed

lemma dot_Read_size: "dot_Read 128 st b = (got, None, st', b') \<Longrightarrow> rsize b' < rsize b"
proof -
  assume rd: "dot_Read 128 st b = (got, None, st', b')"
  then have "dot_loop 128 st b [] = (got, None, st', b')" "st' \<noteq> DotEOF"
    by (auto simp: dot_Read_def split: prod.splits if_splits)
  then show ?thesis using dot_loop_size[of 128 st b "[]" got None st' b'] by (auto simp: saved_def split: if_splits)
qed

lemma dot_loop_shrink: "dot_loop k st b got = (got', e, st', b') \<Longrightarrow> rsize b' \<le> rsize b"
proof (induction k st b got rule: dot_loop.induct)
  case (1 k st b got)
  show ?case
  proof (cases "k = 0 \<or> st = DotEOF")
    case True
    then show ?thesis using 1(3) by (auto simp: dot_loop.simps[of k st b got])
  next
    case False
    obtain r e1 b1 where rb: "ReadByte b = (r, e1, b1)" by (cases "ReadByte b")
    show ?thesis
    proof (cases r)
      case None
      then show ?thesis
        using 1(3) False rb ReadByte_stream[OF rb] by (auto simp: dot_loop.simps[of k st b got])
    next
      case (Some c)
      obtain st1 out u where ds: "dot_step st c = (st1, out, u)" by (cases "dot_step st c")
      let ?b2 = "if u then UnreadByte c b1 else b1"
      have size: "rsize ?b2 \<le> rsize b" using rsize_ReadByte[OF rb[unfolded Some]] by auto
      show ?thesis
      proof (cases out)
        case None
        then have "dot_loop k st1 ?b2 got = (got', e, st', b')"
          using 1(3) False rb Some ds by (simp add: dot_loop.simps[of k st b got] Let_def)
        then show ?thesis using 1(1)[OF False rb[symmetric] Some refl ds[symmetric] refl refl None] size by simp
      next
        case out: (Some d)
        then have "dot_loop (k - 1) st1 ?b2 (got @ [d]) = (got', e, st', b')"
          using 1(3) False rb Some ds by (simp add: dot_loop.simps[of k st b got] Let_def)
        then show ?thesis using 1(2)[OF False rb[symmetric] Some refl ds[symmetric] refl refl out] size by simp
      qed
    qed
  qed
qed

section \<open>Lines\<close>

record Reader =
  rd_R :: bufio
  rd_dot :: "dot_state option"

definition NewReader :: "bufio \<Rightarrow> Reader" where
  "NewReader b = \<lparr>rd_R = b, rd_dot = None\<rparr>"

function closeDot_loop :: "dot_state \<Rightarrow> bufio \<Rightarrow> bufio" where
  "closeDot_loop st b =
     (case dot_Read 128 st b of
        (_, Some _, _, b') \<Rightarrow> b'
      | (_, None, st', b') \<Rightarrow> closeDot_loop st' b')"
  by pat_completeness auto
termination
  by (relation "measure (\<lambda>(st, b). rsize b)") (auto dest!: sym[of _ "dot_Read _ _ _"] intro: dot_Read_size)

declare closeDot_loop.simps [simp del]

definition closeDot :: "Reader \<Rightarrow> Reader" where
  "closeDot r =
     (case rd_dot r of
        None \<Rightarrow> r
      | Some st \<Rightarrow> r\<lparr>rd_R := closeDot_loop st (rd_R r), rd_dot := None\<rparr>)"

definition DotReader :: "Reader \<Rightarrow> Reader" where
  "DotReader r = (closeDot r)\<lparr>rd_dot := Some BeginLine\<rparr>"

function readLineSlice_loop :: "string \<Rightarrow> bufio \<Rightarrow> (io_error + string) \<times> bufio" where
  "readLineSlice_loop line b =
     (case bufio_ReadLine b of
        (_, _, Some err, b') \<Rightarrow> (Inl err, b')
      | (l, cont, None, b') \<Rightarrow>
          if cont then readLineSlice_loop (line @ l) b' else (Inr (line @ l), b'))"
  by pat_completeness auto
termination
  by (relation "measure (\<lambda>(l, b). rsize b)") (auto intro!: rsize_ReadLine dest!: sym[of _ "bufio_ReadLine _"])

declare readLineSlice_loop.simps [simp del]

definition readLineSlice :: "Reader \<Rightarrow> (io_error + string) \<times> Reader" where
  "readLineSlice r0 =
     (let r = closeDot r0
      in case readLineSlice_loop [] (rd_R r) of (res, b) \<Rightarrow> (res, r\<lparr>rd_R := b\<rparr>))"

definition ReadLine :: "Reader \<Rightarrow> (io_error + string) \<times> Reader" where
  "ReadLine r = readLineSlice r"

definition trim :: "string \<Rightarrow> string" where
  "trim s =
     (let blank = (\<lambda>c. c = CHR '' '' \<or> c = CHR 0x09)
      in trim_right_by blank (trim_left_by blank s))"

function skipSpace_loop :: "nat \<Rightarrow> bufio \<Rightarrow> nat \<times> bufio" where
  "skipSpace_loop n b =
     (case ReadByte b of
        (None, _, b') \<Rightarrow> (n, b')
      | (Some c, _, b') \<Rightarrow>
          if c \<noteq> CHR '' '' \<and> c \<noteq> CHR 0x09 then (n, UnreadByte c b') else skipSpace_loop (Suc n) b')"
  by pat_completeness auto
termination
  by (relation "measure (\<lambda>(n, b). rsize b)") (auto dest!: sym[of _ "ReadByte _"] dest: rsize_ReadByte)

declare skipSpace_loop.simps [simp del]

lemma rsize_skipSpace: "skipSpace_loop n b = (m, b') \<Longrightarrow> rsize b' \<le> rsize b \<and> n \<le> m \<and> (n < m \<longrightarrow> rsize b' < rsize b)"
proof (induction n b rule: skipSpace_loop.induct)
  case (1 n b)
  obtain r e b1 where rb: "ReadByte b = (r, e, b1)" by (cases "ReadByte b")
  note sz = ReadByte_stream[OF rb]
  show ?case
  proof (cases r)
    case None
    then show ?thesis using 1(2) rb sz by (auto simp: skipSpace_loop.simps[of n b] split: list.splits)
  next
    case (Some c)
    then have "rsize b1 < rsize b" using sz by (auto split: list.splits)
    then show ?thesis
      using 1(2) rb Some 1(1)[OF rb[symmetric] Some]
      by (auto simp: skipSpace_loop.simps[of n b] split: if_splits)
  qed
qed

definition skipSpace :: "bufio \<Rightarrow> nat \<times> bufio" where
  "skipSpace b = skipSpace_loop 0 b"

lemma rsize_readLine_loop: "readLineSlice_loop l b = (Inr s, b') \<Longrightarrow> rsize b' < rsize b"
proof (induction l b rule: readLineSlice_loop.induct)
  case (1 line b)
  obtain l cont e b1 where rl: "bufio_ReadLine b = (l, cont, e, b1)" by (cases "bufio_ReadLine b")
  show ?case
  proof (cases e)
    case None
    then have lt: "rsize b1 < rsize b" using rsize_ReadLine rl by blast
    show ?thesis
    proof (cases cont)
      case True
      then have "readLineSlice_loop (line @ l) b1 = (Inr s, b')"
        using 1(2) rl None by (subst (asm) readLineSlice_loop.simps) simp
      then show ?thesis using 1(1)[OF rl[symmetric] refl refl None True] lt by simp
    next
      case False
      then show ?thesis using 1(2) rl None lt by (subst (asm) readLineSlice_loop.simps) simp
    qed
  next
    case (Some err)
    then show ?thesis using 1(2) rl by (subst (asm) readLineSlice_loop.simps) simp
  qed
qed

lemma readLine_loop_shrink: "readLineSlice_loop l b = (res, b') \<Longrightarrow> rsize b' \<le> rsize b"
proof (induction l b rule: readLineSlice_loop.induct)
  case (1 line b)
  obtain l cont e b1 where rl: "bufio_ReadLine b = (l, cont, e, b1)" by (cases "bufio_ReadLine b")
  then have le: "rsize b1 \<le> rsize b" by (rule ReadLine_shrink)
  show ?case
  proof (cases "e = None \<and> cont")
    case True
    then have "readLineSlice_loop (line @ l) b1 = (res, b')"
      using 1(2) rl by (subst (asm) readLineSlice_loop.simps) simp
    then show ?thesis using 1(1)[OF rl[symmetric] refl refl] True le by simp
  next
    case False
    then show ?thesis using 1(2) rl le by (subst (asm) readLineSlice_loop.simps) (auto split: option.splits)
  qed
qed

text \<open>The continuation lines: as long as a line starts with a blank, it is read and appended.\<close>

function continued_loop :: "string \<Rightarrow> bufio \<Rightarrow> string \<times> bufio" where
  "continued_loop buf b =
     (case skipSpace b of
        (n, b1) \<Rightarrow>
          if 0 < n then
            (case readLineSlice_loop [] b1 of
               (Inl err, b2) \<Rightarrow> (buf, b2)
             | (Inr line, b2) \<Rightarrow> continued_loop (buf @ '' '' @ trim line) b2)
          else (buf, b1))"
  by pat_completeness auto
termination
  by (relation "measure (\<lambda>(buf, b). rsize b)")
    (auto simp: skipSpace_def dest!: sym[of _ "skipSpace_loop _ _"] sym[of _ "readLineSlice_loop _ _"]
      dest!: rsize_skipSpace rsize_readLine_loop)

declare continued_loop.simps [simp del]

text \<open>
  readContinuedLineSlice: the line (nil, that is empty, with an error), the error, and the reader.  The
  first argument is the validation, None where it accepts the line.
\<close>

definition readContinuedLineSlice ::
  "(string \<Rightarrow> tp_error option) \<Rightarrow> Reader \<Rightarrow> string \<times> tp_error option \<times> Reader" where
  "readContinuedLineSlice validateFirstLine r =
     (case readLineSlice r of
        (Inl err, r1) \<Rightarrow> ([], Some (TpIo err), r1)
      | (Inr line, r1) \<Rightarrow>
          if length line = 0 then (line, None, r1)
          else (case validateFirstLine line of
                  Some err \<Rightarrow> ([], Some err, r1)
                | None \<Rightarrow>
                    (let b = rd_R r1;
                         (peek, b1) = (if 1 < Buffered b then (case Peek 2 b of (p, _, b') \<Rightarrow> (p, b')) else ([], b))
                     in if 0 < length peek \<and> (isASCIILetter (peek ! 0) \<or> peek ! 0 = CHR 0x0A) \<or>
                           length peek = 2 \<and> peek ! 0 = CHR 0x0D \<and> peek ! 1 = CHR 0x0A
                        then (trim line, None, r1\<lparr>rd_R := b1\<rparr>)
                        else (case continued_loop (trim line) b1 of
                                (buf, b2) \<Rightarrow> (buf, None, r1\<lparr>rd_R := b2\<rparr>)))))"

definition noValidation :: "string \<Rightarrow> tp_error option" where
  "noValidation l = None"

definition mustHaveFieldNameColon :: "string \<Rightarrow> tp_error option" where
  "mustHaveFieldNameColon line =
     (if index_byte (CHR '':'') line = None then Some (MissingColon line) else None)"

definition ReadContinuedLine :: "Reader \<Rightarrow> string \<times> tp_error option \<times> Reader" where
  "ReadContinuedLine r = readContinuedLineSlice noValidation r"

section \<open>Response codes\<close>

text \<open>The code, whether it continues, the message and the error; the first three may come with an error.\<close>

definition parseCodeLine :: "string \<Rightarrow> int \<Rightarrow> int \<times> bool \<times> string \<times> tp_error option" where
  "parseCodeLine line expectCode =
     (if length line < 4 \<or> line ! 3 \<noteq> CHR '' '' \<and> line ! 3 \<noteq> CHR ''-'' then
        (0, False, [], Some (ProtocolError (''short response: '' @ line)))
      else
        (let continued = (line ! 3 = CHR ''-'')
         in case Atoi (take 3 line) of
              Inl _ \<Rightarrow> (0, continued, [], Some (ProtocolError (''invalid response code: '' @ line)))
            | Inr code \<Rightarrow>
                if code < 100 then
                  (code, continued, [], Some (ProtocolError (''invalid response code: '' @ line)))
                else
                  (let message = drop 4 line
                   in (code, continued, message,
                       if 1 \<le> expectCode \<and> expectCode < 10 \<and> code div 100 \<noteq> expectCode \<or>
                          10 \<le> expectCode \<and> expectCode < 100 \<and> code div 10 \<noteq> expectCode \<or>
                          100 \<le> expectCode \<and> expectCode < 1000 \<and> code \<noteq> expectCode
                       then Some (NumericError code message) else None))))"

definition readCodeLine :: "int \<Rightarrow> Reader \<Rightarrow> (int \<times> bool \<times> string \<times> tp_error option) \<times> Reader" where
  "readCodeLine expectCode r =
     (case ReadLine r of
        (Inl err, r1) \<Rightarrow> ((0, False, [], Some (TpIo err)), r1)
      | (Inr line, r1) \<Rightarrow> (parseCodeLine line expectCode, r1))"

definition ReadCodeLine :: "int \<Rightarrow> Reader \<Rightarrow> (int \<times> string \<times> tp_error option) \<times> Reader" where
  "ReadCodeLine expectCode r =
     (case readCodeLine expectCode r of
        ((code, continued, message, err), r1) \<Rightarrow>
          ((code, message,
            if err = None \<and> continued then
              Some (ProtocolError (''unexpected multi-line response: '' @ message))
            else err), r1))"

lemma rsize_ReadLine_ok:
  "readLineSlice r = (Inr l, r') \<Longrightarrow> rd_dot r = None \<Longrightarrow> rsize (rd_R r') < rsize (rd_R r) \<and> rd_dot r' = None"
  using rsize_readLine_loop[of "[]" "rd_R r"]
  by (auto simp: readLineSlice_def closeDot_def Let_def split: prod.splits)

lemma closeDot_dot [simp]: "rd_dot (closeDot r) = None"
  by (auto simp: closeDot_def split: option.split)

text \<open>
  The loop of ReadResponse over the lines after the first; an error of the reader ends the call with
  code 0 and no message.
\<close>

function response_loop ::
  "int \<Rightarrow> string \<Rightarrow> bufio \<Rightarrow> (io_error + string) \<times> bufio" where
  "response_loop code message b =
     (case readLineSlice_loop [] b of
        (Inl err, b1) \<Rightarrow> (Inl err, b1)
      | (Inr line, b1) \<Rightarrow>
          (case parseCodeLine line 0 of
             (code2, continued, moreMessage, err) \<Rightarrow>
               if err \<noteq> None \<or> code2 \<noteq> code then
                 response_loop code
                   (message @ [CHR 0x0A] @ trim_right_by (\<lambda>c. c = CHR 0x0D \<or> c = CHR 0x0A) line) b1
               else if continued then response_loop code (message @ [CHR 0x0A] @ moreMessage) b1
               else (Inr (message @ [CHR 0x0A] @ moreMessage), b1)))"
  by pat_completeness auto
termination
  by (relation "measure (\<lambda>(c, m, b). rsize b)")
    (auto dest!: sym[of _ "readLineSlice_loop _ _"] rsize_readLine_loop)

declare response_loop.simps [simp del]

definition ReadResponse :: "int \<Rightarrow> Reader \<Rightarrow> (int \<times> string \<times> tp_error option) \<times> Reader" where
  "ReadResponse expectCode r =
     (case readCodeLine expectCode r of
        ((code, continued, message, err), r1) \<Rightarrow>
          if continued then
            (case response_loop code message (rd_R r1) of
               (Inl e, b) \<Rightarrow> ((0, [], Some (TpIo e)), r1\<lparr>rd_R := b\<rparr>)
             | (Inr message', b) \<Rightarrow>
                 ((code, message',
                   if err \<noteq> None \<and> message' \<noteq> [] then Some (NumericError code message') else err),
                  r1\<lparr>rd_R := b\<rparr>))
          else ((code, message, err), r1))"

section \<open>Dot-encoded lines\<close>

text \<open>The loop of ReadDotLines, with the error that ends it; a line that is a dot ends it well.\<close>

function dotLines_loop :: "string list \<Rightarrow> bufio \<Rightarrow> (string list \<times> io_error option) \<times> bufio" where
  "dotLines_loop v b =
     (case readLineSlice_loop [] b of
        (Inl err, b1) \<Rightarrow> ((v, Some (if err = EOF then UnexpectedEOF else err)), b1)
      | (Inr line, b1) \<Rightarrow>
          if 0 < length line \<and> line ! 0 = CHR ''.'' then
            (if length line = 1 then ((v, None), b1) else dotLines_loop (v @ [tl line]) b1)
          else dotLines_loop (v @ [line]) b1)"
  by pat_completeness auto
termination
  by (relation "measure (\<lambda>(v, b). rsize b)")
    (auto dest!: sym[of _ "readLineSlice_loop _ _"] rsize_readLine_loop)

declare dotLines_loop.simps [simp del]

definition ReadDotLines :: "Reader \<Rightarrow> (string list \<times> io_error option) \<times> Reader" where
  "ReadDotLines r0 =
     (let r = closeDot r0
      in case dotLines_loop [] (rd_R r) of (res, b) \<Rightarrow> (res, r\<lparr>rd_R := b\<rparr>))"

section \<open>MIME headers\<close>

function upcoming_loop :: "nat \<Rightarrow> string \<Rightarrow> nat" where
  "upcoming_loop n peek =
     (if 0 < length peek \<and> n < 1000 then
        (case cut_byte (CHR 0x0A) peek of
           (line, peek', _) \<Rightarrow>
             if length line = 0 \<or> length line = 1 \<and> line ! 0 = CHR 0x0D then n
             else if line ! 0 = CHR '' '' \<or> line ! 0 = CHR 0x09 then upcoming_loop n peek'
             else upcoming_loop (Suc n) peek')
      else n)"
  by pat_completeness auto
termination
  by (relation "measure (\<lambda>(n, p). length p)") (auto dest!: sym[of _ "cut_byte _ _"] length_cut_byte_rest)

declare upcoming_loop.simps [simp del]

definition upcomingHeaderKeys :: "bufio \<Rightarrow> nat \<times> bufio" where
  "upcomingHeaderKeys b =
     (case Peek 1 b of
        (_, _, b1) \<Rightarrow> if Buffered b1 = 0 then (0, b1) else (upcoming_loop 0 (bf_buf b1), b1))"

lemma closeDot_loop_shrink: "rsize (closeDot_loop st b) \<le> rsize b"
proof (induction st b rule: closeDot_loop.induct)
  case (1 st b)
  obtain got e st' b' where rd: "dot_Read 128 st b = (got, e, st', b')" by (cases "dot_Read 128 st b")
  then have le: "rsize b' \<le> rsize b"
    by (auto simp: dot_Read_def split: prod.splits dest!: dot_loop_shrink)
  show ?case
  proof (cases e)
    case None
    then show ?thesis
      using le rd 1[OF rd[symmetric] refl None refl] by (simp add: closeDot_loop.simps[of st b])
  next
    case (Some err)
    then show ?thesis using le rd by (simp add: closeDot_loop.simps[of st b])
  qed
qed

lemma rsize_readLineSlice: "readLineSlice r = (Inr l, r') \<Longrightarrow> rsize (rd_R r') < rsize (rd_R r)"
proof -
  assume rl: "readLineSlice r = (Inr l, r')"
  have "rsize (rd_R (closeDot r)) \<le> rsize (rd_R r)"
    using closeDot_loop_shrink by (auto simp: closeDot_def split: option.split)
  moreover have "readLineSlice_loop [] (rd_R (closeDot r)) = (Inr l, rd_R r')"
    using rl by (auto simp: readLineSlice_def Let_def split: prod.splits)
  ultimately show ?thesis using rsize_readLine_loop by fastforce
qed

lemma continued_loop_shrink: "continued_loop buf b = (s, b') \<Longrightarrow> rsize b' \<le> rsize b"
proof (induction buf b rule: continued_loop.induct)
  case (1 buf b)
  obtain n b1 where sk: "skipSpace b = (n, b1)" by (cases "skipSpace b")
  then have le1: "rsize b1 \<le> rsize b" using rsize_skipSpace by (auto simp: skipSpace_def)
  obtain res b2 where rl: "readLineSlice_loop [] b1 = (res, b2)" by (cases "readLineSlice_loop [] b1")
  show ?case
  proof (cases "0 < n")
    case False
    then show ?thesis using 1(2) sk le1 by (simp add: continued_loop.simps[of buf b])
  next
    case True
    show ?thesis
    proof (cases res)
      case (Inl e)
      then show ?thesis
        using 1(2) sk rl True le1 readLine_loop_shrink[OF rl] by (simp add: continued_loop.simps[of buf b])
    next
      case (Inr line)
      then have "continued_loop (buf @ '' '' @ trim line) b2 = (s, b')"
        using 1(2) sk rl True by (simp add: continued_loop.simps[of buf b])
      then show ?thesis
        using 1(1)[OF sk[symmetric] True rl[symmetric] Inr] le1 readLine_loop_shrink[OF rl] by simp
    qed
  qed
qed

lemma rsize_readContinued:
  assumes "readContinuedLineSlice V r = (kv, err, r')" and "kv \<noteq> []"
  shows "rsize (rd_R r') < rsize (rd_R r)"
proof -
  obtain res r1 where rl: "readLineSlice r = (res, r1)" by (cases "readLineSlice r")
  show ?thesis
  proof (cases res)
    case (Inl e)
    then show ?thesis using assms rl by (simp add: readContinuedLineSlice_def)
  next
    case (Inr line)
    have lt: "rsize (rd_R r1) < rsize (rd_R r)" using rsize_readLineSlice rl Inr by blast
    obtain p e1 b1 where pk: "Peek 2 (rd_R r1) = (p, e1, b1)" by (cases "Peek 2 (rd_R r1)")
    then have le: "rsize b1 \<le> rsize (rd_R r1)" using stream_Peek by blast
    show ?thesis
      using assms rl Inr lt le pk
      by (auto simp: readContinuedLineSlice_def Let_def split: if_splits option.splits prod.splits
          dest!: continued_loop_shrink)
  qed
qed

text \<open>
  What ReadMIMEHeader does with one line: an error, a line to skip, or an entry for the map.
\<close>

datatype header_line = BadLine tp_error | SkipLine | HeaderEntry string string

definition mime_line :: "string \<Rightarrow> header_line" where
  "mime_line kv =
     (let malformed = BadLine (ProtocolError (''malformed MIME header line: '' @ kv))
      in case cut_byte (CHR '':'') kv of
           (k, v, ok) \<Rightarrow>
             if \<not> ok then malformed
             else case canonicalMIMEHeaderKey k of
               (key, ok') \<Rightarrow>
                 if \<not> ok' then malformed
                 else if \<not> list_all validHeaderValueByte v then malformed
                 else if key = [] then SkipLine
                 else HeaderEntry key (trim_left_by (\<lambda>c. c = CHR '' '' \<or> c = CHR 0x09) v))"

text \<open>
  The loop, with the memory and the number of headers that are left.  The result is the map, nil where
  the code returns nil, and the error.
\<close>

function mime_loop ::
  "multimap \<Rightarrow> int \<Rightarrow> int \<Rightarrow> Reader \<Rightarrow> (multimap option \<times> tp_error option) \<times> Reader" where
  "mime_loop m maxMemory maxHeaders r =
     (case readContinuedLineSlice mustHaveFieldNameColon r of
        (kv, err, r1) \<Rightarrow>
          if length kv = 0 then ((Some m, err), r1)
          else (case mime_line kv of
                  BadLine e \<Rightarrow> ((Some m, Some e), r1)
                | SkipLine \<Rightarrow> mime_loop m maxMemory maxHeaders r1
                | HeaderEntry key val \<Rightarrow>
                    if maxHeaders - 1 < 0 then ((None, Some (TpMsg ''message too large'')), r1)
                    else
                      (let mem = maxMemory -
                             (if map_of m key = None then int (length key) + 200 else 0) - int (length val)
                       in if mem < 0 then ((Some m, Some (TpMsg ''message too large'')), r1)
                          else (let m' = AList.update key (values_at m key @ [val]) m
                                in if err \<noteq> None then ((Some m', err), r1)
                                   else mime_loop m' mem (maxHeaders - 1) r1))))"
  by pat_completeness auto
termination
  by (relation "measure (\<lambda>(m, mem, h, r). rsize (rd_R r))")
    (auto dest!: sym[of _ "readContinuedLineSlice _ _"] rsize_readContinued)

declare mime_loop.simps [simp del]

definition readMIMEHeader ::
  "int \<Rightarrow> int \<Rightarrow> Reader \<Rightarrow> (multimap option \<times> tp_error option) \<times> Reader" where
  "readMIMEHeader maxMemory maxHeaders r =
     (case upcomingHeaderKeys (rd_R r) of
        (hint, b0) \<Rightarrow>
          (case Peek 1 b0 of
             (buf, e, b1) \<Rightarrow>
               (let r1 = r\<lparr>rd_R := b1\<rparr>
                in if e = None \<and> (buf ! 0 = CHR '' '' \<or> buf ! 0 = CHR 0x09) then
                     (case readLineSlice r1 of
                        (Inl err, r2) \<Rightarrow> ((Some [], Some (TpIo err)), r2)
                      | (Inr line, r2) \<Rightarrow>
                          ((Some [], Some (ProtocolError (''malformed MIME header initial line: '' @ line))), r2))
                   else mime_loop [] (maxMemory - 400) maxHeaders r1)))"

definition ReadMIMEHeader :: "Reader \<Rightarrow> (multimap option \<times> tp_error option) \<times> Reader" where
  "ReadMIMEHeader r = readMIMEHeader (2 ^ 63 - 1) (2 ^ 63 - 1) r"

definition TrimString :: "string \<Rightarrow> string" where
  "TrimString s = trim_right_by isASCIISpace (trim_left_by isASCIISpace s)"

end
