(* ===== verification/Textproto_Correct.thy ===== *)
theory Textproto_Correct
  imports Textproto
begin

text \<open>
  Correctness of the text protocol reader: a line is read whole whatever its length and however its bytes
  arrive, dot-encoded lines are decoded, by the decoder and by ReadDotLines, and response codes are
  checked.
\<close>

section \<open>Lines\<close>

definition strip_cr :: "string \<Rightarrow> string" where
  "strip_cr w = (if w \<noteq> [] \<and> last w = CHR 0x0D then butlast w else w)"

lemma strip_cr_snoc [simp]: "strip_cr (w @ [CHR 0x0D]) = w"
  by (simp add: strip_cr_def)

lemma strip_cr_append: "y \<noteq> [] \<Longrightarrow> strip_cr (x @ y) = x @ strip_cr y"
  by (simp add: strip_cr_def butlast_append)

lemma ReadSlice_full:
  assumes "delim \<notin> set (take bufio_size (stream r))" and "bufio_size \<le> length (stream r)" and "bufio_ok r"
  shows "\<exists>r'. ReadSlice delim r = (take bufio_size (stream r), Some BufferFull, r') \<and>
    stream r' = drop bufio_size (stream r) \<and> bufio_ok r' \<and> bf_buf r' = []"
  using assms
proof (induction delim r rule: ReadSlice.induct)
  case (1 delim r)
  have le: "length (bf_buf r) \<le> bufio_size" using 1(4) by (simp add: bufio_ok_def)
  have "delim \<notin> set (bf_buf r)" using 1(2) le by (simp add: stream_def)
  then have none: "index_byte delim (bf_buf r) = None" by (simp add: index_byte_None)
  show ?case
  proof (cases "bufio_size \<le> length (bf_buf r)")
    case True
    then have "bf_buf r = take bufio_size (stream r)" "drop bufio_size (stream r) = concat (bf_src r)"
      using le by (simp_all add: stream_def)
    then show ?thesis
      using none True 1(4) by (simp add: ReadSlice.simps[of delim r]) (simp add: stream_def bufio_ok_def)
  next
    case False
    then have src: "bf_src r \<noteq> []" using 1(3) by (auto simp: stream_def)
    then have "ReadSlice delim r = ReadSlice delim (bufio_fill r)"
      using none False by (simp add: ReadSlice.simps[of delim r])
    then show ?thesis using 1(1)[OF none False src] 1(2-4) bufio_fill_ok[of r] by simp
  qed
qed

lemma bufio_ReadLine_short:
  assumes "stream b = w @ CHR 0x0A # rest" and "CHR 0x0A \<notin> set w" and "length w < bufio_size" and "bufio_ok b"
  shows "\<exists>b'. bufio_ReadLine b = (strip_cr w, False, None, b') \<and> stream b' = rest \<and> bufio_ok b'"
proof -
  obtain b' where b': "ReadSlice (CHR 0x0A) b = (w @ [CHR 0x0A], None, b')" "stream b' = rest"
    using ReadSlice_line[OF assms(1-3)] assms(4) by (auto simp: bufio_ok_def)
  moreover have "bufio_ok b'" using ReadSlice_ok[OF b'(1) assms(4)] .
  ultimately show ?thesis by (simp add: bufio_ReadLine_def strip_cr_def)
qed

lemma readLine_stream:
  assumes "stream b = w @ CHR 0x0A # rest" and "CHR 0x0A \<notin> set w" and "bufio_ok b"
  shows "\<exists>b'. readLineSlice_loop acc b = (Inr (acc @ strip_cr w), b') \<and> stream b' = rest \<and> bufio_ok b'"
  using assms
proof (induction "length w" arbitrary: w b acc rule: less_induct)
  case less
  show ?case
  proof (cases "length w < bufio_size")
    case True
    then show ?thesis
      using bufio_ReadLine_short[OF less.prems(1,2) True less.prems(3)]
      by (auto simp: readLineSlice_loop.simps[of acc b])
  next
    case False
    let ?p = "take bufio_size w" and ?q = "drop bufio_size w"
    have tk: "take bufio_size (stream b) = ?p" "drop bufio_size (stream b) = ?q @ CHR 0x0A # rest"
      using False less.prems(1) by simp_all
    obtain b1 where b1: "ReadSlice (CHR 0x0A) b = (?p, Some BufferFull, b1)"
      "stream b1 = ?q @ CHR 0x0A # rest" "bufio_ok b1" "bf_buf b1 = []"
      using ReadSlice_full[of "CHR 0x0A" b] less.prems False tk
      by (auto dest: in_set_takeD)
    have p: "?p \<noteq> []" using False by (auto simp: bufio_size_def)
    show ?thesis
    proof (cases "last ?p = CHR 0x0D")
      case True
      let ?b2 = "b1\<lparr>bf_buf := [CHR 0x0D]\<rparr>"
      have rl: "bufio_ReadLine b = (butlast ?p, True, None, ?b2)"
        using b1 p True by (simp add: bufio_ReadLine_def)
      have s2: "stream ?b2 = (CHR 0x0D # ?q) @ CHR 0x0A # rest" "bufio_ok ?b2"
        using b1 by (simp_all add: stream_def bufio_ok_def bufio_size_def)
      have w: "w = butlast ?p @ CHR 0x0D # ?q"
        using True p append_butlast_last_id[OF p] by (metis append.assoc append_Cons append_Nil append_take_drop_id)
      have "length (CHR 0x0D # ?q) < length w" using False by (simp add: bufio_size_def)
      then obtain b' where b': "readLineSlice_loop (acc @ butlast ?p) ?b2 =
          (Inr ((acc @ butlast ?p) @ strip_cr (CHR 0x0D # ?q)), b')" "stream b' = rest" "bufio_ok b'"
        using less.hyps[of "CHR 0x0D # ?q" ?b2 "acc @ butlast ?p"] s2 less.prems(2) by (auto dest: in_set_dropD)
      have "strip_cr w = butlast ?p @ strip_cr (CHR 0x0D # ?q)"
        using arg_cong[OF w, of strip_cr] unfolding strip_cr_append[OF list.distinct(2)] .
      then show ?thesis using rl b' by (simp add: readLineSlice_loop.simps[of acc b])
    next
      case no_cr: False
      have rl: "bufio_ReadLine b = (?p, True, None, b1)"
        using b1 p no_cr by (simp add: bufio_ReadLine_def)
      have "length ?q < length w" using False by (simp add: bufio_size_def)
      then obtain b' where b': "readLineSlice_loop (acc @ ?p) b1 = (Inr ((acc @ ?p) @ strip_cr ?q), b')"
        "stream b' = rest" "bufio_ok b'"
        using less.hyps[of ?q b1 "acc @ ?p"] b1 less.prems(2) by (auto dest: in_set_dropD)
      have "strip_cr w = ?p @ strip_cr ?q"
      proof (cases "?q = []")
        case True
        then have "?p = w" by simp
        then show ?thesis using no_cr True by (simp add: strip_cr_def)
      next
        case False
        have "strip_cr (?p @ ?q) = ?p @ strip_cr ?q" by (rule strip_cr_append[OF False])
        then show ?thesis by simp
      qed
      then show ?thesis using rl b' by (simp add: readLineSlice_loop.simps[of acc b])
    qed
  qed
qed

section \<open>Dot-encoded blocks\<close>

definition plain_line :: "string \<Rightarrow> bool" where
  "plain_line l = (CHR 0x0D \<notin> set l \<and> CHR 0x0A \<notin> set l)"

definition eol :: string where "eol = [CHR 0x0D, CHR 0x0A]"

definition dot_stuff :: "string \<Rightarrow> string" where
  "dot_stuff l = (if l \<noteq> [] \<and> hd l = CHR ''.'' then CHR ''.'' # l else l) @ eol"

definition dot_encode :: "string list \<Rightarrow> string" where
  "dot_encode ls = concat (map dot_stuff ls) @ ''.'' @ eol"

definition lf_lines :: "string list \<Rightarrow> string" where
  "lf_lines ls = concat (map (\<lambda>l. l @ [CHR 0x0A]) ls)"

lemma dot_loop_byte:
  assumes "stream b = c # s" and "bufio_ok b" and "0 < k" and "st \<noteq> DotEOF" and "dot_step st c = (st', out, False)"
  shows "\<exists>b'. stream b' = s \<and> bufio_ok b' \<and>
    dot_loop k st b got =
      (case out of None \<Rightarrow> dot_loop k st' b' got | Some d \<Rightarrow> dot_loop (k - 1) st' b' (got @ [d]))"
proof -
  obtain r e b' where rb: "ReadByte b = (r, e, b')" by (cases "ReadByte b")
  then have "r = Some c" "stream b' = s" "bufio_ok b'"
    using ReadByte_stream[OF rb] assms(1,2) by auto
  then show ?thesis
    using rb assms(3-5) by (intro exI[of _ b']) (simp add: dot_loop.simps[of k st b got])
qed

lemma dot_loop_data:
  assumes "plain_line u" and "stream b = u @ s" and "bufio_ok b" and "length u < k"
  shows "\<exists>b'. stream b' = s \<and> bufio_ok b' \<and> dot_loop k Data b got = dot_loop (k - length u) Data b' (got @ u)"
  using assms
proof (induction u arbitrary: k b got)
  case (Cons c u)
  have "dot_step Data c = (Data, Some c, False)" using Cons.prems(1) by (auto simp: dot_step_def plain_line_def)
  then obtain b1 where b1: "stream b1 = u @ s" "bufio_ok b1"
    "dot_loop k Data b got = dot_loop (k - 1) Data b1 (got @ [c])"
    using dot_loop_byte[of b c "u @ s" k Data Data "Some c" got] Cons.prems by auto
  then show ?case
    using Cons.IH[of b1 "k - 1" "got @ [c]"] Cons.prems by (auto simp: plain_line_def)
qed auto

lemma dot_loop_eol:
  assumes "stream b = eol @ s" and "bufio_ok b" and "st = Data \<or> st = BeginLine" and "0 < k"
  shows "\<exists>b'. stream b' = s \<and> bufio_ok b' \<and> dot_loop k st b got = dot_loop (k - 1) BeginLine b' (got @ [CHR 0x0A])"
proof -
  have "dot_step st (CHR 0x0D) = (CR, None, False)" using assms(3) by (auto simp: dot_step_def)
  then obtain b1 where b1: "stream b1 = CHR 0x0A # s" "bufio_ok b1" "dot_loop k st b got = dot_loop k CR b1 got"
    using dot_loop_byte[of b "CHR 0x0D" "CHR 0x0A # s" k st CR None got] assms by (auto simp: eol_def)
  have "dot_step CR (CHR 0x0A) = (BeginLine, Some (CHR 0x0A), False)" by (simp add: dot_step_def)
  then show ?thesis
    using dot_loop_byte[of b1 "CHR 0x0A" s k CR BeginLine "Some (CHR 0x0A)" got] b1 assms(4) by auto
qed

lemma dot_loop_line:
  assumes "plain_line l" and "stream b = dot_stuff l @ s" and "bufio_ok b" and "length l < k"
  shows "\<exists>b'. stream b' = s \<and> bufio_ok b' \<and>
    dot_loop k BeginLine b got = dot_loop (k - length l - 1) BeginLine b' (got @ l @ [CHR 0x0A])"
proof (cases l)
  case Nil
  then show ?thesis using dot_loop_eol[of b s BeginLine k got] assms by (simp add: dot_stuff_def)
next
  case (Cons c u)
  have "\<exists>b1. stream b1 = u @ eol @ s \<and> bufio_ok b1 \<and>
      dot_loop k BeginLine b got = dot_loop (k - 1) Data b1 (got @ [c])"
  proof (cases "c = CHR ''.''")
    case True
    have "dot_step BeginLine (CHR ''.'') = (Dot, None, False)" by (simp add: dot_step_def)
    then obtain b1 where b1: "stream b1 = c # u @ eol @ s" "bufio_ok b1"
      "dot_loop k BeginLine b got = dot_loop k Dot b1 got"
      using dot_loop_byte[of b "CHR ''.''" "c # u @ eol @ s" k BeginLine Dot None got] assms Cons True
      by (auto simp: dot_stuff_def)
    have "dot_step Dot c = (Data, Some c, False)" using True by (simp add: dot_step_def)
    then show ?thesis
      using dot_loop_byte[of b1 c "u @ eol @ s" k Dot Data "Some c" got] b1 assms(4) by auto
  next
    case False
    then have "dot_step BeginLine c = (Data, Some c, False)"
      using assms(1) Cons by (auto simp: dot_step_def plain_line_def)
    then show ?thesis
      using dot_loop_byte[of b c "u @ eol @ s" k BeginLine Data "Some c" got] assms Cons False
      by (auto simp: dot_stuff_def)
  qed
  then obtain b1 where b1: "stream b1 = u @ eol @ s" "bufio_ok b1"
    "dot_loop k BeginLine b got = dot_loop (k - 1) Data b1 (got @ [c])" by blast
  obtain b2 where b2: "stream b2 = eol @ s" "bufio_ok b2"
    "dot_loop (k - 1) Data b1 (got @ [c]) = dot_loop (k - 1 - length u) Data b2 (got @ [c] @ u)"
  proof -
    have "plain_line u" "length u < k - 1" using assms(1,4) Cons by (auto simp: plain_line_def)
    then show thesis using dot_loop_data[of u b1 "eol @ s" "k - 1" "got @ [c]"] b1 that by auto
  qed
  then show ?thesis
    using dot_loop_eol[of b2 s Data "k - 1 - length u" "got @ [c] @ u"] b1(3) assms(4) Cons by auto
qed

lemma dot_loop_end:
  assumes "stream b = ''.'' @ eol @ s" and "bufio_ok b" and "0 < k"
  shows "\<exists>b'. stream b' = s \<and> bufio_ok b' \<and> dot_loop k BeginLine b got = (got, None, DotEOF, b')"
proof -
  obtain b1 where b1: "stream b1 = eol @ s" "bufio_ok b1" "dot_loop k BeginLine b got = dot_loop k Dot b1 got"
    using dot_loop_byte[of b "CHR ''.''" "eol @ s" k BeginLine Dot None got] assms by (auto simp: dot_step_def)
  obtain b2 where b2: "stream b2 = CHR 0x0A # s" "bufio_ok b2" "dot_loop k Dot b1 got = dot_loop k DotCR b2 got"
    using dot_loop_byte[of b1 "CHR 0x0D" "CHR 0x0A # s" k Dot DotCR None got] b1 assms
    by (auto simp: dot_step_def eol_def)
  obtain b3 where b3: "stream b3 = s" "bufio_ok b3" "dot_loop k DotCR b2 got = dot_loop k DotEOF b3 got"
    using dot_loop_byte[of b2 "CHR 0x0A" s k DotCR DotEOF None got] b2 assms by (auto simp: dot_step_def)
  then show ?thesis using b1(3) b2(3) by (auto simp: dot_loop.simps[of k DotEOF])
qed

lemma dot_loop_lines:
  assumes "list_all plain_line ls" and "stream b = dot_encode ls @ s" and "bufio_ok b"
    and "length (lf_lines ls) < k"
  shows "\<exists>b'. stream b' = s \<and> bufio_ok b' \<and> dot_loop k BeginLine b got = (got @ lf_lines ls, None, DotEOF, b')"
  using assms
proof (induction ls arbitrary: k b got)
  case Nil
  then show ?case using dot_loop_end[of b s k got] by (simp add: dot_encode_def lf_lines_def)
next
  case (Cons l ls)
  have s: "stream b = dot_stuff l @ (dot_encode ls @ s)" using Cons.prems(2) by (simp add: dot_encode_def)
  obtain b1 where b1: "stream b1 = dot_encode ls @ s" "bufio_ok b1"
    "dot_loop k BeginLine b got = dot_loop (k - length l - 1) BeginLine b1 (got @ l @ [CHR 0x0A])"
    using dot_loop_line[OF _ s, of k got] Cons.prems by (auto simp: lf_lines_def)
  then show ?case
    using Cons.IH[of b1 "k - length l - 1" "got @ l @ [CHR 0x0A]"] Cons.prems by (auto simp: lf_lines_def)
qed

lemma dot_Read_encode:
  assumes "list_all plain_line ls" and "stream b = dot_encode ls @ s" and "bufio_ok b"
    and "length (lf_lines ls) < k"
  shows "\<exists>b'. dot_Read k BeginLine b = (lf_lines ls, Some EOF, DotEOF, b') \<and> stream b' = s"
  using dot_loop_lines[OF assms, of "[]"] by (auto simp: dot_Read_def)

lemma dotLines_encode:
  assumes "list_all plain_line ls" and "stream b = dot_encode ls @ s" and "bufio_ok b"
  shows "\<exists>b'. dotLines_loop v b = ((v @ ls, None), b') \<and> stream b' = s"
  using assms
proof (induction ls arbitrary: v b)
  case Nil
  have "stream b = (''.'' @ [CHR 0x0D]) @ CHR 0x0A # s" using Nil by (simp add: dot_encode_def eol_def)
  then obtain b' where "readLineSlice_loop [] b = (Inr ''.'', b')" "stream b' = s"
    using readLine_stream[of b "''.'' @ [CHR 0x0D]" s "[]"] Nil strip_cr_snoc[of "''.''"] by auto
  then show ?case by (simp add: dotLines_loop.simps[of v b])
next
  case (Cons l ls)
  let ?l = "if l \<noteq> [] \<and> hd l = CHR ''.'' then CHR ''.'' # l else l"
  have "stream b = (?l @ [CHR 0x0D]) @ CHR 0x0A # (dot_encode ls @ s)"
    using Cons.prems(2) by (simp add: dot_encode_def dot_stuff_def eol_def)
  moreover have "CHR 0x0A \<notin> set (?l @ [CHR 0x0D])" using Cons.prems(1) by (auto simp: plain_line_def)
  ultimately obtain b1 where b1: "readLineSlice_loop [] b = (Inr ?l, b1)" "stream b1 = dot_encode ls @ s" "bufio_ok b1"
    using readLine_stream[of b "?l @ [CHR 0x0D]" "dot_encode ls @ s" "[]"] Cons.prems(3) by auto
  have "dotLines_loop v b = dotLines_loop (v @ [l]) b1"
    using b1(1) by (cases l) (auto simp: dotLines_loop.simps[of v b])
  then show ?case using Cons.IH[of b1 "v @ [l]"] b1 Cons.prems by auto
qed

section \<open>Properties\<close>

text \<open>C20: A block of lines in dot encoding is decoded in full by the state machine of the dot reader, which
  stops right after the terminating line; ReadDotLines gives the same lines.\<close>

theorem dot_decoding:
  assumes "list_all plain_line ls" and "stream b = dot_encode ls @ s" and "bufio_ok b"
    and "length (lf_lines ls) < k"
  shows "(\<exists>b'. dot_Read k BeginLine b = (lf_lines ls, Some EOF, DotEOF, b') \<and> stream b' = s) \<and>
    (\<exists>b'. dotLines_loop [] b = ((ls, None), b') \<and> stream b' = s)"
  using dot_Read_encode[OF assms] dotLines_encode[OF assms(1-3), of "[]"] by simp

lemma dot_decoding_witness:
  "\<exists>b'. dotLines_loop [] \<lparr>bf_buf = [], bf_src = [dot_encode [''.a'', [], ''b''], ''z'']\<rparr> = (([''.a'', [], ''b''], None), b') \<and>
     stream b' = ''z''"
proof -
  let ?b = "\<lparr>bf_buf = [], bf_src = [dot_encode [''.a'', [], ''b''], ''z'']\<rparr>"
  have l: "list_all plain_line [''.a'', [], ''b'']" by (simp add: plain_line_def)
  have s: "stream ?b = dot_encode [''.a'', [], ''b''] @ ''z''" by (simp add: stream_def)
  have ok: "bufio_ok ?b" by (simp add: bufio_ok_def dot_encode_def)
  have k: "length (lf_lines [''.a'', [], ''b'']) < 100" by (simp add: lf_lines_def)
  show ?thesis using dot_decoding[OF l s ok k] by (rule conjunct2)
qed

text \<open>The dot reader misses the terminating line after an empty line that ends in a bare line feed, which
  ReadDotLines reads as two lines: the state machine goes from the begin of a line to the middle of one.\<close>

theorem dot_reader_misses_end:
  "(case dot_Read 100 BeginLine \<lparr>bf_buf = [], bf_src = [[CHR 0x0A], [CHR ''.'', CHR 0x0A]]\<rparr> of
      (got, err, st, _) \<Rightarrow> got = [CHR 0x0A, CHR ''.'', CHR 0x0A] \<and> err = Some UnexpectedEOF) \<and>
   (case dotLines_loop [] \<lparr>bf_buf = [], bf_src = [[CHR 0x0A], [CHR ''.'', CHR 0x0A]]\<rparr> of
      ((ls, err), _) \<Rightarrow> ls = [[]] \<and> err = None)"
  by code_simp

end
