(* ===== verification/Chunked.thy ===== *)
theory Chunked
  imports Go_Bufio Ascii
begin

unbundle bit_operations_syntax

text \<open>
  The chunked transfer coding (src/http/internal/chunked.go): the writer, the reader with its state
  (unread bytes of the chunk, pending chunk end, excess overhead), and the parser of chunk sizes.  The
  underlying writer is an argument: it answers a write with its new state, the number of bytes taken
  and an error.  The 64-bit fields keep their width: the size is a word, the excess an integer that
  each operation wraps.
\<close>

section \<open>The writer\<close>

definition lower_digits :: string where "lower_digits = ''0123456789abcdef''"

fun hex_of :: "nat \<Rightarrow> string" where
  "hex_of n = (if n < 16 then [lower_digits ! n] else hex_of (n div 16) @ [lower_digits ! (n mod 16)])"

declare hex_of.simps [simp del]

definition crlf :: string where "crlf = [CHR 0x0D, CHR 0x0A]"

type_synonym 'w wire = "string \<Rightarrow> 'w \<Rightarrow> 'w \<times> nat \<times> io_error option"

text \<open>The flush is present when the wire is a FlushAfterChunkWriter.\<close>

definition chunked_Write ::
  "'w wire \<Rightarrow> ('w \<Rightarrow> 'w \<times> io_error option) option \<Rightarrow> string \<Rightarrow> 'w \<Rightarrow> 'w \<times> nat \<times> io_error option" where
  "chunked_Write wr flush data w =
     (if length data = 0 then (w, 0, None)
      else case wr (hex_of (length data) @ crlf) w of
        (w1, _, Some err) \<Rightarrow> (w1, 0, Some err)
      | (w1, _, None) \<Rightarrow>
          (case wr data w1 of
             (w2, n, Some err) \<Rightarrow> (w2, n, Some err)
           | (w2, n, None) \<Rightarrow>
               if n \<noteq> length data then (w2, n, Some ShortWrite)
               else (case wr crlf w2 of
                       (w3, _, Some err) \<Rightarrow> (w3, n, Some err)
                     | (w3, _, None) \<Rightarrow>
                         (case flush of
                            None \<Rightarrow> (w3, n, None)
                          | Some fl \<Rightarrow> (case fl w3 of (w4, e) \<Rightarrow> (w4, n, e))))))"

definition chunked_Close :: "'w wire \<Rightarrow> 'w \<Rightarrow> 'w \<times> io_error option" where
  "chunked_Close wr w = (case wr (''0'' @ crlf) w of (w1, _, e) \<Rightarrow> (w1, e))"

section \<open>Lines and sizes\<close>

definition maxLineLength :: nat where "maxLineLength = 4096"

definition ErrLineTooLong :: io_error where "ErrLineTooLong = IoMsg ''header line too long''"

definition readChunkLine :: "bufio \<Rightarrow> string \<times> io_error option \<times> bufio" where
  "readChunkLine b =
     (case ReadSlice (CHR 0x0A) b of
        (p, Some err, b') \<Rightarrow>
          ([], Some (if err = EOF then UnexpectedEOF else if err = BufferFull then ErrLineTooLong else err), b')
      | (p, None, b') \<Rightarrow>
          if maxLineLength \<le> length p then ([], Some ErrLineTooLong, b') else (p, None, b'))"

definition trimTrailingWhitespace :: "string \<Rightarrow> string" where
  "trimTrailingWhitespace b = trim_right_by isASCIISpace b"

definition removeChunkExtension :: "string \<Rightarrow> string \<times> io_error option" where
  "removeChunkExtension p = (fst (cut_byte (CHR '';'') p), None)"

definition hex_value :: "char \<Rightarrow> nat option" where
  "hex_value b =
     (if in_range (CHR ''0'') (CHR ''9'') b then Some (of_char b - of_char (CHR ''0''))
      else if in_range (CHR ''a'') (CHR ''f'') b then Some (of_char b - of_char (CHR ''a'') + 10)
      else if in_range (CHR ''A'') (CHR ''F'') b then Some (of_char b - of_char (CHR ''A'') + 10)
      else None)"

fun parseHexUint_loop :: "nat \<Rightarrow> 64 word \<Rightarrow> string \<Rightarrow> io_error + 64 word" where
  "parseHexUint_loop i n [] = Inr n"
| "parseHexUint_loop i n (b # v) =
     (case hex_value b of
        None \<Rightarrow> Inl (IoMsg ''invalid byte in chunk length'')
      | Some d \<Rightarrow>
          if i = 16 then Inl (IoMsg ''http chunk length too large'')
          else parseHexUint_loop (Suc i) (push_bit 4 n OR of_nat d) v)"

definition parseHexUint :: "string \<Rightarrow> io_error + 64 word" where
  "parseHexUint v =
     (if length v = 0 then Inl (IoMsg ''empty hex number for chunk length'')
      else parseHexUint_loop 0 0 v)"

section \<open>The reader\<close>

record chunkedReader =
  cr_r :: bufio
  cr_n :: "64 word"
  cr_err :: "io_error option"
  checkEnd :: bool
  excess :: int

definition new_chunkedReader :: "bufio \<Rightarrow> chunkedReader" where
  "new_chunkedReader r = \<lparr>cr_r = r, cr_n = 0, cr_err = None, checkEnd = False, excess = 0\<rparr>"

text \<open>The value that a 64-bit signed operation leaves of an integer.\<close>

definition wrap64 :: "int \<Rightarrow> int" where
  "wrap64 x = (x + 2 ^ 63) mod 2 ^ 64 - 2 ^ 63"

definition beginChunk :: "chunkedReader \<Rightarrow> chunkedReader" where
  "beginChunk cr =
     (case readChunkLine (cr_r cr) of
        (_, Some err, r) \<Rightarrow> cr\<lparr>cr_r := r, cr_err := Some err\<rparr>
      | (line0, None, r) \<Rightarrow>
          (let ex1 = wrap64 (excess cr + wrap64 (int (length line0) + 2));
               line = trimTrailingWhitespace line0;
               cr1 = cr\<lparr>cr_r := r, excess := ex1\<rparr>
           in case removeChunkExtension line of
                (_, Some err) \<Rightarrow> cr1\<lparr>cr_err := Some err\<rparr>
              | (line2, None) \<Rightarrow>
                  (case parseHexUint line2 of
                     Inl err \<Rightarrow> cr1\<lparr>cr_n := 0, cr_err := Some err\<rparr>
                   | Inr n \<Rightarrow>
                       (let ex2 = max (wrap64 (ex1 - wrap64 (16 + wrap64 (2 * sint n)))) 0;
                            err1 = (if ex2 > 16 * 1024 then
                                      Some (IoMsg ''chunked encoding contains too much non-data'') else None);
                            err2 = (if n = 0 then Some EOF else err1)
                        in cr1\<lparr>cr_n := n, excess := ex2, cr_err := err2\<rparr>))))"

definition chunkHeaderAvailable :: "chunkedReader \<Rightarrow> bool" where
  "chunkHeaderAvailable cr =
     (if 0 < Buffered (cr_r cr) then index_byte (CHR 0x0A) (bf_buf (cr_r cr)) \<noteq> None else False)"

text \<open>The part of an iteration that reads data of the chunk into the rest of the caller's slice.\<close>

definition read_data :: "chunkedReader \<Rightarrow> nat \<Rightarrow> string \<times> chunkedReader" where
  "read_data cr k =
     (let rbuf = (if unat (cr_n cr) < k then unat (cr_n cr) else k)
      in case bufio_Read rbuf (cr_r cr) of
           (d, err, r) \<Rightarrow>
             (let n' = cr_n cr - of_nat (length d)
              in (d, cr\<lparr>cr_r := r, cr_n := n',
                     checkEnd := (if n' = 0 \<and> err = None then True else checkEnd cr),
                     cr_err := (if \<not> (n' = 0 \<and> err = None) \<and> err = Some EOF then Some UnexpectedEOF
                                else err)\<rparr>)))"

lemma rsize_beginChunk:
  "rsize (cr_r (beginChunk cr)) \<le> rsize (cr_r cr) \<and>
     (cr_err (beginChunk cr) = None \<longrightarrow> rsize (cr_r (beginChunk cr)) < rsize (cr_r cr))"
proof -
  obtain p e r' where rs: "ReadSlice (CHR 0x0A) (cr_r cr) = (p, e, r')" by (cases "ReadSlice (CHR 0x0A) (cr_r cr)")
  show ?thesis
    using rsize_ReadSlice[OF rs]
    by (auto simp: beginChunk_def readChunkLine_def rs removeChunkExtension_def Let_def split: sum.split option.split)
qed

lemma rsize_read_data:
  assumes "cr_n cr \<noteq> 0" and "0 < k" and "read_data cr k = (d, cr')"
  shows "rsize (cr_r cr') \<le> rsize (cr_r cr) \<and> (cr_err cr' = None \<longrightarrow> rsize (cr_r cr') < rsize (cr_r cr))"
proof -
  let ?k = "if unat (cr_n cr) < k then unat (cr_n cr) else k"
  have "0 < ?k" using assms by (simp add: unat_gt_0)
  moreover obtain d e r' where rd: "bufio_Read ?k (cr_r cr) = (d, e, r')" by (cases "bufio_Read ?k (cr_r cr)")
  ultimately show ?thesis
    using rsize_Read[OF rd] assms(3) by (auto simp: read_data_def rd Let_def split: if_splits)
qed

text \<open>
  Read into a slice of \<open>k\<close> bytes; \<open>got\<close> is what this call has read so far.  After a good chunk end
  the iteration goes on as a new iteration would, so it is written as one.
\<close>

function chunked_Read :: "chunkedReader \<Rightarrow> nat \<Rightarrow> string \<Rightarrow> string \<times> chunkedReader" where
  "chunked_Read cr k got =
     (if cr_err cr \<noteq> None then (got, cr)
      else if checkEnd cr then
        (if got \<noteq> [] \<and> Buffered (cr_r cr) < 2 then (got, cr)
         else case ReadFull 2 (cr_r cr) of
           (d, None, r) \<Rightarrow>
             if d \<noteq> crlf then (got, cr\<lparr>cr_r := r, cr_err := Some (IoMsg ''malformed chunked encoding'')\<rparr>)
             else chunked_Read (cr\<lparr>cr_r := r, checkEnd := False\<rparr>) k got
         | (d, Some err, r) \<Rightarrow>
             (got, cr\<lparr>cr_r := r, cr_err := Some (if err = EOF then UnexpectedEOF else err)\<rparr>))
      else if cr_n cr = 0 then
        (if got \<noteq> [] \<and> \<not> chunkHeaderAvailable cr then (got, cr)
         else chunked_Read (beginChunk cr) k got)
      else if k = 0 then (got, cr)
      else (case read_data cr k of (d, cr') \<Rightarrow> chunked_Read cr' (k - length d) (got @ d)))"
  by pat_completeness auto
termination
proof (relation "measure (\<lambda>(cr, k, got). rsize (cr_r cr) + (if cr_err cr = None then 1 else 0))", goal_cases)
  case (2 cr k got d e r)
  then show ?case using rsize_ReadFull_loop[of 2 "[]" "cr_r cr" d None] by (auto simp: ReadFull_def)
next
  case (3 cr k got)
  then show ?case using rsize_beginChunk[of cr] by auto
next
  case (4 cr k got d cr')
  then show ?case using rsize_read_data[of cr k d cr'] by auto
qed simp

declare chunked_Read.simps [simp del]

end
