(* ===== verification/Chunked_Correct.thy ===== *)
theory Chunked_Correct
  imports Chunked
begin

text \<open>
  Correctness of the chunked coding: the value and the errors of a chunk size, and the round trip: what
  the writer makes of any sequence of writes is read back as their concatenation, however the bytes
  arrive and whatever the sizes of the reader's slices.
\<close>

section \<open>Chunk sizes\<close>

definition is_hex :: "char \<Rightarrow> bool" where
  "is_hex b = (hex_value b \<noteq> None)"

definition hex_number :: "nat \<Rightarrow> string \<Rightarrow> nat" where
  "hex_number a v = foldl (\<lambda>a b. 16 * a + the (hex_value b)) a v"

lemma hex_value_less: "hex_value b = Some d \<Longrightarrow> d < 16"
  by (auto simp: hex_value_def less_eq_char_def split: if_splits)

lemma unat_small: "n < 2 ^ 64 \<Longrightarrow> unat (of_nat n :: 64 word) = n"
  by (simp add: unsigned_of_nat take_bit_nat_eq_self_iff)

lemma of_nat_zero:
  assumes "n < 2 ^ 61"
  shows "(of_nat n :: 64 word) = 0 \<longleftrightarrow> n = 0"
proof
  have u: "unat (of_nat n :: 64 word) = n" using assms by (intro unat_small) simp
  assume "(of_nat n :: 64 word) = 0"
  then show "n = 0" using u by simp
next
  assume "n = 0"
  then show "(of_nat n :: 64 word) = 0" by simp
qed

lemma hex_step:
  assumes "a < 2 ^ 60" and "d < 16"
  shows "push_bit 4 (of_nat a) OR of_nat d = (of_nat (16 * a + d) :: 64 word)"
proof -
  have small: "unat (of_nat a :: 64 word) = a" "unat (of_nat d :: 64 word) = d"
    using assms by (simp_all add: unat_small)
  have "push_bit 4 (of_nat a :: 64 word) AND of_nat d = 0"
  proof (rule bit_eqI)
    fix n
    have "\<not> bit (of_nat d :: 64 word) n" if "4 \<le> n"
    proof -
      have "d < 2 ^ n" using assms(2) that power_increasing[of 4 n "2::nat"] by simp
      then have "\<not> bit d n" by (simp add: bit_iff_odd)
      then show ?thesis by (simp add: bit_of_nat_iff)
    qed
    then show "bit (push_bit 4 (of_nat a :: 64 word) AND of_nat d) n = bit (0 :: 64 word) n"
      by (cases "4 \<le> n") (auto simp: bit_simps)
  qed
  then have "push_bit 4 (of_nat a :: 64 word) OR of_nat d = push_bit 4 (of_nat a) + of_nat d"
    by (simp add: disjunctive_add_eq_or)
  also have "\<dots> = of_nat (16 * a + d)" by (simp add: push_bit_eq_mult)
  finally show ?thesis .
qed

lemma hex_number_simps [simp]: "hex_number a [] = a" "hex_number a (b # v) = hex_number (16 * a + the (hex_value b)) v"
  by (simp_all add: hex_number_def)

lemma hex_number_less: "list_all is_hex v \<Longrightarrow> hex_number a v < (a + 1) * 16 ^ length v"
proof (induction v arbitrary: a)
  case (Cons b v)
  then have "the (hex_value b) < 16" using hex_value_less by (auto simp: is_hex_def)
  moreover have "hex_number (16 * a + the (hex_value b)) v < (16 * a + the (hex_value b) + 1) * 16 ^ length v"
    using Cons by simp
  ultimately have "hex_number (16 * a + the (hex_value b)) v < (16 * a + 16) * 16 ^ length v"
    by (elim less_le_trans) (intro mult_right_mono, auto)
  then show ?case by (simp add: algebra_simps)
qed simp

lemma parse_loop_value:
  "list_all is_hex v \<Longrightarrow> i + length v \<le> 16 \<Longrightarrow> a < 16 ^ i \<Longrightarrow>
     parseHexUint_loop i (of_nat a) v = Inr (of_nat (hex_number a v))"
proof (induction v arbitrary: i a)
  case (Cons b v)
  obtain d where d: "hex_value b = Some d" "d < 16"
    using Cons.prems(1) hex_value_less by (auto simp: is_hex_def)
  have "(16::nat) ^ i \<le> 16 ^ 15" using Cons.prems(2) by (intro power_increasing) auto
  then have a: "a < 2 ^ 60" using Cons.prems(3) by simp
  have "16 * a + d < 16 ^ Suc i" using Cons.prems(3) d(2) by simp
  then have "parseHexUint_loop (Suc i) (of_nat (16 * a + d)) v = Inr (of_nat (hex_number (16 * a + d) v))"
    using Cons.prems by (intro Cons.IH) auto
  then show ?case using Cons.prems(2) d hex_step[OF a d(2)] by simp
qed simp

lemma parse_loop_error:
  "\<not> (list_all is_hex v \<and> i + length v \<le> 16) \<Longrightarrow> i \<le> 16 \<Longrightarrow> \<exists>e. parseHexUint_loop i n v = Inl e"
proof (induction v arbitrary: i n)
  case (Cons b v)
  show ?case
  proof (cases "hex_value b = None \<or> i = 16")
    case False
    then obtain d where "hex_value b = Some d" by auto
    then show ?thesis using False Cons.IH[of "Suc i"] Cons.prems by (auto simp: is_hex_def)
  qed (auto split: option.split)
qed simp

lemma parseHexUint_iff:
  "parseHexUint v = Inr n \<longleftrightarrow> v \<noteq> [] \<and> list_all is_hex v \<and> length v \<le> 16 \<and> unat n = hex_number 0 v"
proof (cases "v \<noteq> [] \<and> list_all is_hex v \<and> length v \<le> 16")
  case True
  have "hex_number 0 v < 16 ^ length v" using hex_number_less[of v 0] True by simp
  also have "\<dots> \<le> 16 ^ 16" using True by (intro power_increasing) auto
  finally have "unat (of_nat (hex_number 0 v) :: 64 word) = hex_number 0 v" by (simp add: unat_small)
  then show ?thesis
    using True parse_loop_value[of v 0 0] by (auto simp: parseHexUint_def word_unat_eq_iff)
next
  case False
  then show ?thesis using parse_loop_error[of v 0 0] by (auto simp: parseHexUint_def)
qed

text \<open>The size that the writer prints.\<close>

lemma lower_digit: "d < 16 \<Longrightarrow> hex_value (lower_digits ! d) = Some d \<and> \<not> isASCIISpace (lower_digits ! d)
    \<and> lower_digits ! d \<noteq> CHR '';'' \<and> lower_digits ! d \<noteq> CHR 0x0A"
proof -
  have "list_all (\<lambda>d. hex_value (lower_digits ! d) = Some d \<and> \<not> isASCIISpace (lower_digits ! d)
    \<and> lower_digits ! d \<noteq> CHR '';'' \<and> lower_digits ! d \<noteq> CHR 0x0A) [0..<16]"
    by code_simp
  then show "d < 16 \<Longrightarrow> ?thesis" by (simp add: list_all_iff)
qed

lemma hex_of_bytes:
  "c \<in> set (hex_of n) \<Longrightarrow> is_hex c \<and> \<not> isASCIISpace c \<and> c \<noteq> CHR '';'' \<and> c \<noteq> CHR 0x0A"
proof (induction n rule: hex_of.induct)
  case (1 n)
  then show ?case
    using lower_digit[of n] lower_digit[of "n mod 16"]
    by (subst (asm) (2) hex_of.simps) (auto simp: is_hex_def split: if_splits)
qed

lemma hex_of_not_Nil [simp]: "hex_of n \<noteq> []"
  by (subst hex_of.simps) simp

lemma hex_number_append: "hex_number a (u @ v) = hex_number (hex_number a u) v"
  by (simp add: hex_number_def)

lemma hex_number_hex_of: "hex_number 0 (hex_of n) = n"
proof (induction n rule: hex_of.induct)
  case (1 n)
  show ?case
    using 1 lower_digit[of n] lower_digit[of "n mod 16"]
    by (subst hex_of.simps) (auto simp: hex_number_append)
qed

lemma length_hex_of: "n < 16 ^ k \<Longrightarrow> 0 < k \<Longrightarrow> length (hex_of n) \<le> k"
proof (induction n arbitrary: k rule: hex_of.induct)
  case (1 n)
  show ?case
  proof (cases "n < 16")
    case False
    then have "k \<noteq> 1" using 1(2) by auto
    then obtain j where k: "k = Suc j" "0 < j" using 1(3) by (cases k) auto
    then have "n div 16 < 16 ^ j" using 1(2) by (simp add: div_less_iff_less_mult mult.commute)
    then show ?thesis using 1(1)[OF False, of j] k False by (subst hex_of.simps) simp
  qed (use 1 in \<open>subst hex_of.simps, simp\<close>)
qed

lemma length_hex_of_le: "0 < n \<Longrightarrow> length (hex_of n) \<le> n"
proof -
  assume "0 < n"
  moreover have "n < 16 ^ n" by (rule less_le_trans[OF less_exp]) (rule power_mono, auto)
  ultimately show ?thesis using length_hex_of by blast
qed

lemma parseHexUint_hex_of:
  assumes "n < 2 ^ 64"
  shows "parseHexUint (hex_of n) = Inr (of_nat n)"
proof -
  have "n < 16 ^ 16" using assms by simp
  then have "length (hex_of n) \<le> 16" by (rule length_hex_of) simp
  moreover have "list_all is_hex (hex_of n)" using hex_of_bytes by (simp add: list_all_iff)
  moreover have "unat (of_nat n :: 64 word) = n" using assms by (simp add: unat_small)
  ultimately show ?thesis by (simp add: parseHexUint_iff hex_number_hex_of)
qed

section \<open>The encoding of a sequence of writes\<close>

definition enc_chunk :: "string \<Rightarrow> string" where
  "enc_chunk d = hex_of (length d) @ crlf @ d @ crlf"

definition enc_chunks :: "string list \<Rightarrow> string" where
  "enc_chunks ds = concat (map enc_chunk ds)"

definition last_chunk :: string where "last_chunk = ''0'' @ crlf"

text \<open>A wire that takes every byte.\<close>

definition buffer_wire :: "string wire" where
  "buffer_wire data w = (w @ data, length data, None)"

fun write_all :: "string list \<Rightarrow> string \<Rightarrow> string" where
  "write_all [] w = fst (chunked_Close buffer_wire w)"
| "write_all (d # ds) w = write_all ds (fst (chunked_Write buffer_wire None d w))"

lemma chunked_Write_buffer:
  "chunked_Write buffer_wire None d w = (w @ (if d = [] then [] else enc_chunk d), length d, None)"
  by (simp add: chunked_Write_def buffer_wire_def enc_chunk_def)

lemma write_all_enc: "write_all ds w = w @ enc_chunks (filter (\<lambda>d. d \<noteq> []) ds) @ last_chunk"
  by (induction ds arbitrary: w)
    (auto simp: chunked_Write_buffer chunked_Close_def buffer_wire_def enc_chunks_def last_chunk_def)

section \<open>One chunk header\<close>

lemma hex_of_zero: "hex_of 0 = ''0''"
  by (simp add: hex_of.simps lower_digits_def)

lemma wrap64_id: "- (2 ^ 63) \<le> x \<Longrightarrow> x < 2 ^ 63 \<Longrightarrow> wrap64 x = x"
  by (simp add: wrap64_def)

lemma sint_small: "n < 2 ^ 61 \<Longrightarrow> sint (of_nat n :: 64 word) = int n"
  by (simp add: signed_of_nat signed_take_bit_int_eq_self)

lemma header_line:
  assumes "stream r = hex_of n @ crlf @ rest" and "n < 2 ^ 61" and "bufio_ok r"
  shows "\<exists>r'. readChunkLine r = (hex_of n @ crlf, None, r') \<and> stream r' = rest \<and> bufio_ok r'"
proof -
  have len: "length (hex_of n) \<le> 16" using assms(2) by (intro length_hex_of) simp_all
  have nl: "CHR 0x0A \<notin> set (hex_of n @ [CHR 0x0D])" using hex_of_bytes by auto
  obtain r' where r': "ReadSlice (CHR 0x0A) r = ((hex_of n @ [CHR 0x0D]) @ [CHR 0x0A], None, r')" "stream r' = rest"
    using ReadSlice_line[of r "hex_of n @ [CHR 0x0D]" "CHR 0x0A" rest] assms len nl
    by (auto simp: crlf_def bufio_ok_def bufio_size_def)
  have "bufio_ok r'" using ReadSlice_ok[OF r'(1) assms(3)] .
  then show ?thesis
    using r' len by (simp add: readChunkLine_def maxLineLength_def crlf_def)
qed

lemma beginChunk_header:
  assumes "stream (cr_r cr) = hex_of n @ crlf @ rest" and "n < 2 ^ 61" and "bufio_ok (cr_r cr)"
    and "excess cr = 0" and "cr_err cr = None"
  shows "\<exists>r'. beginChunk cr = cr\<lparr>cr_r := r', cr_n := of_nat n, cr_err := (if n = 0 then Some EOF else None)\<rparr> \<and>
    stream r' = rest \<and> bufio_ok r'"
proof -
  obtain r' where r': "readChunkLine (cr_r cr) = (hex_of n @ crlf, None, r')" "stream r' = rest" "bufio_ok r'"
    using header_line[OF assms(1-3)] by blast
  have len: "length (hex_of n) \<le> 16" using assms(2) by (intro length_hex_of) simp_all
  have last: "\<not> isASCIISpace (last (hex_of n))"
    using hex_of_bytes[of "last (hex_of n)" n] by simp
  have trim: "trimTrailingWhitespace (hex_of n @ crlf) = hex_of n"
    using last unfolding trimTrailingWhitespace_def trim_right_by_def crlf_def
    by (cases "hex_of n" rule: rev_cases) (auto simp: isASCIISpace_def)
  have ext: "removeChunkExtension (hex_of n) = (hex_of n, None)"
  proof -
    have "CHR '';'' \<notin> set (hex_of n)" using hex_of_bytes by blast
    then show ?thesis by (simp add: removeChunkExtension_def cut_byte_notin)
  qed
  have size: "parseHexUint (hex_of n) = Inr (of_nat n)" using assms(2) by (intro parseHexUint_hex_of) simp
  have z: "(of_nat n :: 64 word) = 0 \<longleftrightarrow> n = 0" by (rule of_nat_zero[OF assms(2)])
  have over: "length (hex_of n) + 4 \<le> 16 + 2 * n"
    using length_hex_of_le[of n] by (cases "n = 0") (auto simp: hex_of_zero)
  have e1: "wrap64 (0 + wrap64 (int (length (hex_of n @ crlf)) + 2)) = int (length (hex_of n) + 4)"
    using len by (simp add: crlf_def wrap64_id)
  have e2: "wrap64 (int (length (hex_of n) + 4) - wrap64 (16 + wrap64 (2 * int n))) =
      int (length (hex_of n) + 4) - (16 + 2 * int n)"
    using len assms(2) by (simp add: wrap64_id)
  have ex: "max (wrap64 (int (length (hex_of n) + 4) - wrap64 (16 + wrap64 (2 * int n)))) 0 = 0"
    unfolding e2 using over by simp
  have "beginChunk cr = cr\<lparr>cr_r := r', cr_n := of_nat n, excess := 0, cr_err := (if n = 0 then Some EOF else None)\<rparr>"
    unfolding beginChunk_def r'(1) using trim ext size ex z
    by (simp add: Let_def e1[simplified] assms(4) sint_small[OF assms(2)])
  then show ?thesis using r' assms(4,5) by (intro exI[of _ r']) simp
qed

section \<open>Reading what was written\<close>

text \<open>
  The reader stands before data \<open>D\<close>, followed by \<open>tail\<close> after the last chunk: inside a chunk, before
  the end of one, or before a header.
\<close>

definition good_chunks :: "string list \<Rightarrow> bool" where
  "good_chunks ds = (\<forall>d\<in>set ds. d \<noteq> [] \<and> length d < 2 ^ 61)"

definition stands_before :: "chunkedReader \<Rightarrow> string \<Rightarrow> string \<Rightarrow> bool" where
  "stands_before cr D tail =
     (cr_err cr = None \<and> excess cr = 0 \<and> bufio_ok (cr_r cr) \<and>
      (\<exists>cur ds. good_chunks ds \<and> length cur < 2 ^ 61 \<and> cr_n cr = of_nat (length cur) \<and>
         D = cur @ concat ds \<and> (checkEnd cr \<longrightarrow> cur = []) \<and>
         stream (cr_r cr) = cur @ (if cur \<noteq> [] \<or> checkEnd cr then crlf else []) @
           enc_chunks ds @ last_chunk @ tail))"

definition finished :: "chunkedReader \<Rightarrow> string \<Rightarrow> bool" where
  "finished cr tail = (cr_err cr = Some EOF \<and> stream (cr_r cr) = tail)"

definition after_read :: "string \<Rightarrow> string \<Rightarrow> nat \<Rightarrow> string \<Rightarrow> string \<Rightarrow> chunkedReader \<Rightarrow> bool" where
  "after_read D tail k got got' cr' =
     (\<exists>d D'. got' = got @ d \<and> D = d @ D' \<and> length d \<le> k \<and>
        (stands_before cr' D' tail \<and> (0 < k \<longrightarrow> got' \<noteq> []) \<or> D' = [] \<and> finished cr' tail))"

lemma stands_before_end:
  assumes "stands_before cr D tail" and "checkEnd cr"
  shows "\<exists>r'. ReadFull 2 (cr_r cr) = (crlf, None, r') \<and> stands_before (cr\<lparr>cr_r := r', checkEnd := False\<rparr>) D tail"
proof -
  obtain ds where ds: "good_chunks ds" "cr_n cr = 0" "D = concat ds"
    "stream (cr_r cr) = crlf @ enc_chunks ds @ last_chunk @ tail"
    and ok: "cr_err cr = None" "excess cr = 0" "bufio_ok (cr_r cr)"
    using assms by (auto simp: stands_before_def)
  obtain r' where r': "ReadFull 2 (cr_r cr) = (take 2 (stream (cr_r cr)), None, r')"
    "stream r' = drop 2 (stream (cr_r cr))" "bufio_ok r'"
    using ReadFull_enough[OF ok(3), of 2] ds(4) by (auto simp: crlf_def)
  have "take 2 (stream (cr_r cr)) = crlf" "stream r' = enc_chunks ds @ last_chunk @ tail"
    using r'(2) ds(4) by (simp_all add: crlf_def)
  then show ?thesis
    using r' ds ok unfolding stands_before_def
    by (intro exI[of _ r'] conjI exI[of _ "[]"] exI[of _ ds]) auto
qed

lemma stands_before_header:
  assumes "stands_before cr D tail" and "\<not> checkEnd cr" and "cr_n cr = 0"
  shows "stands_before (beginChunk cr) D tail \<and> cr_n (beginChunk cr) \<noteq> 0 \<and> \<not> checkEnd (beginChunk cr)
    \<or> D = [] \<and> finished (beginChunk cr) tail"
proof -
  obtain cur ds where cur: "length cur < 2 ^ 61" "cr_n cr = of_nat (length cur)"
    and ds0: "good_chunks ds" "D = cur @ concat ds"
    "stream (cr_r cr) = cur @ (if cur \<noteq> [] \<or> checkEnd cr then crlf else []) @ enc_chunks ds @ last_chunk @ tail"
    and ok: "cr_err cr = None" "excess cr = 0" "bufio_ok (cr_r cr)"
    using assms(1) by (auto simp: stands_before_def)
  have "unat (of_nat (length cur) :: 64 word) = length cur" using cur(1) by (intro unat_small) simp
  then have "cur = []" using cur(2) assms(3) by simp
  then have ds: "D = concat ds" "stream (cr_r cr) = enc_chunks ds @ last_chunk @ tail"
    using ds0 assms(2) by simp_all
  show ?thesis
  proof (cases ds)
    case Nil
    have "stream (cr_r cr) = hex_of 0 @ crlf @ tail"
      using ds Nil by (simp add: enc_chunks_def last_chunk_def hex_of_zero)
    then show ?thesis
      using beginChunk_header[of cr 0 tail] ok ds Nil by (auto simp: finished_def)
  next
    case (Cons d es)
    have d: "d \<noteq> []" "length d < 2 ^ 61" "good_chunks es" using ds0(1) Cons by (auto simp: good_chunks_def)
    let ?rest = "d @ crlf @ enc_chunks es @ last_chunk @ tail"
    have "stream (cr_r cr) = hex_of (length d) @ crlf @ ?rest"
      using ds Cons by (simp add: enc_chunks_def enc_chunk_def)
    then obtain r' where r': "beginChunk cr = cr\<lparr>cr_r := r', cr_n := of_nat (length d), cr_err := None\<rparr>"
      "stream r' = ?rest" "bufio_ok r'"
      using beginChunk_header[of cr "length d" ?rest] ok d by auto
    have nz: "(of_nat (length d) :: 64 word) \<noteq> 0" using of_nat_zero[OF d(2)] d(1) by simp
    have "stands_before (beginChunk cr) D tail"
      unfolding stands_before_def using r' d ds(1) Cons ok assms(2)
      by (intro conjI exI[of _ d] exI[of _ es]) auto
    then show ?thesis using r'(1) nz assms(2) by simp
  qed
qed

lemma stands_before_data:
  assumes "stands_before cr D tail" and "\<not> checkEnd cr" and "cr_n cr \<noteq> 0" and "0 < k"
    and rd: "read_data cr k = (d, cr')"
  shows "\<exists>D'. D = d @ D' \<and> d \<noteq> [] \<and> length d \<le> k \<and> stands_before cr' D' tail"
proof -
  obtain cur ds where cur: "length cur < 2 ^ 61" "cr_n cr = of_nat (length cur)"
    and ds: "good_chunks ds" "D = cur @ concat ds"
    "stream (cr_r cr) = cur @ crlf @ enc_chunks ds @ last_chunk @ tail"
    and ok: "cr_err cr = None" "excess cr = 0" "bufio_ok (cr_r cr)"
    using assms(1,3) by (auto simp: stands_before_def split: if_splits)
  have n: "unat (cr_n cr) = length cur" unfolding cur(2) using cur(1) by (intro unat_small) simp
  let ?k = "if length cur < k then length cur else k"
  have ne: "cur \<noteq> []" using assms(3) cur(2) by auto
  obtain e r' where b: "bufio_Read ?k (cr_r cr) = (d, e, r')"
    using rd unfolding read_data_def n Let_def by (auto split: prod.splits)
  note spec = bufio_Read_spec[OF b ok(3)]
  have e: "e = None" using ds(3) ne by (intro spec(7)) simp
  have d: "d \<noteq> []" "length d \<le> ?k" using spec(3,4) e ne assms(4) by auto
  have le: "length d \<le> length cur" using d(2) by (simp split: if_splits)
  define cur' where "cur' = drop (length d) cur"
  have split: "cur = d @ cur'" "stream r' = cur' @ crlf @ enc_chunks ds @ last_chunk @ tail"
  proof -
    have s: "cur @ crlf @ enc_chunks ds @ last_chunk @ tail = d @ stream r'" using spec(1) ds(3) by simp
    then have "take (length d) (cur @ crlf @ enc_chunks ds @ last_chunk @ tail) = d" by simp
    then show "cur = d @ cur'" using le by (metis append_take_drop_id cur'_def take_append diff_is_0_eq' append_Nil2 take0)
    then show "stream r' = cur' @ crlf @ enc_chunks ds @ last_chunk @ tail" using s by simp
  qed
  have n': "cr_n cr - of_nat (length d) = of_nat (length cur')"
    unfolding cur(2) using split(1) by simp
  have small: "length cur' < 2 ^ 61" using split(1) cur(1) by simp
  have z: "(of_nat (length cur') :: 64 word) = 0 \<longleftrightarrow> cur' = []"
    using of_nat_zero[OF small] by simp
  have cr': "cr' = cr\<lparr>cr_r := r', cr_n := of_nat (length cur'), checkEnd := (cur' = []), cr_err := None\<rparr>"
    using rd e ok(1) z n' assms(2) unfolding read_data_def n Let_def b by (auto split: if_splits)
  have "stands_before cr' (cur' @ concat ds) tail"
    unfolding stands_before_def cr' using ds(1) split(2) small ok spec(2)
    by (intro conjI exI[of _ cur'] exI[of _ ds]) auto
  then show ?thesis using d ds(2) split(1) by (intro exI[of _ "cur' @ concat ds"]) (simp split: if_splits)
qed

lemma chunked_Read_done: "cr_err cr = Some e \<Longrightarrow> chunked_Read cr k got = (got, cr)"
  by (simp add: chunked_Read.simps)

lemma after_read_done:
  "cr_err cr = Some EOF \<Longrightarrow> stream (cr_r cr) = tail \<Longrightarrow> after_read [] tail k got got cr"
  by (simp add: after_read_def finished_def)

lemma after_read_break:
  "stands_before cr D tail \<Longrightarrow> got \<noteq> [] \<or> k = 0 \<Longrightarrow> after_read D tail k got got cr"
  by (auto simp: after_read_def)

lemma chunked_Read_after:
  "stands_before cr D tail \<Longrightarrow> chunked_Read cr k got = (got', cr') \<Longrightarrow> after_read D tail k got got' cr'"
proof (induction cr k got arbitrary: D rule: chunked_Read.induct)
  case (1 cr k got)
  have err: "cr_err cr = None" using 1(4) by (simp add: stands_before_def)
  show ?case
  proof (cases "checkEnd cr")
    case True
    obtain r' where r': "ReadFull 2 (cr_r cr) = (crlf, None, r')"
      "stands_before (cr\<lparr>cr_r := r', checkEnd := False\<rparr>) D tail"
      using stands_before_end[OF 1(4) True] by blast
    show ?thesis
    proof (cases "got \<noteq> [] \<and> Buffered (cr_r cr) < 2")
      case True2: True
      then have "got' = got" "cr' = cr" using 1(5) err True by (simp_all add: chunked_Read.simps[of cr])
      then show ?thesis using after_read_break[OF 1(4)] True2 by simp
    next
      case False
      have "chunked_Read (cr\<lparr>cr_r := r', checkEnd := False\<rparr>) k got = (got', cr')"
        using 1(5) err True False r'(1) by (subst (asm) chunked_Read.simps) simp
      then show ?thesis using 1(1)[OF _ True False r'(1)[symmetric] refl] r'(2) err by simp
    qed
  next
    case False
    show ?thesis
    proof (cases "cr_n cr = 0")
      case True
      show ?thesis
      proof (cases "got \<noteq> [] \<and> \<not> chunkHeaderAvailable cr")
        case True2: True
        then have "got' = got" "cr' = cr" using 1(5) err True False by (simp_all add: chunked_Read.simps[of cr])
        then show ?thesis using after_read_break[OF 1(4)] True2 by simp
      next
        case False2: False
        have rec: "chunked_Read (beginChunk cr) k got = (got', cr')"
          using 1(5) err True False False2 by (subst (asm) chunked_Read.simps) simp
        from stands_before_header[OF 1(4) False True] show ?thesis
        proof
          assume "stands_before (beginChunk cr) D tail \<and> cr_n (beginChunk cr) \<noteq> 0 \<and> \<not> checkEnd (beginChunk cr)"
          then show ?thesis using 1(2)[OF _ False True False2] rec err by simp
        next
          assume fin: "D = [] \<and> finished (beginChunk cr) tail"
          then show ?thesis
            using rec chunked_Read_done[of "beginChunk cr" EOF k got] by (auto simp: finished_def intro: after_read_done)
        qed
      qed
    next
      case n: False
      show ?thesis
      proof (cases "k = 0")
        case True
        then have "got' = got" "cr' = cr" using 1(5) err n False by (simp_all add: chunked_Read.simps[of cr])
        then show ?thesis using after_read_break[OF 1(4)] True by simp
      next
        case k: False
        obtain d cr1 where rd: "read_data cr k = (d, cr1)" by (cases "read_data cr k")
        obtain D' where D': "D = d @ D'" "d \<noteq> []" "length d \<le> k" "stands_before cr1 D' tail"
          using stands_before_data[OF 1(4) False n _ rd] k by blast
        have "chunked_Read cr1 (k - length d) (got @ d) = (got', cr')"
          using 1(5) err n False k rd by (subst (asm) chunked_Read.simps) simp
        then have "after_read D' tail (k - length d) (got @ d) got' cr'"
          using 1(3)[OF _ False n k rd[symmetric]] D'(4) err by simp
        then obtain d2 D2 where d2: "got' = (got @ d) @ d2" "D' = d2 @ D2" "length d2 \<le> k - length d"
          "stands_before cr' D2 tail \<or> D2 = [] \<and> finished cr' tail"
          unfolding after_read_def by blast
        then show ?thesis
          unfolding after_read_def using D'(1-3) by (intro exI[of _ "d @ d2"] exI[of _ D2]) auto
      qed
    qed
  qed
qed

section \<open>The round trip\<close>

text \<open>Successive calls of Read with slices of the given sizes, until one returns an error.\<close>

fun read_calls :: "chunkedReader \<Rightarrow> nat list \<Rightarrow> string \<times> chunkedReader" where
  "read_calls cr [] = ([], cr)"
| "read_calls cr (k # ks) =
     (case chunked_Read cr k [] of
        (d, cr') \<Rightarrow>
          if cr_err cr' \<noteq> None then (d, cr')
          else (case read_calls cr' ks of (e, cr'') \<Rightarrow> (d @ e, cr'')))"

lemma read_calls_stands_before:
  assumes "stands_before cr D tail" and "\<forall>k\<in>set ks. 0 < k" and "length D < length ks"
  shows "\<exists>cr'. read_calls cr ks = (D, cr') \<and> finished cr' tail"
  using assms
proof (induction ks arbitrary: cr D)
  case (Cons k ks)
  obtain d cr1 where rd: "chunked_Read cr k [] = (d, cr1)" by (cases "chunked_Read cr k []")
  obtain D' where D': "D = d @ D'"
    "stands_before cr1 D' tail \<and> d \<noteq> [] \<or> D' = [] \<and> finished cr1 tail"
    using chunked_Read_after[OF Cons.prems(1) rd] Cons.prems(2) by (auto simp: after_read_def)
  from D'(2) show ?case
  proof
    assume fin: "D' = [] \<and> finished cr1 tail"
    then show ?thesis using rd D'(1) by (simp add: finished_def)
  next
    assume st: "stands_before cr1 D' tail \<and> d \<noteq> []"
    then have "length D' < length ks" using Cons.prems(3) D'(1) by (cases d) auto
    then obtain cr' where "read_calls cr1 ks = (D', cr')" "finished cr' tail"
      using Cons.IH[of cr1 D'] st Cons.prems(2) by auto
    moreover have "cr_err cr1 = None" using st by (simp add: stands_before_def)
    ultimately show ?thesis using rd D'(1) by simp
  qed
qed simp

lemma new_reader_stands_before:
  assumes "good_chunks ds" and "stream r = enc_chunks ds @ last_chunk @ tail" and "bufio_ok r"
  shows "stands_before (new_chunkedReader r) (concat ds) tail"
  unfolding stands_before_def new_chunkedReader_def using assms
  by (intro conjI exI[of _ "[]"] exI[of _ ds]) auto

lemma concat_filter_nonempty: "concat (filter (\<lambda>d. d \<noteq> []) ds) = concat ds"
  by (induction ds) auto

lemma chunked_roundtrip_all:
  assumes "\<forall>d\<in>set ds. length d < 2 ^ 61" and "stream r = write_all ds [] @ tail" and "bufio_ok r"
    and "\<forall>k\<in>set ks. 0 < k" and "length (concat ds) < length ks"
  shows "\<exists>cr. read_calls (new_chunkedReader r) ks = (concat ds, cr) \<and> finished cr tail"
proof -
  have "good_chunks (filter (\<lambda>d. d \<noteq> []) ds)" using assms(1) by (auto simp: good_chunks_def)
  then have "stands_before (new_chunkedReader r) (concat ds) tail"
    using new_reader_stands_before[of "filter (\<lambda>d. d \<noteq> []) ds" r tail] assms(2,3)
    by (simp add: write_all_enc concat_filter_nonempty)
  then show ?thesis using read_calls_stands_before assms(4,5) by blast
qed

section \<open>Properties\<close>

text \<open>parseHexUint accepts exactly the strings of one to sixteen hexadecimal digits, and gives their
  value without wrapping around.\<close>

theorem parseHexUint_exact:
  "parseHexUint v = Inr n \<longleftrightarrow> v \<noteq> [] \<and> list_all is_hex v \<and> length v \<le> 16 \<and> unat n = hex_number 0 v"
  by (rule parseHexUint_iff)

text \<open>C7: The pieces written by a chunked writer and closed are read back in full by a chunked reader, through
  any sequence of reads into non-empty buffers, however the bytes arrive; the reader then stands at the end of
  the body, and what follows it is untouched.\<close>

theorem chunked_roundtrip:
  assumes "\<forall>d\<in>set ds. length d < 2 ^ 61" and "stream r = write_all ds [] @ tail" and "bufio_ok r"
    and "\<forall>k\<in>set ks. 0 < k" and "length (concat ds) < length ks"
  shows "\<exists>cr. read_calls (new_chunkedReader r) ks = (concat ds, cr) \<and> finished cr tail"
  by (rule chunked_roundtrip_all[OF assms])

lemma chunked_roundtrip_witness:
  "\<exists>cr. read_calls (new_chunkedReader \<lparr>bf_buf = [], bf_src = [[CHR ''2'', CHR 0x0D, CHR 0x0A, CHR ''h'', CHR ''i''],
       [CHR 0x0D, CHR 0x0A, CHR ''0'', CHR 0x0D, CHR 0x0A, CHR ''x'']]\<rparr>) [1, 4, 1] = (''hi'', cr) \<and> finished cr ''x''"
proof -
  let ?r = "\<lparr>bf_buf = [], bf_src = [[CHR ''2'', CHR 0x0D, CHR 0x0A, CHR ''h'', CHR ''i''],
       [CHR 0x0D, CHR 0x0A, CHR ''0'', CHR 0x0D, CHR 0x0A, CHR ''x'']]\<rparr>"
  have w: "write_all [''hi''] [] = [CHR ''2'', CHR 0x0D, CHR 0x0A, CHR ''h'', CHR ''i'',
       CHR 0x0D, CHR 0x0A, CHR ''0'', CHR 0x0D, CHR 0x0A]"
    by code_simp
  have st: "stream ?r = write_all [''hi''] [] @ ''x''" unfolding w by (simp add: stream_def)
  have ds: "\<forall>d\<in>set [''hi'']. length d < 2 ^ 61" "bufio_ok ?r" "\<forall>k\<in>set [1, 4, 1 :: nat]. 0 < k"
    "length (concat [''hi'']) < length [1, 4, 1 :: nat]"
    by (simp_all add: bufio_ok_def)
  show ?thesis using chunked_roundtrip[OF ds(1) st ds(2-4)] by (simp only: concat.simps append_Nil2)
qed

end
