(* ===== verification/Http_Header.thy ===== *)
theory Http_Header
  imports Textproto_Correct Chunked_Correct
begin

text \<open>
  HTTP headers (src/http/header.go, src/http/clone.go) and the small string functions of
  src/http/http.go: the operations on the map, which are those of a MIME header, the writer, the search
  for a token, and the proof that a written header is read back by ReadMIMEHeader.
\<close>

section \<open>The map\<close>

definition Header_Add :: "string \<Rightarrow> string \<Rightarrow> multimap \<Rightarrow> multimap" where
  "Header_Add key val h = MIMEHeader_Add key val h"

definition Header_Set :: "string \<Rightarrow> string \<Rightarrow> multimap \<Rightarrow> multimap" where
  "Header_Set key val h = MIMEHeader_Set key val h"

definition Header_Get :: "string \<Rightarrow> multimap \<Rightarrow> string" where
  "Header_Get key h = MIMEHeader_Get key h"

definition Header_Del :: "string \<Rightarrow> multimap \<Rightarrow> multimap" where
  "Header_Del key h = MIMEHeader_Del key h"

text \<open>The lookups of a key that is already canonical.\<close>

definition header_get :: "string \<Rightarrow> multimap \<Rightarrow> string" where
  "header_get key h = (let v = values_at h key in if 0 < length v then v ! 0 else [])"

definition header_has :: "string \<Rightarrow> multimap \<Rightarrow> bool" where
  "header_has key h = (map_of h key \<noteq> None)"

text \<open>The default limit for the size of a header, of both kinds of server.\<close>

definition DefaultMaxHeaderBytes :: int where "DefaultMaxHeaderBytes = 0x100000"

definition CanonicalHeaderKey :: "string \<Rightarrow> string" where
  "CanonicalHeaderKey s = CanonicalMIMEHeaderKey s"

interpretation hh: multi_store CanonicalHeaderKey Header_Get MIMEHeader_Values Header_Set Header_Add Header_Del gomap_ok
  by unfold_locales
    (simp_all add: CanonicalHeaderKey_def Header_Get_def Header_Set_def Header_Add_def Header_Del_def
      mh.get_vals mh.vals_put mh.vals_add mh.vals_del mh.put_ok mh.add_ok mh.del_ok)

text \<open>A nil header is None; the copy has the keys and the values of the original.\<close>

definition Header_Clone :: "multimap option \<Rightarrow> multimap option" where
  "Header_Clone h =
     (case h of
        None \<Rightarrow> None
      | Some m \<Rightarrow> Some (fold (\<lambda>(k, vv) h2. AList.update k vv h2) m []))"

definition cloneOrMakeHeader :: "multimap option \<Rightarrow> multimap" where
  "cloneOrMakeHeader hdr = (case Header_Clone hdr of None \<Rightarrow> [] | Some m \<Rightarrow> m)"

section \<open>Writing\<close>

definition headerNewlineToSpace :: "string \<Rightarrow> string" where
  "headerNewlineToSpace v = map (\<lambda>c. if c = CHR 0x0A \<or> c = CHR 0x0D then CHR '' '' else c) v"

definition sortedKeyValues :: "(string, bool) gomap \<Rightarrow> multimap \<Rightarrow> multimap" where
  "sortedKeyValues exclude h = sort_key fst (filter (\<lambda>(k, _). map_of exclude k \<noteq> Some True) h)"

text \<open>The writes of a list of strings, until one fails.\<close>

fun write_strings :: "'w wire \<Rightarrow> string list \<Rightarrow> 'w \<Rightarrow> 'w \<times> io_error option" where
  "write_strings wr [] w = (w, None)"
| "write_strings wr (s # ss) w =
     (case wr s w of
        (w1, _, Some err) \<Rightarrow> (w1, Some err)
      | (w1, _, None) \<Rightarrow> write_strings wr ss w1)"

fun write_values :: "'w wire \<Rightarrow> string \<Rightarrow> string list \<Rightarrow> 'w \<Rightarrow> 'w \<times> io_error option" where
  "write_values wr key [] w = (w, None)"
| "write_values wr key (v # vs) w =
     (case write_strings wr [key, '': '', TrimString (headerNewlineToSpace v), crlf] w of
        (w1, Some err) \<Rightarrow> (w1, Some err)
      | (w1, None) \<Rightarrow> write_values wr key vs w1)"

fun write_kvs :: "'w wire \<Rightarrow> multimap \<Rightarrow> 'w \<Rightarrow> 'w \<times> io_error option" where
  "write_kvs wr [] w = (w, None)"
| "write_kvs wr ((k, vs) # kvs) w =
     (case write_values wr k vs w of
        (w1, Some err) \<Rightarrow> (w1, Some err)
      | (w1, None) \<Rightarrow> write_kvs wr kvs w1)"

definition writeSubset :: "'w wire \<Rightarrow> (string, bool) gomap \<Rightarrow> multimap \<Rightarrow> 'w \<Rightarrow> 'w \<times> io_error option" where
  "writeSubset wr exclude h w = write_kvs wr (sortedKeyValues exclude h) w"

definition Header_Write :: "'w wire \<Rightarrow> multimap \<Rightarrow> 'w \<Rightarrow> 'w \<times> io_error option" where
  "Header_Write wr h w = writeSubset wr [] h w"

section \<open>Tokens\<close>

definition isTokenBoundary :: "char \<Rightarrow> bool" where
  "isTokenBoundary b = (b = CHR '' '' \<or> b = CHR '','' \<or> b = CHR 0x09)"

definition or_0x20 :: "char \<Rightarrow> char" where
  "or_0x20 b = char_of (of_char b OR 32 :: nat)"

text \<open>The test at the start position \<open>sp\<close>.\<close>

definition token_at :: "string \<Rightarrow> string \<Rightarrow> nat \<Rightarrow> bool" where
  "token_at v tok sp =
     (if v ! sp \<noteq> tok ! 0 \<and> or_0x20 (v ! sp) \<noteq> tok ! 0 then False
      else if 0 < sp \<and> \<not> isTokenBoundary (v ! (sp - 1)) then False
      else if sp + length tok \<noteq> length v \<and> \<not> isTokenBoundary (v ! (sp + length tok)) then False
      else EqualFold (take (length tok) (drop sp v)) tok)"

definition hasToken :: "string \<Rightarrow> string \<Rightarrow> bool" where
  "hasToken v tok =
     (if length v < length tok \<or> tok = [] then False
      else if v = tok then True
      else list_ex (token_at v tok) [0..<Suc (length v - length tok)])"

section \<open>String functions of http.go\<close>

definition hasPort :: "string \<Rightarrow> bool" where
  "hasPort s =
     (case (last_index_byte (CHR '':'') s, last_index_byte (CHR '']'') s) of
        (None, _) \<Rightarrow> False
      | (Some i, None) \<Rightarrow> True
      | (Some i, Some j) \<Rightarrow> j < i)"

definition removeEmptyPort :: "string \<Rightarrow> string" where
  "removeEmptyPort host = (if hasPort host then trim_suffix host '':'' else host)"

fun hex_escape_loop :: "string \<Rightarrow> string" where
  "hex_escape_loop [] = []"
| "hex_escape_loop (c # s) =
     (if CHR 0x80 \<le> c then CHR ''%'' # hex_of (of_char c) @ hex_escape_loop s
      else c # hex_escape_loop s)"

definition hexEscapeNonASCII :: "string \<Rightarrow> string" where
  "hexEscapeNonASCII s =
     (if sum_list (map (\<lambda>c. if CHR 0x80 \<le> c then 3 else 1) s) = length s then s else hex_escape_loop s)"

section \<open>Correctness\<close>

lemma Clone_map: "map_of (cloneOrMakeHeader (Some m)) k = map_of m k" if "gomap_ok m"
proof -
  have "map_of (fold (\<lambda>(k, vv) h2. AList.update k vv h2) es h0) k =
      (case map_of es k of None \<Rightarrow> map_of h0 k | Some v \<Rightarrow> Some v)" if "gomap_ok es" for es h0 :: multimap
    using that
  proof (induction es arbitrary: h0)
    case (Cons e es)
    then show ?case
      by (cases e) (auto simp: update_conv' dom_map_of_conv_image_fst split: option.splits
          dest: map_of_SomeD intro: rev_image_eqI)
  qed simp
  then show ?thesis using that by (simp add: cloneOrMakeHeader_def Header_Clone_def split: option.split)
qed

text \<open>hasToken finds the token exactly where it stands between boundaries, up to the case of letters.\<close>

definition token_occurs :: "string \<Rightarrow> string \<Rightarrow> bool" where
  "token_occurs v tok =
     (\<exists>pre mid post. v = pre @ mid @ post \<and> EqualFold mid tok \<and>
        (pre = [] \<or> isTokenBoundary (last pre)) \<and> (post = [] \<or> isTokenBoundary (hd post)))"

definition lower_token :: "string \<Rightarrow> bool" where
  "lower_token t = (t \<noteq> [] \<and> map lower t = t)"

lemma or_0x20_letter: "lower b = c \<Longrightarrow> b \<noteq> c \<Longrightarrow> or_0x20 b = c"
proof -
  assume l: "lower b = c" "b \<noteq> c"
  then have b: "CHR ''A'' \<le> b" "b \<le> CHR ''Z''" "c = char_of (of_char b + 32 :: nat)"
    by (auto simp: lower_def split: if_splits)
  have tab: "list_all (\<lambda>n. n OR 32 = n + (32 :: nat)) [65..<91]" by code_simp
  have "65 \<le> (of_char b :: nat)" "of_char b \<le> (90 :: nat)" using b(1,2) by (simp_all add: less_eq_char_def)
  then have "of_char b \<in> set [65..<91 :: nat]" unfolding set_upt atLeastLessThan_iff by linarith
  then have "of_char b OR 32 = of_char b + (32 :: nat)" using tab unfolding list_all_iff by blast
  then show ?thesis by (simp add: or_0x20_def b(3))
qed

lemma hasToken_iff:
  assumes "lower_token tok"
  shows "hasToken v tok \<longleftrightarrow> token_occurs v tok"
proof
  assume h: "hasToken v tok"
  then have len: "length tok \<le> length v" "tok \<noteq> []" by (auto simp: hasToken_def split: if_splits)
  show "token_occurs v tok"
  proof (cases "v = tok")
    case True
    then have "v = [] @ tok @ []" "EqualFold tok tok" by simp_all
    then show ?thesis unfolding token_occurs_def by blast
  next
    case False
    then have "\<exists>sp\<in>set [0..<Suc (length v - length tok)]. token_at v tok sp"
      using h len unfolding hasToken_def list_ex_iff by (metis not_less)
    then obtain sp where in_range: "sp \<in> set [0..<Suc (length v - length tok)]" and at: "token_at v tok sp"
      by (elim bexE)
    have sp: "sp \<le> length v - length tok" "token_at v tok sp" using in_range at by auto
    let ?pre = "take sp v" and ?mid = "take (length tok) (drop sp v)" and ?post = "drop (sp + length tok) v"
    have "?post = drop (length tok) (drop sp v)" by (simp add: add.commute)
    then have "?mid @ ?post = drop sp v" by (simp only: append_take_drop_id)
    then have parts: "v = ?pre @ ?mid @ ?post" by (simp only: append_take_drop_id)
    have last_pre: "0 < sp \<Longrightarrow> last ?pre = v ! (sp - 1)"
      using sp(1) len by (subst last_conv_nth) auto
    have before: "?pre = [] \<or> isTokenBoundary (last ?pre)"
      using sp last_pre by (cases "0 < sp") (auto simp: token_at_def split: if_splits)
    have first_post: "sp + length tok < length v \<Longrightarrow> hd ?post = v ! (sp + length tok)"
      by (rule hd_drop_conv_nth)
    have "?post = [] \<or> isTokenBoundary (hd ?post)"
      using sp first_post by (cases "sp + length tok < length v") (auto simp: token_at_def split: if_splits)
    moreover have "EqualFold ?mid tok" using sp by (simp add: token_at_def split: if_splits)
    ultimately show ?thesis using parts before unfolding token_occurs_def by blast
  qed
next
  assume "token_occurs v tok"
  then obtain pre mid post where v: "v = pre @ mid @ post" "EqualFold mid tok"
    "pre = [] \<or> isTokenBoundary (last pre)" "post = [] \<or> isTokenBoundary (hd post)"
    by (auto simp: token_occurs_def)
  have len: "length mid = length tok" using v(2) by (simp add: EqualFold_def split: if_splits)
  have ne: "tok \<noteq> []" using assms by (simp add: lower_token_def)
  then obtain b ms where mid: "mid = b # ms" using len by (cases mid) auto
  have "lower b = tok ! 0"
    using v(2) assms ne unfolding EqualFold_iff mid lower_token_def by (cases tok) auto
  then have first: "\<not> (b \<noteq> tok ! 0 \<and> or_0x20 b \<noteq> tok ! 0)" using or_0x20_letter by blast
  have here: "v ! length pre = b" "take (length tok) (drop (length pre) v) = mid"
    using v(1) mid by (simp_all add: len[symmetric])
  have before: "isTokenBoundary (v ! (length pre - 1))" if "0 < length pre"
  proof -
    have "last pre = v ! (length pre - 1)" using that v(1) by (simp add: last_conv_nth nth_append)
    then show ?thesis using v(3) that by auto
  qed
  have behind: "isTokenBoundary (v ! (length pre + length tok))" if "length pre + length tok \<noteq> length v"
  proof -
    have "post \<noteq> []" using that v(1) len by auto
    moreover have "v ! (length pre + length tok) = post ! 0" using v(1) len by (simp add: nth_append)
    ultimately show ?thesis using v(4) by (simp add: hd_conv_nth)
  qed
  have "token_at v tok (length pre)"
    unfolding token_at_def here if_not_P[OF first] using before behind v(2) by (cases "pre = []") auto
  moreover have "length pre \<le> length v - length tok" using v(1) len by simp
  ultimately have "list_ex (token_at v tok) [0..<Suc (length v - length tok)]"
    unfolding list_ex_iff by (intro bexI[of _ "length pre"]) auto
  moreover have "\<not> (length v < length tok \<or> tok = [])" using v(1) len ne by simp
  ultimately show "hasToken v tok" unfolding hasToken_def by simp
qed

lemma hexEscapeNonASCII_loop: "hexEscapeNonASCII s = hex_escape_loop s"
proof -
  have ge: "length s \<le> sum_list (map (\<lambda>c. if CHR 0x80 \<le> c then 3 else 1) s)" for s :: string
    by (induction s) auto
  have "sum_list (map (\<lambda>c. if CHR 0x80 \<le> c then 3 else 1) s) = length s \<Longrightarrow> hex_escape_loop s = s"
  proof (induction s)
    case (Cons c s)
    then show ?case using ge[of s] by (auto split: if_splits)
  qed simp
  then show ?thesis by (simp add: hexEscapeNonASCII_def)
qed

section \<open>A written header is read back\<close>

definition clean_value :: "string \<Rightarrow> string" where
  "clean_value v = TrimString (headerNewlineToSpace v)"

definition header_entries :: "multimap \<Rightarrow> (string \<times> string) list" where
  "header_entries h = concat (map (\<lambda>(k, vs). map (\<lambda>v. (k, clean_value v)) vs) h)"

definition entry_text :: "string \<times> string \<Rightarrow> string" where
  "entry_text e = fst e @ '': '' @ snd e @ crlf"

lemma write_values_buffer:
  "write_values buffer_wire k vs w = (w @ concat (map entry_text (map (\<lambda>v. (k, clean_value v)) vs)), None)"
  by (induction vs arbitrary: w) (simp_all add: buffer_wire_def entry_text_def clean_value_def)

lemma write_kvs_buffer: "write_kvs buffer_wire kvs w = (w @ concat (map entry_text (header_entries kvs)), None)"
proof (induction kvs arbitrary: w)
  case (Cons e kvs)
  then show ?case by (cases e) (simp add: write_values_buffer header_entries_def)
qed (simp add: header_entries_def)

text \<open>A canonical key that is a token, and a value that the reader accepts and does not trim.\<close>

definition blank :: "char \<Rightarrow> bool" where
  "blank c = (c = CHR '' '' \<or> c = CHR 0x09)"

definition entry_ok :: "string \<times> string \<Rightarrow> bool" where
  "entry_ok e =
     (fst e \<noteq> [] \<and> token (fst e) \<and> CanonicalMIMEHeaderKey (fst e) = fst e \<and>
      list_all validHeaderValueByte (snd e) \<and>
      (snd e \<noteq> [] \<longrightarrow> \<not> blank (hd (snd e)) \<and> \<not> blank (last (snd e))))"

lemma token_facts:
  "validHeaderFieldByte c \<Longrightarrow> c \<noteq> CHR '':'' \<and> c \<noteq> CHR 0x0A \<and> c \<noteq> CHR 0x0D \<and> \<not> blank c"
  unfolding validHeaderFieldByte_token token_byte_def blank_def by (auto simp: less_eq_char_def)

lemma value_facts: "validHeaderValueByte c \<Longrightarrow> c \<noteq> CHR 0x0A \<and> c \<noteq> CHR 0x0D"
  unfolding validHeaderValueByte_iff by (auto simp: less_eq_char_def)

lemma ReadByte_Unread:
  assumes "ReadByte b = (Some c, e, b')" and "bufio_ok b"
  shows "bufio_ok (UnreadByte c b')"
  using assms
proof (induction b rule: ReadByte.induct)
  case (1 b)
  show ?case
  proof (cases "bf_buf b")
    case (Cons d cs)
    then show ?thesis using 1(2,3) by (auto simp: ReadByte.simps[of b] UnreadByte_def bufio_ok_def)
  next
    case Nil
    show ?thesis
    proof (cases "bf_src b = []")
      case True
      then show ?thesis using 1(2) Nil by (simp add: ReadByte.simps[of b])
    next
      case False
      then have "ReadByte (bufio_fill b) = (Some c, e, b')" using 1(2) Nil by (simp add: ReadByte.simps[of b])
      then show ?thesis using 1(1)[OF Nil False] 1(3) bufio_fill_ok by blast
    qed
  qed
qed

lemma skipSpace_none:
  assumes "stream b = c # s" and "\<not> blank c" and "bufio_ok b"
  shows "\<exists>b'. skipSpace b = (0, b') \<and> stream b' = stream b \<and> bufio_ok b'"
proof -
  obtain r e b1 where rb: "ReadByte b = (r, e, b1)" by (cases "ReadByte b")
  then have r: "r = Some c" "stream b1 = s" using ReadByte_stream[OF rb] assms by auto
  then show ?thesis
    using rb assms ReadByte_Unread[of b c e b1]
    by (auto simp: skipSpace_def skipSpace_loop.simps blank_def)
qed

lemma trim_entry:
  assumes "entry_ok (k, v)"
  shows "trim (k @ '': '' @ v) = (if v = [] then k @ '':'' else k @ '': '' @ v)"
proof -
  have hd: "\<not> blank (hd k)" "k \<noteq> []"
    using assms token_facts by (cases k; auto simp: entry_ok_def)+
  have left: "trim_left_by blank (k @ s) = k @ s" for s
    using hd by (intro trim_left_by_id) simp
  have colon: "\<not> blank (CHR '':'')" "blank (CHR '' '')" by (simp_all add: blank_def)
  have right: "trim_right_by blank (k @ '': '' @ v) = (if v = [] then k @ '':'' else k @ '': '' @ v)"
  proof (cases "v = []")
    case True
    then show ?thesis using colon by (simp add: trim_right_by_def)
  next
    case False
    then show ?thesis using assms by (subst trim_right_by_id) (auto simp: entry_ok_def)
  qed
  have blank: "(\<lambda>c. c = CHR '' '' \<or> c = CHR 0x09) = blank" by (rule ext) (simp add: blank_def)
  show ?thesis unfolding trim_def Let_def blank left right ..
qed

lemma mime_line_entry:
  assumes "entry_ok (k, v)"
  shows "mime_line (if v = [] then k @ '':'' else k @ '': '' @ v) = HeaderEntry k v"
proof -
  let ?v = "if v = [] then [] else '' '' @ v"
  have blank: "(\<lambda>c. c = CHR '' '' \<or> c = CHR 0x09) = blank" by (rule ext) (simp add: blank_def)
  have kv: "(if v = [] then k @ '':'' else k @ '': '' @ v) = k @ CHR '':'' # ?v" by simp
  have "CHR '':'' \<notin> set k" using assms token_facts by (auto simp: entry_ok_def list_all_iff)
  then have cut: "cut_byte (CHR '':'') (k @ CHR '':'' # ?v) = (k, ?v, True)" by (rule cut_byte_in)
  have can: "canonicalMIMEHeaderKey k = (k, True)"
    using assms canonicalMIMEHeaderKey_token[of k] CanonicalMIMEHeaderKey_token[of k] by (simp add: entry_ok_def)
  have valid: "list_all validHeaderValueByte ?v"
    using assms by (auto simp: entry_ok_def validHeaderValueByte_iff)
  have "trim_left_by blank v = v" using assms by (intro trim_left_by_id) (auto simp: entry_ok_def)
  then have tl: "trim_left_by blank ?v = v"
    by (auto simp: trim_left_by_def blank_def)
  show ?thesis
    unfolding kv mime_line_def Let_def cut prod.case can using valid tl assms
    by (simp add: blank entry_ok_def)
qed

lemma readContinued_entry:
  assumes "entry_ok (k, v)" and "stream (rd_R r) = entry_text (k, v) @ c # s" and "\<not> blank c"
    and "bufio_ok (rd_R r)" and "rd_dot r = None"
  shows "\<exists>r'. readContinuedLineSlice mustHaveFieldNameColon r =
      ((if v = [] then k @ '':'' else k @ '': '' @ v), None, r') \<and>
    stream (rd_R r') = c # s \<and> bufio_ok (rd_R r') \<and> rd_dot r' = None"
proof -
  let ?line = "k @ '': '' @ v"
  have "CHR 0x0A \<notin> set ?line"
    using assms(1) token_facts value_facts by (auto simp: entry_ok_def list_all_iff)
  then have nl: "CHR 0x0A \<notin> set (?line @ [CHR 0x0D])" by simp
  have st: "stream (rd_R r) = (?line @ [CHR 0x0D]) @ CHR 0x0A # (c # s)"
    using assms(2) by (simp add: entry_text_def crlf_def)
  obtain b1 where b1: "readLineSlice_loop [] (rd_R r) = (Inr ?line, b1)" "stream b1 = c # s" "bufio_ok b1"
    using readLine_stream[OF st nl assms(4), of "[]"] strip_cr_snoc[of ?line] by auto
  let ?r1 = "r\<lparr>rd_R := b1\<rparr>"
  have rl: "readLineSlice r = (Inr ?line, ?r1)"
    using b1(1) assms(5) by (simp add: readLineSlice_def closeDot_def)
  have ne: "length ?line \<noteq> 0" by simp
  have colon: "mustHaveFieldNameColon ?line = None"
    by (auto simp: mustHaveFieldNameColon_def index_byte_None)
  obtain p b2 where p: "(if 1 < Buffered (rd_R ?r1) then (case Peek 2 (rd_R ?r1) of (p, _, b') \<Rightarrow> (p, b'))
      else ([], rd_R ?r1)) = (p, b2)"
    by (metis surj_pair)
  have b2: "stream b2 = c # s" "bufio_ok b2"
    using p b1 stream_Peek[of 2 b1] by (auto split: if_splits prod.splits)
  obtain b3 where b3: "skipSpace b2 = (0, b3)" "stream b3 = c # s" "bufio_ok b3"
    using skipSpace_none[OF b2(1) assms(3) b2(2)] b2(1) by auto
  have slow: "continued_loop (trim ?line) b2 = (trim ?line, b3)"
    using b3(1) by (simp add: continued_loop.simps)
  have "readContinuedLineSlice mustHaveFieldNameColon r =
      (if 0 < length p \<and> (isASCIILetter (p ! 0) \<or> p ! 0 = CHR 0x0A) \<or>
          length p = 2 \<and> p ! 0 = CHR 0x0D \<and> p ! 1 = CHR 0x0A
       then (trim ?line, None, r\<lparr>rd_R := b2\<rparr>) else (trim ?line, None, r\<lparr>rd_R := b3\<rparr>))"
    unfolding readContinuedLineSlice_def rl prod.case sum.case if_not_P[OF ne] colon option.case Let_def p slow
    by (simp del: append.simps) argo
  then show ?thesis
    unfolding trim_entry[OF assms(1)] using b2 b3 assms(5) by (auto split: if_splits)
qed

definition entry_size :: "string \<times> string \<Rightarrow> int" where
  "entry_size e = int (length (fst e)) + 200 + int (length (snd e))"

lemma mime_loop_entries:
  assumes "\<forall>e\<in>set es. entry_ok e" and "stream (rd_R r) = concat (map entry_text es) @ crlf @ rest"
    and "bufio_ok (rd_R r)" and "rd_dot r = None"
    and "sum_list (map entry_size es) \<le> mem" and "int (length es) \<le> hs"
  shows "\<exists>r'. mime_loop m mem hs r = ((Some (mh.add_list es m), None), r') \<and> stream (rd_R r') = rest \<and>
    bufio_ok (rd_R r')"
  using assms
proof (induction es arbitrary: m mem hs r)
  case Nil
  have "stream (rd_R r) = [CHR 0x0D] @ CHR 0x0A # rest" using Nil by (simp add: crlf_def)
  then obtain b1 where "readLineSlice_loop [] (rd_R r) = (Inr [], b1)" "stream b1 = rest" "bufio_ok b1"
    using readLine_stream[of "rd_R r" "[CHR 0x0D]" rest "[]"] Nil by (auto simp: strip_cr_def)
  then show ?case
    using Nil by (simp add: mime_loop.simps readContinuedLineSlice_def readLineSlice_def closeDot_def mh.add_list_def)
next
  case (Cons e es)
  obtain k v where e: "e = (k, v)" by (cases e)
  have ok: "entry_ok (k, v)" using Cons.prems(1) e by simp
  obtain c s where cs: "concat (map entry_text es) @ crlf @ rest = c # s" "\<not> blank c"
  proof (cases es)
    case Nil
    then show thesis using that[of "CHR 0x0D"] by (simp add: crlf_def blank_def)
  next
    case (Cons e2 es2)
    then have "entry_ok e2" using Cons.prems(1) by simp
    then obtain d ds where "fst e2 = d # ds" "\<not> blank d"
      using token_facts by (cases "fst e2") (auto simp: entry_ok_def)
    then show thesis using that[of d] Cons by (simp add: entry_text_def)
  qed
  have st: "stream (rd_R r) = entry_text (k, v) @ c # s" using Cons.prems(2) cs(1) e by simp
  obtain r1 where r1: "readContinuedLineSlice mustHaveFieldNameColon r =
      ((if v = [] then k @ '':'' else k @ '': '' @ v), None, r1)"
    "stream (rd_R r1) = c # s" "bufio_ok (rd_R r1)" "rd_dot r1 = None"
    using readContinued_entry[OF ok st cs(2) Cons.prems(3,4)] by blast
  have nonneg: "0 \<le> sum_list (map entry_size es)" by (intro sum_list_nonneg) (auto simp: entry_size_def)
  let ?mem = "mem - (if map_of m k = None then int (length k) + 200 else 0) - int (length v)"
  have "entry_size e = int (length k) + 200 + int (length v)" by (simp add: e entry_size_def)
  then have mem: "sum_list (map entry_size es) \<le> ?mem" using Cons.prems(5) by simp
  have add: "AList.update k (values_at m k @ [v]) m = MIMEHeader_Add k v m"
    using ok by (simp add: MIMEHeader_Add_def entry_ok_def Let_def)
  have step: "mime_loop m mem hs r = mime_loop (MIMEHeader_Add k v m) ?mem (hs - 1) r1"
    using r1(1) mime_line_entry[OF ok] mem nonneg Cons.prems(6)
    by (subst mime_loop.simps) (simp add: Let_def add)
  have "\<exists>r'. mime_loop (MIMEHeader_Add k v m) ?mem (hs - 1) r1 =
      ((Some (mh.add_list es (MIMEHeader_Add k v m)), None), r') \<and> stream (rd_R r') = rest \<and> bufio_ok (rd_R r')"
    using Cons.prems(1,6) r1 cs(1) mem by (intro Cons.IH) auto
  then show ?case unfolding step by (simp add: mh.add_list_def e)
qed

lemma Peek_bytes: "Peek n b = (p, None, b') \<Longrightarrow> p = take n (bf_buf b') \<and> n \<le> length (bf_buf b')"
proof (induction n b rule: Peek.induct)
  case (1 n b)
  show ?case
  proof (cases "length (bf_buf b) < n \<and> length (bf_buf b) < bufio_size \<and> bf_src b \<noteq> []")
    case True
    then have "Peek n (bufio_fill b) = (p, None, b')" using 1(2) by (simp add: Peek.simps[of n b])
    then show ?thesis using 1(1)[OF True] by simp
  next
    case False
    then show ?thesis using 1(2) by (auto simp: Peek.simps[of n b] split: if_splits)
  qed
qed

lemma Peek_first:
  assumes "Peek 1 b = (p, None, b')" and "stream b = c # s"
  shows "p ! 0 = c"
proof -
  have "stream b' = c # s" using stream_Peek[OF assms(1)] assms(2) by simp
  then show ?thesis using Peek_bytes[OF assms(1)] by (cases "bf_buf b'") (auto simp: stream_def)
qed

lemma entries_of_key:
  assumes "distinct (map fst kvs)"
  shows "map snd (filter (\<lambda>e. fst e = k) (header_entries kvs)) = map clean_value (values_at kvs k)"
  using assms
proof (induction kvs)
  case (Cons e kvs)
  obtain j vs where e: "e = (j, vs)" by (cases e)
  have one: "filter (\<lambda>e. fst e = k) (map (\<lambda>v. (j, clean_value v)) vs) = (if j = k then map (\<lambda>v. (j, clean_value v)) vs else [])"
    by (induction vs) auto
  have "map_of kvs j = None" using Cons.prems e by (simp add: map_of_eq_None_iff)
  then have none: "values_at kvs j = []" by (simp add: values_at_def)
  show ?case
    using Cons none by (auto simp: header_entries_def e one values_at_def comp_def)
qed (simp add: header_entries_def values_at_def)

lemma values_at_sorted:
  assumes "gomap_ok h"
  shows "values_at (sort_key fst h) k = values_at h k"
proof -
  have d: "distinct (map fst (sort_key fst h))" using assms by (simp add: distinct_map)
  have "map_of (sort_key fst h) k = Some v \<longleftrightarrow> map_of h k = Some v" for v
    using assms d by (simp add: map_of_eq_Some_iff)
  then have "map_of (sort_key fst h) k = map_of h k" by (metis option.exhaust)
  then show ?thesis by (simp add: values_at_def)
qed

lemma hd_trim_right: "trim_right_by P s \<noteq> [] \<Longrightarrow> hd (trim_right_by P s) = hd s"
proof -
  assume ne: "trim_right_by P s \<noteq> []"
  have "s = rev (takeWhile P (rev s) @ dropWhile P (rev s))" by simp
  also have "\<dots> = trim_right_by P s @ rev (takeWhile P (rev s))" unfolding trim_right_by_def by (rule rev_append)
  finally have "s = trim_right_by P s @ rev (takeWhile P (rev s))" .
  then show ?thesis using ne by (metis hd_append2)
qed

lemma clean_value_ends:
  assumes "clean_value v \<noteq> []"
  shows "\<not> blank (hd (clean_value v)) \<and> \<not> blank (last (clean_value v))"
proof -
  let ?l = "trim_left_by isASCIISpace (headerNewlineToSpace v)"
  have cv: "clean_value v = trim_right_by isASCIISpace ?l" by (simp add: clean_value_def TrimString_def)
  have sp: "\<not> isASCIISpace c \<Longrightarrow> \<not> blank c" for c by (auto simp: blank_def isASCIISpace_def)
  have "?l \<noteq> []" using assms unfolding cv by (auto simp: trim_right_by_def)
  then have "\<not> isASCIISpace (hd (clean_value v))"
    using hd_trim_left_by hd_trim_right assms unfolding cv by metis
  moreover have "\<not> isASCIISpace (last (clean_value v))"
    using last_trim_right_by assms unfolding cv by metis
  ultimately show ?thesis using sp by blast
qed

definition header_ok :: "multimap \<Rightarrow> bool" where
  "header_ok h =
     (gomap_ok h \<and>
      (\<forall>(k, vs)\<in>set h. k \<noteq> [] \<and> token k \<and> CanonicalMIMEHeaderKey k = k \<and>
         (\<forall>v\<in>set vs. list_all validHeaderValueByte (clean_value v))))"

lemma header_entries_ok: "header_ok h \<Longrightarrow> e \<in> set (header_entries h) \<Longrightarrow> entry_ok e"
  using clean_value_ends by (fastforce simp: header_ok_def header_entries_def entry_ok_def)

lemma header_entries_sorted: "set (header_entries (sort_key fst h)) = set (header_entries h)"
  by (simp add: header_entries_def)

lemma Header_Write_buffer:
  "Header_Write buffer_wire h w = (w @ concat (map entry_text (header_entries (sort_key fst h))), None)"
  by (simp add: Header_Write_def writeSubset_def sortedKeyValues_def write_kvs_buffer case_prod_beta)

lemma ReadMIMEHeader_entries:
  assumes ok: "\<forall>e\<in>set es. entry_ok e" and "stream (rd_R r) = concat (map entry_text es) @ crlf @ rest"
    and "bufio_ok (rd_R r)" and "rd_dot r = None" and "sum_list (map entry_size es) \<le> 2 ^ 62"
  shows "\<exists>r'. ReadMIMEHeader r = ((Some (mh.add_list es []), None), r') \<and> stream (rd_R r') = rest \<and> bufio_ok (rd_R r')"
proof -
  obtain c s where cs: "stream (rd_R r) = c # s" "\<not> blank c"
  proof (cases es)
    case Nil
    then show thesis using that[of "CHR 0x0D"] assms(2) by (simp add: crlf_def blank_def)
  next
    case (Cons e es')
    then have "entry_ok e" using ok by simp
    then obtain d ds where "fst e = d # ds" "\<not> blank d"
      using token_facts by (cases "fst e") (auto simp: entry_ok_def)
    then show thesis using that[of d] Cons assms(2) by (simp add: entry_text_def)
  qed
  obtain n b0 where up: "upcomingHeaderKeys (rd_R r) = (n, b0)" by (cases "upcomingHeaderKeys (rd_R r)")
  have b0: "stream b0 = c # s" "bufio_ok b0"
    using up cs(1) assms(3) stream_Peek[of 1 "rd_R r"] by (auto simp: upcomingHeaderKeys_def split: prod.splits if_splits)
  obtain p e b1 where pk: "Peek 1 b0 = (p, e, b1)" by (metis surj_pair)
  then have b1: "stream b1 = c # s" "bufio_ok b1" using stream_Peek b0 by auto
  have nb: "\<not> (e = None \<and> (p ! 0 = CHR '' '' \<or> p ! 0 = CHR 0x09))"
    using Peek_first pk b0(1) cs(2) by (auto simp: blank_def)
  let ?r1 = "r\<lparr>rd_R := b1\<rparr>"
  have len: "int (length es) \<le> sum_list (map entry_size es)" for es
    by (induction es) (auto simp: entry_size_def)
  have mem: "sum_list (map entry_size es) \<le> 2 ^ 63 - 1 - 400" "int (length es) \<le> 2 ^ 63 - 1"
    using assms(5) len[of es] by simp_all
  have st: "stream (rd_R ?r1) = concat (map entry_text es) @ crlf @ rest" using b1(1) cs(1) assms(2) by simp
  obtain r' where r': "mime_loop [] (2 ^ 63 - 1 - 400) (2 ^ 63 - 1) ?r1 = ((Some (mh.add_list es []), None), r')"
    "stream (rd_R r') = rest" "bufio_ok (rd_R r')"
    using mime_loop_entries[OF ok st _ _ mem, of "[]"] b1(2) assms(4) by auto
  have "ReadMIMEHeader r = ((Some (mh.add_list es []), None), r')"
    using r'(1) nb unfolding ReadMIMEHeader_def readMIMEHeader_def up prod.case pk Let_def if_not_P[OF nb] by simp
  then show ?thesis using r'(2,3) by blast
qed

lemma add_list_entries:
  assumes "\<forall>e\<in>set es. CanonicalMIMEHeaderKey (fst e) = fst e"
  shows "map_of (mh.add_list es []) k =
    (let vs = map snd (filter (\<lambda>e. fst e = k) es) in if vs = [] then None else Some vs)"
proof -
  have gen: "map_of (mh.add_list es m) k =
      (let vs = map snd (filter (\<lambda>e. fst e = k) es) in if vs = [] then map_of m k else Some (values_at m k @ vs))" for m
    using assms
  proof (induction es arbitrary: m)
    case (Cons e es)
    obtain j v where e: "e = (j, v)" by (cases e)
    have "mh.add_list (e # es) m = mh.add_list es (MIMEHeader_Add j v m)" by (simp add: mh.add_list_def e)
    moreover have "MIMEHeader_Add j v m = AList.update j (values_at m j @ [v]) m"
      using Cons.prems by (simp add: MIMEHeader_Add_def e Let_def)
    ultimately show ?case
      using Cons.IH[of "MIMEHeader_Add j v m"] Cons.prems by (auto simp: e Let_def update_conv values_at_update)
  qed (simp add: mh.add_list_def)
  show ?thesis using gen[of "[]"] by simp
qed

lemma ReadMIMEHeader_written:
  assumes "header_ok h" and "stream (rd_R r) = fst (Header_Write buffer_wire h []) @ crlf @ rest"
    and "bufio_ok (rd_R r)" and "rd_dot r = None"
    and "sum_list (map entry_size (header_entries (sort_key fst h))) \<le> 2 ^ 62"
  shows "\<exists>m r'. ReadMIMEHeader r = ((Some m, None), r') \<and> stream (rd_R r') = rest \<and>
    (\<forall>k. MIMEHeader_Values k m = map clean_value (MIMEHeader_Values k h))"
proof -
  let ?es = "header_entries (sort_key fst h)"
  have ok: "\<forall>e\<in>set ?es. entry_ok e" using header_entries_ok[OF assms(1)] header_entries_sorted by auto
  have st: "stream (rd_R r) = concat (map entry_text ?es) @ crlf @ rest" using assms(2) by (simp add: Header_Write_buffer)
  obtain r' where read: "ReadMIMEHeader r = ((Some (mh.add_list ?es []), None), r')" "stream (rd_R r') = rest"
    using ReadMIMEHeader_entries[OF ok st assms(3-5)] by blast
  have canon: "\<forall>e\<in>set ?es. CanonicalMIMEHeaderKey (fst e) = fst e" using ok by (simp add: entry_ok_def)
  have dist: "distinct (map fst (sort_key fst h))" using assms(1) by (simp add: header_ok_def distinct_map)
  have "MIMEHeader_Values k (mh.add_list ?es []) = map clean_value (MIMEHeader_Values k h)" for k
    using entries_of_key[OF dist] values_at_sorted assms(1) add_list_entries[OF canon, of "CanonicalMIMEHeaderKey k"]
    by (auto simp: MIMEHeader_Values_def header_ok_def values_at_def Let_def split: if_splits option.split)
  then show ?thesis using read by blast
qed

section \<open>Properties\<close>

text \<open>C30: A header whose keys are canonical tokens and whose values hold no control byte, written and
  followed by an empty line, is read back by ReadMIMEHeader, however the bytes arrive: every key has its values,
  with line ends turned into spaces and the ends trimmed, in their order, and the reader stands right after the
  empty line.\<close>

theorem header_roundtrip:
  assumes "header_ok h" and "stream (rd_R r) = fst (Header_Write buffer_wire h []) @ crlf @ rest"
    and "bufio_ok (rd_R r)" and "rd_dot r = None"
    and "sum_list (map entry_size (header_entries (sort_key fst h))) \<le> 2 ^ 62"
  shows "\<exists>m r'. ReadMIMEHeader r = ((Some m, None), r') \<and> stream (rd_R r') = rest \<and>
    (\<forall>k. MIMEHeader_Values k m = map clean_value (MIMEHeader_Values k h))"
  by (rule ReadMIMEHeader_written[OF assms])

lemma header_roundtrip_witness:
  "\<exists>m r'. ReadMIMEHeader (NewReader \<lparr>bf_buf = [], bf_src = [''B: x'', crlf @ ''B: y'' @ crlf, crlf, ''body'']\<rparr>) =
     ((Some m, None), r') \<and> stream (rd_R r') = ''body'' \<and> MIMEHeader_Values ''b'' m = [''x'', ''y'']"
proof -
  let ?h = "[(''B'', ['' x '', ''y''])]"
  let ?r = "NewReader \<lparr>bf_buf = [], bf_src = [''B: x'', crlf @ ''B: y'' @ crlf, crlf, ''body'']\<rparr>"
  have can: "CanonicalMIMEHeaderKey ''B'' = ''B'' \<and> token ''B''"
    by (simp add: CanonicalMIMEHeaderKey_token canon_loop_Cons validHeaderFieldByte_token token_byte_def
        to_upper_def lower_cases lowercase_def uppercase_def)
  have clean: "clean_value '' x '' = ''x''" "clean_value ''y'' = ''y''" by code_simp+
  have h: "header_ok ?h" using can by (simp add: header_ok_def clean validHeaderValueByte_iff)
  have st: "stream (rd_R ?r) = fst (Header_Write buffer_wire ?h []) @ crlf @ ''body''"
    by (simp add: Header_Write_buffer header_entries_def entry_text_def clean NewReader_def stream_def)
  have ok: "bufio_ok (rd_R ?r)" "rd_dot ?r = None"
    "sum_list (map entry_size (header_entries (sort_key fst ?h))) \<le> 2 ^ 62"
    by (simp_all add: NewReader_def bufio_ok_def crlf_def header_entries_def entry_size_def clean)
  have vals: "map clean_value (MIMEHeader_Values ''b'' ?h) = [''x'', ''y'']"
  proof -
    have up: "char_of (66 :: nat) = CHR ''B''" by code_simp
    have "CanonicalMIMEHeaderKey ''b'' = ''B''"
      by (simp add: up CanonicalMIMEHeaderKey_token canon_loop_Cons validHeaderFieldByte_token token_byte_def
          to_upper_def lower_cases lowercase_def uppercase_def)
    then show ?thesis by (simp add: MIMEHeader_Values_def values_at_def clean)
  qed
  show ?thesis using header_roundtrip[OF h st ok] vals by metis
qed

text \<open>hasToken finds a token exactly when it occurs, up to the case of letters, between boundaries.\<close>

theorem hasToken_exact: "lower_token tok \<Longrightarrow> hasToken v tok \<longleftrightarrow> token_occurs v tok"
  by (rule hasToken_iff)

lemma hasToken_exact_witness: "token_occurs ''a, Close'' ''close''"
proof -
  have "lower_token ''close''" by code_simp
  moreover have "hasToken ''a, Close'' ''close''" by code_simp
  ultimately show ?thesis using hasToken_exact by blast
qed

text \<open>The writer does not check the keys: a key with a line end in it puts a header of its own on the
  wire.\<close>

theorem header_key_injection:
  "fst (Header_Write buffer_wire [(''A: 1'' @ crlf @ ''Evil'', [''2''])] []) = ''A: 1'' @ crlf @ ''Evil: 2'' @ crlf"
  by code_simp

end
