(* ===== verification/Http_Body.thy ===== *)
theory Http_Body
  imports Http_Header
begin

text \<open>
  The body of a message as it is read from the wire (type body of src/http/transfer.go): a state machine
  over a source that is chunked, limited by a Content-Length, or ends with the connection.  The lock is not
  modelled: every operation holds it from its begin to its end.  The reader that the source and the trailer
  share is kept in the source; the hook that is called at the end is the number of its calls.
\<close>

datatype body_src =
  ChunkedSrc chunkedReader
| LimitedSrc bufio int
| RawSrc bufio

datatype body_error =
  BodyIo io_error
| ErrBodyReadAfterClose
| ErrTrailerEOF
| LongTrailer
| TrailerError tp_error

text \<open>\<open>b_hdr\<close> is the message that receives the trailer, if it still has to be read; \<open>b_trailer\<close> is the
  Trailer field of this message.\<close>

record body =
  b_src :: body_src
  b_hdr :: bool
  b_closing :: bool
  b_doEarlyClose :: bool
  b_sawEOF :: bool
  b_closed :: bool
  b_earlyClose :: bool
  b_onHitEOF :: "nat option"
  b_trailer :: "multimap option"

definition new_body :: "body_src \<Rightarrow> bool \<Rightarrow> bool \<Rightarrow> multimap option \<Rightarrow> body" where
  "new_body src hdr closing tr =
     \<lparr>b_src = src, b_hdr = hdr, b_closing = closing, b_doEarlyClose = False, b_sawEOF = False,
      b_closed = False, b_earlyClose = False, b_onHitEOF = None, b_trailer = tr\<rparr>"

fun src_reader :: "body_src \<Rightarrow> bufio" where
  "src_reader (ChunkedSrc cr) = cr_r cr"
| "src_reader (LimitedSrc r n) = r"
| "src_reader (RawSrc r) = r"

fun with_reader :: "bufio \<Rightarrow> body_src \<Rightarrow> body_src" where
  "with_reader r (ChunkedSrc cr) = ChunkedSrc (cr\<lparr>cr_r := r\<rparr>)"
| "with_reader r (LimitedSrc _ n) = LimitedSrc r n"
| "with_reader r (RawSrc _) = RawSrc r"

section \<open>One read of the source\<close>

text \<open>The reader of io.LimitReader answers EOF when nothing is left, and cuts the slice otherwise.\<close>

fun src_Read :: "nat \<Rightarrow> body_src \<Rightarrow> string \<times> io_error option \<times> body_src" where
  "src_Read k (ChunkedSrc cr) = (case chunked_Read cr k [] of (d, cr') \<Rightarrow> (d, cr_err cr', ChunkedSrc cr'))"
| "src_Read k (LimitedSrc r n) =
     (if n \<le> 0 then ([], Some EOF, LimitedSrc r n)
      else case bufio_Read (if n < int k then nat n else k) r of
        (d, e, r') \<Rightarrow> (d, e, LimitedSrc r' (n - int (length d))))"
| "src_Read k (RawSrc r) = (case bufio_Read k r of (d, e, r') \<Rightarrow> (d, e, RawSrc r'))"

fun limited_left :: "body_src \<Rightarrow> int option" where
  "limited_left (LimitedSrc r n) = Some n"
| "limited_left _ = None"

section \<open>The trailer\<close>

text \<open>
  The loop peeks at more and more bytes; a peek fails once the buffer is full or the source has ended, so the
  test of the size, which ends the recursion, never decides.
\<close>

function seeUpcoming_loop :: "nat \<Rightarrow> bufio \<Rightarrow> bool \<times> bufio" where
  "seeUpcoming_loop peekSize r =
     (case Peek peekSize r of
        (buf, err, r') \<Rightarrow>
          if has_suffix buf (crlf @ crlf) then (True, r')
          else if err \<noteq> None \<or> bufio_size < peekSize then (False, r')
          else seeUpcoming_loop (Suc peekSize) r')"
  by pat_completeness auto
termination
  by (relation "measure (\<lambda>(k, r). Suc bufio_size - k)") auto

declare seeUpcoming_loop.simps [simp del]

definition seeUpcomingDoubleCRLF :: "bufio \<Rightarrow> bool \<times> bufio" where
  "seeUpcomingDoubleCRLF r = seeUpcoming_loop 4 r"

definition mergeSetHeader :: "multimap option \<Rightarrow> multimap \<Rightarrow> multimap option" where
  "mergeSetHeader dst src =
     (case dst of
        None \<Rightarrow> Some src
      | Some d \<Rightarrow> Some (fold (\<lambda>(k, vv) d. AList.update k vv d) src d))"

definition discard :: "nat \<Rightarrow> bufio \<Rightarrow> bufio" where
  "discard n r = r\<lparr>bf_buf := drop n (bf_buf r)\<rparr>"

definition readTrailer :: "bufio \<Rightarrow> multimap option \<Rightarrow> body_error option \<times> bufio \<times> multimap option" where
  "readTrailer r0 tr =
     (case Peek 2 r0 of
        (buf, err, r) \<Rightarrow>
          if buf = crlf then (None, discard 2 r, tr)
          else if length buf < 2 then (Some ErrTrailerEOF, r, tr)
          else case err of
            Some e \<Rightarrow> (Some (BodyIo e), r, tr)
          | None \<Rightarrow>
              (case seeUpcomingDoubleCRLF r of
                 (False, r1) \<Rightarrow> (Some LongTrailer, r1, tr)
               | (True, r1) \<Rightarrow>
                   (case ReadMIMEHeader (NewReader r1) of
                      ((hdr, err'), R) \<Rightarrow>
                        (case err' of
                           Some e \<Rightarrow> (Some (if e = TpIo EOF then ErrTrailerEOF else TrailerError e), rd_R R, tr)
                         | None \<Rightarrow> (None, rd_R R, mergeSetHeader tr (case hdr of None \<Rightarrow> [] | Some h \<Rightarrow> h))))))"

section \<open>Read\<close>

definition at_eof :: "body \<Rightarrow> io_error option \<Rightarrow> body_error option \<times> body" where
  "at_eof b err =
     (if err = Some EOF then
        (let b1 = b\<lparr>b_sawEOF := True\<rparr>
         in if b_hdr b then
              (case readTrailer (src_reader (b_src b)) (b_trailer b) of
                 (e, r, tr) \<Rightarrow>
                   (let b2 = b1\<lparr>b_src := with_reader r (b_src b), b_trailer := tr, b_hdr := False\<rparr>
                    in case e of
                         None \<Rightarrow> (Some (BodyIo EOF), b2)
                       | Some e \<Rightarrow> (Some e, b2\<lparr>b_sawEOF := False, b_closed := True\<rparr>)))
            else (case limited_left (b_src b) of
                    Some n \<Rightarrow> (Some (BodyIo (if 0 < n then UnexpectedEOF else EOF)), b1)
                  | None \<Rightarrow> (Some (BodyIo EOF), b1)))
      else (map_option BodyIo err, b))"

definition readLocked :: "nat \<Rightarrow> body \<Rightarrow> string \<times> body_error option \<times> body" where
  "readLocked k b =
     (if b_sawEOF b then ([], Some (BodyIo EOF), b)
      else case src_Read k (b_src b) of
        (d, err, src) \<Rightarrow>
          (case at_eof (b\<lparr>b_src := src\<rparr>) err of
             (err1, b1) \<Rightarrow>
               (let (err2, b2) =
                      (if err1 = None \<and> d \<noteq> [] \<and> limited_left (b_src b1) = Some 0
                       then (Some (BodyIo EOF), b1\<lparr>b_sawEOF := True\<rparr>) else (err1, b1));
                    b3 = (if b_sawEOF b2 then b2\<lparr>b_onHitEOF := map_option Suc (b_onHitEOF b2)\<rparr> else b2)
                in (d, err2, b3))))"

definition body_Read :: "nat \<Rightarrow> body \<Rightarrow> string \<times> body_error option \<times> body" where
  "body_Read k b =
     (if b_closed b then ([], Some ErrBodyReadAfterClose, b) else readLocked k b)"

text \<open>The method Read of bodyLocked is the same.\<close>

section \<open>Close\<close>

text \<open>
  Draining the body: reads of up to 8192 bytes until an error, and with a limit until so many bytes were
  read.  It stops since every read that answers no error takes something off the wire; the argument
  \<open>fuel\<close> bounds the number of reads, and \<open>drain_fuel\<close> is enough.
\<close>

fun drain :: "nat \<Rightarrow> nat option \<Rightarrow> body \<Rightarrow> nat \<times> body_error option \<times> body" where
  "drain 0 left b = (0, None, b)"
| "drain (Suc fuel) left b =
     (case left of
        Some 0 \<Rightarrow> (0, None, b)
      | _ \<Rightarrow>
          (case body_Read (case left of None \<Rightarrow> 8192 | Some n \<Rightarrow> min 8192 n) b of
             (d, Some e, b') \<Rightarrow> (length d, Some e, b')
           | (d, None, b') \<Rightarrow>
               (case drain fuel (map_option (\<lambda>n. n - length d) left) b' of
                  (m, e, b'') \<Rightarrow> (length d + m, e, b''))))"

definition drain_fuel :: "body \<Rightarrow> nat" where
  "drain_fuel b = rsize (src_reader (b_src b)) + 2"

definition maxPostHandlerReadBytes :: nat where "maxPostHandlerReadBytes = 256 * 1024"

definition no_eof :: "body_error option \<Rightarrow> body_error option" where
  "no_eof e = (if e = Some (BodyIo EOF) then None else e)"

definition body_Close :: "body \<Rightarrow> body_error option \<times> body" where
  "body_Close b =
     (if b_closed b then (None, b)
      else let (err, b1) =
             (if b_sawEOF b then (None, b)
              else if \<not> b_hdr b \<and> b_closing b then (None, b)
              else if b_doEarlyClose b then
                (if (case limited_left (b_src b) of None \<Rightarrow> False | Some n \<Rightarrow> int maxPostHandlerReadBytes < n)
                 then (None, b\<lparr>b_earlyClose := True\<rparr>)
                 else case drain (drain_fuel b) (Some maxPostHandlerReadBytes) b of
                   (n, e, b') \<Rightarrow>
                     if n = maxPostHandlerReadBytes then (None, b'\<lparr>b_earlyClose := True\<rparr>) else (no_eof e, b'))
              else (case drain (drain_fuel b) None b of (n, e, b') \<Rightarrow> (no_eof e, b')))
           in (err, b1\<lparr>b_closed := True\<rparr>))"

definition didEarlyClose :: "body \<Rightarrow> bool" where
  "didEarlyClose b = b_earlyClose b"

definition bodyRemains :: "body \<Rightarrow> bool" where
  "bodyRemains b = (\<not> b_sawEOF b)"

definition registerOnHitEOF :: "body \<Rightarrow> body" where
  "registerOnHitEOF b = b\<lparr>b_onHitEOF := Some 0\<rparr>"

definition unreadDataSizeLocked :: "body \<Rightarrow> int" where
  "unreadDataSizeLocked b = (case limited_left (b_src b) of Some n \<Rightarrow> n | None \<Rightarrow> - 1)"

end
