(* ===== verification/Http_Message.thy ===== *)
theory Http_Message
  imports Url Multi_Store
begin

text \<open>
  The types Request and Response (src/http/request.go, src/http/response.go) with the fields that the
  modelled functions use.  The type parameter is the type of a body: the body that a user supplies when the
  message is written, and the body reader of the connection when the message is read.  A Go nil body is
  \<open>NilBody\<close>; \<open>NoBody\<close> is the exported value of this name.  A nil header is empty.
\<close>

datatype 'b body_val = NilBody | NoBody | TheBody 'b

text \<open>Of GetBody only its presence matters; the method is empty for GET.\<close>

record 'b request =
  rq_Method :: string
  rq_URL :: "URL option"
  rq_Proto :: string
  rq_ProtoMajor :: int
  rq_ProtoMinor :: int
  rq_Header :: multimap
  rq_Body :: "'b body_val"
  rq_GetBody :: bool
  rq_ContentLength :: int
  rq_TransferEncoding :: "string list"
  rq_Close :: bool
  rq_Host :: string
  rq_Form :: "multimap option"
  rq_PostForm :: "multimap option"
  rq_Trailer :: "multimap option"
  rq_RequestURI :: string

definition new_request :: "'b request" where
  "new_request =
     \<lparr>rq_Method = [], rq_URL = None, rq_Proto = [], rq_ProtoMajor = 0, rq_ProtoMinor = 0, rq_Header = [],
      rq_Body = NilBody, rq_GetBody = False, rq_ContentLength = 0, rq_TransferEncoding = [], rq_Close = False,
      rq_Host = [], rq_Form = None, rq_PostForm = None, rq_Trailer = None, rq_RequestURI = []\<rparr>"

text \<open>Of the request that a response answers the method and the URL are used; both are \<open>None\<close> when it has none.\<close>

record 'b response =
  rp_Status :: string
  rp_StatusCode :: int
  rp_Proto :: string
  rp_ProtoMajor :: int
  rp_ProtoMinor :: int
  rp_Header :: multimap
  rp_Body :: "'b body_val"
  rp_ContentLength :: int
  rp_TransferEncoding :: "string list"
  rp_Close :: bool
  rp_Uncompressed :: bool
  rp_Trailer :: "multimap option"
  rp_RequestMethod :: "string option"
  rp_RequestURL :: "URL option"

definition new_response :: "'b response" where
  "new_response =
     \<lparr>rp_Status = [], rp_StatusCode = 0, rp_Proto = [], rp_ProtoMajor = 0, rp_ProtoMinor = 0, rp_Header = [],
      rp_Body = NilBody, rp_ContentLength = 0, rp_TransferEncoding = [], rp_Close = False, rp_Uncompressed = False,
      rp_Trailer = None, rp_RequestMethod = None, rp_RequestURL = None\<rparr>"

section \<open>Small functions on messages\<close>

definition valueOrDefault :: "string \<Rightarrow> string \<Rightarrow> string" where
  "valueOrDefault val dflt = (if val \<noteq> [] then val else dflt)"

text \<open>It maps 0 to -1 (unknown) when there is a body.\<close>

definition outgoingLength :: "'b request \<Rightarrow> int" where
  "outgoingLength r =
     (case rq_Body r of
        NilBody \<Rightarrow> 0
      | NoBody \<Rightarrow> 0
      | TheBody _ \<Rightarrow> if rq_ContentLength r \<noteq> 0 then rq_ContentLength r else - 1)"

definition requestMethodUsuallyLacksBody :: "string \<Rightarrow> bool" where
  "requestMethodUsuallyLacksBody m =
     (m \<in> set [''GET'', ''HEAD'', ''DELETE'', ''OPTIONS'', ''PROPFIND'', ''SEARCH''])"

definition request_ProtoAtLeast :: "'b request \<Rightarrow> int \<Rightarrow> int \<Rightarrow> bool" where
  "request_ProtoAtLeast r major minor =
     (rq_ProtoMajor r > major \<or> rq_ProtoMajor r = major \<and> rq_ProtoMinor r \<ge> minor)"

definition response_ProtoAtLeast :: "'b response \<Rightarrow> int \<Rightarrow> int \<Rightarrow> bool" where
  "response_ProtoAtLeast r major minor =
     (rp_ProtoMajor r > major \<or> rp_ProtoMajor r = major \<and> rp_ProtoMinor r \<ge> minor)"

end
