(* ===== verification/Message_Framing.thy ===== *)
theory Message_Framing
  imports Http_Body Http_Message Go_Strconv
begin

text \<open>
  How the framing of a message is read from its header (src/http/transfer.go): Transfer-Encoding,
  Content-Length, Connection, Trailer, and the body that follows from them.  The function
  HeaderValuesContainsToken of golang.org/x/net/http/httpguts is the parameter \<open>C\<close>, and \<open>lax\<close> tells whether
  the debug setting httplaxcontentlength is on.
\<close>

datatype transfer_error =
  TooManyEncodings "string list"
| UnsupportedEncoding string
| MultipleContentLength "string list"
| BadString string string

text \<open>The fields of a Request or a Response that are read and set here; \<open>ms_Method\<close> is None for a response
  without its request.\<close>

record message =
  ms_isResponse :: bool
  ms_Method :: "string option"
  ms_StatusCode :: int
  ms_ProtoMajor :: int
  ms_ProtoMinor :: int
  ms_Header :: multimap
  ms_Body :: "body body_val"
  ms_ContentLength :: int
  ms_TransferEncoding :: "string list"
  ms_Close :: bool
  ms_Trailer :: "multimap option"

record transferReader =
  tr_Header :: multimap
  tr_StatusCode :: int
  tr_RequestMethod :: string
  tr_ProtoMajor :: int
  tr_ProtoMinor :: int
  tr_Body :: "body body_val"
  tr_ContentLength :: int
  tr_Chunked :: bool
  tr_Close :: bool
  tr_Trailer :: "multimap option"

definition protoAtLeast :: "transferReader \<Rightarrow> int \<Rightarrow> int \<Rightarrow> bool" where
  "protoAtLeast t m n = (tr_ProtoMajor t > m \<or> tr_ProtoMajor t = m \<and> tr_ProtoMinor t \<ge> n)"

definition bodyAllowedForStatus :: "int \<Rightarrow> bool" where
  "bodyAllowedForStatus status =
     (if status \<ge> 100 \<and> status \<le> 199 then False
      else if status = 204 then False
      else if status = 304 then False
      else True)"

definition suppressedHeaders :: "int \<Rightarrow> string list" where
  "suppressedHeaders status =
     (if status = 304 then [''Content-Type'', ''Content-Length'', ''Transfer-Encoding'']
      else if \<not> bodyAllowedForStatus status then [''Content-Length'', ''Transfer-Encoding'']
      else [])"

definition noResponseBodyExpected :: "string \<Rightarrow> bool" where
  "noResponseBodyExpected requestMethod = (requestMethod = ''HEAD'')"

definition te_chunked :: "string list \<Rightarrow> bool" where
  "te_chunked te = (0 < length te \<and> te ! 0 = ''chunked'')"

definition isIdentity :: "string list \<Rightarrow> bool" where
  "isIdentity te = (length te = 1 \<and> te ! 0 = ''identity'')"

section \<open>Transfer-Encoding\<close>

definition parseTransferEncoding :: "transferReader \<Rightarrow> transfer_error option \<times> transferReader" where
  "parseTransferEncoding t =
     (case map_of (tr_Header t) ''Transfer-Encoding'' of
        None \<Rightarrow> (None, t)
      | Some raw \<Rightarrow>
          (let t1 = t\<lparr>tr_Header := AList.delete ''Transfer-Encoding'' (tr_Header t)\<rparr>
           in if \<not> protoAtLeast t1 1 1 then (None, t1)
              else if length raw \<noteq> 1 then (Some (TooManyEncodings raw), t1)
              else if \<not> EqualFold (raw ! 0) ''chunked'' then (Some (UnsupportedEncoding (raw ! 0)), t1)
              else (None, t1\<lparr>tr_Chunked := True\<rparr>)))"

section \<open>Content-Length\<close>

definition parseContentLength :: "bool \<Rightarrow> string list \<Rightarrow> transfer_error + int" where
  "parseContentLength lax clHeaders =
     (if length clHeaders = 0 then Inr (- 1)
      else let cl = TrimString (clHeaders ! 0)
      in if cl = [] then
           (if lax then Inr (- 1) else Inl (BadString ''invalid empty Content-Length'' cl))
         else case ParseUint 63 cl of
                Inl _ \<Rightarrow> Inl (BadString ''bad Content-Length'' cl)
              | Inr n \<Rightarrow> Inr (int n))"

text \<open>The length, or the error, and the header with the changes that were made to it.\<close>

definition dedup_length :: "multimap \<Rightarrow> transfer_error + multimap" where
  "dedup_length header =
     (let contentLens = values_at header ''Content-Length''
      in if 1 < length contentLens then
           (let first = TrimString (contentLens ! 0)
            in if list_ex (\<lambda>ct. first \<noteq> TrimString ct) (tl contentLens) then Inl (MultipleContentLength contentLens)
               else Inr (Header_Add ''Content-Length'' first (Header_Del ''Content-Length'' header)))
         else Inr header)"

definition fixLength ::
  "bool \<Rightarrow> bool \<Rightarrow> int \<Rightarrow> string \<Rightarrow> multimap \<Rightarrow> bool \<Rightarrow> (transfer_error + int) \<times> multimap" where
  "fixLength lax isResponse status requestMethod header0 chunked =
     (case dedup_length header0 of
        Inl e \<Rightarrow> (Inl e, header0)
      | Inr header \<Rightarrow>
          (let contentLens = values_at header ''Content-Length'' in
           case (if 0 < length contentLens then parseContentLength lax contentLens else Inr 0) of
             Inl e \<Rightarrow> (Inl e, header)
           | Inr n \<Rightarrow>
               if isResponse \<and> noResponseBodyExpected requestMethod then (Inr 0, header)
               else if status div 100 = 1 then (Inr 0, header)
               else if status = 204 \<or> status = 304 then (Inr 0, header)
               else if chunked then (Inr (- 1), Header_Del ''Content-Length'' header)
               else if 0 < length contentLens then (Inr n, header)
               else if \<not> isResponse then (Inr 0, Header_Del ''Content-Length'' header)
               else (Inr (- 1), Header_Del ''Content-Length'' header)))"

section \<open>Connection and Trailer\<close>

definition shouldClose ::
  "(string list \<Rightarrow> string \<Rightarrow> bool) \<Rightarrow> int \<Rightarrow> int \<Rightarrow> multimap \<Rightarrow> bool \<Rightarrow> bool \<times> multimap" where
  "shouldClose C major minor header removeCloseHeader =
     (if major < 1 then (True, header)
      else let conv = values_at header ''Connection'';
               hasClose = C conv ''close''
      in if major = 1 \<and> minor = 0 then (hasClose \<or> \<not> C conv ''keep-alive'', header)
         else (hasClose, if hasClose \<and> removeCloseHeader then Header_Del ''Connection'' header else header))"

definition foreachHeaderElement :: "string \<Rightarrow> string list" where
  "foreachHeaderElement v0 =
     (let v = TrimString v0
      in if v = [] then []
         else if \<not> contains_byte (CHR '','') v then [v]
         else filter (\<lambda>f. f \<noteq> []) (map TrimString (split_byte (CHR '','') v)))"

definition bad_trailer_key :: "string \<Rightarrow> bool" where
  "bad_trailer_key key = (key = ''Transfer-Encoding'' \<or> key = ''Trailer'' \<or> key = ''Content-Length'')"

text \<open>The function that is called for each element: only the first bad key returns early.\<close>

definition trailer_element ::
  "string \<Rightarrow> transfer_error option \<times> multimap \<Rightarrow> transfer_error option \<times> multimap" where
  "trailer_element key0 s =
     (let key = CanonicalHeaderKey key0
      in if bad_trailer_key key \<and> fst s = None then (Some (BadString ''bad trailer key'' key), snd s)
         else (fst s, AList.update key [] (snd s)))"

definition fixTrailer :: "multimap \<Rightarrow> bool \<Rightarrow> (transfer_error + multimap option) \<times> multimap" where
  "fixTrailer header chunked =
     (case map_of header ''Trailer'' of
        None \<Rightarrow> (Inr None, header)
      | Some vv \<Rightarrow>
          if \<not> chunked then (Inr None, header)
          else let header' = Header_Del ''Trailer'' header
          in (case fold trailer_element (concat (map foreachHeaderElement vv)) (None, []) of
                (Some err, _) \<Rightarrow> (Inl err, header')
              | (None, trailer) \<Rightarrow> (Inr (if trailer = [] then None else Some trailer), header')))"

section \<open>readTransfer\<close>

definition unify_input ::
  "(string list \<Rightarrow> string \<Rightarrow> bool) \<Rightarrow> message \<Rightarrow> transferReader" where
  "unify_input C msg =
     (let t = \<lparr>tr_Header = ms_Header msg, tr_StatusCode = 200, tr_RequestMethod = ''GET'',
               tr_ProtoMajor = ms_ProtoMajor msg, tr_ProtoMinor = ms_ProtoMinor msg, tr_Body = NilBody,
               tr_ContentLength = 0, tr_Chunked = False, tr_Close = False, tr_Trailer = None\<rparr>;
          t1 = (if ms_isResponse msg then
                  (case shouldClose C (ms_ProtoMajor msg) (ms_ProtoMinor msg) (ms_Header msg) True of
                     (c, h) \<Rightarrow> t\<lparr>tr_StatusCode := ms_StatusCode msg, tr_Header := h, tr_Close := c\<rparr>)
                else t\<lparr>tr_Close := ms_Close msg\<rparr>);
          t2 = (case ms_Method msg of None \<Rightarrow> t1 | Some m \<Rightarrow> t1\<lparr>tr_RequestMethod := m\<rparr>)
      in if tr_ProtoMajor t2 = 0 \<and> tr_ProtoMinor t2 = 0 then t2\<lparr>tr_ProtoMajor := 1, tr_ProtoMinor := 1\<rparr> else t2)"

definition body_for :: "bool \<Rightarrow> transferReader \<Rightarrow> int \<Rightarrow> bufio \<Rightarrow> body body_val" where
  "body_for isResponse t realLength r =
     (if tr_Chunked t then
        (if isResponse \<and> (noResponseBodyExpected (tr_RequestMethod t) \<or> \<not> bodyAllowedForStatus (tr_StatusCode t))
         then NoBody
         else TheBody (new_body (ChunkedSrc (new_chunkedReader r)) True (tr_Close t) (tr_Trailer t)))
      else if realLength = 0 then NoBody
      else if 0 < realLength then TheBody (new_body (LimitedSrc r realLength) False (tr_Close t) (tr_Trailer t))
      else if tr_Close t then TheBody (new_body (RawSrc r) False (tr_Close t) (tr_Trailer t))
      else NoBody)"

definition unify_output :: "transferReader \<Rightarrow> message \<Rightarrow> message" where
  "unify_output t msg =
     msg\<lparr>ms_Header := tr_Header t, ms_Body := tr_Body t, ms_ContentLength := tr_ContentLength t,
         ms_TransferEncoding := (if tr_Chunked t then [''chunked''] else ms_TransferEncoding msg),
         ms_Close := tr_Close t, ms_Trailer := tr_Trailer t\<rparr>"

definition readTransfer ::
  "bool \<Rightarrow> (string list \<Rightarrow> string \<Rightarrow> bool) \<Rightarrow> message \<Rightarrow> bufio \<Rightarrow> transfer_error option \<times> message" where
  "readTransfer lax C msg r =
     (let isResponse = ms_isResponse msg;
          failed = (\<lambda>e t. (Some e, msg\<lparr>ms_Header := tr_Header t\<rparr>))
      in case parseTransferEncoding (unify_input C msg) of
           (Some e, t) \<Rightarrow> failed e t
         | (None, t) \<Rightarrow>
             (case fixLength lax isResponse (tr_StatusCode t) (tr_RequestMethod t) (tr_Header t) (tr_Chunked t) of
                (Inl e, h) \<Rightarrow> failed e (t\<lparr>tr_Header := h\<rparr>)
              | (Inr realLength, h) \<Rightarrow>
                  (let t1 = t\<lparr>tr_Header := h\<rparr> in
                   case (if isResponse \<and> tr_RequestMethod t1 = ''HEAD''
                         then parseContentLength lax (values_at (tr_Header t1) ''Content-Length'')
                         else Inr realLength) of
                     Inl e \<Rightarrow> failed e t1
                   | Inr n \<Rightarrow>
                       (let t2 = t1\<lparr>tr_ContentLength := n\<rparr> in
                        case fixTrailer (tr_Header t2) (tr_Chunked t2) of
                          (Inl e, h') \<Rightarrow> failed e (t2\<lparr>tr_Header := h'\<rparr>)
                        | (Inr trailer, h') \<Rightarrow>
                            (let t3 = t2\<lparr>tr_Header := h', tr_Trailer := trailer\<rparr>;
                                 t4 = (if isResponse \<and> realLength = - 1 \<and> \<not> tr_Chunked t3 \<and>
                                           bodyAllowedForStatus (tr_StatusCode t3)
                                       then t3\<lparr>tr_Close := True\<rparr> else t3);
                                 t5 = t4\<lparr>tr_Body := body_for isResponse t4 realLength r\<rparr>
                             in (None, unify_output t5 msg))))))"

end
