(* ===== verification/Transfer_Write.thy ===== *)
theory Transfer_Write
  imports Message_Framing
begin

text \<open>
  How the framing of a message and its body are written (type transferWriter of src/http/transfer.go).  The
  body that the user supplies is a reader: the pieces that its reads will deliver, the error at its end, whether
  the last piece comes with this error, and the answer of its Close.  Whether its type is one that is
  known to be in memory is the flag \<open>wb_inMemory\<close>.  The tracing callbacks are not modelled.
\<close>

record wbody =
  wb_pieces :: "string list"
  wb_end :: io_error
  wb_eager :: bool
  wb_closeErr :: "io_error option"
  wb_inMemory :: bool

definition empty_wbody :: wbody where
  "empty_wbody = \<lparr>wb_pieces = [], wb_end = EOF, wb_eager = False, wb_closeErr = None, wb_inMemory = False\<rparr>"

text \<open>One read with a slice of \<open>k\<close> bytes.\<close>

definition wb_Read :: "nat \<Rightarrow> wbody \<Rightarrow> string \<times> io_error option \<times> wbody" where
  "wb_Read k b =
     (case wb_pieces b of
        [] \<Rightarrow> ([], Some (wb_end b), b)
      | c # cs \<Rightarrow>
          if drop k c \<noteq> [] then (take k c, None, b\<lparr>wb_pieces := drop k c # cs\<rparr>)
          else (take k c, if cs = [] \<and> wb_eager b then Some (wb_end b) else None, b\<lparr>wb_pieces := cs\<rparr>))"

fun reader_of :: "wbody body_val \<Rightarrow> wbody option" where
  "reader_of NilBody = None"
| "reader_of NoBody = Some empty_wbody"
| "reader_of (TheBody b) = Some b"

text \<open>A closer is the error that it answers.\<close>

definition closer_of :: "wbody body_val \<Rightarrow> io_error option option" where
  "closer_of b = map_option wb_closeErr (reader_of b)"

text \<open>\<open>tw_closes\<close> counts the calls of Close.\<close>

record transferWriter =
  tw_Method :: string
  tw_Body :: "wbody option"
  tw_BodyCloser :: "io_error option option"
  tw_ResponseToHEAD :: bool
  tw_ContentLength :: int
  tw_Close :: bool
  tw_TransferEncoding :: "string list"
  tw_Header :: multimap
  tw_Trailer :: "multimap option"
  tw_IsResponse :: bool
  tw_bodyReadError :: "io_error option"
  tw_FlushHeaders :: bool
  tw_closes :: nat

datatype send_error =
  SendIo io_error
| SendBad transfer_error
| NilBodyLength int
| BodyLength int nat

section \<open>newTransferWriter\<close>

text \<open>
  The probe of a body reads one byte of it in another goroutine; \<open>late\<close> says that the timer fires first.  Then
  the byte is put back in front of what follows: \<open>put_back\<close> is the body that the MultiReader of the byte and the
  rest delivers.  When the timer fired, an error that came with the byte still comes with it.
\<close>

definition put_back :: "bool \<Rightarrow> string \<Rightarrow> io_error option \<Rightarrow> wbody \<Rightarrow> wbody" where
  "put_back late d e b =
     (if length d = 1 then
        (case e of
           Some err \<Rightarrow> b\<lparr>wb_pieces := [d], wb_end := err, wb_eager := late \<and> err \<noteq> EOF, wb_inMemory := False\<rparr>
         | None \<Rightarrow> b\<lparr>wb_pieces := d # wb_pieces b, wb_inMemory := False\<rparr>)
      else
        (case e of
           Some err \<Rightarrow> b\<lparr>wb_pieces := [], wb_end := err, wb_inMemory := False\<rparr>
         | None \<Rightarrow> if late then b\<lparr>wb_inMemory := False\<rparr> else b))"

definition probeRequestBody :: "bool \<Rightarrow> transferWriter \<Rightarrow> transferWriter" where
  "probeRequestBody late t =
     (case tw_Body t of
        None \<Rightarrow> t
      | Some b \<Rightarrow>
          (case wb_Read 1 b of
             (d, e, b') \<Rightarrow>
               if late then t\<lparr>tw_Body := Some (put_back True d e b'), tw_FlushHeaders := True\<rparr>
               else if d = [] \<and> e = Some EOF then t\<lparr>tw_Body := None, tw_ContentLength := 0\<rparr>
               else t\<lparr>tw_Body := Some (put_back False d e b')\<rparr>))"

definition shouldSendChunkedRequestBody :: "bool \<Rightarrow> transferWriter \<Rightarrow> bool \<times> transferWriter" where
  "shouldSendChunkedRequestBody late t =
     (if tw_ContentLength t \<ge> 0 \<or> tw_Body t = None then (False, t)
      else if tw_Method t = ''CONNECT'' then (False, t)
      else if requestMethodUsuallyLacksBody (tw_Method t) then
        (let t' = probeRequestBody late t in (tw_Body t' \<noteq> None, t'))
      else (True, t))"

definition isKnownInMemoryReader :: "wbody option \<Rightarrow> bool" where
  "isKnownInMemoryReader b = (case b of None \<Rightarrow> False | Some b \<Rightarrow> wb_inMemory b)"

definition new_tw :: transferWriter where
  "new_tw =
     \<lparr>tw_Method = [], tw_Body = None, tw_BodyCloser = None, tw_ResponseToHEAD = False, tw_ContentLength = 0,
      tw_Close = False, tw_TransferEncoding = [], tw_Header = [], tw_Trailer = None, tw_IsResponse = False,
      tw_bodyReadError = None, tw_FlushHeaders = False, tw_closes = 0\<rparr>"

definition tw_of_request :: "bool \<Rightarrow> wbody request \<Rightarrow> transferWriter" where
  "tw_of_request late rr =
     (let t = new_tw\<lparr>tw_Method := valueOrDefault (rq_Method rr) ''GET'', tw_Close := rq_Close rr,
                tw_TransferEncoding := rq_TransferEncoding rr, tw_Header := rq_Header rr, tw_Trailer := rq_Trailer rr,
                tw_Body := reader_of (rq_Body rr), tw_BodyCloser := closer_of (rq_Body rr),
                tw_ContentLength := outgoingLength rr\<rparr>;
          t1 = (if tw_ContentLength t < 0 \<and> tw_TransferEncoding t = [] then
                  (case shouldSendChunkedRequestBody late t of
                     (True, t') \<Rightarrow> t'\<lparr>tw_TransferEncoding := [''chunked'']\<rparr>
                   | (False, t') \<Rightarrow> t')
                else t)
      in if tw_ContentLength t1 \<noteq> 0 \<and> \<not> isKnownInMemoryReader (tw_Body t1)
         then t1\<lparr>tw_FlushHeaders := True\<rparr> else t1)"

definition tw_of_response :: "wbody response \<Rightarrow> transferWriter" where
  "tw_of_response rr =
     (let m = (case rp_RequestMethod rr of None \<Rightarrow> [] | Some m \<Rightarrow> m)
      in new_tw\<lparr>tw_IsResponse := True, tw_Method := m, tw_Body := reader_of (rp_Body rr),
                tw_BodyCloser := closer_of (rp_Body rr), tw_ContentLength := rp_ContentLength rr,
                tw_Close := rp_Close rr, tw_TransferEncoding := rp_TransferEncoding rr, tw_Header := rp_Header rr,
                tw_Trailer := rp_Trailer rr, tw_ResponseToHEAD := noResponseBodyExpected m\<rparr>)"

definition sanitize_tw :: "bool \<Rightarrow> transferWriter \<Rightarrow> transferWriter" where
  "sanitize_tw atLeastHTTP11 t =
     (let t1 = (if tw_ResponseToHEAD t then
                  (let t' = t\<lparr>tw_Body := None\<rparr>
                   in if te_chunked (tw_TransferEncoding t') then t'\<lparr>tw_ContentLength := - 1\<rparr> else t')
                else
                  (let t' = (if \<not> atLeastHTTP11 \<or> tw_Body t = None then t\<lparr>tw_TransferEncoding := []\<rparr> else t)
                   in if te_chunked (tw_TransferEncoding t') then t'\<lparr>tw_ContentLength := - 1\<rparr>
                      else if tw_Body t' = None then t'\<lparr>tw_ContentLength := 0\<rparr> else t'))
      in if \<not> te_chunked (tw_TransferEncoding t1) then t1\<lparr>tw_Trailer := None\<rparr> else t1)"

datatype out_message = OutRequest "wbody request" | OutResponse "wbody response"

definition newTransferWriter :: "bool \<Rightarrow> out_message \<Rightarrow> send_error + transferWriter" where
  "newTransferWriter late r =
     (case r of
        OutRequest rr \<Rightarrow>
          if rq_ContentLength rr \<noteq> 0 \<and> rq_Body rr = NilBody then Inl (NilBodyLength (rq_ContentLength rr))
          else Inr (sanitize_tw True (tw_of_request late rr))
      | OutResponse rr \<Rightarrow> Inr (sanitize_tw (response_ProtoAtLeast rr 1 1) (tw_of_response rr)))"

section \<open>The header\<close>

definition shouldSendContentLength :: "transferWriter \<Rightarrow> bool" where
  "shouldSendContentLength t =
     (if te_chunked (tw_TransferEncoding t) then False
      else if tw_ContentLength t > 0 then True
      else if tw_ContentLength t < 0 then False
      else if tw_Method t = ''POST'' \<or> tw_Method t = ''PUT'' \<or> tw_Method t = ''PATCH'' then True
      else if tw_ContentLength t = 0 \<and> isIdentity (tw_TransferEncoding t) then
        (if tw_Method t = ''GET'' \<or> tw_Method t = ''HEAD'' then False else True)
      else False)"

fun send_all :: "'w wire \<Rightarrow> string list \<Rightarrow> 'w \<Rightarrow> 'w \<times> send_error option" where
  "send_all wr ss w = (case write_strings wr ss w of (w', e) \<Rightarrow> (w', map_option SendIo e))"

text \<open>The canonical keys of the trailer, or the first bad one.\<close>

fun trailer_keys :: "string list \<Rightarrow> send_error + string list" where
  "trailer_keys [] = Inr []"
| "trailer_keys (k0 # ks) =
     (let k = CanonicalHeaderKey k0
      in if bad_trailer_key k then Inl (SendBad (BadString ''invalid Trailer key'' k))
         else and_then (trailer_keys ks) (\<lambda>r. Inr (k # r)))"

definition and_send :: "'w \<times> send_error option \<Rightarrow> ('w \<Rightarrow> 'w \<times> send_error option) \<Rightarrow> 'w \<times> send_error option" where
  "and_send r f = (case r of (w, Some e) \<Rightarrow> (w, Some e) | (w, None) \<Rightarrow> f w)"

definition tw_writeHeader :: "'w wire \<Rightarrow> transferWriter \<Rightarrow> 'w \<Rightarrow> 'w \<times> send_error option" where
  "tw_writeHeader wr t w =
     and_send
       (if tw_Close t \<and> \<not> hasToken (header_get ''Connection'' (tw_Header t)) ''close''
        then send_all wr [''Connection: close'' @ crlf] w else (w, None))
       (\<lambda>w. and_send
          (if shouldSendContentLength t then send_all wr [''Content-Length: '', Itoa (tw_ContentLength t) @ crlf] w
           else if te_chunked (tw_TransferEncoding t) then send_all wr [''Transfer-Encoding: chunked'' @ crlf] w
           else (w, None))
          (\<lambda>w. case tw_Trailer t of
             None \<Rightarrow> (w, None)
           | Some tr \<Rightarrow>
               (case trailer_keys (keys_of tr) of
                  Inl e \<Rightarrow> (w, Some e)
                | Inr keys \<Rightarrow>
                    if 0 < length keys then send_all wr [''Trailer: '' @ join_with '','' (sort keys) @ crlf] w
                    else (w, None))))"

section \<open>The body\<close>

definition copy_buf :: nat where "copy_buf = 32 * 1024"

text \<open>One read through io.LimitReader, when there is a limit.\<close>

fun limited_wb_Read :: "nat option \<Rightarrow> wbody \<Rightarrow> string \<times> io_error option \<times> nat option \<times> wbody" where
  "limited_wb_Read None b = (case wb_Read copy_buf b of (d, e, b') \<Rightarrow> (d, e, None, b'))"
| "limited_wb_Read (Some n) b =
     (if n = 0 then ([], Some EOF, Some 0, b)
      else case wb_Read (min n copy_buf) b of (d, e, b') \<Rightarrow> (d, e, Some (n - length d), b'))"

definition wb_size :: "wbody \<Rightarrow> nat" where
  "wb_size b = length (concat (wb_pieces b)) + length (wb_pieces b)"

lemma wb_Read_size: "wb_Read k b = (d, None, b') \<Longrightarrow> 0 < k \<Longrightarrow> wb_size b' < wb_size b"
  by (auto simp: wb_Read_def wb_size_def split: list.splits if_splits)

lemma limited_wb_Read_size: "limited_wb_Read lim b = (d, None, lim', b') \<Longrightarrow> wb_size b' < wb_size b"
  by (cases lim) (auto simp: copy_buf_def split: if_splits prod.splits intro: wb_Read_size)

text \<open>io.CopyBuffer: the number of bytes, the error, and what is left of the body.\<close>

function copy_loop ::
  "'w wire \<Rightarrow> nat option \<Rightarrow> wbody \<Rightarrow> nat \<Rightarrow> 'w \<Rightarrow> 'w \<times> nat \<times> io_error option \<times> wbody" where
  "copy_loop wr lim b cnt w =
     (case limited_wb_Read lim b of
        (d, e, lim', b') \<Rightarrow>
          (case (if d = [] then (w, 0, None) else wr d w) of
             (w1, n, Some err) \<Rightarrow> (w1, cnt + n, Some err, b')
           | (w1, n, None) \<Rightarrow>
               if n \<noteq> length d then (w1, cnt + n, Some ShortWrite, b')
               else (case e of
                       None \<Rightarrow> copy_loop wr lim' b' (cnt + n) w1
                     | Some err \<Rightarrow> (w1, cnt + n, if err = EOF then None else Some err, b'))))"
  by pat_completeness auto
termination
  by (relation "measure (\<lambda>(wr, lim, b, cnt, w). wb_size b)") (auto dest!: sym[of _ "limited_wb_Read _ _"] limited_wb_Read_size)

declare copy_loop.simps [simp del]

text \<open>A body in memory that is not limited is written at once.\<close>

definition copy_whole :: "'w wire \<Rightarrow> wbody \<Rightarrow> 'w \<Rightarrow> 'w \<times> nat \<times> io_error option \<times> wbody" where
  "copy_whole wr b w =
     (let d = concat (wb_pieces b); b' = b\<lparr>wb_pieces := []\<rparr>
      in if d = [] then (w, 0, None, b')
         else case wr d w of
           (w1, n, Some err) \<Rightarrow> (w1, n, Some err, b')
         | (w1, n, None) \<Rightarrow> (w1, n, if n \<noteq> length d then Some ShortWrite else None, b'))"

definition doBodyCopy ::
  "'w wire \<Rightarrow> nat option \<Rightarrow> transferWriter \<Rightarrow> wbody \<Rightarrow> 'w \<Rightarrow> 'w \<times> nat \<times> io_error option \<times> wbody \<times> transferWriter" where
  "doBodyCopy wr lim t b w =
     (case (if lim = None \<and> wb_inMemory b then copy_whole wr b w else copy_loop wr lim b 0 w) of
        (w1, n, err, b') \<Rightarrow>
          (w1, n, err, b', if err \<noteq> None \<and> err \<noteq> Some EOF then t\<lparr>tw_bodyReadError := err\<rparr> else t))"

definition discard_wire :: "unit wire" where
  "discard_wire d w = ((), length d, None)"

text \<open>Every write is flushed, if the writer can be flushed.\<close>

definition flush_wire :: "('w \<Rightarrow> 'w \<times> io_error option) option \<Rightarrow> 'w wire \<Rightarrow> 'w wire" where
  "flush_wire flush wr d w =
     (case wr d w of
        (w1, n, err) \<Rightarrow>
          (case flush of
             Some fl \<Rightarrow> if 0 < n then (case fl w1 of (w2, ferr) \<Rightarrow> (w2, n, if err = None then ferr else err)) else (w1, n, err)
           | None \<Rightarrow> (w1, n, err)))"

definition close_body :: "transferWriter \<Rightarrow> io_error option \<times> transferWriter" where
  "close_body t =
     (case tw_BodyCloser t of None \<Rightarrow> (None, t) | Some e \<Rightarrow> (e, t\<lparr>tw_closes := Suc (tw_closes t)\<rparr>))"

text \<open>The copy of the body: the number of bytes and the error.\<close>

definition send_body ::
  "'w wire \<Rightarrow> ('w \<Rightarrow> 'w \<times> io_error option) option \<Rightarrow> transferWriter \<Rightarrow> 'w \<Rightarrow> 'w \<times> nat \<times> io_error option \<times> transferWriter" where
  "send_body wr flush t w =
     (case tw_Body t of
        None \<Rightarrow> (w, 0, None, t)
      | Some b \<Rightarrow>
          if te_chunked (tw_TransferEncoding t) then
            (case doBodyCopy (chunked_Write wr (if tw_IsResponse t then None else flush)) None t b w of
               (w1, _, Some err, b', t1) \<Rightarrow> (w1, 0, Some err, t1\<lparr>tw_Body := Some b'\<rparr>)
             | (w1, _, None, b', t1) \<Rightarrow> (case chunked_Close wr w1 of (w2, err) \<Rightarrow> (w2, 0, err, t1\<lparr>tw_Body := Some b'\<rparr>)))
          else if tw_ContentLength t = - 1 then
            (case doBodyCopy (if tw_Method t = ''CONNECT'' then flush_wire flush wr else wr) None t b w of
               (w1, n, err, b', t1) \<Rightarrow> (w1, n, err, t1\<lparr>tw_Body := Some b'\<rparr>))
          else
            (case doBodyCopy wr (Some (nat (tw_ContentLength t))) t b w of
               (w1, n, Some err, b', t1) \<Rightarrow> (w1, n, Some err, t1\<lparr>tw_Body := Some b'\<rparr>)
             | (w1, n, None, b', t1) \<Rightarrow>
                 (case doBodyCopy discard_wire None t1 b' () of
                    (_, m, err, b'', t2) \<Rightarrow> (w1, n + m, err, t2\<lparr>tw_Body := Some b''\<rparr>))))"

text \<open>What follows the body: the check of the length, the trailer and the last line end.\<close>

definition finish_body :: "'w wire \<Rightarrow> transferWriter \<Rightarrow> nat \<Rightarrow> 'w \<Rightarrow> 'w \<times> send_error option" where
  "finish_body wr t n w =
     (if \<not> tw_ResponseToHEAD t \<and> tw_ContentLength t \<noteq> - 1 \<and> tw_ContentLength t \<noteq> int n
      then (w, Some (BodyLength (tw_ContentLength t) n))
      else if te_chunked (tw_TransferEncoding t) then
        and_send
          (case tw_Trailer t of
             None \<Rightarrow> (w, None)
           | Some tr \<Rightarrow> (case Header_Write wr tr w of (w1, e) \<Rightarrow> (w1, map_option SendIo e)))
          (send_all wr [crlf])
      else (w, None))"

text \<open>An error of the copy is returned after the body was closed, whatever the Close answers.\<close>

definition tw_writeBody ::
  "'w wire \<Rightarrow> ('w \<Rightarrow> 'w \<times> io_error option) option \<Rightarrow> transferWriter \<Rightarrow> 'w \<Rightarrow> 'w \<times> send_error option \<times> transferWriter" where
  "tw_writeBody wr flush t w =
     (case send_body wr flush t w of
        (w1, _, Some err, t1) \<Rightarrow> (w1, Some (SendIo err), snd (close_body t1))
      | (w1, n, None, t1) \<Rightarrow>
          (case close_body t1 of
             (Some err, t2) \<Rightarrow> (w1, Some (SendIo err), t2)
           | (None, t2) \<Rightarrow> (case finish_body wr t2 n w1 of (w2, e) \<Rightarrow> (w2, e, t2))))"

end
