(* ===== verification/Cookie.thy ===== *)
theory Cookie
  imports Http_Header Go_Utf8 Go_Strconv
begin

text \<open>
  Cookies (src/http/cookie.go, and Cookies and AddCookie of src/http/request.go and
  src/http/response.go).  The table of token runes, IsTokenRune of golang.org/x/net/http/httpguts, is the
  parameter \<open>T\<close>; time.Parse, on one of the two layouts, is the parameter \<open>P\<close>, and a time is a value of
  the type parameter.  The warning that sanitizeOrWarn logs is not modelled.
\<close>

datatype SameSite = SameSiteUnset | SameSiteDefaultMode | SameSiteLaxMode | SameSiteStrictMode | SameSiteNoneMode

record 't Cookie =
  ck_Name :: string
  ck_Value :: string
  ck_Path :: string
  ck_Domain :: string
  ck_Expires :: "'t option"
  ck_RawExpires :: string
  ck_MaxAge :: int
  ck_Secure :: bool
  ck_HttpOnly :: bool
  ck_SameSite :: SameSite
  ck_Raw :: string
  ck_Unparsed :: "string list"

definition new_cookie :: "string \<Rightarrow> string \<Rightarrow> 't Cookie" where
  "new_cookie name val =
     \<lparr>ck_Name = name, ck_Value = val, ck_Path = [], ck_Domain = [], ck_Expires = None, ck_RawExpires = [],
      ck_MaxAge = 0, ck_Secure = False, ck_HttpOnly = False, ck_SameSite = SameSiteUnset, ck_Raw = [],
      ck_Unparsed = []\<rparr>"

section \<open>Names and values\<close>

definition validCookieValueByte :: "char \<Rightarrow> bool" where
  "validCookieValueByte b = (CHR '' '' \<le> b \<and> b < CHR 0x7F \<and> b \<noteq> CHR 0x22 \<and> b \<noteq> CHR '';'' \<and> b \<noteq> CHR 0x5C)"

definition sanitizeOrWarn :: "(char \<Rightarrow> bool) \<Rightarrow> string \<Rightarrow> string" where
  "sanitizeOrWarn valid v = (if list_all valid v then v else filter valid v)"

definition sanitizeCookieName :: "string \<Rightarrow> string" where
  "sanitizeCookieName n = map (\<lambda>c. if c = CHR 0x0A \<or> c = CHR 0x0D then CHR ''-'' else c) n"

definition sanitizeCookieValue :: "string \<Rightarrow> string" where
  "sanitizeCookieValue v0 =
     (let v = sanitizeOrWarn validCookieValueByte v0
      in if length v = 0 then v
         else if list_ex (\<lambda>c. c = CHR '' '' \<or> c = CHR '','') v then [CHR 0x22] @ v @ [CHR 0x22]
         else v)"

definition parseCookieValue :: "string \<Rightarrow> bool \<Rightarrow> string \<times> bool" where
  "parseCookieValue raw0 allowDoubleQuote =
     (let raw = (if allowDoubleQuote \<and> 1 < length raw0 \<and> raw0 ! 0 = CHR 0x22 \<and> raw0 ! (length raw0 - 1) = CHR 0x22
                 then drop 1 (take (length raw0 - 1) raw0) else raw0)
      in if list_all validCookieValueByte raw then (raw, True) else ([], False))"

definition isCookieNameValid :: "(nat \<Rightarrow> bool) \<Rightarrow> string \<Rightarrow> bool" where
  "isCookieNameValid T raw = (if raw = [] then False else list_all T (runes raw))"

section \<open>Reading Set-Cookie\<close>

definition unparsed :: "string \<Rightarrow> 't Cookie \<Rightarrow> 't Cookie" where
  "unparsed part c = c\<lparr>ck_Unparsed := ck_Unparsed c @ [part]\<rparr>"

definition same_site :: "string \<Rightarrow> SameSite" where
  "same_site val =
     (case ToLower val of
        (lowerVal, isAscii) \<Rightarrow>
          if \<not> isAscii then SameSiteDefaultMode
          else if lowerVal = ''lax'' then SameSiteLaxMode
          else if lowerVal = ''strict'' then SameSiteStrictMode
          else if lowerVal = ''none'' then SameSiteNoneMode
          else SameSiteDefaultMode)"

definition RFC1123 :: string where "RFC1123 = ''Mon, 02 Jan 2006 15:04:05 MST''"

text \<open>One pass of the loop over the parts.\<close>

definition set_cookie_part :: "(string \<Rightarrow> string \<Rightarrow> 't option) \<Rightarrow> string \<Rightarrow> 't Cookie \<Rightarrow> 't Cookie" where
  "set_cookie_part P part0 c =
     (let part = TrimString part0
      in if length part = 0 then c
         else case cut_byte (CHR ''='') part of
           (attr, val0, _) \<Rightarrow>
             (case ToLower attr of
                (lowerAttr, isASCII) \<Rightarrow>
                  if \<not> isASCII then c
                  else case parseCookieValue val0 False of
                    (val, ok) \<Rightarrow>
                      if \<not> ok then unparsed part c
                      else if lowerAttr = ''samesite'' then c\<lparr>ck_SameSite := same_site val\<rparr>
                      else if lowerAttr = ''secure'' then c\<lparr>ck_Secure := True\<rparr>
                      else if lowerAttr = ''httponly'' then c\<lparr>ck_HttpOnly := True\<rparr>
                      else if lowerAttr = ''domain'' then c\<lparr>ck_Domain := val\<rparr>
                      else if lowerAttr = ''max-age'' then
                        (case Atoi val of
                           Inl _ \<Rightarrow> unparsed part c
                         | Inr secs \<Rightarrow>
                             if secs \<noteq> 0 \<and> val ! 0 = CHR ''0'' then unparsed part c
                             else c\<lparr>ck_MaxAge := (if secs \<le> 0 then - 1 else secs)\<rparr>)
                      else if lowerAttr = ''expires'' then
                        (let c1 = c\<lparr>ck_RawExpires := val\<rparr>
                         in case P RFC1123 val of
                              Some t \<Rightarrow> c1\<lparr>ck_Expires := Some t\<rparr>
                            | None \<Rightarrow>
                                (case P ''Mon, 02-Jan-2006 15:04:05 MST'' val of
                                   Some t \<Rightarrow> c1\<lparr>ck_Expires := Some t\<rparr>
                                 | None \<Rightarrow> unparsed part (c1\<lparr>ck_Expires := None\<rparr>)))
                      else if lowerAttr = ''path'' then c\<lparr>ck_Path := val\<rparr>
                      else unparsed part c))"

definition read_set_cookie ::
  "(nat \<Rightarrow> bool) \<Rightarrow> (string \<Rightarrow> string \<Rightarrow> 't option) \<Rightarrow> string \<Rightarrow> 't Cookie list" where
  "read_set_cookie T P line =
     (let parts = split_byte (CHR '';'') (TrimString line)
      in if length parts = 1 \<and> parts ! 0 = [] then []
         else let part0 = TrimString (parts ! 0)
         in case cut_byte (CHR ''='') part0 of
           (name0, value0, ok) \<Rightarrow>
             if \<not> ok then []
             else let name = TrimString name0
             in if \<not> isCookieNameValid T name then []
                else case parseCookieValue value0 True of
                  (value, ok') \<Rightarrow>
                    if \<not> ok' then []
                    else [fold (set_cookie_part P) (parts[0 := part0])
                            ((new_cookie name value)\<lparr>ck_Raw := line\<rparr>)])"

definition readSetCookies ::
  "(nat \<Rightarrow> bool) \<Rightarrow> (string \<Rightarrow> string \<Rightarrow> 't option) \<Rightarrow> multimap \<Rightarrow> 't Cookie list" where
  "readSetCookies T P h = concat (map (read_set_cookie T P) (values_at h ''Set-Cookie''))"

section \<open>Reading Cookie\<close>

text \<open>One part of a line, and the loop over the parts.\<close>

definition read_cookie_part :: "(nat \<Rightarrow> bool) \<Rightarrow> string \<Rightarrow> string \<Rightarrow> 't Cookie list" where
  "read_cookie_part T flt part0 =
     (let part = TrimString part0
      in if part = [] then []
         else case cut_byte (CHR ''='') part of
           (name0, val0, _) \<Rightarrow>
             let name = TrimString name0
             in if \<not> isCookieNameValid T name then []
                else if flt \<noteq> [] \<and> flt \<noteq> name then []
                else case parseCookieValue val0 True of
                  (val, ok) \<Rightarrow> if \<not> ok then [] else [new_cookie name val])"

function read_cookie_line :: "(nat \<Rightarrow> bool) \<Rightarrow> string \<Rightarrow> string \<Rightarrow> 't Cookie list" where
  "read_cookie_line T flt line =
     (if length line = 0 then []
      else case cut_byte (CHR '';'') line of
        (part, rest, _) \<Rightarrow> read_cookie_part T flt part @ read_cookie_line T flt rest)"
  by pat_completeness auto
termination
  by (relation "measure (\<lambda>(T, f, line). length line)")
    (auto dest!: sym[of _ "cut_byte _ _"] simp: cut_byte_eq split: if_splits)

declare read_cookie_line.simps [simp del]

definition readCookies :: "(nat \<Rightarrow> bool) \<Rightarrow> multimap \<Rightarrow> string \<Rightarrow> 't Cookie list" where
  "readCookies T h flt =
     concat (map (\<lambda>line. read_cookie_line T flt (TrimString line)) (values_at h ''Cookie''))"

definition Cookies :: "(nat \<Rightarrow> bool) \<Rightarrow> multimap \<Rightarrow> 't Cookie list" where
  "Cookies T h = readCookies T h []"

section \<open>Writing Cookie\<close>

definition cookie_text :: "string \<Rightarrow> string \<Rightarrow> string" where
  "cookie_text name val = sanitizeCookieName name @ ''='' @ sanitizeCookieValue val"

definition AddCookie :: "'t Cookie \<Rightarrow> multimap \<Rightarrow> multimap" where
  "AddCookie c h =
     (let s = cookie_text (ck_Name c) (ck_Value c); old = Header_Get ''Cookie'' h
      in if old \<noteq> [] then Header_Set ''Cookie'' (old @ ''; '' @ s) h
         else Header_Set ''Cookie'' s h)"

section \<open>Correctness\<close>

lemma TrimString_id: "s = [] \<or> \<not> isASCIISpace (hd s) \<and> \<not> isASCIISpace (last s) \<Longrightarrow> TrimString s = s"
  by (auto simp: TrimString_def)

lemma TrimString_space: "TrimString (CHR '' '' # s) = TrimString s"
  by (simp add: TrimString_def trim_left_by_def isASCIISpace_def)

lemma sanitizeOrWarn_filter: "sanitizeOrWarn valid v = filter valid v"
  by (auto simp: sanitizeOrWarn_def list_all_iff filter_id_conv)

lemma valid_not_special:
  "validCookieValueByte b \<Longrightarrow> b \<noteq> CHR 0x22 \<and> b \<noteq> CHR '';'' \<and> (isASCIISpace b \<longrightarrow> b = CHR '' '')"
  by (auto simp: validCookieValueByte_def isASCIISpace_def less_eq_char_def)

lemma parse_sanitized: "parseCookieValue (sanitizeCookieValue v) True = (filter validCookieValueByte v, True)"
proof -
  let ?w = "filter validCookieValueByte v"
  have all: "list_all validCookieValueByte ?w" by (simp add: list_all_iff)
  have unquoted: "parseCookieValue ?w True = (?w, True)" if "?w \<noteq> []"
  proof -
    have "?w ! 0 \<in> set ?w" using that by (intro nth_mem) simp
    then have "?w ! 0 \<noteq> CHR 0x22" using valid_not_special by auto
    then show ?thesis using all by (simp add: parseCookieValue_def Let_def)
  qed
  have quoted: "parseCookieValue ([CHR 0x22] @ ?w @ [CHR 0x22]) True = (?w, True)"
    using all by (simp add: parseCookieValue_def Let_def nth_append)
  have empty: "parseCookieValue [] True = ([], True)" by (simp add: parseCookieValue_def)
  show ?thesis
    using unquoted quoted empty unfolding sanitizeCookieValue_def sanitizeOrWarn_filter Let_def by (auto split: if_splits)
qed

lemma sanitized_bytes:
  "CHR '';'' \<notin> set (sanitizeCookieValue v) \<and>
   (sanitizeCookieValue v \<noteq> [] \<longrightarrow> \<not> isASCIISpace (last (sanitizeCookieValue v)))"
proof -
  let ?w = "filter validCookieValueByte v"
  have semi: "CHR '';'' \<notin> set ?w" using valid_not_special by auto
  have quote: "\<not> isASCIISpace (CHR 0x22)" by (simp add: isASCIISpace_def)
  have "\<not> isASCIISpace (last ?w)" if "\<not> list_ex (\<lambda>c. c = CHR '' '' \<or> c = CHR '','') ?w" "?w \<noteq> []"
  proof -
    have "last ?w \<in> set ?w" using that(2) by (rule last_in_set)
    then show ?thesis using that(1) valid_not_special by (auto simp: list_ex_iff)
  qed
  then show ?thesis
    using semi quote unfolding sanitizeCookieValue_def sanitizeOrWarn_filter Let_def by auto
qed

text \<open>The part of IsTokenRune that the sources rely on: on ASCII it is the token table of RFC 7230.\<close>

definition token_runes :: "(nat \<Rightarrow> bool) \<Rightarrow> bool" where
  "token_runes T = (\<forall>c. c < CHR 0x80 \<longrightarrow> T (of_char c) = token_byte c)"

abbreviation cookie_name :: "string \<Rightarrow> bool" where
  "cookie_name n \<equiv> n \<noteq> [] \<and> list_all token_byte n"

lemma token_byte_facts:
  "token_byte c \<Longrightarrow> c < CHR 0x80 \<and> \<not> isASCIISpace c \<and> c \<noteq> CHR ''='' \<and> c \<noteq> CHR '';''"
  unfolding token_byte_def isASCIISpace_def by (auto simp: less_eq_char_def less_char_def)

lemma cookie_name_valid:
  assumes "token_runes T" and "cookie_name n"
  shows "isCookieNameValid T n"
proof -
  have ascii: "list_all (\<lambda>c. c < CHR 0x80) n" using assms(2) token_byte_facts by (auto simp: list_all_iff)
  then show ?thesis
    using assms by (auto simp: isCookieNameValid_def runes_all_ascii list_all_iff token_runes_def)
qed

lemma cookie_text_ends:
  assumes "cookie_name n"
  shows "cookie_text n v = n @ CHR ''='' # sanitizeCookieValue v"
    and "\<not> isASCIISpace (hd (cookie_text n v))" and "\<not> isASCIISpace (last (cookie_text n v))"
    and "CHR '';'' \<notin> set (cookie_text n v)"
proof -
  have n: "c \<in> set n \<Longrightarrow> \<not> isASCIISpace c \<and> c \<noteq> CHR '';''" for c
    using assms token_byte_facts by (auto simp: list_all_iff)
  have "map (\<lambda>c. if c = CHR 0x0A \<or> c = CHR 0x0D then CHR ''-'' else c) n = n"
    using n by (intro map_idI) (auto simp: isASCIISpace_def)
  then show t: "cookie_text n v = n @ CHR ''='' # sanitizeCookieValue v"
    by (simp add: cookie_text_def sanitizeCookieName_def)
  show "\<not> isASCIISpace (hd (cookie_text n v))" using assms n unfolding t by (cases n) auto
  have eq: "\<not> isASCIISpace (CHR ''='')" by (simp add: isASCIISpace_def)
  show "\<not> isASCIISpace (last (cookie_text n v))" using sanitized_bytes[of v] eq unfolding t by auto
  show "CHR '';'' \<notin> set (cookie_text n v)" using sanitized_bytes[of v] n unfolding t by auto
qed

lemma read_cookie_part_text:
  assumes "token_runes T" and "cookie_name n" and "s \<in> {cookie_text n v, CHR '' '' # cookie_text n v}"
  shows "read_cookie_part T [] s = [new_cookie n (filter validCookieValueByte v)]"
proof -
  let ?t = "cookie_text n v"
  note t = cookie_text_ends[OF assms(2), of v]
  have "TrimString ?t = ?t" using t(2,3) by (intro TrimString_id) simp
  then have trim: "TrimString s = ?t" using assms(3) TrimString_space by auto
  have ne: "?t \<noteq> []" unfolding t(1) by simp
  have "CHR ''='' \<notin> set n" using assms(2) token_byte_facts by (auto simp: list_all_iff)
  then have cut: "cut_byte (CHR ''='') ?t = (n, sanitizeCookieValue v, True)"
    unfolding t(1) by (simp add: cut_byte_eq)
  have sp: "\<not> isASCIISpace c" if "c \<in> set n" for c using that assms(2) token_byte_facts by (auto simp: list_all_iff)
  have "TrimString n = n" using sp assms(2) by (intro TrimString_id) simp
  then show ?thesis
    using ne cookie_name_valid[OF assms(1,2)]
    by (simp add: read_cookie_part_def Let_def trim cut parse_sanitized)
qed

fun after_semicolons :: "string list \<Rightarrow> string" where
  "after_semicolons [] = []"
| "after_semicolons (t # ts) = CHR '';'' # CHR '' '' # t @ after_semicolons ts"

lemma read_cookie_line_parts:
  assumes "s \<noteq> []" and "CHR '';'' \<notin> set s" and "\<forall>t\<in>set ts. CHR '';'' \<notin> set t"
  shows "(read_cookie_line T f (s @ after_semicolons ts) :: 'c Cookie list) =
    read_cookie_part T f s @ concat (map (\<lambda>t. read_cookie_part T f (CHR '' '' # t)) ts)"
  using assms
proof (induction ts arbitrary: s)
  case Nil
  then show ?case by (simp add: read_cookie_line.simps cut_byte_notin)
next
  case (Cons t ts)
  have cut: "cut_byte (CHR '';'') (s @ CHR '';'' # CHR '' '' # t @ after_semicolons ts) =
      (s, CHR '' '' # t @ after_semicolons ts, True)"
    using Cons.prems by (simp add: cut_byte_eq)
  have "(read_cookie_line T f (CHR '' '' # t @ after_semicolons ts) :: 'c Cookie list) =
      read_cookie_part T f (CHR '' '' # t) @ concat (map (\<lambda>t. read_cookie_part T f (CHR '' '' # t)) ts)"
    using Cons.IH[of "CHR '' '' # t"] Cons.prems by simp
  then show ?case
    using Cons.prems(1) cut by (subst read_cookie_line.simps) simp
qed

lemma canonical_Cookie: "CanonicalMIMEHeaderKey ''Cookie'' = ''Cookie''"
  by (simp add: CanonicalMIMEHeaderKey_token canon_loop_Cons validHeaderFieldByte_token token_byte_def
      to_upper_def lower_cases lowercase_def uppercase_def Let_def)

text \<open>The line that a list of added cookies leaves.\<close>

definition cookie_line :: "string \<Rightarrow> string list \<Rightarrow> string" where
  "cookie_line t ts = t @ after_semicolons ts"

lemma after_semicolons_append: "after_semicolons (ts @ us) = after_semicolons ts @ after_semicolons us"
  by (induction ts) simp_all

lemma AddCookie_line:
  assumes "values_at h ''Cookie'' = [cookie_line t ts]" and "t \<noteq> []"
  shows "values_at (fold AddCookie cs h) ''Cookie'' =
    [cookie_line t (ts @ map (\<lambda>c. cookie_text (ck_Name c) (ck_Value c)) cs)]"
  using assms
proof (induction cs arbitrary: h ts)
  case (Cons c cs)
  have "cookie_line t ts \<noteq> []" using assms(2) by (simp add: cookie_line_def)
  then have "values_at (AddCookie c h) ''Cookie'' = [cookie_line t (ts @ [cookie_text (ck_Name c) (ck_Value c)])]"
    using Cons.prems
    by (simp add: AddCookie_def Let_def Header_Get_def MIMEHeader_Get_def canonical_Cookie Header_Set_def
        MIMEHeader_Set_def values_at_update cookie_line_def after_semicolons_append)
  from Cons.IH[OF this assms(2)] show ?case by simp
qed simp

lemma AddCookie_first:
  assumes "values_at h ''Cookie'' = []"
  shows "values_at (AddCookie c h) ''Cookie'' = [cookie_line (cookie_text (ck_Name c) (ck_Value c)) []]"
  using assms
  by (simp add: AddCookie_def Let_def Header_Get_def MIMEHeader_Get_def canonical_Cookie Header_Set_def
      MIMEHeader_Set_def values_at_update cookie_line_def after_semicolons_append)

lemma cookies_read_back:
  assumes "token_runes T" and "values_at h ''Cookie'' = []" and "\<forall>c\<in>set cs. cookie_name (ck_Name c)"
  shows "(Cookies T (fold AddCookie cs h) :: 'c Cookie list) =
    map (\<lambda>c. new_cookie (ck_Name c) (filter validCookieValueByte (ck_Value c))) cs"
proof (cases cs)
  case Nil
  then show ?thesis using assms(2) by (simp add: Cookies_def readCookies_def)
next
  case (Cons c ds)
  let ?tx = "\<lambda>c. cookie_text (ck_Name c) (ck_Value c)"
  let ?line = "cookie_line (?tx c) (map ?tx ds)"
  have names: "cookie_name (ck_Name d)" if "d \<in> set (c # ds)" for d using assms(3) Cons that by blast
  have tc: "?tx c \<noteq> []" using cookie_text_ends(1)[OF names[of c]] by simp
  have vals: "values_at (fold AddCookie cs h) ''Cookie'' = [?line]"
    using AddCookie_line[OF AddCookie_first[OF assms(2), of c] tc, where cs = ds] Cons by simp
  have semi: "CHR '';'' \<notin> set (?tx d)" if "d \<in> set (c # ds)" for d using cookie_text_ends(4)[OF names[OF that]] .
  have "\<not> isASCIISpace (last ?line)"
  proof (cases ds rule: rev_cases)
    case Nil
    then show ?thesis using cookie_text_ends(3)[OF names[of c]] by (simp add: cookie_line_def)
  next
    case (snoc es d)
    then have "last ?line = last (?tx d)"
      using cookie_text_ends(1)[OF names[of d]] by (simp add: cookie_line_def after_semicolons_append)
    then show ?thesis using cookie_text_ends(3)[OF names[of d]] snoc by simp
  qed
  moreover have "\<not> isASCIISpace (hd ?line)"
    using cookie_text_ends(2)[OF names[of c]] tc by (simp add: cookie_line_def)
  ultimately have trim: "TrimString ?line = ?line" by (intro TrimString_id) simp
  have "(read_cookie_line T [] ?line :: 'c Cookie list) =
      read_cookie_part T [] (?tx c) @ concat (map (\<lambda>t. read_cookie_part T [] (CHR '' '' # t)) (map ?tx ds))"
    unfolding cookie_line_def using tc semi by (intro read_cookie_line_parts) auto
  also have "read_cookie_part T [] (?tx c) = [new_cookie (ck_Name c) (filter validCookieValueByte (ck_Value c))]"
    using names by (intro read_cookie_part_text[OF assms(1)]) auto
  also have "map (\<lambda>t. read_cookie_part T [] (CHR '' '' # t)) (map ?tx ds) =
      map (\<lambda>d. [new_cookie (ck_Name d) (filter validCookieValueByte (ck_Value d))]) ds"
    using names read_cookie_part_text[OF assms(1)] by auto
  finally show ?thesis unfolding Cookies_def readCookies_def vals by (simp add: trim Cons)
qed

lemma read_cookie_part_filter:
  "f \<noteq> [] \<Longrightarrow> read_cookie_part T f s = filter (\<lambda>c. ck_Name c = f) (read_cookie_part T [] s)"
  by (auto simp: read_cookie_part_def Let_def new_cookie_def split: prod.split)

lemma read_cookie_line_filter:
  "f \<noteq> [] \<Longrightarrow> read_cookie_line T f s = filter (\<lambda>c. ck_Name c = f) (read_cookie_line T [] s)"
proof (induction T f s rule: read_cookie_line.induct)
  case (1 T f line)
  obtain p r b where cut: "cut_byte (CHR '';'') line = (p, r, b)" by (metis surj_pair)
  show ?case
  proof (cases "line = []")
    case False
    then have "length line \<noteq> 0" by simp
    from 1(1)[OF this cut[symmetric] refl 1(2)] show ?thesis
      using False cut read_cookie_part_filter[OF 1(2), of T p]
      by (simp add: read_cookie_line.simps[of T f line] read_cookie_line.simps[of T "[]" line])
  qed (simp add: read_cookie_line.simps)
qed

lemma readCookies_filter:
  "f \<noteq> [] \<Longrightarrow> readCookies T h f = filter (\<lambda>c. ck_Name c = f) (readCookies T h [])"
  by (simp add: readCookies_def filter_concat comp_def read_cookie_line_filter[of f])

section \<open>Properties\<close>

text \<open>C31: The cookies added to a request that has none are read back by the server in their order, each with
  its name and with its value less the bytes that a value may not hold.\<close>

theorem cookie_roundtrip:
  assumes "token_runes T" and "values_at h ''Cookie'' = []" and "\<forall>c\<in>set cs. cookie_name (ck_Name c)"
  shows "Cookies T (fold AddCookie cs h) =
    map (\<lambda>c. new_cookie (ck_Name c) (filter validCookieValueByte (ck_Value c))) cs"
  by (rule cookies_read_back[OF assms])

lemma cookie_roundtrip_witness:
  "Cookies (\<lambda>r. r < 128 \<and> token_byte (char_of r)) (fold AddCookie [new_cookie ''a'' ''x, y'', new_cookie ''b'' []] [])
     = [new_cookie ''a'' ''x, y'', new_cookie ''b'' []]"
proof -
  have T: "token_runes (\<lambda>r. r < 128 \<and> token_byte (char_of r))"
    by (auto simp: token_runes_def less_char_def)
  have names: "list_all token_byte ''a''" "list_all token_byte ''b''" by code_simp+
  have vals: "filter validCookieValueByte ''x, y'' = ''x, y''" by code_simp
  show ?thesis
    using cookie_roundtrip[OF T, of "[]" "[new_cookie ''a'' ''x, y'', new_cookie ''b'' []]"] names vals
    by (simp add: new_cookie_def values_at_def)
qed

text \<open>Reading the cookies of one name is filtering all cookies by the name.\<close>

theorem readCookies_by_name:
  "readCookies T h f = (if f = [] then Cookies T h else filter (\<lambda>c. ck_Name c = f) (Cookies T h))"
  by (auto simp: Cookies_def intro: readCookies_filter)

text \<open>The loop of readSetCookies starts at the pair of name and value, so this pair is taken for an
  attribute: a cookie named Path sets its own path, and the pair of any other cookie is listed as unparsed.\<close>

theorem readSetCookies_first_pair:
  "readSetCookies (\<lambda>r. r < 128 \<and> token_byte (char_of r)) (\<lambda>_ _. None :: nat option)
     [(''Set-Cookie'', [''path=/evil'', ''a=b; Secure''])] =
   [(new_cookie ''path'' ''/evil'')\<lparr>ck_Path := ''/evil'', ck_Raw := ''path=/evil''\<rparr>,
    (new_cookie ''a'' ''b'')\<lparr>ck_Secure := True, ck_Raw := ''a=b; Secure'', ck_Unparsed := [''a=b'']\<rparr>]"
  by code_simp

end
