(* ===== verification/Http_Request.thy ===== *)
theory Http_Request
  imports Transfer_Write Cookie
begin

text \<open>
  Requests (src/http/request.go): their construction, writing and reading, and the predicates on them.  The
  parameters stand for golang.org/x/net: \<open>T\<close> is IsTokenRune, \<open>C\<close> HeaderValuesContainsToken, \<open>PH\<close>
  PunycodeHostPort and \<open>VH\<close> ValidHostHeader of http/httpguts; \<open>lax\<close> is the debug setting httplaxcontentlength.
  The context, the tracing callbacks and TLS are not modelled.
\<close>

section \<open>The first line\<close>

definition ParseHTTPVersion :: "string \<Rightarrow> (int \<times> int) option" where
  "ParseHTTPVersion vers =
     (if vers = ''HTTP/1.1'' then Some (1, 1)
      else if vers = ''HTTP/1.0'' then Some (1, 0)
      else if \<not> has_prefix vers ''HTTP/'' then None
      else if length vers \<noteq> length ''HTTP/X.Y'' then None
      else if vers ! 6 \<noteq> CHR ''.'' then None
      else (case ParseUint 64 [vers ! 5] of
              Inl _ \<Rightarrow> None
            | Inr maj \<Rightarrow>
                (case ParseUint 64 [vers ! 7] of
                   Inl _ \<Rightarrow> None
                 | Inr mnr \<Rightarrow> Some (int maj, int mnr))))"

definition validMethod :: "(nat \<Rightarrow> bool) \<Rightarrow> string \<Rightarrow> bool" where
  "validMethod T m = (length m > 0 \<and> list_all T (runes m))"

definition parseRequestLine :: "string \<Rightarrow> (string \<times> string \<times> string) option" where
  "parseRequestLine line =
     (case cut_byte (CHR '' '') line of
        (m, rest, ok1) \<Rightarrow>
          (case cut_byte (CHR '' '') rest of
             (requestURI, proto, ok2) \<Rightarrow> if \<not> ok1 \<or> \<not> ok2 then None else Some (m, requestURI, proto)))"

text \<open>The zone identifier of an IPv6 host is taken out.\<close>

definition removeZone :: "string \<Rightarrow> string" where
  "removeZone host =
     (if \<not> has_prefix host ''['' then host
      else case last_index_byte (CHR '']'') host of
        None \<Rightarrow> host
      | Some i \<Rightarrow>
          (case last_index_byte (CHR ''%'') (take i host) of
             None \<Rightarrow> host
           | Some j \<Rightarrow> take j host @ drop i host))"

section \<open>Predicates\<close>

definition expectsContinue :: "'b request \<Rightarrow> bool" where
  "expectsContinue r = hasToken (header_get ''Expect'' (rq_Header r)) ''100-continue''"

definition wantsHttp10KeepAlive :: "'b request \<Rightarrow> bool" where
  "wantsHttp10KeepAlive r =
     (if rq_ProtoMajor r \<noteq> 1 \<or> rq_ProtoMinor r \<noteq> 0 then False
      else hasToken (header_get ''Connection'' (rq_Header r)) ''keep-alive'')"

definition wantsClose :: "'b request \<Rightarrow> bool" where
  "wantsClose r =
     (if rq_Close r then True else hasToken (header_get ''Connection'' (rq_Header r)) ''close'')"

definition isReplayable :: "'b request \<Rightarrow> bool" where
  "isReplayable r =
     (if (case rq_Body r of TheBody _ \<Rightarrow> rq_GetBody r | _ \<Rightarrow> True) then
        (if valueOrDefault (rq_Method r) ''GET'' \<in> set [''GET'', ''HEAD'', ''OPTIONS'', ''TRACE''] then True
         else header_has ''Idempotency-Key'' (rq_Header r) \<or> header_has ''X-Idempotency-Key'' (rq_Header r))
      else False)"

definition requiresHTTP1 :: "'b request \<Rightarrow> bool" where
  "requiresHTTP1 r =
     (hasToken (Header_Get ''Connection'' (rq_Header r)) ''upgrade'' \<and>
      EqualFold (Header_Get ''Upgrade'' (rq_Header r)) ''websocket'')"

definition Referer :: "'b request \<Rightarrow> string" where
  "Referer r = Header_Get ''Referer'' (rq_Header r)"

section \<open>NewRequest\<close>

datatype request_error =
  InvalidMethod string
| BadURL parse_error
| MissingHost
| InvalidHostHeader
| PunycodeError string
| CtlInURI
| SendError send_error
| RequestBodyReadError io_error
| TpError tp_error
| MalformedRequest string string
| TooManyHosts
| FramingError transfer_error

text \<open>A body that is known to be in memory has a length and can be read again.\<close>

definition set_body :: "wbody body_val \<Rightarrow> wbody request \<Rightarrow> wbody request" where
  "set_body body req =
     (case body of
        TheBody b \<Rightarrow>
          if wb_inMemory b then
            (let n = length (concat (wb_pieces b));
                 req1 = req\<lparr>rq_Body := TheBody b, rq_ContentLength := int n, rq_GetBody := True\<rparr>
             in if n = 0 then req1\<lparr>rq_Body := NoBody\<rparr> else req1)
          else req\<lparr>rq_Body := TheBody b\<rparr>
      | _ \<Rightarrow> req\<lparr>rq_Body := body\<rparr>)"

definition NewRequest :: "(nat \<Rightarrow> bool) \<Rightarrow> string \<Rightarrow> string \<Rightarrow> wbody body_val \<Rightarrow> request_error + wbody request" where
  "NewRequest T m0 url body =
     (let m = (if m0 = [] then ''GET'' else m0)
      in if \<not> validMethod T m then Inl (InvalidMethod m)
         else case Parse url of
           Inl e \<Rightarrow> Inl (BadURL e)
         | Inr u0 \<Rightarrow>
             (let u = u0\<lparr>Host := removeEmptyPort (Host u0)\<rparr>;
                  req = new_request\<lparr>rq_Method := m, rq_URL := Some u, rq_Proto := ''HTTP/1.1'', rq_ProtoMajor := 1,
                          rq_ProtoMinor := 1, rq_Host := Host u\<rparr>
              in Inr (set_body body req)))"

section \<open>Writing\<close>

definition defaultUserAgent :: string where "defaultUserAgent = ''Go-http-client/1.1''"

definition reqWriteExcludeHeader :: "(string, bool) gomap" where
  "reqWriteExcludeHeader =
     [(''Host'', True), (''User-Agent'', True), (''Content-Length'', True), (''Transfer-Encoding'', True), (''Trailer'', True)]"

text \<open>The host and the request target; a request without a URL panics unless it has no host either.\<close>

definition request_target ::
  "(string \<Rightarrow> string + string) \<Rightarrow> (string \<Rightarrow> bool) \<Rightarrow> bool \<Rightarrow> 'b request \<Rightarrow> (request_error + string \<times> string) go" where
  "request_target PH VH usingProxy r =
     (if rq_Host r = [] \<and> rq_URL r = None then Ret (Inl MissingHost)
      else case PH (if rq_Host r = [] then Host (the (rq_URL r)) else rq_Host r) of
        Inl e \<Rightarrow> Ret (Inl (PunycodeError e))
      | Inr host0 \<Rightarrow>
          if \<not> VH host0 \<and> usingProxy then Ret (Inl InvalidHostHeader)
          else (let host = removeZone (if VH host0 then host0 else []) in
            case rq_URL r of
              None \<Rightarrow> Panic ''nil pointer dereference''
            | Some u \<Rightarrow>
                (let ruri = (if usingProxy \<and> Scheme u \<noteq> [] \<and> Opaque u = [] then Scheme u @ ''://'' @ host @ RequestURI u
                             else if rq_Method r = ''CONNECT'' \<and> Path u = [] then
                               (if Opaque u \<noteq> [] then Opaque u else host)
                             else RequestURI u)
                 in if stringContainsCTLByte ruri then Ret (Inl CtlInURI) else Ret (Inr (host, ruri)))))"

definition user_agent :: "multimap \<Rightarrow> string" where
  "user_agent h = (if header_has ''User-Agent'' h then Header_Get ''User-Agent'' h else defaultUserAgent)"

text \<open>The lines before the framing.\<close>

definition write_start :: "'w wire \<Rightarrow> 'b request \<Rightarrow> string \<Rightarrow> string \<Rightarrow> 'w \<Rightarrow> 'w \<times> send_error option" where
  "write_start wr r host ruri w =
     and_send (send_all wr [valueOrDefault (rq_Method r) ''GET'' @ '' '' @ ruri @ '' HTTP/1.1'' @ crlf] w)
       (\<lambda>w. and_send (send_all wr [''Host: '' @ host @ crlf] w)
         (\<lambda>w. if user_agent (rq_Header r) \<noteq> []
              then send_all wr [''User-Agent: '' @ TrimString (headerNewlineToSpace (user_agent (rq_Header r))) @ crlf] w
              else (w, None)))"

definition write_headers :: "'w wire \<Rightarrow> transferWriter \<Rightarrow> multimap \<Rightarrow> multimap option \<Rightarrow> 'w \<Rightarrow> 'w \<times> send_error option" where
  "write_headers wr tw h extra w =
     and_send (tw_writeHeader wr tw w)
       (\<lambda>w. and_send (case writeSubset wr reqWriteExcludeHeader h w of (w', e) \<Rightarrow> (w', map_option SendIo e))
         (\<lambda>w. and_send
            (case extra of
               None \<Rightarrow> (w, None)
             | Some eh \<Rightarrow> (case Header_Write wr eh w of (w', e) \<Rightarrow> (w', map_option SendIo e)))
            (send_all wr [crlf])))"

definition do_flush :: "('w \<Rightarrow> 'w \<times> io_error option) option \<Rightarrow> 'w \<Rightarrow> 'w \<times> send_error option" where
  "do_flush flush w =
     (case flush of None \<Rightarrow> (w, None) | Some fl \<Rightarrow> (case fl w of (w', e) \<Rightarrow> (w', map_option SendIo e)))"

text \<open>
  The writing of a request once its target is known.  \<open>flush\<close> is present when the writer is a bufio.Writer, \<open>own\<close>
  when this bufio.Writer was made here, and \<open>cont\<close> is waitForContinue with its answer.  The result has the number
  of times that the body was closed.
\<close>

definition send_request ::
  "'w wire \<Rightarrow> ('w \<Rightarrow> 'w \<times> io_error option) option \<Rightarrow> bool \<Rightarrow> multimap option \<Rightarrow> bool option \<Rightarrow> bool \<Rightarrow>
   wbody request \<Rightarrow> string \<Rightarrow> string \<Rightarrow> 'w \<Rightarrow> 'w \<times> request_error option \<times> nat" where
  "send_request wr flush own extra cont late r host ruri w =
     (let closes = (if rq_Body r = NilBody then 0 else 1) in
      case write_start wr r host ruri w of
        (w1, Some e) \<Rightarrow> (w1, Some (SendError e), closes)
      | (w1, None) \<Rightarrow>
          (case newTransferWriter late (OutRequest r) of
             Inl e \<Rightarrow> (w1, Some (SendError e), closes)
           | Inr tw \<Rightarrow>
               (case write_headers wr tw (rq_Header r) extra w1 of
                  (w2, Some e) \<Rightarrow> (w2, Some (SendError e), closes)
                | (w2, None) \<Rightarrow>
                    (case (if cont \<noteq> None then do_flush flush w2 else (w2, None)) of
                       (w3, Some e) \<Rightarrow> (w3, Some (SendError e), closes)
                     | (w3, None) \<Rightarrow>
                         if cont = Some False then (w3, None, closes)
                         else (case (if tw_FlushHeaders tw then do_flush flush w3 else (w3, None)) of
                                 (w4, Some e) \<Rightarrow> (w4, Some (SendError e), closes)
                               | (w4, None) \<Rightarrow>
                                   (case tw_writeBody wr flush tw w4 of
                                      (w5, Some e, tw') \<Rightarrow>
                                        (w5, Some (case e of
                                             SendIo err \<Rightarrow> if tw_bodyReadError tw' = Some err then RequestBodyReadError err
                                                           else SendError e
                                           | _ \<Rightarrow> SendError e), tw_closes tw')
                                    | (w5, None, tw') \<Rightarrow>
                                        (case (if own then do_flush flush w5 else (w5, None)) of
                                           (w6, e) \<Rightarrow> (w6, map_option SendError e, tw_closes tw'))))))))"

definition request_write ::
  "(string \<Rightarrow> string + string) \<Rightarrow> (string \<Rightarrow> bool) \<Rightarrow> 'w wire \<Rightarrow> ('w \<Rightarrow> 'w \<times> io_error option) option \<Rightarrow> bool \<Rightarrow>
   bool \<Rightarrow> multimap option \<Rightarrow> bool option \<Rightarrow> bool \<Rightarrow> wbody request \<Rightarrow> 'w \<Rightarrow> ('w \<times> request_error option \<times> nat) go" where
  "request_write PH VH wr flush own usingProxy extra cont late r w =
     go_bind (request_target PH VH usingProxy r)
       (\<lambda>t. case t of
          Inl e \<Rightarrow> Ret (w, Some e, if rq_Body r = NilBody then 0 else 1)
        | Inr (host, ruri) \<Rightarrow> Ret (send_request wr flush own extra cont late r host ruri w))"

definition Request_Write ::
  "(string \<Rightarrow> string + string) \<Rightarrow> (string \<Rightarrow> bool) \<Rightarrow> 'w wire \<Rightarrow> ('w \<Rightarrow> 'w \<times> io_error option) option \<Rightarrow> bool \<Rightarrow>
   bool \<Rightarrow> wbody request \<Rightarrow> 'w \<Rightarrow> ('w \<times> request_error option \<times> nat) go" where
  "Request_Write PH VH wr flush own late r w = request_write PH VH wr flush own False None None late r w"

section \<open>Reading\<close>

definition fixPragmaCacheControl :: "multimap \<Rightarrow> multimap" where
  "fixPragmaCacheControl header =
     (case map_of header ''Pragma'' of
        None \<Rightarrow> header
      | Some hp \<Rightarrow>
          if 0 < length hp \<and> hp ! 0 = ''no-cache'' \<and> map_of header ''Cache-Control'' = None
          then AList.update ''Cache-Control'' [''no-cache''] header else header)"

text \<open>After the first line an EOF is unexpected.\<close>

definition no_plain_eof :: "tp_error \<Rightarrow> tp_error" where
  "no_plain_eof e = (if e = TpIo EOF then TpIo UnexpectedEOF else e)"

text \<open>The first line: method, target and version, checked, and the URL.\<close>

definition request_start :: "(nat \<Rightarrow> bool) \<Rightarrow> string \<Rightarrow> request_error + body request" where
  "request_start T s =
     (case parseRequestLine s of
        None \<Rightarrow> Inl (MalformedRequest ''malformed HTTP request'' s)
      | Some (m, uri, proto) \<Rightarrow>
          if \<not> validMethod T m then Inl (MalformedRequest ''invalid method'' m)
          else (case ParseHTTPVersion proto of
                  None \<Rightarrow> Inl (MalformedRequest ''malformed HTTP version'' proto)
                | Some (major, minor) \<Rightarrow>
                    (let justAuthority = (m = ''CONNECT'' \<and> \<not> has_prefix uri ''/'') in
                     case ParseRequestURI (if justAuthority then ''http://'' @ uri else uri) of
                       Inl e \<Rightarrow> Inl (BadURL e)
                     | Inr u \<Rightarrow>
                         Inr (new_request\<lparr>rq_Method := m, rq_RequestURI := uri, rq_Proto := proto, rq_ProtoMajor := major,
                                rq_ProtoMinor := minor,
                                rq_URL := Some (if justAuthority then u\<lparr>Scheme := []\<rparr> else u)\<rparr>))))"

definition message_of_request :: "body request \<Rightarrow> message" where
  "message_of_request req =
     \<lparr>ms_isResponse = False, ms_Method = Some (rq_Method req), ms_StatusCode = 0, ms_ProtoMajor = rq_ProtoMajor req,
      ms_ProtoMinor = rq_ProtoMinor req, ms_Header = rq_Header req, ms_Body = rq_Body req,
      ms_ContentLength = rq_ContentLength req, ms_TransferEncoding = rq_TransferEncoding req,
      ms_Close = rq_Close req, ms_Trailer = rq_Trailer req\<rparr>"

definition with_message :: "message \<Rightarrow> body request \<Rightarrow> body request" where
  "with_message m req =
     req\<lparr>rq_Header := ms_Header m, rq_Body := ms_Body m, rq_ContentLength := ms_ContentLength m,
         rq_TransferEncoding := ms_TransferEncoding m, rq_Close := ms_Close m, rq_Trailer := ms_Trailer m\<rparr>"

text \<open>What the header decides.\<close>

definition request_header ::
  "bool \<Rightarrow> (string list \<Rightarrow> string \<Rightarrow> bool) \<Rightarrow> body request \<Rightarrow> multimap \<Rightarrow> bufio \<Rightarrow> request_error + body request" where
  "request_header lax C req h r =
     (if 1 < length (values_at h ''Host'') then Inl TooManyHosts
      else let host = Host (the (rq_URL req));
               h' = fixPragmaCacheControl h;
               (cl, _) = shouldClose C (rq_ProtoMajor req) (rq_ProtoMinor req) h' False;
               req1 = req\<lparr>rq_Header := h', rq_Host := (if host = [] then header_get ''Host'' h else host), rq_Close := cl\<rparr>
           in case readTransfer lax C (message_of_request req1) r of
                (Some e, _) \<Rightarrow> Inl (FramingError e)
              | (None, m) \<Rightarrow> Inr (with_message m req1))"

text \<open>The reader that is returned is the one that the body reads from.\<close>

definition readRequest ::
  "(nat \<Rightarrow> bool) \<Rightarrow> bool \<Rightarrow> (string list \<Rightarrow> string \<Rightarrow> bool) \<Rightarrow> bufio \<Rightarrow> (request_error + body request) \<times> bufio" where
  "readRequest T lax C b =
     (case ReadLine (NewReader b) of
        (Inl e, tp) \<Rightarrow> (Inl (TpError (TpIo e)), rd_R tp)
      | (Inr s, tp) \<Rightarrow>
          (case request_start T s of
             Inl e \<Rightarrow> (Inl e, rd_R tp)
           | Inr req \<Rightarrow>
               (case ReadMIMEHeader tp of
                  ((_, Some e), tp') \<Rightarrow> (Inl (TpError (no_plain_eof e)), rd_R tp')
                | ((hdr, None), tp') \<Rightarrow>
                    (request_header lax C req (case hdr of None \<Rightarrow> [] | Some h \<Rightarrow> h) (rd_R tp'), rd_R tp'))))"

definition ReadRequest ::
  "(nat \<Rightarrow> bool) \<Rightarrow> bool \<Rightarrow> (string list \<Rightarrow> string \<Rightarrow> bool) \<Rightarrow> bufio \<Rightarrow> (request_error + body request) \<times> bufio" where
  "ReadRequest T lax C b =
     (case readRequest T lax C b of
        (Inl e, r) \<Rightarrow> (Inl e, r)
      | (Inr req, r) \<Rightarrow> (Inr (req\<lparr>rq_Header := AList.delete ''Host'' (rq_Header req)\<rparr>), r))"

end
