(* ===== verification/Http_Response.thy ===== *)
theory Http_Response
  imports Http_Request
begin

text \<open>
  Responses (src/http/response.go) and the texts of status codes (src/http/status.go).  The parameter \<open>C\<close>
  stands for HeaderValuesContainsToken of golang.org/x/net/http/httpguts; \<open>lax\<close> is the debug setting
  httplaxcontentlength.  Of the request that a response answers its method and its URL are kept.
\<close>

section \<open>Status texts\<close>

definition status_texts :: "(int \<times> string) list" where
  "status_texts =
    [(100, ''Continue''), (101, ''Switching Protocols''),
     (102, ''Processing''), (103, ''Early Hints''),
     (200, ''OK''), (201, ''Created''),
     (202, ''Accepted''), (203, ''Non-Authoritative Information''),
     (204, ''No Content''), (205, ''Reset Content''),
     (206, ''Partial Content''), (207, ''Multi-Status''),
     (208, ''Already Reported''), (226, ''IM Used''),
     (300, ''Multiple Choices''), (301, ''Moved Permanently''),
     (302, ''Found''), (303, ''See Other''),
     (304, ''Not Modified''), (305, ''Use Proxy''),
     (307, ''Temporary Redirect''), (308, ''Permanent Redirect''),
     (400, ''Bad Request''), (401, ''Unauthorized''),
     (402, ''Payment Required''), (403, ''Forbidden''),
     (404, ''Not Found''), (405, ''Method Not Allowed''),
     (406, ''Not Acceptable''), (407, ''Proxy Authentication Required''),
     (408, ''Request Timeout''), (409, ''Conflict''),
     (410, ''Gone''), (411, ''Length Required''),
     (412, ''Precondition Failed''), (413, ''Request Entity Too Large''),
     (414, ''Request URI Too Long''), (415, ''Unsupported Media Type''),
     (416, ''Requested Range Not Satisfiable''), (417, ''Expectation Failed''),
     (418, ''I'' @ [CHR 0x27] @ ''m a teapot''), (421, ''Misdirected Request''),
     (422, ''Unprocessable Entity''), (423, ''Locked''),
     (424, ''Failed Dependency''), (425, ''Too Early''),
     (426, ''Upgrade Required''), (428, ''Precondition Required''),
     (429, ''Too Many Requests''), (431, ''Request Header Fields Too Large''),
     (451, ''Unavailable For Legal Reasons''), (500, ''Internal Server Error''),
     (501, ''Not Implemented''), (502, ''Bad Gateway''),
     (503, ''Service Unavailable''), (504, ''Gateway Timeout''),
     (505, ''HTTP Version Not Supported''), (506, ''Variant Also Negotiates''),
     (507, ''Insufficient Storage''), (508, ''Loop Detected''),
     (510, ''Not Extended''), (511, ''Network Authentication Required'')]"

definition StatusText :: "int \<Rightarrow> string" where
  "StatusText code = (case map_of status_texts code of None \<Rightarrow> [] | Some t \<Rightarrow> t)"

section \<open>Protocol switches\<close>

definition isProtocolSwitchHeader :: "(string list \<Rightarrow> string \<Rightarrow> bool) \<Rightarrow> multimap \<Rightarrow> bool" where
  "isProtocolSwitchHeader C h = (Header_Get ''Upgrade'' h \<noteq> [] \<and> C (values_at h ''Connection'') ''Upgrade'')"

definition isProtocolSwitchResponse :: "(string list \<Rightarrow> string \<Rightarrow> bool) \<Rightarrow> int \<Rightarrow> multimap \<Rightarrow> bool" where
  "isProtocolSwitchResponse C code h = (code = 101 \<and> isProtocolSwitchHeader C h)"

definition isProtocolSwitch :: "(string list \<Rightarrow> string \<Rightarrow> bool) \<Rightarrow> 'b response \<Rightarrow> bool" where
  "isProtocolSwitch C r = isProtocolSwitchResponse C (rp_StatusCode r) (rp_Header r)"

section \<open>Reading\<close>

datatype response_error =
  ResponseTp tp_error
| MalformedResponse string string
| ResponseFraming transfer_error

text \<open>The status line.\<close>

definition response_start :: "string \<Rightarrow> response_error + body response" where
  "response_start line =
     (case cut_byte (CHR '' '') line of
        (proto, status0, ok) \<Rightarrow>
          if \<not> ok then Inl (MalformedResponse ''malformed HTTP response'' line)
          else let status = trim_left_by (\<lambda>c. c = CHR '' '') status0;
                   statusCode = fst (cut_byte (CHR '' '') status)
          in if length statusCode \<noteq> 3 then Inl (MalformedResponse ''malformed HTTP status code'' statusCode)
             else case Atoi statusCode of
               Inl _ \<Rightarrow> Inl (MalformedResponse ''malformed HTTP status code'' statusCode)
             | Inr code \<Rightarrow>
                 if code < 0 then Inl (MalformedResponse ''malformed HTTP status code'' statusCode)
                 else case ParseHTTPVersion proto of
                   None \<Rightarrow> Inl (MalformedResponse ''malformed HTTP version'' proto)
                 | Some (major, minor) \<Rightarrow>
                     Inr (new_response\<lparr>rp_Proto := proto, rp_Status := status, rp_StatusCode := code,
                            rp_ProtoMajor := major, rp_ProtoMinor := minor\<rparr>))"

definition message_of_response :: "body response \<Rightarrow> message" where
  "message_of_response resp =
     \<lparr>ms_isResponse = True, ms_Method = rp_RequestMethod resp, ms_StatusCode = rp_StatusCode resp,
      ms_ProtoMajor = rp_ProtoMajor resp, ms_ProtoMinor = rp_ProtoMinor resp, ms_Header = rp_Header resp,
      ms_Body = rp_Body resp, ms_ContentLength = rp_ContentLength resp,
      ms_TransferEncoding = rp_TransferEncoding resp, ms_Close = rp_Close resp, ms_Trailer = rp_Trailer resp\<rparr>"

definition response_with :: "message \<Rightarrow> body response \<Rightarrow> body response" where
  "response_with m resp =
     resp\<lparr>rp_Header := ms_Header m, rp_Body := ms_Body m, rp_ContentLength := ms_ContentLength m,
          rp_TransferEncoding := ms_TransferEncoding m, rp_Close := ms_Close m, rp_Trailer := ms_Trailer m\<rparr>"

definition response_header ::
  "bool \<Rightarrow> (string list \<Rightarrow> string \<Rightarrow> bool) \<Rightarrow> body response \<Rightarrow> multimap \<Rightarrow> bufio \<Rightarrow> response_error + body response" where
  "response_header lax C resp h r =
     (let resp1 = resp\<lparr>rp_Header := fixPragmaCacheControl h\<rparr>
      in case readTransfer lax C (message_of_response resp1) r of
           (Some e, _) \<Rightarrow> Inl (ResponseFraming e)
         | (None, m) \<Rightarrow> Inr (response_with m resp1))"

text \<open>The method and the URL of the request are arguments; the reader that is returned is the one that the body
  reads from.\<close>

definition Http_ReadResponse ::
  "bool \<Rightarrow> (string list \<Rightarrow> string \<Rightarrow> bool) \<Rightarrow> bufio \<Rightarrow> string option \<Rightarrow> URL option \<Rightarrow>
   (response_error + body response) \<times> bufio" where
  "Http_ReadResponse lax C b m u =
     (case ReadLine (NewReader b) of
        (Inl e, tp) \<Rightarrow> (Inl (ResponseTp (no_plain_eof (TpIo e))), rd_R tp)
      | (Inr line, tp) \<Rightarrow>
          (case response_start line of
             Inl e \<Rightarrow> (Inl e, rd_R tp)
           | Inr resp \<Rightarrow>
               (case ReadMIMEHeader tp of
                  ((_, Some e), tp') \<Rightarrow> (Inl (ResponseTp (no_plain_eof e)), rd_R tp')
                | ((hdr, None), tp') \<Rightarrow>
                    (response_header lax C (resp\<lparr>rp_RequestMethod := m, rp_RequestURL := u\<rparr>)
                       (case hdr of None \<Rightarrow> [] | Some h \<Rightarrow> h) (rd_R tp'), rd_R tp'))))"

section \<open>Writing\<close>

definition respExcludeHeader :: "(string, bool) gomap" where
  "respExcludeHeader = [(''Content-Length'', True), (''Transfer-Encoding'', True), (''Trailer'', True)]"

definition zero_pad :: "nat \<Rightarrow> string \<Rightarrow> string" where
  "zero_pad k s = replicate (k - length s) (CHR ''0'') @ s"

text \<open>The verb \<open>%03d\<close> of package fmt: the sign counts for the width.\<close>

definition fmt_03d :: "int \<Rightarrow> string" where
  "fmt_03d i = (if i < 0 then CHR ''-'' # zero_pad 2 (utoa (nat (- i))) else zero_pad 3 (utoa (nat i)))"

definition status_text :: "wbody response \<Rightarrow> string" where
  "status_text r =
     (if rp_Status r = [] then
        (let text = StatusText (rp_StatusCode r)
         in if text = [] then ''status code '' @ Itoa (rp_StatusCode r) else text)
      else let p = Itoa (rp_StatusCode r) @ '' ''
           in if has_prefix (rp_Status r) p then drop (length p) (rp_Status r) else rp_Status r)"

definition status_line :: "wbody response \<Rightarrow> string" where
  "status_line r =
     ''HTTP/'' @ Itoa (rp_ProtoMajor r) @ ''.'' @ Itoa (rp_ProtoMinor r) @ '' '' @ fmt_03d (rp_StatusCode r) @ '' '' @ status_text r"

text \<open>
  The copy of the response that is written.  When its length is zero, one byte of the body is read; a body that
  delivers none is replaced by NoBody, and is then not closed.
\<close>

definition probe_response :: "wbody response \<Rightarrow> io_error + wbody response" where
  "probe_response r =
     (case reader_of (rp_Body r) of
        None \<Rightarrow> Inr r
      | Some b \<Rightarrow>
          if rp_ContentLength r \<noteq> 0 then Inr r
          else case wb_Read 1 b of
            (d, e, b') \<Rightarrow>
              if e \<noteq> None \<and> e \<noteq> Some EOF then Inl (the e)
              else if d = [] then Inr (r\<lparr>rp_Body := NoBody\<rparr>)
              else Inr (r\<lparr>rp_ContentLength := - 1, rp_Body := TheBody (put_back False d e b')\<rparr>))"

definition must_close :: "wbody response \<Rightarrow> bool" where
  "must_close r =
     (rp_ContentLength r = - 1 \<and> \<not> rp_Close r \<and> response_ProtoAtLeast r 1 1 \<and>
      \<not> te_chunked (rp_TransferEncoding r) \<and> \<not> rp_Uncompressed r)"

definition prepare_response :: "wbody response \<Rightarrow> io_error + wbody response" where
  "prepare_response r = and_then (probe_response r) (\<lambda>r1. Inr (if must_close r1 then r1\<lparr>rp_Close := True\<rparr> else r1))"

text \<open>The header and the body; \<open>r1\<close> is the copy.  The result has the number of times that the body of the copy
  was closed.\<close>

definition response_headers :: "'w wire \<Rightarrow> wbody response \<Rightarrow> wbody response \<Rightarrow> transferWriter \<Rightarrow> 'w \<Rightarrow> 'w \<times> send_error option" where
  "response_headers wr r r1 tw w =
     and_send (tw_writeHeader wr tw w)
       (\<lambda>w. and_send (case writeSubset wr respExcludeHeader (rp_Header r) w of (w', e) \<Rightarrow> (w', map_option SendIo e))
         (\<lambda>w. and_send
            (if rp_ContentLength r1 = 0 \<and> \<not> te_chunked (rp_TransferEncoding r1) \<and> \<not> shouldSendContentLength tw \<and>
                bodyAllowedForStatus (rp_StatusCode r)
             then send_all wr [''Content-Length: 0'' @ crlf] w else (w, None))
            (send_all wr [crlf])))"

definition send_response ::
  "'w wire \<Rightarrow> ('w \<Rightarrow> 'w \<times> io_error option) option \<Rightarrow> wbody response \<Rightarrow> wbody response \<Rightarrow> 'w \<Rightarrow> 'w \<times> send_error option \<times> nat" where
  "send_response wr flush r r1 w =
     (case newTransferWriter False (OutResponse r1) of
        Inl e \<Rightarrow> (w, Some e, 0)
      | Inr tw \<Rightarrow>
          (case response_headers wr r r1 tw w of
             (w1, Some e) \<Rightarrow> (w1, Some e, 0)
           | (w1, None) \<Rightarrow> (case tw_writeBody wr flush tw w1 of (w2, e, tw') \<Rightarrow> (w2, e, tw_closes tw'))))"

text \<open>The number in the result counts the calls of Close of the body of the response itself.\<close>

definition Response_Write ::
  "'w wire \<Rightarrow> ('w \<Rightarrow> 'w \<times> io_error option) option \<Rightarrow> wbody response \<Rightarrow> 'w \<Rightarrow> 'w \<times> send_error option \<times> nat" where
  "Response_Write wr flush r w =
     (case send_all wr [status_line r @ crlf] w of
        (w1, Some e) \<Rightarrow> (w1, Some e, 0)
      | (w1, None) \<Rightarrow>
          (case prepare_response r of
             Inl e \<Rightarrow> (w1, Some (SendIo e), 0)
           | Inr r1 \<Rightarrow>
               (case send_response wr flush r r1 w1 of
                  (w2, e, n) \<Rightarrow> (w2, e, if rp_Body r1 = NoBody \<and> rp_Body r \<noteq> NoBody then 0 else n))))"

section \<open>Sniffing\<close>

definition DetectContentType :: "string \<Rightarrow> string" where
  "DetectContentType data = ''text/plain; charset=utf-8''"

end
