(* ===== verification/Body_Correct.thy ===== *)
theory Body_Correct
  imports Http_Body
begin

text \<open>
  Correctness of the body reader: closing drains the body in finitely many reads, a body with a
  Content-Length delivers exactly its bytes, a chunked body delivers its data and merges its trailer, and
  the states that reads and closes reach satisfy an invariant.
\<close>

section \<open>The steps of the chunked reader\<close>

inductive chunk_step :: "chunkedReader \<Rightarrow> chunkedReader \<Rightarrow> bool" where
  end_ok: "cr_err cr = None \<Longrightarrow> ReadFull 2 (cr_r cr) = (x, None, r) \<Longrightarrow>
    chunk_step cr (cr\<lparr>cr_r := r, checkEnd := False\<rparr>)"
| end_bad: "cr_err cr = None \<Longrightarrow> ReadFull 2 (cr_r cr) = (x, e, r) \<Longrightarrow>
    chunk_step cr (cr\<lparr>cr_r := r, cr_err := Some err\<rparr>)"
| header: "cr_err cr = None \<Longrightarrow> chunk_step cr (beginChunk cr)"
| data: "cr_err cr = None \<Longrightarrow> cr_n cr \<noteq> 0 \<Longrightarrow> 0 < k \<Longrightarrow> read_data cr k = (d, cr') \<Longrightarrow> chunk_step cr cr'"

lemma chunked_Read_steps:
  "chunked_Read cr k got = (d, cr') \<Longrightarrow>
     chunk_step\<^sup>*\<^sup>* cr cr' \<and> (got = [] \<and> 0 < k \<and> cr_err cr' = None \<longrightarrow> chunk_step\<^sup>+\<^sup>+ cr cr')"
proof (induction cr k got rule: chunked_Read.induct)
  case (1 cr k got)
  have step: ?case if "chunk_step cr cr1" "chunk_step\<^sup>*\<^sup>* cr1 cr'" for cr1
    using that by (meson converse_rtranclp_into_rtranclp rtranclp_into_tranclp2)
  show ?case
  proof (cases "cr_err cr = None")
    case False
    then show ?thesis using 1(4) by (auto simp: chunked_Read.simps[of cr k got])
  next
    case none: True
    show ?thesis
    proof (cases "got \<noteq> [] \<and> (checkEnd cr \<and> Buffered (cr_r cr) < 2 \<or>
        \<not> checkEnd cr \<and> cr_n cr = 0 \<and> \<not> chunkHeaderAvailable cr) \<or> \<not> checkEnd cr \<and> cr_n cr \<noteq> 0 \<and> k = 0")
      case True
      then have "cr' = cr" using 1(4) none by (subst (asm) chunked_Read.simps) (auto split: if_splits)
      then show ?thesis using True by auto
    next
      case busy: False
      show ?thesis
      proof (cases "checkEnd cr")
        case True
        obtain x e r where rf: "ReadFull 2 (cr_r cr) = (x, e, r)" by (metis surj_pair)
        show ?thesis
        proof (cases "e = None \<and> x = crlf")
          case go_on: True
          have nb: "\<not> (got \<noteq> [] \<and> Buffered (cr_r cr) < 2)" using busy True by blast
          have "chunked_Read (cr\<lparr>cr_r := r, checkEnd := False\<rparr>) k got = (d, cr')"
            using 1(4) none True rf go_on nb by (subst (asm) chunked_Read.simps) (simp split: if_splits)
          then have "chunk_step\<^sup>*\<^sup>* (cr\<lparr>cr_r := r, checkEnd := False\<rparr>) cr'"
            using 1(1)[of x "(e, r)" e r] none True rf go_on nb by simp
          then show ?thesis using step end_ok[OF none] rf go_on by blast
        next
          case False
          then have "\<exists>err. cr' = cr\<lparr>cr_r := r, cr_err := Some err\<rparr>"
            using 1(4) none True rf busy by (subst (asm) chunked_Read.simps) (auto split: if_splits option.splits)
          then show ?thesis using step end_bad[OF none rf] by blast
        qed
      next
        case no_end: False
        show ?thesis
        proof (cases "cr_n cr = 0")
          case True
          have hd: "\<not> (got \<noteq> [] \<and> \<not> chunkHeaderAvailable cr)" using busy no_end True by blast
          have "chunked_Read (beginChunk cr) k got = (d, cr')"
            using 1(4) none no_end True hd by (subst (asm) chunked_Read.simps) (simp split: if_splits)
          then have "chunk_step\<^sup>*\<^sup>* (beginChunk cr) cr'" using 1(2) none no_end True hd by simp
          then show ?thesis using step header[OF none] by blast
        next
          case False
          then have k: "k \<noteq> 0" using busy no_end by simp
          obtain x cr1 where rd: "read_data cr k = (x, cr1)" by (cases "read_data cr k")
          have "chunked_Read cr1 (k - length x) (got @ x) = (d, cr')"
            using 1(4) none no_end False k rd by (subst (asm) chunked_Read.simps) simp
          then have "chunk_step\<^sup>*\<^sup>* cr1 cr'" using 1(3)[OF _ no_end False k rd[symmetric]] none by simp
          then show ?thesis using step data[OF none False _ rd] k by blast
        qed
      qed
    qed
  qed
qed

lemma chunk_step_size:
  "chunk_step cr cr' \<Longrightarrow> rsize (cr_r cr') \<le> rsize (cr_r cr) \<and>
     (cr_err cr' = None \<longrightarrow> rsize (cr_r cr') < rsize (cr_r cr))"
proof (induction rule: chunk_step.induct)
  case (end_ok cr x r)
  then show ?case using rsize_ReadFull_loop[of 2 "[]" "cr_r cr" x None r] by (simp add: ReadFull_def)
next
  case (end_bad cr x e r err)
  then show ?case using rsize_ReadFull_loop[of 2 "[]" "cr_r cr" x e r] by (simp add: ReadFull_def)
next
  case (header cr)
  then show ?case using rsize_beginChunk by blast
next
  case (data cr k d cr')
  then show ?case using rsize_read_data by blast
qed

lemma chunk_steps_size: "chunk_step\<^sup>*\<^sup>* cr cr' \<Longrightarrow> rsize (cr_r cr') \<le> rsize (cr_r cr)"
  by (induction rule: rtranclp_induct) (auto dest: chunk_step_size)

lemma chunked_Read_size:
  assumes "chunked_Read cr k [] = (d, cr')" and "0 < k"
  shows "rsize (cr_r cr') \<le> rsize (cr_r cr) \<and> (cr_err cr' = None \<longrightarrow> rsize (cr_r cr') < rsize (cr_r cr))"
proof -
  have "chunk_step\<^sup>*\<^sup>* cr cr'" "cr_err cr' = None \<Longrightarrow> chunk_step\<^sup>+\<^sup>+ cr cr'"
    using chunked_Read_steps[OF assms(1)] assms(2) by auto
  moreover have "rsize (cr_r cr') < rsize (cr_r cr)" if "chunk_step\<^sup>+\<^sup>+ cr cr'" "cr_err cr' = None"
  proof -
    from that(1) obtain c where "chunk_step\<^sup>*\<^sup>* cr c" "chunk_step c cr'"
      by (cases rule: tranclp.cases) (auto dest: tranclp_into_rtranclp)
    then show ?thesis using chunk_steps_size chunk_step_size that(2) by fastforce
  qed
  ultimately show ?thesis using chunk_steps_size by blast
qed

lemma ReadFull_loop_ok: "ReadFull_loop k got r = (d, e, r') \<Longrightarrow> bufio_ok r \<Longrightarrow> bufio_ok r'"
proof (induction k got r rule: ReadFull_loop.induct)
  case (1 k got r)
  obtain d0 e0 r0 where rd: "bufio_Read (k - length got) r = (d0, e0, r0)" by (cases "bufio_Read (k - length got) r")
  have ok: "bufio_ok r0" using bufio_Read_spec(2)[OF rd 1(3)] .
  show ?case
  proof (cases "k \<le> length got \<or> e0 \<noteq> None \<or> d0 = []")
    case True
    then show ?thesis using 1(2,3) rd ok by (auto simp: ReadFull_loop.simps[of k got r] split: if_splits option.splits)
  next
    case False
    then have "ReadFull_loop k (got @ d0) r0 = (d, e, r')"
      using 1(2) rd by (simp add: ReadFull_loop.simps[of k got r])
    then show ?thesis using 1(1)[OF _ rd[symmetric] refl] False ok by auto
  qed
qed

lemma chunk_step_ok: "chunk_step cr cr' \<Longrightarrow> bufio_ok (cr_r cr) \<Longrightarrow> bufio_ok (cr_r cr')"
proof (induction rule: chunk_step.induct)
  case (end_ok cr x r)
  then show ?case using ReadFull_loop_ok[of 2 "[]" "cr_r cr"] by (simp add: ReadFull_def)
next
  case (end_bad cr x e r err)
  then show ?case using ReadFull_loop_ok[of 2 "[]" "cr_r cr"] by (simp add: ReadFull_def)
next
  case (header cr)
  obtain p e r' where rs: "ReadSlice (CHR 0x0A) (cr_r cr) = (p, e, r')" by (metis surj_pair)
  have "bufio_ok r'" using ReadSlice_ok[OF rs header(2)] .
  then show ?case
    by (auto simp: beginChunk_def readChunkLine_def rs removeChunkExtension_def Let_def split: sum.split option.split)
next
  case (data cr k d cr')
  let ?k = "if unat (cr_n cr) < k then unat (cr_n cr) else k"
  obtain x e r' where rd: "bufio_Read ?k (cr_r cr) = (x, e, r')" by (metis surj_pair)
  have "bufio_ok r'" using bufio_Read_spec(2)[OF rd data(5)] .
  then show ?case using data(4) by (auto simp: read_data_def rd Let_def)
qed

lemma chunked_Read_ok: "chunked_Read cr k got = (d, cr') \<Longrightarrow> bufio_ok (cr_r cr) \<Longrightarrow> bufio_ok (cr_r cr')"
proof -
  have "chunk_step\<^sup>*\<^sup>* a b \<Longrightarrow> bufio_ok (cr_r a) \<Longrightarrow> bufio_ok (cr_r b)" for a b
    by (induction rule: rtranclp_induct) (auto dest: chunk_step_ok)
  then show "chunked_Read cr k got = (d, cr') \<Longrightarrow> bufio_ok (cr_r cr) \<Longrightarrow> bufio_ok (cr_r cr')"
    using chunked_Read_steps by blast
qed

section \<open>Closing ends\<close>

lemma src_Read_size:
  assumes "src_Read k s = (d, e, s')" and "0 < k"
  shows "rsize (src_reader s') \<le> rsize (src_reader s) \<and>
    (e = None \<longrightarrow> rsize (src_reader s') < rsize (src_reader s))"
proof (cases s)
  case (ChunkedSrc cr)
  then show ?thesis using assms chunked_Read_size[of cr k] by (auto split: prod.splits)
next
  case (LimitedSrc r n)
  let ?k = "if n < int k then nat n else k"
  obtain x y z where rd: "bufio_Read ?k r = (x, y, z)" by (metis surj_pair)
  show ?thesis
  proof (cases "n \<le> 0")
    case True
    then show ?thesis using assms(1) LimitedSrc by auto
  next
    case False
    then have "0 < ?k" using assms(2) by simp
    then show ?thesis using rsize_Read[OF rd] assms(1) LimitedSrc False rd by auto
  qed
next
  case (RawSrc r)
  then show ?thesis using assms rsize_Read[of k r] by (auto split: prod.splits)
qed

lemma length_bufio_Read: "bufio_Read k r = (d, e, r') \<Longrightarrow> length d \<le> k"
  by (auto simp: bufio_Read_def Let_def split: if_splits list.splits)

lemma length_chunked_Read: "chunked_Read cr k got = (d, cr') \<Longrightarrow> length d \<le> length got + k"
proof (induction cr k got rule: chunked_Read.induct)
  case (1 cr k got)
  obtain x cr1 where rd: "read_data cr k = (x, cr1)" by (cases "read_data cr k")
  have x: "length x \<le> k"
    using rd length_bufio_Read[of "if unat (cr_n cr) < k then unat (cr_n cr) else k"]
    by (force simp: read_data_def Let_def split: prod.splits if_splits)
  show ?case
    using 1 x rd by (subst (asm) (4) chunked_Read.simps) (fastforce split: if_splits prod.splits option.splits)
qed

lemma src_Read_length: "src_Read k s = (d, e, s') \<Longrightarrow> length d \<le> k"
proof (cases s)
  case (LimitedSrc r n)
  then show "src_Read k s = (d, e, s') \<Longrightarrow> length d \<le> k"
    using length_bufio_Read[of "if n < int k then nat n else k" r] by (auto split: prod.splits if_splits)
qed (use length_chunked_Read length_bufio_Read in \<open>fastforce split: prod.splits\<close>)+

lemma body_Read_length: "body_Read k b = (d, e, b') \<Longrightarrow> length d \<le> k"
  by (auto simp: body_Read_def readLocked_def Let_def split: if_splits prod.splits dest: src_Read_length)

lemma body_Read_size:
  assumes "body_Read k b = (d, None, b')" and "0 < k"
  shows "rsize (src_reader (b_src b')) < rsize (src_reader (b_src b))"
proof -
  have open_: "\<not> b_closed b" "\<not> b_sawEOF b"
    using assms(1) by (auto simp: body_Read_def readLocked_def split: if_splits)
  obtain x e s where rd: "src_Read k (b_src b) = (x, e, s)" by (metis surj_pair)
  have "e = None"
    using assms(1) open_ rd by (auto simp: body_Read_def readLocked_def at_eof_def Let_def split: prod.splits option.splits if_splits)
  then show ?thesis
    using assms(1) open_ rd src_Read_size[OF rd assms(2)]
    by (auto simp: body_Read_def readLocked_def at_eof_def Let_def split: if_splits)
qed

lemma drain_step:
  assumes "left \<noteq> Some 0"
  shows "drain (Suc fuel) left b =
    (case body_Read (case left of None \<Rightarrow> 8192 | Some n \<Rightarrow> min 8192 n) b of
       (d, Some e, b') \<Rightarrow> (length d, Some e, b')
     | (d, None, b') \<Rightarrow>
         (case drain fuel (map_option (\<lambda>n. n - length d) left) b' of (m, e, b'') \<Rightarrow> (length d + m, e, b'')))"
  using assms by (auto split: option.split nat.split)

lemma drain_complete:
  assumes "drain fuel left b = (n, e, b')" and "rsize (src_reader (b_src b)) + 2 \<le> fuel"
  shows "e \<noteq> None \<or> left = Some n"
  using assms
proof (induction fuel arbitrary: left b n)
  case (Suc fuel)
  let ?k = "case left of None \<Rightarrow> 8192 | Some n \<Rightarrow> min 8192 n"
  show ?case
  proof (cases "left = Some 0")
    case True
    then show ?thesis using Suc.prems(1) by auto
  next
    case False
    obtain d e1 b1 where rd: "body_Read ?k b = (d, e1, b1)" by (metis surj_pair)
    have k: "0 < ?k" using False by (auto split: option.split)
    show ?thesis
    proof (cases e1)
      case (Some x)
      then show ?thesis using Suc.prems(1) rd unfolding drain_step[OF False] by auto
    next
      case None
      then have lt: "rsize (src_reader (b_src b1)) < rsize (src_reader (b_src b))"
        using body_Read_size rd k by blast
      let ?left = "map_option (\<lambda>n. n - length d) left"
      obtain m e2 b2 where dr: "drain fuel ?left b1 = (m, e2, b2)" by (metis surj_pair)
      have eq: "n = length d + m" "e = e2" "b' = b2"
        using Suc.prems(1) unfolding drain_step[OF False] by (simp_all add: rd None dr)
      have len: "length d \<le> ?k" by (rule body_Read_length[OF rd])
      have "rsize (src_reader (b_src b1)) + 2 \<le> fuel" using lt Suc.prems(2) by simp
      from Suc.IH[OF _ this] dr eq have "e \<noteq> None \<or> ?left = Some m" by blast
      then show ?thesis using eq(1) len by (cases left) auto
    qed
  qed
qed simp

lemma Peek_err: "Peek n b = (p, e, b') \<Longrightarrow> e = None \<longleftrightarrow> n \<le> length p"
proof (induction n b rule: Peek.induct)
  case (1 n b)
  show ?case
  proof (cases "length (bf_buf b) < n \<and> length (bf_buf b) < bufio_size \<and> bf_src b \<noteq> []")
    case True
    then have "Peek n (bufio_fill b) = (p, e, b')" using 1(2) by (simp add: Peek.simps[of n b])
    then show ?thesis using 1(1)[OF True] by simp
  next
    case False
    then show ?thesis using 1(2) by (auto simp: Peek.simps[of n b] split: if_splits)
  qed
qed

lemma readTrailer_not_EOF: "readTrailer r tr \<noteq> (Some (BodyIo EOF), r', tr')"
proof -
  obtain p e r1 where "Peek 2 r = (p, e, r1)" by (metis surj_pair)
  then show ?thesis
    using Peek_err[of 2 r p e r1] by (auto simp: readTrailer_def split: option.split prod.split bool.split)
qed

lemma body_Read_EOF: "body_Read k b = (d, Some (BodyIo EOF), b') \<Longrightarrow> b_sawEOF b'"
  using readTrailer_not_EOF
  by (auto simp: body_Read_def readLocked_def at_eof_def Let_def split: if_splits prod.splits option.splits)

lemma body_Close_ends:
  assumes "body_Close b = (err, b')"
  shows "b_closed b'" and "err \<noteq> Some (BodyIo EOF)"
    and "\<not> b_closed b \<Longrightarrow> err = None \<Longrightarrow> b_hdr b \<or> \<not> b_closing b \<Longrightarrow> \<not> b_doEarlyClose b \<Longrightarrow> b_sawEOF b'"
proof -
  show "b_closed b'" using assms by (auto simp: body_Close_def Let_def split: if_splits prod.splits)
  show "err \<noteq> Some (BodyIo EOF)"
    using assms by (auto simp: body_Close_def no_eof_def Let_def split: if_splits prod.splits option.splits)
  have eof_drain: "b_sawEOF b'" if "drain fuel left b = (n, Some (BodyIo EOF), b')" for fuel left b n b'
    using that
  proof (induction fuel arbitrary: left b n)
    case (Suc fuel)
    have ne: "left \<noteq> Some 0" using Suc.prems by auto
    let ?k = "case left of None \<Rightarrow> 8192 | Some n \<Rightarrow> min 8192 n"
    obtain d e1 b1 where rd: "body_Read ?k b = (d, e1, b1)" by (metis surj_pair)
    show ?case
    proof (cases e1)
      case None
      then show ?thesis
        using Suc.prems Suc.IH rd unfolding drain_step[OF ne] by (auto split: prod.splits)
    next
      case (Some x)
      then have "body_Read ?k b = (d, Some (BodyIo EOF), b')"
        using Suc.prems rd unfolding drain_step[OF ne] by auto
      then show ?thesis by (rule body_Read_EOF)
    qed
  qed simp
  assume "\<not> b_closed b" "err = None" "b_hdr b \<or> \<not> b_closing b" "\<not> b_doEarlyClose b"
  moreover obtain n e b1 where dr: "drain (drain_fuel b) None b = (n, e, b1)" by (metis surj_pair)
  moreover have "e \<noteq> None" using drain_complete[OF dr] by (simp add: drain_fuel_def)
  ultimately show "b_sawEOF b'"
    using assms eof_drain[of "drain_fuel b" None b n b1]
    by (auto simp: body_Close_def no_eof_def Let_def split: if_splits)
qed


section \<open>A body with a Content-Length\<close>

fun body_reads :: "body \<Rightarrow> nat list \<Rightarrow> string \<times> body_error option \<times> body" where
  "body_reads b [] = ([], None, b)"
| "body_reads b (k # ks) =
     (case body_Read k b of
        (d, Some e, b') \<Rightarrow> (d, Some e, b')
      | (d, None, b') \<Rightarrow> (case body_reads b' ks of (d', e, b'') \<Rightarrow> (d @ d', e, b'')))"

definition fresh :: "body \<Rightarrow> bool" where
  "fresh b = (\<not> b_closed b \<and> \<not> b_sawEOF b)"

lemma limited_reads:
  assumes "fresh b" and "\<not> b_hdr b" and "b_src b = LimitedSrc r (int n)" and "bufio_ok r"
    and "\<forall>k\<in>set ks. 0 < k" and "min n (length (stream r)) < length ks"
  shows "\<exists>b' r'. body_reads b ks =
      (take n (stream r), Some (BodyIo (if n \<le> length (stream r) then EOF else UnexpectedEOF)), b') \<and>
    b_src b' = LimitedSrc r' (int n - int (length (take n (stream r)))) \<and> stream r' = drop n (stream r) \<and> b_sawEOF b'"
  using assms
proof (induction ks arbitrary: b r n)
  case (Cons k ks)
  have op: "\<not> b_closed b" "\<not> b_sawEOF b" using Cons.prems(1) by (simp_all add: fresh_def)
  have k: "0 < k" using Cons.prems(5) by simp
  show ?case
  proof (cases "n = 0")
    case True
    then show ?thesis
      using op Cons.prems(2,3)
      by (simp add: body_Read_def readLocked_def at_eof_def Let_def)
  next
    case n: False
    let ?k = "if int n < int k then nat (int n) else k"
    obtain d e r1 where rd: "bufio_Read ?k r = (d, e, r1)" by (metis surj_pair)
    note spec = bufio_Read_spec[OF rd Cons.prems(4)]
    have k': "0 < ?k" using n k by simp
    show ?thesis
    proof (cases e)
      case (Some x)
      then have "e = Some EOF" "d = []" "stream r = []" using spec(5) by auto
      moreover have "stream r1 = []" using spec(1) calculation by simp
      ultimately show ?thesis
        using op Cons.prems(2,3) n rd
        by (simp add: body_Read_def readLocked_def at_eof_def Let_def)
    next
      case None
      have "length d \<le> n" "length d \<le> k" using spec(3) by (simp_all split: if_splits)
      then have d: "d \<noteq> []" "length d \<le> n" "length d \<le> k" "stream r = d @ stream r1" "bufio_ok r1"
        using spec(4)[OF None k'] spec(1,2) by blast+
      let ?b1 = "b\<lparr>b_src := LimitedSrc r1 (int n - int (length d))\<rparr>"
      have rdk: "body_Read k b = (if length d = n then (d, Some (BodyIo EOF),
            (let b2 = ?b1\<lparr>b_sawEOF := True\<rparr> in b2\<lparr>b_onHitEOF := map_option Suc (b_onHitEOF b2)\<rparr>))
          else (d, None, ?b1))"
        using op Cons.prems(2,3) n rd None d(1)
        by (simp add: body_Read_def readLocked_def at_eof_def Let_def)
      show ?thesis
      proof (cases "length d = n")
        case True
        then show ?thesis using rdk d by (simp add: Let_def)
      next
        case False
        have st: "take n (stream r) = d @ take (n - length d) (stream r1)"
          "drop n (stream r) = drop (n - length d) (stream r1)" using d by simp_all
        have pre: "fresh ?b1" "\<not> b_hdr ?b1" "b_src ?b1 = LimitedSrc r1 (int (n - length d))"
          using op Cons.prems(2) d(2) by (simp_all add: fresh_def)
        have short: "min (n - length d) (length (stream r1)) < length ks"
          using Cons.prems(6) d by (cases d) auto
        have "\<forall>k\<in>set ks. 0 < k" using Cons.prems(5) by simp
        from Cons.IH[OF pre d(5) this short] obtain b' r' where IH:
          "body_reads ?b1 ks = (take (n - length d) (stream r1),
             Some (BodyIo (if n - length d \<le> length (stream r1) then EOF else UnexpectedEOF)), b')"
          "b_src b' = LimitedSrc r' (int (n - length d) - int (length (take (n - length d) (stream r1))))"
          "stream r' = drop (n - length d) (stream r1)" "b_sawEOF b'"
          by blast
        have "(n - length d \<le> length (stream r1)) = (n \<le> length (stream r))" using d by auto
        then have "body_reads b (k # ks) = (take n (stream r),
            Some (BodyIo (if n \<le> length (stream r) then EOF else UnexpectedEOF)), b')"
          unfolding st(1) using IH(1) rdk False by simp
        moreover have "int (n - length d) - int (length (take (n - length d) (stream r1))) =
            int n - int (length (take n (stream r)))"
          using d(2,4) by auto
        ultimately show ?thesis using IH(2-4) st(2) by metis
      qed
    qed
  qed
qed simp

section \<open>A chunked body and its trailer\<close>

lemma Peek_enough:
  "k \<le> length (stream b) \<Longrightarrow> k \<le> bufio_size \<Longrightarrow> \<exists>b'. Peek k b = (take k (stream b), None, b')"
proof (induction k b rule: Peek.induct)
  case (1 n b)
  show ?case
  proof (cases "length (bf_buf b) < n")
    case True
    then have more_: "length (bf_buf b) < n \<and> length (bf_buf b) < bufio_size \<and> bf_src b \<noteq> []"
      using 1(2,3) by (auto simp: stream_def)
    then have "\<exists>b'. Peek n (bufio_fill b) = (take n (stream b), None, b')" using 1(1)[OF more_] 1(2,3) by simp
    then show ?thesis using more_ by (simp add: Peek.simps[of n b])
  next
    case False
    then show ?thesis by (simp add: Peek.simps[of n b] stream_def)
  qed
qed

lemma Peek_discard:
  assumes "Peek n b = (p, None, b')"
  shows "stream (discard n b') = drop n (stream b)"
proof -
  have "n \<le> length (bf_buf b')" using Peek_bytes[OF assms] by blast
  then have "drop n (stream b') = stream (discard n b')" by (simp add: stream_def discard_def)
  then show ?thesis using stream_Peek[OF assms] by simp
qed

lemma seeUpcoming_found:
  assumes "stream r = t @ crlf @ crlf @ rest" and "length t + 4 \<le> bufio_size" and "p \<le> length t + 4"
    and "bufio_ok r"
  shows "\<exists>r'. seeUpcoming_loop p r = (True, r') \<and> stream r' = stream r \<and> bufio_ok r'"
  using assms
proof (induction p r rule: seeUpcoming_loop.induct)
  case (1 p r)
  have "p \<le> length (stream r)" using 1(2,4) by (simp add: crlf_def)
  then obtain r1 where pk: "Peek p r = (take p (stream r), None, r1)"
    using Peek_enough[of p r] 1(3,4) by auto
  have r1: "stream r1 = stream r" "bufio_ok r1" using stream_Peek[OF pk] 1(5) by simp_all
  show ?case
  proof (cases "has_suffix (take p (stream r)) (crlf @ crlf)")
    case True
    then show ?thesis using pk r1 by (subst seeUpcoming_loop.simps) simp
  next
    case False
    have "p \<noteq> length t + 4"
    proof
      assume "p = length t + 4"
      then have "take p (stream r) = t @ crlf @ crlf" using 1(2) by (simp add: crlf_def)
      then show False using False by (simp add: has_suffix_def)
    qed
    then have "\<exists>r'. seeUpcoming_loop (Suc p) r1 = (True, r') \<and> stream r' = stream r1 \<and> bufio_ok r'"
      using 1(1)[OF pk[symmetric] refl False] 1(2-4) r1 by simp
    then show ?thesis
      using pk r1(1) False 1(3,4) by (subst seeUpcoming_loop.simps) simp
  qed
qed

lemma entries_size: "sum_list (map entry_size es) \<le> 200 * int (length (concat (map entry_text es)))"
  by (induction es) (auto simp: entry_size_def entry_text_def crlf_def)

lemma entries_text_end: "es \<noteq> [] \<Longrightarrow> \<exists>t. concat (map entry_text es) = t @ crlf"
proof (cases es rule: rev_cases)
  case (snoc ys e)
  then have "concat (map entry_text es) = (concat (map entry_text ys) @ fst e @ '': '' @ snd e) @ crlf"
    by (simp add: entry_text_def)
  then show ?thesis by blast
qed simp

definition merged_trailer :: "multimap option \<Rightarrow> multimap \<Rightarrow> multimap option \<Rightarrow> bool" where
  "merged_trailer dst tr res =
     (if header_entries tr = [] then res = dst
      else \<exists>m. res = mergeSetHeader dst m \<and>
        (\<forall>k. MIMEHeader_Values k m = map clean_value (MIMEHeader_Values k tr)))"

lemma header_entries_sort_Nil: "header_entries (sort_key fst h) = [] \<longleftrightarrow> header_entries h = []"
  using header_entries_sorted[of h] by (metis set_empty)

lemma readTrailer_written:
  assumes "header_ok tr" and "stream r = fst (Header_Write buffer_wire tr []) @ crlf @ rest" and "bufio_ok r"
    and "length (fst (Header_Write buffer_wire tr [])) + 2 \<le> bufio_size"
  shows "\<exists>r' tr'. readTrailer r dst = (None, r', tr') \<and> stream r' = rest \<and> merged_trailer dst tr tr'"
proof -
  let ?es = "header_entries (sort_key fst tr)"
  let ?text = "concat (map entry_text ?es)"
  have st: "stream r = ?text @ crlf @ rest" using assms(2) by (simp add: Header_Write_buffer)
  have small: "length ?text + 2 \<le> bufio_size" using assms(4) by (simp add: Header_Write_buffer)
  obtain r1 where pk: "Peek 2 r = (take 2 (stream r), None, r1)"
    using Peek_enough[of 2 r] st by (auto simp: crlf_def bufio_size_def)
  have r1: "stream r1 = stream r" "bufio_ok r1" using stream_Peek[OF pk] assms(3) by simp_all
  show ?thesis
  proof (cases ?es)
    case Nil
    then have two: "take 2 (stream r) = crlf" using st by (simp add: crlf_def)
    have "stream (discard 2 r1) = rest" using Peek_discard[OF pk] st Nil by (simp add: crlf_def)
    then show ?thesis
      using pk two Nil header_entries_sort_Nil[of tr] by (simp add: readTrailer_def merged_trailer_def)
  next
    case (Cons e es)
    have "e \<in> set (header_entries tr)" using header_entries_sorted[of tr] Cons by auto
    then have "entry_ok e" by (rule header_entries_ok[OF assms(1)])
    then obtain c cs where c: "fst e = c # cs" "c \<noteq> CHR 0x0D"
      using token_facts by (cases "fst e") (auto simp: entry_ok_def)
    have two: "take 2 (stream r) \<noteq> crlf" "\<not> length (take 2 (stream r)) < 2"
      using st c Cons by (simp_all add: entry_text_def crlf_def)
    have "?es \<noteq> []" using Cons by simp
    from entries_text_end[OF this] obtain t where t: "?text = t @ crlf" by blast
    have st2: "stream r1 = t @ crlf @ crlf @ rest" using st t r1(1) by simp
    have "length t + 4 \<le> bufio_size" using small t by (simp add: crlf_def)
    then obtain r2 where r2: "seeUpcomingDoubleCRLF r1 = (True, r2)" "stream r2 = stream r1" "bufio_ok r2"
      using seeUpcoming_found[OF st2 _ _ r1(2), of 4] by (auto simp: seeUpcomingDoubleCRLF_def)
    let ?R = "NewReader r2"
    have R: "stream (rd_R ?R) = fst (Header_Write buffer_wire tr []) @ crlf @ rest" "bufio_ok (rd_R ?R)" "rd_dot ?R = None"
      using r2 r1 assms(2) by (simp_all add: NewReader_def)
    have "sum_list (map entry_size ?es) \<le> 2 ^ 62"
      using entries_size[of ?es] small by (simp add: bufio_size_def)
    then obtain m R' where m: "ReadMIMEHeader ?R = ((Some m, None), R')" "stream (rd_R R') = rest"
      "\<forall>k. MIMEHeader_Values k m = map clean_value (MIMEHeader_Values k tr)"
      using ReadMIMEHeader_written[OF assms(1) R] by blast
    have "header_entries tr \<noteq> []" using Cons header_entries_sort_Nil[of tr] by simp
    then show ?thesis
      using pk two r2(1) m by (auto simp: readTrailer_def merged_trailer_def)
  qed
qed

lemma chunked_reads:
  assumes "fresh b" and "b_hdr b" and "b_src b = ChunkedSrc cr"
    and "stands_before cr D (fst (Header_Write buffer_wire tr []) @ crlf @ rest)"
    and "header_ok tr" and "length (fst (Header_Write buffer_wire tr [])) + 2 \<le> bufio_size"
    and "\<forall>k\<in>set ks. 0 < k" and "length D < length ks"
  shows "\<exists>b'. body_reads b ks = (D, Some (BodyIo EOF), b') \<and> stream (src_reader (b_src b')) = rest \<and>
    b_sawEOF b' \<and> merged_trailer (b_trailer b) tr (b_trailer b')"
  using assms
proof (induction ks arbitrary: b cr D)
  case (Cons k ks)
  let ?tail = "fst (Header_Write buffer_wire tr []) @ crlf @ rest"
  have op: "\<not> b_closed b" "\<not> b_sawEOF b" using Cons.prems(1) by (simp_all add: fresh_def)
  have k: "0 < k" using Cons.prems(7) by simp
  obtain d cr1 where rd: "chunked_Read cr k [] = (d, cr1)" by (cases "chunked_Read cr k []")
  have ok: "bufio_ok (cr_r cr1)"
    using chunked_Read_ok[OF rd] Cons.prems(4) by (simp add: stands_before_def)
  obtain D' where D': "D = d @ D'" "stands_before cr1 D' ?tail \<and> d \<noteq> [] \<or> D' = [] \<and> finished cr1 ?tail"
    using chunked_Read_after[OF Cons.prems(4) rd] k by (auto simp: after_read_def)
  from D'(2) show ?case
  proof
    assume fin: "D' = [] \<and> finished cr1 ?tail"
    then have e: "cr_err cr1 = Some EOF" "stream (cr_r cr1) = ?tail" by (simp_all add: finished_def)
    obtain r' tr' where tr: "readTrailer (cr_r cr1) (b_trailer b) = (None, r', tr')" "stream r' = rest"
      "merged_trailer (b_trailer b) tr tr'"
      using readTrailer_written[OF Cons.prems(5) e(2) ok Cons.prems(6)] by blast
    then show ?thesis
      using op Cons.prems(2,3) rd e(1) fin D'(1)
      by (simp add: body_Read_def readLocked_def at_eof_def Let_def)
  next
    assume st: "stands_before cr1 D' ?tail \<and> d \<noteq> []"
    then have none: "cr_err cr1 = None" by (simp add: stands_before_def)
    let ?b1 = "b\<lparr>b_src := ChunkedSrc cr1\<rparr>"
    have rdk: "body_Read k b = (d, None, ?b1)"
      using op Cons.prems(3) rd none by (simp add: body_Read_def readLocked_def at_eof_def Let_def)
    have "length D' < length ks" using Cons.prems(8) D'(1) st by (cases d) auto
    then obtain b' where "body_reads ?b1 ks = (D', Some (BodyIo EOF), b')" "stream (src_reader (b_src b')) = rest"
      "b_sawEOF b'" "merged_trailer (b_trailer ?b1) tr (b_trailer b')"
      using Cons.IH[of ?b1 cr1 D'] st op Cons.prems(2,5,6,7) by (auto simp: fresh_def)
    then show ?thesis using rdk D'(1) by simp
  qed
qed simp

lemma chunked_body_reads:
  assumes "fresh b" and "b_hdr b" and "b_src b = ChunkedSrc (new_chunkedReader r)" and "bufio_ok r"
    and "\<forall>d\<in>set ds. length d < 2 ^ 61"
    and "stream r = write_all ds [] @ fst (Header_Write buffer_wire tr []) @ crlf @ rest"
    and "header_ok tr" and "length (fst (Header_Write buffer_wire tr [])) + 2 \<le> bufio_size"
    and "\<forall>k\<in>set ks. 0 < k" and "length (concat ds) < length ks"
  shows "\<exists>b'. body_reads b ks = (concat ds, Some (BodyIo EOF), b') \<and> stream (src_reader (b_src b')) = rest \<and>
    b_sawEOF b' \<and> merged_trailer (b_trailer b) tr (b_trailer b')"
proof -
  let ?ds = "filter (\<lambda>d. d \<noteq> []) ds"
  have "good_chunks ?ds" using assms(5) by (auto simp: good_chunks_def)
  then have "stands_before (new_chunkedReader r) (concat ?ds) (fst (Header_Write buffer_wire tr []) @ crlf @ rest)"
    using assms(4,6) by (intro new_reader_stands_before) (simp_all add: write_all_enc)
  from chunked_reads[OF assms(1-3) this assms(7-9)] assms(10) show ?thesis
    unfolding concat_filter_nonempty by blast
qed

section \<open>The states of a body\<close>

inductive body_state :: "body \<Rightarrow> bool" where
  start: "(hdr \<longrightarrow> (\<exists>cr. src = ChunkedSrc cr)) \<Longrightarrow> (\<forall>n. limited_left src = Some n \<longrightarrow> 0 \<le> n) \<Longrightarrow>
    body_state (new_body src hdr closing tr)"
| early: "body_state b \<Longrightarrow> body_state (b\<lparr>b_doEarlyClose := True\<rparr>)"
| hook: "body_state b \<Longrightarrow> body_state (registerOnHitEOF b)"
| reading: "body_state b \<Longrightarrow> body_Read k b = (d, e, b') \<Longrightarrow> body_state b'"
| closing: "body_state b \<Longrightarrow> body_Close b = (e, b') \<Longrightarrow> body_state b'"

definition body_inv :: "body \<Rightarrow> bool" where
  "body_inv b =
     ((\<forall>n. b_onHitEOF b = Some n \<longrightarrow> n = 0 \<or> n = 1 \<and> b_sawEOF b) \<and>
      (b_sawEOF b \<longrightarrow> \<not> b_hdr b) \<and>
      (b_hdr b \<longrightarrow> (\<exists>cr. b_src b = ChunkedSrc cr)) \<and>
      (\<forall>n. limited_left (b_src b) = Some n \<longrightarrow> 0 \<le> n))"

lemma src_Read_kind:
  "src_Read k s = (d, e, s') \<Longrightarrow>
     ((\<exists>cr. s = ChunkedSrc cr) \<longrightarrow> (\<exists>cr. s' = ChunkedSrc cr)) \<and>
     ((\<forall>n. limited_left s = Some n \<longrightarrow> 0 \<le> n) \<longrightarrow> (\<forall>n. limited_left s' = Some n \<longrightarrow> 0 \<le> n))"
proof (cases s)
  case (LimitedSrc r n)
  then show "src_Read k s = (d, e, s') \<Longrightarrow> ?thesis"
    using length_bufio_Read[of "if n < int k then nat n else k" r] by (auto split: prod.splits if_splits)
qed (auto split: prod.splits)

lemma with_reader_kind:
  "limited_left (with_reader r s) = limited_left s" "(\<exists>cr. with_reader r s = ChunkedSrc cr) \<longleftrightarrow> (\<exists>cr. s = ChunkedSrc cr)"
  by (cases s; simp)+

lemma at_eof_cases:
  assumes "at_eof b err = (e, b')"
  obtains (same) "b' = b"
  | (at_end) "\<not> b_hdr b" "b' = b\<lparr>b_sawEOF := True\<rparr>"
  | (trailer) r tr where "b' = b\<lparr>b_sawEOF := True, b_src := with_reader r (b_src b), b_trailer := tr, b_hdr := False\<rparr>"
  | (bad_trailer) r tr where
      "b' = b\<lparr>b_src := with_reader r (b_src b), b_trailer := tr, b_hdr := False, b_sawEOF := False, b_closed := True\<rparr>"
proof (cases "err = Some EOF")
  case False
  then show thesis using same assms by (simp add: at_eof_def)
next
  case True
  show thesis
  proof (cases "b_hdr b")
    case False
    then show thesis using at_end assms True by (simp add: at_eof_def Let_def split: option.splits)
  next
    case hdr: True
    obtain x r tr where "readTrailer (src_reader (b_src b)) (b_trailer b) = (x, r, tr)" by (metis surj_pair)
    then show thesis
      using trailer[where r = r and tr = tr] bad_trailer[where r = r and tr = tr] assms True hdr
      by (cases x) (simp_all add: at_eof_def Let_def)
  qed
qed

lemma at_eof_inv:
  assumes "at_eof b err = (e, b')"
  shows "b_onHitEOF b' = b_onHitEOF b"
    and "\<not> b_sawEOF b \<Longrightarrow> b_sawEOF b' \<longrightarrow> \<not> b_hdr b'"
    and "(b_hdr b \<longrightarrow> (\<exists>cr. b_src b = ChunkedSrc cr)) \<Longrightarrow> b_hdr b' \<longrightarrow> (\<exists>cr. b_src b' = ChunkedSrc cr)"
    and "limited_left (b_src b') = limited_left (b_src b)"
  by (rule at_eof_cases[OF assms]; simp add: with_reader_kind)+

lemma body_Read_inv:
  assumes "body_inv b" and "body_Read k b = (d, e, b')"
  shows "body_inv b'"
proof (cases "b_closed b \<or> b_sawEOF b")
  case True
  then have "b' = b" using assms(2) by (auto simp: body_Read_def readLocked_def split: if_splits)
  then show ?thesis using assms(1) by simp
next
  case False
  obtain x err src where rd: "src_Read k (b_src b) = (x, err, src)" by (metis surj_pair)
  note kind = src_Read_kind[OF rd]
  let ?b1 = "b\<lparr>b_src := src\<rparr>"
  obtain e1 b1 where at: "at_eof ?b1 err = (e1, b1)" by (cases "at_eof ?b1 err")
  have hook: "\<forall>n. b_onHitEOF b = Some n \<longrightarrow> n = 0" using assms(1) False by (auto simp: body_inv_def)
  have inv: "b_hdr b \<longrightarrow> (\<exists>cr. b_src b = ChunkedSrc cr)" "\<forall>n. limited_left (b_src b) = Some n \<longrightarrow> 0 \<le> n"
    using assms(1) unfolding body_inv_def by blast+
  have b1: "b_onHitEOF b1 = b_onHitEOF b" "b_sawEOF b1 \<longrightarrow> \<not> b_hdr b1"
    using at_eof_inv(1,2)[OF at] False by simp_all
  have "b_hdr ?b1 \<longrightarrow> (\<exists>cr. b_src ?b1 = ChunkedSrc cr)" using inv(1) kind by simp
  then have b1': "b_hdr b1 \<longrightarrow> (\<exists>cr. b_src b1 = ChunkedSrc cr)" by (rule at_eof_inv(3)[OF at])
  have "limited_left (b_src b1) = limited_left src" using at_eof_inv(4)[OF at] by simp
  then have b1'': "\<forall>n. limited_left (b_src b1) = Some n \<longrightarrow> 0 \<le> n" using kind inv(2) by simp
  define lim where "lim \<longleftrightarrow> e1 = None \<and> x \<noteq> [] \<and> limited_left (b_src b1) = Some 0"
  have nohdr: "\<not> b_hdr b1" if lim using that b1' by (auto simp: lim_def)
  let ?b2 = "if lim then b1\<lparr>b_sawEOF := True\<rparr> else b1"
  have "b' = (if b_sawEOF ?b2 then ?b2\<lparr>b_onHitEOF := map_option Suc (b_onHitEOF ?b2)\<rparr> else ?b2)"
    using assms(2) False rd at by (cases lim) (auto simp: body_Read_def readLocked_def Let_def lim_def split: if_splits)
  then show ?thesis
    using b1 b1' b1'' nohdr hook unfolding body_inv_def by (cases lim; cases "b_sawEOF b1") auto
qed

lemma drain_inv: "body_inv b \<Longrightarrow> drain fuel left b = (n, e, b') \<Longrightarrow> body_inv b'"
proof (induction fuel arbitrary: left b n)
  case (Suc fuel)
  show ?case
  proof (cases "left = Some 0")
    case True
    then show ?thesis using Suc.prems by auto
  next
    case False
    obtain d e1 b1 where rd: "body_Read (case left of None \<Rightarrow> 8192 | Some n \<Rightarrow> min 8192 n) b = (d, e1, b1)"
      by (metis surj_pair)
    have "body_inv b1" using body_Read_inv[OF Suc.prems(1) rd] .
    then show ?thesis
      using Suc.IH Suc.prems(2) rd unfolding drain_step[OF False] by (auto split: option.splits prod.splits)
  qed
qed auto

lemma body_inv_flags [simp]:
  "body_inv (b\<lparr>b_closed := v\<rparr>) = body_inv b" "body_inv (b\<lparr>b_earlyClose := v\<rparr>) = body_inv b"
  "body_inv (b\<lparr>b_doEarlyClose := v\<rparr>) = body_inv b" "body_inv b \<Longrightarrow> body_inv (registerOnHitEOF b)"
  by (auto simp: body_inv_def registerOnHitEOF_def)

lemma body_state_inv: "body_state b \<Longrightarrow> body_inv b"
proof (induction rule: body_state.induct)
  case (start hdr src closing tr)
  then show ?case by (auto simp: body_inv_def new_body_def)
next
  case (reading b k d e b')
  then show ?case using body_Read_inv by blast
next
  case (closing b e b')
  then show ?case
    using drain_inv by (auto simp: body_Close_def Let_def split: if_splits prod.splits)
qed simp_all

section \<open>Properties\<close>

text \<open>C26: A chunked body with a trailer, as the writer puts it on the wire, is read back in full through any
  sequence of reads; the end is reported once the trailer was read and merged into the message, and what
  follows on the connection is untouched.\<close>

theorem chunked_body_roundtrip:
  assumes "fresh b" and "b_hdr b" and "b_src b = ChunkedSrc (new_chunkedReader r)" and "bufio_ok r"
    and "\<forall>d\<in>set ds. length d < 2 ^ 61"
    and "stream r = write_all ds [] @ fst (Header_Write buffer_wire tr []) @ crlf @ rest"
    and "header_ok tr" and "length (fst (Header_Write buffer_wire tr [])) + 2 \<le> bufio_size"
    and "\<forall>k\<in>set ks. 0 < k" and "length (concat ds) < length ks"
  shows "\<exists>b'. body_reads b ks = (concat ds, Some (BodyIo EOF), b') \<and> stream (src_reader (b_src b')) = rest \<and>
    b_sawEOF b' \<and> merged_trailer (b_trailer b) tr (b_trailer b')"
  by (rule chunked_body_reads[OF assms])

lemma chunked_body_roundtrip_witness:
  "\<exists>b'. body_reads (new_body (ChunkedSrc (new_chunkedReader
       \<lparr>bf_buf = [], bf_src = [''2'' @ crlf @ ''hi'' @ crlf @ ''0'' @ crlf, crlf @ ''next'']\<rparr>)) True False None) [1, 1, 1]
     = (''hi'', Some (BodyIo EOF), b') \<and> stream (src_reader (b_src b')) = ''next''"
proof -
  let ?r = "\<lparr>bf_buf = [], bf_src = [''2'' @ crlf @ ''hi'' @ crlf @ ''0'' @ crlf, crlf @ ''next'']\<rparr>"
  let ?b = "new_body (ChunkedSrc (new_chunkedReader ?r)) True False None"
  have w: "write_all [''hi''] [] = ''2'' @ crlf @ ''hi'' @ crlf @ ''0'' @ crlf" by code_simp
  have h: "fst (Header_Write buffer_wire [] []) = []" by (simp add: Header_Write_buffer header_entries_def)
  have b: "fresh ?b" "b_hdr ?b" "b_src ?b = ChunkedSrc (new_chunkedReader ?r)" "bufio_ok ?r"
    by (simp_all add: fresh_def new_body_def bufio_ok_def crlf_def)
  have s: "stream ?r = write_all [''hi''] [] @ fst (Header_Write buffer_wire [] []) @ crlf @ ''next''"
    unfolding w h by (simp add: stream_def)
  have rest: "\<forall>d\<in>set [''hi'']. length d < 2 ^ 61" "header_ok []"
    "length (fst (Header_Write buffer_wire [] [])) + 2 \<le> bufio_size" "\<forall>k\<in>set [1, 1, 1 :: nat]. 0 < k"
    "length (concat [''hi'']) < length [1, 1, 1 :: nat]"
    unfolding h by (simp_all add: header_ok_def bufio_size_def)
  show ?thesis
    using chunked_body_roundtrip[OF b rest(1) s rest(2-5)] by (simp only: concat.simps append_Nil2) blast
qed

text \<open>C27: A body with a Content-Length delivers exactly so many bytes of the stream and then EOF, and leaves
  the rest; when the stream ends before, it delivers what there is and reports an unexpected EOF.\<close>

theorem limited_body_exact:
  assumes "fresh b" and "\<not> b_hdr b" and "b_src b = LimitedSrc r (int n)" and "bufio_ok r"
    and "\<forall>k\<in>set ks. 0 < k" and "min n (length (stream r)) < length ks"
  shows "\<exists>b' r'. body_reads b ks =
      (take n (stream r), Some (BodyIo (if n \<le> length (stream r) then EOF else UnexpectedEOF)), b') \<and>
    b_src b' = LimitedSrc r' (int n - int (length (take n (stream r)))) \<and> stream r' = drop n (stream r) \<and> b_sawEOF b'"
  by (rule limited_reads[OF assms])

lemma limited_body_exact_witness:
  "\<exists>b'. body_reads (new_body (LimitedSrc \<lparr>bf_buf = [], bf_src = [''he'', ''y'']\<rparr> 5) False True None) [2, 2, 2, 2]
     = (''hey'', Some (BodyIo UnexpectedEOF), b')"
proof -
  let ?r = "\<lparr>bf_buf = [], bf_src = [''he'', ''y'']\<rparr>"
  let ?b = "new_body (LimitedSrc ?r 5) False True None"
  have b: "fresh ?b" "\<not> b_hdr ?b" "b_src ?b = LimitedSrc ?r (int 5)" "bufio_ok ?r"
    "\<forall>k\<in>set [2, 2, 2, 2 :: nat]. 0 < k" "min 5 (length (stream ?r)) < length [2, 2, 2, 2 :: nat]"
    by (simp_all add: fresh_def new_body_def bufio_ok_def stream_def)
  have t: "take 5 (stream ?r) = ''hey''" "\<not> 5 \<le> length (stream ?r)" by (simp_all add: stream_def)
  show ?thesis using limited_body_exact[OF b] unfolding t if_not_P[OF t(2)] by blast
qed

text \<open>C28: Closing a body ends and never reports EOF; a body that neither belongs to a closing connection nor may
  be closed early was then read to its end, its trailer included, unless an error is reported.\<close>

theorem body_Close_drains:
  assumes "body_Close b = (err, b')" and "\<not> b_closed b"
  shows "b_closed b' \<and> err \<noteq> Some (BodyIo EOF) \<and>
    (err = None \<and> (b_hdr b \<or> \<not> b_closing b) \<and> \<not> b_doEarlyClose b \<longrightarrow> b_sawEOF b')"
  using body_Close_ends[OF assms(1)] assms(2) by blast

lemma body_Close_drains_witness:
  "b_sawEOF (snd (body_Close (new_body (LimitedSrc \<lparr>bf_buf = ''abc'', bf_src = []\<rparr> 2) False False None)))"
proof -
  let ?b = "new_body (LimitedSrc \<lparr>bf_buf = ''abc'', bf_src = []\<rparr> 2) False False None"
  have "fst (body_Close ?b) = None" by code_simp
  then have c: "body_Close ?b = (None, snd (body_Close ?b))" by (metis prod.collapse)
  have "\<not> b_closed ?b" "\<not> b_closing ?b" "\<not> b_doEarlyClose ?b" by (simp_all add: new_body_def)
  then show ?thesis using body_Close_drains[OF c] by blast
qed

text \<open>C29: In every state that reads and closes reach, the hook of the end was called at most once, and only once
  the end was seen; no trailer is left to read after the end; and the bytes left are never negative.\<close>

theorem body_state_invariant: "body_state b \<Longrightarrow> body_inv b"
  by (rule body_state_inv)

lemma body_state_invariant_witness:
  "body_inv (snd (body_Close (registerOnHitEOF (new_body (LimitedSrc \<lparr>bf_buf = ''abc'', bf_src = []\<rparr> 2) False False None))))"
proof -
  let ?b = "new_body (LimitedSrc \<lparr>bf_buf = ''abc'', bf_src = []\<rparr> 2) False False None"
  have "body_state ?b" by (rule body_state.start) simp_all
  then have "body_state (registerOnHitEOF ?b)" by (rule body_state.hook)
  then have "body_state (snd (body_Close (registerOnHitEOF ?b)))"
    by (rule body_state.closing[where e = "fst (body_Close (registerOnHitEOF ?b))"]) simp
  then show ?thesis by (rule body_state_invariant)
qed

end
