(* ===== verification/Framing_Correct.thy ===== *)
theory Framing_Correct
  imports Message_Framing Body_Correct
begin

text \<open>
  Correctness of the framing of messages: readTransfer takes the decision of RFC 9112, section 6.3, that
  \<open>framing\<close> states, and leaves no header that could be read differently by the next recipient.
\<close>

section \<open>The reference decision\<close>

datatype framing = Chunks | Bytes nat | UntilClose

definition decimal :: "string \<Rightarrow> nat" where
  "decimal s = foldl (\<lambda>a c. a * 10 + digit_value c) 0 s"

text \<open>The length that the values of Content-Length declare, if they all declare the same valid one.\<close>

definition declared_length :: "string list \<Rightarrow> nat option" where
  "declared_length vs =
     (if vs = [] then Some 0
      else let cl = TrimString (hd vs)
      in if list_all (\<lambda>v. TrimString v = cl) vs \<and> cl \<noteq> [] \<and> list_all digit cl \<and> decimal cl < 2 ^ 63
         then Some (decimal cl) else None)"

definition trailer_names :: "multimap \<Rightarrow> string list" where
  "trailer_names h = concat (map foreachHeaderElement (values_at h ''Trailer''))"

definition bodyless :: "bool \<Rightarrow> string \<Rightarrow> int \<Rightarrow> bool" where
  "bodyless isResponse m status = (isResponse \<and> (m = ''HEAD'' \<or> \<not> bodyAllowedForStatus status))"

definition framing_of :: "bool \<Rightarrow> string \<Rightarrow> int \<Rightarrow> multimap \<Rightarrow> framing option" where
  "framing_of isResponse m status h =
     (case declared_length (values_at h ''Content-Length'') of
        None \<Rightarrow> None
      | Some n \<Rightarrow>
          (case map_of h ''Transfer-Encoding'' of
             Some te \<Rightarrow>
               if length te = 1 \<and> EqualFold (hd te) ''chunked'' \<and>
                  list_all (\<lambda>k. \<not> bad_trailer_key (CanonicalHeaderKey k)) (trailer_names h)
               then Some (if bodyless isResponse m status then Bytes 0 else Chunks) else None
           | None \<Rightarrow>
               Some (if bodyless isResponse m status then Bytes 0
                     else if isResponse \<and> values_at h ''Content-Length'' = [] then UntilClose
                     else Bytes n)))"

section \<open>Lengths\<close>

lemma ParseUint_loop_iff:
  "n < 2 ^ bits \<Longrightarrow> ParseUint_loop bits n s = Inr m \<longleftrightarrow>
     list_all digit s \<and> m = foldl (\<lambda>a c. a * 10 + digit_value c) n s \<and> m < 2 ^ bits"
proof (induction s arbitrary: n)
  case (Cons c s)
  have grow: "k \<le> foldl (\<lambda>a c. a * 10 + digit_value c) k t" for k :: nat and t
  proof (induction t arbitrary: k)
    case (Cons d t)
    from Cons.IH[of "k * 10 + digit_value d"] show ?case by simp
  qed simp
  show ?case
  proof (cases "2 ^ bits \<le> n * 10 + digit_value c")
    case True
    then have "2 ^ bits \<le> foldl (\<lambda>a c. a * 10 + digit_value c) n (c # s)"
      using grow[of "n * 10 + digit_value c" s] by simp
    then show ?thesis using True by auto
  qed (use Cons.IH in auto)
qed auto

lemma ParseUint_iff: "ParseUint bits s = Inr m \<longleftrightarrow> s \<noteq> [] \<and> list_all digit s \<and> m = decimal s \<and> m < 2 ^ bits"
  unfolding ParseUint_def decimal_def by (simp add: ParseUint_loop_iff)

lemma parseContentLength_iff:
  "parseContentLength False vs = Inr n \<longleftrightarrow>
     (if vs = [] then n = - 1
      else TrimString (hd vs) \<noteq> [] \<and> list_all digit (TrimString (hd vs)) \<and>
           n = int (decimal (TrimString (hd vs))) \<and> decimal (TrimString (hd vs)) < 2 ^ 63)"
proof (cases vs)
  case (Cons v rest)
  define cl where "cl = TrimString v"
  have "parseContentLength False vs = Inr n \<longleftrightarrow> cl \<noteq> [] \<and> (\<exists>m. ParseUint 63 cl = Inr m \<and> n = int m)"
    using Cons by (cases "ParseUint 63 cl") (auto simp: parseContentLength_def cl_def[symmetric])
  then show ?thesis unfolding ParseUint_iff using Cons by (simp only: list.sel list.simps if_False cl_def) metis
qed (simp add: parseContentLength_def eq_commute)

lemma canonical_key_fixed:
  "list_all token_byte s \<Longrightarrow> canon_loop True s = s \<Longrightarrow> CanonicalMIMEHeaderKey s = s"
  using CanonicalMIMEHeaderKey_token[of s] by (simp add: list_all_iff validHeaderFieldByte_token)

lemma header_key_canonical:
  "CanonicalMIMEHeaderKey ''Content-Length'' = ''Content-Length''"
  "CanonicalMIMEHeaderKey ''Trailer'' = ''Trailer''"
  "CanonicalMIMEHeaderKey ''Connection'' = ''Connection''"
  by (rule canonical_key_fixed; code_simp)+

lemma Header_Del_values:
  "map_of (Header_Del ''Content-Length'' h) k = (if k = ''Content-Length'' then None else map_of h k)"
  "map_of (Header_Del ''Trailer'' h) k = (if k = ''Trailer'' then None else map_of h k)"
  "map_of (Header_Del ''Connection'' h) k = (if k = ''Connection'' then None else map_of h k)"
  by (simp_all add: Header_Del_def MIMEHeader_Del_def header_key_canonical delete_conv)

lemma TrimString_idem: "TrimString (TrimString s) = TrimString s"
proof -
  have "trim_left_by isASCIISpace (TrimString s) = TrimString s"
  proof (rule trim_left_by_id)
    let ?l = "trim_left_by isASCIISpace s"
    obtain u where u: "?l = TrimString s @ u"
      unfolding TrimString_def trim_right_by_def
      by (metis dropWhile_eq_drop rev_append rev_rev_ident takeWhile_dropWhile_id)
    show "TrimString s = [] \<or> \<not> isASCIISpace (hd (TrimString s))"
      using hd_trim_left_by[of isASCIISpace s] u by (cases "TrimString s = []") auto
  qed
  moreover have "trim_right_by isASCIISpace (TrimString s) = TrimString s"
    using last_trim_right_by[of isASCIISpace "trim_left_by isASCIISpace s"] unfolding TrimString_def
    by (intro trim_right_by_id) blast
  ultimately show ?thesis by (subst TrimString_def) simp
qed

lemma dedup_length_bad:
  "dedup_length h = Inl e \<Longrightarrow> declared_length (values_at h ''Content-Length'') = None"
  by (cases "values_at h ''Content-Length''")
    (auto simp: dedup_length_def declared_length_def Let_def list_ex_iff list_all_iff split: if_splits)

lemma dedup_length_good:
  assumes "dedup_length h = Inr h'"
  defines "vs \<equiv> values_at h ''Content-Length''"
  shows "values_at h' ''Content-Length'' = (if 1 < length vs then [TrimString (hd vs)] else vs)"
    and "k \<noteq> ''Content-Length'' \<Longrightarrow> map_of h' k = map_of h k"
    and "list_all (\<lambda>v. TrimString v = TrimString (hd vs)) vs"
proof -
  have key: "CanonicalMIMEHeaderKey ''Content-Length'' = ''Content-Length''" by (rule header_key_canonical)
  show "values_at h' ''Content-Length'' = (if 1 < length vs then [TrimString (hd vs)] else vs)"
    using assms(1) unfolding vs_def
    by (cases "values_at h ''Content-Length''")
      (auto simp: dedup_length_def Let_def Header_Add_def MIMEHeader_Add_def Header_Del_def MIMEHeader_Del_def key
        values_at_update values_at_delete split: if_splits)
  show "map_of h' k = map_of h k" if "k \<noteq> ''Content-Length''"
    using assms(1) that
    by (auto simp: dedup_length_def Let_def Header_Add_def MIMEHeader_Add_def Header_Del_def MIMEHeader_Del_def key
        update_conv delete_conv split: if_splits)
  show "list_all (\<lambda>v. TrimString v = TrimString (hd vs)) vs"
    using assms(1) unfolding vs_def
    by (cases "values_at h ''Content-Length''")
      (auto simp: dedup_length_def Let_def list_ex_iff list_all_iff split: if_splits)
qed

lemma dedup_length_declared:
  assumes "dedup_length h = Inr h'" and "vs = values_at h ''Content-Length''"
    and "vs' = values_at h' ''Content-Length''" and "vs \<noteq> []"
  shows "parseContentLength False vs' = Inr n \<longleftrightarrow>
    declared_length vs = Some (nat n) \<and> 0 \<le> n"
proof -
  have "vs' \<noteq> []" "TrimString (hd vs') = TrimString (hd vs)"
    using dedup_length_good(1)[OF assms(1)] assms(2-4) by (auto simp: TrimString_idem)
  moreover have "list_all (\<lambda>v. TrimString v = TrimString (hd vs)) vs"
    using dedup_length_good(3)[OF assms(1)] assms(2) by simp
  ultimately show ?thesis
    using assms(4) unfolding parseContentLength_iff declared_length_def Let_def by (auto split: if_splits)
qed

text \<open>What fixLength answers, in terms of the declared length.\<close>

definition real_length :: "bool \<Rightarrow> string \<Rightarrow> int \<Rightarrow> bool \<Rightarrow> string list \<Rightarrow> int" where
  "real_length isResponse m status ch vs =
     (if bodyless isResponse m status \<or> \<not> bodyAllowedForStatus status then 0
      else if ch then - 1
      else if vs = [] then (if isResponse then - 1 else 0)
      else int (decimal (TrimString (hd vs))))"

lemma status_no_body: "status div 100 = 1 \<or> status = 204 \<or> status = 304 \<longleftrightarrow> \<not> bodyAllowedForStatus status"
proof -
  have "status div 100 = 1 \<longleftrightarrow> status \<ge> 100 \<and> status \<le> 199" for status :: int by presburger
  then show ?thesis by (auto simp: bodyAllowedForStatus_def)
qed

lemma fixLength_bad:
  assumes "declared_length (values_at h ''Content-Length'') = None"
  shows "\<exists>e h'. fixLength False isR status m h ch = (Inl e, h')"
proof (cases "dedup_length h")
  case (Inl e)
  then show ?thesis by (simp add: fixLength_def)
next
  case (Inr h1)
  let ?vs = "values_at h ''Content-Length''" and ?vs' = "values_at h1 ''Content-Length''"
  have vs: "?vs \<noteq> []" using assms by (auto simp: declared_length_def)
  then have "0 < length ?vs'" using dedup_length_good(1)[OF Inr] by auto
  moreover obtain e where "parseContentLength False ?vs' = Inl e"
    using dedup_length_declared[OF Inr refl refl vs] assms by (cases "parseContentLength False ?vs'") auto
  ultimately show ?thesis using Inr by (simp add: fixLength_def)
qed

lemma fixLength_good:
  assumes "declared_length (values_at h ''Content-Length'') = Some n"
  shows "\<exists>h'. fixLength False isR status m h ch =
      (Inr (real_length isR m status ch (values_at h ''Content-Length'')), h') \<and>
    (\<forall>k. k \<noteq> ''Content-Length'' \<longrightarrow> map_of h' k = map_of h k) \<and>
    parseContentLength False (values_at h' ''Content-Length'') =
      Inr (if values_at h' ''Content-Length'' = [] then - 1 else int n) \<and>
    length (values_at h' ''Content-Length'') \<le> 1 \<and>
    (ch \<and> bodyAllowedForStatus status \<and> \<not> (isR \<and> m = ''HEAD'') \<longrightarrow> values_at h' ''Content-Length'' = [])"
proof -
  let ?vs = "values_at h ''Content-Length''"
  obtain h1 where h1: "dedup_length h = Inr h1"
    using assms dedup_length_bad by (cases "dedup_length h") auto
  let ?vs' = "values_at h1 ''Content-Length''"
  have vs': "?vs' = (if 1 < length ?vs then [TrimString (hd ?vs)] else ?vs)" by (rule dedup_length_good(1)[OF h1])
  have empty: "?vs' = [] \<longleftrightarrow> ?vs = []" using vs' by auto
  have len: "length ?vs' \<le> 1" using vs' by auto
  have n: "?vs \<noteq> [] \<Longrightarrow> parseContentLength False ?vs' = Inr (int n) \<and> n = decimal (TrimString (hd ?vs))"
    using dedup_length_declared[OF h1 refl refl, of "int n"] assms
    by (auto simp: declared_length_def Let_def split: if_splits)
  have del: "values_at (Header_Del ''Content-Length'' h1) ''Content-Length'' = []"
    by (simp add: values_at_def Header_Del_values)
  have p: "parseContentLength False [] = Inr (- 1)" by (simp add: parseContentLength_def)
  define out where "out = (if isR \<and> noResponseBodyExpected m then h1
    else if status div 100 = 1 \<or> status = 204 \<or> status = 304 then h1
    else if ch \<or> ?vs = [] then Header_Del ''Content-Length'' h1 else h1)"
  have "fixLength False isR status m h ch = (Inr (real_length isR m status ch ?vs), out)"
  proof (cases "?vs = []")
    case True
    then show ?thesis using h1 empty status_no_body[of status]
      by (auto simp: fixLength_def out_def real_length_def bodyless_def noResponseBodyExpected_def Let_def)
  next
    case False
    then show ?thesis using h1 empty n status_no_body[of status]
      by (auto simp: fixLength_def out_def real_length_def bodyless_def noResponseBodyExpected_def Let_def)
  qed
  moreover have "map_of out k = map_of h k" if "k \<noteq> ''Content-Length''" for k
    using that dedup_length_good(2)[OF h1 that] by (simp add: out_def Header_Del_values)
  moreover have out: "values_at out ''Content-Length'' = [] \<or> values_at out ''Content-Length'' = ?vs'"
    "values_at out ''Content-Length'' = (if (isR \<and> m = ''HEAD'') \<or> \<not> bodyAllowedForStatus status then ?vs'
       else if ch then [] else ?vs')"
    using del empty status_no_body[of status] by (auto simp: out_def noResponseBodyExpected_def)
  moreover have "parseContentLength False (values_at out ''Content-Length'') =
      Inr (if values_at out ''Content-Length'' = [] then - 1 else int n)"
    using out(1) p n empty by auto
  moreover have "length (values_at out ''Content-Length'') \<le> 1" using out(1) len by auto
  ultimately show ?thesis using empty by (intro exI[of _ out]) (simp add: bodyless_def)
qed

section \<open>Trailers\<close>

lemma trailer_element_simps:
  "trailer_element k (Some e, m) = (Some e, AList.update (CanonicalHeaderKey k) [] m)"
  "bad_trailer_key (CanonicalHeaderKey k) \<Longrightarrow>
     trailer_element k (None, m) = (Some (BadString ''bad trailer key'' (CanonicalHeaderKey k)), m)"
  "\<not> bad_trailer_key (CanonicalHeaderKey k) \<Longrightarrow>
     trailer_element k (None, m) = (None, AList.update (CanonicalHeaderKey k) [] m)"
  by (simp_all add: trailer_element_def Let_def)

lemma trailer_fold_error: "fst (fold trailer_element ks (Some e, m)) = Some e"
  by (induction ks arbitrary: m) (simp_all add: trailer_element_simps)

lemma trailer_fold:
  "fst (fold trailer_element ks (None, m)) = None \<longleftrightarrow>
     list_all (\<lambda>k. \<not> bad_trailer_key (CanonicalHeaderKey k)) ks"
proof (induction ks arbitrary: m)
  case (Cons k ks)
  then show ?case
    by (cases "bad_trailer_key (CanonicalHeaderKey k)") (simp_all add: trailer_element_simps trailer_fold_error)
qed simp

lemma fixTrailer_cases:
  assumes "fixTrailer h ch = (res, h')"
  shows "(\<exists>tr. res = Inr tr) \<longleftrightarrow>
      \<not> ch \<or> list_all (\<lambda>k. \<not> bad_trailer_key (CanonicalHeaderKey k)) (trailer_names h)"
    and "k \<noteq> ''Trailer'' \<Longrightarrow> map_of h' k = map_of h k"
proof -
  obtain e m where f: "fold trailer_element (trailer_names h) (None, []) = (e, m)"
    by (cases "fold trailer_element (trailer_names h) (None, [])")
  have e: "e = None \<longleftrightarrow> list_all (\<lambda>k. \<not> bad_trailer_key (CanonicalHeaderKey k)) (trailer_names h)"
    using trailer_fold[of "trailer_names h" "[]"] f by simp
  show "(\<exists>tr. res = Inr tr) \<longleftrightarrow>
      \<not> ch \<or> list_all (\<lambda>k. \<not> bad_trailer_key (CanonicalHeaderKey k)) (trailer_names h)"
    using assms e f by (cases e) (auto simp: fixTrailer_def Let_def trailer_names_def values_at_def split: option.splits if_splits)
  show "map_of h' k = map_of h k" if "k \<noteq> ''Trailer''"
    using assms that 
    by (auto simp: fixTrailer_def Let_def Header_Del_values split: option.splits if_splits prod.splits)
qed

section \<open>readTransfer\<close>

definition method_of :: "message \<Rightarrow> string" where
  "method_of msg = (case ms_Method msg of None \<Rightarrow> ''GET'' | Some m \<Rightarrow> m)"

definition status_of :: "message \<Rightarrow> int" where
  "status_of msg = (if ms_isResponse msg then ms_StatusCode msg else 200)"

definition http11 :: "message \<Rightarrow> bool" where
  "http11 msg = (ms_ProtoMajor msg > 1 \<or> ms_ProtoMajor msg = 1 \<and> ms_ProtoMinor msg \<ge> 1)"

text \<open>The body and the fields that a framing gives to a message.\<close>

definition framed_as :: "framing \<Rightarrow> bufio \<Rightarrow> message \<Rightarrow> bool" where
  "framed_as f r msg =
     (case f of
        Chunks \<Rightarrow>
          ms_Body msg = TheBody (new_body (ChunkedSrc (new_chunkedReader r)) True (ms_Close msg) (ms_Trailer msg)) \<and>
          ms_ContentLength msg = - 1 \<and> ms_TransferEncoding msg = [''chunked'']
      | Bytes n \<Rightarrow>
          ms_Body msg = (if n = 0 then NoBody
            else TheBody (new_body (LimitedSrc r (int n)) False (ms_Close msg) (ms_Trailer msg))) \<and>
          (\<not> (ms_isResponse msg \<and> method_of msg = ''HEAD'') \<longrightarrow> ms_ContentLength msg = int n)
      | UntilClose \<Rightarrow>
          ms_Body msg = TheBody (new_body (RawSrc r) False True (ms_Trailer msg)) \<and>
          ms_ContentLength msg = - 1 \<and> ms_Close msg)"

text \<open>No second recipient can read another framing out of the header that is left.\<close>

definition unambiguous :: "framing \<Rightarrow> multimap \<Rightarrow> bool" where
  "unambiguous f h = (map_of h ''Transfer-Encoding'' = None \<and> length (values_at h ''Content-Length'') \<le> 1 \<and>
     (f = Chunks \<longrightarrow> values_at h ''Content-Length'' = []))"

text \<open>The headers that are left are those that came, but for the ones that were read.\<close>

definition others_kept :: "multimap \<Rightarrow> multimap \<Rightarrow> bool" where
  "others_kept h h' = (\<forall>k. k \<notin> set [''Transfer-Encoding'', ''Content-Length'', ''Trailer'', ''Connection''] \<longrightarrow>
     map_of h' k = map_of h k)"

lemma unify_input_facts:
  fixes C :: "string list \<Rightarrow> string \<Rightarrow> bool"
  assumes "http11 msg"
  defines "t \<equiv> unify_input C msg"
  shows "tr_StatusCode t = status_of msg" "tr_RequestMethod t = method_of msg" "\<not> tr_Chunked t"
    "protoAtLeast t 1 1" "k \<noteq> ''Connection'' \<Longrightarrow> map_of (tr_Header t) k = map_of (ms_Header msg) k"
proof -
  have h: "map_of (snd (shouldClose C a b h x)) k = map_of h k" if "k \<noteq> ''Connection''" for a b h x k
    using that by (simp add: shouldClose_def Let_def Header_Del_values)
  show "tr_StatusCode t = status_of msg" "tr_RequestMethod t = method_of msg" "\<not> tr_Chunked t" "protoAtLeast t 1 1"
    using assms(1) unfolding t_def unify_input_def
    by (auto simp: Let_def status_of_def method_of_def protoAtLeast_def http11_def split: prod.split option.split)
  show "map_of (tr_Header t) k = map_of (ms_Header msg) k" if "k \<noteq> ''Connection''"
    using h[OF that, of "ms_ProtoMajor msg" "ms_ProtoMinor msg" "ms_Header msg" True] unfolding t_def unify_input_def
    by (auto simp: Let_def split: prod.split option.split)
qed

lemma parseTE_cases:
  assumes "protoAtLeast t 1 1" and "\<not> tr_Chunked t"
  obtains (absent) "map_of (tr_Header t) ''Transfer-Encoding'' = None" "parseTransferEncoding t = (None, t)"
  | (chunked) te h where "map_of (tr_Header t) ''Transfer-Encoding'' = Some te" "length te = 1" "EqualFold (hd te) ''chunked''"
      "parseTransferEncoding t = (None, t\<lparr>tr_Header := h, tr_Chunked := True\<rparr>)"
      "\<And>k. map_of h k = (if k = ''Transfer-Encoding'' then None else map_of (tr_Header t) k)"
  | (bad) te e t' where "map_of (tr_Header t) ''Transfer-Encoding'' = Some te" "\<not> (length te = 1 \<and> EqualFold (hd te) ''chunked'')"
      "parseTransferEncoding t = (Some e, t')"
proof (cases "map_of (tr_Header t) ''Transfer-Encoding''")
  case None
  then show ?thesis by (intro absent) (simp_all add: parseTransferEncoding_def)
next
  case (Some te)
  let ?h = "AList.delete ''Transfer-Encoding'' (tr_Header t)"
  have p: "protoAtLeast (t\<lparr>tr_Header := h\<rparr>) 1 1" for h using assms(1) by (simp add: protoAtLeast_def)
  have nth: "length te = 1 \<Longrightarrow> te ! 0 = hd te" by (cases te) auto
  consider "length te = 1 \<and> EqualFold (hd te) ''chunked''" | "length te \<noteq> 1" | "length te = 1" "\<not> EqualFold (hd te) ''chunked''"
    by blast
  then show ?thesis
  proof cases
    case 1
    then show ?thesis using Some p
      by (intro chunked[of te ?h]) (auto simp: parseTransferEncoding_def Let_def nth delete_conv)
  next
    case 2
    then show ?thesis using Some p by (intro bad[of te]) (auto simp: parseTransferEncoding_def Let_def)
  next
    case 3
    then show ?thesis using Some p by (intro bad[of te]) (auto simp: parseTransferEncoding_def Let_def nth)
  qed
qed

text \<open>The decisions after the encoding is known, \<open>ch\<close> telling whether it is chunked.\<close>

lemma readTransfer_rest:
  assumes t: "parseTransferEncoding (unify_input C msg) = (None, t)" "tr_Chunked t = ch"
      "tr_StatusCode t = status_of msg" "tr_RequestMethod t = method_of msg"
      "map_of (tr_Header t) ''Transfer-Encoding'' = None"
    and vs: "values_at (tr_Header t) ''Content-Length'' = vs" "declared_length vs = Some n"
    and ok: "ch \<Longrightarrow> list_all (\<lambda>k. \<not> bad_trailer_key (CanonicalHeaderKey k)) (trailer_names (tr_Header t))"
    and f: "f = (if bodyless (ms_isResponse msg) (method_of msg) (status_of msg) then Bytes 0
      else if ch then Chunks else if ms_isResponse msg \<and> vs = [] then UntilClose else Bytes n)"
  shows "\<exists>m. readTransfer False C msg r = (None, m) \<and> framed_as f r m \<and> unambiguous f (ms_Header m) \<and>
    others_kept (tr_Header t) (ms_Header m)"
proof -
  let ?isR = "ms_isResponse msg" and ?m = "method_of msg" and ?st = "status_of msg"
  let ?L = "real_length ?isR ?m ?st ch vs"
  obtain h where h: "fixLength False ?isR ?st ?m (tr_Header t) ch = (Inr ?L, h)"
    "\<And>k. k \<noteq> ''Content-Length'' \<Longrightarrow> map_of h k = map_of (tr_Header t) k"
    "parseContentLength False (values_at h ''Content-Length'') = Inr (if values_at h ''Content-Length'' = [] then - 1 else int n)"
    "length (values_at h ''Content-Length'') \<le> 1"
    "ch \<and> bodyAllowedForStatus ?st \<and> \<not> (?isR \<and> ?m = ''HEAD'') \<longrightarrow> values_at h ''Content-Length'' = []"
    using fixLength_good[OF vs(2)[folded vs(1)], of ?isR ?st ?m ch] unfolding vs(1) by blast
  have req: "\<not> ?isR \<Longrightarrow> bodyAllowedForStatus ?st" by (simp add: status_of_def bodyAllowedForStatus_def)
  obtain cl where cl: "(if ?isR \<and> ?m = ''HEAD'' then parseContentLength False (values_at h ''Content-Length'') else Inr ?L) = Inr cl"
    using h(3) by (cases "?isR \<and> ?m = ''HEAD''") auto
  obtain res h' where tr: "fixTrailer h ch = (res, h')" by (cases "fixTrailer h ch")
  have "trailer_names h = trailer_names (tr_Header t)" by (simp add: trailer_names_def values_at_def h(2))
  then obtain trailer where res: "res = Inr trailer" using fixTrailer_cases(1)[OF tr] ok by auto
  have h': "map_of h' ''Transfer-Encoding'' = None" "values_at h' ''Content-Length'' = values_at h ''Content-Length''"
    using fixTrailer_cases(2)[OF tr] h(2) t(5) by (simp_all add: values_at_def)
  define t3 where "t3 = t\<lparr>tr_Header := h, tr_ContentLength := cl, tr_Header := h', tr_Trailer := trailer\<rparr>"
  define t4 where "t4 = (if ?isR \<and> ?L = - 1 \<and> \<not> ch \<and> bodyAllowedForStatus ?st then t3\<lparr>tr_Close := True\<rparr> else t3)"
  define m where "m = unify_output (t4\<lparr>tr_Body := body_for ?isR t4 ?L r\<rparr>) msg"
  have "readTransfer False C msg r = (None, m)"
  proof (cases "?isR \<and> ?m = ''HEAD''")
    case True
    then have "parseContentLength False (values_at h ''Content-Length'') = Inr cl" using cl by simp
    then show ?thesis using True t h(1) tr by (auto simp: readTransfer_def Let_def m_def t4_def t3_def res)
  next
    case False
    then have "cl = ?L" using cl by auto
    then show ?thesis using False t h(1) tr by (auto simp: readTransfer_def Let_def m_def t4_def t3_def res)
  qed
  moreover have t4: "tr_Header t4 = h'" "tr_ContentLength t4 = cl" "tr_Chunked t4 = ch" "tr_RequestMethod t4 = ?m"
    "tr_StatusCode t4 = ?st" "?isR \<and> ?L = - 1 \<and> \<not> ch \<and> bodyAllowedForStatus ?st \<Longrightarrow> tr_Close t4"
    using t by (auto simp: t4_def t3_def)
  have n: "vs \<noteq> [] \<Longrightarrow> n = decimal (TrimString (hd vs))" "vs = [] \<Longrightarrow> n = 0"
    using vs(2) by (auto simp: declared_length_def Let_def split: if_splits)
  have m: "ms_isResponse m = ?isR" "method_of m = ?m" "ms_ContentLength m = cl" "ms_Header m = h'"
    "ms_Body m = body_for ?isR t4 ?L r" "ms_Close m = tr_Close t4" "ms_Trailer m = tr_Trailer t4"
    "ch \<Longrightarrow> ms_TransferEncoding m = [''chunked'']"
    using t4 by (simp_all add: m_def unify_output_def method_of_def)
  have "framed_as f r m"
  proof -
    consider (none) "bodyless ?isR ?m ?st" | (chunks) "\<not> bodyless ?isR ?m ?st" "ch"
      | (close) "\<not> bodyless ?isR ?m ?st" "\<not> ch" "?isR" "vs = []"
      | (bytes) "\<not> bodyless ?isR ?m ?st" "\<not> ch" "\<not> (?isR \<and> vs = [])" by blast
    then show ?thesis
    proof cases
      case none
      then show ?thesis using m t4 cl f
        by (auto simp: framed_as_def body_for_def real_length_def noResponseBodyExpected_def bodyless_def)
    next
      case chunks
      then show ?thesis using m t4 cl f req
        by (auto simp: framed_as_def body_for_def real_length_def noResponseBodyExpected_def bodyless_def)
    next
      case close
      then show ?thesis using m t4 cl f
        by (auto simp: framed_as_def body_for_def real_length_def bodyless_def)
    next
      case bytes
      then have "?L = int n" using n req by (auto simp: real_length_def bodyless_def)
      then show ?thesis using bytes m t4 cl f by (auto simp: framed_as_def body_for_def bodyless_def)
    qed
  qed
  moreover have "unambiguous f (ms_Header m)"
    using m(4) h' h(4,5) f req by (auto simp: unambiguous_def bodyless_def)
  moreover have "others_kept (tr_Header t) (ms_Header m)"
    using m(4) fixTrailer_cases(2)[OF tr] h(2) by (auto simp: others_kept_def)
  ultimately show ?thesis by blast
qed

lemma readTransfer_framing:
  assumes "http11 msg"
  shows "case framing_of (ms_isResponse msg) (method_of msg) (status_of msg) (ms_Header msg) of
      None \<Rightarrow> \<exists>e m. readTransfer False C msg r = (Some e, m)
    | Some f \<Rightarrow> \<exists>m. readTransfer False C msg r = (None, m) \<and> framed_as f r m \<and> unambiguous f (ms_Header m) \<and>
        others_kept (ms_Header msg) (ms_Header m)"
proof -
  let ?t = "unify_input C msg" and ?vs = "values_at (ms_Header msg) ''Content-Length''"
  note facts = unify_input_facts[OF assms, where C = C]
  have vals: "values_at (tr_Header ?t) k = values_at (ms_Header msg) k" if "k \<noteq> ''Connection''" for k
    using facts(5)[OF that] by (simp add: values_at_def)
  have len_bad: "\<exists>e m. readTransfer False C msg r = (Some e, m)"
    if "parseTransferEncoding ?t = (None, t)" "values_at (tr_Header t) ''Content-Length'' = ?vs"
      "declared_length ?vs = None" for t
    using fixLength_bad[of "tr_Header t" "ms_isResponse msg" "tr_StatusCode t" "tr_RequestMethod t" "tr_Chunked t"] that
    by (auto simp: readTransfer_def)
  from facts(4,3) show ?thesis
  proof (cases rule: parseTE_cases)
    case absent
    have te: "map_of (ms_Header msg) ''Transfer-Encoding'' = None" using absent(1) facts(5)[of "''Transfer-Encoding''"] by simp
    show ?thesis
    proof (cases "declared_length ?vs")
      case None
      then show ?thesis using len_bad[OF absent(2)] vals by (simp add: framing_of_def)
    next
      case (Some n)
      define f where "f = (if bodyless (ms_isResponse msg) (method_of msg) (status_of msg) then Bytes 0
        else if False then Chunks else if ms_isResponse msg \<and> ?vs = [] then UntilClose else Bytes n)"
      have "\<exists>m. readTransfer False C msg r = (None, m) \<and> framed_as f r m \<and> unambiguous f (ms_Header m) \<and>
          others_kept (tr_Header ?t) (ms_Header m)"
        by (rule readTransfer_rest[OF absent(2) _ facts(1,2) absent(1) vals Some _ f_def]) (use facts(3) in simp_all)
      moreover have "framing_of (ms_isResponse msg) (method_of msg) (status_of msg) (ms_Header msg) = Some f"
        using Some te by (simp add: framing_of_def f_def)
      ultimately show ?thesis using facts(5) by (auto simp: others_kept_def)
    qed
  next
    case (chunked te h)
    have te: "map_of (ms_Header msg) ''Transfer-Encoding'' = Some te" using chunked(1) facts(5)[of "''Transfer-Encoding''"] by simp
    have h: "values_at h k = values_at (ms_Header msg) k" if "k \<noteq> ''Connection''" "k \<noteq> ''Transfer-Encoding''" for k
      using chunked(5) vals[OF that(1)] that(2) by (simp add: values_at_def)
    have names: "trailer_names h = trailer_names (ms_Header msg)" by (simp add: trailer_names_def h)
    show ?thesis
    proof (cases "declared_length ?vs")
      case None
      then show ?thesis using len_bad[OF chunked(4)] h by (simp add: framing_of_def)
    next
      case (Some n)
      show ?thesis
      proof (cases "list_all (\<lambda>k. \<not> bad_trailer_key (CanonicalHeaderKey k)) (trailer_names (ms_Header msg))")
        case True
        define f where "f = (if bodyless (ms_isResponse msg) (method_of msg) (status_of msg) then Bytes 0
          else if True then Chunks else if ms_isResponse msg \<and> ?vs = [] then UntilClose else Bytes n)"
        have "\<exists>m. readTransfer False C msg r = (None, m) \<and> framed_as f r m \<and> unambiguous f (ms_Header m) \<and>
            others_kept (tr_Header (?t\<lparr>tr_Header := h, tr_Chunked := True\<rparr>)) (ms_Header m)"
          by (rule readTransfer_rest[OF chunked(4) _ _ _ _ _ Some _ f_def]) (use facts(1,2) chunked(5) h names True in simp_all)
        moreover have "framing_of (ms_isResponse msg) (method_of msg) (status_of msg) (ms_Header msg) = Some f"
          using Some te chunked(2,3) True by (simp add: framing_of_def f_def)
        ultimately show ?thesis using facts(5) chunked(5) by (auto simp: others_kept_def)
      next
        case False
        let ?t' = "?t\<lparr>tr_Header := h, tr_Chunked := True\<rparr>"
        obtain h1 where h1: "fixLength False (ms_isResponse msg) (status_of msg) (method_of msg) h True =
            (Inr (real_length (ms_isResponse msg) (method_of msg) (status_of msg) True ?vs), h1)"
          "\<And>k. k \<noteq> ''Content-Length'' \<Longrightarrow> map_of h1 k = map_of h k"
          "parseContentLength False (values_at h1 ''Content-Length'') = Inr (if values_at h1 ''Content-Length'' = [] then - 1 else int n)"
          using fixLength_good[of h n "ms_isResponse msg" "status_of msg" "method_of msg" True] Some h by auto
        obtain res h' where tr: "fixTrailer h1 True = (res, h')" by (cases "fixTrailer h1 True")
        have "trailer_names h1 = trailer_names (ms_Header msg)"
          using h1(2) names by (simp add: trailer_names_def values_at_def)
        then obtain e where "res = Inl e" using fixTrailer_cases(1)[OF tr] False by (cases res) auto
        then have "\<exists>e m. readTransfer False C msg r = (Some e, m)"
          using chunked(4) h1(1,3) tr facts(1,2) by (auto simp: readTransfer_def Let_def)
        then show ?thesis using False Some te by (simp add: framing_of_def)
      qed
    qed
  next
    case (bad te e t')
    have te: "map_of (ms_Header msg) ''Transfer-Encoding'' = Some te" using bad(1) facts(5)[of "''Transfer-Encoding''"] by simp
    then have "framing_of (ms_isResponse msg) (method_of msg) (status_of msg) (ms_Header msg) = None"
      using bad(2) by (auto simp: framing_of_def split: option.split)
    then show ?thesis using bad(3) by (auto simp: readTransfer_def)
  qed
qed

section \<open>Properties\<close>

text \<open>C3: readTransfer accepts an HTTP/1.1 message exactly when its header fixes one framing, by the rules of
  RFC 9112, section 6.3: differing or malformed lengths, more than one encoding or another one than chunked, and
  forbidden trailers are errors; chunked overrides a length; a response to HEAD, 1xx, 204 and 304 has no body.  The
  body then has this framing, the header that is left cannot be read differently by the next recipient, and the
  other headers are kept.\<close>

theorem framing_exact:
  assumes "http11 msg"
  shows "case framing_of (ms_isResponse msg) (method_of msg) (status_of msg) (ms_Header msg) of
      None \<Rightarrow> \<exists>e m. readTransfer False C msg r = (Some e, m)
    | Some f \<Rightarrow> \<exists>m. readTransfer False C msg r = (None, m) \<and> framed_as f r m \<and> unambiguous f (ms_Header m) \<and>
        others_kept (ms_Header msg) (ms_Header m)"
  by (rule readTransfer_framing[OF assms])

lemma framing_exact_witness:
  "\<exists>m. readTransfer False (\<lambda>_ _. False)
      \<lparr>ms_isResponse = False, ms_Method = Some ''POST'', ms_StatusCode = 0, ms_ProtoMajor = 1, ms_ProtoMinor = 1,
       ms_Header = [(''Content-Length'', [''5'', '' 5'']), (''Transfer-Encoding'', [''Chunked''])], ms_Body = NilBody,
       ms_ContentLength = 0, ms_TransferEncoding = [], ms_Close = False, ms_Trailer = None\<rparr> \<lparr>bf_buf = [], bf_src = []\<rparr> = (None, m) \<and>
    framed_as Chunks \<lparr>bf_buf = [], bf_src = []\<rparr> m \<and> unambiguous Chunks (ms_Header m)"
proof -
  let ?msg = "\<lparr>ms_isResponse = False, ms_Method = Some ''POST'', ms_StatusCode = 0, ms_ProtoMajor = 1, ms_ProtoMinor = 1,
       ms_Header = [(''Content-Length'', [''5'', '' 5'']), (''Transfer-Encoding'', [''Chunked''])], ms_Body = NilBody,
       ms_ContentLength = 0, ms_TransferEncoding = [], ms_Close = False, ms_Trailer = None\<rparr>"
  have t: "TrimString ''5'' = ''5''" "TrimString '' 5'' = ''5''" "list_all digit ''5''" "decimal ''5'' = 5"
    "EqualFold ''Chunked'' ''chunked''" by code_simp+
  have "framing_of (ms_isResponse ?msg) (method_of ?msg) (status_of ?msg) (ms_Header ?msg) = Some Chunks"
    using t by (simp add: framing_of_def declared_length_def values_at_def trailer_names_def bodyless_def)
  then show ?thesis using framing_exact[of ?msg "\<lambda>_ _. False" "\<lparr>bf_buf = [], bf_src = []\<rparr>"] by (auto simp: http11_def)
qed

end
