(* ===== verification/Transfer_Write_Correct.thy ===== *)
theory Transfer_Write_Correct
  imports Transfer_Write Framing_Correct
begin

text \<open>
  Correctness of the writer of bodies: every byte of the body is written once and in order, within the
  declared length; the body is closed once on every path; and what was written is read back.
\<close>

section \<open>Copying\<close>

abbreviation wb_data :: "wbody \<Rightarrow> string" where
  "wb_data b \<equiv> concat (wb_pieces b)"

lemma wb_Read_spec:
  assumes "wb_Read k b = (d, e, b')"
  shows "d = take (length d) (wb_data b)" "wb_data b = d @ wb_data b'" "length d \<le> k" "wb_end b' = wb_end b"
    "wb_closeErr b' = wb_closeErr b" "wb_eager b' = wb_eager b" "e \<noteq> None \<Longrightarrow> e = Some (wb_end b) \<and> wb_pieces b' = []"
proof -
  show "wb_data b = d @ wb_data b'" "length d \<le> k" "wb_end b' = wb_end b" "wb_closeErr b' = wb_closeErr b"
    "wb_eager b' = wb_eager b" "e \<noteq> None \<Longrightarrow> e = Some (wb_end b) \<and> wb_pieces b' = []"
    using assms by (auto simp: wb_Read_def split: list.splits if_splits)
  then show "d = take (length d) (wb_data b)" by simp
qed

text \<open>A wire that takes every byte, and what it becomes.\<close>

definition faithful :: "'w wire \<Rightarrow> (string \<Rightarrow> 'w \<Rightarrow> 'w) \<Rightarrow> bool" where
  "faithful wr app = (\<forall>d w. d \<noteq> [] \<longrightarrow> wr d w = (app d w, length d, None))"

definition limit_data :: "nat option \<Rightarrow> string \<Rightarrow> string" where
  "limit_data lim s = (case lim of None \<Rightarrow> s | Some n \<Rightarrow> take n s)"

definition end_error :: "wbody \<Rightarrow> io_error option" where
  "end_error b = (if wb_end b = EOF then None else Some (wb_end b))"

definition pieces_of :: "string list \<Rightarrow> string \<Rightarrow> bool" where
  "pieces_of ds s = (concat ds = s \<and> (\<forall>d\<in>set ds. d \<noteq> []))"

lemma pieces_of_Cons: "pieces_of ds s \<Longrightarrow> d \<noteq> [] \<Longrightarrow> pieces_of (d # ds) (d @ s)"
  by (simp add: pieces_of_def)

lemma limited_wb_Read_spec:
  assumes "limited_wb_Read lim b = (d, e, lim', b')"
  shows "limit_data lim (wb_data b) = d @ limit_data lim' (wb_data b')"
    "wb_data b = d @ wb_data b'" "wb_end b' = wb_end b" "wb_closeErr b' = wb_closeErr b" "lim' = None \<longleftrightarrow> lim = None"
    "e \<noteq> None \<Longrightarrow> limit_data lim' (wb_data b') = []"
    "e \<noteq> None \<Longrightarrow> e = Some (if lim = Some 0 then EOF else wb_end b)"
proof -
  show "limit_data lim (wb_data b) = d @ limit_data lim' (wb_data b')"
    "wb_data b = d @ wb_data b'" "wb_end b' = wb_end b" "wb_closeErr b' = wb_closeErr b" "lim' = None \<longleftrightarrow> lim = None"
    using assms wb_Read_spec(2-6)
    by (cases lim; fastforce simp: limit_data_def split: if_splits prod.splits)+
  show "e \<noteq> None \<Longrightarrow> limit_data lim' (wb_data b') = []" "e \<noteq> None \<Longrightarrow> e = Some (if lim = Some 0 then EOF else wb_end b)"
    using assms wb_Read_spec(7)
    by (cases lim; fastforce simp: limit_data_def split: if_splits prod.splits)+
qed

lemma copy_loop_faithful:
  assumes "faithful wr app" and "lim = None \<or> wb_end b = EOF"
  shows "\<exists>ds b'. copy_loop wr lim b cnt w =
      (fold app ds w, cnt + length (concat ds), end_error b, b') \<and>
    pieces_of ds (limit_data lim (wb_data b)) \<and> wb_data b = concat ds @ wb_data b' \<and> wb_end b' = wb_end b"
  using assms
proof (induction wr lim b cnt w rule: copy_loop.induct)
  case (1 wr lim b cnt w)
  obtain d e lim' b' where rd: "limited_wb_Read lim b = (d, e, lim', b')" by (metis surj_pair)
  note spec = limited_wb_Read_spec[OF rd]
  have sent: "(if d = [] then (w, 0, None) else wr d w) = (if d = [] then w else app d w, length d, None)"
    using 1(2) by (simp add: faithful_def)
  show ?case
  proof (cases e)
    case (Some err)
    then have err: "(if err = EOF then None else Some err) = end_error b"
      using spec(7) 1(3) by (auto simp: end_error_def)
    have "copy_loop wr lim b cnt w = (fold app (if d = [] then [] else [d]) w, cnt + length d, end_error b, b')"
      using rd sent Some err by (simp add: copy_loop.simps[of wr lim])
    moreover have "pieces_of (if d = [] then [] else [d]) (limit_data lim (wb_data b))"
      using spec(1) spec(6) Some by (simp add: pieces_of_def)
    ultimately show ?thesis using spec(2,3) by (intro exI[of _ "if d = [] then [] else [d]"] exI[of _ b']) auto
  next
    case None
    have lim': "lim' = None \<or> wb_end b' = EOF" using 1(3) spec(3,5) by auto
    have "\<exists>ds b''. copy_loop wr lim' b' (cnt + length d) (if d = [] then w else app d w) =
        (fold app ds (if d = [] then w else app d w), cnt + length d + length (concat ds), end_error b', b'') \<and>
      pieces_of ds (limit_data lim' (wb_data b')) \<and> wb_data b' = concat ds @ wb_data b'' \<and> wb_end b'' = wb_end b'"
      by (rule 1(1)[OF rd[symmetric] refl refl sent[symmetric] refl refl _ None 1(2) lim']) simp
    then obtain ds b'' where IH: "copy_loop wr lim' b' (cnt + length d) (if d = [] then w else app d w) =
        (fold app ds (if d = [] then w else app d w), cnt + length d + length (concat ds), end_error b', b'')"
      "pieces_of ds (limit_data lim' (wb_data b'))" "wb_data b' = concat ds @ wb_data b''" "wb_end b'' = wb_end b'" by blast
    let ?ds = "if d = [] then ds else d # ds"
    have "copy_loop wr lim b cnt w = copy_loop wr lim' b' (cnt + length d) (if d = [] then w else app d w)"
      using rd sent None by (simp add: copy_loop.simps[of wr lim])
    also have "\<dots> = (fold app ?ds w, cnt + length (concat ?ds), end_error b, b'')"
      using IH(1) spec(3) by (simp add: end_error_def)
    finally show ?thesis
      using IH(2-4) spec(1-3) pieces_of_Cons[OF IH(2), of d]
      by (intro exI[of _ ?ds] exI[of _ b'']) auto
  qed
qed

lemma faithful_discard: "faithful discard_wire (\<lambda>_ w. w)"
  by (simp add: faithful_def discard_wire_def)

lemma faithful_buffer: "faithful buffer_wire (\<lambda>d w. w @ d)"
  by (simp add: faithful_def buffer_wire_def)

lemma faithful_chunked: "faithful (chunked_Write buffer_wire None) (\<lambda>d w. w @ enc_chunk d)"
  by (simp add: faithful_def chunked_Write_buffer)

lemma fold_app: "fold (\<lambda>d w. w @ f d) ds w = w @ concat (map f ds)"
  by (induction ds arbitrary: w) auto

lemma doBodyCopy_faithful:
  assumes "faithful wr app" and "lim = None \<or> wb_end b = EOF" and "wb_inMemory b \<longrightarrow> wb_end b = EOF"
  shows "\<exists>ds b'. doBodyCopy wr lim t b w = (fold app ds w, length (concat ds), end_error b, b',
      if end_error b = None then t else t\<lparr>tw_bodyReadError := end_error b\<rparr>) \<and>
    pieces_of ds (limit_data lim (wb_data b)) \<and> wb_data b = concat ds @ wb_data b' \<and> wb_end b' = wb_end b"
proof (cases "lim = None \<and> wb_inMemory b")
  case True
  let ?d = "wb_data b"
  have "copy_whole wr b w = (fold app (if ?d = [] then [] else [?d]) w, length ?d, None, b\<lparr>wb_pieces := []\<rparr>)"
    using assms(1) by (auto simp: copy_whole_def Let_def faithful_def)
  then show ?thesis
    using True assms(3)
    by (intro exI[of _ "if ?d = [] then [] else [?d]"] exI[of _ "b\<lparr>wb_pieces := []\<rparr>"])
      (auto simp: doBodyCopy_def end_error_def pieces_of_def limit_data_def)
next
  case False
  have e: "end_error b \<noteq> Some EOF" by (simp add: end_error_def)
  obtain ds b' where "copy_loop wr lim b 0 w = (fold app ds w, 0 + length (concat ds), end_error b, b')"
    "pieces_of ds (limit_data lim (wb_data b))" "wb_data b = concat ds @ wb_data b'" "wb_end b' = wb_end b"
    using copy_loop_faithful[OF assms(1,2), of 0 w] by blast
  then show ?thesis using False e by (intro exI[of _ ds] exI[of _ b']) (auto simp: doBodyCopy_def)
qed

lemma doBodyCopy_ends:
  assumes "faithful wr app" and "wb_end b = EOF"
  obtains ds b' where "doBodyCopy wr lim t b w = (fold app ds w, length (concat ds), None, b', t)"
    "concat ds = limit_data lim (wb_data b)" "\<forall>d\<in>set ds. d \<noteq> []" "wb_data b = concat ds @ wb_data b'" "wb_end b' = EOF"
proof -
  have e: "end_error b = None" using assms(2) by (simp add: end_error_def)
  have "\<exists>ds b'. doBodyCopy wr lim t b w = (fold app ds w, length (concat ds), None, b', t) \<and>
      pieces_of ds (limit_data lim (wb_data b)) \<and> wb_data b = concat ds @ wb_data b' \<and> wb_end b' = wb_end b"
    using doBodyCopy_faithful[OF assms(1), of lim b t w] assms(2) unfolding e if_P[OF refl] by simp
  then show thesis unfolding pieces_of_def assms(2) by (elim exE conjE) (rule that; assumption)
qed

section \<open>The bytes that are written\<close>

text \<open>A body that ends without an error, as the type of a body in memory does.\<close>

definition body_ends :: "transferWriter \<Rightarrow> bool" where
  "body_ends t = (case tw_Body t of None \<Rightarrow> True | Some b \<Rightarrow> wb_end b = EOF)"

definition body_data :: "transferWriter \<Rightarrow> string" where
  "body_data t = (case tw_Body t of None \<Rightarrow> [] | Some b \<Rightarrow> wb_data b)"

definition trailer_text :: "transferWriter \<Rightarrow> string" where
  "trailer_text t = (case tw_Trailer t of None \<Rightarrow> [] | Some tr \<Rightarrow> fst (Header_Write buffer_wire tr []))"

lemma send_body_chunked:
  assumes "te_chunked (tw_TransferEncoding t)" and "tw_Body t = Some b" and "wb_end b = EOF"
  shows "\<exists>ds b'. send_body buffer_wire None t w = (w @ enc_chunks ds @ last_chunk, 0, None, t\<lparr>tw_Body := Some b'\<rparr>) \<and>
    pieces_of ds (wb_data b)"
proof -
  obtain ds b' where c: "doBodyCopy (chunked_Write buffer_wire None) None t b w =
      (fold (\<lambda>d w. w @ enc_chunk d) ds w, length (concat ds), None, b', t)"
    "concat ds = limit_data None (wb_data b)" "\<forall>d\<in>set ds. d \<noteq> []"
    by (rule doBodyCopy_ends[OF faithful_chunked assms(3)])
  have "send_body buffer_wire None t w = (w @ enc_chunks ds @ last_chunk, 0, None, t\<lparr>tw_Body := Some b'\<rparr>)"
    using assms(1,2) c(1) by (simp add: send_body_def chunked_Close_def buffer_wire_def[of _ "_ :: string"] last_chunk_def fold_app enc_chunks_def)
  moreover have "pieces_of ds (wb_data b)" using c(2,3) by (simp add: pieces_of_def limit_data_def)
  ultimately show ?thesis by blast
qed

lemma send_body_length:
  assumes "\<not> te_chunked (tw_TransferEncoding t)" and "tw_Body t = Some b" and "wb_end b = EOF"
    and "tw_ContentLength t = int n"
  shows "\<exists>b'. send_body buffer_wire flush t w = (w @ take n (wb_data b), length (wb_data b), None, t\<lparr>tw_Body := Some b'\<rparr>)"
proof -
  obtain ds b1 where c1: "doBodyCopy buffer_wire (Some n) t b w = (fold (\<lambda>d w. w @ d) ds w, length (concat ds), None, b1, t)"
    "concat ds = limit_data (Some n) (wb_data b)" "\<forall>d\<in>set ds. d \<noteq> []" "wb_data b = concat ds @ wb_data b1" "wb_end b1 = EOF"
    by (rule doBodyCopy_ends[OF faithful_buffer assms(3)])
  obtain es b2 where c2: "doBodyCopy discard_wire None t b1 () = (fold (\<lambda>_ w. w) es (), length (concat es), None, b2, t)"
    "concat es = limit_data None (wb_data b1)" "\<forall>d\<in>set es. d \<noteq> []" "wb_data b1 = concat es @ wb_data b2" "wb_end b2 = EOF"
    by (rule doBodyCopy_ends[OF faithful_discard c1(5)])
  have "length (concat ds) + length (concat es) = length (wb_data b)"
    using c1(4) c2(2) unfolding limit_data_def option.case by (metis length_append)
  then have "send_body buffer_wire flush t w = (w @ concat ds, length (wb_data b), None, t\<lparr>tw_Body := Some b2\<rparr>)"
    using assms c1(1) c2(1) fold_app[of "\<lambda>d. d" ds w] by (simp add: send_body_def)
  then show ?thesis using c1(2) by (intro exI[of _ b2]) (simp add: limit_data_def)
qed

lemma doBodyCopy_fields:
  assumes "doBodyCopy wr lim t b w = (w', n, e, b', t')"
  shows "tw_closes t' = tw_closes t \<and> tw_BodyCloser t' = tw_BodyCloser t"
  using assms by (auto simp: doBodyCopy_def split: prod.splits if_splits)

lemma send_body_fields:
  assumes "send_body wr flush t w = (w', n, e, t')"
  shows "tw_closes t' = tw_closes t \<and> tw_BodyCloser t' = tw_BodyCloser t"
  using assms unfolding send_body_def
  by (auto split: option.splits if_splits prod.splits dest!: doBodyCopy_fields)

lemma writeBody_closes:
  assumes "tw_writeBody wr flush t w = (w', e, t')"
  shows "tw_closes t' = (if tw_BodyCloser t = None then tw_closes t else Suc (tw_closes t))"
proof -
  obtain w1 n e1 t1 where s: "send_body wr flush t w = (w1, n, e1, t1)" by (metis surj_pair)
  have c: "tw_closes (snd (close_body t1)) = (if tw_BodyCloser t = None then tw_closes t else Suc (tw_closes t))"
    using send_body_fields[OF s] by (simp add: close_body_def split: option.split)
  have "t' = snd (close_body t1)"
    using assms s by (auto simp: tw_writeBody_def split: option.splits prod.splits)
  then show ?thesis using c by simp
qed

lemma trailer_written:
  "(case tw_Trailer t of None \<Rightarrow> (w, None)
      | Some tr \<Rightarrow> (case Header_Write buffer_wire tr w of (w1, e) \<Rightarrow> (w1, map_option SendIo e))) = (w @ trailer_text t, None)"
  by (cases "tw_Trailer t") (simp_all add: trailer_text_def Header_Write_buffer)

lemma writeBody_chunked:
  assumes "te_chunked (tw_TransferEncoding t)" and "tw_Body t = Some b" and "wb_end b = EOF"
    and "tw_BodyCloser t = Some None" and "tw_ContentLength t = - 1"
  shows "\<exists>ds t'. tw_writeBody buffer_wire None t w = (w @ enc_chunks ds @ last_chunk @ trailer_text t @ crlf, None, t') \<and>
    pieces_of ds (wb_data b)"
proof -
  obtain ds b' where s: "send_body buffer_wire None t w = (w @ enc_chunks ds @ last_chunk, 0, None, t\<lparr>tw_Body := Some b'\<rparr>)"
    "pieces_of ds (wb_data b)"
    using send_body_chunked[OF assms(1-3)] by blast
  let ?t = "t\<lparr>tw_Body := Some b', tw_closes := Suc (tw_closes t)\<rparr>"
  have tr: "trailer_text ?t = trailer_text t" by (simp add: trailer_text_def)
  have "finish_body buffer_wire ?t 0 v = (v @ trailer_text t @ crlf, None)" for v
    using assms(1,5) trailer_written[where t = ?t and w = v] tr
    by (simp add: finish_body_def and_send_def buffer_wire_def)
  then show ?thesis
    using s assms(4) by (intro exI[of _ ds] exI[of _ ?t]) (simp add: tw_writeBody_def close_body_def)
qed

lemma writeBody_length:
  assumes "\<not> te_chunked (tw_TransferEncoding t)" and "tw_Body t = Some b" and "wb_end b = EOF"
    and "tw_BodyCloser t = Some None" and "tw_ContentLength t = int n" and "\<not> tw_ResponseToHEAD t"
  shows "\<exists>t'. tw_writeBody buffer_wire flush t w =
    (w @ take n (wb_data b), if length (wb_data b) = n then None else Some (BodyLength (int n) (length (wb_data b))), t')"
proof -
  obtain b' where s: "send_body buffer_wire flush t w = (w @ take n (wb_data b), length (wb_data b), None, t\<lparr>tw_Body := Some b'\<rparr>)"
    using send_body_length[OF assms(1-3,5)] by blast
  let ?t = "t\<lparr>tw_Body := Some b', tw_closes := Suc (tw_closes t)\<rparr>"
  have "finish_body buffer_wire ?t (length (wb_data b)) v =
      (v, if length (wb_data b) = n then None else Some (BodyLength (int n) (length (wb_data b))))" for v
    using assms(1,5,6) by (auto simp: finish_body_def)
  then show ?thesis
    using s assms(4) by (intro exI[of _ ?t]) (simp add: tw_writeBody_def close_body_def)
qed

section \<open>What is written is read back\<close>

text \<open>All reads of the body of a message that was read from \<open>r\<close>; a message without a body leaves \<open>r\<close> as it is.\<close>

definition val_reads :: "body body_val \<Rightarrow> bufio \<Rightarrow> nat list \<Rightarrow> string \<times> body_error option \<times> bufio" where
  "val_reads v r ks =
     (case v of
        TheBody b \<Rightarrow> (case body_reads b ks of (d, e, b') \<Rightarrow> (d, e, src_reader (b_src b')))
      | _ \<Rightarrow> ([], Some (BodyIo EOF), r))"

definition framing_written :: "transferWriter \<Rightarrow> framing" where
  "framing_written t = (if te_chunked (tw_TransferEncoding t) then Chunks else Bytes (nat (tw_ContentLength t)))"

definition trailer_ok :: "transferWriter \<Rightarrow> bool" where
  "trailer_ok t = (header_ok (case tw_Trailer t of None \<Rightarrow> [] | Some tr \<Rightarrow> tr) \<and> length (trailer_text t) + 2 \<le> bufio_size)"

lemma trailer_text_write:
  "trailer_text t = fst (Header_Write buffer_wire (case tw_Trailer t of None \<Rightarrow> [] | Some tr \<Rightarrow> tr) [])"
  by (cases "tw_Trailer t") (simp_all add: trailer_text_def Header_Write_buffer header_entries_def)

lemma read_chunked_body:
  assumes "te_chunked (tw_TransferEncoding t)" and "pieces_of ds data" and "length data < 2 ^ 61" and "trailer_ok t"
    and "framed_as Chunks r m" and "bufio_ok r"
    and "stream r = enc_chunks ds @ last_chunk @ trailer_text t @ crlf @ rest"
    and "\<forall>k\<in>set ks. 0 < k" and "length data < length ks"
  shows "\<exists>r'. val_reads (ms_Body m) r ks = (data, Some (BodyIo EOF), r') \<and> stream r' = rest"
proof -
  let ?b = "new_body (ChunkedSrc (new_chunkedReader r)) True (ms_Close m) (ms_Trailer m)"
  let ?tr = "case tw_Trailer t of None \<Rightarrow> [] | Some tr \<Rightarrow> tr"
  have data: "concat ds = data" "\<forall>d\<in>set ds. d \<noteq> []" using assms(2) by (simp_all add: pieces_of_def)
  have "length d \<le> length (concat ds)" if "d \<in> set ds" for d
    using that by (induction ds) auto
  then have len: "\<forall>d\<in>set ds. length d < 2 ^ 61" using data(1) assms(3) le_less_trans by blast
  have w: "write_all ds [] = enc_chunks ds @ last_chunk" using data(2) by (simp add: write_all_enc filter_id_conv)
  have st: "stream r = write_all ds [] @ fst (Header_Write buffer_wire ?tr []) @ crlf @ rest"
    using assms(7) w by (simp add: trailer_text_write)
  have b: "fresh ?b" "b_hdr ?b" "b_src ?b = ChunkedSrc (new_chunkedReader r)"
    by (simp_all add: fresh_def new_body_def)
  have tr: "header_ok ?tr" "length (fst (Header_Write buffer_wire ?tr [])) + 2 \<le> bufio_size"
    using assms(4) by (simp_all add: trailer_ok_def trailer_text_write)
  have "\<exists>b'. body_reads ?b ks = (concat ds, Some (BodyIo EOF), b') \<and> stream (src_reader (b_src b')) = rest"
    using chunked_body_reads[OF b assms(6) len st tr assms(8)] assms(9) data(1) by blast
  then show ?thesis using assms(5) data(1) by (auto simp: framed_as_def val_reads_def)
qed

lemma read_length_body:
  assumes "framed_as (Bytes (length data)) r m" and "bufio_ok r" and "stream r = data @ rest"
    and "\<forall>k\<in>set ks. 0 < k" and "length data < length ks"
  shows "\<exists>r'. val_reads (ms_Body m) r ks = (data, Some (BodyIo EOF), r') \<and> stream r' = rest"
proof (cases "data = []")
  case True
  then show ?thesis using assms(1,3) by (simp add: framed_as_def val_reads_def)
next
  case False
  let ?b = "new_body (LimitedSrc r (int (length data))) False (ms_Close m) (ms_Trailer m)"
  have b: "fresh ?b" "\<not> b_hdr ?b" "b_src ?b = LimitedSrc r (int (length data))"
    by (simp_all add: fresh_def new_body_def)
  have "min (length data) (length (stream r)) < length ks" using assms(5) by simp
  from limited_reads[OF b assms(2,4) this] obtain b' r' where
    "body_reads ?b ks = (data, Some (BodyIo EOF), b')" "b_src b' = LimitedSrc r' (int (length data) - int (length data))"
    "stream r' = rest"
    using assms(3) by auto
  then show ?thesis using assms(1) False by (auto simp: framed_as_def val_reads_def)
qed

end
