(* ===== verification/Request_Correct.thy ===== *)
theory Request_Correct
  imports Http_Request Transfer_Write_Correct
begin

text \<open>
  A request that Write puts on the wire is read back by ReadRequest: the method, the target, the host, every
  header in its order, the framing, and the body with its trailer, while what follows on the connection is
  untouched.
\<close>

section \<open>The header lines of the framing\<close>

lemma write_strings_buffer: "write_strings buffer_wire ss w = (w @ concat ss, None)"
  by (induction ss arbitrary: w) (simp_all add: buffer_wire_def)

lemma send_all_buffer: "send_all buffer_wire ss w = (w @ concat ss, None)"
  by (simp add: write_strings_buffer)

declare send_all.simps [simp del]

definition trailer_map :: "transferWriter \<Rightarrow> multimap" where
  "trailer_map t = (case tw_Trailer t of None \<Rightarrow> [] | Some tr \<Rightarrow> tr)"

definition trailers_allowed :: "multimap \<Rightarrow> bool" where
  "trailers_allowed tr = (header_ok tr \<and> list_all (\<lambda>k. \<not> bad_trailer_key k) (keys_of tr))"

definition framing_entries :: "transferWriter \<Rightarrow> (string \<times> string) list" where
  "framing_entries t =
     (if tw_Close t \<and> \<not> hasToken (header_get ''Connection'' (tw_Header t)) ''close'' then [(''Connection'', ''close'')] else []) @
     (if shouldSendContentLength t then [(''Content-Length'', Itoa (tw_ContentLength t))]
      else if te_chunked (tw_TransferEncoding t) then [(''Transfer-Encoding'', ''chunked'')] else []) @
     (if trailer_map t = [] then [] else [(''Trailer'', join_with '','' (sort (keys_of (trailer_map t))))])"

lemma header_ok_keys: "header_ok tr \<Longrightarrow> k \<in> set (keys_of tr) \<Longrightarrow> k \<noteq> [] \<and> token k \<and> CanonicalHeaderKey k = k"
  by (auto simp: header_ok_def CanonicalHeaderKey_def)

lemma trailer_keys_ok:
  assumes "\<forall>k\<in>set ks. CanonicalHeaderKey k = k \<and> \<not> bad_trailer_key k"
  shows "trailer_keys ks = Inr ks"
  using assms by (induction ks) (auto simp: Let_def)

lemma writeHeader_entries:
  assumes "trailers_allowed (trailer_map t)"
  shows "tw_writeHeader buffer_wire t w = (w @ concat (map entry_text (framing_entries t)), None)"
proof -
  let ?c = "if tw_Close t \<and> \<not> hasToken (header_get ''Connection'' (tw_Header t)) ''close'' then [(''Connection'', ''close'')] else []"
  let ?l = "if shouldSendContentLength t then [(''Content-Length'', Itoa (tw_ContentLength t))]
      else if te_chunked (tw_TransferEncoding t) then [(''Transfer-Encoding'', ''chunked'')] else []"
  let ?t = "if trailer_map t = [] then [] else [(''Trailer'', join_with '','' (sort (keys_of (trailer_map t))))]"
  have c: "(if tw_Close t \<and> \<not> hasToken (header_get ''Connection'' (tw_Header t)) ''close''
      then send_all buffer_wire [''Connection: close'' @ crlf] w else (w, None)) = (w @ concat (map entry_text ?c), None)" for w
    by (simp add: send_all_buffer entry_text_def)
  have l: "(if shouldSendContentLength t then send_all buffer_wire [''Content-Length: '', Itoa (tw_ContentLength t) @ crlf] w
      else if te_chunked (tw_TransferEncoding t) then send_all buffer_wire [''Transfer-Encoding: chunked'' @ crlf] w
      else (w, None)) = (w @ concat (map entry_text ?l), None)" for w
    by (simp add: send_all_buffer entry_text_def)
  have keys: "trailer_keys (keys_of tr) = Inr (keys_of tr)" if "tw_Trailer t = Some tr" for tr
    using assms that header_ok_keys
    by (intro trailer_keys_ok) (auto simp: trailers_allowed_def trailer_map_def list_all_iff)
  have tr: "(case tw_Trailer t of None \<Rightarrow> (w, None)
      | Some tr \<Rightarrow> (case trailer_keys (keys_of tr) of
            Inl e \<Rightarrow> (w, Some e)
          | Inr keys \<Rightarrow> if 0 < length keys then send_all buffer_wire [''Trailer: '' @ join_with '','' (sort keys) @ crlf] w
              else (w, None))) = (w @ concat (map entry_text ?t), None)" for w
    by (cases "tw_Trailer t") (auto simp: trailer_map_def keys send_all_buffer entry_text_def)
  show ?thesis
    unfolding tw_writeHeader_def and_send_def c l tr prod.case option.case framing_entries_def by simp
qed

lemma join_with_sep: "join_with '','' ks = join_with [CHR '',''] ks" by simp

lemma foreach_join:
  assumes "ks \<noteq> []" and "\<forall>k\<in>set ks. k \<noteq> [] \<and> token k"
  shows "foreachHeaderElement (join_with '','' ks) = ks"
proof -
  have tok: "list_all (\<lambda>c. c \<noteq> CHR '','' \<and> \<not> isASCIISpace c) k" if "k \<in> set ks" for k
  proof -
    have "c \<noteq> CHR '','' \<and> \<not> isASCIISpace c" if "validHeaderFieldByte c" for c
      using that token_byte_facts[of c] by (auto simp: validHeaderFieldByte_token token_byte_def less_eq_char_def)
    then show ?thesis using assms(2) that by (auto simp: list_all_iff)
  qed
  then have trim: "k \<in> set ks \<Longrightarrow> TrimString k = k" for k
    using assms(2) by (intro TrimString_id) (auto simp: list_all_iff)
  have comma: "\<forall>k\<in>set ks. CHR '','' \<notin> set k" using tok by (auto simp: list_all_iff)
  have hd: "hd (join_with '','' ks) = hd (hd ks) \<and> join_with '','' ks \<noteq> []"
    using assms by (cases ks rule: join_with.cases[of "('','', ks)" for ks, simplified]) auto
  have last: "last (join_with '','' ks) = last (last ks)"
    using assms
  proof (induction "'',''" ks rule: join_with.induct)
    case (3 w v ks)
    have "join_with '','' (v # ks) \<noteq> []" using 3(3) by (cases ks) auto
    then show ?case using 3 by simp
  qed auto
  have "\<not> isASCIISpace (hd (join_with '','' ks)) \<and> \<not> isASCIISpace (last (join_with '','' ks))"
    using hd last tok[OF hd_in_set[OF assms(1)]] tok[OF last_in_set[OF assms(1)]] assms
    by (metis hd_in_set last_in_set list_all_iff)
  then have t: "TrimString (join_with '','' ks) = join_with '','' ks" by (intro TrimString_id) simp
  have sp: "split_byte (CHR '','') (join_with '','' ks) = ks" using split_join_byte[OF assms(1) comma] by simp
  show ?thesis
  proof (cases "contains_byte (CHR '','') (join_with '','' ks)")
    case True
    have "map TrimString ks = ks" using trim by (simp add: map_idI)
    moreover have "filter (\<lambda>f. f \<noteq> []) ks = ks" using assms(2) by (simp add: filter_id_conv)
    ultimately show ?thesis using True t sp hd by (simp add: foreachHeaderElement_def Let_def)
  next
    case False
    then have "ks = [join_with '','' ks]" using sp split_byte_notin by (metis contains_byte_def)
    then show ?thesis using False t hd by (simp add: foreachHeaderElement_def Let_def)
  qed
qed

lemma canonical_names:
  "CanonicalMIMEHeaderKey ''Host'' = ''Host''" "CanonicalMIMEHeaderKey ''User-Agent'' = ''User-Agent''"
  "CanonicalMIMEHeaderKey ''Transfer-Encoding'' = ''Transfer-Encoding''"
  by (rule canonical_key_fixed; code_simp)+

lemma fixed_name_ok:
  "k \<in> set [''Host'', ''User-Agent'', ''Connection'', ''Content-Length'', ''Transfer-Encoding'', ''Trailer''] \<Longrightarrow>
     k \<noteq> [] \<and> token k \<and> CanonicalMIMEHeaderKey k = k"
  by (auto simp: canonical_names header_key_canonical validHeaderFieldByte_token token_byte_def)

lemma not_blank: "\<not> isASCIISpace c \<Longrightarrow> \<not> blank c"
  by (auto simp: blank_def isASCIISpace_def)

lemma entry_okI:
  assumes "k \<in> set [''Host'', ''User-Agent'', ''Connection'', ''Content-Length'', ''Transfer-Encoding'', ''Trailer'']"
    and "list_all validHeaderValueByte v" and "v \<noteq> [] \<Longrightarrow> \<not> blank (hd v) \<and> \<not> blank (last v)"
  shows "entry_ok (k, v)"
  using fixed_name_ok[OF assms(1)] assms(2,3) by (simp add: entry_ok_def)

lemma clean_entry_ok:
  assumes "k \<in> set [''Host'', ''User-Agent'', ''Connection'', ''Content-Length'', ''Transfer-Encoding'', ''Trailer'']"
    and "list_all validHeaderValueByte (clean_value v)"
  shows "entry_ok (k, clean_value v)"
  using assms clean_value_ends by (intro entry_okI) auto

lemma solid_entry_ok:
  assumes "k \<in> set [''Host'', ''User-Agent'', ''Connection'', ''Content-Length'', ''Transfer-Encoding'', ''Trailer'']"
    and "list_all (\<lambda>c. validHeaderValueByte c \<and> \<not> blank c) v"
  shows "entry_ok (k, v)"
  using assms by (intro entry_okI) (auto simp: list_all_iff)

lemma digit_solid: "digit c \<Longrightarrow> validHeaderValueByte c \<and> \<not> blank c"
  unfolding validHeaderValueByte_iff by (auto simp: digit_def blank_def less_eq_char_def)

lemma token_solid: "validHeaderFieldByte c \<Longrightarrow> validHeaderValueByte c \<and> \<not> blank c"
  unfolding validHeaderFieldByte_token validHeaderValueByte_iff token_byte_def blank_def
  by (auto simp: less_eq_char_def)

lemma comma_solid: "validHeaderValueByte (CHR '','') \<and> \<not> blank (CHR '','')"
  by (simp add: validHeaderValueByte_iff blank_def less_eq_char_def)

lemma framing_entries_ok:
  assumes "trailers_allowed (trailer_map t)" and "e \<in> set (framing_entries t)"
  shows "entry_ok e"
proof -
  have digits: "list_all (\<lambda>c. validHeaderValueByte c \<and> \<not> blank c) (Itoa (tw_ContentLength t))" if "tw_ContentLength t \<ge> 0"
    using that utoa_digits[of "nat (tw_ContentLength t)"] digit_solid by (auto simp: Itoa_def list_all_iff)
  have words: "list_all (\<lambda>c. validHeaderValueByte c \<and> \<not> blank c) ''close''"
    "list_all (\<lambda>c. validHeaderValueByte c \<and> \<not> blank c) ''chunked''"
    using token_solid by (auto simp: validHeaderFieldByte_token token_byte_def)
  have "set (join_with '','' (sort ks)) \<subseteq> {CHR '',''} \<union> (\<Union>k\<in>set ks. set k)" for ks
    using set_join_with_subset[of "'',''" "sort ks"] by simp
  then have keys: "list_all (\<lambda>c. validHeaderValueByte c \<and> \<not> blank c) (join_with '','' (sort (keys_of (trailer_map t))))"
    using assms(1) header_ok_keys token_solid comma_solid
    unfolding trailers_allowed_def list_all_iff by (smt (verit) UN_E UnE singletonD subsetD)
  have pos: "tw_ContentLength t \<ge> 0" if "shouldSendContentLength t"
    using that by (auto simp: shouldSendContentLength_def split: if_splits)
  show ?thesis
    using assms(2) pos unfolding framing_entries_def
    by (auto simp del: set_append split: if_splits
        intro!: solid_entry_ok[OF _ words(1)] solid_entry_ok[OF _ words(2)] solid_entry_ok[OF _ digits] solid_entry_ok[OF _ keys])
qed

section \<open>The framing of a request that is written\<close>

definition out_data :: "wbody body_val \<Rightarrow> string" where
  "out_data v = (case reader_of v of None \<Rightarrow> [] | Some b \<Rightarrow> wb_data b)"

text \<open>A body that ends without an error and is closed without one.\<close>

definition good_body :: "wbody body_val \<Rightarrow> bool" where
  "good_body v = (case reader_of v of None \<Rightarrow> True | Some b \<Rightarrow> wb_end b = EOF \<and> wb_closeErr b = None)"

lemma put_back_data:
  assumes "wb_Read 1 b = (d, e, b')"
  shows "wb_data (put_back late d e b') = wb_data b" "wb_end (put_back late d e b') = wb_end b"
proof -
  note spec = wb_Read_spec[OF assms]
  have len: "length d = 0 \<or> length d = 1" using spec(3) by linarith
  show "wb_data (put_back late d e b') = wb_data b"
    using spec(2) spec(7) len by (cases e) (auto simp: put_back_def)
  show "wb_end (put_back late d e b') = wb_end b"
    using spec(4) spec(7) by (cases e) (auto simp: put_back_def)
qed

lemma probe_spec:
  assumes "tw_Body t = Some b" and "wb_end b = EOF"
  obtains b' where "probeRequestBody late t = t\<lparr>tw_Body := Some b', tw_FlushHeaders := late \<or> tw_FlushHeaders t\<rparr>"
      "wb_data b' = wb_data b" "wb_end b' = EOF"
  | "probeRequestBody late t = t\<lparr>tw_Body := None, tw_ContentLength := 0\<rparr>" "wb_data b = []"
proof -
  obtain d e b1 where rd: "wb_Read 1 b = (d, e, b1)" by (metis surj_pair)
  note spec = wb_Read_spec[OF rd] and pb = put_back_data[OF rd]
  show thesis
  proof (cases "\<not> late \<and> d = [] \<and> e = Some EOF")
    case True
    then have "probeRequestBody late t = t\<lparr>tw_Body := None, tw_ContentLength := 0\<rparr>"
      using assms(1) rd by (simp add: probeRequestBody_def)
    moreover have "wb_data b = []" using True spec(2,7) by simp
    ultimately show thesis by (rule that(2))
  next
    case False
    then have "probeRequestBody late t = t\<lparr>tw_Body := Some (put_back late d e b1), tw_FlushHeaders := late \<or> tw_FlushHeaders t\<rparr>"
      using assms(1) rd by (cases late) (auto simp: probeRequestBody_def)
    then show thesis using that(1) pb assms(2) by simp
  qed
qed

definition lengths_ok :: "wbody request \<Rightarrow> bool" where
  "lengths_ok r =
     (rq_TransferEncoding r \<in> set [[], [''chunked'']] \<and> (rq_Body r = NilBody \<longrightarrow> rq_ContentLength r = 0) \<and>
      (rq_ContentLength r > 0 \<longrightarrow> rq_ContentLength r = int (length (out_data (rq_Body r)))))"

definition tw_ready :: "wbody request \<Rightarrow> transferWriter \<Rightarrow> bool" where
  "tw_ready r t =
     (body_data t = out_data (rq_Body r) \<and> body_ends t \<and> tw_BodyCloser t = closer_of (rq_Body r) \<and> tw_closes t = 0 \<and>
      \<not> tw_ResponseToHEAD t \<and> tw_Header t = rq_Header r \<and> tw_Close t = rq_Close r \<and>
      (tw_Body t \<noteq> None \<longrightarrow> rq_Body r \<noteq> NilBody) \<and>
      (if te_chunked (tw_TransferEncoding t)
       then tw_ContentLength t = - 1 \<and> tw_Body t \<noteq> None \<and> tw_Trailer t = rq_Trailer r
       else tw_ContentLength t = int (length (body_data t)) \<and> tw_Trailer t = None))"

lemma sanitize_ready:
  assumes "body_data t = out_data (rq_Body r)" and "body_ends t" and "tw_BodyCloser t = closer_of (rq_Body r)"
    and "tw_closes t = 0" and "\<not> tw_ResponseToHEAD t" and "tw_Header t = rq_Header r" and "tw_Close t = rq_Close r"
    and "tw_Trailer t = rq_Trailer r" and "tw_TransferEncoding t \<in> set [[], [''chunked'']]"
    and "tw_Body t \<noteq> None \<Longrightarrow> rq_Body r \<noteq> NilBody"
    and "tw_TransferEncoding t = [] \<Longrightarrow> tw_Body t \<noteq> None \<Longrightarrow> tw_ContentLength t = int (length (body_data t))"
  shows "tw_ready r (sanitize_tw True t)"
proof (cases "tw_Body t = None \<or> tw_TransferEncoding t = []")
  case True
  then show ?thesis using assms
    by (auto simp: sanitize_tw_def tw_ready_def te_chunked_def Let_def body_data_def body_ends_def)
next
  case False
  then show ?thesis using assms
    by (auto simp: sanitize_tw_def tw_ready_def te_chunked_def Let_def body_data_def body_ends_def)
qed

lemma newTransferWriter_ready:
  assumes "good_body (rq_Body r)" and "lengths_ok r" and "rq_Method r \<noteq> ''CONNECT''"
  shows "\<exists>tw. newTransferWriter late (OutRequest r) = Inr tw \<and> tw_ready r tw"
proof -
  let ?t = "new_tw\<lparr>tw_Method := valueOrDefault (rq_Method r) ''GET'', tw_Close := rq_Close r,
      tw_TransferEncoding := rq_TransferEncoding r, tw_Header := rq_Header r, tw_Trailer := rq_Trailer r,
      tw_Body := reader_of (rq_Body r), tw_BodyCloser := closer_of (rq_Body r), tw_ContentLength := outgoingLength r\<rparr>"
  have m: "valueOrDefault (rq_Method r) ''GET'' \<noteq> ''CONNECT''" using assms(3) by (simp add: valueOrDefault_def)
  have te: "rq_TransferEncoding r \<in> set [[], [''chunked'']]" using assms(2) by (simp add: lengths_ok_def)
  have ends: "reader_of (rq_Body r) = Some b \<Longrightarrow> wb_end b = EOF" for b using assms(1) by (simp add: good_body_def)
  have pos: "rq_ContentLength r > 0 \<Longrightarrow> rq_ContentLength r = int (length (out_data (rq_Body r)))"
    using assms(2) by (simp add: lengths_ok_def)
  have len: "outgoingLength r \<ge> 0 \<Longrightarrow> outgoingLength r = int (length (out_data (rq_Body r)))"
    using pos by (cases "rq_Body r") (auto simp: outgoingLength_def out_data_def empty_wbody_def split: if_splits)
  have some: "outgoingLength r < 0 \<Longrightarrow> \<exists>b. rq_Body r = TheBody b"
    by (cases "rq_Body r") (auto simp: outgoingLength_def)
  define t1 where "t1 = (if tw_ContentLength ?t < 0 \<and> tw_TransferEncoding ?t = [] then
      (case shouldSendChunkedRequestBody late ?t of
         (True, t') \<Rightarrow> t'\<lparr>tw_TransferEncoding := [''chunked'']\<rparr> | (False, t') \<Rightarrow> t') else ?t)"
  have t1: "body_data t1 = out_data (rq_Body r) \<and> body_ends t1 \<and> tw_BodyCloser t1 = closer_of (rq_Body r) \<and> tw_closes t1 = 0 \<and>
      \<not> tw_ResponseToHEAD t1 \<and> tw_Header t1 = rq_Header r \<and> tw_Close t1 = rq_Close r \<and> tw_Trailer t1 = rq_Trailer r \<and>
      tw_TransferEncoding t1 \<in> set [[], [''chunked'']] \<and> (tw_Body t1 \<noteq> None \<longrightarrow> rq_Body r \<noteq> NilBody) \<and>
      (tw_TransferEncoding t1 = [] \<and> tw_Body t1 \<noteq> None \<longrightarrow> tw_ContentLength t1 = int (length (body_data t1)))"
  proof (cases "outgoingLength r < 0 \<and> rq_TransferEncoding r = []")
    case False
    then have "t1 = ?t" by (auto simp: t1_def)
    then show ?thesis using False te len ends
      by (auto simp: body_data_def out_data_def body_ends_def new_tw_def split: option.split)
  next
    case True
    then obtain b where b: "rq_Body r = TheBody b" using some by blast
    show ?thesis
    proof (cases "requestMethodUsuallyLacksBody (valueOrDefault (rq_Method r) ''GET'')")
      case False
      then have "t1 = ?t\<lparr>tw_TransferEncoding := [''chunked'']\<rparr>"
        using True b m by (simp add: t1_def shouldSendChunkedRequestBody_def)
      then show ?thesis using b ends
        by (auto simp: body_data_def out_data_def body_ends_def new_tw_def split: option.split)
    next
      case lacks: True
      have bd: "tw_Body ?t = Some b" and e: "wb_end b = EOF" using b ends[of b] by simp_all
      show ?thesis
      proof (rule probe_spec[OF bd e, of late])
        fix b' assume p: "probeRequestBody late ?t = ?t\<lparr>tw_Body := Some b', tw_FlushHeaders := late \<or> tw_FlushHeaders ?t\<rparr>"
          "wb_data b' = wb_data b" "wb_end b' = EOF"
        then have "t1 = ?t\<lparr>tw_Body := Some b', tw_FlushHeaders := late \<or> tw_FlushHeaders ?t, tw_TransferEncoding := [''chunked'']\<rparr>"
          using True b m lacks by (simp add: t1_def shouldSendChunkedRequestBody_def Let_def)
        then show ?thesis using p(2,3) b by (auto simp: body_data_def out_data_def body_ends_def new_tw_def)
      next
        assume p: "probeRequestBody late ?t = ?t\<lparr>tw_Body := None, tw_ContentLength := 0\<rparr>" "wb_data b = []"
        then have "t1 = ?t\<lparr>tw_Body := None, tw_ContentLength := 0\<rparr>"
          using True b m lacks by (simp add: t1_def shouldSendChunkedRequestBody_def Let_def)
        then show ?thesis using p(2) b True by (auto simp: body_data_def out_data_def body_ends_def new_tw_def)
      qed
    qed
  qed
  define t2 where "t2 = (if tw_ContentLength t1 \<noteq> 0 \<and> \<not> isKnownInMemoryReader (tw_Body t1)
    then t1\<lparr>tw_FlushHeaders := True\<rparr> else t1)"
  have t2: "body_data t2 = body_data t1" "body_ends t2 = body_ends t1" "tw_BodyCloser t2 = tw_BodyCloser t1" "tw_closes t2 = tw_closes t1"
      "tw_ResponseToHEAD t2 = tw_ResponseToHEAD t1" "tw_Header t2 = tw_Header t1" "tw_Close t2 = tw_Close t1" "tw_Trailer t2 = tw_Trailer t1"
      "tw_TransferEncoding t2 = tw_TransferEncoding t1" "tw_Body t2 = tw_Body t1" "tw_ContentLength t2 = tw_ContentLength t1"
    by (simp_all add: t2_def body_data_def body_ends_def)
  have "newTransferWriter late (OutRequest r) = Inr (sanitize_tw True t2)"
    using assms(2) by (auto simp: newTransferWriter_def tw_of_request_def t2_def t1_def Let_def lengths_ok_def)
  moreover have "tw_ready r (sanitize_tw True t2)" using t1 unfolding t2[symmetric] by (intro sanitize_ready) blast+
  ultimately show ?thesis by blast
qed

section \<open>The header that arrives\<close>

definition start_entries :: "'b request \<Rightarrow> string \<Rightarrow> (string \<times> string) list" where
  "start_entries r host =
     (''Host'', host) #
     (if user_agent (rq_Header r) = [] then [] else [(''User-Agent'', clean_value (user_agent (rq_Header r)))])"

definition all_entries :: "'b request \<Rightarrow> string \<Rightarrow> transferWriter \<Rightarrow> (string \<times> string) list" where
  "all_entries r host tw =
     start_entries r host @ framing_entries tw @ header_entries (sortedKeyValues reqWriteExcludeHeader (rq_Header r))"

lemma write_start_entries:
  "write_start buffer_wire r host ruri w =
     (w @ valueOrDefault (rq_Method r) ''GET'' @ '' '' @ ruri @ '' HTTP/1.1'' @ crlf @
        concat (map entry_text (start_entries r host)), None)"
  by (simp add: write_start_def and_send_def send_all_buffer start_entries_def entry_text_def clean_value_def)

lemma write_headers_entries:
  assumes "trailers_allowed (trailer_map tw)"
  shows "write_headers buffer_wire tw h None w =
    (w @ concat (map entry_text (framing_entries tw)) @
       concat (map entry_text (header_entries (sortedKeyValues reqWriteExcludeHeader h))) @ crlf, None)"
  by (simp add: write_headers_def and_send_def writeHeader_entries[OF assms] writeSubset_def write_kvs_buffer send_all_buffer)

text \<open>The values of the keys that are not written by Write itself.\<close>

abbreviation own_key :: "string \<Rightarrow> bool" where
  "own_key k \<equiv> k \<in> set [''Host'', ''User-Agent'', ''Content-Length'', ''Transfer-Encoding'', ''Trailer'']"

lemma excluded_own: "map_of reqWriteExcludeHeader k = Some True \<longleftrightarrow> own_key k"
  by (auto simp: reqWriteExcludeHeader_def)

lemma header_ok_filter: "header_ok h \<Longrightarrow> header_ok (filter P h)"
  unfolding header_ok_def by (auto simp: distinct_map_filter)

lemma values_at_filter:
  assumes "gomap_ok h"
  shows "values_at (filter (\<lambda>(k, _). Q k) h) k = (if Q k then values_at h k else [])"
proof -
  have "map_of (filter (\<lambda>(k, _). Q k) h) k = (if Q k then map_of h k else None)"
    by (induction h) auto
  then show ?thesis by (simp add: values_at_def)
qed

lemma written_values_of:
  assumes "header_ok h"
  shows "map snd (filter (\<lambda>e. fst e = k) (header_entries (sortedKeyValues X h))) =
    (if map_of X k = Some True then [] else map clean_value (values_at h k))"
proof -
  let ?h = "filter (\<lambda>(k, _). map_of X k \<noteq> Some True) h"
  have f: "sortedKeyValues X h = sort_key fst ?h" unfolding sortedKeyValues_def ..
  have ok: "gomap_ok ?h" using header_ok_filter[OF assms] by (simp add: header_ok_def)
  have "distinct (map fst (sort_key fst ?h))" using ok by (simp add: distinct_map)
  from entries_of_key[OF this] show ?thesis
    using values_at_sorted[OF ok, of k] values_at_filter[of h "\<lambda>k. map_of X k \<noteq> Some True" k] assms
    unfolding f header_ok_def by simp
qed

lemma written_values:
  assumes "header_ok h"
  shows "map snd (filter (\<lambda>e. fst e = k) (header_entries (sortedKeyValues reqWriteExcludeHeader h))) =
    (if own_key k then [] else map clean_value (values_at h k))"
  unfolding written_values_of[OF assms] excluded_own ..

lemma written_entries_ok:
  assumes "header_ok h" and "e \<in> set (header_entries (sortedKeyValues X h))"
  shows "entry_ok e"
proof -
  have "sortedKeyValues X h = sort_key fst (filter (\<lambda>(k, _). map_of X k \<noteq> Some True) h)"
    by (simp add: sortedKeyValues_def)
  then show ?thesis
    using assms(2) header_entries_ok[OF header_ok_filter[OF assms(1)]] header_entries_sorted by metis
qed

lemma user_agent_ok:
  assumes "header_ok h"
  shows "list_all validHeaderValueByte (clean_value (user_agent h))"
proof (cases "header_has ''User-Agent'' h \<and> values_at h ''User-Agent'' \<noteq> []")
  case True
  then obtain v vs where v: "map_of h ''User-Agent'' = Some (v # vs)"
    by (cases "values_at h ''User-Agent''") (auto simp: header_has_def values_at_def split: option.splits)
  then have "(''User-Agent'', v # vs) \<in> set h" by (rule map_of_SomeD)
  then have "list_all validHeaderValueByte (clean_value v)" using assms by (fastforce simp: header_ok_def)
  moreover have "user_agent h = v"
    using v by (simp add: user_agent_def header_has_def Header_Get_def MIMEHeader_Get_def canonical_names values_at_def)
  ultimately show ?thesis by simp
next
  case False
  have "clean_value defaultUserAgent = defaultUserAgent" "list_all validHeaderFieldByte ''Go-http-client''"
    "list_all validHeaderValueByte ''/1.1''"
    by (code_simp, simp add: validHeaderFieldByte_token token_byte_def, simp add: validHeaderValueByte_iff less_eq_char_def)
  then have default: "list_all validHeaderValueByte (clean_value defaultUserAgent)"
    using token_solid by (auto simp: defaultUserAgent_def list_all_iff)
  have "clean_value [] = []" by code_simp
  moreover have "user_agent h = [] \<or> user_agent h = defaultUserAgent"
    using False by (auto simp: user_agent_def Header_Get_def MIMEHeader_Get_def canonical_names)
  ultimately show ?thesis using default by auto
qed

lemma all_entries_ok:
  assumes "header_ok (rq_Header r)" and "trailers_allowed (trailer_map tw)"
    and "clean_value host = host" and "list_all validHeaderValueByte host"
  shows "\<forall>e\<in>set (all_entries r host tw). entry_ok e"
proof -
  have "entry_ok (''Host'', host)" using clean_entry_ok[of "''Host''" host] assms(3,4) by simp
  moreover have "entry_ok (''User-Agent'', clean_value (user_agent (rq_Header r)))"
    using clean_entry_ok user_agent_ok[OF assms(1)] by simp
  ultimately show ?thesis
    using framing_entries_ok[OF assms(2)] written_entries_ok[OF assms(1)]
    by (auto simp: all_entries_def start_entries_def)
qed

definition header_of :: "(string \<times> string) list \<Rightarrow> multimap" where
  "header_of es = mh.add_list es []"

definition vals_of :: "string \<Rightarrow> (string \<times> string) list \<Rightarrow> string list" where
  "vals_of k es = map snd (filter (\<lambda>e. fst e = k) es)"

lemma vals_of_append [simp]: "vals_of k (es @ fs) = vals_of k es @ vals_of k fs"
  by (simp add: vals_of_def)

lemma header_of_map:
  assumes "\<forall>e\<in>set es. entry_ok e"
  shows "map_of (header_of es) k = (if vals_of k es = [] then None else Some (vals_of k es))"
    and "values_at (header_of es) k = vals_of k es"
  using add_list_entries[of es k] assms
  by (auto simp: header_of_def entry_ok_def vals_of_def values_at_def Let_def split: if_splits)

lemma vals_of_framing:
  "vals_of ''Content-Length'' (framing_entries t) = (if shouldSendContentLength t then [Itoa (tw_ContentLength t)] else [])"
  "vals_of ''Transfer-Encoding'' (framing_entries t) = (if te_chunked (tw_TransferEncoding t) then [''chunked''] else [])"
  "vals_of ''Trailer'' (framing_entries t) =
     (if trailer_map t = [] then [] else [join_with '','' (sort (keys_of (trailer_map t)))])"
  "k \<notin> set [''Connection'', ''Content-Length'', ''Transfer-Encoding'', ''Trailer''] \<Longrightarrow> vals_of k (framing_entries t) = []"
proof -
  have "shouldSendContentLength t \<Longrightarrow> \<not> te_chunked (tw_TransferEncoding t)" by (auto simp: shouldSendContentLength_def)
  then show "vals_of ''Transfer-Encoding'' (framing_entries t) = (if te_chunked (tw_TransferEncoding t) then [''chunked''] else [])"
    by (auto simp: framing_entries_def vals_of_def)
qed (auto simp: framing_entries_def vals_of_def)

lemma vals_of_all:
  assumes "header_ok (rq_Header r)"
  shows "own_key k \<Longrightarrow> k \<notin> set [''Host'', ''User-Agent''] \<Longrightarrow> vals_of k (all_entries r host tw) = vals_of k (framing_entries tw)"
    and "vals_of ''Host'' (all_entries r host tw) = [host]"
    and "\<not> own_key k \<Longrightarrow> k \<noteq> ''Connection'' \<Longrightarrow>
      vals_of k (all_entries r host tw) = map clean_value (values_at (rq_Header r) k)"
proof -
  have w: "vals_of k (header_entries (sortedKeyValues reqWriteExcludeHeader (rq_Header r))) =
      (if own_key k then [] else map clean_value (values_at (rq_Header r) k))" for k
    using written_values[OF assms] by (simp add: vals_of_def)
  have s: "vals_of k (start_entries r host) = (if k = ''Host'' then [host] else
      if k = ''User-Agent'' \<and> user_agent (rq_Header r) \<noteq> [] then [clean_value (user_agent (rq_Header r))] else [])" for k
    by (simp add: start_entries_def vals_of_def)
  show "own_key k \<Longrightarrow> k \<notin> set [''Host'', ''User-Agent''] \<Longrightarrow> vals_of k (all_entries r host tw) = vals_of k (framing_entries tw)"
    by (auto simp: all_entries_def w s)
  show "vals_of ''Host'' (all_entries r host tw) = [host]"
    by (simp add: all_entries_def w s vals_of_framing(4))
  show "\<not> own_key k \<Longrightarrow> k \<noteq> ''Connection'' \<Longrightarrow>
      vals_of k (all_entries r host tw) = map clean_value (values_at (rq_Header r) k)"
    by (auto simp: all_entries_def w s vals_of_framing(4))
qed

lemma declared_Itoa: "n < 2 ^ 63 \<Longrightarrow> declared_length [Itoa (int n)] = Some n"
proof -
  assume n: "n < 2 ^ 63"
  then have d: "list_all digit (utoa n)" "decimal (utoa n) = n"
    using ParseUint_utoa[OF n] ParseUint_iff[of 63 "utoa n" n] by auto
  have "\<not> isASCIISpace c" if "digit c" for c using that by (auto simp: isASCIISpace_def digit_def less_eq_char_def)
  then have "TrimString (utoa n) = utoa n"
    using d(1) utoa_not_Nil[of n] hd_in_set[of "utoa n"] last_in_set[of "utoa n"]
    by (intro TrimString_id) (simp add: list_all_iff)
  then show ?thesis using d n by (simp add: declared_length_def Itoa_def)
qed

lemma trailer_names_written:
  assumes "trailers_allowed tr" and "values_at h ''Trailer'' = (if tr = [] then [] else [join_with '','' (sort (keys_of tr))])"
  shows "list_all (\<lambda>k. \<not> bad_trailer_key (CanonicalHeaderKey k)) (trailer_names h)"
proof (cases "tr = []")
  case False
  have "foreachHeaderElement (join_with '','' (sort (keys_of tr))) = sort (keys_of tr)"
  proof (rule foreach_join)
    show "sort (keys_of tr) \<noteq> []" using False by (metis length_0_conv length_map length_sort)
    show "\<forall>k\<in>set (sort (keys_of tr)). k \<noteq> [] \<and> token k"
      using assms(1) header_ok_keys[of tr] by (auto simp: trailers_allowed_def)
  qed
  then have "trailer_names h = sort (keys_of tr)" using False assms(2) by (simp add: trailer_names_def)
  moreover have "CanonicalHeaderKey k = k \<and> \<not> bad_trailer_key k" if "k \<in> set (keys_of tr)" for k
    using assms(1) header_ok_keys[of tr k] that unfolding trailers_allowed_def list_all_iff by blast
  ultimately show ?thesis by (simp add: list_all_iff)
qed (use assms in \<open>simp add: trailer_names_def\<close>)

lemma framing_of_written:
  assumes "tw_ready r tw" and "trailers_allowed (trailer_map tw)" and "length (body_data tw) < 2 ^ 63"
    and "values_at h ''Content-Length'' = vals_of ''Content-Length'' (framing_entries tw)"
    and "map_of h ''Transfer-Encoding'' = (if vals_of ''Transfer-Encoding'' (framing_entries tw) = [] then None
      else Some (vals_of ''Transfer-Encoding'' (framing_entries tw)))"
    and "values_at h ''Trailer'' = vals_of ''Trailer'' (framing_entries tw)"
  shows "framing_of False m 200 h = Some (framing_written tw)"
proof -
  have names: "list_all (\<lambda>k. \<not> bad_trailer_key (CanonicalHeaderKey k)) (trailer_names h)"
    using trailer_names_written[OF assms(2)] assms(6) vals_of_framing(3) by simp
  have empty: "declared_length [] = Some 0" by (simp add: declared_length_def)
  show ?thesis
  proof (cases "te_chunked (tw_TransferEncoding tw)")
    case True
    then have "\<not> shouldSendContentLength tw" by (simp add: shouldSendContentLength_def)
    then show ?thesis
      using True assms(4,5) names empty EqualFold_refl
      by (simp add: framing_of_def vals_of_framing framing_written_def bodyless_def)
  next
    case False
    then have cl: "tw_ContentLength tw = int (length (body_data tw))" using assms(1) by (simp add: tw_ready_def)
    have "declared_length (values_at h ''Content-Length'') = Some (length (body_data tw))"
    proof (cases "shouldSendContentLength tw")
      case True
      then show ?thesis using assms(3,4) cl declared_Itoa by (simp add: vals_of_framing)
    next
      case not: False
      then have "length (body_data tw) = 0" using cl False by (auto simp: shouldSendContentLength_def split: if_splits)
      then show ?thesis using not assms(4) empty by (simp add: vals_of_framing)
    qed
    then show ?thesis using False assms(5) cl
      by (simp add: framing_of_def vals_of_framing framing_written_def bodyless_def)
  qed
qed

section \<open>The body\<close>

lemma writeBody_none:
  assumes "tw_Body t = None" and "\<not> te_chunked (tw_TransferEncoding t)" and "tw_ContentLength t = 0"
    and "tw_BodyCloser t = None \<or> tw_BodyCloser t = Some None"
  shows "\<exists>t'. tw_writeBody wr flush t w = (w, None, t')"
  using assms by (auto simp: tw_writeBody_def send_body_def close_body_def finish_body_def)

lemma body_written:
  assumes "tw_ready r tw" and "good_body (rq_Body r)" and "trailer_ok tw" and "length (out_data (rq_Body r)) < 2 ^ 61"
  obtains out tw' where "tw_writeBody buffer_wire None tw w = (w @ out, None, tw')"
    "tw_closes tw' = (if rq_Body r = NilBody then 0 else 1)"
    "\<And>rr m rest ks. framed_as (framing_written tw) rr m \<Longrightarrow> bufio_ok rr \<Longrightarrow> stream rr = out @ rest \<Longrightarrow>
       \<forall>k\<in>set ks. 0 < k \<Longrightarrow> length (out_data (rq_Body r)) < length ks \<Longrightarrow>
       \<exists>r'. val_reads (ms_Body m) rr ks = (out_data (rq_Body r), Some (BodyIo EOF), r') \<and> stream r' = rest"
proof -
  let ?data = "out_data (rq_Body r)"
  have ready: "body_data tw = ?data" "body_ends tw" "tw_BodyCloser tw = closer_of (rq_Body r)" "tw_closes tw = 0" "\<not> tw_ResponseToHEAD tw"
    using assms(1) by (simp_all add: tw_ready_def)
  have nil: "tw_BodyCloser tw = None \<longleftrightarrow> rq_Body r = NilBody"
    using ready(3) by (cases "rq_Body r") (auto simp: closer_of_def)
  have closer: "tw_BodyCloser tw = None \<or> tw_BodyCloser tw = Some None"
    using assms(2) ready(3) by (cases "rq_Body r") (auto simp: closer_of_def good_body_def)
  have closes: "tw_closes tw' = (if rq_Body r = NilBody then 0 else 1)"
    if "tw_writeBody buffer_wire None tw w = (w', e, tw')" for w' e tw'
    using writeBody_closes[OF that] ready(4) nil by simp
  show thesis
  proof (cases "tw_Body tw")
    case None
    then have c: "\<not> te_chunked (tw_TransferEncoding tw)" and cl: "tw_ContentLength tw = 0" and d: "?data = []"
      using assms(1) ready(1) by (auto simp: tw_ready_def body_data_def split: if_splits)
    obtain tw' where w: "tw_writeBody buffer_wire None tw w = (w @ [], None, tw')"
      using writeBody_none[OF None c cl closer] by fastforce
    have f: "framing_written tw = Bytes (length ?data)" using c cl d by (simp add: framing_written_def)
    show thesis
      by (rule that[OF w closes[OF w]]) (use read_length_body[of ?data] f d in auto)
  next
    case (Some b)
    then have b: "wb_end b = EOF" "wb_data b = ?data" using ready(1,2) by (auto simp: body_ends_def body_data_def)
    have closer': "tw_BodyCloser tw = Some None"
      using Some closer nil assms(1) by (auto simp: tw_ready_def)
    show thesis
    proof (cases "te_chunked (tw_TransferEncoding tw)")
      case True
      then have cl: "tw_ContentLength tw = - 1" using assms(1) by (simp add: tw_ready_def)
      obtain ds tw' where w: "tw_writeBody buffer_wire None tw w = (w @ (enc_chunks ds @ last_chunk @ trailer_text tw @ crlf), None, tw')"
        "pieces_of ds ?data"
        using writeBody_chunked[OF True Some b(1) closer' cl, of w] b(2) by auto
      have f: "framing_written tw = Chunks" using True by (simp add: framing_written_def)
      show thesis
        by (rule that[OF w(1) closes[OF w(1)]])
          (use read_chunked_body[OF True w(2) assms(4,3)] f in \<open>simp del: append_assoc add: append_assoc[symmetric]\<close>)
    next
      case False
      then have cl: "tw_ContentLength tw = int (length ?data)" using assms(1) ready(1) by (simp add: tw_ready_def)
      obtain tw' where w: "tw_writeBody buffer_wire None tw w = (w @ ?data, None, tw')"
        using writeBody_length[OF False Some b(1) closer' cl ready(5), of None w] b(2) by auto
      have f: "framing_written tw = Bytes (length ?data)" using False cl by (simp add: framing_written_def)
      show thesis
        by (rule that[OF w closes[OF w]]) (use read_length_body f in metis)
    qed
  qed
qed

section \<open>The whole request\<close>

text \<open>
  What a request must satisfy to be sent so that it can be read: the target has no space and is a valid URL, the
  host is clean, the keys of the header and of the trailer are canonical tokens, the declared length is the length
  of the body, and the body ends without an error.
\<close>

definition sendable :: "wbody request \<Rightarrow> string \<Rightarrow> string \<Rightarrow> URL \<Rightarrow> bool" where
  "sendable r host ruri u =
     (good_body (rq_Body r) \<and> lengths_ok r \<and> length (out_data (rq_Body r)) < 2 ^ 61 \<and>
      cookie_name (valueOrDefault (rq_Method r) ''GET'') \<and> rq_Method r \<noteq> ''CONNECT'' \<and>
      CHR '' '' \<notin> set ruri \<and> \<not> stringContainsCTLByte ruri \<and> ParseRequestURI ruri = Inr u \<and>
      clean_value host = host \<and> list_all validHeaderValueByte host \<and> header_ok (rq_Header r) \<and>
      (case rq_Trailer r of None \<Rightarrow> True
       | Some tr \<Rightarrow> trailers_allowed tr \<and> length (fst (Header_Write buffer_wire tr [])) + 2 \<le> bufio_size))"

lemma trailers_nothing: "trailers_allowed []"
  by (simp add: trailers_allowed_def header_ok_def)

lemma sendable_trailer:
  assumes "sendable r host ruri u" and "tw_ready r tw"
  shows "trailers_allowed (trailer_map tw)" "trailer_ok tw"
proof -
  have t: "tw_Trailer tw = None \<or> tw_Trailer tw = rq_Trailer r" using assms(2) by (auto simp: tw_ready_def split: if_splits)
  then show "trailers_allowed (trailer_map tw)"
    using assms(1) trailers_nothing by (auto simp: trailer_map_def sendable_def split: option.splits)
  show "trailer_ok tw"
    using t assms(1) trailers_nothing
    by (auto simp: trailer_ok_def trailer_text_def sendable_def trailers_allowed_def bufio_size_def split: option.splits)
qed

lemma valid_token_method: "token_runes T \<Longrightarrow> cookie_name m \<Longrightarrow> validMethod T m"
  using cookie_name_valid[of T m] by (cases m) (simp_all add: isCookieNameValid_def validMethod_def)

lemma request_line_read:
  assumes "token_runes T" and "cookie_name m" and "m \<noteq> ''CONNECT''" and "CHR '' '' \<notin> set ruri" and "ParseRequestURI ruri = Inr u"
  shows "request_start T (m @ '' '' @ ruri @ '' HTTP/1.1'') =
    Inr (new_request\<lparr>rq_Method := m, rq_RequestURI := ruri, rq_Proto := ''HTTP/1.1'', rq_ProtoMajor := 1,
      rq_ProtoMinor := 1, rq_URL := Some u\<rparr>)"
proof -
  have "CHR '' '' \<notin> set m"
  proof
    assume "CHR '' '' \<in> set m"
    then have "token_byte (CHR '' '')" using assms(2) by (auto simp: list_all_iff)
    then show False by (simp add: token_byte_def less_eq_char_def)
  qed
  then have "parseRequestLine (m @ '' '' @ ruri @ '' HTTP/1.1'') = Some (m, ruri, ''HTTP/1.1'')"
    using cut_byte_in[of "CHR '' ''" m "ruri @ '' HTTP/1.1''"] cut_byte_in[OF assms(4), of "''HTTP/1.1''"]
    by (simp add: parseRequestLine_def)
  then show ?thesis
    using valid_token_method[OF assms(1,2)] assms(3,5) by (simp add: request_start_def ParseHTTPVersion_def)
qed

lemma line_no_newline:
  assumes "cookie_name m" and "\<not> stringContainsCTLByte ruri"
  shows "CHR 0x0A \<notin> set (m @ '' '' @ ruri @ '' HTTP/1.1'')"
proof -
  have nl: "\<not> token_byte (CHR 0x0A)" "CHR 0x0A < CHR '' ''" by (simp_all add: token_byte_def less_eq_char_def less_char_def)
  have "CHR 0x0A \<notin> set m" using assms(1) nl(1) unfolding list_all_iff by blast
  moreover have "CHR 0x0A \<notin> set ruri" using assms(2) nl(2) unfolding stringContainsCTLByte_def list_ex_iff by blast
  ultimately show ?thesis by simp
qed

lemma fixPragma_others: "k \<noteq> ''Cache-Control'' \<Longrightarrow> map_of (fixPragmaCacheControl h) k = map_of h k"
  by (auto simp: fixPragmaCacheControl_def update_conv split: option.split)

text \<open>The fields that the reader finds.\<close>

definition received_as :: "wbody request \<Rightarrow> string \<Rightarrow> string \<Rightarrow> URL \<Rightarrow> body request \<Rightarrow> bool" where
  "received_as r host ruri u req =
     (rq_Method req = valueOrDefault (rq_Method r) ''GET'' \<and> rq_RequestURI req = ruri \<and> rq_URL req = Some u \<and>
      rq_ProtoMajor req = 1 \<and> rq_ProtoMinor req = 1 \<and> rq_Host req = (if Host u = [] then host else Host u) \<and>
      (\<forall>k. \<not> own_key k \<and> k \<noteq> ''Connection'' \<and> k \<noteq> ''Cache-Control'' \<longrightarrow>
         values_at (rq_Header req) k = map clean_value (values_at (rq_Header r) k)))"

lemma request_header_read:
  assumes "sendable r host ruri u" and "tw_ready r tw" and "h = header_of (all_entries r host tw)"
    and "req = new_request\<lparr>rq_Method := valueOrDefault (rq_Method r) ''GET'', rq_RequestURI := ruri, rq_Proto := ''HTTP/1.1'',
      rq_ProtoMajor := 1, rq_ProtoMinor := 1, rq_URL := Some u\<rparr>"
  shows "\<exists>req' m. request_header False C req h rr = Inr req' \<and>
    received_as r host ruri u (req'\<lparr>rq_Header := AList.delete ''Host'' (rq_Header req')\<rparr>) \<and>
    rq_Body req' = ms_Body m \<and> framed_as (framing_written tw) rr m"
proof -
  let ?es = "all_entries r host tw" and ?h' = "fixPragmaCacheControl h"
  have hok: "header_ok (rq_Header r)" and len: "length (body_data tw) < 2 ^ 63"
    using assms(1,2) by (auto simp: sendable_def tw_ready_def)
  note tr = sendable_trailer(1)[OF assms(1,2)]
  have "\<forall>e\<in>set ?es. entry_ok e"
    using assms(1,2) tr by (intro all_entries_ok[OF hok]) (auto simp: sendable_def tw_ready_def)
  then have h: "map_of h k = (if vals_of k ?es = [] then None else Some (vals_of k ?es))" "values_at h k = vals_of k ?es" for k
    using header_of_map assms(3) by blast+
  have h': "map_of ?h' k = map_of h k" "values_at ?h' k = values_at h k" if "k \<noteq> ''Cache-Control''" for k
    using fixPragma_others[OF that] by (simp_all add: values_at_def)
  have own: "vals_of k ?es = vals_of k (framing_entries tw)"
    if "k \<in> set [''Content-Length'', ''Transfer-Encoding'', ''Trailer'']" for k
    using vals_of_all(1)[OF hok, of k] that by auto
  have fr: "framing_of False m 200 ?h' = Some (framing_written tw)" for m
    by (rule framing_of_written[OF assms(2) tr len]) (simp_all add: h' h own)
  obtain cl where sc: "shouldClose C 1 1 ?h' False = (cl, ?h')" by (simp add: shouldClose_def Let_def)
  define req1 where "req1 = req\<lparr>rq_Header := ?h', rq_Host := (if Host u = [] then header_get ''Host'' h else Host u), rq_Close := cl\<rparr>"
  have msg: "http11 (message_of_request req1)" "ms_Header (message_of_request req1) = ?h'"
    "ms_isResponse (message_of_request req1) = False" "status_of (message_of_request req1) = 200"
    by (simp_all add: http11_def message_of_request_def req1_def assms(4) status_of_def)
  obtain m where m: "readTransfer False C (message_of_request req1) rr = (None, m)" "framed_as (framing_written tw) rr m"
    "others_kept ?h' (ms_Header m)"
    using readTransfer_framing[OF msg(1), of C rr] fr msg by auto
  have host: "values_at h ''Host'' = [host]" using h(2) vals_of_all(2)[OF hok] by simp
  have rd: "request_header False C req h rr = Inr (with_message m req1)"
    using m(1) host sc by (simp add: request_header_def req1_def assms(4) Let_def)
  have "received_as r host ruri u ((with_message m req1)\<lparr>rq_Header := AList.delete ''Host'' (ms_Header m)\<rparr>)"
  proof -
    have "values_at (AList.delete ''Host'' (ms_Header m)) k = map clean_value (values_at (rq_Header r) k)"
      if k: "\<not> own_key k" "k \<noteq> ''Connection''" "k \<noteq> ''Cache-Control''" for k
    proof -
      have "map_of (ms_Header m) k = map_of h k"
        using m(3) k h'(1) by (simp add: others_kept_def)
      then have "values_at (AList.delete ''Host'' (ms_Header m)) k = values_at h k"
        using k by (simp add: values_at_def delete_conv)
      then show ?thesis using h(2) vals_of_all(3)[OF hok k(1,2)] by simp
    qed
    then show ?thesis
      using host by (simp add: received_as_def with_message_def req1_def assms(4) header_get_def)
  qed
  then show ?thesis using rd m(2) by (intro exI[of _ "with_message m req1"] exI[of _ m]) (simp add: with_message_def)
qed

lemma request_written_read:
  assumes "token_runes T" and "request_target PH VH False r = Ret (Inr (host, ruri))" and "sendable r host ruri u"
  shows "\<exists>out. Request_Write PH VH buffer_wire None False late r [] = Ret (out, None, if rq_Body r = NilBody then 0 else 1) \<and>
    (\<forall>b rest ks. bufio_ok b \<and> stream b = out @ rest \<and> length out < 2 ^ 54 \<and>
        (\<forall>k\<in>set ks. 0 < k) \<and> length (out_data (rq_Body r)) < length ks \<longrightarrow>
      (\<exists>req r1 r2. ReadRequest T False C b = (Inr req, r1) \<and> received_as r host ruri u req \<and>
        val_reads (rq_Body req) r1 ks = (out_data (rq_Body r), Some (BodyIo EOF), r2) \<and> stream r2 = rest))"
proof -
  let ?m = "valueOrDefault (rq_Method r) ''GET''" and ?data = "out_data (rq_Body r)"
  obtain tw where tw: "newTransferWriter late (OutRequest r) = Inr tw" "tw_ready r tw"
    using newTransferWriter_ready assms(3) by (auto simp: sendable_def)
  note tr = sendable_trailer[OF assms(3) tw(2)]
  let ?es = "all_entries r host tw"
  let ?line = "?m @ '' '' @ ruri @ '' HTTP/1.1''"
  let ?w = "?line @ crlf @ concat (map entry_text ?es) @ crlf"
  have good: "good_body (rq_Body r)" "length ?data < 2 ^ 61" using assms(3) by (simp_all add: sendable_def)
  obtain body tw' where body: "tw_writeBody buffer_wire None tw ?w = (?w @ body, None, tw')"
    "tw_closes tw' = (if rq_Body r = NilBody then 0 else 1)"
    "\<And>rr m rest ks. framed_as (framing_written tw) rr m \<Longrightarrow> bufio_ok rr \<Longrightarrow> stream rr = body @ rest \<Longrightarrow>
       \<forall>k\<in>set ks. 0 < k \<Longrightarrow> length ?data < length ks \<Longrightarrow>
       \<exists>r'. val_reads (ms_Body m) rr ks = (?data, Some (BodyIo EOF), r') \<and> stream r' = rest"
    using body_written[OF tw(2) good(1) tr(2) good(2), of ?w] by blast
  have st: "write_start buffer_wire r host ruri [] = (?line @ crlf @ concat (map entry_text (start_entries r host)), None)"
    by (simp add: write_start_entries)
  have hd: "write_headers buffer_wire tw (rq_Header r) None (?line @ crlf @ concat (map entry_text (start_entries r host))) = (?w, None)"
    by (simp add: write_headers_entries[OF tr(1)] all_entries_def)
  have "send_request buffer_wire None False None None late r host ruri [] = (?w @ body, None, if rq_Body r = NilBody then 0 else 1)"
    unfolding send_request_def Let_def st prod.case option.case tw(1) sum.case hd
    using body(1,2) by (simp add: do_flush_def)
  then have written: "Request_Write PH VH buffer_wire None False late r [] = Ret (?w @ body, None, if rq_Body r = NilBody then 0 else 1)"
    by (simp add: Request_Write_def request_write_def assms(2))
  have "\<exists>req r1 r2. ReadRequest T False C b = (Inr req, r1) \<and> received_as r host ruri u req \<and>
        val_reads (rq_Body req) r1 ks = (?data, Some (BodyIo EOF), r2) \<and> stream r2 = rest"
    if b: "bufio_ok b" "stream b = (?w @ body) @ rest" "length (?w @ body) < 2 ^ 54" "\<forall>k\<in>set ks. 0 < k" "length ?data < length ks"
    for b rest ks
  proof -
    have sp: "CHR 0x0A \<notin> set ?line" using assms(3) by (intro line_no_newline) (simp_all add: sendable_def)
    then have nl: "CHR 0x0A \<notin> set (?line @ [CHR 0x0D])" by simp
    have "stream b = (?line @ [CHR 0x0D]) @ CHR 0x0A # (concat (map entry_text ?es) @ crlf @ body @ rest)"
      using b(2) by (simp add: crlf_def)
    from readLine_stream[OF this nl b(1), of "[]"] obtain b1 where
      b1: "readLineSlice_loop [] b = (Inr ?line, b1)" "stream b1 = concat (map entry_text ?es) @ crlf @ body @ rest" "bufio_ok b1"
      using strip_cr_snoc[of ?line] by auto
    then have rl: "ReadLine (NewReader b) = (Inr ?line, (NewReader b)\<lparr>rd_R := b1\<rparr>)"
      by (simp add: ReadLine_def readLineSlice_def closeDot_def NewReader_def)
    have ok: "\<forall>e\<in>set ?es. entry_ok e"
      using assms(3) tw(2) tr(1) by (intro all_entries_ok) (auto simp: sendable_def tw_ready_def)
    have "200 * int (length (concat (map entry_text ?es))) \<le> 2 ^ 62" using b(3) by simp
    then have size: "sum_list (map entry_size ?es) \<le> 2 ^ 62" using entries_size[of ?es] by linarith
    let ?tp = "(NewReader b)\<lparr>rd_R := b1\<rparr>"
    obtain tp where tp: "ReadMIMEHeader ?tp = ((Some (header_of ?es), None), tp)" "stream (rd_R tp) = body @ rest" "bufio_ok (rd_R tp)"
      using ReadMIMEHeader_entries[OF ok _ _ _ size, of ?tp "body @ rest"] b1(2,3) by (auto simp: header_of_def NewReader_def)
    define req where "req = (new_request :: body request)\<lparr>rq_Method := ?m, rq_RequestURI := ruri, rq_Proto := ''HTTP/1.1'',
      rq_ProtoMajor := 1, rq_ProtoMinor := 1, rq_URL := Some u\<rparr>"
    have start: "request_start T ?line = Inr req"
      unfolding req_def using assms(1,3) by (intro request_line_read) (auto simp: sendable_def valueOrDefault_def)
    obtain req' m where req': "request_header False C req (header_of ?es) (rd_R tp) = Inr req'"
      "received_as r host ruri u (req'\<lparr>rq_Header := AList.delete ''Host'' (rq_Header req')\<rparr>)"
      "rq_Body req' = ms_Body m" "framed_as (framing_written tw) (rd_R tp) m"
      using request_header_read[OF assms(3) tw(2) refl req_def, of C "rd_R tp"] by blast
    have read: "ReadRequest T False C b = (Inr (req'\<lparr>rq_Header := AList.delete ''Host'' (rq_Header req')\<rparr>), rd_R tp)"
      unfolding ReadRequest_def readRequest_def rl prod.case sum.case start tp(1) option.case req'(1) ..
    obtain r2 where "val_reads (ms_Body m) (rd_R tp) ks = (?data, Some (BodyIo EOF), r2)" "stream r2 = rest"
      using body(3)[OF req'(4) tp(3,2) b(4,5)] by blast
    then show ?thesis using read req'(2,3)
      by (intro exI[of _ "req'\<lparr>rq_Header := AList.delete ''Host'' (rq_Header req')\<rparr>"] exI[of _ "rd_R tp"] exI[of _ r2]) simp
  qed
  then show ?thesis using written by (intro exI[of _ "?w @ body"]) blast
qed

section \<open>Properties\<close>

text \<open>C1: A request that satisfies sendable is written without an error, and its body is closed once.  A server that
  reads the bytes, however they arrive and whatever follows them, gets the request: its method, target, host, the
  values of every header that Write does not set itself, in their order, and a body that delivers exactly the bytes of the body
  and then EOF, chunked or with a length, and leaves what follows.\<close>

theorem request_roundtrip:
  assumes "token_runes T" and "request_target PH VH False r = Ret (Inr (host, ruri))" and "sendable r host ruri u"
  shows "\<exists>out. Request_Write PH VH buffer_wire None False late r [] = Ret (out, None, if rq_Body r = NilBody then 0 else 1) \<and>
    (\<forall>b rest ks. bufio_ok b \<and> stream b = out @ rest \<and> length out < 2 ^ 54 \<and>
        (\<forall>k\<in>set ks. 0 < k) \<and> length (out_data (rq_Body r)) < length ks \<longrightarrow>
      (\<exists>req r1 r2. ReadRequest T False C b = (Inr req, r1) \<and> received_as r host ruri u req \<and>
        val_reads (rq_Body req) r1 ks = (out_data (rq_Body r), Some (BodyIo EOF), r2) \<and> stream r2 = rest))"
  by (rule request_written_read[OF assms])

definition sample_request :: "wbody request" where
  "sample_request = new_request\<lparr>rq_Method := ''POST'', rq_URL := Some (new_URL\<lparr>Path := ''/p'', RawQuery := ''q=1''\<rparr>),
     rq_Host := ''a.example'', rq_Header := [(''Accept'', [''x''])],
     rq_Body := TheBody \<lparr>wb_pieces = [''h'', ''i''], wb_end = EOF, wb_eager = True, wb_closeErr = None, wb_inMemory = False\<rparr>\<rparr>"

lemma request_roundtrip_witness:
  "\<exists>out. Request_Write Inr (\<lambda>_. True) buffer_wire None False False sample_request [] = Ret (out, None, 1) \<and>
    (\<forall>b rest. bufio_ok b \<and> stream b = out @ rest \<and> length out < 2 ^ 54 \<longrightarrow>
      (\<exists>req r1 r2. ReadRequest (\<lambda>r. r < 128 \<and> token_byte (char_of r)) False (\<lambda>_ _. False) b = (Inr req, r1) \<and>
        rq_RequestURI req = ''/p?q=1'' \<and>
        val_reads (rq_Body req) r1 [1, 1, 1] = (''hi'', Some (BodyIo EOF), r2) \<and> stream r2 = rest))"
proof -
  let ?T = "\<lambda>r. r < 128 \<and> token_byte (char_of r)"
  have T: "token_runes ?T" by (auto simp: token_runes_def less_char_def)
  have tgt: "request_target Inr (\<lambda>_. True) False sample_request = Ret (Inr (''a.example'', ''/p?q=1''))" by code_simp
  obtain u where u: "ParseRequestURI ''/p?q=1'' = Inr u"
  proof -
    have "(case ParseRequestURI ''/p?q=1'' of Inr u \<Rightarrow> True | Inl _ \<Rightarrow> False)" by code_simp
    then show thesis using that by (cases "ParseRequestURI ''/p?q=1''") auto
  qed
  have clean: "clean_value ''a.example'' = ''a.example''" "clean_value ''x'' = ''x''" by code_simp+
  have key: "CanonicalMIMEHeaderKey ''Accept'' = ''Accept''" by (rule canonical_key_fixed; code_simp)
  have tok: "list_all token_byte ''POST''" "token ''Accept''" by (simp_all add: validHeaderFieldByte_token token_byte_def)
  have "sendable sample_request ''a.example'' ''/p?q=1'' u"
    using u clean key tok
    by (simp add: sendable_def sample_request_def new_request_def good_body_def lengths_ok_def out_data_def valueOrDefault_def
        header_ok_def stringContainsCTLByte_def validHeaderValueByte_iff less_eq_char_def less_char_def)
  from request_roundtrip[OF T tgt this, of False "\<lambda>_ _. False"] obtain out where
    w: "Request_Write Inr (\<lambda>_. True) buffer_wire None False False sample_request [] =
      Ret (out, None, if rq_Body sample_request = NilBody then 0 else 1)"
    and r: "\<forall>b rest ks. bufio_ok b \<and> stream b = out @ rest \<and> length out < 2 ^ 54 \<and>
        (\<forall>k\<in>set ks. 0 < k) \<and> length (out_data (rq_Body sample_request)) < length ks \<longrightarrow>
      (\<exists>req r1 r2. ReadRequest ?T False (\<lambda>_ _. False) b = (Inr req, r1) \<and> received_as sample_request ''a.example'' ''/p?q=1'' u req \<and>
        val_reads (rq_Body req) r1 ks = (out_data (rq_Body sample_request), Some (BodyIo EOF), r2) \<and> stream r2 = rest)" by blast
  have d: "out_data (rq_Body sample_request) = ''hi''" "rq_Body sample_request \<noteq> NilBody"
    by (simp_all add: sample_request_def out_data_def)
  have ks: "\<forall>k\<in>set [1, 1, 1 :: nat]. 0 < k" "length ''hi'' < length [1, 1, 1 :: nat]" by simp_all
  have "\<exists>req r1 r2. ReadRequest ?T False (\<lambda>_ _. False) b = (Inr req, r1) \<and> rq_RequestURI req = ''/p?q=1'' \<and>
      val_reads (rq_Body req) r1 [1, 1, 1] = (''hi'', Some (BodyIo EOF), r2) \<and> stream r2 = rest"
    if "bufio_ok b" "stream b = out @ rest" "length out < 2 ^ 54" for b rest
    using r[unfolded d(1), rule_format, of b rest "[1, 1, 1]"] that ks unfolding received_as_def by blast
  then show ?thesis using w d(2) by (intro exI[of _ out]) simp
qed

end
