(* ===== verification/Response_Correct.thy ===== *)
theory Response_Correct
  imports Http_Response Request_Correct
begin

text \<open>
  A response that Write puts on the wire is read back by ReadResponse: the status, every header in its order,
  the framing, and the body, be it chunked, of a known length, or delimited by the end of the connection.
\<close>

declare send_all.simps [simp del]

section \<open>The status line\<close>

lemma utoa_three:
  assumes "100 \<le> n" and "n \<le> 999"
  shows "length (utoa n) = 3"
proof -
  have "n div 10 div 10 < 10" using assms(2) by auto
  then show ?thesis using assms(1) by (simp add: utoa.simps[of n] utoa.simps[of "n div 10"] utoa.simps[of "n div 10 div 10"])
qed

lemma utoa_plain: "c \<in> set (utoa n) \<Longrightarrow> c \<noteq> CHR '' '' \<and> c \<noteq> CHR 0x0A"
  using utoa_digits[of n] by (auto simp: list_all_iff digit_def less_eq_char_def)

lemma status_code_text:
  assumes "100 \<le> c" and "c \<le> 999"
  shows "fmt_03d c = Itoa c" "length (Itoa c) = 3" "Atoi (Itoa c) = Inr c" "CHR '' '' \<notin> set (Itoa c)" "CHR 0x0A \<notin> set (Itoa c)"
proof -
  have len: "length (utoa (nat c)) = 3" using assms by (intro utoa_three) auto
  then show "fmt_03d c = Itoa c" "length (Itoa c) = 3"
    using assms by (simp_all add: fmt_03d_def Itoa_def zero_pad_def)
  show "Atoi (Itoa c) = Inr c" using assms by (intro Atoi_Itoa) simp_all
  show "CHR '' '' \<notin> set (Itoa c)" "CHR 0x0A \<notin> set (Itoa c)"
    using utoa_plain[of _ "nat c"] assms by (auto simp: Itoa_def)
qed

lemma status_line_read:
  assumes "100 \<le> c" and "c \<le> 999"
  shows "response_start (''HTTP/1.1'' @ '' '' @ Itoa c @ '' '' @ t) =
    Inr (new_response\<lparr>rp_Proto := ''HTTP/1.1'', rp_Status := Itoa c @ '' '' @ t, rp_StatusCode := c,
      rp_ProtoMajor := 1, rp_ProtoMinor := 1\<rparr>)"
proof -
  note code = status_code_text[OF assms]
  have c1: "cut_byte (CHR '' '') (''HTTP/1.1'' @ '' '' @ Itoa c @ '' '' @ t) = (''HTTP/1.1'', Itoa c @ '' '' @ t, True)"
    using cut_byte_in[of "CHR '' ''" "''HTTP/1.1''"] by simp
  have c2: "cut_byte (CHR '' '') (Itoa c @ '' '' @ t) = (Itoa c, t, True)"
    using cut_byte_in[OF code(4)] by simp
  have ne: "Itoa c \<noteq> []" using code(2) by auto
  then have "hd (Itoa c @ '' '' @ t) \<in> set (Itoa c)" by simp
  then have "hd (Itoa c @ '' '' @ t) \<noteq> CHR '' ''" using code(4) by metis
  then have tr: "trim_left_by (\<lambda>c. c = CHR '' '') (Itoa c @ '' '' @ t) = Itoa c @ '' '' @ t" by simp
  have v: "ParseHTTPVersion ''HTTP/1.1'' = Some (1, 1)" by (simp add: ParseHTTPVersion_def)
  show ?thesis
    unfolding response_start_def c1 prod.case tr c2 Let_def fst_conv code(2,3) sum.case v option.case using assms(1) by simp
qed

section \<open>A body that ends with the connection\<close>

lemma raw_reads:
  assumes "fresh b" and "\<not> b_hdr b" and "b_src b = RawSrc r" and "bufio_ok r"
    and "\<forall>k\<in>set ks. 0 < k" and "length (stream r) < length ks"
  shows "\<exists>b' r'. body_reads b ks = (stream r, Some (BodyIo EOF), b') \<and> b_src b' = RawSrc r' \<and> stream r' = []"
  using assms
proof (induction ks arbitrary: b r)
  case (Cons k ks)
  have op: "\<not> b_closed b" "\<not> b_sawEOF b" using Cons.prems(1) by (simp_all add: fresh_def)
  obtain d e r1 where rd: "bufio_Read k r = (d, e, r1)" by (metis surj_pair)
  note spec = bufio_Read_spec[OF rd Cons.prems(4)]
  show ?case
  proof (cases e)
    case (Some x)
    then have e: "e = Some EOF" "d = []" "stream r = []" using spec(5) by auto
    moreover have "stream r1 = []" using spec(1) e by simp
    ultimately show ?thesis
      using op Cons.prems(2,3) rd by (simp add: body_Read_def readLocked_def at_eof_def Let_def)
  next
    case None
    have k: "0 < k" using Cons.prems(5) by simp
    have d: "d \<noteq> []" "stream r = d @ stream r1" "bufio_ok r1" using spec(4)[OF None k] spec(1,2) by blast+
    let ?b1 = "b\<lparr>b_src := RawSrc r1\<rparr>"
    have rdk: "body_Read k b = (d, None, ?b1)"
      using op Cons.prems(2,3) rd None by (simp add: body_Read_def readLocked_def at_eof_def Let_def)
    have pre: "fresh ?b1" "\<not> b_hdr ?b1" "b_src ?b1 = RawSrc r1" using op Cons.prems(2) by (simp_all add: fresh_def)
    have "length (stream r1) < length ks" using Cons.prems(6) d by (cases d) auto
    from Cons.IH[OF pre d(3) _ this] obtain b' r' where
      "body_reads ?b1 ks = (stream r1, Some (BodyIo EOF), b')" "b_src b' = RawSrc r'" "stream r' = []"
      using Cons.prems(5) by auto
    then show ?thesis using rdk d(2) by auto
  qed
qed simp

lemma read_raw_body:
  assumes "framed_as UntilClose r m" and "bufio_ok r" and "\<forall>k\<in>set ks. 0 < k" and "length (stream r) < length ks"
  shows "\<exists>r'. val_reads (ms_Body m) r ks = (stream r, Some (BodyIo EOF), r') \<and> stream r' = []"
proof -
  let ?b = "new_body (RawSrc r) False True (ms_Trailer m)"
  have "fresh ?b" "\<not> b_hdr ?b" "b_src ?b = RawSrc r" by (simp_all add: fresh_def new_body_def)
  from raw_reads[OF this assms(2-4)] show ?thesis using assms(1) by (auto simp: framed_as_def val_reads_def)
qed

lemma send_body_raw:
  assumes "\<not> te_chunked (tw_TransferEncoding t)" and "tw_Body t = Some b" and "wb_end b = EOF"
    and "tw_ContentLength t = - 1"
  shows "\<exists>n b'. send_body buffer_wire None t w = (w @ wb_data b, n, None, t\<lparr>tw_Body := Some b'\<rparr>)"
proof -
  obtain ds b' where c: "doBodyCopy buffer_wire None t b w = (fold (\<lambda>d w. w @ d) ds w, length (concat ds), None, b', t)"
    "concat ds = limit_data None (wb_data b)" "\<forall>d\<in>set ds. d \<noteq> []"
    by (rule doBodyCopy_ends[OF faithful_buffer assms(3)])
  have fl: "flush_wire None buffer_wire = buffer_wire"
    by (intro ext) (simp add: flush_wire_def split: prod.split)
  show ?thesis
    using assms c(1,2) fold_app[of "\<lambda>d. d" ds w]
    by (intro exI[of _ "length (concat ds)"] exI[of _ b']) (simp add: send_body_def fl limit_data_def)
qed

lemma writeBody_raw:
  assumes "\<not> te_chunked (tw_TransferEncoding t)" and "tw_Body t = Some b" and "wb_end b = EOF"
    and "tw_BodyCloser t = Some None" and "tw_ContentLength t = - 1"
  shows "\<exists>t'. tw_writeBody buffer_wire None t w = (w @ wb_data b, None, t')"
proof -
  obtain n b' where s: "send_body buffer_wire None t w = (w @ wb_data b, n, None, t\<lparr>tw_Body := Some b'\<rparr>)"
    using send_body_raw[OF assms(1-3,5)] by blast
  let ?t = "t\<lparr>tw_Body := Some b', tw_closes := Suc (tw_closes t)\<rparr>"
  have "finish_body buffer_wire ?t n v = (v, None)" for v
    using assms(1,5) by (simp add: finish_body_def)
  then show ?thesis using s assms(4) by (simp add: tw_writeBody_def close_body_def)
qed

section \<open>What is sent\<close>

definition response_data :: "wbody response \<Rightarrow> string" where
  "response_data r = out_data (rp_Body r)"

text \<open>
  What a response must satisfy to be sent so that it can be read: the declared length, if there is one, is the
  length of the body, a status that allows no body comes without one, the keys of the header and of the trailer are
  canonical tokens, and a body of unknown length delivers a byte at its first read.
\<close>

definition response_sendable :: "wbody response \<Rightarrow> bool" where
  "response_sendable r =
     (good_body (rp_Body r) \<and> length (response_data r) < 2 ^ 61 \<and>
      rp_ProtoMajor r = 1 \<and> rp_ProtoMinor r = 1 \<and> 100 \<le> rp_StatusCode r \<and> rp_StatusCode r \<le> 999 \<and>
      CHR 0x0A \<notin> set (status_text r) \<and> header_ok (rp_Header r) \<and> rp_RequestMethod r \<noteq> Some ''HEAD'' \<and>
      (case rp_Trailer r of None \<Rightarrow> True
       | Some tr \<Rightarrow> trailers_allowed tr \<and> length (fst (Header_Write buffer_wire tr [])) + 2 \<le> bufio_size) \<and>
      rp_TransferEncoding r \<in> set [[], [''chunked'']] \<and>
      (rp_TransferEncoding r \<noteq> [] \<longrightarrow> rp_Body r \<noteq> NilBody) \<and>
      - 1 \<le> rp_ContentLength r \<and> (0 < rp_ContentLength r \<longrightarrow> rp_ContentLength r = int (length (response_data r))) \<and>
      (\<forall>b. reader_of (rp_Body r) = Some b \<longrightarrow> [] \<notin> set (wb_pieces b)) \<and>
      (\<not> bodyAllowedForStatus (rp_StatusCode r) \<longrightarrow> response_data r = [] \<and> rp_TransferEncoding r = []))"

text \<open>The end of the body can be seen without the end of the connection.\<close>

definition length_known :: "wbody response \<Rightarrow> bool" where
  "length_known r =
     (rp_TransferEncoding r = [''chunked''] \<or> 0 < rp_ContentLength r \<or>
      rp_ContentLength r = 0 \<and> response_data r = [] \<or> \<not> bodyAllowedForStatus (rp_StatusCode r))"

text \<open>The copy that prepare_response makes.\<close>

definition prepared :: "wbody response \<Rightarrow> wbody response \<Rightarrow> bool" where
  "prepared r r1 =
     (response_data r1 = response_data r \<and> good_body (rp_Body r1) \<and> (rp_Body r1 = NilBody \<longleftrightarrow> rp_Body r = NilBody) \<and>
      rp_TransferEncoding r1 = rp_TransferEncoding r \<and> rp_Trailer r1 = rp_Trailer r \<and> rp_Header r1 = rp_Header r \<and>
      rp_RequestMethod r1 = rp_RequestMethod r \<and> rp_StatusCode r1 = rp_StatusCode r \<and>
      response_ProtoAtLeast r1 1 1 = response_ProtoAtLeast r 1 1 \<and>
      rp_ContentLength r1 = (if rp_ContentLength r = 0 \<and> response_data r \<noteq> [] then - 1 else rp_ContentLength r))"

lemma wb_Read_first:
  assumes "wb_Read 1 b = (d, e, b')" and "[] \<notin> set (wb_pieces b)"
  shows "d = [] \<longleftrightarrow> wb_data b = []"
  using assms by (cases "wb_pieces b") (auto simp: wb_Read_def split: if_splits)

lemma probe_prepared:
  assumes "good_body (rp_Body r)" and "\<And>b. reader_of (rp_Body r) = Some b \<Longrightarrow> [] \<notin> set (wb_pieces b)"
  shows "\<exists>r1. probe_response r = Inr r1 \<and> prepared r r1"
proof (cases "reader_of (rp_Body r)")
  case None
  then have "rp_Body r = NilBody" by (cases "rp_Body r") auto
  then show ?thesis using assms(1) None
    by (simp add: probe_response_def prepared_def response_data_def out_data_def)
next
  case (Some b)
  have notnil: "rp_Body r \<noteq> NilBody" using Some by auto
  show ?thesis
  proof (cases "rp_ContentLength r = 0")
    case False
    then show ?thesis using assms(1) Some by (simp add: probe_response_def prepared_def)
  next
    case True
    have b: "wb_end b = EOF" "wb_closeErr b = None" using assms(1) Some by (simp_all add: good_body_def)
    obtain d e b' where rd: "wb_Read 1 b = (d, e, b')" by (metis surj_pair)
    note spec = wb_Read_spec[OF rd] and pb = put_back_data[OF rd, of False]
    have e: "e = None \<or> e = Some EOF" using spec(4,7) b(1) by (cases e) auto
    have d: "d = [] \<longleftrightarrow> wb_data b = []" by (rule wb_Read_first[OF rd assms(2)[OF Some]])
    have data: "response_data r = wb_data b" using Some by (simp add: response_data_def out_data_def)
    have cl: "wb_closeErr (put_back False d e b') = None"
      using rd b(2) by (auto simp: put_back_def wb_Read_def split: option.split list.splits if_splits)
    show ?thesis
    proof (cases "d = []")
      case True
      then have "probe_response r = Inr (r\<lparr>rp_Body := NoBody\<rparr>)"
        using Some \<open>rp_ContentLength r = 0\<close> rd e by (auto simp: probe_response_def)
      moreover have "wb_data empty_wbody = []" by (simp add: empty_wbody_def)
      ultimately show ?thesis using d True data notnil \<open>rp_ContentLength r = 0\<close>
        by (auto simp: prepared_def response_data_def out_data_def good_body_def empty_wbody_def response_ProtoAtLeast_def)
    next
      case False
      then have "probe_response r = Inr (r\<lparr>rp_ContentLength := - 1, rp_Body := TheBody (put_back False d e b')\<rparr>)"
        using Some \<open>rp_ContentLength r = 0\<close> rd e by (auto simp: probe_response_def)
      then show ?thesis using d False data notnil \<open>rp_ContentLength r = 0\<close> pb b(1) cl
        by (auto simp: prepared_def response_data_def out_data_def good_body_def response_ProtoAtLeast_def)
    qed
  qed
qed

lemma prepare_prepared:
  assumes "response_sendable r"
  shows "\<exists>r1. prepare_response r = Inr r1 \<and> prepared r r1"
proof -
  have "good_body (rp_Body r)" "\<And>b. reader_of (rp_Body r) = Some b \<Longrightarrow> [] \<notin> set (wb_pieces b)"
    using assms unfolding response_sendable_def by blast+
  then obtain r0 where r0: "probe_response r = Inr r0" "prepared r r0" using probe_prepared by blast
  have "prepared r (r0\<lparr>rp_Close := True\<rparr>)"
    using r0(2) by (simp add: prepared_def response_data_def response_ProtoAtLeast_def)
  then show ?thesis using r0 by (cases "must_close r0") (auto simp: prepare_response_def)
qed

text \<open>The transferWriter of the copy.\<close>

definition response_tw :: "wbody response \<Rightarrow> transferWriter \<Rightarrow> bool" where
  "response_tw r t =
     (body_data t = response_data r \<and> body_ends t \<and> tw_BodyCloser t = map_option (\<lambda>_. None) (reader_of (rp_Body r)) \<and>
      (tw_Body t = None \<longleftrightarrow> rp_Body r = NilBody) \<and> tw_closes t = 0 \<and> \<not> tw_ResponseToHEAD t \<and> tw_Header t = rp_Header r \<and>
      (if rp_TransferEncoding r = [''chunked''] then te_chunked (tw_TransferEncoding t) \<and> tw_ContentLength t = - 1 \<and> tw_Trailer t = rp_Trailer r
       else \<not> te_chunked (tw_TransferEncoding t) \<and> tw_Trailer t = None \<and>
         tw_ContentLength t = (if rp_Body r = NilBody then 0
           else if rp_ContentLength r = 0 \<and> response_data r \<noteq> [] then - 1 else rp_ContentLength r)))"

lemma newTransferWriter_response:
  assumes "response_sendable r" and "prepared r r1"
  shows "\<exists>t. newTransferWriter False (OutResponse r1) = Inr t \<and> response_tw r t"
proof -
  have te: "rp_TransferEncoding r1 = [] \<or> rp_TransferEncoding r1 = [''chunked''] \<and> rp_Body r1 \<noteq> NilBody"
    using assms by (auto simp: response_sendable_def prepared_def)
  have p: "response_ProtoAtLeast r1 1 1" and head: "rp_RequestMethod r1 \<noteq> Some ''HEAD''"
    using assms by (auto simp: response_sendable_def prepared_def response_ProtoAtLeast_def)
  have closer: "closer_of (rp_Body r1) = map_option (\<lambda>_. None) (reader_of (rp_Body r))"
    using assms(2) by (cases "rp_Body r1"; cases "rp_Body r") (auto simp: prepared_def closer_of_def good_body_def empty_wbody_def)
  have nil: "reader_of (rp_Body r1) = None \<longleftrightarrow> rp_Body r = NilBody"
    using assms(2) by (cases "rp_Body r1") (auto simp: prepared_def)
  let ?t = "tw_of_response r1"
  have t: "\<not> tw_ResponseToHEAD ?t" "tw_Body ?t = reader_of (rp_Body r1)" "tw_BodyCloser ?t = closer_of (rp_Body r1)"
    "tw_ContentLength ?t = rp_ContentLength r1" "tw_TransferEncoding ?t = rp_TransferEncoding r1" "tw_Header ?t = rp_Header r1"
    "tw_Trailer ?t = rp_Trailer r1" "tw_closes ?t = 0"
    using head by (auto simp: tw_of_response_def Let_def new_tw_def noResponseBodyExpected_def split: option.splits)
  have data: "out_data (rp_Body r1) = response_data r" and ends: "good_body (rp_Body r1)"
    using assms(2) by (simp_all add: prepared_def response_data_def)
  have "response_tw r (sanitize_tw True ?t)"
    using te
  proof (elim disjE)
    assume te: "rp_TransferEncoding r1 = []"
    then show ?thesis
      using t closer nil data ends assms
      by (auto simp: response_tw_def sanitize_tw_def te_chunked_def Let_def body_data_def body_ends_def out_data_def good_body_def
          prepared_def split: option.splits)
  next
    assume te: "rp_TransferEncoding r1 = [''chunked''] \<and> rp_Body r1 \<noteq> NilBody"
    then obtain b where b: "reader_of (rp_Body r1) = Some b" by (cases "rp_Body r1") auto
    have te': "rp_TransferEncoding r = [''chunked'']" "rp_TransferEncoding r1 = [''chunked'']"
      using te assms(2) by (simp_all add: prepared_def)
    show ?thesis
      using b te' t closer nil data ends assms
      by (auto simp: response_tw_def sanitize_tw_def te_chunked_def Let_def body_data_def body_ends_def out_data_def good_body_def
          prepared_def split: option.splits)
  qed
  then show ?thesis using p by (simp add: newTransferWriter_def)
qed

section \<open>The header that arrives\<close>

abbreviation framing_key :: "string \<Rightarrow> bool" where
  "framing_key k \<equiv> k \<in> set [''Content-Length'', ''Transfer-Encoding'', ''Trailer'']"

definition zero_length :: "wbody response \<Rightarrow> transferWriter \<Rightarrow> bool" where
  "zero_length r1 t =
     (rp_ContentLength r1 = 0 \<and> \<not> te_chunked (rp_TransferEncoding r1) \<and> \<not> shouldSendContentLength t \<and>
      bodyAllowedForStatus (rp_StatusCode r1))"

definition response_entries :: "wbody response \<Rightarrow> wbody response \<Rightarrow> transferWriter \<Rightarrow> (string \<times> string) list" where
  "response_entries r r1 t =
     framing_entries t @ header_entries (sortedKeyValues respExcludeHeader (rp_Header r)) @
     (if zero_length r1 t then [(''Content-Length'', ''0'')] else [])"

lemma response_headers_entries:
  assumes "trailers_allowed (trailer_map t)" and "prepared r r1"
  shows "response_headers buffer_wire r r1 t w = (w @ concat (map entry_text (response_entries r r1 t)) @ crlf, None)"
proof -
  have code: "rp_StatusCode r1 = rp_StatusCode r" using assms(2) by (simp add: prepared_def)
  have "(if zero_length r1 t then send_all buffer_wire [''Content-Length: 0'' @ crlf] v else (v, None)) =
      (v @ concat (map entry_text (if zero_length r1 t then [(''Content-Length'', ''0'')] else [])), None)" for v
    by (simp add: send_all_buffer entry_text_def)
  then show ?thesis
    by (simp add: response_headers_def and_send_def writeHeader_entries[OF assms(1)] writeSubset_def write_kvs_buffer
        response_entries_def zero_length_def code del: entry_text_def) (simp add: send_all_buffer)
qed

lemma excluded_framing: "map_of respExcludeHeader k = Some True \<longleftrightarrow> framing_key k"
  by (auto simp: respExcludeHeader_def)

lemma response_entries_ok:
  assumes "header_ok (rp_Header r)" and "trailers_allowed (trailer_map t)"
  shows "\<forall>e\<in>set (response_entries r r1 t). entry_ok e"
proof -
  have "entry_ok (''Content-Length'', ''0'')"
    by (rule solid_entry_ok) (simp_all add: validHeaderValueByte_iff blank_def less_eq_char_def)
  then show ?thesis
    using framing_entries_ok[OF assms(2)] written_entries_ok[OF assms(1)] by (auto simp: response_entries_def)
qed

lemma vals_of_response:
  assumes "header_ok (rp_Header r)"
  shows "vals_of ''Content-Length'' (response_entries r r1 t) =
      (if shouldSendContentLength t then [Itoa (tw_ContentLength t)] else if zero_length r1 t then [''0''] else [])"
    and "vals_of ''Transfer-Encoding'' (response_entries r r1 t) = vals_of ''Transfer-Encoding'' (framing_entries t)"
    and "vals_of ''Trailer'' (response_entries r r1 t) = vals_of ''Trailer'' (framing_entries t)"
    and "\<not> framing_key k \<Longrightarrow> k \<noteq> ''Connection'' \<Longrightarrow>
      vals_of k (response_entries r r1 t) = map clean_value (values_at (rp_Header r) k)"
proof -
  have w: "vals_of k (header_entries (sortedKeyValues respExcludeHeader (rp_Header r))) =
      (if framing_key k then [] else map clean_value (values_at (rp_Header r) k))" for k
    unfolding vals_of_def written_values_of[OF assms] excluded_framing ..
  have z: "vals_of k (if zero_length r1 t then [(''Content-Length'', ''0'')] else []) =
      (if k = ''Content-Length'' \<and> zero_length r1 t then [''0''] else [])" for k
    by (simp add: vals_of_def)
  have ns: "zero_length r1 t \<Longrightarrow> \<not> shouldSendContentLength t" by (simp add: zero_length_def)
  show "vals_of ''Content-Length'' (response_entries r r1 t) =
      (if shouldSendContentLength t then [Itoa (tw_ContentLength t)] else if zero_length r1 t then [''0''] else [])"
    using ns by (auto simp: response_entries_def w z vals_of_framing)
  show "vals_of ''Transfer-Encoding'' (response_entries r r1 t) = vals_of ''Transfer-Encoding'' (framing_entries t)"
    "vals_of ''Trailer'' (response_entries r r1 t) = vals_of ''Trailer'' (framing_entries t)"
    by (simp_all add: response_entries_def w z)
  show "\<not> framing_key k \<Longrightarrow> k \<noteq> ''Connection'' \<Longrightarrow>
      vals_of k (response_entries r r1 t) = map clean_value (values_at (rp_Header r) k)"
    by (auto simp: response_entries_def w z vals_of_framing(4))
qed

text \<open>The framing that the reader finds.\<close>

definition response_framing :: "wbody response \<Rightarrow> wbody response \<Rightarrow> transferWriter \<Rightarrow> framing" where
  "response_framing r r1 t =
     (if \<not> bodyAllowedForStatus (rp_StatusCode r) then Bytes 0
      else if te_chunked (tw_TransferEncoding t) then Chunks
      else if shouldSendContentLength t \<or> zero_length r1 t then Bytes (length (response_data r))
      else UntilClose)"

lemma response_framing_read:
  assumes "response_sendable r" and "response_tw r t" and "prepared r r1"
    and "trailers_allowed (trailer_map t)"
    and "values_at h ''Content-Length'' = vals_of ''Content-Length'' (response_entries r r1 t)"
    and "map_of h ''Transfer-Encoding'' = (if vals_of ''Transfer-Encoding'' (framing_entries t) = [] then None
      else Some (vals_of ''Transfer-Encoding'' (framing_entries t)))"
    and "values_at h ''Trailer'' = vals_of ''Trailer'' (framing_entries t)"
    and "m \<noteq> ''HEAD''"
  shows "framing_of True m (rp_StatusCode r) h = Some (response_framing r r1 t)"
proof -
  have hok: "header_ok (rp_Header r)" and len: "length (response_data r) < 2 ^ 63" using assms(1) by (simp_all add: response_sendable_def)
  have names: "list_all (\<lambda>k. \<not> bad_trailer_key (CanonicalHeaderKey k)) (trailer_names h)"
    using trailer_names_written[OF assms(4)] assms(7) vals_of_framing(3) by simp
  have empty: "declared_length [] = Some 0" by (simp add: declared_length_def)
  have "Itoa (int 0) = ''0''" by code_simp
  then have zero: "declared_length [''0''] = Some 0" using declared_Itoa[of 0] by simp
  note cl = assms(5)[unfolded vals_of_response(1)[OF hok]]
  show ?thesis
  proof (cases "te_chunked (tw_TransferEncoding t)")
    case True
    then have "\<not> shouldSendContentLength t" "\<not> zero_length r1 t"
      using assms(2,3) by (auto simp: shouldSendContentLength_def zero_length_def response_tw_def prepared_def te_chunked_def split: if_splits)
    then show ?thesis
      using True cl assms(6,8) names empty EqualFold_refl
      by (simp add: framing_of_def vals_of_framing response_framing_def bodyless_def)
  next
    case False
    have pos: "tw_ContentLength t = int (length (response_data r))" if "shouldSendContentLength t"
    proof -
      have "0 \<le> tw_ContentLength t" using that by (auto simp: shouldSendContentLength_def split: if_splits)
      moreover have "rp_Body r = NilBody \<Longrightarrow> response_data r = []" by (simp add: response_data_def out_data_def)
      ultimately show ?thesis using assms(1,2) False by (auto simp: response_tw_def response_sendable_def split: if_splits)
    qed
    have z: "response_data r = []" if "zero_length r1 t"
      using that assms(3) by (auto simp: zero_length_def prepared_def split: if_splits)
    have "declared_length (values_at h ''Content-Length'') = Some (if shouldSendContentLength t then length (response_data r) else 0)"
      using cl pos declared_Itoa[OF len] empty zero by simp
    then show ?thesis using False assms(6,8) cl z
      by (auto simp: framing_of_def vals_of_framing response_framing_def bodyless_def)
  qed
qed

lemma length_known_framing:
  assumes "response_sendable r" and "response_tw r t" and "prepared r r1"
    and "length_known r"
  shows "response_framing r r1 t \<noteq> UntilClose"
proof (cases "\<not> bodyAllowedForStatus (rp_StatusCode r) \<or> te_chunked (tw_TransferEncoding t)")
  case False
  then have te: "rp_TransferEncoding r = []" and nc: "\<not> te_chunked (tw_TransferEncoding t)"
    using assms(1,2) by (auto simp: response_sendable_def response_tw_def split: if_splits)
  consider "0 < rp_ContentLength r" | "rp_ContentLength r = 0" "response_data r = []"
    using assms(4) te False by (auto simp: length_known_def)
  then have "shouldSendContentLength t \<or> zero_length r1 t"
  proof cases
    case 1
    then have "response_data r \<noteq> []" using assms(1) by (auto simp: response_sendable_def)
    then have "rp_Body r \<noteq> NilBody" by (auto simp: response_data_def out_data_def)
    then have "0 < tw_ContentLength t" using 1 assms(2) te by (simp add: response_tw_def)
    then show ?thesis using nc by (simp add: shouldSendContentLength_def)
  next
    case 2
    then show ?thesis using assms(3) te False by (simp add: zero_length_def prepared_def te_chunked_def)
  qed
  then show ?thesis by (simp add: response_framing_def)
qed (auto simp: response_framing_def)

section \<open>The body\<close>

lemma response_body_written:
  assumes "response_sendable r" and "response_tw r t" and "prepared r r1" and "trailer_ok t"
  obtains out t' where "tw_writeBody buffer_wire None t w = (w @ out, None, t')"
    "tw_closes t' = (if rp_Body r = NilBody then 0 else 1)"
    "\<And>rr m rest ks. framed_as (response_framing r r1 t) rr m \<Longrightarrow> bufio_ok rr \<Longrightarrow> stream rr = out @ rest \<Longrightarrow>
       \<forall>k\<in>set ks. 0 < k \<Longrightarrow> length (response_data r) < length ks \<Longrightarrow>
       response_framing r r1 t = UntilClose \<longrightarrow> rest = [] \<Longrightarrow>
       \<exists>r'. val_reads (ms_Body m) rr ks = (response_data r, Some (BodyIo EOF), r') \<and> stream r' = rest"
proof -
  let ?data = "response_data r"
  have small: "length ?data < 2 ^ 61" using assms(1) by (simp add: response_sendable_def)
  have tw: "body_data t = ?data" "body_ends t" "tw_closes t = 0" "\<not> tw_ResponseToHEAD t"
    "tw_Body t = None \<longleftrightarrow> rp_Body r = NilBody" "tw_BodyCloser t = map_option (\<lambda>_. None) (reader_of (rp_Body r))"
    using assms(2) by (simp_all add: response_tw_def)
  have closer: "tw_BodyCloser t = (if rp_Body r = NilBody then None else Some None)"
    using tw(6) by (cases "rp_Body r") auto
  have closes: "tw_closes t' = (if rp_Body r = NilBody then 0 else 1)"
    if "tw_writeBody buffer_wire None t w = (w', e, t')" for w' e t'
    using writeBody_closes[OF that] tw(3) closer by simp
  have nobody: "\<not> te_chunked (tw_TransferEncoding t)" if "\<not> bodyAllowedForStatus (rp_StatusCode r)"
    using that assms(1,2) by (auto simp: response_sendable_def response_tw_def split: if_splits)
  note finish = that
  have plain: thesis
    if written: "tw_writeBody buffer_wire None t w = (w @ ?data, None, t')" and nc: "\<not> te_chunked (tw_TransferEncoding t)" for t'
  proof (rule finish[OF written closes[OF written]])
    fix rr m rest and ks :: "nat list"
    assume rd: "framed_as (response_framing r r1 t) rr m" "bufio_ok rr" "stream rr = ?data @ rest" "\<forall>k\<in>set ks. 0 < k"
      "length ?data < length ks" "response_framing r r1 t = UntilClose \<longrightarrow> rest = []"
    have "\<not> bodyAllowedForStatus (rp_StatusCode r) \<Longrightarrow> ?data = []" using assms(1) by (simp add: response_sendable_def)
    then have "response_framing r r1 t = Bytes (length ?data) \<or> response_framing r r1 t = UntilClose"
      using nc by (simp add: response_framing_def)
    then consider "response_framing r r1 t = Bytes (length ?data)" | "response_framing r r1 t = UntilClose" by blast
    then show "\<exists>r'. val_reads (ms_Body m) rr ks = (?data, Some (BodyIo EOF), r') \<and> stream r' = rest"
    proof cases
      case 1
      then show ?thesis using read_length_body rd by metis
    next
      case 2
      then show ?thesis using read_raw_body[of rr m ks] rd by auto
    qed
  qed
  show thesis
  proof (cases "tw_Body t")
    case None
    then have c: "\<not> te_chunked (tw_TransferEncoding t)" "tw_ContentLength t = 0" "?data = []"
      using assms(1,2) tw(1,5) by (auto simp: response_tw_def response_sendable_def body_data_def split: if_splits)
    then obtain t' where "tw_writeBody buffer_wire None t w = (w, None, t')"
      using writeBody_none[OF None c(1,2)] closer by (metis option.distinct(1))
    then show thesis using plain[of t'] c by simp
  next
    case (Some b)
    then have b: "wb_end b = EOF" "wb_data b = ?data" "tw_BodyCloser t = Some None"
      using tw(1,2,5) closer by (auto simp: body_ends_def body_data_def)
    show thesis
    proof (cases "te_chunked (tw_TransferEncoding t)")
      case True
      then have cl: "tw_ContentLength t = - 1" and f: "response_framing r r1 t = Chunks"
        using assms(2) nobody by (auto simp: response_tw_def response_framing_def split: if_splits)
      obtain ds t' where w: "tw_writeBody buffer_wire None t w = (w @ (enc_chunks ds @ last_chunk @ trailer_text t @ crlf), None, t')"
        "pieces_of ds ?data"
        using writeBody_chunked[OF True Some b(1,3) cl, of w] b(2) by auto
      show thesis
        by (rule finish[OF w(1) closes[OF w(1)]])
          (use read_chunked_body[OF True w(2) small assms(4)] f in \<open>simp del: append_assoc add: append_assoc[symmetric]\<close>)
    next
      case False
      have "tw_ContentLength t = - 1 \<or> tw_ContentLength t = int (length ?data)"
        using False assms(1,2) Some by (auto simp: response_tw_def response_sendable_def split: if_splits)
      then obtain t' where "tw_writeBody buffer_wire None t w = (w @ ?data, None, t')"
        using writeBody_raw[OF False Some b(1,3), of w] writeBody_length[OF False Some b(1,3) _ tw(4), of _ None w] b(2) by fastforce
      then show thesis using plain False by blast
    qed
  qed
qed

section \<open>The whole response\<close>

definition answered_as :: "wbody response \<Rightarrow> body response \<Rightarrow> bool" where
  "answered_as r resp =
     (rp_StatusCode resp = rp_StatusCode r \<and> rp_Status resp = Itoa (rp_StatusCode r) @ '' '' @ status_text r \<and>
      rp_ProtoMajor resp = 1 \<and> rp_ProtoMinor resp = 1 \<and>
      (\<forall>k. \<not> framing_key k \<and> k \<noteq> ''Connection'' \<and> k \<noteq> ''Cache-Control'' \<longrightarrow>
         values_at (rp_Header resp) k = map clean_value (values_at (rp_Header r) k)))"

lemma response_trailer:
  assumes "response_sendable r" and "response_tw r t"
  shows "trailers_allowed (trailer_map t)" "trailer_ok t"
proof -
  have t: "tw_Trailer t = None \<or> tw_Trailer t = rp_Trailer r" using assms(2) by (auto simp: response_tw_def split: if_splits)
  then show "trailers_allowed (trailer_map t)"
    using assms(1) trailers_nothing by (auto simp: trailer_map_def response_sendable_def split: option.splits)
  show "trailer_ok t"
    using t assms(1) trailers_nothing
    by (auto simp: trailer_ok_def trailer_text_def response_sendable_def trailers_allowed_def bufio_size_def split: option.splits)
qed

text \<open>What a reader makes of a status line and headers.\<close>

lemma response_header_read:
  assumes "\<forall>e\<in>set es. entry_ok e" and "m \<noteq> Some ''HEAD''"
    and "\<And>q. q \<noteq> ''HEAD'' \<Longrightarrow> framing_of True q c (fixPragmaCacheControl (header_of es)) = Some f"
    and "resp = new_response\<lparr>rp_Proto := ''HTTP/1.1'', rp_Status := st, rp_StatusCode := c, rp_ProtoMajor := 1,
      rp_ProtoMinor := 1, rp_RequestMethod := m, rp_RequestURL := u\<rparr>"
  shows "\<exists>resp' msg. response_header False C resp (header_of es) rr = Inr resp' \<and>
    rp_StatusCode resp' = c \<and> rp_Status resp' = st \<and> rp_ProtoMajor resp' = 1 \<and> rp_ProtoMinor resp' = 1 \<and>
    (\<forall>k. \<not> framing_key k \<and> k \<noteq> ''Connection'' \<and> k \<noteq> ''Cache-Control'' \<longrightarrow> values_at (rp_Header resp') k = vals_of k es) \<and>
    rp_Body resp' = ms_Body msg \<and> framed_as f rr msg"
proof -
  let ?h' = "fixPragmaCacheControl (header_of es)"
  have h': "map_of ?h' k = map_of (header_of es) k" if "k \<noteq> ''Cache-Control''" for k
    using fixPragma_others[OF that] by simp
  define resp1 where "resp1 = resp\<lparr>rp_Header := ?h'\<rparr>"
  have msg: "http11 (message_of_response resp1)" "ms_Header (message_of_response resp1) = ?h'"
    "ms_isResponse (message_of_response resp1)" "status_of (message_of_response resp1) = c"
    "method_of (message_of_response resp1) \<noteq> ''HEAD''"
    using assms(2)
    by (auto simp: http11_def message_of_response_def resp1_def assms(4) status_of_def method_of_def split: option.split)
  obtain ms where m: "readTransfer False C (message_of_response resp1) rr = (None, ms)" "framed_as f rr ms"
    "others_kept ?h' (ms_Header ms)"
    using readTransfer_framing[OF msg(1), of C rr] assms(3)[OF msg(5)] msg by auto
  have "response_header False C resp (header_of es) rr = Inr (response_with ms resp1)"
    using m(1) by (simp add: response_header_def resp1_def)
  moreover have "values_at (ms_Header ms) k = vals_of k es"
    if k: "\<not> framing_key k" "k \<noteq> ''Connection''" "k \<noteq> ''Cache-Control''" for k
  proof -
    have "map_of (ms_Header ms) k = map_of (header_of es) k" using m(3) k h' by (simp add: others_kept_def)
    then have "values_at (ms_Header ms) k = values_at (header_of es) k" by (simp add: values_at_def)
    then show ?thesis by (simp add: header_of_map(2)[OF assms(1)])
  qed
  ultimately show ?thesis
    using m(2) by (intro exI[of _ "response_with ms resp1"] exI[of _ ms]) (simp add: response_with_def resp1_def assms(4))
qed

lemma response_text_read:
  assumes "100 \<le> c" and "c \<le> 999" and "CHR 0x0A \<notin> set t" and "\<forall>e\<in>set es. entry_ok e" and "m \<noteq> Some ''HEAD''"
    and "\<And>q. q \<noteq> ''HEAD'' \<Longrightarrow> framing_of True q c (fixPragmaCacheControl (header_of es)) = Some f"
    and "bufio_ok b" and "stream b = (''HTTP/1.1'' @ '' '' @ Itoa c @ '' '' @ t) @ crlf @ concat (map entry_text es) @ crlf @ tail"
    and "length (concat (map entry_text es)) < 2 ^ 54"
  shows "\<exists>resp rr msg. Http_ReadResponse False C b m u = (Inr resp, rr) \<and>
    rp_StatusCode resp = c \<and> rp_Status resp = Itoa c @ '' '' @ t \<and> rp_ProtoMajor resp = 1 \<and> rp_ProtoMinor resp = 1 \<and>
    (\<forall>k. \<not> framing_key k \<and> k \<noteq> ''Connection'' \<and> k \<noteq> ''Cache-Control'' \<longrightarrow> values_at (rp_Header resp) k = vals_of k es) \<and>
    rp_Body resp = ms_Body msg \<and> framed_as f rr msg \<and> stream rr = tail \<and> bufio_ok rr"
proof -
  let ?line = "''HTTP/1.1'' @ '' '' @ Itoa c @ '' '' @ t"
  have nl: "CHR 0x0A \<notin> set (?line @ [CHR 0x0D])" using assms(3) status_code_text(5)[OF assms(1,2)] by simp
  have "stream b = (?line @ [CHR 0x0D]) @ CHR 0x0A # (concat (map entry_text es) @ crlf @ tail)"
    using assms(8) by (simp add: crlf_def)
  from readLine_stream[OF this nl assms(7), of "[]"] obtain b1 where
    b1: "readLineSlice_loop [] b = (Inr ?line, b1)" "stream b1 = concat (map entry_text es) @ crlf @ tail" "bufio_ok b1"
    using strip_cr_snoc[of ?line] by auto
  then have rl: "ReadLine (NewReader b) = (Inr ?line, (NewReader b)\<lparr>rd_R := b1\<rparr>)"
    by (simp add: ReadLine_def readLineSlice_def closeDot_def NewReader_def)
  have "200 * int (length (concat (map entry_text es))) \<le> 2 ^ 62" using assms(9) by simp
  then have sz: "sum_list (map entry_size es) \<le> 2 ^ 62" using entries_size[of es] by linarith
  let ?tp = "(NewReader b)\<lparr>rd_R := b1\<rparr>"
  obtain tp where tp: "ReadMIMEHeader ?tp = ((Some (header_of es), None), tp)" "stream (rd_R tp) = tail" "bufio_ok (rd_R tp)"
    using ReadMIMEHeader_entries[OF assms(4) _ _ _ sz, of ?tp tail] b1(2,3) by (auto simp: header_of_def NewReader_def)
  define resp where "resp = (new_response :: Http_Body.body response)\<lparr>rp_Proto := ''HTTP/1.1'', rp_Status := Itoa c @ '' '' @ t,
    rp_StatusCode := c, rp_ProtoMajor := 1, rp_ProtoMinor := 1, rp_RequestMethod := m, rp_RequestURL := u\<rparr>"
  obtain resp' msg where r: "response_header False C resp (header_of es) (rd_R tp) = Inr resp'"
    "rp_StatusCode resp' = c \<and> rp_Status resp' = Itoa c @ '' '' @ t \<and> rp_ProtoMajor resp' = 1 \<and> rp_ProtoMinor resp' = 1 \<and>
     (\<forall>k. \<not> framing_key k \<and> k \<noteq> ''Connection'' \<and> k \<noteq> ''Cache-Control'' \<longrightarrow> values_at (rp_Header resp') k = vals_of k es) \<and>
     rp_Body resp' = ms_Body msg \<and> framed_as f (rd_R tp) msg"
    using response_header_read[OF assms(4-6) resp_def, of C "rd_R tp"] by blast
  have "Http_ReadResponse False C b m u = (Inr resp', rd_R tp)"
    using r(1) unfolding resp_def Http_ReadResponse_def rl prod.case sum.case status_line_read[OF assms(1,2)] tp(1) option.case by simp
  then show ?thesis using r(2) tp(2,3) by blast
qed

text \<open>The body that is closed is that of the response, unless it was replaced by NoBody.\<close>

definition body_replaced :: "wbody response \<Rightarrow> bool" where
  "body_replaced r = (case rp_Body r of TheBody b \<Rightarrow> rp_ContentLength r = 0 \<and> wb_data b = [] | _ \<Rightarrow> False)"

lemma prepare_body:
  assumes "response_sendable r" and "prepare_response r = Inr r1"
  shows "rp_Body r1 = NoBody \<and> rp_Body r \<noteq> NoBody \<longleftrightarrow> body_replaced r"
proof -
  obtain r0 where r0: "probe_response r = Inr r0" "rp_Body r1 = rp_Body r0"
    using assms(2) by (cases "probe_response r") (auto simp: prepare_response_def split: if_splits)
  show ?thesis
  proof (cases "rp_Body r")
    case (TheBody b)
    obtain d e b' where rd: "wb_Read 1 b = (d, e, b')" by (metis surj_pair)
    have "[] \<notin> set (wb_pieces b)" using assms(1) TheBody by (auto simp: response_sendable_def)
    from wb_Read_first[OF rd this] show ?thesis
      using r0 TheBody rd by (auto simp: probe_response_def body_replaced_def split: if_splits)
  qed (use r0 in \<open>auto simp: probe_response_def body_replaced_def split: if_splits prod.splits\<close>)
qed

lemma response_written_read:
  assumes "response_sendable r"
  shows "\<exists>out. Response_Write buffer_wire None r [] = (out, None, if rp_Body r = NilBody \<or> body_replaced r then 0 else 1) \<and>
    (\<forall>b rest ks. bufio_ok b \<and> stream b = out @ rest \<and> length out < 2 ^ 54 \<and>
        (\<forall>k\<in>set ks. 0 < k) \<and> length (response_data r) < length ks \<and> (length_known r \<or> rest = []) \<longrightarrow>
      (\<exists>resp r1 r2. Http_ReadResponse False C b (rp_RequestMethod r) u = (Inr resp, r1) \<and> answered_as r resp \<and>
        val_reads (rp_Body resp) r1 ks = (response_data r, Some (BodyIo EOF), r2) \<and> stream r2 = rest))"
proof -
  let ?c = "rp_StatusCode r" and ?data = "response_data r"
  have code: "100 \<le> ?c" "?c \<le> 999" and hok: "header_ok (rp_Header r)" using assms by (simp_all add: response_sendable_def)
  let ?line = "''HTTP/1.1'' @ '' '' @ Itoa ?c @ '' '' @ status_text r"
  have sl: "status_line r = ?line"
  proof -
    have "Itoa 1 = ''1''" by code_simp
    then show ?thesis
      using assms status_code_text(1)[OF code] by (simp add: status_line_def response_sendable_def)
  qed
  obtain r1 where r1: "prepare_response r = Inr r1" "prepared r r1" using prepare_prepared[OF assms] by blast
  obtain t where t: "newTransferWriter False (OutResponse r1) = Inr t" "response_tw r t"
    using newTransferWriter_response[OF assms r1(2)] by blast
  note tr = response_trailer[OF assms t(2)]
  let ?es = "response_entries r r1 t"
  let ?w = "?line @ crlf @ concat (map entry_text ?es) @ crlf"
  obtain body t' where body: "tw_writeBody buffer_wire None t ?w = (?w @ body, None, t')"
    "tw_closes t' = (if rp_Body r = NilBody then 0 else 1)"
    "\<And>rr m rest ks. framed_as (response_framing r r1 t) rr m \<Longrightarrow> bufio_ok rr \<Longrightarrow> stream rr = body @ rest \<Longrightarrow>
       \<forall>k\<in>set ks. 0 < k \<Longrightarrow> length ?data < length ks \<Longrightarrow> response_framing r r1 t = UntilClose \<longrightarrow> rest = [] \<Longrightarrow>
       \<exists>r'. val_reads (ms_Body m) rr ks = (?data, Some (BodyIo EOF), r') \<and> stream r' = rest"
    using response_body_written[OF assms t(2) r1(2) tr(2), of ?w] by blast
  have "send_response buffer_wire None r r1 (?line @ crlf) = (?w @ body, None, if rp_Body r = NilBody then 0 else 1)"
    unfolding send_response_def t(1) sum.case response_headers_entries[OF tr(1) r1(2)] prod.case option.case
    using body(1,2) by simp
  moreover have "send_all buffer_wire [?line @ crlf] [] = (?line @ crlf, None)" by (simp add: send_all_buffer)
  ultimately have written: "Response_Write buffer_wire None r [] =
      (?w @ body, None, if rp_Body r = NilBody \<or> body_replaced r then 0 else 1)"
    unfolding Response_Write_def sl r1(1) sum.case prepare_body[OF assms r1(1)] by simp
  have "\<exists>resp rr r2. Http_ReadResponse False C b (rp_RequestMethod r) u = (Inr resp, rr) \<and> answered_as r resp \<and>
        val_reads (rp_Body resp) rr ks = (?data, Some (BodyIo EOF), r2) \<and> stream r2 = rest"
    if b: "bufio_ok b" "stream b = (?w @ body) @ rest" "length (?w @ body) < 2 ^ 54" "\<forall>k\<in>set ks. 0 < k" "length ?data < length ks"
      "length_known r \<or> rest = []" for b rest ks
  proof -
    note ok = response_entries_ok[OF hok tr(1), of r1]
    have h: "map_of (header_of ?es) k = (if vals_of k ?es = [] then None else Some (vals_of k ?es))"
      "values_at (header_of ?es) k = vals_of k ?es" for k
      using header_of_map[OF ok] by blast+
    have h': "map_of (fixPragmaCacheControl (header_of ?es)) k = map_of (header_of ?es) k"
      "values_at (fixPragmaCacheControl (header_of ?es)) k = values_at (header_of ?es) k" if "k \<noteq> ''Cache-Control''" for k
      using fixPragma_others[OF that] by (simp_all add: values_at_def)
    have fr: "framing_of True q ?c (fixPragmaCacheControl (header_of ?es)) = Some (response_framing r r1 t)" if "q \<noteq> ''HEAD''" for q
      by (rule response_framing_read[OF assms t(2) r1(2) tr(1) _ _ _ that]) (simp_all add: h' h vals_of_response(2,3)[OF hok])
    have head: "rp_RequestMethod r \<noteq> Some ''HEAD''" "CHR 0x0A \<notin> set (status_text r)" using assms by (simp_all add: response_sendable_def)
    have st: "stream b = ?line @ crlf @ concat (map entry_text ?es) @ crlf @ (body @ rest)" using b(2) by simp
    have small: "length (concat (map entry_text ?es)) < 2 ^ 54" using b(3) by simp
    obtain resp rr msg where resp: "Http_ReadResponse False C b (rp_RequestMethod r) u = (Inr resp, rr)"
      "rp_StatusCode resp = ?c \<and> rp_Status resp = Itoa ?c @ '' '' @ status_text r \<and> rp_ProtoMajor resp = 1 \<and> rp_ProtoMinor resp = 1"
      "\<forall>k. \<not> framing_key k \<and> k \<noteq> ''Connection'' \<and> k \<noteq> ''Cache-Control'' \<longrightarrow> values_at (rp_Header resp) k = vals_of k ?es"
      "rp_Body resp = ms_Body msg" "framed_as (response_framing r r1 t) rr msg" "stream rr = body @ rest" "bufio_ok rr"
      using response_text_read[OF code head(2) ok head(1) fr b(1) st small, of C u] by blast
    have "answered_as r resp" using resp(2,3) vals_of_response(4)[OF hok] by (simp add: answered_as_def)
    moreover have "response_framing r r1 t = UntilClose \<longrightarrow> rest = []"
      using b(6) length_known_framing[OF assms t(2) r1(2)] by blast
    then obtain r2 where "val_reads (ms_Body msg) rr ks = (?data, Some (BodyIo EOF), r2)" "stream r2 = rest"
      using body(3)[OF resp(5,7,6) b(4,5)] by blast
    ultimately show ?thesis using resp(1,4) by (intro exI[of _ resp] exI[of _ rr] exI[of _ r2]) simp
  qed
  then show ?thesis using written by (intro exI[of _ "?w @ body"]) blast
qed

section \<open>Properties\<close>

text \<open>C2: A response that satisfies response_sendable is written without an error.  A client that reads the bytes,
  however they arrive, gets its status line, the values of every header that Write does not set itself, in
  their order, and a body that delivers exactly the bytes of the body and then EOF: chunked, with a length, or up to the end of
  the connection; in the first two cases what follows is untouched.  The body is closed once, but for a body that
  was found empty, which is never closed.\<close>

theorem response_roundtrip:
  assumes "response_sendable r"
  shows "\<exists>out. Response_Write buffer_wire None r [] = (out, None, if rp_Body r = NilBody \<or> body_replaced r then 0 else 1) \<and>
    (\<forall>b rest ks. bufio_ok b \<and> stream b = out @ rest \<and> length out < 2 ^ 54 \<and>
        (\<forall>k\<in>set ks. 0 < k) \<and> length (response_data r) < length ks \<and> (length_known r \<or> rest = []) \<longrightarrow>
      (\<exists>resp r1 r2. Http_ReadResponse False C b (rp_RequestMethod r) u = (Inr resp, r1) \<and> answered_as r resp \<and>
        val_reads (rp_Body resp) r1 ks = (response_data r, Some (BodyIo EOF), r2) \<and> stream r2 = rest))"
  by (rule response_written_read[OF assms])

definition sample_response :: "wbody response" where
  "sample_response = new_response\<lparr>rp_StatusCode := 404, rp_ProtoMajor := 1, rp_ProtoMinor := 1, rp_Header := [(''X-A'', [''x''])],
     rp_ContentLength := 2,
     rp_Body := TheBody \<lparr>wb_pieces = [''h'', ''i''], wb_end = EOF, wb_eager = True, wb_closeErr = None, wb_inMemory = False\<rparr>\<rparr>"

lemma response_roundtrip_witness:
  "\<exists>out. Response_Write buffer_wire None sample_response [] = (out, None, 1) \<and>
    (\<forall>b rest. bufio_ok b \<and> stream b = out @ rest \<and> length out < 2 ^ 54 \<longrightarrow>
      (\<exists>resp r1 r2. Http_ReadResponse False (\<lambda>_ _. False) b None None = (Inr resp, r1) \<and>
        rp_Status resp = ''404 Not Found'' \<and>
        val_reads (rp_Body resp) r1 [1, 1, 1] = (''hi'', Some (BodyIo EOF), r2) \<and> stream r2 = rest))"
proof -
  have code: "Itoa 404 @ '' '' @ status_text sample_response = ''404 Not Found''" by code_simp
  have stx: "status_text sample_response = ''Not Found''" by code_simp
  have clean: "clean_value ''x'' = ''x''" by code_simp
  have key: "CanonicalMIMEHeaderKey ''X-A'' = ''X-A''" by (rule canonical_key_fixed; code_simp)
  have tok: "token ''X-A''" by (simp add: validHeaderFieldByte_token token_byte_def)
  have fields: "rp_StatusCode sample_response = 404" "rp_RequestMethod sample_response = None" "response_data sample_response = ''hi''"
    "rp_Body sample_response \<noteq> NilBody" "\<not> body_replaced sample_response" "length_known sample_response"
    by (simp_all add: sample_response_def new_response_def response_data_def out_data_def body_replaced_def length_known_def)
  have "response_sendable sample_response"
    using clean key tok stx fields(3)
    by (simp add: response_sendable_def sample_response_def new_response_def good_body_def header_ok_def validHeaderValueByte_iff
        less_eq_char_def bodyAllowedForStatus_def)
  from response_roundtrip[OF this, of "\<lambda>_ _. False" None] obtain out where
    w: "Response_Write buffer_wire None sample_response [] = (out, None, 1)"
    and r: "\<forall>b rest ks. bufio_ok b \<and> stream b = out @ rest \<and> length out < 2 ^ 54 \<and>
        (\<forall>k\<in>set ks. 0 < k) \<and> length ''hi'' < length ks \<and> (length_known sample_response \<or> rest = []) \<longrightarrow>
      (\<exists>resp r1 r2. Http_ReadResponse False (\<lambda>_ _. False) b None None = (Inr resp, r1) \<and> answered_as sample_response resp \<and>
        val_reads (rp_Body resp) r1 ks = (''hi'', Some (BodyIo EOF), r2) \<and> stream r2 = rest)"
    using fields(4,5) unfolding fields(2,3) by auto
  have ks: "\<forall>k\<in>set [1, 1, 1 :: nat]. 0 < k" "length ''hi'' < length [1, 1, 1 :: nat]" by simp_all
  have "\<exists>resp r1 r2. Http_ReadResponse False (\<lambda>_ _. False) b None None = (Inr resp, r1) \<and> rp_Status resp = ''404 Not Found'' \<and>
      val_reads (rp_Body resp) r1 [1, 1, 1] = (''hi'', Some (BodyIo EOF), r2) \<and> stream r2 = rest"
    if "bufio_ok b" "stream b = out @ rest" "length out < 2 ^ 54" for b rest
    using r[rule_format, of b rest "[1, 1, 1]"] that ks fields(6) code unfolding answered_as_def fields(1) by metis
  then show ?thesis using w by (intro exI[of _ out]) simp
qed

text \<open>The answer to a HEAD request with a chunked body has a line end after its header, which the client
  takes for the start of the next response.\<close>

lemma head_chunked_stray_crlf:
  "fst (Response_Write buffer_wire None
     (new_response\<lparr>rp_StatusCode := 200, rp_ProtoMajor := 1, rp_ProtoMinor := 1, rp_TransferEncoding := [''chunked''],
        rp_Body := NoBody, rp_RequestMethod := Some ''HEAD''\<rparr>) []) =
   ''HTTP/1.1 200 OK'' @ crlf @ ''Transfer-Encoding: chunked'' @ crlf @ crlf @ crlf"
  by code_simp

end
