(* ===== verification/Client.thy ===== *)
theory Client
  imports Http_Request
begin

text \<open>
  The HTTP client (src/http/client.go, and idnaASCII of src/http/request.go, idnaASCIIFromURL of
  src/http/transport.go).  What the client calls but does not define is an argument: the RoundTripper, the
  redirect policy and the cookie jar of the client, the clock, the body that GetBody returns, and
  idna.Lookup.ToASCII.  Each of them may depend on everything that happened before the call, the history, so
  a stateful implementation is covered; the history is the list of the calls that the client makes.  The timer
  of a deadline is the deadline in the context of the request; Request.Cancel is nil, so the legacy branch of
  setRequestCancel does not occur.  A body of type \<open>'b\<close> belongs to a request, one of type \<open>'c\<close> to a
  response of the RoundTripper.
\<close>

section \<open>Small functions\<close>

text \<open>Standard base64 with padding (encoding/base64).\<close>

definition base64_alphabet :: string where
  "base64_alphabet = ''ABCDEFGHIJKLMNOPQRSTUVWXYZabcdefghijklmnopqrstuvwxyz0123456789+/''"

fun base64 :: "string \<Rightarrow> string" where
  "base64 [] = []"
| "base64 [a] =
     (let x = (of_char a :: nat) * 16
      in [base64_alphabet ! (x div 64), base64_alphabet ! (x mod 64), CHR ''='', CHR ''=''])"
| "base64 [a, b] =
     (let x = (of_char a * 256 + of_char b :: nat) * 4
      in [base64_alphabet ! (x div 4096), base64_alphabet ! (x div 64 mod 64), base64_alphabet ! (x mod 64), CHR ''=''])"
| "base64 (a # b # c # s) =
     (let x = (of_char a * 256 + of_char b :: nat) * 256 + of_char c
      in [base64_alphabet ! (x div 262144), base64_alphabet ! (x div 4096 mod 64),
          base64_alphabet ! (x div 64 mod 64), base64_alphabet ! (x mod 64)] @ base64 s)"

definition basicAuth :: "string \<Rightarrow> string \<Rightarrow> string" where
  "basicAuth user pw = base64 (user @ '':'' @ pw)"

definition SetBasicAuth :: "string \<Rightarrow> string \<Rightarrow> 'b request \<Rightarrow> 'b request" where
  "SetBasicAuth user pw r =
     r\<lparr>rq_Header := Header_Set ''Authorization'' (''Basic '' @ basicAuth user pw) (rq_Header r)\<rparr>"

text \<open>strings.Replace with the count 1.\<close>

definition replace_first :: "string \<Rightarrow> string \<Rightarrow> string \<Rightarrow> string" where
  "replace_first s old new =
     (case index_str old s of
        None \<Rightarrow> s
      | Some i \<Rightarrow> take i s @ new @ drop (i + length old) s)"

definition refererForURL :: "URL \<Rightarrow> URL \<Rightarrow> string \<Rightarrow> string" where
  "refererForURL lastReq newReq explicitRef =
     (if Scheme lastReq = ''https'' \<and> Scheme newReq = ''http'' then []
      else if explicitRef \<noteq> [] then explicitRef
      else if User lastReq \<noteq> None then
        replace_first (URL_String lastReq) (Userinfo_String (User lastReq) @ ''@'') []
      else URL_String lastReq)"

definition stripPassword :: "URL \<Rightarrow> string" where
  "stripPassword u =
     (if snd (Password (User u)) then
        replace_first (URL_String u) (Userinfo_String (User u) @ ''@'') (Username (User u) @ '':***@'')
      else URL_String u)"

definition urlErrorOp :: "string \<Rightarrow> string" where
  "urlErrorOp m =
     (if m = [] then ''Get''
      else (case ToLower m of
              (lowerMethod, ok) \<Rightarrow> if ok then take 1 m @ drop 1 lowerMethod else m))"

definition isDomainOrSubdomain :: "string \<Rightarrow> string \<Rightarrow> bool" where
  "isDomainOrSubdomain sub parent =
     (if sub = parent then True
      else if \<not> has_suffix sub parent then False
      else sub ! (length sub - length parent - 1) = CHR ''.'')"

definition idnaASCII :: "(string \<Rightarrow> string option) \<Rightarrow> string \<Rightarrow> string option" where
  "idnaASCII ToASCII v = (if Is v then Some v else ToASCII v)"

definition idnaASCIIFromURL :: "(string \<Rightarrow> string option) \<Rightarrow> URL \<Rightarrow> string" where
  "idnaASCIIFromURL ToASCII url =
     (case idnaASCII ToASCII (Hostname url) of Some v \<Rightarrow> v | None \<Rightarrow> Hostname url)"

definition sensitive_headers :: "string list" where
  "sensitive_headers = [''Authorization'', ''Www-Authenticate'', ''Cookie'', ''Cookie2'']"

definition shouldCopyHeaderOnRedirect :: "(string \<Rightarrow> string option) \<Rightarrow> string \<Rightarrow> URL \<Rightarrow> URL \<Rightarrow> bool" where
  "shouldCopyHeaderOnRedirect ToASCII headerKey initial dest =
     (if CanonicalHeaderKey headerKey \<in> set sensitive_headers
      then isDomainOrSubdomain (idnaASCIIFromURL ToASCII dest) (idnaASCIIFromURL ToASCII initial)
      else True)"

text \<open>The method of the next request, whether to follow the redirect, and whether to send the body again.\<close>

definition redirectBehavior :: "string \<Rightarrow> 'c response \<Rightarrow> 'b request \<Rightarrow> string \<times> bool \<times> bool" where
  "redirectBehavior reqMethod resp ireq =
     (if rp_StatusCode resp \<in> {301, 302, 303} then
        (if reqMethod \<noteq> ''GET'' \<and> reqMethod \<noteq> ''HEAD'' then ''GET'' else reqMethod, True, False)
      else if rp_StatusCode resp \<in> {307, 308} then
        (reqMethod, \<not> (\<not> rq_GetBody ireq \<and> outgoingLength ireq \<noteq> 0), True)
      else ([], False, False))"

section \<open>The client and its environment\<close>

datatype 'c timed_body = Plain 'c | CancelTimer "'c timed_body body_val"

text \<open>The calls of the client, in their order.\<close>

datatype ('b, 'c) client_event =
  AskedJar "URL option"
| Sent "int option" "'b request"
| StoppedTimer
| GotBody
| AskedPolicy "'b request"
| ClosedRequestBody "'b body_val"
| Discarded "'c timed_body body_val"
| ClosedResponseBody "'c timed_body body_val"

type_synonym ('b, 'c) history = "('b, 'c) client_event list"

text \<open>RoundTrip gets the request and the deadline of its context; its error is a text.\<close>

type_synonym ('b, 'c) round_tripper =
  "('b, 'c) history \<Rightarrow> int option \<Rightarrow> 'b request \<Rightarrow> 'c timed_body response option \<times> string option"

datatype policy_error = UseLastResponse | PolicyError string

text \<open>A policy may also change the upcoming request.\<close>

type_synonym ('b, 'c) redirect_policy =
  "('b, 'c) history \<Rightarrow> 'b request \<Rightarrow> 'b request list \<Rightarrow> policy_error option \<times> 'b request"

record ('b, 'c, 't) client =
  cl_Transport :: "('b, 'c) round_tripper option"
  cl_CheckRedirect :: "('b, 'c) redirect_policy option"
  cl_Jar :: "(('b, 'c) history \<Rightarrow> URL option \<Rightarrow> 't Cookie list) option"
  cl_Timeout :: int

record ('b, 'c, 't) client_env =
  env_DefaultTransport :: "('b, 'c) round_tripper option"
  env_Now :: "('b, 'c) history \<Rightarrow> int"
  env_ctxDeadline :: "int option"
  env_GetBody :: "('b, 'c) history \<Rightarrow> string + 'b body_val"
  env_ToASCII :: "string \<Rightarrow> string option"
  env_Tokens :: "nat \<Rightarrow> bool"
  env_ParseTime :: "string \<Rightarrow> string \<Rightarrow> 't option"

datatype client_cause =
  NoTransport
| NilURL
| RequestURISet
| RoundTripFailed string
| NilResponse
| NilResponseBody int
| TimedOut client_cause
| BadLocation string parse_error
| GetBodyFailed string
| PolicyFailed string

record client_error =
  ce_Op :: string
  ce_URL :: string
  ce_Err :: client_cause

definition transport :: "('b, 'c, 't) client \<Rightarrow> ('b, 'c, 't) client_env \<Rightarrow> ('b, 'c) round_tripper option" where
  "transport cl env = (case cl_Transport cl of Some t \<Rightarrow> Some t | None \<Rightarrow> env_DefaultTransport env)"

text \<open>The zero time, no deadline, is \<open>None\<close>.\<close>

definition deadline_of :: "('b, 'c, 't) client \<Rightarrow> int \<Rightarrow> int option" where
  "deadline_of cl now = (if cl_Timeout cl > 0 then Some (now + cl_Timeout cl) else None)"

definition defaultCheckRedirect :: "'b request \<Rightarrow> 'b request list \<Rightarrow> policy_error option" where
  "defaultCheckRedirect req via =
     (if length via \<ge> 10 then Some (PolicyError ''stopped after 10 redirects'') else None)"

definition checkRedirect ::
  "('b, 'c, 't) client \<Rightarrow> ('b, 'c) history \<Rightarrow> 'b request \<Rightarrow> 'b request list \<Rightarrow> policy_error option \<times> 'b request" where
  "checkRedirect cl h req via =
     (case cl_CheckRedirect cl of
        None \<Rightarrow> (defaultCheckRedirect req via, req)
      | Some fn \<Rightarrow> fn h req via)"

section \<open>One request\<close>

definition request_closeBody :: "'b request \<Rightarrow> ('b, 'c) history" where
  "request_closeBody r = (case rq_Body r of NilBody \<Rightarrow> [] | b \<Rightarrow> [ClosedRequestBody b])"

definition response_closeBody :: "'c timed_body response \<Rightarrow> ('b, 'c) history" where
  "response_closeBody r = (case rp_Body r of NilBody \<Rightarrow> [] | b \<Rightarrow> [ClosedResponseBody b])"

definition timeBeforeContextDeadline :: "int \<Rightarrow> int option \<Rightarrow> bool" where
  "timeBeforeContextDeadline t ctx = (case ctx of None \<Rightarrow> True | Some d \<Rightarrow> t < d)"

text \<open>
  The deadline of the context, and the deadline that didTimeout compares with the clock;
  \<open>None\<close> stands for alwaysFalse, and then the function that stops the timer is nop.
\<close>

definition setRequestCancel :: "int option \<Rightarrow> int option \<Rightarrow> int option \<times> int option" where
  "setRequestCancel oldCtx deadline =
     (case deadline of
        None \<Rightarrow> (oldCtx, None)
      | Some d \<Rightarrow> if \<not> timeBeforeContextDeadline d oldCtx then (oldCtx, None) else (Some d, Some d))"

definition stop_timer :: "int option \<Rightarrow> ('b, 'c) history" where
  "stop_timer timeout = (case timeout of None \<Rightarrow> [] | Some _ \<Rightarrow> [StoppedTimer])"

text \<open>The request with the credentials of its URL; a nil header is empty.\<close>

definition authorize :: "'b request \<Rightarrow> 'b request" where
  "authorize req =
     (case rq_URL req of
        None \<Rightarrow> req
      | Some u \<Rightarrow>
          if User u \<noteq> None \<and> Header_Get ''Authorization'' (rq_Header req) = [] then
            req\<lparr>rq_Header := Header_Set ''Authorization''
                   (''Basic '' @ basicAuth (Username (User u)) (fst (Password (User u))))
                   (cloneOrMakeHeader (Some (rq_Header req)))\<rparr>
          else req)"

definition fill_body ::
  "int option \<Rightarrow> int option \<Rightarrow> 'b request \<Rightarrow> 'c timed_body response \<Rightarrow>
   (client_cause \<times> int option) + 'c timed_body response" where
  "fill_body deadline timeout req resp =
     (if rp_Body resp = NilBody \<and> rp_ContentLength resp > 0 \<and> rq_Method req \<noteq> ''HEAD'' then
        Inl (NilResponseBody (rp_ContentLength resp), timeout)
      else
        (let b = (if rp_Body resp = NilBody then NoBody else rp_Body resp)
         in Inr (resp\<lparr>rp_Body := if deadline \<noteq> None then TheBody (CancelTimer b) else b\<rparr>)))"

definition send ::
  "('b, 'c) round_tripper option \<Rightarrow> int option \<Rightarrow> int option \<Rightarrow> 'b request \<Rightarrow> ('b, 'c) history \<Rightarrow>
   ('b, 'c) history \<times> ((client_cause \<times> int option) + 'c timed_body response)" where
  "send rt ctx deadline ireq h =
     (case rt of
        None \<Rightarrow> (h @ request_closeBody ireq, Inl (NoTransport, None))
      | Some trip \<Rightarrow>
          if rq_URL ireq = None then (h @ request_closeBody ireq, Inl (NilURL, None))
          else if rq_RequestURI ireq \<noteq> [] then (h @ request_closeBody ireq, Inl (RequestURISet, None))
          else
            (let req = authorize ireq;
                 (ctx', timeout) = setRequestCancel ctx deadline;
                 h' = h @ [Sent ctx' req]
             in case trip h ctx' req of
                  (_, Some e) \<Rightarrow> (h' @ stop_timer timeout, Inl (RoundTripFailed e, timeout))
                | (None, None) \<Rightarrow> (h', Inl (NilResponse, timeout))
                | (Some resp, None) \<Rightarrow> (h', fill_body deadline timeout req resp)))"

text \<open>The cookies of the jar are added to the request itself.\<close>

definition client_send ::
  "('b, 'c, 't) client \<Rightarrow> ('b, 'c, 't) client_env \<Rightarrow> int option \<Rightarrow> 'b request \<Rightarrow> ('b, 'c) history \<Rightarrow>
   'b request \<times> ('b, 'c) history \<times> ((client_cause \<times> int option) + 'c timed_body response)" where
  "client_send cl env deadline req h =
     (case cl_Jar cl of
        None \<Rightarrow> (req, send (transport cl env) (env_ctxDeadline env) deadline req h)
      | Some jar \<Rightarrow>
          (let req' = req\<lparr>rq_Header := fold AddCookie (jar h (rq_URL req)) (rq_Header req)\<rparr>
           in (req', send (transport cl env) (env_ctxDeadline env) deadline req' (h @ [AskedJar (rq_URL req)]))))"

text \<open>Read of a cancelTimerBody: what the inner Read returned, and whether the deadline has passed.\<close>

datatype read_error = ReadEOF | ReadFailed string | ReadTimedOut string

definition cancelTimerBody_Read :: "bool \<Rightarrow> nat \<times> read_error option \<Rightarrow> nat \<times> read_error option" where
  "cancelTimerBody_Read didTimeout r =
     (case r of
        (n, None) \<Rightarrow> (n, None)
      | (n, Some ReadEOF) \<Rightarrow> (n, Some ReadEOF)
      | (n, Some (ReadFailed e)) \<Rightarrow> (n, Some (if didTimeout then ReadTimedOut e else ReadFailed e))
      | (n, Some (ReadTimedOut e)) \<Rightarrow> (n, Some (ReadTimedOut e)))"

section \<open>The headers of a redirected request\<close>

record 't header_copier =
  hc_ireqhdr :: multimap
  hc_icookies :: "(string, 't Cookie list) gomap option"

definition group_cookies :: "'t Cookie list \<Rightarrow> (string, 't Cookie list) gomap" where
  "group_cookies cs =
     fold (\<lambda>c m. AList.update (ck_Name c) ((case map_of m (ck_Name c) of None \<Rightarrow> [] | Some l \<Rightarrow> l) @ [c]) m) cs []"

definition makeHeadersCopier ::
  "('b, 'c, 't) client \<Rightarrow> ('b, 'c, 't) client_env \<Rightarrow> 'b request \<Rightarrow> 't header_copier" where
  "makeHeadersCopier cl env ireq =
     \<lparr>hc_ireqhdr = cloneOrMakeHeader (Some (rq_Header ireq)),
      hc_icookies = (if cl_Jar cl \<noteq> None \<and> Header_Get ''Cookie'' (rq_Header ireq) \<noteq> []
                     then Some (group_cookies (Cookies (env_Tokens env) (rq_Header ireq))) else None)\<rparr>"

text \<open>The initial cookies that the response did not set again; the keys of the map are visited in any order.\<close>

definition drop_set_cookies :: "'t Cookie list \<Rightarrow> 't header_copier \<Rightarrow> 't header_copier" where
  "drop_set_cookies cs hc =
     (case hc_icookies hc of
        None \<Rightarrow> hc
      | Some m \<Rightarrow>
          if list_ex (\<lambda>c. map_of m (ck_Name c) \<noteq> None) cs then
            (let m' = fold (\<lambda>c. AList.delete (ck_Name c)) cs m;
                 ss = concat (map (\<lambda>(_, l). map (\<lambda>c. ck_Name c @ ''='' @ ck_Value c) l) m')
             in hc\<lparr>hc_ireqhdr := Header_Set ''Cookie'' (join_with ''; '' (sort ss))
                                  (Header_Del ''Cookie'' (hc_ireqhdr hc)),
                   hc_icookies := Some m'\<rparr>)
          else hc)"

definition copy_headers ::
  "(string \<Rightarrow> string option) \<Rightarrow> multimap \<Rightarrow> URL \<Rightarrow> URL \<Rightarrow> multimap \<Rightarrow> multimap" where
  "copy_headers ToASCII hdr preq dest h =
     fold (\<lambda>(k, vv) h. if shouldCopyHeaderOnRedirect ToASCII k preq dest then AList.update k vv h else h) hdr h"

text \<open>
  The function that makeHeadersCopier returns; \<open>dest\<close> is the URL of the upcoming request and \<open>prev\<close> the
  URL of preq, which is the request of the previous call and so always the one that was redirected.
\<close>

definition copyHeaders ::
  "('b, 'c, 't) client \<Rightarrow> ('b, 'c, 't) client_env \<Rightarrow> 'c timed_body response \<Rightarrow> URL \<Rightarrow> URL \<Rightarrow>
   'b request \<Rightarrow> 't header_copier \<Rightarrow> 'b request \<times> 't header_copier" where
  "copyHeaders cl env resp prev dest req hc =
     (let hc1 = (if cl_Jar cl \<noteq> None
                 then drop_set_cookies (readSetCookies (env_Tokens env) (env_ParseTime env) (rp_Header resp)) hc
                 else hc)
      in (req\<lparr>rq_Header := copy_headers (env_ToASCII env) (hc_ireqhdr hc1) prev dest (rq_Header req)\<rparr>, hc1))"

section \<open>Do\<close>

record ('b, 'c, 't) do_state =
  ds_req :: "'b request"
  ds_reqs :: "'b request list"
  ds_resp :: "'c timed_body response option"
  ds_copier :: "'t header_copier"
  ds_redirectMethod :: string
  ds_includeBody :: bool
  ds_history :: "('b, 'c) history"

text \<open>What Do returns, with the history; a nil pointer dereference is a panic.\<close>

type_synonym ('b, 'c) do_result =
  "(('c timed_body response option \<times> client_error option) \<times> ('b, 'c) history) go"

datatype ('b, 'c, 't) do_outcome =
  Finished "('b, 'c) do_result"
| Hop "('b, 'c, 't) do_state"

text \<open>\<open>reqs\<close> is not empty when the closure uerr runs.\<close>

definition uerr ::
  "bool \<Rightarrow> 'c timed_body response option \<Rightarrow> 'b request \<Rightarrow> 'b request list \<Rightarrow> client_cause \<Rightarrow>
   (('b, 'c) history \<times> client_error) go" where
  "uerr reqBodyClosed resp req reqs cause =
     (let h = (if reqBodyClosed then [] else request_closeBody req);
          url = (case resp of
                   Some r \<Rightarrow> (case rp_RequestMethod r of Some _ \<Rightarrow> rp_RequestURL r | None \<Rightarrow> rq_URL req)
                 | None \<Rightarrow> rq_URL req)
      in case url of
           None \<Rightarrow> Panic ''nil pointer dereference''
         | Some u \<Rightarrow> Ret (h, \<lparr>ce_Op = urlErrorOp (rq_Method (hd reqs)), ce_URL = stripPassword u, ce_Err = cause\<rparr>))"

definition finish_uerr ::
  "('b, 'c) history \<Rightarrow> 'c timed_body response option \<Rightarrow> (('b, 'c) history \<times> client_error) go \<Rightarrow>
   ('b, 'c) do_result" where
  "finish_uerr h resp ue = go_bind ue (\<lambda>(h', e). Ret ((resp, Some e), h @ h'))"

definition redirect_host :: "string \<Rightarrow> 'b request \<Rightarrow> URL \<Rightarrow> string" where
  "redirect_host loc req cur =
     (if rq_Host req \<noteq> [] \<and> rq_Host req \<noteq> Host cur then
        (case Parse loc of
           Inr u \<Rightarrow> if \<not> IsAbs u then rq_Host req else []
         | Inl _ \<Rightarrow> [])
      else [])"

definition maxBodySlurpSize :: int where
  "maxBodySlurpSize = 2048"

definition close_previous :: "'c timed_body response \<Rightarrow> ('b, 'c) history" where
  "close_previous resp =
     (if rp_ContentLength resp = - 1 \<or> rp_ContentLength resp \<le> maxBodySlurpSize then [Discarded (rp_Body resp)] else []) @
     [ClosedResponseBody (rp_Body resp)]"

text \<open>The body of the next request: the history, and the request or the error of GetBody.\<close>

definition renew_body ::
  "('b, 'c, 't) client_env \<Rightarrow> bool \<Rightarrow> 'b request \<Rightarrow> 'b request \<Rightarrow> ('b, 'c) history \<Rightarrow>
   ('b, 'c) history \<times> (string + 'b request)" where
  "renew_body env includeBody ireq req h =
     (if includeBody \<and> rq_GetBody ireq then
        (h @ [GotBody],
         (case env_GetBody env h of
            Inl e \<Rightarrow> Inl e
          | Inr b \<Rightarrow> Inr (req\<lparr>rq_Body := b, rq_ContentLength := rq_ContentLength ireq\<rparr>)))
      else (h, Inr req))"

definition set_referer :: "URL \<Rightarrow> URL \<Rightarrow> 'b request \<Rightarrow> 'b request" where
  "set_referer prev dest req =
     (let ref = refererForURL prev dest (Header_Get ''Referer'' (rq_Header req))
      in if ref \<noteq> [] then req\<lparr>rq_Header := Header_Set ''Referer'' ref (rq_Header req)\<rparr> else req)"

text \<open>
  The first part of the loop body: the next request, or a result.  The URL of the previous request is
  not nil, as it has been sent.
\<close>

definition next_hop ::
  "('b, 'c, 't) client \<Rightarrow> ('b, 'c, 't) client_env \<Rightarrow> 'c timed_body response \<Rightarrow> URL \<Rightarrow>
   ('b, 'c, 't) do_state \<Rightarrow> ('b, 'c, 't) do_outcome" where
  "next_hop cl env resp cur st =
     (let loc = Header_Get ''Location'' (rp_Header resp);
          req = ds_req st; reqs = ds_reqs st; h = ds_history st
      in if loc = [] then Finished (Ret ((Some resp, None), h))
         else case URL_Parse cur loc of
           Inl e \<Rightarrow> Finished (finish_uerr (h @ response_closeBody resp) None (uerr False (Some resp) req reqs (BadLocation loc e)))
         | Inr u \<Rightarrow>
             (let req0 = new_request\<lparr>rq_Method := ds_redirectMethod st, rq_URL := Some u, rq_Host := redirect_host loc req cur\<rparr>
              in case renew_body env (ds_includeBody st) (hd reqs) req0 h of
                   (h1, Inl e) \<Rightarrow> Finished (finish_uerr (h1 @ response_closeBody resp) None
                                  (uerr False (Some resp) req0 reqs (GetBodyFailed e)))
                 | (h1, Inr req1) \<Rightarrow>
                     (case copyHeaders cl env resp cur u req1 (ds_copier st) of
                        (req2, hc) \<Rightarrow>
                          (let req3 = set_referer cur u req2
                           in case checkRedirect cl h1 req3 reqs of
                                (Some UseLastResponse, _) \<Rightarrow> Finished (Ret ((Some resp, None), h1 @ [AskedPolicy req3]))
                              | (Some (PolicyError m), req4) \<Rightarrow>
                                  Finished (go_bind (uerr False (Some resp) req4 reqs (PolicyFailed m)) (\<lambda>(h', e).
                                    Ret ((Some resp, Some (e\<lparr>ce_URL := loc\<rparr>)), h1 @ [AskedPolicy req3] @ close_previous resp @ h')))
                              | (None, req4) \<Rightarrow>
                                  Hop (st\<lparr>ds_req := req4, ds_copier := hc,
                                           ds_history := h1 @ [AskedPolicy req3] @ close_previous resp\<rparr>)))))"

text \<open>The second part of the loop body.\<close>

definition didTimeout :: "('b, 'c, 't) client_env \<Rightarrow> ('b, 'c) history \<Rightarrow> int option \<Rightarrow> bool" where
  "didTimeout env h timeout = (case timeout of None \<Rightarrow> False | Some d \<Rightarrow> env_Now env h > d)"

definition send_hop ::
  "('b, 'c, 't) client \<Rightarrow> ('b, 'c, 't) client_env \<Rightarrow> int option \<Rightarrow> ('b, 'c, 't) do_state \<Rightarrow> ('b, 'c, 't) do_outcome" where
  "send_hop cl env deadline st =
     (case client_send cl env deadline (ds_req st) (ds_history st) of
        (req, h, res) \<Rightarrow>
          (let reqs = ds_reqs st @ [req]
           in case res of
                Inl (e, timeout) \<Rightarrow>
                  Finished (finish_uerr h None (uerr True None req reqs
                    (if deadline \<noteq> None \<and> didTimeout env h timeout then TimedOut e else e)))
              | Inr resp \<Rightarrow>
                  (case redirectBehavior (rq_Method req) resp (hd reqs) of
                     (redirectMethod, shouldRedirect, includeBody) \<Rightarrow>
                       if \<not> shouldRedirect then Finished (Ret ((Some resp, None), h))
                       else Hop (st\<lparr>ds_req := req, ds_reqs := reqs, ds_resp := Some resp,
                                     ds_redirectMethod := redirectMethod, ds_includeBody := includeBody,
                                     ds_history := h @ request_closeBody req\<rparr>))))"

definition do_step ::
  "('b, 'c, 't) client \<Rightarrow> ('b, 'c, 't) client_env \<Rightarrow> int option \<Rightarrow> ('b, 'c, 't) do_state \<Rightarrow> ('b, 'c, 't) do_outcome" where
  "do_step cl env deadline st =
     (case (ds_resp st, rq_URL (ds_req st)) of
        (None, _) \<Rightarrow> send_hop cl env deadline st
      | (Some resp, Some cur) \<Rightarrow>
          (case next_hop cl env resp cur st of
             Finished r \<Rightarrow> Finished r
           | Hop st' \<Rightarrow> send_hop cl env deadline st')
      | (Some _, None) \<Rightarrow> Finished (Panic ''nil pointer dereference''))"

partial_function (option) do_loop ::
  "('b, 'c, 't) client \<Rightarrow> ('b, 'c, 't) client_env \<Rightarrow> int option \<Rightarrow> ('b, 'c, 't) do_state \<Rightarrow>
   ('b, 'c) do_result option" where
  "do_loop cl env deadline st =
     (case do_step cl env deadline st of
        Finished r \<Rightarrow> Some r
      | Hop st' \<Rightarrow> do_loop cl env deadline st')"

declare do_loop.simps [code]

definition do_start :: "('b, 'c, 't) client \<Rightarrow> ('b, 'c, 't) client_env \<Rightarrow> 'b request \<Rightarrow> ('b, 'c, 't) do_state" where
  "do_start cl env req =
     \<lparr>ds_req = req, ds_reqs = [], ds_resp = None, ds_copier = makeHeadersCopier cl env req,
      ds_redirectMethod = [], ds_includeBody = False, ds_history = []\<rparr>"

definition Do :: "('b, 'c, 't) client \<Rightarrow> ('b, 'c, 't) client_env \<Rightarrow> 'b request \<Rightarrow> ('b, 'c) do_result option" where
  "Do cl env req =
     (if rq_URL req = None then
        Some (Ret ((None, Some \<lparr>ce_Op = urlErrorOp (rq_Method req), ce_URL = [], ce_Err = NilURL\<rparr>), request_closeBody req))
      else do_loop cl env (deadline_of cl (env_Now env [])) (do_start cl env req))"

text \<open>The errors of NewRequest are returned as they are.\<close>

definition Client_Get ::
  "(wbody, 'c, 't) client \<Rightarrow> (wbody, 'c, 't) client_env \<Rightarrow> string \<Rightarrow> request_error + (wbody, 'c) do_result option" where
  "Client_Get cl env url =
     (case NewRequest (env_Tokens env) ''GET'' url NilBody of
        Inl e \<Rightarrow> Inl e
      | Inr req \<Rightarrow> Inr (Do cl env req))"

definition Client_Head ::
  "(wbody, 'c, 't) client \<Rightarrow> (wbody, 'c, 't) client_env \<Rightarrow> string \<Rightarrow> request_error + (wbody, 'c) do_result option" where
  "Client_Head cl env url =
     (case NewRequest (env_Tokens env) ''HEAD'' url NilBody of
        Inl e \<Rightarrow> Inl e
      | Inr req \<Rightarrow> Inr (Do cl env req))"

end
