(* ===== verification/Client_Correct.thy ===== *)
theory Client_Correct
  imports Client
begin

text \<open>
  Correctness of the client: Do returns when its policy stops, the shape of what it returns, and the request
  that follows a redirect.
\<close>

text \<open>Keys are canonicalised by the bit masks of the source; evaluation uses the class of bytes that they stand for.\<close>

lemma validHeaderFieldByte_code [code]: "validHeaderFieldByte c = token_byte c"
  by (simp add: validHeaderFieldByte_token)

section \<open>The steps of the loop\<close>

fun is_sent :: "('b, 'c) client_event \<Rightarrow> bool" where
  "is_sent (Sent d r) = True"
| "is_sent _ = False"

definition sent_count :: "('b, 'c) history \<Rightarrow> nat" where
  "sent_count h = length (filter is_sent h)"

lemma sent_count_simps [simp]:
  "sent_count [] = 0"
  "sent_count (h @ h') = sent_count h + sent_count h'"
  "sent_count (e # h) = (if is_sent e then 1 else 0) + sent_count h"
  by (auto simp: sent_count_def)

lemma sent_count_closing [simp]:
  "sent_count (request_closeBody r) = 0"
  "sent_count (response_closeBody p) = 0"
  "sent_count (close_previous p) = 0"
  "sent_count (stop_timer t) = 0"
  by (auto simp: request_closeBody_def response_closeBody_def close_previous_def stop_timer_def
      split: body_val.split option.split)

lemma send_sent:
  assumes "send rt ctx d r h = (h', res)"
  shows "sent_count h' \<le> Suc (sent_count h)"
  using assms
  by (auto simp: send_def Let_def split: option.splits if_splits prod.splits)

lemma client_send_sent:
  assumes "client_send cl env d r h = (r', h', res)"
  shows "sent_count h' \<le> Suc (sent_count h)"
  using assms send_sent
  by (fastforce simp: client_send_def Let_def split: option.splits dest: send_sent)

lemma uerr_sent:
  assumes "uerr c resp r rs e = Ret (h, ce)"
  shows "sent_count h = 0"
  using assms by (auto simp: uerr_def Let_def split: option.splits if_splits)

lemma renew_body_sent:
  assumes "renew_body env inc r0 r h = (h', res)"
  shows "sent_count h' = sent_count h"
  using assms by (auto simp: renew_body_def split: if_splits)

lemma next_hop_Hop:
  assumes "next_hop cl env resp cur st = Hop st'"
  shows "ds_reqs st' = ds_reqs st" and "ds_resp st' = ds_resp st"
    and "sent_count (ds_history st') = sent_count (ds_history st)"
  using assms renew_body_sent
  by (auto simp: next_hop_def Let_def split: if_splits sum.splits prod.splits option.splits policy_error.splits
      dest!: renew_body_sent)

lemma next_hop_policy:
  assumes "next_hop cl env resp cur st = Hop st'"
  shows "\<exists>h q. fst (checkRedirect cl h q (ds_reqs st)) = None"
proof -
  from assms obtain h1 req3 req4 where "checkRedirect cl h1 req3 (ds_reqs st) = (None, req4)"
    by (auto simp: next_hop_def Let_def split: if_splits sum.splits prod.splits option.splits policy_error.splits)
  then have "fst (checkRedirect cl h1 req3 (ds_reqs st)) = None" by simp
  then show ?thesis by blast
qed

lemma next_hop_Finished:
  assumes "next_hop cl env resp cur st = Finished (Ret (res, h))"
  shows "sent_count h = sent_count (ds_history st)"
  using assms
  by (auto simp: next_hop_def Let_def finish_uerr_def go_bind_Ret
      split: if_splits sum.splits prod.splits option.splits policy_error.splits
      dest!: renew_body_sent uerr_sent)

lemma send_hop_Hop:
  assumes "send_hop cl env d st = Hop st'"
  shows "length (ds_reqs st') = Suc (length (ds_reqs st))" and "ds_resp st' \<noteq> None"
    and "sent_count (ds_history st') \<le> Suc (sent_count (ds_history st))"
  using assms
  by (auto simp: send_hop_def Let_def split: prod.splits sum.splits if_splits dest!: client_send_sent)

lemma send_hop_Finished:
  assumes "send_hop cl env d st = Finished (Ret (res, h))"
  shows "sent_count h \<le> Suc (sent_count (ds_history st))"
  using assms
  by (auto simp: send_hop_def Let_def finish_uerr_def go_bind_Ret
      split: prod.splits sum.splits if_splits dest!: client_send_sent uerr_sent)

text \<open>The rule of invariants for the loop.\<close>

lemma do_loop_invariant:
  assumes "do_loop cl env d st = Some r" and "I st"
    and step: "\<And>st st'. I st \<Longrightarrow> do_step cl env d st = Hop st' \<Longrightarrow> I st'"
    and final: "\<And>st r. I st \<Longrightarrow> do_step cl env d st = Finished r \<Longrightarrow> Q r"
  shows "Q r"
proof -
  have "cl' = cl \<longrightarrow> env' = env \<longrightarrow> d' = d \<longrightarrow> I st' \<longrightarrow> Q r'" if "do_loop cl' env' d' st' = Some r'"
    for cl' env' d' st' r'
  proof (rule do_loop.raw_induct[OF _ that, where P = "\<lambda>cl' env' d' st' r'.
      cl' = cl \<longrightarrow> env' = env \<longrightarrow> d' = d \<longrightarrow> I st' \<longrightarrow> Q r'"])
    fix loop cl1 env1 d1 st1 r1
    assume IH: "\<And>cl1 env1 d1 st1 r1. loop cl1 env1 d1 st1 = Some r1 \<Longrightarrow>
        cl1 = cl \<longrightarrow> env1 = env \<longrightarrow> d1 = d \<longrightarrow> I st1 \<longrightarrow> Q r1"
      and run: "(case do_step cl1 env1 d1 st1 of Finished r \<Rightarrow> Some r | Hop st' \<Rightarrow> loop cl1 env1 d1 st') = Some r1"
    show "cl1 = cl \<longrightarrow> env1 = env \<longrightarrow> d1 = d \<longrightarrow> I st1 \<longrightarrow> Q r1"
      using run IH step final by (auto split: do_outcome.splits)
  qed
  with assms(1,2) show ?thesis by blast
qed

section \<open>A policy that stops\<close>

text \<open>
  The contract between the loop of Do and its redirect policy: from some number of requests on, the policy
  refuses.  Under it the loop returns.
\<close>

locale stopping_policy =
  fixes policy :: "('b, 'c) history \<Rightarrow> 'b request \<Rightarrow> 'b request list \<Rightarrow> policy_error option \<times> 'b request"
    and limit :: nat
  assumes positive: "0 < limit"
    and stops: "limit \<le> length via \<Longrightarrow> fst (policy h req via) \<noteq> None"
begin

definition loop_inv :: "('b, 'c, 't) do_state \<Rightarrow> bool" where
  "loop_inv st \<longleftrightarrow> sent_count (ds_history st) \<le> length (ds_reqs st) \<and> length (ds_reqs st) \<le> limit \<and>
     (ds_resp st = None \<longleftrightarrow> ds_reqs st = [])"

lemma next_hop_below:
  assumes "checkRedirect cl = policy" and "next_hop cl env resp cur st = Hop st'"
  shows "length (ds_reqs st) < limit"
proof (rule ccontr)
  obtain h q where "fst (policy h q (ds_reqs st)) = None"
    using next_hop_policy[OF assms(2)] assms(1) by auto
  moreover assume "\<not> length (ds_reqs st) < limit"
  ultimately show False using stops[of "ds_reqs st" h q] by simp
qed

lemma send_hop_inv:
  assumes "sent_count (ds_history st) \<le> length (ds_reqs st)" and "length (ds_reqs st) < limit"
    and "send_hop cl env d st = Hop st'"
  shows "loop_inv st'" and "length (ds_reqs st') = Suc (length (ds_reqs st))"
  using assms send_hop_Hop[OF assms(3)] by (auto simp: loop_inv_def)

lemma do_step_Hop:
  assumes "checkRedirect cl = policy" and "loop_inv st" and "do_step cl env d st = Hop st'"
  shows "loop_inv st' \<and> length (ds_reqs st') = Suc (length (ds_reqs st))"
proof (cases "ds_resp st")
  case None
  then have "send_hop cl env d st = Hop st'" using assms(3) by (simp add: do_step_def)
  from send_hop_inv[OF _ _ this] assms(2) None positive show ?thesis by (auto simp: loop_inv_def)
next
  case (Some resp)
  with assms(3) obtain cur st1 where hop: "next_hop cl env resp cur st = Hop st1"
    and send: "send_hop cl env d st1 = Hop st'"
    by (auto simp: do_step_def split: option.splits do_outcome.splits)
  have "loop_inv st' \<and> length (ds_reqs st') = Suc (length (ds_reqs st1))"
    using send_hop_inv[OF _ _ send] next_hop_Hop[OF hop] next_hop_below[OF assms(1) hop] assms(2)
    by (auto simp: loop_inv_def)
  then show ?thesis using next_hop_Hop(1)[OF hop] by simp
qed

lemma do_step_Finished:
  assumes "checkRedirect cl = policy" and "loop_inv st" and "do_step cl env d st = Finished (Ret (res, h))"
  shows "sent_count h \<le> limit"
proof (cases "ds_resp st")
  case None
  then have "send_hop cl env d st = Finished (Ret (res, h))" using assms(3) by (simp add: do_step_def)
  from send_hop_Finished[OF this] None assms(2) positive show ?thesis by (auto simp: loop_inv_def)
next
  case (Some resp)
  with assms(3) obtain cur where
    "next_hop cl env resp cur st = Finished (Ret (res, h)) \<or>
     (\<exists>st1. next_hop cl env resp cur st = Hop st1 \<and> send_hop cl env d st1 = Finished (Ret (res, h)))"
    by (auto simp: do_step_def split: option.splits do_outcome.splits)
  then show ?thesis
  proof (elim disjE exE conjE)
    assume "next_hop cl env resp cur st = Finished (Ret (res, h))"
    from next_hop_Finished[OF this] assms(2) show ?thesis by (simp add: loop_inv_def)
  next
    fix st1
    assume hop: "next_hop cl env resp cur st = Hop st1" and send: "send_hop cl env d st1 = Finished (Ret (res, h))"
    from send_hop_Finished[OF send] next_hop_Hop[OF hop] next_hop_below[OF assms(1) hop] assms(2)
    show ?thesis by (simp add: loop_inv_def)
  qed
qed

lemma loop_returns:
  assumes "checkRedirect cl = policy" and "loop_inv st"
  shows "\<exists>r. do_loop cl env d st = Some r \<and> (\<forall>res h. r = Ret (res, h) \<longrightarrow> sent_count h \<le> limit)"
  using assms(2)
proof (induction "limit - length (ds_reqs st)" arbitrary: st rule: less_induct)
  case less
  show ?case
  proof (cases "do_step cl env d st")
    case (Finished r)
    then show ?thesis
      using do_step_Finished[OF assms(1) less.prems] by (auto simp: do_loop.simps)
  next
    case (Hop st')
    note st' = do_step_Hop[OF assms(1) less.prems Hop]
    have "limit - length (ds_reqs st') < limit - length (ds_reqs st)"
      using st' less.prems by (auto simp: loop_inv_def)
    from less.hyps[OF this] st' Hop show ?thesis by (simp add: do_loop.simps)
  qed
qed

lemma do_returns:
  assumes "checkRedirect cl = policy"
  shows "\<exists>r. Do cl env req = Some r \<and> (\<forall>res h. r = Ret (res, h) \<longrightarrow> sent_count h \<le> limit)"
proof (cases "rq_URL req")
  case None
  then show ?thesis by (auto simp: Do_def)
next
  case (Some u)
  have "loop_inv (do_start cl env req)" by (simp add: loop_inv_def do_start_def)
  from loop_returns[OF assms this, of env] Some show ?thesis by (simp add: Do_def)
qed

end

interpretation tenth: stopping_policy "\<lambda>h req via. (defaultCheckRedirect req via, req)" 10
  by unfold_locales (simp_all add: defaultCheckRedirect_def)

text \<open>C32: Without a policy of its own a client always returns from Do, however the servers answer, and it has
  then sent at most ten requests.\<close>

theorem default_policy_returns:
  fixes cl :: "('b, 'c, 't) client"
  assumes "cl_CheckRedirect cl = None"
  shows "\<exists>r. Do cl env req = Some r \<and> (\<forall>res h. r = Ret (res, h) \<longrightarrow> sent_count h \<le> 10)"
proof (rule tenth.do_returns)
  show "checkRedirect cl = (\<lambda>h req via. (defaultCheckRedirect req via, req))"
    using assms by (simp add: checkRedirect_def fun_eq_iff)
qed

section \<open>What Do returns\<close>

text \<open>
  Without an error there is a response with a body that is not nil; a response comes with an error only when
  the redirect policy failed, and then its body has been closed; a request body that the transport did not
  get has been closed.
\<close>

definition result_ok :: "'c timed_body response option \<times> client_error option \<Rightarrow> ('b, 'c) history \<Rightarrow> bool" where
  "result_ok res h =
     (case res of
        (None, None) \<Rightarrow> False
      | (Some r, None) \<Rightarrow> rp_Body r \<noteq> NilBody
      | (None, Some e) \<Rightarrow> True
      | (Some r, Some e) \<Rightarrow>
          (\<exists>m. ce_Err e = PolicyFailed m) \<and> ce_URL e = Header_Get ''Location'' (rp_Header r) \<and>
          ClosedResponseBody (rp_Body r) \<in> set h)"

fun do_result_ok :: "('b, 'c) do_result \<Rightarrow> bool" where
  "do_result_ok (Panic m) = True"
| "do_result_ok (Ret (res, h)) = result_ok res h"

fun outcome_ok :: "('b, 'c, 't) do_outcome \<Rightarrow> bool" where
  "outcome_ok (Finished r) = do_result_ok r"
| "outcome_ok (Hop st) = (\<forall>r. ds_resp st = Some r \<longrightarrow> rp_Body r \<noteq> NilBody)"

lemma fill_body_non_nil: "fill_body d t req p = Inr r \<Longrightarrow> rp_Body r \<noteq> NilBody"
  by (auto simp: fill_body_def Let_def split: if_splits)

lemma send_non_nil: "send rt ctx d req h = (h', Inr r) \<Longrightarrow> rp_Body r \<noteq> NilBody"
  by (auto simp: send_def Let_def split: option.splits if_splits prod.splits dest: fill_body_non_nil)

lemma client_send_non_nil: "client_send cl env d req h = (req', h', Inr r) \<Longrightarrow> rp_Body r \<noteq> NilBody"
  by (auto simp: client_send_def Let_def split: option.splits dest: send_non_nil)

lemma uerr_cause: "uerr c resp r rs e = Ret (h, ce) \<Longrightarrow> ce_Err ce = e"
  by (auto simp: uerr_def Let_def split: option.splits if_splits)

lemma finish_uerr_ok: "do_result_ok (finish_uerr h None ue)"
  by (cases ue) (auto simp: finish_uerr_def result_ok_def)

lemma send_hop_ok: "outcome_ok (send_hop cl env d st)"
proof -
  obtain req h res where snt: "client_send cl env d (ds_req st) (ds_history st) = (req, h, res)"
    by (metis prod.exhaust)
  show ?thesis
  proof (cases res)
    case (Inl e)
    then show ?thesis using snt by (simp add: send_hop_def Let_def finish_uerr_ok split: prod.split)
  next
    case (Inr r)
    then have "rp_Body r \<noteq> NilBody" using snt client_send_non_nil by blast
    then show ?thesis using snt Inr by (simp add: send_hop_def Let_def result_ok_def split: prod.split)
  qed
qed

lemma policy_failed_ok:
  assumes "loc = Header_Get ''Location'' (rp_Header r)"
  shows "do_result_ok (go_bind (uerr c resp q rs (PolicyFailed m)) (\<lambda>(h', e).
     Ret ((Some r, Some (e\<lparr>ce_URL := loc\<rparr>)), h1 @ [AskedPolicy q'] @ close_previous r @ h')))"
proof (cases "uerr c resp q rs (PolicyFailed m)")
  case (Ret x)
  obtain h e where x: "x = (h, e)" by (cases x)
  from uerr_cause[of c resp q rs _ h e] Ret x have "ce_Err e = PolicyFailed m" by simp
  then show ?thesis using Ret x assms by (simp add: result_ok_def close_previous_def)
qed simp

lemma next_hop_ok:
  assumes "rp_Body resp \<noteq> NilBody" and "ds_resp st = Some resp"
  shows "outcome_ok (next_hop cl env resp cur st)"
  unfolding next_hop_def Let_def
  using assms
  by (simp add: finish_uerr_ok policy_failed_ok result_ok_def
      split: sum.split prod.split option.split policy_error.split del: append.simps append_Cons)

lemma do_step_ok:
  assumes "outcome_ok (Hop st)"
  shows "outcome_ok (do_step cl env d st)"
proof (cases "ds_resp st")
  case None
  then show ?thesis by (simp add: do_step_def send_hop_ok)
next
  case (Some resp)
  with assms have "rp_Body resp \<noteq> NilBody" by simp
  note hop = next_hop_ok[OF this Some, of cl env]
  show ?thesis
  proof (cases "rq_URL (ds_req st)")
    case None
    then show ?thesis using Some by (simp add: do_step_def)
  next
    case (Some cur)
    with hop[of cur] \<open>ds_resp st = Some resp\<close> show ?thesis
      by (cases "next_hop cl env resp cur st") (simp_all add: do_step_def send_hop_ok)
  qed
qed

lemma do_loop_ok:
  assumes "do_loop cl env d st = Some r" and "outcome_ok (Hop st)"
  shows "do_result_ok r"
proof (rule do_loop_invariant[where I = "\<lambda>st. outcome_ok (Hop st)", OF assms])
  show "outcome_ok (Hop st')" if "outcome_ok (Hop st)" and "do_step cl env d st = Hop st'" for st st'
    using do_step_ok[OF that(1)] that(2) by metis
  show "do_result_ok r" if "outcome_ok (Hop st)" and "do_step cl env d st = Finished r" for st r
    using do_step_ok[OF that(1), of cl env d] that(2) by simp
qed

text \<open>C34: Whatever the RoundTripper, the policy and the jar do: Do without an error returns a response with a
  body that is not nil, and it returns a response together with an error only when CheckRedirect failed; the
  body of this response has been closed by then.\<close>

theorem Do_result:
  fixes cl :: "('b, 'c, 't) client"
  assumes "Do cl env req = Some (Ret (res, h))"
  shows "result_ok res h"
proof (cases "rq_URL req")
  case None
  then show ?thesis using assms by (auto simp: Do_def result_ok_def)
next
  case (Some u)
  with assms have "do_loop cl env (deadline_of cl (env_Now env [])) (do_start cl env req) = Some (Ret (res, h))"
    by (simp add: Do_def)
  from do_loop_ok[OF this] show ?thesis by (simp add: do_start_def)
qed

section \<open>The request after a redirect\<close>

lemma keys_of_copy_headers:
  "set (keys_of (copy_headers f hdr p u h)) \<subseteq>
     set (keys_of h) \<union> {k \<in> set (keys_of hdr). shouldCopyHeaderOnRedirect f k p u}"
proof (induction hdr arbitrary: h)
  case Nil
  then show ?case by (simp add: copy_headers_def)
next
  case (Cons kv hdr)
  obtain k vv where kv: "kv = (k, vv)" by (cases kv)
  have step: "copy_headers f (kv # hdr) p u h =
      copy_headers f hdr p u (if shouldCopyHeaderOnRedirect f k p u then AList.update k vv h else h)"
    by (simp add: copy_headers_def kv)
  show ?case
    unfolding step using Cons.IH[of "AList.update k vv h"] Cons.IH[of h]
    by (cases "shouldCopyHeaderOnRedirect f k p u") (auto simp: kv keys_of_update simp del: set_map)
qed

lemma map_of_copy_headers:
  assumes "gomap_ok hdr"
  shows "map_of (copy_headers f hdr p u h) k =
    (if shouldCopyHeaderOnRedirect f k p u \<and> k \<in> set (keys_of hdr) then map_of hdr k else map_of h k)"
  using assms
proof (induction hdr arbitrary: h)
  case Nil
  then show ?case by (simp add: copy_headers_def)
next
  case (Cons kv hdr)
  obtain k' vv where kv: "kv = (k', vv)" by (cases kv)
  have step: "copy_headers f ((k', vv) # hdr) p u h =
      copy_headers f hdr p u (if shouldCopyHeaderOnRedirect f k' p u then AList.update k' vv h else h)"
    by (simp add: copy_headers_def)
  show ?case
    using Cons by (auto simp: step kv update_conv' map_of_eq_None_iff)
qed

lemma map_of_copy_headers_Nil:
  assumes "gomap_ok hdr"
  shows "map_of (copy_headers f hdr p u []) k = (if shouldCopyHeaderOnRedirect f k p u then map_of hdr k else None)"
proof (cases "k \<in> set (keys_of hdr)")
  case False
  then have "map_of hdr k = None" by (simp add: map_of_eq_None_iff)
  then show ?thesis using map_of_copy_headers[OF assms] False by simp
qed (simp add: map_of_copy_headers[OF assms])

lemma canonical_Referer: "CanonicalMIMEHeaderKey ''Referer'' = ''Referer''"
  by code_simp

lemma canonical_Authorization: "CanonicalMIMEHeaderKey ''Authorization'' = ''Authorization''"
  by code_simp

lemma map_of_set_referer:
  "k \<noteq> ''Referer'' \<Longrightarrow> map_of (rq_Header (set_referer p u r)) k = map_of (rq_Header r) k"
  by (simp add: set_referer_def Let_def Header_Set_def MIMEHeader_Set_def canonical_Referer update_conv')

lemma keys_of_set_referer:
  "set (keys_of (rq_Header (set_referer p u r))) \<subseteq> insert ''Referer'' (set (keys_of (rq_Header r)))"
  by (simp add: set_referer_def Let_def Header_Set_def MIMEHeader_Set_def canonical_Referer keys_of_update subset_insertI
      del: set_map)

lemma set_referer_fields [simp]:
  "rq_URL (set_referer p u r) = rq_URL r"
  "rq_Method (set_referer p u r) = rq_Method r"
  "rq_Body (set_referer p u r) = rq_Body r"
  "rq_ContentLength (set_referer p u r) = rq_ContentLength r"
  "rq_Host (set_referer p u r) = rq_Host r"
  by (auto simp: set_referer_def Let_def)

text \<open>What the default policy lets pass, and the copied request before the Referer header is set.\<close>

lemma next_hop_default:
  assumes "cl_CheckRedirect cl = None" and "next_hop cl env resp cur st = Hop st'"
  obtains u req1 h1 hc where
    "URL_Parse cur (Header_Get ''Location'' (rp_Header resp)) = Inr u"
    "renew_body env (ds_includeBody st) (hd (ds_reqs st))
       (new_request\<lparr>rq_Method := ds_redirectMethod st, rq_URL := Some u,
          rq_Host := redirect_host (Header_Get ''Location'' (rp_Header resp)) (ds_req st) cur\<rparr>)
       (ds_history st) = (h1, Inr req1)"
    "hc = (if cl_Jar cl \<noteq> None
           then drop_set_cookies (readSetCookies (env_Tokens env) (env_ParseTime env) (rp_Header resp)) (ds_copier st)
           else ds_copier st)"
    "ds_req st' = set_referer cur u (req1\<lparr>rq_Header :=
        copy_headers (env_ToASCII env) (hc_ireqhdr hc) cur u (rq_Header req1)\<rparr>)"
    "ds_copier st' = hc"
    "ds_history st' = h1 @ [AskedPolicy (ds_req st')] @ close_previous resp"
  using assms
  by (auto simp: next_hop_def Let_def copyHeaders_def checkRedirect_def defaultCheckRedirect_def
      split: if_splits sum.splits prod.splits option.splits policy_error.splits)

text \<open>The states of the loop of Do for an initial request.\<close>

inductive do_reach ::
  "('b, 'c, 't) client \<Rightarrow> ('b, 'c, 't) client_env \<Rightarrow> 'b request \<Rightarrow> ('b, 'c, 't) do_state \<Rightarrow> bool"
  for cl env req where
  start: "do_reach cl env req (do_start cl env req)"
| step: "do_reach cl env req st \<Longrightarrow> do_step cl env (deadline_of cl (env_Now env [])) st = Hop st' \<Longrightarrow>
    do_reach cl env req st'"

lemma Clone_ok: "gomap_ok (cloneOrMakeHeader (Some h))"
proof -
  have "gomap_ok (fold (\<lambda>(k, vv) h2. AList.update k vv h2) es h0)" if "gomap_ok h0" for es h0 :: multimap
    using that by (induction es arbitrary: h0) (auto simp: distinct_update)
  from this[of "[]"] show ?thesis by (simp add: cloneOrMakeHeader_def Header_Clone_def)
qed

text \<open>
  What the states keep of the initial request: its headers in the copier (with a jar, all but Cookie) and its
  body in the first of the requests; and the last response is a redirect that is to be followed.
\<close>

definition copies_initial :: "('b, 'c, 't) client \<Rightarrow> 'b request \<Rightarrow> 't header_copier \<Rightarrow> bool" where
  "copies_initial cl req hc = (gomap_ok (hc_ireqhdr hc) \<and>
     (\<forall>k. k \<noteq> ''Cookie'' \<or> cl_Jar cl = None \<longrightarrow> map_of (hc_ireqhdr hc) k = map_of (rq_Header req) k))"

definition same_body :: "'b request \<Rightarrow> 'b request \<Rightarrow> bool" where
  "same_body r req = (rq_GetBody r = rq_GetBody req \<and> rq_Body r = rq_Body req \<and> rq_ContentLength r = rq_ContentLength req)"

definition redirecting :: "('b, 'c, 't) client \<Rightarrow> 'b request \<Rightarrow> ('b, 'c, 't) do_state \<Rightarrow> bool" where
  "redirecting cl req st = (copies_initial cl req (ds_copier st) \<and>
     (case ds_resp st of
        None \<Rightarrow> ds_reqs st = [] \<and> same_body (ds_req st) req
      | Some resp \<Rightarrow> ds_reqs st \<noteq> [] \<and> same_body (hd (ds_reqs st)) req \<and>
          redirectBehavior (rq_Method (ds_req st)) resp req = (ds_redirectMethod st, True, ds_includeBody st)))"

lemma redirectBehavior_body: "same_body r req \<Longrightarrow> redirectBehavior m resp r = redirectBehavior m resp req"
  by (cases "rq_Body req") (auto simp: redirectBehavior_def same_body_def outgoingLength_def)

lemma client_send_request:
  "client_send cl env d r h = (r', h', res) \<Longrightarrow> rq_Method r' = rq_Method r \<and> same_body r' r"
  by (auto simp: client_send_def Let_def same_body_def split: option.splits)

lemma same_body_trans: "same_body a b \<Longrightarrow> same_body b c \<Longrightarrow> same_body a c"
  by (simp add: same_body_def)

lemma send_hop_redirecting:
  assumes "copies_initial cl req (ds_copier st)" and "same_body (hd (ds_reqs st @ [ds_req st])) req"
    and "send_hop cl env d st = Hop st'"
  shows "redirecting cl req st'"
proof -
  obtain r h res where snt: "client_send cl env d (ds_req st) (ds_history st) = (r, h, res)"
    by (metis prod.exhaust)
  obtain resp m b where hop: "res = Inr resp" "redirectBehavior (rq_Method r) resp (hd (ds_reqs st @ [r])) = (m, True, b)"
    and st': "ds_copier st' = ds_copier st" "ds_reqs st' = ds_reqs st @ [r]" "ds_resp st' = Some resp" "ds_req st' = r"
      "ds_redirectMethod st' = m" "ds_includeBody st' = b"
    using assms(3) snt by (auto simp: send_hop_def Let_def split: sum.splits prod.splits if_splits)
  have "same_body (hd (ds_reqs st @ [r])) req"
    using assms(2) client_send_request[OF snt] by (cases "ds_reqs st") (auto dest: same_body_trans)
  then show ?thesis
    using assms(1) hop(2) redirectBehavior_body[of "hd (ds_reqs st @ [r])" req "rq_Method r" resp]
    by (simp add: redirecting_def st')
qed

lemma drop_set_cookies_initial:
  assumes "copies_initial cl req hc" and "cl_Jar cl \<noteq> None"
  shows "copies_initial cl req (drop_set_cookies cs hc)"
  using assms
  by (auto simp: copies_initial_def drop_set_cookies_def Let_def Header_Set_def Header_Del_def MIMEHeader_Set_def
      MIMEHeader_Del_def canonical_Cookie update_conv' delete_conv' distinct_update distinct_delete
      split: option.split)

lemma next_hop_copier:
  "next_hop cl env resp cur st = Hop st' \<Longrightarrow>
   ds_copier st' = (if cl_Jar cl \<noteq> None
     then drop_set_cookies (readSetCookies (env_Tokens env) (env_ParseTime env) (rp_Header resp)) (ds_copier st)
     else ds_copier st)"
  by (auto simp: next_hop_def Let_def copyHeaders_def split: if_splits sum.splits prod.splits option.splits policy_error.splits)

lemma next_hop_initial:
  "copies_initial cl req (ds_copier st) \<Longrightarrow> next_hop cl env resp cur st = Hop st' \<Longrightarrow>
   copies_initial cl req (ds_copier st')"
  by (simp add: next_hop_copier drop_set_cookies_initial)

lemma do_start_redirecting: "gomap_ok (rq_Header req) \<Longrightarrow> redirecting cl req (do_start cl env req)"
  by (simp add: redirecting_def do_start_def same_body_def copies_initial_def makeHeadersCopier_def Clone_map Clone_ok)

lemma do_step_redirecting:
  assumes "redirecting cl req st" and "do_step cl env d st = Hop st'"
  shows "redirecting cl req st'"
proof (cases "ds_resp st")
  case None
  then show ?thesis
    using assms by (intro send_hop_redirecting[of cl req st]) (auto simp: redirecting_def do_step_def)
next
  case (Some resp)
  then obtain cur st1 where hop: "next_hop cl env resp cur st = Hop st1" and snt: "send_hop cl env d st1 = Hop st'"
    using assms(2) by (auto simp: do_step_def split: option.splits do_outcome.splits)
  have "copies_initial cl req (ds_copier st1)" "same_body (hd (ds_reqs st1 @ [ds_req st1])) req"
    using assms(1) Some next_hop_initial[OF _ hop] next_hop_Hop(1)[OF hop] by (simp_all add: redirecting_def)
  then show ?thesis using send_hop_redirecting snt by blast
qed

lemma do_reach_redirecting: "do_reach cl env req st \<Longrightarrow> gomap_ok (rq_Header req) \<Longrightarrow> redirecting cl req st"
proof (induction rule: do_reach.induct)
  case start
  then show ?case by (rule do_start_redirecting)
next
  case (step st st')
  then show ?case using do_step_redirecting by blast
qed

text \<open>
  A header of the initial request as the copier holds it for the request that follows the response: with a jar,
  Cookie has lost the cookies that responses set again.
\<close>

definition initial_header ::
  "('b, 'c, 't) client \<Rightarrow> ('b, 'c, 't) client_env \<Rightarrow> 'b request \<Rightarrow> 'c timed_body response \<Rightarrow>
   ('b, 'c, 't) do_state \<Rightarrow> string \<Rightarrow> string list option" where
  "initial_header cl env req resp st k =
     (if k = ''Cookie'' \<and> cl_Jar cl \<noteq> None then
        map_of (hc_ireqhdr (drop_set_cookies
          (readSetCookies (env_Tokens env) (env_ParseTime env) (rp_Header resp)) (ds_copier st))) k
      else map_of (rq_Header req) k)"

lemma map_of_set_referer_Referer:
  "map_of (rq_Header (set_referer p u r)) ''Referer'' =
     (let ref = refererForURL p u (Header_Get ''Referer'' (rq_Header r))
      in if ref \<noteq> [] then Some [ref] else map_of (rq_Header r) ''Referer'')"
  by (simp add: set_referer_def Let_def Header_Set_def MIMEHeader_Set_def canonical_Referer update_conv')

lemma Header_Get_cong: "map_of h (CanonicalMIMEHeaderKey k) = map_of h' (CanonicalMIMEHeaderKey k) \<Longrightarrow> Header_Get k h = Header_Get k h'"
  by (simp add: Header_Get_def MIMEHeader_Get_def values_at_def)

lemma Referer_copied: "shouldCopyHeaderOnRedirect f ''Referer'' p u"
  by (simp add: shouldCopyHeaderOnRedirect_def CanonicalHeaderKey_def canonical_Referer sensitive_headers_def)

text \<open>
  C35: Every request that Do makes to follow a redirect, under the default policy and with or without a jar, goes
  to the resolved Location with the method that redirectBehavior chooses for the status; it carries the
  body that GetBody returns, with the initial length, exactly when the status asks for the body and GetBody
  exists, and none otherwise; for every key it carries the initial header exactly when
  shouldCopyHeaderOnRedirect lets it pass between the two hosts (with a jar, Cookie without the cookies that
  were set again); and Referer is the one that refererForURL gives, or else the initial one.\<close>

theorem redirect_request:
  fixes cl :: "('b, 'c, 't) client"
  assumes policy: "cl_CheckRedirect cl = None" and hdr: "gomap_ok (rq_Header req)"
    and "do_reach cl env req st" and "ds_resp st = Some resp" and "next_hop cl env resp cur st = Hop st'"
  shows "\<exists>u m withBody.
    URL_Parse cur (Header_Get ''Location'' (rp_Header resp)) = Inr u \<and>
    redirectBehavior (rq_Method (ds_req st)) resp req = (m, True, withBody) \<and>
    rq_URL (ds_req st') = Some u \<and> rq_Method (ds_req st') = m \<and>
    rq_Host (ds_req st') = redirect_host (Header_Get ''Location'' (rp_Header resp)) (ds_req st) cur \<and>
    (if withBody \<and> rq_GetBody req
     then env_GetBody env (ds_history st) = Inr (rq_Body (ds_req st')) \<and>
       rq_ContentLength (ds_req st') = rq_ContentLength req
     else rq_Body (ds_req st') = NilBody \<and> rq_ContentLength (ds_req st') = 0) \<and>
    (\<forall>k. k \<noteq> ''Referer'' \<longrightarrow> map_of (rq_Header (ds_req st')) k =
      (if shouldCopyHeaderOnRedirect (env_ToASCII env) k cur u then initial_header cl env req resp st k else None)) \<and>
    map_of (rq_Header (ds_req st')) ''Referer'' =
      (let ref = refererForURL cur u (Header_Get ''Referer'' (rq_Header req))
       in if ref \<noteq> [] then Some [ref] else map_of (rq_Header req) ''Referer'')"
proof -
  let ?f = "env_ToASCII env"
  let ?loc = "Header_Get ''Location'' (rp_Header resp)"
  have inv: "copies_initial cl req (ds_copier st)" "same_body (hd (ds_reqs st)) req"
    "redirectBehavior (rq_Method (ds_req st)) resp req = (ds_redirectMethod st, True, ds_includeBody st)"
    using do_reach_redirecting[OF assms(3) hdr] assms(4) by (simp_all add: redirecting_def)
  obtain u req1 h1 hc where u: "URL_Parse cur ?loc = Inr u"
    and body: "renew_body env (ds_includeBody st) (hd (ds_reqs st))
       (new_request\<lparr>rq_Method := ds_redirectMethod st, rq_URL := Some u,
          rq_Host := redirect_host ?loc (ds_req st) cur\<rparr>) (ds_history st) = (h1, Inr req1)"
    and hc: "ds_copier st' = hc"
    and req: "ds_req st' = set_referer cur u (req1\<lparr>rq_Header :=
        copy_headers ?f (hc_ireqhdr hc) cur u (rq_Header req1)\<rparr>)"
    using next_hop_default[OF policy assms(5)] by metis
  have fields: "rq_URL req1 = Some u" "rq_Method req1 = ds_redirectMethod st" "rq_Header req1 = []"
    "rq_Host req1 = redirect_host ?loc (ds_req st) cur"
    "if ds_includeBody st \<and> rq_GetBody req
     then env_GetBody env (ds_history st) = Inr (rq_Body req1) \<and> rq_ContentLength req1 = rq_ContentLength req
     else rq_Body req1 = NilBody \<and> rq_ContentLength req1 = 0"
    using body inv(2) by (auto simp: renew_body_def new_request_def same_body_def split: if_splits sum.splits)
  have init: "copies_initial cl req hc" using next_hop_initial[OF inv(1) assms(5)] hc by simp
  have copied: "map_of (copy_headers ?f (hc_ireqhdr hc) cur u []) k =
      (if shouldCopyHeaderOnRedirect ?f k cur u then initial_header cl env req resp st k else None)" for k
    using init next_hop_copier[OF assms(5)] hc
    by (auto simp: map_of_copy_headers_Nil copies_initial_def initial_header_def)
  have "map_of (rq_Header (ds_req st')) k =
      (if shouldCopyHeaderOnRedirect ?f k cur u then initial_header cl env req resp st k else None)"
    if "k \<noteq> ''Referer''" for k
    using that by (simp add: req map_of_set_referer fields(3) copied)
  moreover have ref: "map_of (copy_headers ?f (hc_ireqhdr hc) cur u []) ''Referer'' = map_of (rq_Header req) ''Referer''"
    by (simp add: copied Referer_copied initial_header_def)
  then have "map_of (rq_Header (ds_req st')) ''Referer'' =
      (let ref = refererForURL cur u (Header_Get ''Referer'' (rq_Header req))
       in if ref \<noteq> [] then Some [ref] else map_of (rq_Header req) ''Referer'')"
    using Header_Get_cong[of _ "''Referer''", unfolded canonical_Referer, OF ref]
    by (simp add: req map_of_set_referer_Referer fields(3) Let_def copied Referer_copied initial_header_def)
  ultimately show ?thesis
    using u inv(3) fields by (intro exI[of _ u] exI[of _ "ds_redirectMethod st"] exI[of _ "ds_includeBody st"]) (simp add: req)
qed

section \<open>Secrets stay within a domain, from one request to the next\<close>

fun sent_of :: "('b, 'c) client_event \<Rightarrow> 'b request list" where
  "sent_of (Sent d r) = [r]"
| "sent_of _ = []"

definition sent_requests :: "('b, 'c) history \<Rightarrow> 'b request list" where
  "sent_requests h = concat (map sent_of h)"

lemma sent_requests_simps [simp]:
  "sent_requests [] = []"
  "sent_requests (h @ h') = sent_requests h @ sent_requests h'"
  "sent_requests (e # h) = sent_of e @ sent_requests h"
  by (simp_all add: sent_requests_def)

lemma sent_requests_closing [simp]:
  "sent_requests (request_closeBody r) = []"
  "sent_requests (response_closeBody p) = []"
  "sent_requests (close_previous p) = []"
  "sent_requests (stop_timer t) = []"
  by (auto simp: request_closeBody_def response_closeBody_def close_previous_def stop_timer_def
      split: body_val.split option.split)

lemma renew_body_sent_requests:
  assumes "renew_body env inc r0 r h = (h', res)"
  shows "sent_requests h' = sent_requests h"
  using assms by (auto simp: renew_body_def split: if_splits)

lemma next_hop_sent_requests:
  assumes "next_hop cl env resp cur st = Hop st'"
  shows "sent_requests (ds_history st') = sent_requests (ds_history st)"
  using assms
  by (auto simp: next_hop_def Let_def dest!: renew_body_sent_requests
      split: if_splits sum.splits prod.splits option.splits policy_error.splits)

text \<open>
  When the host of the second URL is neither the host of the first nor below it, the second request has no
  sensitive header; only credentials in its own URL may make an Authorization header.
\<close>

definition keeps_secrets :: "(string \<Rightarrow> string option) \<Rightarrow> 'b request \<Rightarrow> 'b request \<Rightarrow> bool" where
  "keeps_secrets f p q =
     (case (rq_URL p, rq_URL q) of
        (Some u, Some v) \<Rightarrow>
          isDomainOrSubdomain (idnaASCIIFromURL f v) (idnaASCIIFromURL f u) \<or>
          list_all (\<lambda>k. CanonicalHeaderKey k \<notin> set sensitive_headers \<or> k = ''Authorization'' \<and> User v \<noteq> None)
            (keys_of (rq_Header q))
      | _ \<Rightarrow> False)"

lemma authorize_fields:
  "rq_URL (authorize r) = rq_URL r"
  "set (keys_of (rq_Header (authorize r))) \<subseteq>
     set (keys_of (cloneOrMakeHeader (Some (rq_Header r)))) \<union> set (keys_of (rq_Header r)) \<union>
     {k. k = ''Authorization'' \<and> (\<exists>u. rq_URL r = Some u \<and> User u \<noteq> None)}"
proof -
  show "rq_URL (authorize r) = rq_URL r" by (simp add: authorize_def split: option.split)
  show "set (keys_of (rq_Header (authorize r))) \<subseteq>
     set (keys_of (cloneOrMakeHeader (Some (rq_Header r)))) \<union> set (keys_of (rq_Header r)) \<union>
     {k. k = ''Authorization'' \<and> (\<exists>u. rq_URL r = Some u \<and> User u \<noteq> None)}"
    by (cases "rq_URL r")
      (auto simp: authorize_def Header_Set_def MIMEHeader_Set_def canonical_Authorization keys_of_update
        simp del: set_map)
qed

lemma keys_of_clone: "set (keys_of (cloneOrMakeHeader (Some h))) \<subseteq> set (keys_of h)"
proof -
  have "set (keys_of (fold (\<lambda>(k, vv) m. AList.update k vv m) h m)) \<subseteq> set (keys_of h) \<union> set (keys_of m)" for m
  proof (induction h arbitrary: m)
    case (Cons kv h)
    show ?case using Cons.IH[of "AList.update (fst kv) (snd kv) m"]
      by (auto simp: keys_of_update case_prod_beta simp del: set_map)
  qed simp
  from this[of "[]"] show ?thesis by (simp add: cloneOrMakeHeader_def Header_Clone_def)
qed

lemma next_hop_keeps_secrets:
  assumes "cl_CheckRedirect cl = None" and "cl_Jar cl = None" and "next_hop cl env resp cur st = Hop st'"
    and "rq_URL p = Some cur"
  shows "keeps_secrets (env_ToASCII env) p (authorize (ds_req st'))"
    and "sent_requests (ds_history st') = sent_requests (ds_history st)"
proof -
  obtain u req1 h1 hdr where
    body: "renew_body env (ds_includeBody st) (hd (ds_reqs st))
       (new_request\<lparr>rq_Method := ds_redirectMethod st, rq_URL := Some u,
          rq_Host := redirect_host (Header_Get ''Location'' (rp_Header resp)) (ds_req st) cur\<rparr>)
       (ds_history st) = (h1, Inr req1)"
    and req: "ds_req st' = set_referer cur u (req1\<lparr>rq_Header :=
        copy_headers (env_ToASCII env) hdr cur u (rq_Header req1)\<rparr>)"
    by (rule next_hop_default[OF assms(1,3)], rule that; assumption)
  have fields: "rq_URL req1 = Some u" "rq_Header req1 = []"
    using body by (auto simp: renew_body_def new_request_def split: if_splits sum.splits)
  show "sent_requests (ds_history st') = sent_requests (ds_history st)"
    using assms(3) by (rule next_hop_sent_requests)
  have url: "rq_URL (ds_req st') = Some u" by (simp add: req fields)
  have keys: "set (keys_of (rq_Header (ds_req st'))) \<subseteq>
      insert ''Referer'' {k. shouldCopyHeaderOnRedirect (env_ToASCII env) k cur u}"
    using keys_of_set_referer[of cur u "req1\<lparr>rq_Header := copy_headers (env_ToASCII env) hdr cur u (rq_Header req1)\<rparr>"]
      keys_of_copy_headers[of "env_ToASCII env" hdr cur u "[]"]
    by (auto simp: req fields simp del: set_map)
  have all: "set (keys_of (rq_Header (authorize (ds_req st')))) \<subseteq>
      insert ''Referer'' {k. shouldCopyHeaderOnRedirect (env_ToASCII env) k cur u} \<union> {k. k = ''Authorization'' \<and> User u \<noteq> None}"
    using authorize_fields(2)[of "ds_req st'"] keys_of_clone[of "rq_Header (ds_req st')"] keys url
    by (auto simp del: set_map)
  show "keeps_secrets (env_ToASCII env) p (authorize (ds_req st'))"
  proof (cases "isDomainOrSubdomain (idnaASCIIFromURL (env_ToASCII env) u) (idnaASCIIFromURL (env_ToASCII env) cur)")
    case True
    then show ?thesis by (simp add: keeps_secrets_def authorize_fields(1) assms(4) url)
  next
    case False
    have "CanonicalHeaderKey ''Referer'' \<notin> set sensitive_headers"
      by (simp add: CanonicalHeaderKey_def canonical_Referer sensitive_headers_def)
    with all False have "\<forall>k\<in>set (keys_of (rq_Header (authorize (ds_req st')))).
        CanonicalHeaderKey k \<notin> set sensitive_headers \<or> k = ''Authorization'' \<and> User u \<noteq> None"
      by (auto simp: shouldCopyHeaderOnRedirect_def simp del: set_map)
    then show ?thesis by (simp add: keeps_secrets_def authorize_fields(1) assms(4) url list_all_iff)
  qed
qed

definition trace_ok :: "(string \<Rightarrow> string option) \<Rightarrow> ('b, 'c) history \<Rightarrow> bool" where
  "trace_ok f h = successively (keeps_secrets f) (sent_requests h)"

definition trace_inv :: "(string \<Rightarrow> string option) \<Rightarrow> ('b, 'c, 't) do_state \<Rightarrow> bool" where
  "trace_inv f st \<longleftrightarrow> trace_ok f (ds_history st) \<and>
     (case ds_resp st of
        None \<Rightarrow> sent_requests (ds_history st) = []
      | Some _ \<Rightarrow> sent_requests (ds_history st) \<noteq> [] \<and> rq_URL (last (sent_requests (ds_history st))) = rq_URL (ds_req st))"

lemma client_send_trace:
  assumes "cl_Jar cl = None" and "client_send cl env d req h = (req', h', res)"
  shows "req' = req"
    and "sent_requests h' = sent_requests h @ (if sent_requests h' = sent_requests h then [] else [authorize req])"
    and "\<And>r. res = Inr r \<Longrightarrow> sent_requests h' = sent_requests h @ [authorize req]"
proof -
  have snt: "send (transport cl env) (env_ctxDeadline env) d req h = (h', res)" and "req' = req"
    using assms by (auto simp: client_send_def)
  then show "req' = req" by simp
  have "sent_requests h' = sent_requests h \<and> (\<forall>r. res \<noteq> Inr r) \<or> sent_requests h' = sent_requests h @ [authorize req]"
    using snt by (auto simp: send_def Let_def split: option.splits if_splits prod.splits)
  then show "sent_requests h' = sent_requests h @ (if sent_requests h' = sent_requests h then [] else [authorize req])"
    and "\<And>r. res = Inr r \<Longrightarrow> sent_requests h' = sent_requests h @ [authorize req]"
    by auto
qed

text \<open>The history may be extended by what sends no request.\<close>

lemma send_hop_trace:
  assumes jar: "cl_Jar cl = None" and ok: "trace_ok f (ds_history st)"
    and safe: "sent_requests (ds_history st) \<noteq> [] \<Longrightarrow>
      keeps_secrets f (last (sent_requests (ds_history st))) (authorize (ds_req st))"
  shows "send_hop cl env d st = Hop st' \<Longrightarrow> trace_inv f st'"
    and "send_hop cl env d st = Finished (Ret (res, h)) \<Longrightarrow> trace_ok f h"
proof -
  obtain req h1 r where snt: "client_send cl env d (ds_req st) (ds_history st) = (req, h1, r)"
    by (metis prod.exhaust)
  note tr = client_send_trace[OF jar snt]
  have ok1: "trace_ok f h1"
    unfolding trace_ok_def by (subst tr(2)) (use ok safe in \<open>auto simp: trace_ok_def successively_append_iff\<close>)
  show "trace_inv f st'" if "send_hop cl env d st = Hop st'"
  proof -
    from that snt obtain resp where r: "r = Inr resp"
      by (auto simp: send_hop_def Let_def split: sum.splits if_splits)
    then have "ds_history st' = h1 @ request_closeBody (ds_req st)" "ds_req st' = ds_req st" "ds_resp st' = Some resp"
      using that snt tr(1) by (auto simp: send_hop_def Let_def split: prod.splits if_splits)
    then show ?thesis
      using ok1 tr(3)[OF r] by (simp add: trace_inv_def trace_ok_def authorize_fields(1))
  qed
  show "trace_ok f h" if "send_hop cl env d st = Finished (Ret (res, h))"
  proof (cases r)
    case (Inl e)
    obtain cause t where e: "e = (cause, t)" by (cases e)
    from that snt Inl e obtain ue e' where "ue = uerr True None req (ds_reqs st @ [req]) e'" "finish_uerr h1 None ue = Ret (res, h)"
      by (auto simp: send_hop_def Let_def)
    then have "sent_requests h = sent_requests h1"
      by (auto simp: finish_uerr_def uerr_def Let_def split: option.splits)
    then show ?thesis using ok1 by (simp add: trace_ok_def)
  next
    case (Inr resp)
    with that snt have "h = h1" by (auto simp: send_hop_def Let_def split: prod.splits if_splits)
    then show ?thesis using ok1 by simp
  qed
qed

lemma next_hop_Finished_sent:
  assumes "next_hop cl env resp cur st = Finished (Ret (res, h))"
  shows "sent_requests h = sent_requests (ds_history st)"
proof -
  have "sent_requests h' = []" if "uerr c p r rs e = Ret (h', ce)" for c p r rs e h' and ce
    using that by (auto simp: uerr_def Let_def split: option.splits if_splits)
  with assms show ?thesis
    by (auto simp: next_hop_def Let_def finish_uerr_def go_bind_Ret dest!: renew_body_sent_requests
        split: if_splits sum.splits prod.splits option.splits policy_error.splits)
qed

lemma do_step_trace:
  assumes "cl_CheckRedirect cl = None" and jar: "cl_Jar cl = None" and inv: "trace_inv (env_ToASCII env) st"
  shows "do_step cl env d st = Hop st' \<Longrightarrow> trace_inv (env_ToASCII env) st'"
    and "do_step cl env d st = Finished (Ret (res, h)) \<Longrightarrow> trace_ok (env_ToASCII env) h"
proof -
  let ?f = "env_ToASCII env"
  have ok: "trace_ok ?f (ds_history st)" using inv by (simp add: trace_inv_def)
  have first: "send_hop cl env d st = Hop st' \<Longrightarrow> trace_inv ?f st'"
    "send_hop cl env d st = Finished (Ret (res, h)) \<Longrightarrow> trace_ok ?f h" if "ds_resp st = None"
    using send_hop_trace[OF jar ok] inv that by (simp_all add: trace_inv_def)
  have hop: "send_hop cl env d st1 = Hop st' \<Longrightarrow> trace_inv ?f st'"
    "send_hop cl env d st1 = Finished (Ret (res, h)) \<Longrightarrow> trace_ok ?f h"
    if "ds_resp st = Some resp" and "rq_URL (ds_req st) = Some cur" and "next_hop cl env resp cur st = Hop st1"
    for resp cur st1
  proof -
    have url: "rq_URL (last (sent_requests (ds_history st))) = Some cur" using inv that by (simp add: trace_inv_def)
    note kept = next_hop_keeps_secrets[OF assms(1) jar that(3) url]
    have "trace_ok ?f (ds_history st1)" using ok kept(2) by (simp add: trace_ok_def)
    from send_hop_trace[OF jar this] kept
    show "send_hop cl env d st1 = Hop st' \<Longrightarrow> trace_inv ?f st'"
      "send_hop cl env d st1 = Finished (Ret (res, h)) \<Longrightarrow> trace_ok ?f h" by simp_all
  qed
  show "do_step cl env d st = Hop st' \<Longrightarrow> trace_inv ?f st'"
    using first(1) hop(1) by (auto simp: do_step_def split: option.splits do_outcome.splits)
  have fin: "trace_ok ?f h" if "next_hop cl env resp cur st = Finished (Ret (res, h))" for resp cur
    using next_hop_Finished_sent[OF that] ok by (simp add: trace_ok_def)
  show "do_step cl env d st = Finished (Ret (res, h)) \<Longrightarrow> trace_ok ?f h"
    using first(2) hop(2) fin by (auto simp: do_step_def split: option.splits do_outcome.splits)
qed

text \<open>C33: Of any two requests that Do sends one after the other, the second carries a sensitive header
  (Authorization, Www-Authenticate, Cookie, Cookie2) only when its host is the host of the first or below it, or
  when its own URL has credentials; for the default policy and a client without a jar.\<close>

theorem Do_keeps_secrets:
  fixes cl :: "('b, 'c, 't) client"
  assumes "cl_CheckRedirect cl = None" and "cl_Jar cl = None" and "Do cl env req = Some (Ret (res, h))"
  shows "successively (keeps_secrets (env_ToASCII env)) (sent_requests h)"
proof (cases "rq_URL req")
  case None
  then show ?thesis using assms(3) by (auto simp: Do_def)
next
  case (Some u)
  let ?f = "env_ToASCII env"
  let ?d = "deadline_of cl (env_Now env [])"
  have run: "do_loop cl env ?d (do_start cl env req) = Some (Ret (res, h))" using assms(3) Some by (simp add: Do_def)
  have start: "trace_inv ?f (do_start cl env req)" by (simp add: trace_inv_def do_start_def trace_ok_def)
  have "(case Ret (res, h) of Ret (res, h) \<Rightarrow> trace_ok ?f h | _ \<Rightarrow> True)"
  proof (rule do_loop_invariant[where I = "trace_inv ?f", OF run start])
    show "trace_inv ?f st'" if "trace_inv ?f st" and "do_step cl env ?d st = Hop st'" for st st'
      using do_step_trace(1)[OF assms(1,2) that] .
    show "(case r of Ret (res, h) \<Rightarrow> trace_ok ?f h | _ \<Rightarrow> True)"
      if "trace_inv ?f st" and "do_step cl env ?d st = Finished r" for st r
      using do_step_trace(2)[OF assms(1,2) that(1)] that(2) by (auto split: go.split)
  qed
  then show ?thesis by (simp add: trace_ok_def)
qed

section \<open>Examples\<close>

text \<open>
  A server a.com that answers with a redirect to b.com, which redirects once more within b.com; the user sets
  the header Authorization for a.com.
\<close>

definition page :: "string \<Rightarrow> string \<Rightarrow> URL" where
  "page host path = new_URL\<lparr>Scheme := ''http'', Host := host, Path := path\<rparr>"

definition reply :: "int \<Rightarrow> string \<Rightarrow> unit timed_body response" where
  "reply code loc = new_response\<lparr>rp_StatusCode := code, rp_Header := [(''Location'', [loc])], rp_Body := NoBody\<rparr>"

definition two_domains :: "(unit, unit) round_tripper" where
  "two_domains h d r =
     (case rq_URL r of
        None \<Rightarrow> (None, None)
      | Some u \<Rightarrow>
          (Some (if Host u = ''a.com'' then reply 302 ''http://b.com/''
                 else if Path u = ''/'' then reply 302 ''/x'' else reply 200 []), None))"

definition demo_client :: "(unit, unit) round_tripper \<Rightarrow> (unit, unit, unit) client" where
  "demo_client t = \<lparr>cl_Transport = Some t, cl_CheckRedirect = None, cl_Jar = None, cl_Timeout = 0\<rparr>"

definition demo_env :: "(unit, unit, unit) client_env" where
  "demo_env =
     \<lparr>env_DefaultTransport = None, env_Now = (\<lambda>h. 0), env_ctxDeadline = None, env_GetBody = (\<lambda>h. Inr (TheBody ())),
      env_ToASCII = Some, env_Tokens = (\<lambda>n. True), env_ParseTime = (\<lambda>a b. None)\<rparr>"

definition secret_request :: "unit request" where
  "secret_request = new_request\<lparr>rq_Method := ''GET'', rq_URL := Some (page ''a.com'' ''/''),
     rq_Header := [(''Authorization'', [''secret''])]\<rparr>"

fun history_of :: "('b, 'c) do_result option \<Rightarrow> ('b, 'c) history" where
  "history_of (Some (Ret (res, h))) = h"
| "history_of _ = []"

definition seen :: "unit request \<Rightarrow> string option \<times> string" where
  "seen r = (map_option Host (rq_URL r), Header_Get ''Authorization'' (rq_Header r))"

text \<open>
  The secret is not sent to b.com with the first redirect, but it is sent to b.com with the second, which stays
  within b.com: copyHeaders compares the upcoming URL with the URL of the previous request only, and copies
  from the headers of the initial request.
\<close>

lemma secret_sent_after_two_redirects:
  "map seen (sent_requests (history_of (Do (demo_client two_domains) demo_env secret_request))) =
     [(Some ''a.com'', ''secret''), (Some ''b.com'', ''''), (Some ''b.com'', ''secret'')]"
  by code_simp

text \<open>After 303 a POST becomes a GET without a body; a 307 that follows sends the body of the POST with GET.\<close>

definition see_other :: "(unit, unit) round_tripper" where
  "see_other h d r =
     (case rq_URL r of
        None \<Rightarrow> (None, None)
      | Some u \<Rightarrow>
          (Some (if Path u = ''/'' then reply 303 ''/x'' else if Path u = ''/x'' then reply 307 ''/y'' else reply 200 []), None))"

definition post_request :: "unit request" where
  "post_request = new_request\<lparr>rq_Method := ''POST'', rq_URL := Some (page ''a.com'' ''/''), rq_Body := TheBody (),
     rq_GetBody := True, rq_ContentLength := 5\<rparr>"

lemma body_sent_with_GET:
  "map (\<lambda>r. (rq_Method r, rq_Body r, rq_ContentLength r))
     (sent_requests (history_of (Do (demo_client see_other) demo_env post_request))) =
     [(''POST'', TheBody (), 5), (''GET'', NilBody, 0), (''GET'', TheBody (), 5)]"
  by code_simp

text \<open>The zone of an IPv6 host counts as a part of a domain name.\<close>

lemma zone_counts_as_subdomain:
  "case Parse ''http://[::1%25.a.com]/'' of
     Inl e \<Rightarrow> False
   | Inr u \<Rightarrow> shouldCopyHeaderOnRedirect Some ''Authorization'' (page ''a.com'' ''/'') u"
  by code_simp

theorem default_policy_returns_witness:
  "\<exists>r. Do (demo_client two_domains) demo_env secret_request = Some r \<and> (\<forall>res h. r = Ret (res, h) \<longrightarrow> sent_count h \<le> 10)"
  by (rule default_policy_returns) (simp add: demo_client_def)

definition short_request :: "unit request" where
  "short_request = new_request\<lparr>rq_Method := ''GET'', rq_URL := Some (page ''c.com'' ''/x'')\<rparr>"

theorem Do_result_witness:
  "result_ok (Some (reply 200 []), None) (history_of (Do (demo_client two_domains) demo_env short_request))"
proof (rule Do_result)
  show "Do (demo_client two_domains) demo_env short_request =
     Some (Ret ((Some (reply 200 []), None), history_of (Do (demo_client two_domains) demo_env short_request)))"
    by code_simp
qed

theorem Do_keeps_secrets_witness:
  "successively (keeps_secrets Some) (sent_requests (history_of (Do (demo_client two_domains) demo_env secret_request)))"
proof -
  have run: "Do (demo_client two_domains) demo_env secret_request =
     Some (Ret ((Some (reply 200 []), None), history_of (Do (demo_client two_domains) demo_env secret_request)))"
    by code_simp
  have "successively (keeps_secrets (env_ToASCII demo_env))
     (sent_requests (history_of (Do (demo_client two_domains) demo_env secret_request)))"
    using Do_keeps_secrets[OF _ _ run] by (simp add: demo_client_def)
  then show ?thesis by (simp add: demo_env_def)
qed

definition moved :: "(unit, unit) round_tripper" where
  "moved h d r = (Some (reply 307 ''http://b.com/y''), None)"

definition form_request :: "unit request" where
  "form_request = post_request\<lparr>rq_Header := [(''Authorization'', [''secret'']), (''X-Form'', [''1''])]\<rparr>"

definition demo_state :: "(unit, unit, unit) do_state" where
  "demo_state =
     (case do_step (demo_client moved) demo_env None (do_start (demo_client moved) demo_env form_request) of
        Hop st \<Rightarrow> st | Finished _ \<Rightarrow> do_start (demo_client moved) demo_env form_request)"

theorem redirect_request_witness:
  "\<exists>st'. next_hop (demo_client moved) demo_env (reply 307 ''http://b.com/y'') (page ''a.com'' ''/'') demo_state = Hop st' \<and>
     rq_URL (ds_req st') = Some (page ''b.com'' ''/y'') \<and> rq_Method (ds_req st') = ''POST'' \<and>
     rq_Body (ds_req st') = TheBody () \<and> rq_ContentLength (ds_req st') = 5 \<and>
     map_of (rq_Header (ds_req st')) ''Authorization'' = None \<and>
     map_of (rq_Header (ds_req st')) ''X-Form'' = Some [''1''] \<and>
     map_of (rq_Header (ds_req st')) ''Referer'' = Some [''http://a.com/'']"
proof -
  let ?resp = "reply 307 ''http://b.com/y''" and ?cur = "page ''a.com'' ''/''" and ?new = "page ''b.com'' ''/y''"
  have "case do_step (demo_client moved) demo_env None (do_start (demo_client moved) demo_env form_request) of
      Hop st \<Rightarrow> True | Finished _ \<Rightarrow> False" by code_simp
  then have "do_step (demo_client moved) demo_env None (do_start (demo_client moved) demo_env form_request) = Hop demo_state"
    by (auto simp: demo_state_def split: do_outcome.splits)
  moreover have "deadline_of (demo_client moved) (env_Now demo_env []) = None" by (simp add: demo_client_def deadline_of_def)
  ultimately have reach: "do_reach (demo_client moved) demo_env form_request demo_state"
    by (intro do_reach.step[OF do_reach.start]) simp
  have resp: "ds_resp demo_state = Some ?resp" by code_simp
  have "case next_hop (demo_client moved) demo_env ?resp ?cur demo_state of Finished r \<Rightarrow> False | Hop st \<Rightarrow> True"
    by code_simp
  then obtain st' where st': "next_hop (demo_client moved) demo_env ?resp ?cur demo_state = Hop st'"
    by (cases "next_hop (demo_client moved) demo_env ?resp ?cur demo_state") auto
  have start: "cl_CheckRedirect (demo_client moved) = None" "gomap_ok (rq_Header form_request)"
    by (simp_all add: demo_client_def form_request_def)
  have facts: "URL_Parse ?cur (Header_Get ''Location'' (rp_Header ?resp)) = Inr ?new"
    "redirectBehavior (rq_Method (ds_req demo_state)) ?resp form_request = (''POST'', True, True)"
    "\<not> shouldCopyHeaderOnRedirect Some ''Authorization'' ?cur ?new"
    "shouldCopyHeaderOnRedirect Some ''X-Form'' ?cur ?new"
    "refererForURL ?cur ?new (Header_Get ''Referer'' (rq_Header form_request)) = ''http://a.com/''"
    by code_simp+
  have "env_ToASCII demo_env = Some" "rq_GetBody form_request" "env_GetBody demo_env h = Inr (TheBody ())" "rq_ContentLength form_request = 5"
    "initial_header (demo_client moved) demo_env form_request ?resp demo_state ''X-Form'' = Some [''1'']" for h
    by (simp_all add: demo_env_def form_request_def post_request_def initial_header_def)
  then show ?thesis
    using redirect_request[OF start reach resp st'] st' facts by auto
qed

end
