(* ===== verification/H2_Frame.thy ===== *)
theory H2_Frame
  imports Http_Header
begin

text \<open>
  The framing layer of HTTP/2 (src/http/h2_bundle.go): frame headers, the parsers of the frame types, the
  Framer with its reads and writes, and the merging of HEADERS and CONTINUATION frames.  The
  connection is the list of the pieces in which its bytes arrive, and ends with EOF.  The HPACK decoder and the
  functions of golang.org/x/net are arguments: \<open>hp\<close> is the decoder with a state of the type \<open>'d\<close>, \<open>T\<close>
  IsTokenRune and \<open>V\<close> ValidHeaderFieldValue.  Frames are values, so the flag valid, which catches the use of
  a frame whose buffer has been reused, is not modelled; nor are the counters of errors and the logs.
\<close>

unbundle bit_operations_syntax

section \<open>Bytes of words\<close>

text \<open>Go's \<open>byte(w)\<close> and its inverse.\<close>

definition byte_of :: "'a::len word \<Rightarrow> char" where
  "byte_of w = char_of (unat w)"

definition word_of :: "char \<Rightarrow> 'a::len word" where
  "word_of c = word_of_nat (of_char c)"

definition put16 :: "16 word \<Rightarrow> string" where
  "put16 v = [byte_of (drop_bit 8 v), byte_of v]"

definition put32 :: "32 word \<Rightarrow> string" where
  "put32 v = [byte_of (drop_bit 24 v), byte_of (drop_bit 16 v), byte_of (drop_bit 8 v), byte_of v]"

text \<open>binary.BigEndian, on the first bytes of a slice.\<close>

definition get16 :: "string \<Rightarrow> 16 word" where
  "get16 b = word_of (b ! 1) OR push_bit 8 (word_of (b ! 0))"

definition get32 :: "string \<Rightarrow> 32 word" where
  "get32 b = word_of (b ! 3) OR push_bit 8 (word_of (b ! 2)) OR push_bit 16 (word_of (b ! 1)) OR
     push_bit 24 (word_of (b ! 0))"

definition mask31 :: "32 word" where
  "mask31 = 0x7FFFFFFF"

section \<open>Types\<close>

type_synonym err_code = "32 word"

definition ErrCodeNo :: err_code where "ErrCodeNo = 0"
definition ErrCodeProtocol :: err_code where "ErrCodeProtocol = 1"
definition ErrCodeFlowControl :: err_code where "ErrCodeFlowControl = 3"
definition ErrCodeFrameSize :: err_code where "ErrCodeFrameSize = 6"
definition ErrCodeCompression :: err_code where "ErrCodeCompression = 9"
definition ErrCodeInadequateSecurity :: err_code where "ErrCodeInadequateSecurity = 12"

type_synonym frame_type = "8 word"

definition FrameData :: frame_type where "FrameData = 0"
definition FrameHeaders :: frame_type where "FrameHeaders = 1"
definition FramePriority :: frame_type where "FramePriority = 2"
definition FrameRSTStream :: frame_type where "FrameRSTStream = 3"
definition FrameSettings :: frame_type where "FrameSettings = 4"
definition FramePushPromise :: frame_type where "FramePushPromise = 5"
definition FramePing :: frame_type where "FramePing = 6"
definition FrameGoAway :: frame_type where "FrameGoAway = 7"
definition FrameWindowUpdate :: frame_type where "FrameWindowUpdate = 8"
definition FrameContinuation :: frame_type where "FrameContinuation = 9"

lemmas frame_types = FrameData_def FrameHeaders_def FramePriority_def FrameRSTStream_def FrameSettings_def
  FramePushPromise_def FramePing_def FrameGoAway_def FrameWindowUpdate_def FrameContinuation_def

type_synonym flags = "8 word"

definition Flags_Has :: "flags \<Rightarrow> flags \<Rightarrow> bool" where
  "Flags_Has f v = (f AND v = v)"

definition FlagEndStream :: flags where "FlagEndStream = 1"
definition FlagAck :: flags where "FlagAck = 1"
definition FlagEndHeaders :: flags where "FlagEndHeaders = 4"
definition FlagPadded :: flags where "FlagPadded = 8"
definition FlagPriority :: flags where "FlagPriority = 0x20"

record frame_header =
  fh_Type :: frame_type
  fh_Flags :: flags
  fh_Length :: "32 word"
  fh_StreamID :: "32 word"

definition zero_header :: frame_header where
  "zero_header = \<lparr>fh_Type = 0, fh_Flags = 0, fh_Length = 0, fh_StreamID = 0\<rparr>"

record priority_param =
  pp_StreamDep :: "32 word"
  pp_Exclusive :: bool
  pp_Weight :: "8 word"

record hpack_field =
  hf_Name :: string
  hf_Value :: string

datatype frame =
  DataFrame frame_header string
| SettingsFrame frame_header string
| PingFrame frame_header string
| GoAwayFrame frame_header "32 word" err_code string
| UnknownFrame frame_header string
| WindowUpdateFrame frame_header "32 word"
| HeadersFrame frame_header priority_param string
| PriorityFrame frame_header priority_param
| RSTStreamFrame frame_header err_code
| PushPromiseFrame frame_header "32 word" string
| ContinuationFrame frame_header string
| MetaHeadersFrame frame_header priority_param "hpack_field list" bool

fun frame_Header :: "frame \<Rightarrow> frame_header" where
  "frame_Header (DataFrame h _) = h"
| "frame_Header (SettingsFrame h _) = h"
| "frame_Header (PingFrame h _) = h"
| "frame_Header (GoAwayFrame h _ _ _) = h"
| "frame_Header (UnknownFrame h _) = h"
| "frame_Header (WindowUpdateFrame h _) = h"
| "frame_Header (HeadersFrame h _ _) = h"
| "frame_Header (PriorityFrame h _) = h"
| "frame_Header (RSTStreamFrame h _) = h"
| "frame_Header (PushPromiseFrame h _ _) = h"
| "frame_Header (ContinuationFrame h _) = h"
| "frame_Header (MetaHeadersFrame h _ _ _) = h"

datatype field_error =
  PseudoHeaderError string
| DuplicatePseudoHeaderError string
| HeaderFieldNameError string
| HeaderFieldValueError string
| MixPseudoHeaderTypes
| PseudoAfterRegular

datatype frame_error =
  ConnectionError err_code
| ReasonedError err_code string
| StreamError "32 word" err_code "field_error option"
| FrameTooLarge
| IllegalIncrement
| IllegalReads
| FrameIo io_error

definition terminalReadFrameError :: "frame_error option \<Rightarrow> bool" where
  "terminalReadFrameError err =
     (case err of
        Some (StreamError _ _ _) \<Rightarrow> False
      | Some _ \<Rightarrow> True
      | None \<Rightarrow> False)"

section \<open>Settings\<close>

record setting =
  set_ID :: "16 word"
  set_Val :: "32 word"

definition SettingHeaderTableSize :: "16 word" where "SettingHeaderTableSize = 1"
definition SettingMaxConcurrentStreams :: "16 word" where "SettingMaxConcurrentStreams = 3"
definition SettingInitialWindowSize :: "16 word" where "SettingInitialWindowSize = 4"
definition SettingMaxFrameSize :: "16 word" where "SettingMaxFrameSize = 5"
definition SettingMaxHeaderListSize :: "16 word" where "SettingMaxHeaderListSize = 6"

definition NumSettings :: "string \<Rightarrow> nat" where
  "NumSettings p = length p div 6"

definition Setting :: "string \<Rightarrow> nat \<Rightarrow> setting" where
  "Setting p i = \<lparr>set_ID = get16 (drop (i * 6) p), set_Val = get32 (drop (i * 6 + 2) p)\<rparr>"

definition all_settings :: "string \<Rightarrow> setting list" where
  "all_settings p = map (Setting p) [0..<NumSettings p]"

definition settings_Value :: "string \<Rightarrow> 16 word \<Rightarrow> 32 word option" where
  "settings_Value p sid = map_option set_Val (List.find (\<lambda>s. set_ID s = sid) (all_settings p))"

text \<open>It stops at the first error.\<close>

fun foreach :: "(setting \<Rightarrow> 's \<Rightarrow> 's \<times> frame_error option) \<Rightarrow> setting list \<Rightarrow> 's \<Rightarrow> 's \<times> frame_error option" where
  "foreach fn [] st = (st, None)"
| "foreach fn (s # ss) st =
     (case fn s st of
        (st', Some e) \<Rightarrow> (st', Some e)
      | (st', None) \<Rightarrow> foreach fn ss st')"

definition ForeachSetting ::
  "(setting \<Rightarrow> 's \<Rightarrow> 's \<times> frame_error option) \<Rightarrow> string \<Rightarrow> 's \<Rightarrow> 's \<times> frame_error option" where
  "ForeachSetting fn p st = foreach fn (all_settings p) st"

section \<open>The parsers\<close>

definition readByte :: "string \<Rightarrow> frame_error + string \<times> 8 word" where
  "readByte p = (case p of [] \<Rightarrow> Inl (FrameIo UnexpectedEOF) | c # r \<Rightarrow> Inr (r, word_of c))"

definition readUint32 :: "string \<Rightarrow> frame_error + string \<times> 32 word" where
  "readUint32 p = (if length p < 4 then Inl (FrameIo UnexpectedEOF) else Inr (drop 4 p, get32 p))"

text \<open>The padding: a byte that counts the bytes to drop at the end, when the flag is set.\<close>

definition pad_length :: "flags \<Rightarrow> string \<Rightarrow> frame_error + string \<times> nat" where
  "pad_length fl p =
     (if Flags_Has fl FlagPadded then and_then (readByte p) (\<lambda>(p', b). Inr (p', unat b)) else Inr (p, 0))"

definition parseDataFrame :: "frame_header \<Rightarrow> string \<Rightarrow> frame_error + frame" where
  "parseDataFrame fh payload =
     (if fh_StreamID fh = 0 then Inl (ReasonedError ErrCodeProtocol ''DATA frame with stream ID 0'')
      else and_then (pad_length (fh_Flags fh) payload) (\<lambda>(p, pad).
        if pad > length p then Inl (ReasonedError ErrCodeProtocol ''pad size larger than data payload'')
        else Inr (DataFrame fh (take (length p - pad) p))))"

definition parseSettingsFrame :: "frame_header \<Rightarrow> string \<Rightarrow> frame_error + frame" where
  "parseSettingsFrame fh p =
     (if Flags_Has (fh_Flags fh) FlagAck \<and> fh_Length fh > 0 then Inl (ConnectionError ErrCodeFrameSize)
      else if fh_StreamID fh \<noteq> 0 then Inl (ConnectionError ErrCodeProtocol)
      else if length p mod 6 \<noteq> 0 then Inl (ConnectionError ErrCodeFrameSize)
      else (case settings_Value p SettingInitialWindowSize of
              Some v \<Rightarrow> if v > mask31 then Inl (ConnectionError ErrCodeFlowControl) else Inr (SettingsFrame fh p)
            | None \<Rightarrow> Inr (SettingsFrame fh p)))"

definition parsePingFrame :: "frame_header \<Rightarrow> string \<Rightarrow> frame_error + frame" where
  "parsePingFrame fh p =
     (if length p \<noteq> 8 then Inl (ConnectionError ErrCodeFrameSize)
      else if fh_StreamID fh \<noteq> 0 then Inl (ConnectionError ErrCodeProtocol)
      else Inr (PingFrame fh p))"

definition parseGoAwayFrame :: "frame_header \<Rightarrow> string \<Rightarrow> frame_error + frame" where
  "parseGoAwayFrame fh p =
     (if fh_StreamID fh \<noteq> 0 then Inl (ConnectionError ErrCodeProtocol)
      else if length p < 8 then Inl (ConnectionError ErrCodeFrameSize)
      else Inr (GoAwayFrame fh (get32 p AND mask31) (get32 (drop 4 p)) (drop 8 p)))"

definition parseUnknownFrame :: "frame_header \<Rightarrow> string \<Rightarrow> frame_error + frame" where
  "parseUnknownFrame fh p = Inr (UnknownFrame fh p)"

definition parseWindowUpdateFrame :: "frame_header \<Rightarrow> string \<Rightarrow> frame_error + frame" where
  "parseWindowUpdateFrame fh p =
     (if length p \<noteq> 4 then Inl (ConnectionError ErrCodeFrameSize)
      else (let inc = get32 p AND mask31
            in if inc = 0 then
                 (if fh_StreamID fh = 0 then Inl (ConnectionError ErrCodeProtocol)
                  else Inl (StreamError (fh_StreamID fh) ErrCodeProtocol None))
               else Inr (WindowUpdateFrame fh inc)))"

definition no_priority :: priority_param where
  "no_priority = \<lparr>pp_StreamDep = 0, pp_Exclusive = False, pp_Weight = 0\<rparr>"

definition read_priority :: "flags \<Rightarrow> string \<Rightarrow> frame_error + string \<times> priority_param" where
  "read_priority fl p =
     (if Flags_Has fl FlagPriority then
        and_then (readUint32 p) (\<lambda>(p1, v).
        and_then (readByte p1) (\<lambda>(p2, wt).
          Inr (p2, \<lparr>pp_StreamDep = v AND mask31, pp_Exclusive = (v \<noteq> v AND mask31), pp_Weight = wt\<rparr>)))
      else Inr (p, no_priority))"

definition parseHeadersFrame :: "frame_header \<Rightarrow> string \<Rightarrow> frame_error + frame" where
  "parseHeadersFrame fh p0 =
     (if fh_StreamID fh = 0 then Inl (ReasonedError ErrCodeProtocol ''HEADERS frame with stream ID 0'')
      else and_then (pad_length (fh_Flags fh) p0) (\<lambda>(p1, pad).
           and_then (read_priority (fh_Flags fh) p1) (\<lambda>(p, prio).
             if length p < pad then Inl (StreamError (fh_StreamID fh) ErrCodeProtocol None)
             else Inr (HeadersFrame fh prio (take (length p - pad) p)))))"

definition parsePriorityFrame :: "frame_header \<Rightarrow> string \<Rightarrow> frame_error + frame" where
  "parsePriorityFrame fh p =
     (if fh_StreamID fh = 0 then Inl (ReasonedError ErrCodeProtocol ''PRIORITY frame with stream ID 0'')
      else if length p \<noteq> 5 then Inl (ReasonedError ErrCodeFrameSize ''PRIORITY frame payload size'')
      else (let v = get32 p; streamID = v AND mask31
            in Inr (PriorityFrame fh \<lparr>pp_StreamDep = streamID, pp_Exclusive = (streamID \<noteq> v), pp_Weight = word_of (p ! 4)\<rparr>)))"

definition parseRSTStreamFrame :: "frame_header \<Rightarrow> string \<Rightarrow> frame_error + frame" where
  "parseRSTStreamFrame fh p =
     (if length p \<noteq> 4 then Inl (ConnectionError ErrCodeFrameSize)
      else if fh_StreamID fh = 0 then Inl (ConnectionError ErrCodeProtocol)
      else Inr (RSTStreamFrame fh (get32 p)))"

definition parsePushPromise :: "frame_header \<Rightarrow> string \<Rightarrow> frame_error + frame" where
  "parsePushPromise fh p0 =
     (if fh_StreamID fh = 0 then Inl (ConnectionError ErrCodeProtocol)
      else and_then (pad_length (fh_Flags fh) p0) (\<lambda>(p1, pad).
           and_then (readUint32 p1) (\<lambda>(p, promise).
             if pad > length p then Inl (ConnectionError ErrCodeProtocol)
             else Inr (PushPromiseFrame fh (promise AND mask31) (take (length p - pad) p)))))"

definition parseContinuationFrame :: "frame_header \<Rightarrow> string \<Rightarrow> frame_error + frame" where
  "parseContinuationFrame fh p =
     (if fh_StreamID fh = 0 then Inl (ReasonedError ErrCodeProtocol ''CONTINUATION frame with stream ID 0'')
      else Inr (ContinuationFrame fh p))"

definition typeFrameParser :: "frame_type \<Rightarrow> frame_header \<Rightarrow> string \<Rightarrow> frame_error + frame" where
  "typeFrameParser t =
     (if t = FrameData then parseDataFrame
      else if t = FrameHeaders then parseHeadersFrame
      else if t = FramePriority then parsePriorityFrame
      else if t = FrameRSTStream then parseRSTStreamFrame
      else if t = FrameSettings then parseSettingsFrame
      else if t = FramePushPromise then parsePushPromise
      else if t = FramePing then parsePingFrame
      else if t = FrameGoAway then parseGoAwayFrame
      else if t = FrameWindowUpdate then parseWindowUpdateFrame
      else if t = FrameContinuation then parseContinuationFrame
      else parseUnknownFrame)"

section \<open>Reading frames\<close>

text \<open>io.ReadFull on the pieces of the connection; a Read returns bytes of one piece.\<close>

fun conn_ReadFull :: "nat \<Rightarrow> string \<Rightarrow> string list \<Rightarrow> string \<times> io_error option \<times> string list" where
  "conn_ReadFull k got [] =
     (if k = 0 then (got, None, []) else (got, Some (if got = [] then EOF else UnexpectedEOF), []))"
| "conn_ReadFull k got (x # xs) =
     (if k = 0 then (got, None, x # xs)
      else if length x < k then conn_ReadFull (k - length x) (got @ x) xs
      else (got @ take k x, None, drop k x # xs))"

definition frameHeaderLen :: nat where "frameHeaderLen = 9"
definition maxFrameSize :: "32 word" where "maxFrameSize = 0xFFFFFF"
definition minMaxFrameSize :: "32 word" where "minMaxFrameSize = 0x4000"

text \<open>
  The header of nine bytes.  An error of the read is not returned, and the second byte of the length is shifted
  out of its byte, as the source has both.
\<close>

definition decode_header :: "string \<Rightarrow> frame_header" where
  "decode_header buf =
     \<lparr>fh_Type = word_of (buf ! 3), fh_Flags = word_of (buf ! 4),
      fh_Length = push_bit 16 (word_of (buf ! 0)) OR ucast (push_bit 8 (word_of (buf ! 1) :: 8 word)) OR word_of (buf ! 2),
      fh_StreamID = get32 (drop 5 buf) AND mask31\<rparr>"

definition readFrameHeader :: "string list \<Rightarrow> frame_header \<times> string list" where
  "readFrameHeader src =
     (case conn_ReadFull frameHeaderLen [] src of
        (_, Some _, src') \<Rightarrow> (zero_header, src')
      | (buf, None, src') \<Rightarrow> (decode_header buf, src'))"

record 'd framer =
  fr_src :: "string list"
  fr_lastFrame :: "frame option"
  fr_errDetail :: "(string + field_error) option"
  fr_lastHeaderStream :: "32 word"
  fr_maxReadSize :: "32 word"
  fr_AllowIllegalReads :: bool
  fr_ReadMetaHeaders :: "'d option"
  fr_MaxHeaderListSize :: "32 word"

definition maxHeaderListSize :: "'d framer \<Rightarrow> 32 word" where
  "maxHeaderListSize fr = (if fr_MaxHeaderListSize fr = 0 then 0x1000000 else fr_MaxHeaderListSize fr)"

definition SetMaxReadFrameSize :: "32 word \<Rightarrow> 'd framer \<Rightarrow> 'd framer" where
  "SetMaxReadFrameSize v fr = fr\<lparr>fr_maxReadSize := if v \<ge> maxFrameSize then maxFrameSize else v\<rparr>"

definition NewFramer :: "string list \<Rightarrow> 'd framer" where
  "NewFramer src =
     SetMaxReadFrameSize maxFrameSize
       \<lparr>fr_src = src, fr_lastFrame = None, fr_errDetail = None, fr_lastHeaderStream = 0, fr_maxReadSize = 0,
        fr_AllowIllegalReads = False, fr_ReadMetaHeaders = None, fr_MaxHeaderListSize = 0\<rparr>"

definition framer_connError :: "err_code \<Rightarrow> string \<Rightarrow> 'd framer \<Rightarrow> 'd framer \<times> frame_error" where
  "framer_connError code reason fr = (fr\<lparr>fr_errDetail := Some (Inl reason)\<rparr>, ConnectionError code)"

text \<open>The texts of the reasons are shortened: they leave out the numbers of the streams.\<close>

definition checkFrameOrder :: "frame \<Rightarrow> 'd framer \<Rightarrow> 'd framer \<times> frame_error option" where
  "checkFrameOrder f fr0 =
     (let fr = fr0\<lparr>fr_lastFrame := Some f\<rparr>; fh = frame_Header f
      in if fr_AllowIllegalReads fr then (fr, None)
         else if fr_lastHeaderStream fr \<noteq> 0 \<and> fh_Type fh \<noteq> FrameContinuation then
           map_prod id Some (framer_connError ErrCodeProtocol ''expected CONTINUATION'' fr)
         else if fr_lastHeaderStream fr \<noteq> 0 \<and> fh_StreamID fh \<noteq> fr_lastHeaderStream fr then
           map_prod id Some (framer_connError ErrCodeProtocol ''CONTINUATION for another stream'' fr)
         else if fr_lastHeaderStream fr = 0 \<and> fh_Type fh = FrameContinuation then
           map_prod id Some (framer_connError ErrCodeProtocol ''unexpected CONTINUATION'' fr)
         else if fh_Type fh = FrameHeaders \<or> fh_Type fh = FrameContinuation then
           (if Flags_Has (fh_Flags fh) FlagEndHeaders then (fr\<lparr>fr_lastHeaderStream := 0\<rparr>, None)
            else (fr\<lparr>fr_lastHeaderStream := fh_StreamID fh\<rparr>, None))
         else (fr, None))"

text \<open>ReadFrame up to the check of the order.\<close>

definition read_one :: "'d framer \<Rightarrow> 'd framer \<times> (frame_error + frame)" where
  "read_one fr0 =
     (case readFrameHeader (fr_src fr0) of
        (fh, src1) \<Rightarrow>
          (let fr = fr0\<lparr>fr_src := src1, fr_errDetail := None\<rparr>
           in if fh_Length fh > fr_maxReadSize fr then (fr, Inl FrameTooLarge)
              else (case conn_ReadFull (unat (fh_Length fh)) [] src1 of
                (_, Some e, src2) \<Rightarrow> (fr\<lparr>fr_src := src2\<rparr>, Inl (FrameIo e))
              | (payload, None, src2) \<Rightarrow>
                  (let fr = fr\<lparr>fr_src := src2\<rparr>
                   in case typeFrameParser (fh_Type fh) fh payload of
                        Inl (ReasonedError code reason) \<Rightarrow> map_prod id Inl (framer_connError code reason fr)
                      | Inl e \<Rightarrow> (fr, Inl e)
                      | Inr f \<Rightarrow>
                          (case checkFrameOrder f fr of
                             (fr', Some e) \<Rightarrow> (fr', Inl e)
                           | (fr', None) \<Rightarrow> (fr', Inr f))))))"

section \<open>Writing frames\<close>

text \<open>The length is filled in when the frame is complete.\<close>

definition startWrite :: "frame_type \<Rightarrow> flags \<Rightarrow> 32 word \<Rightarrow> string" where
  "startWrite ftype fl streamID = [byte_of (0 :: 8 word), byte_of (0 :: 8 word), byte_of (0 :: 8 word), byte_of ftype, byte_of fl] @ put32 streamID"

definition endWrite :: "'w wire \<Rightarrow> string \<Rightarrow> 'w \<Rightarrow> 'w \<times> frame_error option" where
  "endWrite wr wbuf w =
     (let n = length wbuf - frameHeaderLen
      in if n \<ge> 2 ^ 24 then (w, Some FrameTooLarge)
         else (let buf = [char_of (n div 2 ^ 16), char_of (n div 2 ^ 8), char_of n] @ drop 3 wbuf
               in case wr buf w of
                    (w', k, Some e) \<Rightarrow> (w', Some (FrameIo e))
                  | (w', k, None) \<Rightarrow> (w', if k \<noteq> length buf then Some (FrameIo ShortWrite) else None)))"

definition settings_payload :: "setting list \<Rightarrow> string" where
  "settings_payload ss = concat (map (\<lambda>s. put16 (set_ID s) @ put32 (set_Val s)) ss)"

definition WriteSettings :: "'w wire \<Rightarrow> setting list \<Rightarrow> 'w \<Rightarrow> 'w \<times> frame_error option" where
  "WriteSettings wr ss w = endWrite wr (startWrite FrameSettings 0 0 @ settings_payload ss) w"

definition WriteGoAway :: "'w wire \<Rightarrow> 32 word \<Rightarrow> err_code \<Rightarrow> string \<Rightarrow> 'w \<Rightarrow> 'w \<times> frame_error option" where
  "WriteGoAway wr maxStreamID code debugData w =
     endWrite wr (startWrite FrameGoAway 0 0 @ put32 (maxStreamID AND mask31) @ put32 code @ debugData) w"

definition WriteWindowUpdate ::
  "bool \<Rightarrow> 'w wire \<Rightarrow> 32 word \<Rightarrow> 32 word \<Rightarrow> 'w \<Rightarrow> 'w \<times> frame_error option" where
  "WriteWindowUpdate allowIllegalWrites wr streamID incr w =
     (if (incr < 1 \<or> incr > mask31) \<and> \<not> allowIllegalWrites then (w, Some IllegalIncrement)
      else endWrite wr (startWrite FrameWindowUpdate 0 streamID @ put32 incr) w)"

end
