(* ===== verification/H2_Meta.thy ===== *)
theory H2_Meta
  imports H2_Frame Go_Utf8
begin

text \<open>
  ReadFrame with ReadMetaHeaders (src/http/h2_bundle.go): a HEADERS frame and its CONTINUATION frames are
  merged, and the HPACK decoder of golang.org/x/net, an argument, turns the fragments into fields.  The
  functions http2HeadersFrame.HeadersEnded and checkPseudos, and the emit function of readMetaFrame.
\<close>

section \<open>The decoder\<close>

text \<open>
  Write decodes a fragment into the fields it completes and tells whether the fragment was accepted; whether the
  emit function is called for a field is the matter of the emit function, which may disable itself.
\<close>

record 'd hpack =
  hp_Write :: "string \<Rightarrow> 'd \<Rightarrow> 'd \<times> hpack_field list \<times> bool"
  hp_Close :: "'d \<Rightarrow> 'd \<times> bool"
  hp_SetMaxStringLength :: "32 word \<Rightarrow> 'd \<Rightarrow> 'd"
  hp_Size :: "hpack_field \<Rightarrow> 32 word"
  hp_IsPseudo :: "hpack_field \<Rightarrow> bool"

section \<open>Fields\<close>

definition validWireHeaderFieldName :: "(nat \<Rightarrow> bool) \<Rightarrow> string \<Rightarrow> bool" where
  "validWireHeaderFieldName T v =
     (if v = [] then False
      else list_all (\<lambda>r. T r \<and> \<not> (65 \<le> r \<and> r \<le> 90)) (runes v))"

record meta_state =
  ms_remain :: "32 word"
  ms_sawRegular :: bool
  ms_invalid :: "field_error option"
  ms_enabled :: bool
  ms_Truncated :: bool
  ms_Fields :: "hpack_field list"

definition meta_start :: "32 word \<Rightarrow> meta_state" where
  "meta_start limit =
     \<lparr>ms_remain = limit, ms_sawRegular = False, ms_invalid = None, ms_enabled = True, ms_Truncated = False, ms_Fields = []\<rparr>"

text \<open>The checks of the emit function on one field: what becomes of \<open>sawRegular\<close> and \<open>invalid\<close>.\<close>

definition check_field ::
  "(nat \<Rightarrow> bool) \<Rightarrow> (string \<Rightarrow> bool) \<Rightarrow> hpack_field \<Rightarrow> bool \<Rightarrow> field_error option \<Rightarrow> bool \<times> field_error option" where
  "check_field T V f sawRegular invalid =
     (let invalid1 = (if \<not> V (hf_Value f) then Some (HeaderFieldValueError (hf_Name f)) else invalid)
      in if has_prefix (hf_Name f) '':'' then
           (sawRegular, if sawRegular then Some PseudoAfterRegular else invalid1)
         else
           (True, if \<not> validWireHeaderFieldName T (hf_Name f) then Some (HeaderFieldNameError (hf_Name f)) else invalid1))"

definition emit ::
  "'d hpack \<Rightarrow> (nat \<Rightarrow> bool) \<Rightarrow> (string \<Rightarrow> bool) \<Rightarrow> hpack_field \<Rightarrow> meta_state \<Rightarrow> meta_state" where
  "emit hp T V f ms =
     (if \<not> ms_enabled ms then ms
      else (case check_field T V f (ms_sawRegular ms) (ms_invalid ms) of
              (saw, invalid) \<Rightarrow>
                (let ms1 = ms\<lparr>ms_sawRegular := saw, ms_invalid := invalid\<rparr>
                 in if invalid \<noteq> None then ms1\<lparr>ms_enabled := False\<rparr>
                    else if hp_Size hp f > ms_remain ms then ms1\<lparr>ms_enabled := False, ms_Truncated := True\<rparr>
                    else ms1\<lparr>ms_remain := ms_remain ms - hp_Size hp f, ms_Fields := ms_Fields ms @ [f]\<rparr>)))"

definition PseudoFields :: "'d hpack \<Rightarrow> hpack_field list \<Rightarrow> hpack_field list" where
  "PseudoFields hp fs = takeWhile (hp_IsPseudo hp) fs"

definition request_pseudos :: "string list" where
  "request_pseudos = ['':method'', '':path'', '':scheme'', '':authority'']"

text \<open>The loop of checkPseudos; \<open>seen\<close> holds the fields before the current one.\<close>

fun checkPseudos_loop :: "hpack_field list \<Rightarrow> hpack_field list \<Rightarrow> bool \<Rightarrow> bool \<Rightarrow> field_error option" where
  "checkPseudos_loop seen [] isRequest isResponse =
     (if isRequest \<and> isResponse then Some MixPseudoHeaderTypes else None)"
| "checkPseudos_loop seen (f # fs) isRequest isResponse =
     (if hf_Name f \<notin> set request_pseudos \<and> hf_Name f \<noteq> '':status'' then Some (PseudoHeaderError (hf_Name f))
      else if list_ex (\<lambda>g. hf_Name f = hf_Name g) seen then Some (DuplicatePseudoHeaderError (hf_Name f))
      else checkPseudos_loop (seen @ [f]) fs (isRequest \<or> hf_Name f \<in> set request_pseudos)
             (isResponse \<or> hf_Name f = '':status''))"

definition checkPseudos :: "'d hpack \<Rightarrow> hpack_field list \<Rightarrow> field_error option" where
  "checkPseudos hp fs = checkPseudos_loop [] (PseudoFields hp fs) False False"

section \<open>readMetaFrame and ReadFrame\<close>

text \<open>A HEADERS frame looks at the flag END_STREAM here, as the source has it; CONTINUATION at END_HEADERS.\<close>

definition Headers_HeadersEnded :: "frame_header \<Rightarrow> bool" where
  "Headers_HeadersEnded fh = Flags_Has (fh_Flags fh) FlagEndStream"

definition Continuation_HeadersEnded :: "frame_header \<Rightarrow> bool" where
  "Continuation_HeadersEnded fh = Flags_Has (fh_Flags fh) FlagEndHeaders"

text \<open>The part after the loop; \<open>d\<close> is the state of the decoder.\<close>

definition finish_meta ::
  "'d hpack \<Rightarrow> frame_header \<Rightarrow> priority_param \<Rightarrow> meta_state \<Rightarrow> 'd \<Rightarrow> 'd framer \<Rightarrow>
   'd framer \<times> (frame_error + frame)" where
  "finish_meta hp fh prio ms d fr0 =
     (case hp_Close hp d of
        (d', ok) \<Rightarrow>
          (let fr = fr0\<lparr>fr_ReadMetaHeaders := Some d'\<rparr>
           in if \<not> ok then (fr, Inl (ConnectionError ErrCodeCompression))
              else (case ms_invalid ms of
                Some e \<Rightarrow> (fr\<lparr>fr_errDetail := Some (Inr e)\<rparr>, Inl (StreamError (fh_StreamID fh) ErrCodeProtocol (Some e)))
              | None \<Rightarrow>
                  (case checkPseudos hp (ms_Fields ms) of
                     Some e \<Rightarrow> (fr\<lparr>fr_errDetail := Some (Inr e)\<rparr>, Inl (StreamError (fh_StreamID fh) ErrCodeProtocol (Some e)))
                   | None \<Rightarrow> (fr, Inr (MetaHeadersFrame fh prio (ms_Fields ms) (ms_Truncated ms)))))))"

definition src_size :: "string list \<Rightarrow> nat" where
  "src_size src = length (concat src)"

lemma conn_ReadFull_size:
  "conn_ReadFull k got src = (b, e, src') \<Longrightarrow> src_size src' \<le> src_size src"
  by (induction k got src rule: conn_ReadFull.induct) (fastforce simp: src_size_def split: if_splits)+

lemma conn_ReadFull_size_ok:
  "conn_ReadFull k got src = (b, None, src') \<Longrightarrow> src_size src' + k = src_size src"
  by (induction k got src rule: conn_ReadFull.induct) (auto simp: src_size_def split: if_splits)

lemma read_one_size:
  assumes "read_one fr = (fr', Inr f)"
  shows "src_size (fr_src fr') < src_size (fr_src fr)"
proof -
  obtain fh src1 where hd: "readFrameHeader (fr_src fr) = (fh, src1)" by (cases "readFrameHeader (fr_src fr)")
  obtain p e src2 where rd: "conn_ReadFull (unat (fh_Length fh)) [] src1 = (p, e, src2)"
    by (metis prod.exhaust)
  obtain b he where hdr: "conn_ReadFull frameHeaderLen [] (fr_src fr) = (b, he, src1)"
    using hd by (auto simp: readFrameHeader_def split: prod.splits option.splits)
  have src: "fr_src fr' = src2"
    using assms hd rd
    by (auto simp: read_one_def Let_def checkFrameOrder_def framer_connError_def
        split: if_splits prod.splits option.splits sum.splits frame_error.splits)
  have "he = None"
  proof (rule ccontr)
    assume "he \<noteq> None"
    then have "fh = zero_header" using hd hdr by (auto simp: readFrameHeader_def)
    then have "typeFrameParser (fh_Type fh) fh p = Inl (ReasonedError ErrCodeProtocol ''DATA frame with stream ID 0'')"
      by (simp add: zero_header_def typeFrameParser_def frame_types parseDataFrame_def)
    then show False
      using assms hd rd by (auto simp: read_one_def Let_def framer_connError_def split: if_splits option.splits)
  qed
  then have "src_size src1 + 9 = src_size (fr_src fr)"
    using conn_ReadFull_size_ok hdr by (auto simp: frameHeaderLen_def)
  then show ?thesis using conn_ReadFull_size[OF rd] src by simp
qed

text \<open>
  The loop: \<open>fh\<close> and \<open>prio\<close> belong to the HEADERS frame, \<open>frag\<close> and \<open>ended\<close> to the current one.  ReadFrame
  returns a merged frame when it meets a HEADERS frame; the assertion that it is a CONTINUATION frame
  then panics, as for every other type.
\<close>

function meta_loop ::
  "'d hpack \<Rightarrow> (nat \<Rightarrow> bool) \<Rightarrow> (string \<Rightarrow> bool) \<Rightarrow> frame_header \<Rightarrow> priority_param \<Rightarrow> meta_state \<Rightarrow>
   string \<Rightarrow> bool \<Rightarrow> 'd \<Rightarrow> 'd framer \<Rightarrow> ('d framer \<times> (frame_error + frame)) go" where
  "meta_loop hp T V fh prio ms frag ended d fr =
     (case hp_Write hp frag d of
        (d', fs, ok) \<Rightarrow>
          if \<not> ok then Ret (fr\<lparr>fr_ReadMetaHeaders := Some d'\<rparr>, Inl (ConnectionError ErrCodeCompression))
          else (let ms' = fold (emit hp T V) fs ms
                in if ended then Ret (finish_meta hp fh prio ms' d' fr)
                   else (case read_one (fr\<lparr>fr_ReadMetaHeaders := Some d'\<rparr>) of
                     (fr', Inl e) \<Rightarrow> Ret (fr', Inl e)
                   | (fr', Inr (ContinuationFrame fh' frag')) \<Rightarrow>
                       meta_loop hp T V fh prio ms' frag' (Continuation_HeadersEnded fh') d' fr'
                   | (fr', Inr (HeadersFrame fh' prio' frag')) \<Rightarrow>
                       go_bind
                         (meta_loop hp T V fh' prio' (meta_start (maxHeaderListSize fr')) frag'
                            (Headers_HeadersEnded fh') (hp_SetMaxStringLength hp (maxHeaderListSize fr') d') fr')
                         (\<lambda>(fr2, r). case r of
                            Inl e \<Rightarrow> Ret (fr2, Inl e)
                          | Inr _ \<Rightarrow> Panic ''interface conversion'')
                   | (fr', Inr _) \<Rightarrow> Panic ''interface conversion'')))"
  by pat_completeness auto
termination
  by (relation "measure (\<lambda>(hp, T, V, fh, prio, ms, frag, ended, d, fr). src_size (fr_src fr))")
    (auto dest!: read_one_size[OF sym])

declare meta_loop.simps [simp del]

definition readMetaFrame ::
  "'d hpack \<Rightarrow> (nat \<Rightarrow> bool) \<Rightarrow> (string \<Rightarrow> bool) \<Rightarrow> frame_header \<Rightarrow> priority_param \<Rightarrow> string \<Rightarrow> 'd \<Rightarrow>
   'd framer \<Rightarrow> ('d framer \<times> (frame_error + frame)) go" where
  "readMetaFrame hp T V fh prio frag d fr =
     (if fr_AllowIllegalReads fr then Ret (fr, Inl IllegalReads)
      else meta_loop hp T V fh prio (meta_start (maxHeaderListSize fr)) frag (Headers_HeadersEnded fh)
             (hp_SetMaxStringLength hp (maxHeaderListSize fr) d) fr)"

definition ReadFrame ::
  "'d hpack \<Rightarrow> (nat \<Rightarrow> bool) \<Rightarrow> (string \<Rightarrow> bool) \<Rightarrow> 'd framer \<Rightarrow> ('d framer \<times> (frame_error + frame)) go" where
  "ReadFrame hp T V fr =
     (case read_one fr of
        (fr', Inr (HeadersFrame fh prio frag)) \<Rightarrow>
          (case fr_ReadMetaHeaders fr' of
             Some d \<Rightarrow> readMetaFrame hp T V fh prio frag d fr'
           | None \<Rightarrow> Ret (fr', Inr (HeadersFrame fh prio frag)))
      | r \<Rightarrow> Ret r)"

end
