(* ===== verification/H2_Frame_Correct.thy ===== *)
theory H2_Frame_Correct
  imports H2_Meta Chunked_Correct
begin

text \<open>
  Correctness of the framing layer: the byte order, what is read of the frames that are written, the order of
  the frames that are accepted, and the fields of a merged HEADERS frame.
\<close>

section \<open>Bytes and words\<close>

lemma of_char_byte_of: "of_char (byte_of w) = unat w mod 256"
  by (simp add: byte_of_def of_char_of)

lemma word_of_byte_of: "word_of (byte_of (w :: 'a::len word)) = (ucast (take_bit 8 w) :: 'b::len word)"
proof -
  have "unat (take_bit 8 w) = unat w mod 256" unfolding unsigned_take_bit_eq by (simp add: take_bit_eq_mod)
  then show ?thesis unfolding word_of_def of_char_byte_of by (metis of_nat_unat)
qed

lemma get32_put32: "get32 (put32 v @ r) = v"
proof -
  have "get32 (put32 v @ r) = take_bit 8 v OR push_bit 8 (take_bit 8 (drop_bit 8 v)) OR
      push_bit 16 (take_bit 8 (drop_bit 16 v)) OR push_bit 24 (take_bit 8 (drop_bit 24 v))"
    by (simp add: get32_def put32_def word_of_byte_of)
  also have "\<dots> = v"
  proof (rule bit_word_eqI)
    fix n assume "n < LENGTH(32)"
    then consider "n < 8" | "8 \<le> n" "n < 16" | "16 \<le> n" "n < 24" | "24 \<le> n" "n < 32" by force
    then show "bit (take_bit 8 v OR push_bit 8 (take_bit 8 (drop_bit 8 v)) OR push_bit 16 (take_bit 8 (drop_bit 16 v)) OR
      push_bit 24 (take_bit 8 (drop_bit 24 v))) n = bit v n"
      by cases (auto simp: bit_or_iff bit_push_bit_iff bit_take_bit_iff bit_drop_bit_eq)
  qed
  finally show ?thesis .
qed

lemma get16_put16: "get16 (put16 v @ r) = v"
proof -
  have "get16 (put16 v @ r) = take_bit 8 v OR push_bit 8 (take_bit 8 (drop_bit 8 v))"
    by (simp add: get16_def put16_def word_of_byte_of)
  also have "\<dots> = v"
    by (rule bit_word_eqI) (auto simp: bit_or_iff bit_push_bit_iff bit_take_bit_iff bit_drop_bit_eq)
  finally show ?thesis .
qed

lemma length_put [simp]: "length (put32 v) = 4" "length (put16 u) = 2"
  by (simp_all add: put32_def put16_def)

lemma word_of_char_of: "word_of (char_of n) = (word_of_nat (n mod 256) :: 'a::len word)"
  by (simp add: word_of_def of_char_of)

text \<open>The length that is read loses its middle byte.\<close>

lemma length_decoded:
  assumes "n < 2 ^ 24"
  shows "(push_bit 16 (word_of (char_of (n div 2 ^ 16))) OR
      ucast (push_bit 8 (word_of (char_of (n div 2 ^ 8)) :: 8 word)) OR word_of (char_of n) :: 32 word) =
    word_of_nat (n div 65536 * 65536 + n mod 256)"
proof -
  have mid: "push_bit 8 (x :: 8 word) = 0" for x by (rule bit_word_eqI) (auto simp: bit_push_bit_iff)
  have hi: "n div 65536 mod 256 = n div 65536" using assms by simp
  have low: "word_of_nat (n mod 256) = (take_bit 8 (word_of_nat n) :: 32 word)"
    unfolding take_bit_of_nat by (simp add: take_bit_eq_mod)
  have "push_bit 16 (word_of_nat (n div 65536)) + take_bit 8 (word_of_nat n) =
      (push_bit 16 (word_of_nat (n div 65536)) OR take_bit 8 (word_of_nat n) :: 32 word)"
    by (rule disjunctive_add) (auto simp: bit_push_bit_iff bit_take_bit_iff)
  then show ?thesis
    unfolding mid word_of_char_of by (simp add: hi low push_bit_eq_mult)
qed

section \<open>What is read of a written frame\<close>

lemma conn_ReadFull_enough:
  "k \<le> length (concat src) \<Longrightarrow>
   \<exists>src'. conn_ReadFull k got src = (got @ take k (concat src), None, src') \<and> concat src' = drop k (concat src)"
proof (induction k got src rule: conn_ReadFull.induct)
  case (2 k got x xs)
  show ?case
  proof (cases "k \<noteq> 0 \<and> length x < k")
    case True
    then have "k - length x \<le> length (concat xs)" using 2(2) by simp
    from 2(1)[OF _ _ this] True show ?thesis by simp
  next
    case False
    then show ?thesis by (auto simp: not_less)
  qed
qed simp

definition frame_bytes :: "frame_type \<Rightarrow> flags \<Rightarrow> 32 word \<Rightarrow> string \<Rightarrow> string" where
  "frame_bytes t fl sid p =
     (let n = length p
      in [char_of (n div 2 ^ 16), char_of (n div 2 ^ 8), char_of n, byte_of t, byte_of fl] @ put32 sid @ p)"

lemma endWrite_bytes:
  assumes "length p < 2 ^ 24"
  shows "endWrite buffer_wire (startWrite t fl sid @ p) w = (w @ frame_bytes t fl sid p, None)"
  using assms by (simp add: endWrite_def startWrite_def frameHeaderLen_def Let_def buffer_wire_def frame_bytes_def)

lemma byte_8: "(word_of (byte_of (w :: 8 word)) :: 8 word) = w"
proof -
  have "take_bit 8 w = w" by (simp add: take_bit_word_eq_self)
  then show ?thesis by (simp add: word_of_byte_of del: take_bit_word_eq_self)
qed

text \<open>
  Of every frame that is written, the header is read back with its type, its flags and its stream; but of the
  length the middle byte is lost: a payload of n bytes is taken to have
  n div 65536 * 65536 + n mod 256 bytes.\<close>

theorem frame_header_read:
  assumes "length p < 2 ^ 24" and "concat src = frame_bytes t fl sid p @ r"
  shows "\<exists>src1. readFrameHeader src =
      (\<lparr>fh_Type = t, fh_Flags = fl, fh_Length = word_of_nat (length p div 65536 * 65536 + length p mod 256),
        fh_StreamID = sid AND mask31\<rparr>, src1) \<and> concat src1 = p @ r"
proof -
  let ?n = "length p"
  let ?hd = "[char_of (?n div 2 ^ 16), char_of (?n div 2 ^ 8), char_of ?n, byte_of t, byte_of fl] @ put32 sid"
  have nine: "length ?hd = 9" by simp
  have src: "concat src = ?hd @ p @ r" using assms(2) by (simp add: frame_bytes_def Let_def)
  then obtain src1 where "conn_ReadFull 9 [] src = (?hd, None, src1)" and "concat src1 = p @ r"
    using conn_ReadFull_enough[of 9 src "[]"] by auto
  moreover have "decode_header ?hd = \<lparr>fh_Type = t, fh_Flags = fl,
      fh_Length = word_of_nat (?n div 65536 * 65536 + ?n mod 256), fh_StreamID = sid AND mask31\<rparr>"
    using length_decoded[OF assms(1)] get32_put32[of sid "[]"] by (simp add: decode_header_def byte_8)
  ultimately show ?thesis by (simp add: readFrameHeader_def frameHeaderLen_def)
qed

definition short :: "string \<Rightarrow> bool" where
  "short p \<longleftrightarrow> length p < 2 ^ 24 \<and> length p div 256 mod 256 = 0"

lemma short_length: "short p \<Longrightarrow> length p div 65536 * 65536 + length p mod 256 = length p"
proof -
  assume "short p"
  then have "length p div 256 = 256 * (length p div 256 div 256)"
    using div_mult_mod_eq[of "length p div 256" 256] by (simp add: short_def)
  moreover have "length p div 256 div 256 = length p div 65536" by (simp add: div_mult2_eq[symmetric])
  ultimately show ?thesis using div_mult_mod_eq[of "length p" 256] by simp
qed

lemma read_one_checked:
  assumes "short p" and "concat (fr_src fr) = frame_bytes t fl sid p @ r" and "length p \<le> unat (fr_maxReadSize fr)"
    and h: "h = \<lparr>fh_Type = t, fh_Flags = fl, fh_Length = word_of_nat (length p), fh_StreamID = sid AND mask31\<rparr>"
    and "typeFrameParser t h p = Inr f"
  shows "\<exists>src'. concat src' = r \<and>
    read_one fr = (case checkFrameOrder f (fr\<lparr>fr_errDetail := None, fr_src := src'\<rparr>) of
       (fr', Some e) \<Rightarrow> (fr', Inl e)
     | (fr', None) \<Rightarrow> (fr', Inr f))"
proof -
  have len: "length p < 2 ^ 24" using assms(1) by (simp add: short_def)
  obtain src1 where hd: "readFrameHeader (fr_src fr) = (h, src1)" and src1: "concat src1 = p @ r"
    using frame_header_read[OF len assms(2)] short_length[OF assms(1)] h by auto
  have un: "unat (word_of_nat (length p) :: 32 word) = length p" using len by (simp add: unat_of_nat)
  have fit: "\<not> fr_maxReadSize fr < (word_of_nat (length p) :: 32 word)"
    using assms(3) by (simp add: word_less_nat_alt un)
  obtain src2 where rd: "conn_ReadFull (length p) [] src1 = (p, None, src2)" and src2: "concat src2 = r"
    using conn_ReadFull_enough[of "length p" src1 "[]"] src1 by auto
  have "read_one fr = (case checkFrameOrder f (fr\<lparr>fr_errDetail := None, fr_src := src2\<rparr>) of
       (fr', Some e) \<Rightarrow> (fr', Inl e)
     | (fr', None) \<Rightarrow> (fr', Inr f))"
    using assms(5) fit by (simp add: read_one_def hd h un rd Let_def)
  then show ?thesis using src2 by blast
qed

lemma read_one_written:
  assumes "short p" and "concat (fr_src fr) = frame_bytes t fl sid p @ r" and "length p \<le> unat (fr_maxReadSize fr)"
    and "fr_lastHeaderStream fr = 0" and "t \<noteq> FrameHeaders" and "t \<noteq> FrameContinuation"
    and h: "h = \<lparr>fh_Type = t, fh_Flags = fl, fh_Length = word_of_nat (length p), fh_StreamID = sid AND mask31\<rparr>"
    and "typeFrameParser t h p = Inr f" and "frame_Header f = h"
  shows "\<exists>src'. concat src' = r \<and>
    read_one fr = (fr\<lparr>fr_errDetail := None, fr_src := src', fr_lastFrame := Some f\<rparr>, Inr f)"
proof -
  have "checkFrameOrder f (fr\<lparr>fr_errDetail := None, fr_src := src'\<rparr>) =
      (fr\<lparr>fr_errDetail := None, fr_src := src', fr_lastFrame := Some f\<rparr>, None)" for src'
    using assms(4-6,9) h by (simp add: checkFrameOrder_def Let_def)
  then show ?thesis using read_one_checked[OF assms(1-3) h assms(8)] by simp
qed

lemma read_headers_written:
  assumes "short p" and "concat (fr_src fr) = frame_bytes FrameHeaders fl sid p @ r"
    and "length p \<le> unat (fr_maxReadSize fr)" and "fr_lastHeaderStream fr = 0" and "sid AND mask31 \<noteq> 0"
    and "\<not> Flags_Has fl FlagPadded" and "\<not> Flags_Has fl FlagPriority"
    and h: "h = \<lparr>fh_Type = FrameHeaders, fh_Flags = fl, fh_Length = word_of_nat (length p), fh_StreamID = sid AND mask31\<rparr>"
  shows "\<exists>src'. concat src' = r \<and>
    read_one fr = (fr\<lparr>fr_errDetail := None, fr_src := src', fr_lastFrame := Some (HeadersFrame h no_priority p),
       fr_lastHeaderStream := if Flags_Has fl FlagEndHeaders \<or> fr_AllowIllegalReads fr then 0 else sid AND mask31\<rparr>,
      Inr (HeadersFrame h no_priority p))"
proof -
  have parse: "typeFrameParser FrameHeaders h p = Inr (HeadersFrame h no_priority p)"
    using assms(5-7) h by (simp add: typeFrameParser_def frame_types parseHeadersFrame_def pad_length_def read_priority_def)
  have "checkFrameOrder (HeadersFrame h no_priority p) (fr\<lparr>fr_errDetail := None, fr_src := src'\<rparr>) =
      (fr\<lparr>fr_errDetail := None, fr_src := src', fr_lastFrame := Some (HeadersFrame h no_priority p),
        fr_lastHeaderStream := if Flags_Has fl FlagEndHeaders \<or> fr_AllowIllegalReads fr then 0 else sid AND mask31\<rparr>, None)" for src'
    using assms(4) h by (simp add: checkFrameOrder_def Let_def frame_types)
  then show ?thesis using read_one_checked[OF assms(1-3) h parse] by simp
qed

section \<open>Settings, GOAWAY and WINDOW_UPDATE\<close>

lemma and_mask31: "w AND mask31 = w" if "w \<le> mask31"
proof -
  have "unat w < 2 ^ 31" using that by (simp add: mask31_def word_le_nat_alt)
  then have "unat (take_bit 31 w) = unat w" unfolding unsigned_take_bit_eq by (rule take_bit_nat_eq_self)
  then have "take_bit 31 w = w" by (metis of_nat_unat ucast_id)
  moreover have "w AND mask31 = take_bit 31 w" by (simp add: mask31_def take_bit_eq_mask mask_eq_exp_minus_1)
  ultimately show ?thesis by simp
qed

lemma length_settings_payload: "length (settings_payload ss) = 6 * length ss"
  by (induction ss) (simp_all add: settings_payload_def)

lemma all_settings_payload: "all_settings (settings_payload ss) = ss"
proof (rule nth_equalityI)
  show len: "length (all_settings (settings_payload ss)) = length ss"
    by (simp add: all_settings_def NumSettings_def length_settings_payload)
  fix i assume "i < length (all_settings (settings_payload ss))"
  then have i: "i < length ss" using len by simp
  have "drop (i * 6) (settings_payload ss) = settings_payload (drop i ss)"
    using i
  proof (induction ss arbitrary: i)
    case (Cons s ss)
    then show ?case
      by (cases i) (simp_all add: settings_payload_def)
  qed simp
  then have d: "drop (i * 6) (settings_payload ss) =
      put16 (set_ID (ss ! i)) @ put32 (set_Val (ss ! i)) @ settings_payload (drop (Suc i) ss)"
    using i by (simp add: Cons_nth_drop_Suc[symmetric] settings_payload_def)
  then have "drop (i * 6 + 2) (settings_payload ss) = put32 (set_Val (ss ! i)) @ settings_payload (drop (Suc i) ss)"
    by (metis (no_types, lifting) append_eq_conv_conj drop_drop add.commute length_put(2))
  then have "Setting (settings_payload ss) i = ss ! i"
    using d by (simp add: Setting_def get16_put16 get32_put32)
  then show "all_settings (settings_payload ss) ! i = ss ! i"
    using i by (simp add: all_settings_def NumSettings_def length_settings_payload)
qed

definition settings_ok :: "setting list \<Rightarrow> bool" where
  "settings_ok ss \<longleftrightarrow> length ss \<le> 42 \<and>
     list_all (\<lambda>s. set_ID s = SettingInitialWindowSize \<longrightarrow> set_Val s \<le> mask31) ss"

text \<open>
  C38: At most 42 settings, with a legal window size, that WriteSettings writes are read back by ReadFrame as a
  SETTINGS frame with the same settings in the same order, and what follows stays on the connection.\<close>

theorem settings_roundtrip:
  fixes fr :: "'d framer"
  assumes "settings_ok ss" and "concat (fr_src fr) = fst (WriteSettings buffer_wire ss []) @ r"
    and "252 \<le> fr_maxReadSize fr" and "fr_lastHeaderStream fr = 0"
  shows "\<exists>fr' fh p. ReadFrame hp T V fr = Ret (fr', Inr (SettingsFrame fh p)) \<and>
    all_settings p = ss \<and> concat (fr_src fr') = r \<and> fr_lastHeaderStream fr' = 0"
proof -
  let ?p = "settings_payload ss"
  let ?h = "\<lparr>fh_Type = FrameSettings, fh_Flags = 0, fh_Length = word_of_nat (length ?p), fh_StreamID = 0\<rparr>"
  have le: "length ?p \<le> 252" using assms(1) by (simp add: settings_ok_def length_settings_payload)
  have short: "short ?p" using le by (simp add: short_def)
  have src: "concat (fr_src fr) = frame_bytes FrameSettings 0 0 ?p @ r"
    using assms(2) endWrite_bytes[of ?p FrameSettings 0 0 "[]"] short by (simp add: WriteSettings_def short_def)
  have fit: "length ?p \<le> unat (fr_maxReadSize fr)"
    using le assms(3) by (simp add: word_le_nat_alt)
  have "\<not> mask31 < v" if "settings_Value ?p SettingInitialWindowSize = Some v" for v
    using that assms(1) unfolding settings_Value_def all_settings_payload settings_ok_def
    by (auto simp: list_all_iff find_Some_iff not_less)
  then have parse: "typeFrameParser FrameSettings ?h ?p = Inr (SettingsFrame ?h ?p)"
    by (auto simp: typeFrameParser_def frame_types parseSettingsFrame_def Flags_Has_def FlagAck_def
        length_settings_payload split: option.split)
  from read_one_written[OF short src fit assms(4) _ _ _ parse] obtain src' where
    "concat src' = r" and "read_one fr = (fr\<lparr>fr_errDetail := None, fr_src := src', fr_lastFrame := Some (SettingsFrame ?h ?p)\<rparr>,
       Inr (SettingsFrame ?h ?p))"
    by (auto simp: frame_types)
  then show ?thesis by (auto simp: ReadFrame_def all_settings_payload assms(4))
qed

text \<open>A decoder for the examples: a fragment of the form \<open>n=v\<close> is one field.\<close>

definition demo_hpack :: "unit hpack" where
  "demo_hpack =
     \<lparr>hp_Write = (\<lambda>frag d. case cut_byte (CHR ''='') frag of (n, v, ok) \<Rightarrow> (d, [\<lparr>hf_Name = n, hf_Value = v\<rparr>], ok)),
      hp_Close = (\<lambda>d. (d, True)), hp_SetMaxStringLength = (\<lambda>n d. d),
      hp_Size = (\<lambda>f. word_of_nat (length (hf_Name f) + length (hf_Value f) + 32)),
      hp_IsPseudo = (\<lambda>f. has_prefix (hf_Name f) '':'')\<rparr>"

theorem settings_roundtrip_witness:
  "\<exists>fr' fh p. ReadFrame demo_hpack (\<lambda>_. True) (\<lambda>_. True)
      ((NewFramer [fst (WriteSettings buffer_wire [\<lparr>set_ID = 5, set_Val = 16384\<rparr>] [])]) :: unit framer) =
      Ret (fr', Inr (SettingsFrame fh p)) \<and> all_settings p = [\<lparr>set_ID = 5, set_Val = 16384\<rparr>]"
proof -
  let ?fr = "(NewFramer [fst (WriteSettings buffer_wire [\<lparr>set_ID = 5, set_Val = 16384\<rparr>] [])]) :: unit framer"
  have ok: "settings_ok [\<lparr>set_ID = 5, set_Val = 16384\<rparr>]" by (simp add: settings_ok_def SettingInitialWindowSize_def)
  have fr: "concat (fr_src ?fr) = fst (WriteSettings buffer_wire [\<lparr>set_ID = 5, set_Val = 16384\<rparr>] []) @ []"
    "252 \<le> fr_maxReadSize ?fr" "fr_lastHeaderStream ?fr = 0"
    by (simp_all add: NewFramer_def SetMaxReadFrameSize_def maxFrameSize_def)
  from settings_roundtrip[OF ok fr, of demo_hpack "\<lambda>_. True" "\<lambda>_. True"] show ?thesis by blast
qed

text \<open>A 43rd setting makes a payload of 258 bytes, which is read as 2 bytes, and the connection fails.\<close>

lemma settings_43_fail:
  assumes "length ss = 43" and "concat (fr_src fr) = fst (WriteSettings buffer_wire ss []) @ r"
    and "2 \<le> fr_maxReadSize fr"
  shows "snd (read_one fr) = Inl (ConnectionError ErrCodeFrameSize)"
proof -
  let ?p = "settings_payload ss"
  have len: "length ?p = 258" using assms(1) by (simp add: length_settings_payload)
  have src: "concat (fr_src fr) = frame_bytes FrameSettings 0 0 ?p @ r"
    using assms(2) endWrite_bytes[of ?p FrameSettings 0 0 "[]"] len by (simp add: WriteSettings_def)
  let ?h = "\<lparr>fh_Type = FrameSettings, fh_Flags = 0, fh_Length = 2, fh_StreamID = 0 :: 32 word\<rparr>"
  obtain src1 where hd: "readFrameHeader (fr_src fr) = (?h, src1)" and src1: "concat src1 = ?p @ r"
    using frame_header_read[OF _ src] len by auto
  have "length (concat src1) \<ge> 2" using src1 len by simp
  then obtain src2 where rd: "conn_ReadFull 2 [] src1 = (take 2 (concat src1), None, src2)"
    using conn_ReadFull_enough[of 2 src1 "[]"] by auto
  have two: "length (take 2 (concat src1)) = 2" using \<open>length (concat src1) \<ge> 2\<close> by simp
  have fit: "\<not> fr_maxReadSize fr < 2" using assms(3) by (simp add: not_less)
  have "parseSettingsFrame ?h (take 2 (concat src1)) = Inl (ConnectionError ErrCodeFrameSize)"
    unfolding parseSettingsFrame_def two by (simp add: Flags_Has_def FlagAck_def)
  then show ?thesis
    using fit by (simp add: read_one_def hd rd typeFrameParser_def frame_types)
qed

lemma window_update_roundtrip:
  assumes "concat (fr_src fr) = fst (WriteWindowUpdate False buffer_wire sid incr []) @ r"
    and "1 \<le> incr" and "incr \<le> mask31" and "sid \<le> mask31"
    and "4 \<le> fr_maxReadSize fr" and "fr_lastHeaderStream fr = 0"
  shows "\<exists>fr' fh. read_one fr = (fr', Inr (WindowUpdateFrame fh incr)) \<and> fh_StreamID fh = sid \<and> concat (fr_src fr') = r"
proof -
  let ?h = "\<lparr>fh_Type = FrameWindowUpdate, fh_Flags = 0, fh_Length = word_of_nat (length (put32 incr)), fh_StreamID = sid AND mask31\<rparr>"
  have src: "concat (fr_src fr) = frame_bytes FrameWindowUpdate 0 sid (put32 incr) @ r"
    using assms(1,2,3) endWrite_bytes[of "put32 incr" FrameWindowUpdate 0 sid "[]"]
    by (simp add: WriteWindowUpdate_def not_less[symmetric])
  have fit: "length (put32 incr) \<le> unat (fr_maxReadSize fr)" using assms(5) by (simp add: word_le_nat_alt)
  have "get32 (put32 incr) = incr" using get32_put32[of incr "[]"] by simp
  then have parse: "typeFrameParser FrameWindowUpdate ?h (put32 incr) = Inr (WindowUpdateFrame ?h incr)"
    using assms(2) by (auto simp: typeFrameParser_def frame_types parseWindowUpdateFrame_def and_mask31[OF assms(3)] Let_def)
  have short: "short (put32 incr)" by (simp add: short_def)
  from read_one_written[OF short src fit assms(6) _ _ _ parse] show ?thesis
    by (auto simp: frame_types and_mask31[OF assms(4)])
qed

lemma goaway_roundtrip:
  assumes "concat (fr_src fr) = fst (WriteGoAway buffer_wire sid code dbg []) @ r"
    and "length dbg < 248" and "256 \<le> fr_maxReadSize fr" and "fr_lastHeaderStream fr = 0"
  shows "\<exists>fr' fh. read_one fr = (fr', Inr (GoAwayFrame fh (sid AND mask31) code dbg)) \<and> concat (fr_src fr') = r"
proof -
  let ?p = "put32 (sid AND mask31) @ put32 code @ dbg"
  let ?h = "\<lparr>fh_Type = FrameGoAway, fh_Flags = 0, fh_Length = word_of_nat (length ?p), fh_StreamID = 0\<rparr>"
  have short: "short ?p" using assms(2) by (simp add: short_def)
  have src: "concat (fr_src fr) = frame_bytes FrameGoAway 0 0 ?p @ r"
    using assms(1) endWrite_bytes[of ?p FrameGoAway 0 0 "[]"] short by (simp add: WriteGoAway_def short_def)
  have fit: "length ?p \<le> unat (fr_maxReadSize fr)" using assms(2,3) by (simp add: word_le_nat_alt)
  have "drop 4 ?p = put32 code @ dbg" by simp
  then have parse: "typeFrameParser FrameGoAway ?h ?p = Inr (GoAwayFrame ?h (sid AND mask31) code dbg)"
    by (simp add: typeFrameParser_def frame_types parseGoAwayFrame_def get32_put32)
  from read_one_written[OF short src fit assms(4) _ _ _ parse] show ?thesis by (auto simp: frame_types)
qed

section \<open>The end of the connection\<close>

text \<open>
  An error while the header is read is swallowed: the end of the connection, even between two frames, becomes a
  DATA frame for stream 0 and so a connection error.\<close>

lemma end_is_protocol_error:
  assumes "length (concat (fr_src fr)) < 9"
  shows "snd (read_one fr) = Inl (ConnectionError ErrCodeProtocol)"
proof -
  have short: "fst (snd (conn_ReadFull k got src)) \<noteq> None" if "length (concat src) < k" for k got src
    using that by (induction k got src rule: conn_ReadFull.induct) auto
  obtain b e src1 where rd: "conn_ReadFull 9 [] (fr_src fr) = (b, e, src1)" by (metis prod.exhaust)
  with short[OF assms, of "[]"] obtain err where "e = Some err" by auto
  then have "readFrameHeader (fr_src fr) = (zero_header, src1)"
    using rd by (simp add: readFrameHeader_def frameHeaderLen_def)
  moreover have "conn_ReadFull 0 [] src1 = ([], None, src1)" by (cases src1) simp_all
  ultimately show ?thesis
    by (simp add: read_one_def zero_header_def typeFrameParser_def frame_types parseDataFrame_def framer_connError_def
        Let_def word_less_nat_alt)
qed

section \<open>The order of the frames\<close>

definition block_frame :: "frame \<Rightarrow> bool" where
  "block_frame f = (fh_Type (frame_Header f) = FrameHeaders \<or> fh_Type (frame_Header f) = FrameContinuation)"

definition unfinished :: "frame \<Rightarrow> bool" where
  "unfinished f = (block_frame f \<and> \<not> Flags_Has (fh_Flags (frame_Header f)) FlagEndHeaders)"

definition is_continuation :: "frame \<Rightarrow> bool" where
  "is_continuation f = (fh_Type (frame_Header f) = FrameContinuation)"

definition stream_of :: "frame \<Rightarrow> 32 word" where
  "stream_of f = fh_StreamID (frame_Header f)"

text \<open>A CONTINUATION frame stands exactly after an unfinished frame of a header block, of the same stream.\<close>

definition follows :: "frame option \<Rightarrow> frame \<Rightarrow> bool" where
  "follows prev f =
     (case prev of
        None \<Rightarrow> \<not> is_continuation f
      | Some p \<Rightarrow> (is_continuation f \<longleftrightarrow> unfinished p) \<and> (is_continuation f \<longrightarrow> stream_of f = stream_of p))"

fun contiguous :: "frame option \<Rightarrow> frame list \<Rightarrow> bool" where
  "contiguous prev [] = True"
| "contiguous prev (f # fs) = (follows prev f \<and> contiguous (Some f) fs)"

text \<open>
  The frames that the loop of readFrames passes on, without merging, in at most \<open>n\<close> rounds; after an error of a
  stream it reads on, and every other error ends it.\<close>

fun read_frames :: "nat \<Rightarrow> 'd framer \<Rightarrow> frame list" where
  "read_frames 0 fr = []"
| "read_frames (Suc n) fr =
     (case read_one fr of
        (fr', Inl e) \<Rightarrow> if terminalReadFrameError (Some e) then [] else read_frames n fr'
      | (fr', Inr f) \<Rightarrow> f # read_frames n fr')"

lemma parser_header:
  assumes "typeFrameParser (fh_Type h) h p = Inr f"
  shows "frame_Header f = h" and "block_frame f \<Longrightarrow> fh_StreamID h \<noteq> 0"
    and "\<And>h' pr fs tr. f \<noteq> MetaHeadersFrame h' pr fs tr"
proof -
  note defs = typeFrameParser_def parseDataFrame_def parseHeadersFrame_def parsePriorityFrame_def
    parseRSTStreamFrame_def parseSettingsFrame_def parsePushPromise_def parsePingFrame_def parseGoAwayFrame_def
    parseWindowUpdateFrame_def parseContinuationFrame_def parseUnknownFrame_def and_then_Inr
  show hd: "frame_Header f = h"
    using assms by (auto simp: defs Let_def split: if_splits prod.splits option.splits)
  show "block_frame f \<Longrightarrow> fh_StreamID h \<noteq> 0"
    using assms unfolding block_frame_def hd
    by (auto simp: typeFrameParser_def frame_types parseHeadersFrame_def parseContinuationFrame_def split: if_splits)
  show "\<And>h' pr fs tr. f \<noteq> MetaHeadersFrame h' pr fs tr"
    using assms by (auto simp: defs Let_def split: if_splits prod.splits option.splits)
qed

lemma read_one_Inr:
  assumes "read_one fr = (fr', Inr f)"
  shows "\<exists>fr1 p. fr_lastHeaderStream fr1 = fr_lastHeaderStream fr \<and>
    fr_AllowIllegalReads fr1 = fr_AllowIllegalReads fr \<and> fr_MaxHeaderListSize fr1 = fr_MaxHeaderListSize fr \<and>
    fr_ReadMetaHeaders fr1 = fr_ReadMetaHeaders fr \<and>
    typeFrameParser (fh_Type (frame_Header f)) (frame_Header f) p = Inr f \<and> checkFrameOrder f fr1 = (fr', None)"
proof -
  obtain fh src1 where hd: "readFrameHeader (fr_src fr) = (fh, src1)" by (cases "readFrameHeader (fr_src fr)")
  obtain p e src2 where rd: "conn_ReadFull (unat (fh_Length fh)) [] src1 = (p, e, src2)" by (metis prod.exhaust)
  from assms hd rd have parse: "typeFrameParser (fh_Type fh) fh p = Inr f"
    and ord: "checkFrameOrder f (fr\<lparr>fr_src := src1, fr_errDetail := None, fr_src := src2\<rparr>) = (fr', None)"
    by (auto simp: read_one_def Let_def framer_connError_def
        split: if_splits option.splits sum.splits frame_error.splits prod.splits)
  have h: "frame_Header f = fh" using parser_header(1)[OF parse] .
  show ?thesis using parse ord unfolding h by (intro exI[of _ "fr\<lparr>fr_src := src1, fr_errDetail := None, fr_src := src2\<rparr>"] exI[of _ p]) simp_all
qed

lemma checkFrameOrder_None:
  assumes "checkFrameOrder f fr = (fr', None)"
  shows "fr_AllowIllegalReads fr' = fr_AllowIllegalReads fr" and "fr_MaxHeaderListSize fr' = fr_MaxHeaderListSize fr"
    and "fr_ReadMetaHeaders fr' = fr_ReadMetaHeaders fr"
    and "\<not> fr_AllowIllegalReads fr \<Longrightarrow>
      (is_continuation f \<longleftrightarrow> fr_lastHeaderStream fr \<noteq> 0) \<and>
      (is_continuation f \<longrightarrow> stream_of f = fr_lastHeaderStream fr) \<and>
      fr_lastHeaderStream fr' = (if unfinished f then stream_of f else 0)"
  using assms
  by (auto simp: checkFrameOrder_def Let_def framer_connError_def is_continuation_def stream_of_def unfinished_def
      block_frame_def frame_types split: if_splits)

text \<open>An error of a stream comes from the parser of the frame, before the order is checked.\<close>

lemma read_one_StreamError:
  assumes "read_one fr = (fr', Inl e)" and "\<not> terminalReadFrameError (Some e)"
  shows "fr_lastHeaderStream fr' = fr_lastHeaderStream fr" and "fr_AllowIllegalReads fr' = fr_AllowIllegalReads fr"
  using assms
  by (auto simp: read_one_def terminalReadFrameError_def Let_def framer_connError_def checkFrameOrder_def
      split: if_splits option.splits sum.splits frame_error.splits prod.splits)

definition open_stream :: "frame option \<Rightarrow> 32 word" where
  "open_stream prev = (case prev of Some p \<Rightarrow> if unfinished p then stream_of p else 0 | None \<Rightarrow> 0)"

lemma read_frames_contiguous:
  assumes "\<not> fr_AllowIllegalReads fr" and "fr_lastHeaderStream fr = open_stream prev"
    and "case prev of None \<Rightarrow> True | Some p \<Rightarrow> unfinished p \<longrightarrow> stream_of p \<noteq> 0"
  shows "contiguous prev (read_frames n fr)"
  using assms
proof (induction n arbitrary: fr prev)
  case (Suc n)
  show ?case
  proof (cases "read_one fr")
    case (Pair fr' r)
    show ?thesis
    proof (cases r)
      case (Inl e)
      show ?thesis
      proof (cases "terminalReadFrameError (Some e)")
        case True
        then show ?thesis using Pair Inl by simp
      next
        case False
        then have "fr_lastHeaderStream fr' = fr_lastHeaderStream fr" "fr_AllowIllegalReads fr' = fr_AllowIllegalReads fr"
          using read_one_StreamError Pair Inl by blast+
        then show ?thesis using Suc.IH[of fr' prev] Suc.prems False Pair Inl by simp
      qed
    next
      case (Inr f)
      obtain fr1 p where one: "fr_lastHeaderStream fr1 = fr_lastHeaderStream fr"
        "fr_AllowIllegalReads fr1 = fr_AllowIllegalReads fr"
        "typeFrameParser (fh_Type (frame_Header f)) (frame_Header f) p = Inr f" "checkFrameOrder f fr1 = (fr', None)"
        using read_one_Inr[of fr fr' f] Pair Inr by auto
      note ord = checkFrameOrder_None[OF one(4)]
      have o: "(is_continuation f \<longleftrightarrow> open_stream prev \<noteq> 0) \<and> (is_continuation f \<longrightarrow> stream_of f = open_stream prev) \<and>
          fr_lastHeaderStream fr' = (if unfinished f then stream_of f else 0)"
        using ord(4) one(1,2) Suc.prems(1,2) by simp
      have nz: "unfinished f \<longrightarrow> stream_of f \<noteq> 0"
        using parser_header(2)[OF one(3)] by (auto simp: unfinished_def stream_of_def)
      have "follows prev f" using o Suc.prems(3) by (auto simp: follows_def open_stream_def split: option.splits)
      moreover have "contiguous (Some f) (read_frames n fr')"
        using Suc.IH[of fr' "Some f"] ord(1) one(2) Suc.prems(1) o nz by (simp add: open_stream_def)
      ultimately show ?thesis using Pair Inr by simp
    qed
  qed
qed simp

text \<open>
  C36: In every sequence of frames that the framer accepts, whatever the peer sends and with the errors of streams
  passed over, a CONTINUATION frame stands exactly after an unfinished HEADERS or CONTINUATION frame, and it
  belongs to the same stream.\<close>

theorem frames_contiguous: "contiguous None (read_frames n (NewFramer src))"
  by (rule read_frames_contiguous) (simp_all add: NewFramer_def SetMaxReadFrameSize_def open_stream_def)

section \<open>The fields of a merged frame\<close>

lemma read_one_keeps:
  assumes "read_one fr = (fr', Inr f)"
  shows "fr_AllowIllegalReads fr' = fr_AllowIllegalReads fr" and "fr_MaxHeaderListSize fr' = fr_MaxHeaderListSize fr"
    and "\<And>h pr fs tr. f \<noteq> MetaHeadersFrame h pr fs tr"
proof -
  obtain fr1 p where one: "fr_AllowIllegalReads fr1 = fr_AllowIllegalReads fr"
    "fr_MaxHeaderListSize fr1 = fr_MaxHeaderListSize fr"
    "typeFrameParser (fh_Type (frame_Header f)) (frame_Header f) p = Inr f" "checkFrameOrder f fr1 = (fr', None)"
    using read_one_Inr[OF assms] by auto
  note ord = checkFrameOrder_None[OF one(4)]
  show "fr_AllowIllegalReads fr' = fr_AllowIllegalReads fr" "fr_MaxHeaderListSize fr' = fr_MaxHeaderListSize fr"
    using ord(1,2) one(1,2) by simp_all
  show "\<And>h pr fs tr. f \<noteq> MetaHeadersFrame h pr fs tr" using parser_header(3)[OF one(3)] .
qed

definition pseudo :: "hpack_field \<Rightarrow> bool" where
  "pseudo f = has_prefix (hf_Name f) '':''"

definition field_ok :: "(nat \<Rightarrow> bool) \<Rightarrow> (string \<Rightarrow> bool) \<Rightarrow> hpack_field \<Rightarrow> bool" where
  "field_ok T V f = (V (hf_Value f) \<and> (pseudo f \<or> validWireHeaderFieldName T (hf_Name f)))"

definition list_size :: "'d hpack \<Rightarrow> hpack_field list \<Rightarrow> nat" where
  "list_size hp fs = sum_list (map (\<lambda>f. unat (hp_Size hp f)) fs)"

text \<open>What the documentation of MetaHeadersFrame promises of its fields.\<close>

definition fields_ok ::
  "'d hpack \<Rightarrow> (nat \<Rightarrow> bool) \<Rightarrow> (string \<Rightarrow> bool) \<Rightarrow> 32 word \<Rightarrow> hpack_field list \<Rightarrow> bool" where
  "fields_ok hp T V limit fs =
     (list_all (field_ok T V) fs \<and>
      sorted_wrt (\<lambda>f g. pseudo g \<longrightarrow> pseudo f) fs \<and>
      list_all (\<lambda>f. hf_Name f \<in> set ('':status'' # request_pseudos)) (filter pseudo fs) \<and>
      distinct (map hf_Name (filter pseudo fs)) \<and>
      \<not> (list_ex (\<lambda>f. hf_Name f = '':status'') fs \<and> list_ex (\<lambda>f. hf_Name f \<in> set request_pseudos) fs) \<and>
      list_size hp fs \<le> unat limit)"

definition emit_inv ::
  "'d hpack \<Rightarrow> (nat \<Rightarrow> bool) \<Rightarrow> (string \<Rightarrow> bool) \<Rightarrow> 32 word \<Rightarrow> meta_state \<Rightarrow> bool" where
  "emit_inv hp T V limit ms \<longleftrightarrow>
     list_all (field_ok T V) (ms_Fields ms) \<and>
     sorted_wrt (\<lambda>f g. pseudo g \<longrightarrow> pseudo f) (ms_Fields ms) \<and>
     list_size hp (ms_Fields ms) + unat (ms_remain ms) = unat limit \<and>
     (ms_enabled ms \<longrightarrow> ms_invalid ms = None \<and> (\<not> ms_sawRegular ms \<longrightarrow> list_all pseudo (ms_Fields ms)))"

lemma emit_keeps:
  assumes inv: "emit_inv hp T V limit ms"
  shows "emit_inv hp T V limit (emit hp T V f ms)"
proof (cases "ms_enabled ms")
  case False
  then show ?thesis using inv by (simp add: emit_def)
next
  case True
  note i = inv[unfolded emit_inv_def]
  obtain saw invalid where ck: "check_field T V f (ms_sawRegular ms) (ms_invalid ms) = (saw, invalid)"
    by (metis prod.exhaust)
  show ?thesis
  proof (cases "invalid \<noteq> None \<or> hp_Size hp f > ms_remain ms")
    case True
    then show ?thesis using i \<open>ms_enabled ms\<close> ck by (auto simp: emit_def emit_inv_def Let_def)
  next
    case False
    then have le: "hp_Size hp f \<le> ms_remain ms" and none: "invalid = None" by (simp_all add: not_less)
    have em: "emit hp T V f ms = ms\<lparr>ms_sawRegular := saw, ms_invalid := invalid,
        ms_remain := ms_remain ms - hp_Size hp f, ms_Fields := ms_Fields ms @ [f]\<rparr>"
      using \<open>ms_enabled ms\<close> ck False by (simp add: emit_def Let_def)
    have ok: "field_ok T V f"
      using ck none by (auto simp: check_field_def field_ok_def pseudo_def Let_def split: if_splits)
    have ord: "sorted_wrt (\<lambda>f g. pseudo g \<longrightarrow> pseudo f) (ms_Fields ms @ [f])"
      using i ck none \<open>ms_enabled ms\<close>
      by (auto simp: sorted_wrt_append check_field_def pseudo_def[symmetric] Let_def list_all_iff split: if_splits)
    have saw: "\<not> saw \<longrightarrow> list_all pseudo (ms_Fields ms @ [f])"
      using i ck none \<open>ms_enabled ms\<close> by (auto simp: check_field_def pseudo_def[symmetric] Let_def split: if_splits)
    have size: "unat (ms_remain ms - hp_Size hp f) = unat (ms_remain ms) - unat (hp_Size hp f)"
      using le by (rule unat_sub)
    have "unat (hp_Size hp f) \<le> unat (ms_remain ms)" using le by (simp add: word_le_nat_alt)
    then have "list_size hp (ms_Fields ms @ [f]) + unat (ms_remain ms - hp_Size hp f) = unat limit"
      using i size by (simp add: list_size_def)
    with i ok ord saw none show ?thesis by (simp add: em emit_inv_def)
  qed
qed

lemma fold_emit_keeps: "emit_inv hp T V limit ms \<Longrightarrow> emit_inv hp T V limit (fold (emit hp T V) fs ms)"
  by (induction fs arbitrary: ms) (simp_all add: emit_keeps)

lemma meta_start_inv: "emit_inv hp T V limit (meta_start limit)"
  by (simp add: emit_inv_def meta_start_def list_size_def)

lemma checkPseudos_loop_None:
  assumes "checkPseudos_loop seen fs rq rp = None" and "distinct (map hf_Name seen)"
  shows "list_all (\<lambda>f. hf_Name f \<in> set ('':status'' # request_pseudos)) fs \<and>
    distinct (map hf_Name (seen @ fs)) \<and>
    \<not> ((rp \<or> list_ex (\<lambda>f. hf_Name f = '':status'') fs) \<and> (rq \<or> list_ex (\<lambda>f. hf_Name f \<in> set request_pseudos) fs))"
  using assms
proof (induction fs arbitrary: seen rq rp)
  case (Cons f fs)
  from Cons.prems have new: "hf_Name f \<notin> set (map hf_Name seen)"
    and step: "checkPseudos_loop (seen @ [f]) fs (rq \<or> hf_Name f \<in> set request_pseudos) (rp \<or> hf_Name f = '':status'') = None"
    and known: "hf_Name f \<in> set ('':status'' # request_pseudos)"
    by (auto simp: list_ex_iff split: if_splits)
  have "distinct (map hf_Name (seen @ [f]))" using Cons.prems(2) new by simp
  from Cons.IH[OF step this] known show ?case by auto
qed (auto split: if_splits)

lemma sorted_takeWhile:
  "sorted_wrt (\<lambda>f g. P g \<longrightarrow> P f) fs \<Longrightarrow> takeWhile P fs = filter P fs"
proof (induction fs)
  case (Cons f fs)
  show ?case
  proof (cases "P f")
    case False
    then have "filter P fs = []" using Cons.prems by (auto simp: filter_empty_conv)
    then show ?thesis using False by simp
  qed (use Cons in simp)
qed simp

text \<open>Names that begin with a colon are the pseudo names; this is what IsPseudo of the package hpack documents.\<close>

lemma status_pseudo:
  "hf_Name f = '':status'' \<Longrightarrow> pseudo f" "hf_Name f \<in> set request_pseudos \<Longrightarrow> pseudo f"
  by (auto simp: pseudo_def request_pseudos_def has_prefix_def)

lemma list_ex_filter: "(\<And>x. Q x \<Longrightarrow> P x) \<Longrightarrow> list_ex Q (filter P xs) \<longleftrightarrow> list_ex Q xs"
  by (induction xs) auto

lemma finish_meta_ok:
  assumes "hp_IsPseudo hp = pseudo" and "emit_inv hp T V limit ms"
    and "finish_meta hp fh prio ms d fr = (fr', Inr (MetaHeadersFrame h pr fs tr))"
  shows "fields_ok hp T V limit fs"
proof -
  from assms(3) have fs: "fs = ms_Fields ms" and ck: "checkPseudos hp fs = None"
    by (auto simp: finish_meta_def Let_def split: prod.splits if_splits option.splits)
  note i = assms(2)[unfolded emit_inv_def]
  have "PseudoFields hp fs = filter pseudo fs"
    using i fs assms(1) sorted_takeWhile[of pseudo fs] by (simp add: PseudoFields_def)
  from checkPseudos_loop_None[of "[]" "filter pseudo fs" False False] ck this
  have "list_all (\<lambda>f. hf_Name f \<in> set ('':status'' # request_pseudos)) (filter pseudo fs)"
    "distinct (map hf_Name (filter pseudo fs))"
    "\<not> (list_ex (\<lambda>f. hf_Name f = '':status'') fs \<and> list_ex (\<lambda>f. hf_Name f \<in> set request_pseudos) fs)"
    using list_ex_filter[of "\<lambda>f. hf_Name f = '':status''" pseudo fs]
      list_ex_filter[of "\<lambda>f. hf_Name f \<in> set request_pseudos" pseudo fs]
    by (simp_all add: checkPseudos_def status_pseudo)
  then show ?thesis using i fs by (simp add: fields_ok_def)
qed

lemma meta_loop_ok:
  assumes "meta_loop hp T V fh prio ms frag ended d fr = Ret (fr', Inr (MetaHeadersFrame h pr fs tr))"
    and "hp_IsPseudo hp = pseudo" and "emit_inv hp T V limit ms"
  shows "fields_ok hp T V limit fs"
  using assms
proof (induction hp T V fh prio ms frag ended d fr arbitrary: fr' h pr fs tr rule: meta_loop.induct)
  case (1 hp T V fh prio ms frag ended d fr)
  obtain d' fields ok where wr: "hp_Write hp frag d = (d', fields, ok)" by (metis prod.exhaust)
  let ?ms = "fold (emit hp T V) fields ms"
  have inv: "emit_inv hp T V limit ?ms" using 1(5) by (rule fold_emit_keeps)
  from 1(3) wr have ok: "ok" by (auto simp: meta_loop.simps[of _ _ _ _ _ _ _ _ d] split: if_splits)
  show ?case
  proof (cases ended)
    case True
    with 1(3) wr ok have "finish_meta hp fh prio ?ms d' fr = (fr', Inr (MetaHeadersFrame h pr fs tr))"
      by (simp add: meta_loop.simps[of _ _ _ _ _ _ _ _ d] Let_def)
    from finish_meta_ok[OF 1(4) inv this] show ?thesis .
  next
    case False
    obtain fr1 r where one: "read_one (fr\<lparr>fr_ReadMetaHeaders := Some d'\<rparr>) = (fr1, r)" by (metis prod.exhaust)
    note run = 1(3)[unfolded meta_loop.simps[of _ _ _ _ _ _ _ _ d] wr]
    from run one ok False obtain f where r: "r = Inr f"
      by (cases r) (auto simp: Let_def)
    show ?thesis
    proof (cases f)
      case (ContinuationFrame fh' frag')
      have "meta_loop hp T V fh prio ?ms frag' (Continuation_HeadersEnded fh') d' fr1 =
          Ret (fr', Inr (MetaHeadersFrame h pr fs tr))"
        using run one ok False r ContinuationFrame by (simp add: Let_def)
      from 1(2)[OF wr[symmetric] refl _ refl False one[symmetric] r ContinuationFrame this 1(4) inv] ok show ?thesis
        by simp
    next
      case (HeadersFrame fh' prio' frag')
      then show ?thesis
        using run one ok False r by (auto simp: Let_def go_bind_Ret split: sum.splits) (metis sumE)
    qed (use run one ok False r in \<open>auto simp: Let_def\<close>)
  qed
qed

text \<open>
  C37: A merged HEADERS frame that ReadFrame returns keeps its promise, whatever the peer sends: the pseudo
  header fields come first, are known, distinct and not mixed; names and values are valid; and the fields
  are no larger than the limit.\<close>

theorem meta_fields_ok:
  assumes "hp_IsPseudo hp = (\<lambda>f. has_prefix (hf_Name f) '':'')"
    and "ReadFrame hp T V fr = Ret (fr', Inr (MetaHeadersFrame h pr fs tr))"
  shows "fields_ok hp T V (maxHeaderListSize fr) fs"
proof -
  obtain fr1 r where one: "read_one fr = (fr1, r)" by (metis prod.exhaust)
  then obtain f where r: "r = Inr f" using assms(2) by (cases r) (auto simp: ReadFrame_def)
  note keep = read_one_keeps[OF one[unfolded r]]
  have pseudo: "hp_IsPseudo hp = pseudo" using assms(1) by (simp add: pseudo_def fun_eq_iff)
  have max: "maxHeaderListSize fr1 = maxHeaderListSize fr" using keep(2) by (simp add: maxHeaderListSize_def)
  show ?thesis
  proof (cases f)
    case (HeadersFrame fh prio frag)
    with assms(2) one r obtain d where
      "meta_loop hp T V fh prio (meta_start (maxHeaderListSize fr1)) frag (Headers_HeadersEnded fh)
         (hp_SetMaxStringLength hp (maxHeaderListSize fr1) d) fr1 = Ret (fr', Inr (MetaHeadersFrame h pr fs tr))"
      by (auto simp: ReadFrame_def readMetaFrame_def split: option.splits if_splits)
    from meta_loop_ok[OF this pseudo meta_start_inv] max show ?thesis by simp
  qed (use assms(2) one r keep(3) in \<open>auto simp: ReadFrame_def\<close>)
qed

section \<open>A request with a body\<close>

text \<open>
  HEADERS ends its header block, but not the stream.  The framer takes it for unfinished and reads on for a
  CONTINUATION frame, which the order of frames does not allow any more.\<close>

lemma continuation_type:
  assumes "read_one fr = (fr', Inr (ContinuationFrame h c))"
  shows "is_continuation (ContinuationFrame h c)"
proof -
  obtain p where "typeFrameParser (fh_Type h) h p = Inr (ContinuationFrame h c)"
    using read_one_Inr[OF assms] by auto
  then show ?thesis
    by (auto simp: is_continuation_def typeFrameParser_def parseDataFrame_def parseHeadersFrame_def parsePriorityFrame_def
        parseRSTStreamFrame_def parseSettingsFrame_def parsePushPromise_def parsePingFrame_def parseGoAwayFrame_def
        parseWindowUpdateFrame_def parseUnknownFrame_def and_then_Inr Let_def split: if_splits prod.splits option.splits)
qed

lemma headers_type:
  assumes "read_one fr = (fr', Inr (HeadersFrame h prio c))"
  shows "fh_Type h = FrameHeaders"
proof -
  obtain p where "typeFrameParser (fh_Type h) h p = Inr (HeadersFrame h prio c)"
    using read_one_Inr[OF assms] by auto
  then show ?thesis
    by (auto simp: typeFrameParser_def parseDataFrame_def parseContinuationFrame_def parsePriorityFrame_def
        parseRSTStreamFrame_def parseSettingsFrame_def parsePushPromise_def parsePingFrame_def parseGoAwayFrame_def
        parseWindowUpdateFrame_def parseUnknownFrame_def and_then_Inr Let_def split: if_splits prod.splits option.splits)
qed

lemma no_continuation_after_end_headers:
  assumes "read_one fr = (fr1, Inr (HeadersFrame fh prio frag))" and "\<not> fr_AllowIllegalReads fr"
    and "Flags_Has (fh_Flags fh) FlagEndHeaders"
  shows "read_one (fr1\<lparr>fr_ReadMetaHeaders := m\<rparr>) \<noteq> (fr2, Inr (ContinuationFrame h c))"
proof
  assume cont: "read_one (fr1\<lparr>fr_ReadMetaHeaders := m\<rparr>) = (fr2, Inr (ContinuationFrame h c))"
  obtain fr0 p where one: "fr_AllowIllegalReads fr0 = fr_AllowIllegalReads fr"
    "checkFrameOrder (HeadersFrame fh prio frag) fr0 = (fr1, None)"
    using read_one_Inr[OF assms(1)] by auto
  have fr1: "fr_lastHeaderStream fr1 = 0" "\<not> fr_AllowIllegalReads fr1"
    using checkFrameOrder_None(1,4)[OF one(2)] one(1) assms(2,3) by (simp_all add: unfinished_def)
  obtain fr3 q where two: "fr_lastHeaderStream fr3 = 0" "\<not> fr_AllowIllegalReads fr3"
    "checkFrameOrder (ContinuationFrame h c) fr3 = (fr2, None)"
    using read_one_Inr[OF cont] fr1 by auto
  then show False using checkFrameOrder_None(4)[OF two(3)] continuation_type[OF cont] by simp
qed

text \<open>
  C40: A HEADERS frame that ends its header block but not the stream, as every request with a body has it whose
  header fits one frame, is never returned by a framer that merges headers, for any decoder and whatever bytes
  follow: ReadFrame fails or panics; and when the decoder accepts the block, it panics on every frame that
  follows but another HEADERS frame, in particular on DATA.\<close>

theorem request_with_body_never_read:
  assumes "read_one fr = (fr1, Inr (HeadersFrame fh prio frag))" and "fr_ReadMetaHeaders fr = Some d"
    and "\<not> fr_AllowIllegalReads fr"
    and "Flags_Has (fh_Flags fh) FlagEndHeaders" and "\<not> Flags_Has (fh_Flags fh) FlagEndStream"
  shows "(panics (ReadFrame hp T V fr) \<or> (\<exists>fr' e. ReadFrame hp T V fr = Ret (fr', Inl e))) \<and>
    (\<forall>d' fs fr2 f. hp_Write hp frag (hp_SetMaxStringLength hp (maxHeaderListSize fr) d) = (d', fs, True) \<and>
       read_one (fr1\<lparr>fr_ReadMetaHeaders := Some d'\<rparr>) = (fr2, Inr f) \<and> fh_Type (frame_Header f) \<noteq> FrameHeaders \<longrightarrow>
       panics (ReadFrame hp T V fr))"
proof -
  have keep: "fr_ReadMetaHeaders fr1 = Some d" "\<not> fr_AllowIllegalReads fr1" "maxHeaderListSize fr1 = maxHeaderListSize fr"
    using read_one_keeps(1,2)[OF assms(1)] read_one_Inr[OF assms(1)] assms(2,3)
    by (auto simp: maxHeaderListSize_def dest!: checkFrameOrder_None(3))
  let ?loop = "meta_loop hp T V fh prio (meta_start (maxHeaderListSize fr)) frag False
     (hp_SetMaxStringLength hp (maxHeaderListSize fr) d) fr1"
  have rf: "ReadFrame hp T V fr = ?loop"
    using assms(1,5) keep by (simp add: ReadFrame_def readMetaFrame_def Headers_HeadersEnded_def)
  obtain d' fs ok where wr: "hp_Write hp frag (hp_SetMaxStringLength hp (maxHeaderListSize fr) d) = (d', fs, ok)"
    by (metis prod.exhaust)
  obtain fr2 r where nxt: "read_one (fr1\<lparr>fr_ReadMetaHeaders := Some d'\<rparr>) = (fr2, r)" by (metis prod.exhaust)
  note step = rf meta_loop.simps[of hp T V fh prio "meta_start (maxHeaderListSize fr)" frag False
      "hp_SetMaxStringLength hp (maxHeaderListSize fr) d" fr1] wr nxt
  show ?thesis
  proof (cases ok)
    case False
    then show ?thesis by (simp add: step)
  next
    case True
    show ?thesis
    proof (cases r)
      case (Inl e)
      then show ?thesis using True by (simp add: step)
    next
      case (Inr f)
      then show ?thesis
      proof (cases f)
        case (ContinuationFrame h c)
        then show ?thesis using no_continuation_after_end_headers[OF assms(1,3,4)] nxt Inr by blast
      next
        case (HeadersFrame fh' prio' frag')
        then show ?thesis
          using True Inr headers_type[of "fr1\<lparr>fr_ReadMetaHeaders := Some d'\<rparr>" fr2] nxt
          by (cases "meta_loop hp T V fh' prio' (meta_start (maxHeaderListSize fr2)) frag'
              (Headers_HeadersEnded fh') (hp_SetMaxStringLength hp (maxHeaderListSize fr2) d') fr2")
            (auto simp: step split: sum.splits)
      qed (use True Inr in \<open>simp_all add: step\<close>)
    qed
  qed
qed

section \<open>Examples\<close>

theorem frame_header_read_witness:
  "\<exists>src1. readFrameHeader [frame_bytes FrameData 0 1 (replicate 258 (CHR ''x''))] =
      (\<lparr>fh_Type = FrameData, fh_Flags = 0, fh_Length = 2, fh_StreamID = 1\<rparr>, src1)"
  using frame_header_read[of "replicate 258 (CHR ''x'')" "[frame_bytes FrameData 0 1 (replicate 258 (CHR ''x''))]" FrameData 0 1 "[]"]
  by (auto simp: mask31_def)

definition demo_framer :: "string \<Rightarrow> unit framer" where
  "demo_framer bs = (NewFramer [bs])\<lparr>fr_ReadMetaHeaders := Some ()\<rparr>"

lemma demo_framer_fields [simp]:
  "fr_src (demo_framer bs) = [bs]" "fr_maxReadSize (demo_framer bs) = maxFrameSize"
  "fr_lastHeaderStream (demo_framer bs) = 0" "fr_AllowIllegalReads (demo_framer bs) = False"
  "fr_ReadMetaHeaders (demo_framer bs) = Some ()" "maxHeaderListSize (demo_framer bs) = 0x1000000"
  by (simp_all add: demo_framer_def NewFramer_def SetMaxReadFrameSize_def maxHeaderListSize_def)

text \<open>A POST request whose body follows in a DATA frame.\<close>

theorem request_with_body_never_read_witness:
  "panics (ReadFrame demo_hpack (\<lambda>r. True) (\<lambda>v. True)
     (demo_framer (frame_bytes FrameHeaders FlagEndHeaders 1 '':method=POST'' @ frame_bytes FrameData FlagEndStream 1 ''x'')))"
  (is "panics (ReadFrame _ _ _ ?fr)")
proof -
  let ?h = "\<lparr>fh_Type = FrameHeaders, fh_Flags = FlagEndHeaders, fh_Length = word_of_nat (length '':method=POST''),
    fh_StreamID = 1 AND mask31\<rparr>"
  let ?dh = "\<lparr>fh_Type = FrameData, fh_Flags = FlagEndStream, fh_Length = word_of_nat (length ''x''),
    fh_StreamID = 1 AND mask31\<rparr>"
  have fl: "\<not> Flags_Has FlagEndHeaders FlagPadded" "\<not> Flags_Has FlagEndHeaders FlagPriority"
    "\<not> Flags_Has FlagEndHeaders FlagEndStream" "Flags_Has FlagEndHeaders FlagEndHeaders"
    "\<not> Flags_Has FlagEndStream FlagPadded"
    by (simp_all add: Flags_Has_def FlagEndHeaders_def FlagPadded_def FlagPriority_def FlagEndStream_def)
  have one: "1 AND mask31 = 1" by (simp add: mask31_def)
  have "\<exists>src'. concat src' = frame_bytes FrameData FlagEndStream 1 ''x'' \<and>
      read_one ?fr = (?fr\<lparr>fr_errDetail := None, fr_src := src', fr_lastFrame := Some (HeadersFrame ?h no_priority '':method=POST''),
       fr_lastHeaderStream := if Flags_Has FlagEndHeaders FlagEndHeaders \<or> fr_AllowIllegalReads ?fr then 0 else 1 AND mask31\<rparr>,
      Inr (HeadersFrame ?h no_priority '':method=POST''))"
    by (rule read_headers_written) (simp_all add: fl one short_def maxFrameSize_def)
  then obtain src1 where src1: "concat src1 = frame_bytes FrameData FlagEndStream 1 ''x''"
    and rd1: "read_one ?fr = (?fr\<lparr>fr_errDetail := None, fr_src := src1,
      fr_lastFrame := Some (HeadersFrame ?h no_priority '':method=POST''), fr_lastHeaderStream := 0\<rparr>,
      Inr (HeadersFrame ?h no_priority '':method=POST''))"
    unfolding if_P[OF disjI1[OF fl(4)]] by blast
  let ?fr1 = "?fr\<lparr>fr_errDetail := None, fr_src := src1,
      fr_lastFrame := Some (HeadersFrame ?h no_priority '':method=POST''), fr_lastHeaderStream := 0,
      fr_ReadMetaHeaders := Some ()\<rparr>"
  have parse: "typeFrameParser FrameData ?dh ''x'' = Inr (DataFrame ?dh ''x'')"
    using fl one by (simp add: typeFrameParser_def frame_types parseDataFrame_def pad_length_def)
  have "\<exists>src'. concat src' = [] \<and>
      read_one ?fr1 = (?fr1\<lparr>fr_errDetail := None, fr_src := src', fr_lastFrame := Some (DataFrame ?dh ''x'')\<rparr>,
        Inr (DataFrame ?dh ''x''))"
    by (rule read_one_written[OF _ _ _ _ _ _ refl parse]) (simp_all add: short_def maxFrameSize_def src1 frame_types)
  then obtain fr2 where rd2: "read_one ?fr1 = (fr2, Inr (DataFrame ?dh ''x''))" by blast
  show ?thesis
    using request_with_body_never_read[OF rd1, of "()" demo_hpack "\<lambda>r. True" "\<lambda>v. True"] fl rd2
    by (simp add: demo_hpack_def frame_types)
qed

theorem meta_fields_ok_witness:
  "fields_ok demo_hpack (\<lambda>r. True) (\<lambda>v. True) 0x1000000 [\<lparr>hf_Name = '':method'', hf_Value = ''GET''\<rparr>]"
proof -
  let ?fr = "demo_framer (frame_bytes FrameHeaders 5 1 '':method=GET'')"
  let ?f = "\<lparr>hf_Name = '':method'', hf_Value = ''GET''\<rparr>"
  let ?h = "\<lparr>fh_Type = FrameHeaders, fh_Flags = 5, fh_Length = word_of_nat (length '':method=GET''), fh_StreamID = 1 AND mask31\<rparr>"
  have fl: "\<not> Flags_Has 5 FlagPadded" "\<not> Flags_Has 5 FlagPriority" "Flags_Has 5 FlagEndStream"
    by (simp_all add: Flags_Has_def FlagPadded_def FlagPriority_def FlagEndStream_def)
  have one: "1 AND mask31 = 1" by (simp add: mask31_def)
  have "\<exists>src'. concat src' = [] \<and>
      read_one ?fr = (?fr\<lparr>fr_errDetail := None, fr_src := src', fr_lastFrame := Some (HeadersFrame ?h no_priority '':method=GET''),
       fr_lastHeaderStream := if Flags_Has 5 FlagEndHeaders \<or> fr_AllowIllegalReads ?fr then 0 else 1 AND mask31\<rparr>,
      Inr (HeadersFrame ?h no_priority '':method=GET''))"
    by (rule read_headers_written) (simp_all add: fl one short_def maxFrameSize_def)
  then obtain src1 lh where rd1: "read_one ?fr = (?fr\<lparr>fr_errDetail := None, fr_src := src1,
      fr_lastFrame := Some (HeadersFrame ?h no_priority '':method=GET''), fr_lastHeaderStream := lh\<rparr>,
      Inr (HeadersFrame ?h no_priority '':method=GET''))"
    by blast
  have mx: "maxHeaderListSize (?fr\<lparr>fr_errDetail := None, fr_src := src1, fr_lastFrame := lf, fr_lastHeaderStream := lh\<rparr>) = 0x1000000"
    for lf by (simp add: maxHeaderListSize_def demo_framer_def NewFramer_def SetMaxReadFrameSize_def)
  have wr: "hp_Write demo_hpack '':method=GET'' () = ((), [?f], True)" by (simp add: demo_hpack_def)
  have "emit demo_hpack (\<lambda>r. True) (\<lambda>v. True) ?f (meta_start 0x1000000) =
      (meta_start 0x1000000)\<lparr>ms_remain := 0x1000000 - hp_Size demo_hpack ?f, ms_Fields := [?f]\<rparr>"
    by (simp add: emit_def check_field_def meta_start_def has_prefix_def demo_hpack_def Let_def)
  then have "ReadFrame demo_hpack (\<lambda>r. True) (\<lambda>v. True) ?fr =
      Ret (?fr\<lparr>fr_errDetail := None, fr_src := src1, fr_lastFrame := Some (HeadersFrame ?h no_priority '':method=GET''),
             fr_lastHeaderStream := lh, fr_ReadMetaHeaders := Some ()\<rparr>,
           Inr (MetaHeadersFrame ?h no_priority [?f] False))"
    using rd1 wr fl
    by (simp add: ReadFrame_def readMetaFrame_def mx meta_loop.simps[of _ _ _ _ _ _ _ _ "()"] Headers_HeadersEnded_def
        finish_meta_def meta_start_def checkPseudos_def PseudoFields_def request_pseudos_def demo_hpack_def has_prefix_def)
  from meta_fields_ok[OF _ this] show ?thesis by (simp add: demo_hpack_def)
qed

end
