(* ===== verification/H2_Flow.thy ===== *)
theory H2_Flow
  imports Go_Prelude
begin

text \<open>
  Flow control of HTTP/2 (types http2inflow and http2outflow of src/http/h2_bundle.go), at the width of the
  source: a window is a signed 32-bit word.  A negative or excessive update of an inflow panics.
\<close>

unbundle bit_operations_syntax

section \<open>The window that the peer may use\<close>

record inflow =
  avail :: "32 word"
  unsent :: "32 word"

definition inflow_zero :: inflow where
  "inflow_zero = \<lparr>avail = 0, unsent = 0\<rparr>"

definition inflow_init :: "32 word \<Rightarrow> inflow \<Rightarrow> inflow" where
  "inflow_init n f = f\<lparr>avail := n\<rparr>"

definition inflowMinRefresh :: "32 word" where
  "inflowMinRefresh = 4096"

definition max_window :: int where
  "max_window = 2147483647"

text \<open>The argument is an int of the machine; the sums are computed with 64 bits.\<close>

definition inflow_add :: "64 word \<Rightarrow> inflow \<Rightarrow> (inflow \<times> 32 word) go" where
  "inflow_add n f =
     (if n <s 0 then Panic ''negative update''
      else (let sum = scast (unsent f) + n :: 64 word
            in if word_of_int max_window <s sum + scast (avail f) then
                 Panic ''flow control update exceeds maximum window size''
               else (let f1 = f\<lparr>unsent := scast sum\<rparr>
                     in if unsent f1 <s inflowMinRefresh \<and> unsent f1 <s avail f1 then Ret (f1, 0)
                        else Ret (f1\<lparr>avail := avail f1 + unsent f1, unsent := 0\<rparr>, scast sum))))"

section \<open>The window for our own data\<close>

definition outflow_add :: "32 word \<Rightarrow> 32 word \<Rightarrow> 32 word \<times> bool" where
  "outflow_add n f =
     (let sum = f + n
      in if (n <s sum) = (0 <s f) then (sum, True) else (f, False))"

section \<open>Correctness\<close>

lemma sint32: "- (2 ^ 31) \<le> sint (w :: 32 word) \<and> sint w < 2 ^ 31"
  using sint_range_size[of w] by (simp add: size_word_def)

lemma sint_add32:
  fixes x y :: "32 word"
  assumes "- (2 ^ 31) \<le> sint x + sint y" and "sint x + sint y < 2 ^ 31"
  shows "sint (x + y) = sint x + sint y"
  using assms by (simp add: signed_take_bit_int_eq_self sint_word_ariths(1) word_size)

lemma sint_add32_cases:
  fixes x y :: "32 word"
  shows "sint (x + y) =
    (if sint x + sint y < - (2 ^ 31) then sint x + sint y + 2 ^ 32
     else if 2 ^ 31 \<le> sint x + sint y then sint x + sint y - 2 ^ 32
     else sint x + sint y)"
proof -
  have "sint (x + y) = (sint x + sint y + 2 ^ 31) mod 2 ^ 32 - 2 ^ 31"
    by (simp add: sint_word_ariths(1) signed_take_bit_eq_take_bit_shift take_bit_eq_mod)
  moreover have "(k + 2 ^ 31) mod 2 ^ 32 =
      (if k < - (2 ^ 31) then k + 2 ^ 31 + 2 ^ 32 else if 2 ^ 31 \<le> k then k + 2 ^ 31 - 2 ^ 32 else k + 2 ^ 31)"
    if "- (2 ^ 32) \<le> k" and "k < 2 ^ 32" for k :: int
    using that int_mod_pos_eq[of "k + 2 ^ 31" "2 ^ 32" "- 1" "k + 2 ^ 31 + 2 ^ 32"]
      int_mod_pos_eq[of "k + 2 ^ 31" "2 ^ 32" 1 "k + 2 ^ 31 - 2 ^ 32"]
      int_mod_pos_eq[of "k + 2 ^ 31" "2 ^ 32" 0 "k + 2 ^ 31"] by auto
  ultimately show ?thesis using sint32[of x] sint32[of y] by simp
qed

text \<open>
  An outbound window grows, or shrinks, by exactly the given amount when the sum is a signed 32-bit
  number, and is unchanged otherwise; the result tells which.\<close>

theorem outflow_add_exact:
  "outflow_add n f =
     (if - (2 ^ 31) \<le> sint f + sint n \<and> sint f + sint n < 2 ^ 31 then (word_of_int (sint f + sint n), True)
      else (f, False))"
proof -
  have sum: "word_of_int (sint f + sint n) = f + n" by simp
  show ?thesis
    unfolding sum outflow_add_def Let_def word_sless_alt sint_add32_cases
    using sint32[of f] sint32[of n] by auto
qed

lemma sint_scast64: "sint (scast (w :: 32 word) :: 64 word) = sint w"
  by (rule sint_up_scast) (simp add: is_up)

lemma sint_scast32:
  fixes w :: "64 word"
  assumes "0 \<le> sint w" and "sint w \<le> max_window"
  shows "sint (scast w :: 32 word) = sint w"
proof -
  have "sint (scast w :: 32 word) = signed_take_bit 31 (sint w)"
    unfolding scast_eq using sint_sbintrunc'[where 'a = 32, of "sint w"] by simp
  then show ?thesis using assms by (simp add: max_window_def signed_take_bit_int_eq_self)
qed

lemma sint_add64:
  fixes x y :: "64 word"
  assumes "- (2 ^ 63) \<le> sint x + sint y" and "sint x + sint y < 2 ^ 63"
  shows "sint (x + y) = sint x + sint y"
  using assms by (simp add: signed_take_bit_int_eq_self sint_word_ariths(1))

text \<open>A window and its unsent part are not negative and together no larger than the protocol allows.\<close>

definition window :: "inflow \<Rightarrow> int" where
  "window f = sint (avail f) + sint (unsent f)"

definition inflow_ok :: "inflow \<Rightarrow> bool" where
  "inflow_ok f \<longleftrightarrow> 0 \<le> sint (avail f) \<and> 0 \<le> sint (unsent f) \<and> window f \<le> max_window"

text \<open>
  Giving n bytes back to the peer panics exactly when n is negative or the window would exceed its
  maximum.  Otherwise the window grows by n, what is announced to the peer is exactly the growth of the
  part it knows, and the peer is never left with nothing to send while bytes are held back.\<close>

theorem inflow_add_exact:
  assumes "inflow_ok f" and "sint n < 2 ^ 62"
  shows "(panics (inflow_add n f) \<longleftrightarrow> sint n < 0 \<or> window f + sint n > max_window) \<and>
    (\<forall>f' k. inflow_add n f = Ret (f', k) \<longrightarrow> inflow_ok f' \<and> window f' = window f + sint n \<and>
      sint (avail f') = sint (avail f) + sint k \<and> 0 \<le> sint k \<and> (0 < sint (avail f') \<or> window f' = 0))"
proof (intro conjI allI impI)
  have ok: "0 \<le> sint (avail f)" "0 \<le> sint (unsent f)" "sint (avail f) + sint (unsent f) \<le> max_window"
    using assms(1) by (simp_all add: inflow_ok_def window_def)
  have sum: "sint (scast (unsent f) + n) = sint (unsent f) + sint n" if "0 \<le> sint n"
    using ok assms(2) that by (subst sint_add64) (simp_all add: sint_scast64 max_window_def)
  have tot: "sint (scast (unsent f) + n + scast (avail f)) = window f + sint n" if "0 \<le> sint n"
    using ok assms(2) that sum[OF that] by (subst sint_add64) (simp_all add: sint_scast64 max_window_def window_def)
  have mx: "sint (word_of_int max_window :: 64 word) = max_window" by (simp add: max_window_def)
  show "panics (inflow_add n f) \<longleftrightarrow> sint n < 0 \<or> window f + sint n > max_window"
    using tot by (auto simp: inflow_add_def Let_def word_sless_alt mx)
  fix f' k
  assume that: "inflow_add n f = Ret (f', k)"
  have "inflow_ok f' \<and> window f' = window f + sint n \<and> sint (avail f') = sint (avail f) + sint k \<and>
      0 \<le> sint k \<and> (0 < sint (avail f') \<or> window f' = 0)"
  proof -
    from that have n: "0 \<le> sint n" and le: "window f + sint n \<le> max_window"
      using tot by (auto simp: inflow_add_def Let_def word_sless_alt mx split: if_splits)
    let ?s = "scast (unsent f) + n :: 64 word"
    have s: "sint (scast ?s :: 32 word) = sint (unsent f) + sint n"
      using sint_scast32[of ?s] sum[OF n] n ok le by (simp add: window_def)
    have av: "sint (avail f + scast ?s) = window f + sint n"
      using ok le n by (subst sint_add32) (simp_all add: s window_def max_window_def)
    from that n le tot[OF n] have
      "f' = f\<lparr>unsent := scast ?s\<rparr> \<and> k = 0 \<and> sint (unsent f) + sint n < sint (avail f) \<or>
       f' = f\<lparr>avail := avail f + scast ?s, unsent := 0\<rparr> \<and> k = scast ?s"
      by (auto simp: inflow_add_def Let_def word_sless_alt mx s split: if_splits)
    then show ?thesis
      using ok le n s av by (auto simp: inflow_ok_def window_def)
  qed
  then show "inflow_ok f'" and "window f' = window f + sint n" and "sint (avail f') = sint (avail f) + sint k"
    and "0 \<le> sint k" and "0 < sint (avail f') \<or> window f' = 0" by blast+
qed

theorem inflow_add_exact_witness:
  "inflow_ok \<lparr>avail = 65535, unsent = 0\<rparr> \<and> \<not> panics (inflow_add 5000 \<lparr>avail = 65535, unsent = 0\<rparr>)"
proof -
  have ok: "inflow_ok \<lparr>avail = 65535, unsent = 0\<rparr>" by (simp add: inflow_ok_def window_def max_window_def)
  have "\<not> panics (inflow_add 5000 \<lparr>avail = 65535, unsent = 0\<rparr>)"
    using inflow_add_exact[OF ok, of 5000] by (simp add: window_def max_window_def)
  with ok show ?thesis by simp
qed

end
