(* ===== verification/H2_Server.thy ===== *)
theory H2_Server
  imports H2_Frame_Correct H2_Flow
begin

text \<open>
  The server side of HTTP/2 (src/http/h2_bundle.go): its configuration, the check of the TLS parameters, the
  scheduler of the frames to write, and the write path of a connection up to serve and ServeConn.  The
  connection accepts every write; the hooks on connection states, the timers and the set of active
  connections are not modelled.  The source has no serve loop for reading yet.
\<close>

section \<open>Configuration\<close>

record h2_config =
  cf_MaxConcurrentStreams :: "32 word"
  cf_MaxDecoderHeaderTableSize :: "32 word"
  cf_MaxEncoderHeaderTableSize :: "32 word"
  cf_MaxReadFrameSize :: "32 word"
  cf_PermitProhibitedCipherSuites :: bool
  cf_IdleTimeout :: int
  cf_MaxUploadBufferPerConnection :: "32 word"
  cf_MaxUploadBufferPerStream :: "32 word"

definition initialWindowSize :: "32 word" where "initialWindowSize = 65535"
definition defaultMaxReadFrameSize :: "32 word" where "defaultMaxReadFrameSize = 0x100000"
definition defaultMaxStreams :: "32 word" where "defaultMaxStreams = 250"
definition initialHeaderTableSize :: "32 word" where "initialHeaderTableSize = 4096"

definition initialConnRecvWindowSize :: "h2_config \<Rightarrow> 32 word" where
  "initialConnRecvWindowSize s =
     (if initialWindowSize <=s cf_MaxUploadBufferPerConnection s then cf_MaxUploadBufferPerConnection s else 0x100000)"

definition initialStreamRecvWindowSize :: "h2_config \<Rightarrow> 32 word" where
  "initialStreamRecvWindowSize s =
     (if 0 <s cf_MaxUploadBufferPerStream s then cf_MaxUploadBufferPerStream s else 0x100000)"

definition maxReadFrameSize :: "h2_config \<Rightarrow> 32 word" where
  "maxReadFrameSize s =
     (let v = cf_MaxReadFrameSize s in if v \<ge> minMaxFrameSize \<and> v \<le> maxFrameSize then v else defaultMaxReadFrameSize)"

definition maxConcurrentStreams :: "h2_config \<Rightarrow> 32 word" where
  "maxConcurrentStreams s = (if cf_MaxConcurrentStreams s > 0 then cf_MaxConcurrentStreams s else defaultMaxStreams)"

definition maxDecoderHeaderTableSize :: "h2_config \<Rightarrow> 32 word" where
  "maxDecoderHeaderTableSize s =
     (if cf_MaxDecoderHeaderTableSize s > 0 then cf_MaxDecoderHeaderTableSize s else initialHeaderTableSize)"

definition maxEncoderHeaderTableSize :: "h2_config \<Rightarrow> 32 word" where
  "maxEncoderHeaderTableSize s =
     (if cf_MaxEncoderHeaderTableSize s > 0 then cf_MaxEncoderHeaderTableSize s else initialHeaderTableSize)"

text \<open>The argument is MaxHeaderBytes of the HTTP/1 server.\<close>

definition sc_maxHeaderListSize :: "int \<Rightarrow> 32 word" where
  "sc_maxHeaderListSize n = word_of_int ((if n \<le> 0 then DefaultMaxHeaderBytes else n) + 10 * 32)"

section \<open>TLS\<close>

text \<open>The identifiers of the switch statement of http2isBadCipher, as ranges.\<close>

definition bad_cipher_ranges :: "(16 word \<times> 16 word) list" where
  "bad_cipher_ranges =
     [(0x0, 0x1B), (0x1E, 0x46), (0x67, 0x6D), (0x84, 0x9D), (0xA0, 0xA1), (0xA4, 0xA9),
      (0xAC, 0xC5), (0xFF, 0xFF), (0xC001, 0xC02A), (0xC02D, 0xC02E), (0xC031, 0xC051), (0xC054, 0xC055),
      (0xC058, 0xC05B), (0xC05E, 0xC05F), (0xC062, 0xC06B), (0xC06E, 0xC07B), (0xC07E, 0xC07F), (0xC082, 0xC085),
      (0xC088, 0xC089), (0xC08C, 0xC08F), (0xC092, 0xC09D), (0xC0A0, 0xC0A1), (0xC0A4, 0xC0A5), (0xC0A8, 0xC0A9)]"

definition isBadCipher :: "16 word \<Rightarrow> bool" where
  "isBadCipher c = list_ex (\<lambda>(a, b). a \<le> c \<and> c \<le> b) bad_cipher_ranges"

record tls_config =
  tc_CipherSuites :: "16 word list option"
  tc_MinVersion :: "16 word"
  tc_PreferServerCipherSuites :: bool
  tc_NextProtos :: "string list"

definition VersionTLS12 :: "16 word" where "VersionTLS12 = 0x0303"
definition VersionTLS13 :: "16 word" where "VersionTLS13 = 0x0304"
definition required_ciphers :: "16 word list" where "required_ciphers = [0xC02F, 0xC02B]"

definition strSliceContains :: "string list \<Rightarrow> string \<Rightarrow> bool" where
  "strSliceContains ss s = list_ex (\<lambda>v. v = s) ss"

definition add_proto :: "string \<Rightarrow> tls_config \<Rightarrow> tls_config" where
  "add_proto p c = (if strSliceContains (tc_NextProtos c) p then c else c\<lparr>tc_NextProtos := tc_NextProtos c @ [p]\<rparr>)"

text \<open>The TLS part of ConfigureServer; \<open>None\<close> is the error of a missing cipher suite.\<close>

definition configure_tls :: "tls_config option \<Rightarrow> tls_config option" where
  "configure_tls tls =
     (let c = (case tls of
                 None \<Rightarrow> \<lparr>tc_CipherSuites = None, tc_MinVersion = 0, tc_PreferServerCipherSuites = False, tc_NextProtos = []\<rparr>
               | Some c \<Rightarrow> c)
      in case (if tls = None \<or> \<not> tc_MinVersion c < VersionTLS13 then None else tc_CipherSuites c) of
           Some suites \<Rightarrow>
             if \<not> list_ex (\<lambda>cs. cs \<in> set required_ciphers) suites then None
             else Some (add_proto ''http/1.1'' (add_proto ''h2'' (c\<lparr>tc_PreferServerCipherSuites := True\<rparr>)))
         | None \<Rightarrow> Some (add_proto ''http/1.1'' (add_proto ''h2'' (c\<lparr>tc_PreferServerCipherSuites := True\<rparr>))))"

text \<open>The idle timeout of ConfigureServer, from the two timeouts of the HTTP/1 server.\<close>

definition configure_idle :: "int \<Rightarrow> int \<Rightarrow> h2_config \<Rightarrow> h2_config" where
  "configure_idle h1_IdleTimeout h1_ReadTimeout conf =
     (if cf_IdleTimeout conf = 0
      then conf\<lparr>cf_IdleTimeout := if h1_IdleTimeout \<noteq> 0 then h1_IdleTimeout else h1_ReadTimeout\<rparr>
      else conf)"

section \<open>The frames to write\<close>

datatype write_framer =
  FlushFrame
| SettingsWrite "setting list"
| WindowUpdateWrite "32 word" "32 word"

text \<open>The stream of a request is known by its identifier.\<close>

record frame_write =
  fw_write :: write_framer
  fw_stream :: "32 word option"

definition fw_StreamID :: "frame_write \<Rightarrow> 32 word" where
  "fw_StreamID wr = (case fw_stream wr of None \<Rightarrow> 0 | Some sid \<Rightarrow> sid)"

definition fw_DataSize :: "frame_write \<Rightarrow> nat" where
  "fw_DataSize wr = 0"

definition isControl :: "frame_write \<Rightarrow> bool" where
  "isControl wr = (fw_stream wr = None)"

fun staysWithinBuffer :: "write_framer \<Rightarrow> nat \<Rightarrow> bool" where
  "staysWithinBuffer FlushFrame mx = False"
| "staysWithinBuffer (SettingsWrite ss) mx = (frameHeaderLen + 6 * length ss \<le> mx)"
| "staysWithinBuffer (WindowUpdateWrite sid n) mx = (frameHeaderLen + 4 \<le> mx)"

type_synonym write_queue = "frame_write list"

definition queue_push :: "frame_write \<Rightarrow> write_queue \<Rightarrow> write_queue" where
  "queue_push wr q = q @ [wr]"

definition queue_shift :: "write_queue \<Rightarrow> (frame_write \<times> write_queue) go" where
  "queue_shift q = (case q of [] \<Rightarrow> Panic ''invalid use of queue'' | wr # q' \<Rightarrow> Ret (wr, q'))"

record rr_scheduler =
  rr_control :: write_queue
  rr_streams :: "(32 word, write_queue) gomap"

definition rr_new :: rr_scheduler where
  "rr_new = \<lparr>rr_control = [], rr_streams = []\<rparr>"

definition rr_Push :: "frame_write \<Rightarrow> rr_scheduler \<Rightarrow> rr_scheduler go" where
  "rr_Push wr ws =
     (if isControl wr then Ret (ws\<lparr>rr_control := queue_push wr (rr_control ws)\<rparr>)
      else (case map_of (rr_streams ws) (fw_StreamID wr) of
              None \<Rightarrow>
                if fw_DataSize wr > 0 then Panic ''add DATA on non-open stream''
                else Ret (ws\<lparr>rr_control := queue_push wr (rr_control ws)\<rparr>)
            | Some q \<Rightarrow> Ret (ws\<lparr>rr_streams := AList.update (fw_StreamID wr) (queue_push wr q) (rr_streams ws)\<rparr>)))"

definition rr_Pop :: "rr_scheduler \<Rightarrow> (frame_write \<times> rr_scheduler) option go" where
  "rr_Pop ws =
     (if rr_control ws \<noteq> [] then
        go_bind (queue_shift (rr_control ws)) (\<lambda>(wr, q). Ret (Some (wr, ws\<lparr>rr_control := q\<rparr>)))
      else Ret None)"

section \<open>The write path of a connection\<close>

text \<open>
  The buffered writer is allocated by its first write; \<open>sc_bw\<close> is its buffer, and \<open>sc_out\<close> what
  the connection has received.
\<close>

definition bufWriterSize :: nat where "bufWriterSize = 4096"

record server_conn =
  sc_bw :: "string option"
  sc_out :: string
  sc_closed :: bool
  sc_sched :: rr_scheduler
  sc_flow :: "32 word"
  sc_inflow :: inflow
  sc_unackedSettings :: int
  sc_queuedControlFrames :: "64 word"
  sc_advMaxStreams :: "32 word"
  sc_writingFrame :: bool
  sc_writingFrameAsync :: bool
  sc_needsFrameFlush :: bool
  sc_inGoAway :: bool
  sc_inFrameScheduleLoop :: bool

text \<open>Write of bufio.Writer on a buffer and the output behind it.\<close>

definition buf_write :: "string \<Rightarrow> string \<times> string \<Rightarrow> string \<times> string" where
  "buf_write p = (\<lambda>(buf, out).
     (let room = bufWriterSize - length buf
      in if length p \<le> room then (buf @ p, out)
         else if buf = [] then ([], out @ p)
         else (let p' = drop room p; out' = out @ buf @ take room p
               in if length p' > bufWriterSize then ([], out' @ p') else (p', out'))))"

definition bw_wire :: "server_conn wire" where
  "bw_wire p sc =
     (case buf_write p (case sc_bw sc of None \<Rightarrow> [] | Some b \<Rightarrow> b, sc_out sc) of
        (b, out) \<Rightarrow> (sc\<lparr>sc_bw := Some b, sc_out := out\<rparr>, length p, None))"

definition bw_Flush :: "server_conn \<Rightarrow> server_conn go" where
  "bw_Flush sc =
     (case sc_bw sc of
        None \<Rightarrow> Panic ''nil pointer dereference''
      | Some b \<Rightarrow> Ret (sc\<lparr>sc_bw := Some [], sc_out := sc_out sc @ b\<rparr>))"

fun do_writeFrame :: "write_framer \<Rightarrow> server_conn \<Rightarrow> server_conn go" where
  "do_writeFrame FlushFrame sc = bw_Flush sc"
| "do_writeFrame (SettingsWrite ss) sc = Ret (fst (WriteSettings bw_wire ss sc))"
| "do_writeFrame (WindowUpdateWrite sid n) sc = Ret (fst (WriteWindowUpdate False bw_wire sid n sc))"

text \<open>It is called within the loop of scheduleFrameWrite only, so its own call of it returns at once.\<close>

definition wroteFrame :: "server_conn \<Rightarrow> server_conn go" where
  "wroteFrame sc =
     (if \<not> sc_writingFrame sc then Panic ''internal error: expected to be already writing a frame''
      else Ret (sc\<lparr>sc_writingFrame := False, sc_writingFrameAsync := False\<rparr>))"

text \<open>A frame that does not fit into the buffer is not written, as the source has it.\<close>

definition startFrameWrite :: "frame_write \<Rightarrow> server_conn \<Rightarrow> server_conn go" where
  "startFrameWrite wr sc =
     (if sc_writingFrame sc then Panic ''internal error: can only be writing one frame at a time''
      else (let sc1 = sc\<lparr>sc_writingFrame := True, sc_needsFrameFlush := True\<rparr>
            in case sc_bw sc1 of
                 None \<Rightarrow> Panic ''nil pointer dereference''
               | Some b \<Rightarrow>
                   if staysWithinBuffer (fw_write wr) (bufWriterSize - length b) then
                     go_bind (do_writeFrame (fw_write wr) (sc1\<lparr>sc_writingFrameAsync := False\<rparr>)) wroteFrame
                   else Ret sc1))"

lemma WriteFrame_sched:
  "do_writeFrame w sc = Ret sc' \<Longrightarrow> sc_sched sc' = sc_sched sc"
  by (cases w)
    (auto simp: bw_Flush_def WriteSettings_def WriteWindowUpdate_def endWrite_def Let_def bw_wire_def
      split: option.splits prod.splits)

lemma startFrameWrite_sched:
  "startFrameWrite wr sc = Ret sc' \<Longrightarrow> sc_sched sc' = sc_sched sc"
  by (auto simp: startFrameWrite_def Let_def go_bind_Ret wroteFrame_def dest!: WriteFrame_sched
      split: if_splits option.splits)

function schedule_loop :: "server_conn \<Rightarrow> server_conn go" where
  "schedule_loop sc =
     (if sc_writingFrameAsync sc then Ret sc
      else (case (if sc_inGoAway sc then Ret None else rr_Pop (sc_sched sc)) of
              Panic m \<Rightarrow> Panic m
            | Ret (Some (wr, ws)) \<Rightarrow>
                (case startFrameWrite wr (sc\<lparr>sc_sched := ws, sc_queuedControlFrames :=
                         (if isControl wr then sc_queuedControlFrames sc - 1 else sc_queuedControlFrames sc)\<rparr>) of
                   Panic m \<Rightarrow> Panic m
                 | Ret sc' \<Rightarrow> schedule_loop sc')
            | Ret None \<Rightarrow>
                if sc_needsFrameFlush sc then
                  (case startFrameWrite \<lparr>fw_write = FlushFrame, fw_stream = None\<rparr> sc of
                     Panic m \<Rightarrow> Panic m
                   | Ret sc' \<Rightarrow> schedule_loop (sc'\<lparr>sc_needsFrameFlush := False\<rparr>))
                else Ret sc))"
  by pat_completeness auto
termination
  by (relation "measure (\<lambda>sc. 2 * length (rr_control (sc_sched sc)) + (if sc_needsFrameFlush sc then 1 else 0))")
    (auto dest!: startFrameWrite_sched[OF sym] startFrameWrite_sched
      simp: rr_Pop_def queue_shift_def go_bind_Ret split: if_splits list.splits)

declare schedule_loop.simps [simp del]

definition scheduleFrameWrite :: "server_conn \<Rightarrow> server_conn go" where
  "scheduleFrameWrite sc =
     (if sc_writingFrame sc \<or> sc_inFrameScheduleLoop sc then Ret sc
      else go_bind (schedule_loop (sc\<lparr>sc_inFrameScheduleLoop := True\<rparr>))
             (\<lambda>sc'. Ret (sc'\<lparr>sc_inFrameScheduleLoop := False\<rparr>)))"

text \<open>A counter of control frames that wraps around closes the connection.\<close>

definition sc_writeFrame :: "frame_write \<Rightarrow> server_conn \<Rightarrow> server_conn go" where
  "sc_writeFrame wr sc =
     (let sc1 = (if isControl wr then
                   (let sc0 = sc\<lparr>sc_queuedControlFrames := sc_queuedControlFrames sc + 1\<rparr>
                    in if sc_queuedControlFrames sc0 <s 0 then sc0\<lparr>sc_closed := True\<rparr> else sc0)
                 else sc)
      in go_bind (rr_Push wr (sc_sched sc1)) (\<lambda>ws. scheduleFrameWrite (sc1\<lparr>sc_sched := ws\<rparr>)))"

text \<open>An update for the connection; a stream has its own window, given and returned.\<close>

definition sendWindowUpdate_conn :: "64 word \<Rightarrow> server_conn \<Rightarrow> server_conn go" where
  "sendWindowUpdate_conn n sc =
     go_bind (inflow_add n (sc_inflow sc)) (\<lambda>(fl, snd).
       (let sc1 = sc\<lparr>sc_inflow := fl\<rparr>
        in if snd = 0 then Ret sc1
           else sc_writeFrame \<lparr>fw_write = WindowUpdateWrite 0 snd, fw_stream = None\<rparr> sc1))"

definition sendWindowUpdate_stream :: "32 word \<Rightarrow> inflow \<Rightarrow> 64 word \<Rightarrow> server_conn \<Rightarrow> (inflow \<times> server_conn) go" where
  "sendWindowUpdate_stream sid infl n sc =
     go_bind (inflow_add n infl) (\<lambda>(fl, snd).
       if snd = 0 then Ret (fl, sc)
       else go_bind (sc_writeFrame \<lparr>fw_write = WindowUpdateWrite sid snd, fw_stream = Some sid\<rparr> sc) (\<lambda>sc'. Ret (fl, sc')))"

section \<open>Serving a connection\<close>

definition initial_settings :: "h2_config \<Rightarrow> int \<Rightarrow> server_conn \<Rightarrow> setting list" where
  "initial_settings srv maxHeaderBytes sc =
     [\<lparr>set_ID = SettingMaxFrameSize, set_Val = maxReadFrameSize srv\<rparr>,
      \<lparr>set_ID = SettingMaxConcurrentStreams, set_Val = sc_advMaxStreams sc\<rparr>,
      \<lparr>set_ID = SettingMaxHeaderListSize, set_Val = sc_maxHeaderListSize maxHeaderBytes\<rparr>,
      \<lparr>set_ID = SettingHeaderTableSize, set_Val = maxDecoderHeaderTableSize srv\<rparr>,
      \<lparr>set_ID = SettingInitialWindowSize, set_Val = initialStreamRecvWindowSize srv\<rparr>]"

definition serve :: "h2_config \<Rightarrow> int \<Rightarrow> server_conn \<Rightarrow> server_conn go" where
  "serve srv maxHeaderBytes sc =
     go_bind (sc_writeFrame \<lparr>fw_write = SettingsWrite (initial_settings srv maxHeaderBytes sc), fw_stream = None\<rparr> sc) (\<lambda>sc1.
       (let sc2 = sc1\<lparr>sc_unackedSettings := sc_unackedSettings sc1 + 1\<rparr>;
            diff = initialConnRecvWindowSize srv - initialWindowSize
        in go_bind (if 0 <s diff then sendWindowUpdate_conn (scast diff) sc2 else Ret sc2) (\<lambda>sc3.
             Ret (sc3\<lparr>sc_closed := True\<rparr>))))"

definition rejectConn :: "err_code \<Rightarrow> string \<Rightarrow> server_conn \<Rightarrow> server_conn go" where
  "rejectConn err dbg sc =
     go_bind (bw_Flush (fst (WriteGoAway bw_wire 0 err dbg sc))) (\<lambda>sc'. Ret (sc'\<lparr>sc_closed := True\<rparr>))"

definition new_conn :: "h2_config \<Rightarrow> server_conn" where
  "new_conn s =
     \<lparr>sc_bw = None, sc_out = [], sc_closed = False, sc_sched = rr_new,
      sc_flow = fst (outflow_add initialWindowSize 0), sc_inflow = inflow_init initialWindowSize inflow_zero,
      sc_unackedSettings = 0, sc_queuedControlFrames = 0, sc_advMaxStreams = maxConcurrentStreams s,
      sc_writingFrame = False, sc_writingFrameAsync = False, sc_needsFrameFlush = False, sc_inGoAway = False,
      sc_inFrameScheduleLoop = False\<rparr>"

text \<open>The TLS state, if any, is the version and the cipher suite; \<open>hex\<close> prints a suite.\<close>

definition ServeConn :: "(16 word \<Rightarrow> string) \<Rightarrow> h2_config \<Rightarrow> int \<Rightarrow> (16 word \<times> 16 word) option \<Rightarrow> server_conn go" where
  "ServeConn hex s maxHeaderBytes tls =
     (let sc = new_conn s
      in case tls of
           None \<Rightarrow> serve s maxHeaderBytes sc
         | Some (version, suite) \<Rightarrow>
             if version < VersionTLS12 then rejectConn ErrCodeInadequateSecurity ''TLS version too low'' sc
             else if \<not> cf_PermitProhibitedCipherSuites s \<and> isBadCipher suite then
               rejectConn ErrCodeInadequateSecurity (''Prohibited TLS 1.2 Cipher Suite: '' @ hex suite) sc
             else serve s maxHeaderBytes sc)"

end
