(* ===== verification/Go_Queue.thy ===== *)
theory Go_Queue
  imports Go_Prelude
begin

text \<open>
  The contract of a first in, first out queue, for the clients that rely on the order only: the scheduler of
  HTTP/2 and the queues of waiting dials and requests of the transport interpret it.
\<close>

locale fifo =
  fixes push :: "'x \<Rightarrow> 's \<Rightarrow> 's go"
    and pop :: "'s \<Rightarrow> ('x \<times> 's) option go"
    and content :: "'s \<Rightarrow> 'x list"
    and valid :: "'s \<Rightarrow> bool"
  assumes push_law: "valid s \<Longrightarrow> \<exists>s'. push x s = Ret s' \<and> valid s' \<and> content s' = content s @ [x]"
    and pop_empty: "valid s \<Longrightarrow> content s = [] \<Longrightarrow> pop s = Ret None"
    and pop_law: "valid s \<Longrightarrow> content s = x # xs \<Longrightarrow> \<exists>s'. pop s = Ret (Some (x, s')) \<and> valid s' \<and> content s' = xs"
begin

fun push_all :: "'x list \<Rightarrow> 's \<Rightarrow> 's go" where
  "push_all [] s = Ret s"
| "push_all (x # xs) s = go_bind (push x s) (push_all xs)"

fun pop_all :: "nat \<Rightarrow> 's \<Rightarrow> 'x list go" where
  "pop_all 0 s = Ret []"
| "pop_all (Suc n) s =
     go_bind (pop s) (\<lambda>r. case r of
        None \<Rightarrow> Ret []
      | Some (x, s') \<Rightarrow> go_bind (pop_all n s') (\<lambda>xs. Ret (x # xs)))"

lemma push_all_content:
  "valid s \<Longrightarrow> \<exists>s'. push_all xs s = Ret s' \<and> valid s' \<and> content s' = content s @ xs"
proof (induction xs arbitrary: s)
  case (Cons x xs)
  obtain s1 where s1: "push x s = Ret s1" "valid s1" "content s1 = content s @ [x]"
    using push_law[OF Cons.prems] by blast
  from Cons.IH[OF s1(2)] show ?case using s1 by auto
qed simp

lemma pop_all_content: "valid s \<Longrightarrow> pop_all n s = Ret (take n (content s))"
proof (induction n arbitrary: s)
  case (Suc n)
  show ?case
  proof (cases "content s")
    case Nil
    then show ?thesis using pop_empty[OF Suc.prems] by simp
  next
    case (Cons x xs)
    then obtain s' where "pop s = Ret (Some (x, s'))" "valid s'" "content s' = xs"
      using pop_law[OF Suc.prems] by blast
    then show ?thesis using Suc.IH Cons by simp
  qed
qed simp

lemma in_order:
  "valid s \<Longrightarrow> content s = [] \<Longrightarrow> go_bind (push_all xs s) (pop_all (length xs)) = Ret xs"
  using push_all_content[of s xs] pop_all_content by auto

end

end
