(* ===== verification/H2_Server_Correct.thy ===== *)
theory H2_Server_Correct
  imports H2_Server Go_Queue
begin

text \<open>
  Correctness of the server side of HTTP/2: the bounds of the configuration, the order of the scheduler, and
  what ServeConn does with a connection.
\<close>

section \<open>Configuration\<close>

lemma config_bounds:
  "minMaxFrameSize \<le> maxReadFrameSize s" "maxReadFrameSize s \<le> maxFrameSize"
  "initialWindowSize <=s initialConnRecvWindowSize s" "0 <s initialStreamRecvWindowSize s"
  "0 < maxConcurrentStreams s" "0 < maxDecoderHeaderTableSize s" "0 < maxEncoderHeaderTableSize s"
  by (auto simp: maxReadFrameSize_def minMaxFrameSize_def maxFrameSize_def defaultMaxReadFrameSize_def
      initialConnRecvWindowSize_def initialWindowSize_def initialStreamRecvWindowSize_def maxConcurrentStreams_def
      defaultMaxStreams_def maxDecoderHeaderTableSize_def maxEncoderHeaderTableSize_def initialHeaderTableSize_def
      Let_def word_sle_eq word_sless_alt)

lemma add_proto_keeps:
  "set (tc_NextProtos (add_proto p c)) = insert p (set (tc_NextProtos c))"
  "tc_CipherSuites (add_proto p c) = tc_CipherSuites c"
  by (auto simp: add_proto_def strSliceContains_def list_ex_iff)

lemma configure_tls_protos:
  assumes "configure_tls (Some c) = Some c'"
  shows "set (tc_NextProtos c') = {''h2'', ''http/1.1''} \<union> set (tc_NextProtos c)"
    and "tc_MinVersion c < VersionTLS13 \<Longrightarrow> tc_CipherSuites c = Some suites \<Longrightarrow>
      \<exists>cs\<in>set suites. cs \<in> set required_ciphers"
  using assms
  by (auto simp: configure_tls_def add_proto_keeps list_ex_iff split: if_splits option.splits)

section \<open>The scheduler is first in, first out\<close>

text \<open>No stream is ever opened in the scheduler, so every frame goes to the control queue.\<close>

interpretation rr: fifo rr_Push rr_Pop rr_control "\<lambda>ws. rr_streams ws = []"
  by unfold_locales
    (auto simp: rr_Push_def queue_push_def fw_DataSize_def rr_Pop_def queue_shift_def)

lemma scheduler_in_order:
  "go_bind (rr.push_all frames rr_new) (rr.pop_all (length frames)) = Ret frames"
  by (rule rr.in_order) (simp_all add: rr_new_def)

section \<open>What is written\<close>

lemma bw_endWrite:
  assumes "length p < 2 ^ 24"
  shows "endWrite bw_wire (startWrite t fl sid @ p) sc = (fst (bw_wire (frame_bytes t fl sid p) sc), None)"
  using assms
  by (simp add: endWrite_def startWrite_def frameHeaderLen_def Let_def frame_bytes_def bw_wire_def split: prod.split)

lemma length_frame_bytes: "length (frame_bytes t fl sid p) = 9 + length p"
  by (simp add: frame_bytes_def Let_def)

lemma rejectConn_out:
  assumes "sc_bw sc = None" and "length dbg < 4000"
  shows "rejectConn code dbg sc = Ret (sc\<lparr>sc_bw := Some [], sc_closed := True,
     sc_out := sc_out sc @ frame_bytes FrameGoAway 0 0 (put32 0 @ put32 code @ dbg)\<rparr>)"
proof -
  have "length (put32 0 @ put32 code @ dbg) < 2 ^ 24" using assms(2) by simp
  from bw_endWrite[OF this, of FrameGoAway 0 0 sc]
  have "WriteGoAway bw_wire 0 code dbg sc = (fst (bw_wire (frame_bytes FrameGoAway 0 0 (put32 0 @ put32 code @ dbg)) sc), None)"
    by (simp add: WriteGoAway_def)
  then show ?thesis
    using assms by (simp add: rejectConn_def bw_wire_def buf_write_def bufWriterSize_def length_frame_bytes bw_Flush_def)
qed

lemma panics_bind: "panics x \<Longrightarrow> panics (go_bind x f)"
  by (cases x) auto

lemma fresh_write_panics:
  assumes "sc_bw sc = None" and "\<not> sc_writingFrame sc" and "\<not> sc_writingFrameAsync sc" and "\<not> sc_inGoAway sc"
    and "\<not> sc_inFrameScheduleLoop sc" and "rr_streams (sc_sched sc) = []"
  shows "panics (sc_writeFrame wr sc)"
proof -
  have "panics (schedule_loop sc')"
    if "sc_bw sc' = None" "\<not> sc_writingFrame sc'" "\<not> sc_writingFrameAsync sc'" "\<not> sc_inGoAway sc'"
      "rr_control (sc_sched sc') \<noteq> []" for sc'
    using that
    by (auto simp: schedule_loop.simps[of sc'] rr_Pop_def queue_shift_def startFrameWrite_def split: list.splits)
  then show ?thesis
    using assms
    by (auto simp: sc_writeFrame_def Let_def rr_Push_def queue_push_def fw_DataSize_def scheduleFrameWrite_def
        intro!: panics_bind)
qed

lemma serve_panics: "panics (serve s n (new_conn s))"
proof -
  have "panics (sc_writeFrame wr (new_conn s))" for wr
    by (rule fresh_write_panics) (simp_all add: new_conn_def rr_new_def)
  then show ?thesis unfolding serve_def by (rule panics_bind)
qed

definition weak_tls :: "h2_config \<Rightarrow> (16 word \<times> 16 word) option \<Rightarrow> bool" where
  "weak_tls s tls =
     (case tls of
        None \<Rightarrow> False
      | Some (version, suite) \<Rightarrow>
          version < VersionTLS12 \<or> \<not> cf_PermitProhibitedCipherSuites s \<and> isBadCipher suite)"

text \<open>
  C39: ServeConn answers a connection with inadequate TLS parameters with one GOAWAY frame that says so, and closes
  it.  On every other connection, and for every configuration, it panics: the room in the buffer is
  asked of a buffered writer that has not been allocated yet, as nothing has been written.\<close>

theorem ServeConn_outcome:
  assumes "\<forall>c. length (hex c) < 3000"
  shows "if weak_tls s tls
     then \<exists>sc dbg. ServeConn hex s n tls = Ret sc \<and> sc_closed sc \<and>
       sc_out sc = frame_bytes FrameGoAway 0 0 (put32 0 @ put32 ErrCodeInadequateSecurity @ dbg)
     else panics (ServeConn hex s n tls)"
proof (cases "weak_tls s tls")
  case True
  then obtain version suite where tls: "tls = Some (version, suite)"
    and weak: "version < VersionTLS12 \<or> \<not> cf_PermitProhibitedCipherSuites s \<and> isBadCipher suite"
    by (auto simp: weak_tls_def split: option.splits)
  let ?sc = "new_conn s"
  have fresh: "sc_bw ?sc = None" "sc_out ?sc = []" by (simp_all add: new_conn_def)
  define dbg where "dbg = (if version < VersionTLS12 then ''TLS version too low''
      else ''Prohibited TLS 1.2 Cipher Suite: '' @ hex suite)"
  have "length dbg < 4000" using assms[rule_format, of suite] by (simp add: dbg_def)
  note out = rejectConn_out[OF fresh(1) this, of ErrCodeInadequateSecurity]
  have "ServeConn hex s n tls = rejectConn ErrCodeInadequateSecurity dbg ?sc"
    using weak tls by (auto simp: ServeConn_def dbg_def Let_def)
  then show ?thesis using True out fresh(2) by auto
next
  case False
  then show ?thesis
    using serve_panics by (auto simp: ServeConn_def weak_tls_def Let_def split: option.splits)
qed

definition default_config :: h2_config where
  "default_config =
     \<lparr>cf_MaxConcurrentStreams = 0, cf_MaxDecoderHeaderTableSize = 0, cf_MaxEncoderHeaderTableSize = 0,
      cf_MaxReadFrameSize = 0, cf_PermitProhibitedCipherSuites = False, cf_IdleTimeout = 0,
      cf_MaxUploadBufferPerConnection = 0, cf_MaxUploadBufferPerStream = 0\<rparr>"

theorem ServeConn_outcome_witness:
  "panics (ServeConn (\<lambda>c. []) default_config 0 None) \<and>
   (\<exists>sc. ServeConn (\<lambda>c. []) default_config 0 (Some (0x0303, 0x0005)) = Ret sc \<and> sc_closed sc)"
proof
  have short: "\<forall>c. length ((\<lambda>c :: 16 word. [] :: string) c) < 3000" by simp
  show "panics (ServeConn (\<lambda>c. []) default_config 0 None)"
    using ServeConn_outcome[OF short, of default_config None 0] by (simp add: weak_tls_def)
  have "weak_tls default_config (Some (0x0303, 0x0005))"
    by (simp add: weak_tls_def default_config_def isBadCipher_def bad_cipher_ranges_def)
  with ServeConn_outcome[OF short, of default_config "Some (0x0303, 0x0005)" 0]
  show "\<exists>sc. ServeConn (\<lambda>c. []) default_config 0 (Some (0x0303, 0x0005)) = Ret sc \<and> sc_closed sc" by auto
qed

section \<open>A connection that has a buffer\<close>

text \<open>The first frame reaches the buffer; the flush that follows never runs, and no later frame is written.\<close>

fun write_frames :: "frame_write list \<Rightarrow> server_conn \<Rightarrow> server_conn go" where
  "write_frames [] sc = Ret sc"
| "write_frames (wr # wrs) sc = go_bind (sc_writeFrame wr sc) (write_frames wrs)"

lemma writing_blocks:
  assumes "sc_writingFrame sc" and "sc_writeFrame wr sc = Ret sc'"
  shows "sc_writingFrame sc' \<and> sc_out sc' = sc_out sc \<and> sc_bw sc' = sc_bw sc"
  using assms
  by (auto simp: sc_writeFrame_def Let_def go_bind_Ret scheduleFrameWrite_def split: if_splits)

lemma writing_blocks_all:
  assumes "sc_writingFrame sc" and "write_frames wrs sc = Ret sc'"
  shows "sc_writingFrame sc' \<and> sc_out sc' = sc_out sc \<and> sc_bw sc' = sc_bw sc"
  using assms by (induction wrs arbitrary: sc) (auto simp: go_bind_Ret dest: writing_blocks)

text \<open>The state of a connection that has a buffer and writes nothing.\<close>

definition idle_conn :: "string \<Rightarrow> server_conn \<Rightarrow> bool" where
  "idle_conn b sc \<longleftrightarrow> sc_bw sc = Some b \<and> \<not> sc_writingFrame sc \<and> \<not> sc_writingFrameAsync sc \<and>
     \<not> sc_inGoAway sc \<and> \<not> sc_inFrameScheduleLoop sc \<and> \<not> sc_needsFrameFlush sc \<and> sc_sched sc = rr_new"

lemma first_settings_write:
  assumes "idle_conn b sc" and "9 + 6 * length ss \<le> bufWriterSize - length b"
    and "sc_writeFrame \<lparr>fw_write = SettingsWrite ss, fw_stream = None\<rparr> sc = Ret sc'"
  shows "sc_writingFrame sc' \<and> sc_out sc' = sc_out sc \<and>
    sc_bw sc' = Some (b @ frame_bytes FrameSettings 0 0 (settings_payload ss))"
proof -
  let ?fb = "frame_bytes FrameSettings 0 0 (settings_payload ss)"
  let ?wr = "\<lparr>fw_write = SettingsWrite ss, fw_stream = None\<rparr>"
  have len: "length (settings_payload ss) < 2 ^ 24"
    using assms(2) by (simp add: length_settings_payload bufWriterSize_def)
  have fits: "length ?fb \<le> bufWriterSize - length b"
    using assms(2) by (simp add: length_frame_bytes length_settings_payload)
  have wrt: "fst (WriteSettings bw_wire ss sc0) = sc0\<lparr>sc_bw := Some (b @ ?fb), sc_out := sc_out sc0\<rparr>"
    if "sc_bw sc0 = Some b" for sc0
    using that fits unfolding WriteSettings_def bw_endWrite[OF len] by (simp add: bw_wire_def buf_write_def)
  have start: "startFrameWrite ?wr sc0 =
      Ret (sc0\<lparr>sc_writingFrame := False, sc_needsFrameFlush := True, sc_writingFrameAsync := False, sc_bw := Some (b @ ?fb)\<rparr>)"
    if "sc_bw sc0 = Some b" "\<not> sc_writingFrame sc0" for sc0
    using that assms(2) by (simp add: startFrameWrite_def Let_def frameHeaderLen_def wrt wroteFrame_def)
  have flush: "startFrameWrite \<lparr>fw_write = FlushFrame, fw_stream = None\<rparr> sc0 =
      Ret (sc0\<lparr>sc_writingFrame := True, sc_needsFrameFlush := True\<rparr>)"
    if "sc_bw sc0 = Some b'" "\<not> sc_writingFrame sc0" for sc0 b'
    using that by (simp add: startFrameWrite_def Let_def)
  have stop: "schedule_loop sc0 = Ret sc0"
    if "\<not> sc_writingFrameAsync sc0" "\<not> sc_needsFrameFlush sc0" "rr_control (sc_sched sc0) = []" "\<not> sc_inGoAway sc0" for sc0
    using that by (simp add: schedule_loop.simps[of sc0] rr_Pop_def)
  have second: "schedule_loop sc0 = Ret (sc0\<lparr>sc_writingFrame := True, sc_needsFrameFlush := False\<rparr>)"
    if "sc_bw sc0 = Some b'" "\<not> sc_writingFrame sc0" "\<not> sc_writingFrameAsync sc0" "sc_needsFrameFlush sc0"
      "rr_control (sc_sched sc0) = []" "\<not> sc_inGoAway sc0" for sc0 b'
    using that flush[OF that(1,2)] by (simp add: schedule_loop.simps[of sc0] rr_Pop_def stop)
  have first: "sc_writingFrame a \<and> sc_out a = sc_out sc0 \<and> sc_bw a = Some (b @ ?fb)"
    if "schedule_loop sc0 = Ret a" "sc_bw sc0 = Some b" "\<not> sc_writingFrame sc0" "\<not> sc_writingFrameAsync sc0"
      "rr_control (sc_sched sc0) = [?wr]" "\<not> sc_inGoAway sc0" for sc0 a
    using that by (auto simp: schedule_loop.simps[of sc0] rr_Pop_def queue_shift_def start second)
  show ?thesis
    using assms(1,3)
    by (auto simp: idle_conn_def sc_writeFrame_def Let_def isControl_def rr_Push_def queue_push_def rr_new_def
        scheduleFrameWrite_def go_bind_Ret split: if_splits dest!: first)
qed

text \<open>On a connection whose buffer is allocated, the first SETTINGS frame reaches the buffer only: whatever
  frames are written after it, none of them reaches the buffer, and nothing ever reaches the connection.\<close>

lemma frames_stuck:
  assumes "idle_conn b sc" and "9 + 6 * length ss \<le> bufWriterSize - length b"
    and "write_frames (\<lparr>fw_write = SettingsWrite ss, fw_stream = None\<rparr> # wrs) sc = Ret sc'"
  shows "sc_out sc' = sc_out sc \<and> sc_bw sc' = Some (b @ frame_bytes FrameSettings 0 0 (settings_payload ss))"
proof -
  obtain sc1 where w1: "sc_writeFrame \<lparr>fw_write = SettingsWrite ss, fw_stream = None\<rparr> sc = Ret sc1"
    and rest: "write_frames wrs sc1 = Ret sc'"
    using assms(3) by (auto simp: go_bind_Ret)
  note f = first_settings_write[OF assms(1,2) w1]
  with writing_blocks_all[OF _ rest] show ?thesis by simp
qed

end
