(* ===== verification/H2_Uint.thy ===== *)
theory H2_Uint
  imports Go_Strconv
begin

text \<open>
  http2parseUintBytes and http2cutoff64 (src/http/h2_bundle.go), at the width of 64 bits, and their agreement with
  ParseUint of the package strconv in base 10.
\<close>

datatype uint_error = UintErr num_error | InvalidBase int

definition cutoff64 :: "nat \<Rightarrow> 64 word" where
  "cutoff64 base = (if base < 2 then 0 else (- 1) div of_nat base + 1)"

definition byte_digit :: "char \<Rightarrow> nat option" where
  "byte_digit d =
     (if in_range (CHR ''0'') (CHR ''9'') d then Some (of_char d - 48)
      else if in_range (CHR ''a'') (CHR ''z'') d then Some (of_char d - 97 + 10)
      else if in_range (CHR ''A'') (CHR ''Z'') d then Some (of_char d - 65 + 10)
      else None)"

fun uint_bytes_loop :: "nat \<Rightarrow> 64 word \<Rightarrow> 64 word \<Rightarrow> string \<Rightarrow> 64 word \<times> num_error option" where
  "uint_bytes_loop base maxVal n [] = (n, None)"
| "uint_bytes_loop base maxVal n (d # s) =
     (case byte_digit d of
        None \<Rightarrow> (0, Some ErrSyntax)
      | Some v \<Rightarrow>
          if v \<ge> base then (0, Some ErrSyntax)
          else if n \<ge> cutoff64 base then (- 1, Some ErrRange)
          else (let m = n * of_nat base; n1 = m + of_nat v
                in if n1 < m \<or> n1 > maxVal then (- 1, Some ErrRange) else uint_bytes_loop base maxVal n1 s))"

text \<open>The base and the rest of the text: a base of 0 is chosen by the prefix.\<close>

definition uint_base :: "int \<Rightarrow> string \<Rightarrow> uint_error + nat \<times> string" where
  "uint_base base s =
     (if s = [] then Inl (UintErr ErrSyntax)
      else if 2 \<le> base \<and> base \<le> 36 then Inr (nat base, s)
      else if base = 0 then
        (if hd s = CHR ''0'' \<and> length s > 1 \<and> (s ! 1 = CHR ''x'' \<or> s ! 1 = CHR ''X'') then
           (if length (drop 2 s) < 1 then Inl (UintErr ErrSyntax) else Inr (16, drop 2 s))
         else if hd s = CHR ''0'' then Inr (8, s)
         else Inr (10, s))
      else Inl (InvalidBase base))"

definition parseUintBytes :: "string \<Rightarrow> int \<Rightarrow> nat \<Rightarrow> 64 word \<times> uint_error option" where
  "parseUintBytes s base bitSize =
     (case uint_base base s of
        Inl e \<Rightarrow> (0, Some e)
      | Inr (b, s') \<Rightarrow>
          map_prod id (map_option UintErr)
            (uint_bytes_loop b (push_bit (if bitSize = 0 then 64 else bitSize) 1 - 1) 0 s'))"

text \<open>curGoroutineID, on what runtime.Stack wrote: the number between the first word and the next space.\<close>

definition curGoroutineID :: "string \<Rightarrow> (64 word) go" where
  "curGoroutineID b0 =
     (let b = (if has_prefix b0 ''goroutine '' then drop (length ''goroutine '') b0 else b0)
      in case index_byte (CHR '' '') b of
           None \<Rightarrow> Panic ''No space found''
         | Some i \<Rightarrow>
             (case parseUintBytes (take i b) 10 64 of
                (n, None) \<Rightarrow> Ret n
              | (n, Some e) \<Rightarrow> Panic ''Failed to parse goroutine ID''))"

section \<open>Agreement with ParseUint\<close>

lemma cutoff_10: "cutoff64 10 = 1844674407370955162"
  by (simp add: cutoff64_def)

lemma step_10:
  fixes n :: "64 word"
  assumes "v < 10"
  shows "(n \<ge> cutoff64 10 \<or> n * 10 + of_nat v < n * 10 \<or> n * 10 + of_nat v > - 1) \<longleftrightarrow> 2 ^ 64 \<le> unat n * 10 + v"
    and "unat n * 10 + v < 2 ^ 64 \<Longrightarrow> unat (n * 10 + of_nat v) = unat n * 10 + v"
proof -
  have cut: "n \<ge> cutoff64 10 \<longleftrightarrow> 2 ^ 64 \<le> unat n * 10"
    by (auto simp: cutoff_10 word_le_nat_alt)
  have v: "unat (of_nat v :: 64 word) = v" using assms by (simp add: unat_of_nat)
  have mul: "unat (n * 10) = unat n * 10" if "unat n * 10 < 2 ^ 64"
    using that by (simp add: unat_word_ariths)
  show add: "unat (n * 10 + of_nat v) = unat n * 10 + v" if "unat n * 10 + v < 2 ^ 64"
    using that mul v by (subst unat_word_ariths) simp
  have over: "n * 10 + of_nat v < n * 10" if "unat n * 10 < 2 ^ 64" "2 ^ 64 \<le> unat n * 10 + v"
  proof -
    have "unat (n * 10 + of_nat v) = (unat n * 10 + v) mod 2 ^ 64"
      using mul[OF that(1)] v by (subst unat_word_ariths) simp
    also have "\<dots> = unat n * 10 + v - 2 ^ 64" using that assms by (simp add: mod_if)
    finally have "unat (n * 10 + of_nat v) < unat (n * 10)" using mul[OF that(1)] that assms by simp
    then show ?thesis by (simp only: word_less_nat_alt)
  qed
  show "(n \<ge> cutoff64 10 \<or> n * 10 + of_nat v < n * 10 \<or> n * 10 + of_nat v > - 1) \<longleftrightarrow> 2 ^ 64 \<le> unat n * 10 + v"
  proof (cases "unat n * 10 + v < 2 ^ 64")
    case True
    then have "\<not> n * 10 + of_nat v < n * 10" using add mul by (simp add: word_less_nat_alt)
    then show ?thesis using True cut by (simp add: not_less)
  next
    case False
    then show ?thesis using over cut by (cases "unat n * 10 < 2 ^ 64") (auto simp: not_less)
  qed
qed

lemma uint_bytes_loop_10:
  "(case uint_bytes_loop 10 (- 1) n s of (m, None) \<Rightarrow> Inr (unat m) | (m, Some e) \<Rightarrow> Inl e) = ParseUint_loop 64 (unat n) s"
proof (induction s arbitrary: n)
  case (Cons d s)
  show ?case
  proof (cases "digit d")
    case False
    then have "case byte_digit d of None \<Rightarrow> True | Some v \<Rightarrow> 10 \<le> v"
      by (auto simp: byte_digit_def digit_def)
    then show ?thesis using False by (auto split: option.splits)
  next
    case True
    define v where "v = digit_value d"
    have bd: "byte_digit d = Some v" using True by (simp add: byte_digit_def digit_def v_def digit_value_def)
    have v: "v < 10"
    proof -
      have "of_char d \<le> (57 :: nat)" using True by (simp add: digit_def less_eq_char_def)
      then show ?thesis by (simp add: v_def digit_value_def)
    qed
    note step = step_10[OF v, of n]
    show ?thesis
    proof (cases "2 ^ 64 \<le> unat n * 10 + v")
      case True
      then have "n \<ge> cutoff64 10 \<or> n * 10 + of_nat v < n * 10 \<or> n * 10 + of_nat v > - 1" using step(1) by blast
      then show ?thesis using bd v \<open>digit d\<close> True by (auto simp: Let_def v_def[symmetric])
    next
      case False
      then have "\<not> n \<ge> cutoff64 10" "\<not> n * 10 + of_nat v < n * 10" "\<not> n * 10 + of_nat v > - 1" using step(1) by blast+
      then show ?thesis
        using bd v \<open>digit d\<close> False Cons.IH[of "n * 10 + of_nat v"] step(2) by (simp add: Let_def v_def[symmetric])
    qed
  qed
qed simp

text \<open>In base 10 and with 64 bits, parseUintBytes is ParseUint, with the same error on every text.\<close>

theorem parseUintBytes_ParseUint:
  "(case parseUintBytes s 10 64 of (m, None) \<Rightarrow> Inr (unat m) | (m, Some e) \<Rightarrow> Inl e) =
   (case ParseUint 64 s of Inl e \<Rightarrow> Inl (UintErr e) | Inr m \<Rightarrow> Inr m)"
proof (cases "s = []")
  case False
  have mx: "push_bit 64 1 - 1 = (- 1 :: 64 word)" by (simp add: push_bit_eq_mult)
  obtain m e where r: "uint_bytes_loop 10 (- 1) 0 s = (m, e)" by (metis prod.exhaust)
  have minus: "(- 1 :: 64 word) = 18446744073709551615" by simp
  have r': "uint_bytes_loop 10 18446744073709551615 0 s = (m, e)" using r unfolding minus .
  have "(case e of None \<Rightarrow> Inr (unat m) | Some e \<Rightarrow> Inl e) = ParseUint 64 s"
    using uint_bytes_loop_10[of 0 s] False by (simp add: r ParseUint_def split: option.split)
  moreover have "parseUintBytes s 10 64 = (m, map_option UintErr e)"
    using False r' by (simp add: parseUintBytes_def uint_base_def)
  ultimately show ?thesis by (cases e; cases "ParseUint 64 s") auto
qed (simp add: parseUintBytes_def uint_base_def ParseUint_def)

end
