(* ===== verification/Connect_Method.thy ===== *)
theory Connect_Method
  imports Client Host_Port
begin

text \<open>
  Where a request is connected to (src/http/transport.go): the connect method of a request and its key in the
  maps of the transport.  The function idna.Lookup.ToASCII is an argument, and so is the proxy function
  of the transport.
\<close>

record connect_method =
  cm_proxyURL :: "URL option"
  cm_targetScheme :: string
  cm_targetAddr :: string
  cm_onlyH1 :: bool

record connect_key =
  ck_proxy :: string
  ck_scheme :: string
  ck_addr :: string
  ck_onlyH1 :: bool

definition portMap :: "string \<Rightarrow> string" where
  "portMap scheme =
     (if scheme = ''http'' then ''80'' else if scheme = ''https'' then ''443''
      else if scheme = ''socks5'' then ''1080'' else [])"

definition canonicalAddr :: "(string \<Rightarrow> string option) \<Rightarrow> URL \<Rightarrow> string" where
  "canonicalAddr ToASCII url =
     JoinHostPort (idnaASCIIFromURL ToASCII url) (if Port url = [] then portMap (Scheme url) else Port url)"

definition cm_key :: "connect_method \<Rightarrow> connect_key" where
  "cm_key cm =
     (case cm_proxyURL cm of
        None \<Rightarrow> \<lparr>ck_proxy = [], ck_scheme = cm_targetScheme cm, ck_addr = cm_targetAddr cm, ck_onlyH1 = cm_onlyH1 cm\<rparr>
      | Some u \<Rightarrow>
          \<lparr>ck_proxy = URL_String u, ck_scheme = cm_targetScheme cm,
           ck_addr = (if (Scheme u = ''http'' \<or> Scheme u = ''https'') \<and> cm_targetScheme cm = ''http'' then []
                      else cm_targetAddr cm),
           ck_onlyH1 = cm_onlyH1 cm\<rparr>)"

definition cm_scheme :: "connect_method \<Rightarrow> string" where
  "cm_scheme cm = (case cm_proxyURL cm of Some u \<Rightarrow> Scheme u | None \<Rightarrow> cm_targetScheme cm)"

definition cm_addr :: "(string \<Rightarrow> string option) \<Rightarrow> connect_method \<Rightarrow> string" where
  "cm_addr ToASCII cm = (case cm_proxyURL cm of Some u \<Rightarrow> canonicalAddr ToASCII u | None \<Rightarrow> cm_targetAddr cm)"

definition tlsHost :: "connect_method \<Rightarrow> string" where
  "tlsHost cm =
     (let h = cm_targetAddr cm
      in if hasPort h then (case last_index_byte (CHR '':'') h of Some i \<Rightarrow> take i h | None \<Rightarrow> h) else h)"

definition proxyAuth :: "connect_method \<Rightarrow> string" where
  "proxyAuth cm =
     (case cm_proxyURL cm of
        None \<Rightarrow> []
      | Some u \<Rightarrow>
          if User u \<noteq> None then ''Basic'' @ basicAuth (Username (User u)) (fst (Password (User u))) else [])"

text \<open>The error is that of the proxy function; then no connection is made.\<close>

definition connectMethodForRequest ::
  "(string \<Rightarrow> string option) \<Rightarrow> ('b request \<Rightarrow> 'e option \<times> URL option) option \<Rightarrow> 'b request \<Rightarrow> URL \<Rightarrow> 'e + connect_method" where
  "connectMethodForRequest ToASCII proxy req u =
     (let cm = \<lparr>cm_proxyURL = None, cm_targetScheme = Scheme u, cm_targetAddr = canonicalAddr ToASCII u,
                cm_onlyH1 = requiresHTTP1 req\<rparr>
      in case proxy of
           None \<Rightarrow> Inr cm
         | Some f \<Rightarrow> (case f req of (Some e, _) \<Rightarrow> Inl e | (None, p) \<Rightarrow> Inr (cm\<lparr>cm_proxyURL := p\<rparr>)))"

text \<open>Without a proxy the key fixes where the connection goes and how it is secured.\<close>

lemma key_fixes_target:
  assumes "cm_key a = cm_key b" and "cm_proxyURL a = None" and "cm_proxyURL b = None"
  shows "cm_addr ToASCII a = cm_addr ToASCII b \<and> cm_scheme a = cm_scheme b \<and> tlsHost a = tlsHost b"
  using assms by (simp add: cm_key_def cm_addr_def cm_scheme_def tlsHost_def)

text \<open>The credentials follow the name of the scheme without a space, which no proxy accepts.\<close>

lemma proxyAuth_without_space:
  "proxyAuth \<lparr>cm_proxyURL = Some (new_URL\<lparr>Scheme := ''http'', User := Some (UserPassword ''u'' ''p''), Host := ''proxy:80''\<rparr>),
     cm_targetScheme = ''http'', cm_targetAddr = ''a:80'', cm_onlyH1 = False\<rparr> = ''BasicdTpw''"
  by (simp add: proxyAuth_def UserPassword_def Username_def Password_def basicAuth_def base64_alphabet_def)

end
