(* ===== verification/Want_Queue.thy ===== *)
theory Want_Queue
  imports Go_Queue
begin

text \<open>
  The queues of waiting calls of the transport (type wantConnQueue of src/http/transport.go): a slice that is
  popped at a moving position, and a slice that is pushed at its end and takes the place of the first when that
  is used up.  A popped place holds nil.
\<close>

record 'w want_queue =
  wq_head :: "'w option list"
  wq_headPos :: nat
  wq_tail :: "'w option list"

definition empty_queue :: "'w want_queue" where
  "empty_queue = \<lparr>wq_head = [], wq_headPos = 0, wq_tail = []\<rparr>"

definition wq_len :: "'w want_queue \<Rightarrow> nat" where
  "wq_len q = length (wq_head q) - wq_headPos q + length (wq_tail q)"

definition pushBack :: "'w \<Rightarrow> 'w want_queue \<Rightarrow> 'w want_queue" where
  "pushBack w q = q\<lparr>wq_tail := wq_tail q @ [Some w]\<rparr>"

definition popFront :: "'w want_queue \<Rightarrow> 'w option \<times> 'w want_queue" where
  "popFront q0 =
     (let q = (if length (wq_head q0) \<le> wq_headPos q0
               then q0\<lparr>wq_head := wq_tail q0, wq_headPos := 0, wq_tail := []\<rparr> else q0)
      in if length (wq_head q0) \<le> wq_headPos q0 \<and> wq_tail q0 = [] then (None, q0)
         else (wq_head q ! wq_headPos q,
               q\<lparr>wq_head := (wq_head q)[wq_headPos q := None], wq_headPos := Suc (wq_headPos q)\<rparr>))"

definition peekFront :: "'w want_queue \<Rightarrow> 'w option" where
  "peekFront q =
     (if wq_headPos q < length (wq_head q) then wq_head q ! wq_headPos q
      else if 0 < length (wq_tail q) then wq_tail q ! 0
      else None)"

lemma popFront_len: "0 < wq_len q \<Longrightarrow> wq_len (snd (popFront q)) < wq_len q"
  by (auto simp: popFront_def wq_len_def Let_def)

lemma peekFront_len: "peekFront q \<noteq> None \<Longrightarrow> 0 < wq_len q"
  by (auto simp: peekFront_def wq_len_def split: if_splits)

text \<open>The result tells whether something was popped.\<close>

function cleanFront :: "('w \<Rightarrow> bool) \<Rightarrow> 'w want_queue \<Rightarrow> bool \<Rightarrow> bool \<times> 'w want_queue" where
  "cleanFront waiting q cleaned =
     (case peekFront q of
        None \<Rightarrow> (cleaned, q)
      | Some w \<Rightarrow> if waiting w then (cleaned, q) else cleanFront waiting (snd (popFront q)) True)"
  by pat_completeness auto
termination
  by (relation "measure (\<lambda>(f, q, c). wq_len q)") (auto intro: popFront_len peekFront_len)

declare cleanFront.simps [simp del]

section \<open>The queue as a list\<close>

definition wq_slots :: "'w want_queue \<Rightarrow> 'w option list" where
  "wq_slots q = drop (wq_headPos q) (wq_head q) @ wq_tail q"

definition wq_content :: "'w want_queue \<Rightarrow> 'w list" where
  "wq_content q = map the (wq_slots q)"

definition wq_valid :: "'w want_queue \<Rightarrow> bool" where
  "wq_valid q = (None \<notin> set (wq_slots q))"

lemma length_content: "wq_len q = length (wq_content q)"
  by (simp add: wq_len_def wq_content_def wq_slots_def)

lemma empty_queue_content [simp]: "wq_content empty_queue = []" "wq_valid empty_queue"
  by (simp_all add: empty_queue_def wq_content_def wq_slots_def wq_valid_def)

lemma pushBack_content [simp]:
  "wq_content (pushBack w q) = wq_content q @ [w]" "wq_valid (pushBack w q) = wq_valid q"
  by (auto simp: pushBack_def wq_content_def wq_slots_def wq_valid_def)

lemma popFront_slots:
  "popFront q = (case wq_slots q of [] \<Rightarrow> (None, q) | x # xs \<Rightarrow> (x, snd (popFront q)))"
  "wq_slots q \<noteq> [] \<Longrightarrow> wq_slots (snd (popFront q)) = tl (wq_slots q)"
proof -
  have d: "n < length xs \<Longrightarrow> drop n xs = xs ! n # drop (Suc n) xs" for n and xs :: "'a option list"
    by (rule Cons_nth_drop_Suc[symmetric])
  show "popFront q = (case wq_slots q of [] \<Rightarrow> (None, q) | x # xs \<Rightarrow> (x, snd (popFront q)))"
    by (cases "wq_headPos q < length (wq_head q)"; cases "wq_tail q")
      (auto simp: popFront_def wq_slots_def Let_def d)
  show "wq_slots q \<noteq> [] \<Longrightarrow> wq_slots (snd (popFront q)) = tl (wq_slots q)"
    by (cases "wq_headPos q < length (wq_head q)"; cases "wq_tail q")
      (auto simp: popFront_def wq_slots_def Let_def d)
qed

lemma popFront_content:
  assumes "wq_valid q" and "wq_content q = w # ws"
  obtains q' where "popFront q = (Some w, q')" "wq_valid q'" "wq_content q' = ws"
proof -
  obtain x xs where s: "wq_slots q = x # xs" "the x = w" "map the xs = ws"
    using assms(2) by (auto simp: wq_content_def)
  then have "x = Some w" using assms(1) by (cases x) (auto simp: wq_valid_def)
  moreover have "popFront q = (x, snd (popFront q))" using popFront_slots(1)[of q] s by simp
  moreover have "wq_slots (snd (popFront q)) = xs" using popFront_slots(2)[of q] s by simp
  ultimately show thesis
    using that[of "snd (popFront q)"] s assms(1) by (simp add: wq_content_def wq_valid_def)
qed

lemma popFront_empty: "wq_content q = [] \<Longrightarrow> popFront q = (None, q)"
  using popFront_slots(1)[of q] by (simp add: wq_content_def)

lemma peekFront_content: "wq_valid q \<Longrightarrow> peekFront q = (case wq_content q of [] \<Rightarrow> None | w # ws \<Rightarrow> Some w)"
  by (cases "wq_headPos q < length (wq_head q)"; cases "wq_tail q")
    (auto simp: peekFront_def wq_content_def wq_slots_def wq_valid_def Cons_nth_drop_Suc[symmetric])

interpretation wq: fifo "\<lambda>w q. Ret (pushBack w q)"
  "\<lambda>q. Ret (case popFront q of (None, _) \<Rightarrow> None | (Some w, q') \<Rightarrow> Some (w, q'))" wq_content wq_valid
proof (unfold_locales, goal_cases)
  case (3 q w ws)
  then show ?case by (metis (mono_tags, lifting) popFront_content old.prod.case option.case(2))
qed (auto simp: popFront_empty)

text \<open>Only calls that no longer wait are cleaned away.\<close>

lemma cleanFront_content:
  assumes "wq_valid q"
  shows "wq_valid (snd (cleanFront waiting q c)) \<and>
    wq_content (snd (cleanFront waiting q c)) = dropWhile (\<lambda>w. \<not> waiting w) (wq_content q)"
  using assms
proof (induction waiting q c rule: cleanFront.induct)
  case (1 waiting q c)
  show ?case
  proof (cases "wq_content q")
    case Nil
    then show ?thesis using 1(2) peekFront_content[OF 1(2)] by (subst (1 2) cleanFront.simps) simp
  next
    case (Cons w ws)
    have pk: "peekFront q = Some w" using peekFront_content[OF 1(2)] Cons by simp
    obtain q' where q': "popFront q = (Some w, q')" "wq_valid q'" "wq_content q' = ws"
      by (rule popFront_content[OF 1(2) Cons])
    show ?thesis
    proof (cases "waiting w")
      case True
      then show ?thesis using 1(2) pk Cons by (subst (1 2) cleanFront.simps) simp
    next
      case False
      have "wq_valid (snd (popFront q))" using q' by simp
      from 1(1)[OF pk False this] show ?thesis
        using pk False q' Cons by (subst (1 2) cleanFront.simps) simp
    qed
  qed
qed

end
