(* ===== verification/Conn_Pool.thy ===== *)
theory Conn_Pool
  imports Connect_Method Want_Queue
begin

text \<open>
  The pool of connections of the transport (src/http/transport.go): idle connections by key with their LRU list,
  the calls that wait for one, the count of connections per host with the calls that wait to dial, and the
  operations on them.  Connections and waiting calls (persistConn, wantConn) are numbers into a store.  A
  section of the code that holds a lock is one function; what a goroutine still has to do after such a section is a
  task of the state, so every interleaving of the sections is a sequence of steps of the relation at the end.
  The result of a dial and the time come with the step.  A timer may fire at any moment.  The field alt is never
  set, since the switch to HTTP/2 is commented out in dialConn; the code that reads it is kept.
\<close>

section \<open>State\<close>

datatype conn_error =
  KeepAlivesDisabled
| ConnBroken
| CloseIdle
| TooManyIdle
| TooManyIdleHost
| ErrCloseIdleConns
| IdleConnTimeout
| ConnError string

record persist_conn =
  pc_cacheKey :: connect_key
  pc_alt :: bool
  pc_idleAt :: int
  pc_closed :: "conn_error option"
  pc_broken :: bool
  pc_reused :: bool

text \<open>\<open>w_ready\<close>: the channel is closed; \<open>w_ctx\<close>: the context for the dial is not nil.\<close>

record want_conn =
  w_key :: connect_key
  w_ctx :: bool
  w_pc :: "nat option"
  w_err :: "conn_error option"
  w_ready :: bool

text \<open>What goroutines still have to do: \<open>QueueDial\<close> and the tasks on a connection continue a call, the
  others were started with go.\<close>

datatype task =
  QueueDial nat
| DialFor nat
| Dialing nat
| PutCheck nat
| PutIdle nat
| CloseConn nat conn_error
| DecConns connect_key
| CloseIfStillIdle nat

text \<open>The last four fields are the stores, the pending tasks, and the calls that hold a connection now.\<close>

record http_transport =
  tp_DisableKeepAlives :: bool
  tp_MaxIdleConns :: int
  tp_MaxIdleConnsPerHost :: int
  tp_MaxConnsPerHost :: int
  tp_IdleConnTimeout :: int
  tp_closeIdle :: bool
  tp_idleConn :: "(connect_key, nat list) gomap"
  tp_idleConnWait :: "(connect_key, nat want_queue) gomap"
  tp_idleLRU :: "nat list"
  tp_connsPerHost :: "(connect_key, int) gomap"
  tp_connsPerHostWait :: "(connect_key, nat want_queue) gomap"
  tp_conn :: "nat \<Rightarrow> persist_conn"
  tp_nconn :: nat
  tp_want :: "nat \<Rightarrow> want_conn"
  tp_nwant :: nat
  tp_tasks :: "task list"
  tp_holders :: "nat list"

definition set_conn :: "nat \<Rightarrow> persist_conn \<Rightarrow> http_transport \<Rightarrow> http_transport" where
  "set_conn pc c s = s\<lparr>tp_conn := (tp_conn s)(pc := c)\<rparr>"

definition set_want :: "nat \<Rightarrow> want_conn \<Rightarrow> http_transport \<Rightarrow> http_transport" where
  "set_want w x s = s\<lparr>tp_want := (tp_want s)(w := x)\<rparr>"

definition spawn :: "task \<Rightarrow> http_transport \<Rightarrow> http_transport" where
  "spawn t s = s\<lparr>tp_tasks := tp_tasks s @ [t]\<rparr>"

definition queue_at :: "(connect_key, nat want_queue) gomap \<Rightarrow> connect_key \<Rightarrow> nat want_queue" where
  "queue_at m k = (case map_of m k of None \<Rightarrow> empty_queue | Some q \<Rightarrow> q)"

text \<open>A queue is stored back, or its key deleted when it is empty.\<close>

definition store_queue ::
  "connect_key \<Rightarrow> nat want_queue \<Rightarrow> (connect_key, nat want_queue) gomap \<Rightarrow> (connect_key, nat want_queue) gomap" where
  "store_queue k q m = (if wq_len q = 0 then AList.delete k m else AList.update k q m)"

definition idles_at :: "connect_key \<Rightarrow> http_transport \<Rightarrow> nat list" where
  "idles_at k s = (case map_of (tp_idleConn s) k of None \<Rightarrow> [] | Some l \<Rightarrow> l)"

section \<open>The LRU list\<close>

text \<open>The list of type connLRU, most recent first; its map holds the elements of the list.\<close>

definition lru_add :: "nat \<Rightarrow> nat list \<Rightarrow> nat list go" where
  "lru_add pc ll = (if pc \<in> set ll then Panic ''persistConn was already in LRU'' else Ret (pc # ll))"

definition lru_removeOldest :: "nat list \<Rightarrow> (nat \<times> nat list) go" where
  "lru_removeOldest ll = (if ll = [] then Panic ''nil pointer dereference'' else Ret (last ll, butlast ll))"

definition lru_remove :: "nat \<Rightarrow> nat list \<Rightarrow> nat list" where
  "lru_remove pc ll = remove1 pc ll"

section \<open>Waiting calls\<close>

definition w_waiting :: "want_conn \<Rightarrow> bool" where
  "w_waiting w = (\<not> w_ready w)"

definition close_ready :: "want_conn \<Rightarrow> want_conn go" where
  "close_ready w = (if w_ready w then Panic ''close of closed channel'' else Ret (w\<lparr>w_ready := True\<rparr>))"

definition tryDeliver :: "nat option \<Rightarrow> conn_error option \<Rightarrow> want_conn \<Rightarrow> (bool \<times> want_conn) go" where
  "tryDeliver pc err w =
     (if w_pc w \<noteq> None \<or> w_err w \<noteq> None then Ret (False, w)
      else if pc = None \<and> err = None then Panic ''net/http: internal error: misuse of tryDeliver''
      else go_bind (close_ready (w\<lparr>w_ctx := False, w_pc := pc, w_err := err\<rparr>)) (\<lambda>w'. Ret (True, w')))"

text \<open>A call that gets a connection holds it from now on.\<close>

definition deliver :: "nat \<Rightarrow> nat option \<Rightarrow> conn_error option \<Rightarrow> http_transport \<Rightarrow> (bool \<times> http_transport) go" where
  "deliver w pc err s =
     go_bind (tryDeliver pc err (tp_want s w))
       (\<lambda>(ok, x). Ret (ok, if ok \<and> pc \<noteq> None then (set_want w x s)\<lparr>tp_holders := w # tp_holders s\<rparr> else set_want w x s))"

section \<open>Connections per host\<close>

text \<open>The first call of the queue that still waits is given the permission to dial.\<close>

function handoff :: "(nat \<Rightarrow> bool) \<Rightarrow> nat want_queue \<Rightarrow> (nat option \<times> nat want_queue) go" where
  "handoff waiting q =
     (if wq_len q = 0 then Ret (None, q)
      else case popFront q of
        (None, q') \<Rightarrow> Panic ''nil pointer dereference''
      | (Some w, q') \<Rightarrow> if waiting w then Ret (Some w, q') else handoff waiting q')"
  by pat_completeness auto
termination
proof (relation "measure (\<lambda>(f, q). wq_len q)", goal_cases)
  case (2 waiting q x y w)
  then show ?case using popFront_len[of q] by (cases "popFront q") auto
qed simp

declare handoff.simps [simp del]

definition decConnsPerHost :: "connect_key \<Rightarrow> http_transport \<Rightarrow> http_transport go" where
  "decConnsPerHost key s =
     (if tp_MaxConnsPerHost s \<le> 0 then Ret s
      else let n = (case map_of (tp_connsPerHost s) key of None \<Rightarrow> 0 | Some n \<Rightarrow> n)
      in if n = 0 then Panic ''net/http: internal error: connCount underflow''
         else go_bind
           (let q = queue_at (tp_connsPerHostWait s) key
            in if 0 < wq_len q then
                 go_bind (handoff (\<lambda>w. w_waiting (tp_want s w)) q)
                   (\<lambda>(w, q'). Ret (w, s\<lparr>tp_connsPerHostWait := store_queue key q' (tp_connsPerHostWait s)\<rparr>))
               else Ret (None, s))
           (\<lambda>(w, s1). case w of
              Some w \<Rightarrow> Ret (spawn (DialFor w) s1)
            | None \<Rightarrow> Ret (s1\<lparr>tp_connsPerHost := (if n - 1 = 0 then AList.delete key (tp_connsPerHost s1)
                                               else AList.update key (n - 1) (tp_connsPerHost s1))\<rparr>)))"

definition queueForDial :: "nat \<Rightarrow> http_transport \<Rightarrow> http_transport" where
  "queueForDial w s =
     (if tp_MaxConnsPerHost s \<le> 0 then spawn (DialFor w) s
      else let key = w_key (tp_want s w);
               n = (case map_of (tp_connsPerHost s) key of None \<Rightarrow> 0 | Some n \<Rightarrow> n)
      in if n < tp_MaxConnsPerHost s then
           spawn (DialFor w) (s\<lparr>tp_connsPerHost := AList.update key (n + 1) (tp_connsPerHost s)\<rparr>)
         else
           s\<lparr>tp_connsPerHostWait :=
              AList.update key
                (pushBack w (snd (cleanFront (\<lambda>w. w_waiting (tp_want s w)) (queue_at (tp_connsPerHostWait s) key) False)))
                (tp_connsPerHostWait s)\<rparr>)"

section \<open>Closing a connection\<close>

definition pc_isBroken :: "persist_conn \<Rightarrow> bool" where
  "pc_isBroken c = (pc_closed c \<noteq> None)"

definition pc_close :: "nat \<Rightarrow> conn_error \<Rightarrow> http_transport \<Rightarrow> http_transport go" where
  "pc_close pc err s =
     (let c = tp_conn s pc
      in if pc_closed c = None
         then decConnsPerHost (pc_cacheKey c) (set_conn pc (c\<lparr>pc_broken := True, pc_closed := Some err\<rparr>) s)
         else Ret (set_conn pc (c\<lparr>pc_broken := True\<rparr>) s))"

definition removeIdleConn :: "nat \<Rightarrow> http_transport \<Rightarrow> bool \<times> http_transport" where
  "removeIdleConn pc s =
     (let s1 = s\<lparr>tp_idleLRU := lru_remove pc (tp_idleLRU s)\<rparr>;
          key = pc_cacheKey (tp_conn s pc);
          pconns = idles_at key s
      in if length pconns = 0 then (False, s1)
         else if length pconns = 1 then
           (if pconns ! 0 = pc then (True, s1\<lparr>tp_idleConn := AList.delete key (tp_idleConn s)\<rparr>) else (False, s1))
         else if pc \<in> set pconns
           then (True, s1\<lparr>tp_idleConn := AList.update key (remove1 pc pconns) (tp_idleConn s)\<rparr>)
           else (False, s1))"

definition closeConnIfStillIdle :: "nat \<Rightarrow> http_transport \<Rightarrow> http_transport go" where
  "closeConnIfStillIdle pc s =
     (if pc \<notin> set (tp_idleLRU s) then Ret s
      else pc_close pc IdleConnTimeout (snd (removeIdleConn pc s)))"

section \<open>Putting a connection back\<close>

text \<open>tryPutIdleConn before it takes the lock: the error, or the connection marked as reused.\<close>

definition put_check :: "nat \<Rightarrow> http_transport \<Rightarrow> conn_error option \<times> http_transport" where
  "put_check pc s =
     (if tp_DisableKeepAlives s \<or> tp_MaxIdleConnsPerHost s < 0 then (Some KeepAlivesDisabled, s)
      else if pc_isBroken (tp_conn s pc) then (Some ConnBroken, s)
      else (None, set_conn pc ((tp_conn s pc)\<lparr>pc_reused := True\<rparr>) s))"

definition DefaultMaxIdleConnsPerHost :: int where "DefaultMaxIdleConnsPerHost = 2"

definition maxIdleConnsPerHost :: "http_transport \<Rightarrow> int" where
  "maxIdleConnsPerHost s =
     (if tp_MaxIdleConnsPerHost s \<noteq> 0 then tp_MaxIdleConnsPerHost s else DefaultMaxIdleConnsPerHost)"

text \<open>The connection is offered to the waiting calls in their order.\<close>

function offer :: "nat \<Rightarrow> nat want_queue \<Rightarrow> http_transport \<Rightarrow> (bool \<times> nat want_queue \<times> http_transport) go" where
  "offer pc q s =
     (if wq_len q = 0 then Ret (False, q, s)
      else case popFront q of
        (None, q') \<Rightarrow> Panic ''nil pointer dereference''
      | (Some w, q') \<Rightarrow>
          (case deliver w (Some pc) None s of
             Panic m \<Rightarrow> Panic m
           | Ret (True, s') \<Rightarrow> Ret (True, q', s')
           | Ret (False, s') \<Rightarrow> offer pc q' s'))"
  by pat_completeness auto
termination
proof (relation "measure (\<lambda>(pc, q, s). wq_len q)", goal_cases)
  case (2 pc q s x y w z u v)
  then show ?case using popFront_len[of q] by (cases "popFront q") auto
qed simp

declare offer.simps [simp del]

definition offer_waiting :: "nat \<Rightarrow> http_transport \<Rightarrow> (bool \<times> http_transport) go" where
  "offer_waiting pc s =
     (let key = pc_cacheKey (tp_conn s pc)
      in case map_of (tp_idleConnWait s) key of
           None \<Rightarrow> Ret (False, s)
         | Some q \<Rightarrow>
             go_bind (offer pc q s)
               (\<lambda>(ok, q', s'). Ret (ok, s'\<lparr>tp_idleConnWait := store_queue key q' (tp_idleConnWait s')\<rparr>)))"

text \<open>A connection is added to the idle ones, and the oldest is closed when there are too many.\<close>

definition add_idle :: "nat \<Rightarrow> int \<Rightarrow> http_transport \<Rightarrow> http_transport go" where
  "add_idle pc now s =
     (let key = pc_cacheKey (tp_conn s pc); idles = idles_at key s
      in if pc \<in> set idles then Panic ''dup idle pconn in freelist''
         else go_bind (lru_add pc (tp_idleLRU s))
           (\<lambda>ll. go_bind
              (let s1 = s\<lparr>tp_idleConn := AList.update key (idles @ [pc]) (tp_idleConn s), tp_idleLRU := ll\<rparr>
               in if tp_MaxIdleConns s \<noteq> 0 \<and> int (length ll) > tp_MaxIdleConns s then
                    go_bind (lru_removeOldest ll)
                      (\<lambda>(oldest, ll'). go_bind (pc_close oldest TooManyIdle (s1\<lparr>tp_idleLRU := ll'\<rparr>))
                         (\<lambda>s2. Ret (snd (removeIdleConn oldest s2))))
                  else Ret s1)
              (\<lambda>s3. Ret (set_conn pc ((tp_conn s3 pc)\<lparr>pc_idleAt := now\<rparr>) s3))))"

text \<open>tryPutIdleConn with the lock.\<close>

definition put_idle :: "nat \<Rightarrow> int \<Rightarrow> http_transport \<Rightarrow> (conn_error option \<times> http_transport) go" where
  "put_idle pc now s =
     (if pc_alt (tp_conn s pc) \<and> pc \<in> set (tp_idleLRU s) then Ret (None, s)
      else go_bind (offer_waiting pc s)
        (\<lambda>(ok, s1).
           if ok then Ret (None, s1)
           else if tp_closeIdle s1 then Ret (Some CloseIdle, s1)
           else if int (length (idles_at (pc_cacheKey (tp_conn s1 pc)) s1)) \<ge> maxIdleConnsPerHost s1
             then Ret (Some TooManyIdleHost, s1)
           else go_bind (add_idle pc now s1) (\<lambda>s2. Ret (None, s2))))"

section \<open>Taking an idle connection\<close>

text \<open>
  The most recently used connection that is neither broken nor too old is delivered.  The result has what is left of
  the list, whether the search stopped, and whether the connection was delivered.
\<close>

function pick :: "nat \<Rightarrow> int \<Rightarrow> nat list \<Rightarrow> http_transport \<Rightarrow> (nat list \<times> bool \<times> bool \<times> http_transport) go" where
  "pick w now list s =
     (if list = [] then Ret ([], False, False, s)
      else let pconn = last list;
               tooOld = (0 < tp_IdleConnTimeout s \<and> pc_idleAt (tp_conn s pconn) < now - tp_IdleConnTimeout s);
               s1 = (if tooOld then spawn (CloseIfStillIdle pconn) s else s)
      in if pc_isBroken (tp_conn s pconn) \<or> tooOld then pick w now (butlast list) s1
         else go_bind (deliver w (Some pconn) None s1)
           (\<lambda>(delivered, s2).
              if delivered \<and> \<not> pc_alt (tp_conn s pconn)
              then Ret (butlast list, True, True, s2\<lparr>tp_idleLRU := lru_remove pconn (tp_idleLRU s2)\<rparr>)
              else Ret (list, True, delivered, s2)))"
  by pat_completeness auto
termination by (relation "measure (\<lambda>(w, now, list, s). length list)") auto

declare pick.simps [simp del]

definition wait_for_idle :: "nat \<Rightarrow> http_transport \<Rightarrow> http_transport" where
  "wait_for_idle w s =
     (let key = w_key (tp_want s w)
      in s\<lparr>tp_idleConnWait :=
          AList.update key
            (pushBack w (snd (cleanFront (\<lambda>w. w_waiting (tp_want s w)) (queue_at (tp_idleConnWait s) key) False)))
            (tp_idleConnWait s)\<rparr>)"

definition queueForIdleConn :: "nat \<Rightarrow> int \<Rightarrow> http_transport \<Rightarrow> (bool \<times> http_transport) go" where
  "queueForIdleConn w now s0 =
     (if tp_DisableKeepAlives s0 then Ret (False, s0)
      else let s = s0\<lparr>tp_closeIdle := False\<rparr>; key = w_key (tp_want s w)
      in case map_of (tp_idleConn s) key of
           None \<Rightarrow> Ret (False, wait_for_idle w s)
         | Some list \<Rightarrow>
             go_bind (pick w now list s)
               (\<lambda>(list', stop, delivered, s1).
                  let s2 = s1\<lparr>tp_idleConn := (if 0 < length list' then AList.update key list' (tp_idleConn s1)
                                             else AList.delete key (tp_idleConn s1))\<rparr>
                  in if stop then Ret (delivered, s2) else Ret (False, wait_for_idle w s2)))"

section \<open>The calls\<close>

text \<open>getConn up to the wait: a new waiting call takes an idle connection, or queues for a dial.\<close>

definition getConn :: "connect_key \<Rightarrow> int \<Rightarrow> http_transport \<Rightarrow> http_transport go" where
  "getConn key now s =
     (let w = tp_nwant s;
          s1 = (set_want w \<lparr>w_key = key, w_ctx = True, w_pc = None, w_err = None, w_ready = False\<rparr> s)\<lparr>tp_nwant := Suc w\<rparr>
      in go_bind (queueForIdleConn w now s1)
           (\<lambda>(delivered, s2). Ret (if delivered then s2 else spawn (QueueDial w) s2)))"

text \<open>A call that returns an error gives back the connection that was delivered to it.\<close>

definition want_cancel :: "nat \<Rightarrow> conn_error \<Rightarrow> http_transport \<Rightarrow> http_transport go" where
  "want_cancel w err s =
     (let x = tp_want s w
      in go_bind (if w_pc x = None \<and> w_err x = None then close_ready x else Ret x)
        (\<lambda>x1. let s1 = (set_want w (x1\<lparr>w_ctx := False, w_pc := None, w_err := Some err\<rparr>) s)\<lparr>tp_holders := removeAll w (tp_holders s)\<rparr>
               in Ret (case w_pc x of None \<Rightarrow> s1 | Some pc \<Rightarrow> spawn (PutCheck pc) s1)))"

text \<open>A round trip ends: the connection goes back to the pool, or is closed.\<close>

definition release :: "nat \<Rightarrow> bool \<Rightarrow> conn_error \<Rightarrow> http_transport \<Rightarrow> http_transport" where
  "release w alive err s =
     (case w_pc (tp_want s w) of
        None \<Rightarrow> s
      | Some pc \<Rightarrow> spawn (if alive then PutCheck pc else CloseConn pc err) (s\<lparr>tp_holders := removeAll w (tp_holders s)\<rparr>))"

definition CloseIdleConnections :: "http_transport \<Rightarrow> http_transport" where
  "CloseIdleConnections s =
     fold (\<lambda>pc. spawn (CloseConn pc ErrCloseIdleConns)) (concat (map snd (tp_idleConn s)))
       (s\<lparr>tp_idleConn := [], tp_closeIdle := True, tp_idleLRU := []\<rparr>)"

section \<open>The goroutines\<close>

text \<open>A dial is given up when the call was answered meanwhile, and then nothing else is done.\<close>

definition dial_start :: "nat \<Rightarrow> http_transport \<Rightarrow> http_transport" where
  "dial_start w s = (if \<not> w_ctx (tp_want s w) then s else spawn (Dialing w) s)"

text \<open>The outcome of dialConn is an error or a new connection.\<close>

definition dial_done :: "nat \<Rightarrow> conn_error option \<Rightarrow> http_transport \<Rightarrow> http_transport go" where
  "dial_done w err s =
     (let key = w_key (tp_want s w)
      in case err of
           Some e \<Rightarrow> go_bind (deliver w None (Some e) s) (\<lambda>(_, s1). Ret (spawn (DecConns key) s1))
         | None \<Rightarrow>
             (let pc = tp_nconn s;
                  s1 = (set_conn pc \<lparr>pc_cacheKey = key, pc_alt = False, pc_idleAt = 0, pc_closed = None, pc_broken = False,
                                     pc_reused = False\<rparr> s)\<lparr>tp_nconn := Suc pc\<rparr>
              in go_bind (deliver w (Some pc) None s1)
                   (\<lambda>(delivered, s2).
                      Ret (if \<not> delivered \<or> pc_alt (tp_conn s2 pc) then spawn (PutCheck pc) s2 else s2))))"

fun run_task :: "task \<Rightarrow> int \<Rightarrow> conn_error option \<Rightarrow> http_transport \<Rightarrow> http_transport go" where
  "run_task (QueueDial w) now err s = Ret (queueForDial w s)"
| "run_task (DialFor w) now err s = Ret (dial_start w s)"
| "run_task (Dialing w) now err s = dial_done w err s"
| "run_task (PutCheck pc) now err s =
     Ret (case put_check pc s of (None, s1) \<Rightarrow> spawn (PutIdle pc) s1 | (Some e, s1) \<Rightarrow> spawn (CloseConn pc e) s1)"
| "run_task (PutIdle pc) now err s =
     go_bind (put_idle pc now s)
       (\<lambda>(e, s1). Ret (case e of None \<Rightarrow> s1 | Some e \<Rightarrow> spawn (CloseConn pc e) s1))"
| "run_task (CloseConn pc e) now err s = pc_close pc e s"
| "run_task (DecConns key) now err s = decConnsPerHost key s"
| "run_task (CloseIfStillIdle pc) now err s = closeConnIfStillIdle pc s"

text \<open>
  One step, with its outcome.  A call is canceled before it has returned, so while it has no connection or still
  holds it; a connection is closed by its own loops at any time, and taken out of the pool after that.
\<close>

inductive pool_step :: "http_transport \<Rightarrow> http_transport go \<Rightarrow> bool" where
  get: "pool_step s (getConn key now s)"
| run: "t \<in> set (tp_tasks s) \<Longrightarrow> pool_step s (run_task t now err (s\<lparr>tp_tasks := remove1 t (tp_tasks s)\<rparr>))"
| cancel: "w < tp_nwant s \<Longrightarrow> w \<in> set (tp_holders s) \<or> w_pc (tp_want s w) = None \<Longrightarrow> pool_step s (want_cancel w e s)"
| finish: "w \<in> set (tp_holders s) \<Longrightarrow> pool_step s (Ret (release w alive e s))"
| closing: "pc < tp_nconn s \<Longrightarrow> pool_step s (pc_close pc e s)"
| remove: "pc < tp_nconn s \<Longrightarrow> pc_isBroken (tp_conn s pc) \<Longrightarrow> pool_step s (Ret (snd (removeIdleConn pc s)))"
| timer: "pool_step s (closeConnIfStillIdle pc s)"
| close_idle: "pool_step s (Ret (CloseIdleConnections s))"

text \<open>A transport with its settings, before its first request.\<close>

definition new_transport :: "bool \<Rightarrow> int \<Rightarrow> int \<Rightarrow> int \<Rightarrow> int \<Rightarrow> http_transport" where
  "new_transport disableKeepAlives maxIdle maxIdlePerHost maxPerHost idleTimeout =
     \<lparr>tp_DisableKeepAlives = disableKeepAlives, tp_MaxIdleConns = maxIdle, tp_MaxIdleConnsPerHost = maxIdlePerHost,
      tp_MaxConnsPerHost = maxPerHost, tp_IdleConnTimeout = idleTimeout, tp_closeIdle = False, tp_idleConn = [],
      tp_idleConnWait = [], tp_idleLRU = [], tp_connsPerHost = [], tp_connsPerHostWait = [],
      tp_conn = (\<lambda>_. \<lparr>pc_cacheKey = \<lparr>ck_proxy = [], ck_scheme = [], ck_addr = [], ck_onlyH1 = False\<rparr>, pc_alt = False,
         pc_idleAt = 0, pc_closed = None, pc_broken = False, pc_reused = False\<rparr>), tp_nconn = 0,
      tp_want = (\<lambda>_. \<lparr>w_key = \<lparr>ck_proxy = [], ck_scheme = [], ck_addr = [], ck_onlyH1 = False\<rparr>, w_ctx = False,
         w_pc = None, w_err = None, w_ready = False\<rparr>), tp_nwant = 0, tp_tasks = [], tp_holders = []\<rparr>"

inductive pool_state :: "http_transport \<Rightarrow> bool" where
  new: "pool_state (new_transport d i h m t)"
| step: "pool_state s \<Longrightarrow> pool_step s (Ret s') \<Longrightarrow> pool_state s'"

inductive_cases pool_stepE: "pool_step s r"

end
