(* ===== verification/Pool_Invariant.thy ===== *)
theory Pool_Invariant
  imports Conn_Pool
begin

text \<open>
  The invariant of the pool of connections, with the lemmas that keep it under the parts of the operations.  While an operation runs, it owns the connections \<open>X\<close> and the permissions \<open>K\<close> to open a
  connection; the lemmas say how each operation hands them on.
\<close>

section \<open>The invariant\<close>

text \<open>The places where a connection can be: with a call, on its way back, with the running operation, in the pool.\<close>

definition held :: "http_transport \<Rightarrow> nat \<Rightarrow> nat" where
  "held s pc = count_list (map (\<lambda>w. w_pc (tp_want s w)) (tp_holders s)) (Some pc)"

definition puts :: "http_transport \<Rightarrow> nat \<Rightarrow> nat" where
  "puts s pc = length (filter (\<lambda>t. t = PutCheck pc \<or> t = PutIdle pc) (tp_tasks s))"

definition pooled :: "http_transport \<Rightarrow> nat \<Rightarrow> nat" where
  "pooled s pc = (if pc \<in> set (tp_idleLRU s) then 1 else 0)"

definition uses :: "nat list \<Rightarrow> http_transport \<Rightarrow> nat \<Rightarrow> nat" where
  "uses X s pc = held s pc + puts s pc + count_list X pc + pooled s pc"

definition inv_own :: "nat list \<Rightarrow> http_transport \<Rightarrow> bool" where
  "inv_own X s \<longleftrightarrow>
     gomap_ok (tp_idleConn s) \<and> distinct (tp_idleLRU s) \<and>
     (\<forall>k. distinct (idles_at k s) \<and> (\<forall>pc\<in>set (idles_at k s). pc_cacheKey (tp_conn s pc) = k \<and> pc \<in> set (tp_idleLRU s))) \<and>
     (\<forall>pc. uses X s pc \<le> 1 \<and> (tp_nconn s \<le> pc \<longrightarrow> uses X s pc = 0))"

definition queue_ok :: "http_transport \<Rightarrow> connect_key \<Rightarrow> nat want_queue \<Rightarrow> bool" where
  "queue_ok s k q \<longleftrightarrow> wq_valid q \<and> (\<forall>w\<in>set (wq_content q). w < tp_nwant s \<and> w_key (tp_want s w) = k)"

definition queues_ok :: "http_transport \<Rightarrow> (connect_key, nat want_queue) gomap \<Rightarrow> bool" where
  "queues_ok s m \<longleftrightarrow> (\<forall>(k, q)\<in>set m. queue_ok s k q)"

definition task_ok :: "http_transport \<Rightarrow> task \<Rightarrow> bool" where
  "task_ok s t =
     (case t of
        QueueDial w \<Rightarrow> w < tp_nwant s
      | DialFor w \<Rightarrow> w < tp_nwant s
      | Dialing w \<Rightarrow> w < tp_nwant s
      | CloseConn pc _ \<Rightarrow> pc < tp_nconn s
      | _ \<Rightarrow> True)"

definition inv_want :: "http_transport \<Rightarrow> bool" where
  "inv_want s \<longleftrightarrow>
     (\<forall>w. w_ready (tp_want s w) \<longleftrightarrow> w_pc (tp_want s w) \<noteq> None \<or> w_err (tp_want s w) \<noteq> None) \<and>
     distinct (tp_holders s) \<and>
     (\<forall>w\<in>set (tp_holders s). w < tp_nwant s \<and>
        (\<exists>pc. w_pc (tp_want s w) = Some pc \<and> pc_cacheKey (tp_conn s pc) = w_key (tp_want s w))) \<and>
     queues_ok s (tp_idleConnWait s) \<and> queues_ok s (tp_connsPerHostWait s) \<and>
     (\<forall>t\<in>set (tp_tasks s). task_ok s t) \<and> (\<forall>pc. \<not> pc_alt (tp_conn s pc))"

text \<open>The permissions to open a connection to a host: open connections, dials, and counts to be given back.\<close>

definition task_slot :: "http_transport \<Rightarrow> connect_key \<Rightarrow> task \<Rightarrow> bool" where
  "task_slot s k t =
     (case t of
        DialFor w \<Rightarrow> w_key (tp_want s w) = k
      | Dialing w \<Rightarrow> w_key (tp_want s w) = k
      | DecConns k' \<Rightarrow> k' = k
      | _ \<Rightarrow> False)"

definition dials :: "http_transport \<Rightarrow> connect_key \<Rightarrow> nat" where
  "dials s k = length (filter (task_slot s k) (tp_tasks s))"

definition open_conns :: "http_transport \<Rightarrow> connect_key \<Rightarrow> nat set" where
  "open_conns s k = {pc. pc < tp_nconn s \<and> pc_cacheKey (tp_conn s pc) = k \<and> pc_closed (tp_conn s pc) = None}"

definition conn_count :: "http_transport \<Rightarrow> connect_key \<Rightarrow> int" where
  "conn_count s k = (case map_of (tp_connsPerHost s) k of None \<Rightarrow> 0 | Some n \<Rightarrow> n)"

definition inv_count :: "connect_key list \<Rightarrow> http_transport \<Rightarrow> bool" where
  "inv_count K s \<longleftrightarrow>
     (0 < tp_MaxConnsPerHost s \<longrightarrow>
        (\<forall>k. int (card (open_conns s k) + dials s k + count_list K k) \<le> conn_count s k \<and>
             conn_count s k \<le> tp_MaxConnsPerHost s))"

definition pool_inv :: "nat list \<Rightarrow> connect_key list \<Rightarrow> http_transport \<Rightarrow> bool" where
  "pool_inv X K s \<longleftrightarrow> inv_own X s \<and> inv_want s \<and> inv_count K s"

lemmas pool_inv_defs = pool_inv_def inv_own_def inv_want_def inv_count_def

lemma uses_cong:
  assumes "tp_holders s' = tp_holders s" and "tp_tasks s' = tp_tasks s" and "tp_idleLRU s' = tp_idleLRU s"
    and "\<And>w. w_pc (tp_want s' w) = w_pc (tp_want s w)"
  shows "uses X s' pc = uses X s pc"
  using assms by (simp add: uses_def held_def puts_def pooled_def)

lemma finite_open [simp]: "finite (open_conns s k)"
  by (simp add: open_conns_def)

section \<open>Maps\<close>

lemma idles_at_update:
  "idles_at k (s\<lparr>tp_idleConn := AList.update k' l (tp_idleConn s)\<rparr>) = (if k = k' then l else idles_at k s)"
  by (simp add: idles_at_def update_conv')

lemma idles_at_delete:
  "idles_at k (s\<lparr>tp_idleConn := AList.delete k' (tp_idleConn s)\<rparr>) = (if k = k' then [] else idles_at k s)"
  by (simp add: idles_at_def delete_conv')

lemma idles_at_cong: "tp_idleConn s' = tp_idleConn s \<Longrightarrow> idles_at k s' = idles_at k s"
  by (simp add: idles_at_def)

lemma gomap_ok_update: "gomap_ok m \<Longrightarrow> gomap_ok (AList.update k v m)"
  by (rule distinct_update)

lemma gomap_ok_delete: "gomap_ok m \<Longrightarrow> gomap_ok (AList.delete k m)"
  by (rule distinct_delete)

lemma set_update_subset: "set (AList.update k v m) \<subseteq> insert (k, v) (set m)"
  by (induction m) auto

lemma set_delete_subset: "set (AList.delete k m) \<subseteq> set m"
  by (auto simp: AList.delete_eq)

lemma queues_ok_at: "queues_ok s m \<Longrightarrow> queue_ok s k (queue_at m k)"
  using map_of_SomeD[of m k] by (auto simp: queues_ok_def queue_at_def queue_ok_def split: option.split)

lemma queues_ok_update: "queues_ok s m \<Longrightarrow> queue_ok s k q \<Longrightarrow> queues_ok s (AList.update k q m)"
  using set_update_subset[of k q m] by (auto simp: queues_ok_def)

lemma queues_ok_delete: "queues_ok s m \<Longrightarrow> queues_ok s (AList.delete k m)"
  using set_delete_subset[of k m] by (auto simp: queues_ok_def)

lemma queues_ok_store: "queues_ok s m \<Longrightarrow> queue_ok s k q \<Longrightarrow> queues_ok s (store_queue k q m)"
  by (simp add: store_queue_def queues_ok_update queues_ok_delete)

lemma queue_ok_mono:
  assumes "queue_ok s k q" and "tp_nwant s \<le> tp_nwant s'" and "\<And>w. w < tp_nwant s \<Longrightarrow> w_key (tp_want s' w) = w_key (tp_want s w)"
  shows "queue_ok s' k q"
  using assms by (fastforce simp: queue_ok_def)

lemma queues_ok_mono:
  assumes "queues_ok s m" and "tp_nwant s \<le> tp_nwant s'" and "\<And>w. w < tp_nwant s \<Longrightarrow> w_key (tp_want s' w) = w_key (tp_want s w)"
  shows "queues_ok s' m"
  using assms queue_ok_mono by (fastforce simp: queues_ok_def)

lemma queue_ok_clean_push:
  assumes "queue_ok s k q" and "w < tp_nwant s" and "w_key (tp_want s w) = k"
  shows "queue_ok s k (pushBack w (snd (cleanFront f q c)))"
  using assms cleanFront_content[of q f c] set_dropWhileD[of _ "\<lambda>w. \<not> f w" "wq_content q"]
  by (auto simp: queue_ok_def)

section \<open>Tasks\<close>

lemma spawn_simps [simp]:
  "tp_conn (spawn t s) = tp_conn s" "tp_want (spawn t s) = tp_want s" "tp_nconn (spawn t s) = tp_nconn s"
  "tp_nwant (spawn t s) = tp_nwant s" "tp_holders (spawn t s) = tp_holders s" "tp_idleLRU (spawn t s) = tp_idleLRU s"
  "tp_idleConn (spawn t s) = tp_idleConn s" "tp_idleConnWait (spawn t s) = tp_idleConnWait s"
  "tp_connsPerHost (spawn t s) = tp_connsPerHost s" "tp_connsPerHostWait (spawn t s) = tp_connsPerHostWait s"
  "tp_tasks (spawn t s) = tp_tasks s @ [t]" "tp_MaxConnsPerHost (spawn t s) = tp_MaxConnsPerHost s"
  "tp_MaxIdleConns (spawn t s) = tp_MaxIdleConns s" "tp_MaxIdleConnsPerHost (spawn t s) = tp_MaxIdleConnsPerHost s"
  "tp_closeIdle (spawn t s) = tp_closeIdle s" "tp_IdleConnTimeout (spawn t s) = tp_IdleConnTimeout s"
  "tp_DisableKeepAlives (spawn t s) = tp_DisableKeepAlives s"
  by (simp_all add: spawn_def)

lemma task_slot_cong: "(\<And>w. w_key (tp_want s' w) = w_key (tp_want s w)) \<Longrightarrow> task_slot s' k = task_slot s k"
  by (intro ext) (simp add: task_slot_def split: task.split)

lemma dials_cong:
  "(\<And>w. w_key (tp_want s' w) = w_key (tp_want s w)) \<Longrightarrow> tp_tasks s' = tp_tasks s \<Longrightarrow> dials s' k = dials s k"
  using task_slot_cong[of s' s k] by (simp add: dials_def)

lemma task_ok_mono: "task_ok s t \<Longrightarrow> tp_nwant s \<le> tp_nwant s' \<Longrightarrow> tp_nconn s \<le> tp_nconn s' \<Longrightarrow> task_ok s' t"
  by (auto simp: task_ok_def split: task.splits)

text \<open>The connections and permissions that a task owns.\<close>

definition task_conns :: "task \<Rightarrow> nat list" where
  "task_conns t = (case t of PutCheck pc \<Rightarrow> [pc] | PutIdle pc \<Rightarrow> [pc] | _ \<Rightarrow> [])"

definition task_slots :: "http_transport \<Rightarrow> task \<Rightarrow> connect_key list" where
  "task_slots s t =
     (case t of DialFor w \<Rightarrow> [w_key (tp_want s w)] | Dialing w \<Rightarrow> [w_key (tp_want s w)] | DecConns k \<Rightarrow> [k] | _ \<Rightarrow> [])"

lemma task_puts: "(t = PutCheck pc \<or> t = PutIdle pc) \<longleftrightarrow> pc \<in> set (task_conns t)"
  by (auto simp: task_conns_def split: task.split)

lemma count_task_conns: "count_list (task_conns t) pc = (if t = PutCheck pc \<or> t = PutIdle pc then 1 else 0)"
  by (simp add: task_conns_def split: task.split)

lemma count_task_slots: "count_list (task_slots s t) k = (if task_slot s k t then 1 else 0)"
  by (simp add: task_slots_def task_slot_def split: task.split)

lemma spawn_inv:
  assumes "pool_inv (task_conns t @ X) (task_slots s t @ K) s" and "task_ok s t"
  shows "pool_inv X K (spawn t s)"
proof -
  have u: "uses X (spawn t s) pc = uses (task_conns t @ X) s pc" for pc
    by (simp add: uses_def held_def puts_def pooled_def count_task_conns)
  have d: "dials (spawn t s) k + count_list K k = dials s k + count_list (task_slots s t @ K) k" for k
    using task_slot_cong[of "spawn t s" s k] by (simp add: dials_def count_task_slots)
  have o: "open_conns (spawn t s) k = open_conns s k" "conn_count (spawn t s) k = conn_count s k" for k
    by (simp_all add: open_conns_def conn_count_def)
  have i: "idles_at k (spawn t s) = idles_at k s" for k by (simp add: idles_at_def)
  have q: "queues_ok s m \<Longrightarrow> queues_ok (spawn t s) m" for m by (rule queues_ok_mono) simp_all
  have t: "task_ok s t' \<Longrightarrow> task_ok (spawn t s) t'" for t' by (erule task_ok_mono) simp_all
  show ?thesis
    using assms q t d by (auto simp: pool_inv_defs u o i add.assoc)
qed

lemma filter_remove1: "t \<in> set ts \<Longrightarrow> length (filter P ts) = length (filter P (remove1 t ts)) + (if P t then 1 else 0)"
  by (induction ts) auto

lemma take_task_inv:
  assumes "pool_inv [] [] s" and "t \<in> set (tp_tasks s)"
  shows "pool_inv (task_conns t) (task_slots s t) (s\<lparr>tp_tasks := remove1 t (tp_tasks s)\<rparr>)" and "task_ok s t"
proof -
  let ?s = "s\<lparr>tp_tasks := remove1 t (tp_tasks s)\<rparr>"
  have u: "uses (task_conns t) ?s pc = uses [] s pc" for pc
    using filter_remove1[OF assms(2), of "\<lambda>t. t = PutCheck pc \<or> t = PutIdle pc"]
    by (simp add: uses_def held_def puts_def pooled_def count_task_conns)
  have ts: "task_slot ?s k = task_slot s k" for k by (rule task_slot_cong) simp
  have d: "dials ?s k + count_list (task_slots s t) k = dials s k" for k
    using filter_remove1[OF assms(2), of "task_slot s k"] by (simp add: dials_def count_task_slots ts)
  have o: "open_conns ?s k = open_conns s k" "conn_count ?s k = conn_count s k" for k
    by (simp_all add: open_conns_def conn_count_def)
  have i: "idles_at k ?s = idles_at k s" for k by (simp add: idles_at_def)
  have q: "queues_ok s m \<Longrightarrow> queues_ok ?s m" for m by (rule queues_ok_mono) simp_all
  have t: "task_ok s t' \<Longrightarrow> task_ok ?s t'" for t' by (erule task_ok_mono) simp_all
  have sub: "set (remove1 t (tp_tasks s)) \<subseteq> set (tp_tasks s)" by (rule set_remove1_subset)
  show "pool_inv (task_conns t) (task_slots s t) ?s"
    using assms(1) q t d sub by (auto simp: pool_inv_defs u o i add.assoc)
  show "task_ok s t" using assms by (simp add: pool_inv_defs)
qed

lemma drop_conns:
  assumes "pool_inv (X @ Y) K s"
  shows "pool_inv Y K s"
proof -
  have "uses Y s pc \<le> uses (X @ Y) s pc" for pc by (simp add: uses_def)
  then show ?thesis
    using assms unfolding pool_inv_def inv_own_def by (metis le_trans le_zero_eq)
qed

lemma drop_slots:
  assumes "pool_inv X (K @ L) s"
  shows "pool_inv X L s"
proof -
  have "int (card (open_conns s k) + dials s k + count_list L k) \<le> int (card (open_conns s k) + dials s k + count_list (K @ L) k)" for k
    by simp
  then show ?thesis
    using assms unfolding pool_inv_def inv_count_def by (meson order_trans)
qed

text \<open>A change that the invariant does not see.\<close>

lemma pool_inv_frame:
  assumes "pool_inv X K s"
    and "tp_idleConn s' = tp_idleConn s" and "tp_idleLRU s' = tp_idleLRU s" and "tp_holders s' = tp_holders s"
    and "tp_tasks s' = tp_tasks s" and "tp_want s' = tp_want s" and "tp_nwant s' = tp_nwant s" and "tp_nconn s' = tp_nconn s"
    and "\<And>pc. pc_cacheKey (tp_conn s' pc) = pc_cacheKey (tp_conn s pc)" and "\<And>pc. pc_closed (tp_conn s' pc) = pc_closed (tp_conn s pc)"
    and "\<And>pc. pc_alt (tp_conn s' pc) = pc_alt (tp_conn s pc)"
    and "queues_ok s (tp_idleConnWait s')" and "queues_ok s (tp_connsPerHostWait s')"
    and "tp_connsPerHost s' = tp_connsPerHost s" and "tp_MaxConnsPerHost s' = tp_MaxConnsPerHost s"
  shows "pool_inv X K s'"
proof -
  have u: "uses X s' pc = uses X s pc" for pc by (rule uses_cong) (simp_all add: assms)
  have d: "dials s' k = dials s k" for k by (rule dials_cong) (simp_all add: assms)
  have o: "open_conns s' k = open_conns s k" "conn_count s' k = conn_count s k" for k
    by (simp_all add: open_conns_def conn_count_def assms)
  have i: "idles_at k s' = idles_at k s" for k by (rule idles_at_cong) (rule assms)
  have q: "queues_ok s m \<Longrightarrow> queues_ok s' m" for m by (erule queues_ok_mono) (simp_all add: assms)
  have t: "task_ok s t \<Longrightarrow> task_ok s' t" for t by (erule task_ok_mono) (simp_all add: assms)
  show ?thesis
    using assms(1) q[OF assms(12)] q[OF assms(13)] t unfolding pool_inv_defs u d o i assms(2-11,15) by auto
qed

section \<open>Delivering to a call\<close>

lemma tryDeliver_ok:
  assumes "w_ready x \<longleftrightarrow> w_pc x \<noteq> None \<or> w_err x \<noteq> None" and "pc \<noteq> None \<or> err \<noteq> None"
  shows "tryDeliver pc err x =
    (if w_ready x then Ret (False, x) else Ret (True, x\<lparr>w_ctx := False, w_pc := pc, w_err := err, w_ready := True\<rparr>))"
  using assms by (auto simp: tryDeliver_def close_ready_def)

text \<open>Only the call changes; if it gets a connection it holds it.\<close>

definition delivered_to :: "nat \<Rightarrow> nat option \<Rightarrow> conn_error option \<Rightarrow> http_transport \<Rightarrow> http_transport" where
  "delivered_to w pc err s =
     (let s1 = set_want w ((tp_want s w)\<lparr>w_ctx := False, w_pc := pc, w_err := err, w_ready := True\<rparr>) s
      in if pc \<noteq> None then s1\<lparr>tp_holders := w # tp_holders s\<rparr> else s1)"

lemma deliver_ok:
  assumes "inv_want s" and "pc \<noteq> None \<or> err \<noteq> None"
  shows "deliver w pc err s = (if w_ready (tp_want s w) then Ret (False, s) else Ret (True, delivered_to w pc err s))"
proof -
  have "w_ready (tp_want s w) \<longleftrightarrow> w_pc (tp_want s w) \<noteq> None \<or> w_err (tp_want s w) \<noteq> None"
    using assms(1) by (simp add: inv_want_def)
  note td = tryDeliver_ok[OF this assms(2)]
  show ?thesis by (auto simp: deliver_def td delivered_to_def Let_def set_want_def)
qed

lemma delivered_simps [simp]:
  "tp_conn (delivered_to w pc err s) = tp_conn s" "tp_nconn (delivered_to w pc err s) = tp_nconn s"
  "tp_nwant (delivered_to w pc err s) = tp_nwant s" "tp_idleLRU (delivered_to w pc err s) = tp_idleLRU s"
  "tp_idleConn (delivered_to w pc err s) = tp_idleConn s" "tp_idleConnWait (delivered_to w pc err s) = tp_idleConnWait s"
  "tp_connsPerHost (delivered_to w pc err s) = tp_connsPerHost s" "tp_connsPerHostWait (delivered_to w pc err s) = tp_connsPerHostWait s"
  "tp_tasks (delivered_to w pc err s) = tp_tasks s" "tp_MaxConnsPerHost (delivered_to w pc err s) = tp_MaxConnsPerHost s"
  "tp_MaxIdleConns (delivered_to w pc err s) = tp_MaxIdleConns s"
  "tp_MaxIdleConnsPerHost (delivered_to w pc err s) = tp_MaxIdleConnsPerHost s"
  "tp_closeIdle (delivered_to w pc err s) = tp_closeIdle s" "tp_IdleConnTimeout (delivered_to w pc err s) = tp_IdleConnTimeout s"
  "w_key (tp_want (delivered_to w pc err s) v) = w_key (tp_want s v)"
  "tp_holders (delivered_to w pc err s) = (if pc \<noteq> None then w # tp_holders s else tp_holders s)"
  by (simp_all add: delivered_to_def Let_def set_want_def)

lemma delivered_want:
  "tp_want (delivered_to w pc err s) =
     (tp_want s)(w := (tp_want s w)\<lparr>w_ctx := False, w_pc := pc, w_err := err, w_ready := True\<rparr>)"
  by (simp add: delivered_to_def Let_def set_want_def)

lemma delivered_inv:
  assumes "pool_inv (X0 @ X) K s" and "\<not> w_ready (tp_want s w)" and "w < tp_nwant s"
    and "case pc of None \<Rightarrow> err \<noteq> None | Some c \<Rightarrow> X0 = [c] \<and> pc_cacheKey (tp_conn s c) = w_key (tp_want s w)"
  shows "pool_inv X K (delivered_to w pc err s)"
proof -
  let ?s = "delivered_to w pc err s"
  have w: "w \<notin> set (tp_holders s)"
    using assms(1,2) by (force simp: pool_inv_defs)
  have nx: "w_pc (tp_want s w) = None" using assms(1,2) by (auto simp: pool_inv_defs)
  have h: "map (\<lambda>v. w_pc (tp_want ?s v)) (tp_holders s) = map (\<lambda>v. w_pc (tp_want s v)) (tp_holders s)"
    using w by (auto simp: delivered_want)
  have wp: "w_pc (tp_want ?s w) = pc" by (simp add: delivered_want)
  have hd: "held ?s c = (if pc = Some c then 1 else 0) + held s c" for c
  proof (cases "pc = None")
    case True
    then have "tp_holders ?s = tp_holders s" by simp
    then have "held ?s c = held s c" unfolding held_def by (simp only: h)
    then show ?thesis using True by simp
  next
    case False
    then have "tp_holders ?s = w # tp_holders s" by simp
    then have "held ?s c = count_list (pc # map (\<lambda>v. w_pc (tp_want s v)) (tp_holders s)) (Some c)"
      unfolding held_def by (simp only: list.map h wp)
    then show ?thesis by (simp add: held_def)
  qed
  have u: "uses X ?s c = uses (case pc of None \<Rightarrow> X | Some c \<Rightarrow> [c] @ X) s c" for c
    using hd by (cases pc) (simp_all add: uses_def puts_def pooled_def)
  have inv: "pool_inv (case pc of None \<Rightarrow> X | Some c \<Rightarrow> [c] @ X) K s"
    using assms(1,4) drop_conns by (cases pc) auto
  have d: "dials ?s k = dials s k" for k by (rule dials_cong) simp_all
  have o: "open_conns ?s k = open_conns s k" "conn_count ?s k = conn_count s k" for k
    by (simp_all add: open_conns_def conn_count_def)
  have i: "idles_at k ?s = idles_at k s" for k by (rule idles_at_cong) simp
  have q: "queues_ok s m \<Longrightarrow> queues_ok ?s m" for m by (erule queues_ok_mono) simp_all
  have t: "task_ok s t \<Longrightarrow> task_ok ?s t" for t by (erule task_ok_mono) simp_all
  have hold: "\<forall>v\<in>set (tp_holders ?s). v < tp_nwant s \<and>
      (\<exists>c. w_pc (tp_want ?s v) = Some c \<and> pc_cacheKey (tp_conn s c) = w_key (tp_want s v))"
    using inv assms(3,4) w by (auto simp: pool_inv_defs delivered_want split: option.splits)
  have ready: "\<forall>v. w_ready (tp_want ?s v) \<longleftrightarrow> w_pc (tp_want ?s v) \<noteq> None \<or> w_err (tp_want ?s v) \<noteq> None"
    using inv assms(4) by (auto simp: pool_inv_defs delivered_want split: option.splits)
  have dist: "distinct (tp_holders ?s)" using inv w by (simp add: pool_inv_defs)
  show ?thesis
    using inv hold ready dist q t unfolding pool_inv_defs u d o i by auto
qed

section \<open>Giving back a permission\<close>

lemma queue_ok_pop:
  assumes "queue_ok s k q" and "wq_len q \<noteq> 0"
  obtains w q' where "popFront q = (Some w, q')" "queue_ok s k q'" "w < tp_nwant s" "w_key (tp_want s w) = k"
proof -
  obtain w ws where c: "wq_content q = w # ws" using assms(2) by (cases "wq_content q") (auto simp: length_content)
  have v: "wq_valid q" using assms(1) by (simp add: queue_ok_def)
  obtain q' where "popFront q = (Some w, q')" "wq_valid q'" "wq_content q' = ws" by (rule popFront_content[OF v c])
  then show thesis using that assms(1) c by (simp add: queue_ok_def)
qed

lemma handoff_ok:
  assumes "queue_ok s k q"
  shows "\<exists>r q'. handoff waiting q = Ret (r, q') \<and> queue_ok s k q' \<and>
    (case r of None \<Rightarrow> True | Some w \<Rightarrow> w < tp_nwant s \<and> w_key (tp_want s w) = k)"
  using assms
proof (induction "wq_len q" arbitrary: q rule: less_induct)
  case less
  show ?case
  proof (cases "wq_len q = 0")
    case True
    then show ?thesis using less(2) by (simp add: handoff.simps[of waiting q])
  next
    case False
    obtain w q' where p: "popFront q = (Some w, q')" "queue_ok s k q'" "w < tp_nwant s" "w_key (tp_want s w) = k"
      by (rule queue_ok_pop[OF less(2) False])
    have "wq_len q' < wq_len q" using popFront_len[of q] False p(1) by simp
    from less(1)[OF this p(2)] show ?thesis using False p by (auto simp: handoff.simps[of waiting q])
  qed
qed

lemma conn_count_update:
  "conn_count (s\<lparr>tp_connsPerHost := AList.update k v m\<rparr>) k' = (if k' = k then v else conn_count (s\<lparr>tp_connsPerHost := m\<rparr>) k')"
  "conn_count (s\<lparr>tp_connsPerHost := AList.delete k m\<rparr>) k' = (if k' = k then 0 else conn_count (s\<lparr>tp_connsPerHost := m\<rparr>) k')"
  by (simp_all add: conn_count_def update_conv' delete_conv')

lemma pool_inv_count:
  assumes "pool_inv X L s" and "inv_count K (s\<lparr>tp_connsPerHost := m\<rparr>)"
  shows "pool_inv X K (s\<lparr>tp_connsPerHost := m\<rparr>)"
proof -
  let ?s = "s\<lparr>tp_connsPerHost := m\<rparr>"
  have u: "uses X ?s pc = uses X s pc" for pc by (rule uses_cong) simp_all
  have i: "idles_at k ?s = idles_at k s" for k by (rule idles_at_cong) simp
  have q: "queues_ok s m \<Longrightarrow> queues_ok ?s m" for m by (erule queues_ok_mono) simp_all
  have t: "task_ok s t \<Longrightarrow> task_ok ?s t" for t by (erule task_ok_mono) simp_all
  show ?thesis
    using assms q t unfolding pool_inv_def inv_own_def inv_want_def u i by auto
qed

lemma inv_count_fields:
  assumes "tp_MaxConnsPerHost s' = tp_MaxConnsPerHost s" and "tp_nconn s' = tp_nconn s" and "tp_conn s' = tp_conn s"
    and "tp_want s' = tp_want s" and "tp_tasks s' = tp_tasks s" and "conn_count s' = conn_count s"
  shows "inv_count K s' = inv_count K s"
proof -
  have d: "dials s' k = dials s k" for k by (rule dials_cong) (simp_all add: assms)
  have o: "open_conns s' k = open_conns s k" for k by (simp add: open_conns_def assms)
  show ?thesis by (simp add: inv_count_def d o assms)
qed

lemma decConnsPerHost_ok:
  assumes "pool_inv X (k # K) s"
  shows "\<exists>a b c. decConnsPerHost k s = Ret (s\<lparr>tp_connsPerHost := a, tp_connsPerHostWait := b, tp_tasks := c\<rparr>) \<and>
    pool_inv X K (s\<lparr>tp_connsPerHost := a, tp_connsPerHostWait := b, tp_tasks := c\<rparr>)"
proof (cases "tp_MaxConnsPerHost s \<le> 0")
  case True
  have s: "s\<lparr>tp_connsPerHost := tp_connsPerHost s, tp_connsPerHostWait := tp_connsPerHostWait s, tp_tasks := tp_tasks s\<rparr> = s"
    by simp
  have "decConnsPerHost k s = Ret s" using True by (simp add: decConnsPerHost_def)
  moreover have "pool_inv X K s" using drop_slots[of X "[k]" K s] assms by simp
  ultimately show ?thesis
    by (intro exI[of _ "tp_connsPerHost s"] exI[of _ "tp_connsPerHostWait s"] exI[of _ "tp_tasks s"]) (simp only: s simp_thms)
next
  case False
  define n where "n = conn_count s k"
  have count: "\<forall>k'. int (card (open_conns s k') + dials s k' + count_list (k # K) k') \<le> conn_count s k' \<and>
      conn_count s k' \<le> tp_MaxConnsPerHost s"
    using assms False by (simp add: pool_inv_def inv_count_def)
  then have n: "1 \<le> n" using spec[OF count, of k] by (simp add: n_def)
  let ?q = "queue_at (tp_connsPerHostWait s) k"
  have qs: "queues_ok s (tp_connsPerHostWait s)" using assms by (simp add: pool_inv_defs)
  note qok = queues_ok_at[OF qs, of k]
  obtain r b where rb: "(if 0 < wq_len ?q then
      go_bind (handoff (\<lambda>w. w_waiting (tp_want s w)) ?q)
        (\<lambda>(w, q'). Ret (w, s\<lparr>tp_connsPerHostWait := store_queue k q' (tp_connsPerHostWait s)\<rparr>))
      else Ret (None, s)) = Ret (r, s\<lparr>tp_connsPerHostWait := b\<rparr>)"
    "queues_ok s b" "case r of None \<Rightarrow> True | Some w \<Rightarrow> w < tp_nwant s \<and> w_key (tp_want s w) = k"
  proof (cases "0 < wq_len ?q")
    case True
    obtain r q' where h: "handoff (\<lambda>w. w_waiting (tp_want s w)) ?q = Ret (r, q')" "queue_ok s k q'"
      "case r of None \<Rightarrow> True | Some w \<Rightarrow> w < tp_nwant s \<and> w_key (tp_want s w) = k"
      using handoff_ok[OF qok] by blast
    show thesis
      by (rule that[of r "store_queue k q' (tp_connsPerHostWait s)"]) (use True h queues_ok_store[OF qs h(2)] in simp_all)
  next
    case False
    show thesis by (rule that[of None "tp_connsPerHostWait s"]) (use False qs in simp_all)
  qed
  let ?s1 = "s\<lparr>tp_connsPerHostWait := b\<rparr>"
  have inv1: "pool_inv X (k # K) ?s1"
    by (rule pool_inv_frame[OF assms]) (use rb(2) assms in \<open>simp_all add: pool_inv_defs\<close>)
  have dec: "decConnsPerHost k s = (case r of
      Some w \<Rightarrow> Ret (spawn (DialFor w) ?s1)
    | None \<Rightarrow> Ret (?s1\<lparr>tp_connsPerHost := (if n - 1 = 0 then AList.delete k (tp_connsPerHost s)
        else AList.update k (n - 1) (tp_connsPerHost s))\<rparr>))"
    using False n rb(1) unfolding decConnsPerHost_def n_def conn_count_def Let_def by (cases r) simp_all
  show ?thesis
  proof (cases r)
    case (Some w)
    have w: "w < tp_nwant s" "w_key (tp_want s w) = k" using rb(3) Some by simp_all
    have "pool_inv X K (spawn (DialFor w) ?s1)"
      by (rule spawn_inv) (use inv1 w in \<open>simp_all add: task_conns_def task_slots_def task_ok_def\<close>)
    moreover have "spawn (DialFor w) ?s1 = s\<lparr>tp_connsPerHost := tp_connsPerHost s, tp_connsPerHostWait := b,
        tp_tasks := tp_tasks s @ [DialFor w]\<rparr>"
      by (simp add: spawn_def)
    ultimately show ?thesis using dec Some by (metis option.case(2))
  next
    case None
    let ?m = "if n - 1 = 0 then AList.delete k (tp_connsPerHost s) else AList.update k (n - 1) (tp_connsPerHost s)"
    let ?s2 = "?s1\<lparr>tp_connsPerHost := ?m\<rparr>"
    have cnt: "conn_count ?s2 k' = (if k' = k then n - 1 else conn_count s k')" for k'
      by (simp add: conn_count_def update_conv' delete_conv')
    have d: "dials ?s2 k' = dials s k'" for k' by (rule dials_cong) simp_all
    have o: "open_conns ?s2 k' = open_conns s k'" for k' by (simp add: open_conns_def)
    have "inv_count K ?s2"
      unfolding inv_count_def cnt d o
    proof (intro impI allI)
      fix k'
      show "int (card (open_conns s k') + dials s k' + count_list K k') \<le> (if k' = k then n - 1 else conn_count s k') \<and>
        (if k' = k then n - 1 else conn_count s k') \<le> tp_MaxConnsPerHost ?s2"
        using spec[OF count, of k'] by (auto simp: n_def)
    qed
    then have "pool_inv X K ?s2" by (rule pool_inv_count[OF inv1])
    moreover have "?s2 = s\<lparr>tp_connsPerHost := ?m, tp_connsPerHostWait := b, tp_tasks := tp_tasks s\<rparr>" by simp
    ultimately show ?thesis using dec None by (metis option.case(1))
  qed
qed

section \<open>Closing, and leaving the pool\<close>

lemma pc_close_ok:
  assumes "pool_inv X K s" and "pc < tp_nconn s"
  shows "\<exists>c a b d. pc_close pc e s = Ret (s\<lparr>tp_conn := (tp_conn s)(pc := c), tp_connsPerHost := a, tp_connsPerHostWait := b, tp_tasks := d\<rparr>) \<and>
    pc_cacheKey c = pc_cacheKey (tp_conn s pc) \<and>
    pool_inv X K (s\<lparr>tp_conn := (tp_conn s)(pc := c), tp_connsPerHost := a, tp_connsPerHostWait := b, tp_tasks := d\<rparr>)"
proof (cases "pc_closed (tp_conn s pc)")
  case (Some x)
  let ?c = "(tp_conn s pc)\<lparr>pc_broken := True\<rparr>"
  have "pc_close pc e s = Ret (s\<lparr>tp_conn := (tp_conn s)(pc := ?c), tp_connsPerHost := tp_connsPerHost s,
      tp_connsPerHostWait := tp_connsPerHostWait s, tp_tasks := tp_tasks s\<rparr>)"
    using Some by (simp add: pc_close_def Let_def set_conn_def)
  moreover have "pool_inv X K (s\<lparr>tp_conn := (tp_conn s)(pc := ?c), tp_connsPerHost := tp_connsPerHost s,
      tp_connsPerHostWait := tp_connsPerHostWait s, tp_tasks := tp_tasks s\<rparr>)"
    by (rule pool_inv_frame[OF assms(1)]) (use assms(1) in \<open>simp_all add: pool_inv_defs\<close>)
  ultimately show ?thesis by (intro exI conjI) (assumption | simp)+
next
  case None
  let ?k = "pc_cacheKey (tp_conn s pc)" and ?c = "(tp_conn s pc)\<lparr>pc_broken := True, pc_closed := Some e\<rparr>"
  let ?s = "set_conn pc ?c s"
  have u: "uses X ?s c = uses X s c" for c by (rule uses_cong) (simp_all add: set_conn_def)
  have d: "dials ?s k = dials s k" for k by (rule dials_cong) (simp_all add: set_conn_def)
  have i: "idles_at k ?s = idles_at k s" for k by (rule idles_at_cong) (simp add: set_conn_def)
  have q: "queues_ok s m \<Longrightarrow> queues_ok ?s m" for m by (erule queues_ok_mono) (simp_all add: set_conn_def)
  have t: "task_ok s t \<Longrightarrow> task_ok ?s t" for t by (erule task_ok_mono) (simp_all add: set_conn_def)
  have key: "pc_cacheKey (tp_conn ?s c) = pc_cacheKey (tp_conn s c)" "pc_alt (tp_conn ?s c) = pc_alt (tp_conn s c)" for c
    by (simp_all add: set_conn_def)
  have f: "tp_idleConn ?s = tp_idleConn s" "tp_idleLRU ?s = tp_idleLRU s" "tp_holders ?s = tp_holders s" "tp_want ?s = tp_want s"
    "tp_nwant ?s = tp_nwant s" "tp_nconn ?s = tp_nconn s" "tp_tasks ?s = tp_tasks s" "tp_idleConnWait ?s = tp_idleConnWait s"
    "tp_connsPerHostWait ?s = tp_connsPerHostWait s" "tp_MaxConnsPerHost ?s = tp_MaxConnsPerHost s" "conn_count ?s k = conn_count s k" for k
    by (simp_all add: set_conn_def conn_count_def)
  have op: "open_conns s k = (if k = ?k then insert pc (open_conns ?s k) else open_conns ?s k)" "pc \<notin> open_conns ?s k" for k
    using assms(2) None by (auto simp: open_conns_def set_conn_def)
  have card: "card (open_conns s k) + dials s k + count_list K k = card (open_conns ?s k) + dials s k + count_list (?k # K) k" for k
    using op[of k] by (simp split: if_split)
  have "inv_count (?k # K) ?s"
    using assms(1) unfolding pool_inv_def inv_count_def f d card by blast
  then have "pool_inv X (?k # K) ?s"
    using assms(1) q t unfolding pool_inv_def inv_own_def inv_want_def u i key f by auto
  then obtain a b d where dec: "decConnsPerHost ?k ?s = Ret (?s\<lparr>tp_connsPerHost := a, tp_connsPerHostWait := b, tp_tasks := d\<rparr>)"
    "pool_inv X K (?s\<lparr>tp_connsPerHost := a, tp_connsPerHostWait := b, tp_tasks := d\<rparr>)"
    using decConnsPerHost_ok by blast
  have eq: "?s\<lparr>tp_connsPerHost := a, tp_connsPerHostWait := b, tp_tasks := d\<rparr> =
      s\<lparr>tp_conn := (tp_conn s)(pc := ?c), tp_connsPerHost := a, tp_connsPerHostWait := b, tp_tasks := d\<rparr>"
    by (simp add: set_conn_def)
  have "pc_close pc e s = decConnsPerHost ?k ?s" using None by (simp add: pc_close_def Let_def)
  then show ?thesis using dec unfolding eq
    by (intro exI[of _ ?c] exI[of _ a] exI[of _ b] exI[of _ d]) simp
qed

definition drop_idle :: "connect_key \<Rightarrow> nat \<Rightarrow> (connect_key, nat list) gomap \<Rightarrow> (connect_key, nat list) gomap" where
  "drop_idle k pc m =
     (let l = (case map_of m k of None \<Rightarrow> [] | Some l \<Rightarrow> l)
      in if pc \<notin> set l then m else if length l = 1 then AList.delete k m else AList.update k (remove1 pc l) m)"

lemma drop_idle_if:
  "drop_idle k pc (tp_idleConn s) =
     (if pc \<notin> set (idles_at k s) then tp_idleConn s
      else if length (idles_at k s) = 1 then AList.delete k (tp_idleConn s)
      else AList.update k (remove1 pc (idles_at k s)) (tp_idleConn s))"
  unfolding drop_idle_def idles_at_def Let_def ..

lemma removeIdleConn_eq:
  "snd (removeIdleConn pc s) =
     s\<lparr>tp_idleConn := drop_idle (pc_cacheKey (tp_conn s pc)) pc (tp_idleConn s), tp_idleLRU := remove1 pc (tp_idleLRU s)\<rparr>"
proof -
  let ?l = "idles_at (pc_cacheKey (tp_conn s pc)) s"
  have one: "length ?l = 1 \<Longrightarrow> ?l ! 0 = pc \<longleftrightarrow> pc \<in> set ?l" by (cases ?l) auto
  show ?thesis
    using one unfolding drop_idle_if by (cases ?l) (auto simp: removeIdleConn_def Let_def lru_remove_def)
qed

lemma drop_idle_at:
  "gomap_ok m \<Longrightarrow> gomap_ok (drop_idle k pc m)"
  "idles_at k' (s\<lparr>tp_idleConn := drop_idle k pc (tp_idleConn s)\<rparr>) =
     (if k' = k then remove1 pc (idles_at k s) else idles_at k' s)"
proof -
  show "gomap_ok m \<Longrightarrow> gomap_ok (drop_idle k pc m)"
    by (simp add: drop_idle_def Let_def gomap_ok_update gomap_ok_delete)
  have one: "length (idles_at k s) = Suc 0 \<Longrightarrow> pc \<in> set (idles_at k s) \<Longrightarrow> remove1 pc (idles_at k s) = []"
    by (cases "idles_at k s") auto
  have self: "idles_at k' (s\<lparr>tp_idleConn := tp_idleConn s\<rparr>) = idles_at k' s" by simp
  show "idles_at k' (s\<lparr>tp_idleConn := drop_idle k pc (tp_idleConn s)\<rparr>) =
     (if k' = k then remove1 pc (idles_at k s) else idles_at k' s)"
    using one by (auto simp: drop_idle_if idles_at_update idles_at_delete self remove1_idem)
qed

text \<open>A change of the idle connections only.\<close>

lemma pool_inv_idle:
  assumes "pool_inv X K s" and "gomap_ok m" and "distinct l"
    and "\<And>k. distinct (idles_at k (s\<lparr>tp_idleConn := m\<rparr>))"
    and "\<And>k pc. pc \<in> set (idles_at k (s\<lparr>tp_idleConn := m\<rparr>)) \<Longrightarrow> pc_cacheKey (tp_conn s pc) = k \<and> pc \<in> set l"
    and "\<And>pc. uses Y (s\<lparr>tp_idleLRU := l\<rparr>) pc \<le> uses X s pc"
  shows "pool_inv Y K (s\<lparr>tp_idleConn := m, tp_idleLRU := l\<rparr>)"
proof -
  let ?s = "s\<lparr>tp_idleConn := m, tp_idleLRU := l\<rparr>"
  have u: "uses Y ?s pc \<le> uses X s pc" for pc using assms(6)[of pc] by (simp add: uses_def held_def puts_def pooled_def)
  have d: "dials ?s k = dials s k" for k by (rule dials_cong) simp_all
  have o: "open_conns ?s k = open_conns s k" "conn_count ?s k = conn_count s k" for k
    by (simp_all add: open_conns_def conn_count_def)
  have i: "idles_at k ?s = idles_at k (s\<lparr>tp_idleConn := m\<rparr>)" for k by (rule idles_at_cong) simp
  have q: "queues_ok s m \<Longrightarrow> queues_ok ?s m" for m by (erule queues_ok_mono) simp_all
  have t: "task_ok s t \<Longrightarrow> task_ok ?s t" for t by (erule task_ok_mono) simp_all
  have own: "uses Y ?s pc \<le> 1 \<and> (tp_nconn s \<le> pc \<longrightarrow> uses Y ?s pc = 0)" for pc
    using u[of pc] assms(1) by (simp add: pool_inv_defs) (metis le_trans le_zero_eq)
  have "inv_own Y ?s" using assms(2-5) own by (simp add: inv_own_def i)
  then show ?thesis
    using assms(1) q t unfolding pool_inv_def inv_want_def inv_count_def d o by auto
qed

lemma removeIdleConn_ok:
  assumes "pool_inv X K s"
  shows "pool_inv X K (snd (removeIdleConn pc s))"
  unfolding removeIdleConn_eq
proof (rule pool_inv_idle[OF assms])
  let ?k = "pc_cacheKey (tp_conn s pc)" and ?s = "s\<lparr>tp_idleConn := drop_idle (pc_cacheKey (tp_conn s pc)) pc (tp_idleConn s)\<rparr>"
  have inv: "gomap_ok (tp_idleConn s)" "distinct (tp_idleLRU s)" "\<And>k. distinct (idles_at k s)"
    "\<And>k c. c \<in> set (idles_at k s) \<Longrightarrow> pc_cacheKey (tp_conn s c) = k \<and> c \<in> set (tp_idleLRU s)"
    using assms by (simp_all add: pool_inv_defs)
  show "gomap_ok (drop_idle ?k pc (tp_idleConn s))" using inv(1) by (rule drop_idle_at)
  show "distinct (remove1 pc (tp_idleLRU s))" using inv(2) by simp
  show "distinct (idles_at k ?s)" for k using inv(3) by (simp add: drop_idle_at)
  show "pc_cacheKey (tp_conn s c) = k \<and> c \<in> set (remove1 pc (tp_idleLRU s))" if "c \<in> set (idles_at k ?s)" for k c
    using that inv by (auto simp: drop_idle_at split: if_splits)
  show "uses X (s\<lparr>tp_idleLRU := remove1 pc (tp_idleLRU s)\<rparr>) c \<le> uses X s c" for c
    using notin_set_remove1[of c "tp_idleLRU s" pc] by (auto simp: uses_def held_def puts_def pooled_def)
qed

end
