(* ===== verification/Conn_Pool_Correct.thy ===== *)
theory Conn_Pool_Correct
  imports Pool_Invariant
begin

text \<open>
  Correctness of the pool of connections: each operation keeps the invariant and does not panic, hence so do all
  steps, in any order.  From the invariant follow the limits and the exclusive use of connections.
\<close>

section \<open>Putting a connection back\<close>

lemma owned_new:
  assumes "pool_inv (pc # X) K s"
  shows "pc < tp_nconn s" and "pc \<notin> set (tp_idleLRU s)" and "pc \<notin> set (idles_at k s)" and "pc \<notin> set X"
proof -
  have u: "uses (pc # X) s pc \<le> 1" "tp_nconn s \<le> pc \<longrightarrow> uses (pc # X) s pc = 0"
    and l: "c \<in> set (idles_at k s) \<Longrightarrow> c \<in> set (tp_idleLRU s)" for k c
    using assms by (auto simp: pool_inv_defs)
  show "pc < tp_nconn s" using u(2) by (auto simp: uses_def)
  show n: "pc \<notin> set (tp_idleLRU s)" using u(1) by (auto simp: uses_def pooled_def)
  show "pc \<notin> set (idles_at k s)" using l n by auto
  have "count_list X pc = 0" using u(1) by (simp add: uses_def)
  then show "pc \<notin> set X" by (simp add: count_list_0_iff)
qed

lemma pooled_less:
  assumes "pool_inv X K s" and "pc \<in> set (tp_idleLRU s)"
  shows "pc < tp_nconn s"
  using assms by (auto simp: pool_inv_defs uses_def pooled_def not_le[symmetric])

lemma last_notin_butlast: "distinct xs \<Longrightarrow> xs \<noteq> [] \<Longrightarrow> last xs \<notin> set (butlast xs)"
  by (cases xs rule: rev_cases) auto

lemma offer_ok:
  assumes "pool_inv (pc # X) K s" and "queue_ok s (pc_cacheKey (tp_conn s pc)) q"
  shows "\<exists>ok q' s'. offer pc q s = Ret (ok, q', s') \<and> queue_ok s (pc_cacheKey (tp_conn s pc)) q' \<and>
    (if ok then (\<exists>w. s' = delivered_to w (Some pc) None s) \<and> pool_inv X K s' else s' = s)"
  using assms(2)
proof (induction "wq_len q" arbitrary: q rule: less_induct)
  case less
  show ?case
  proof (cases "wq_len q = 0")
    case True
    then show ?thesis using less(2) by (intro exI[of _ False]) (simp add: offer.simps[of pc q s])
  next
    case False
    obtain w q' where p: "popFront q = (Some w, q')" "queue_ok s (pc_cacheKey (tp_conn s pc)) q'" "w < tp_nwant s"
      "w_key (tp_want s w) = pc_cacheKey (tp_conn s pc)"
      by (rule queue_ok_pop[OF less(2) False])
    have d: "deliver w (Some pc) None s = (if w_ready (tp_want s w) then Ret (False, s) else Ret (True, delivered_to w (Some pc) None s))"
      by (rule deliver_ok) (use assms(1) in \<open>simp_all add: pool_inv_def\<close>)
    show ?thesis
    proof (cases "w_ready (tp_want s w)")
      case True
      have "wq_len q' < wq_len q" using popFront_len[of q] False p(1) by simp
      from less(1)[OF this p(2)] show ?thesis using False p True d by (simp add: offer.simps[of pc q s])
    next
      case nr: False
      have "pool_inv X K (delivered_to w (Some pc) None s)"
        by (rule delivered_inv[of "[pc]"]) (use assms(1) nr p in simp_all)
      then show ?thesis using False p nr d by (auto simp: offer.simps[of pc q s])
    qed
  qed
qed

lemma offer_waiting_ok:
  assumes "pool_inv (pc # X) K s"
  shows "\<exists>ok s'. offer_waiting pc s = Ret (ok, s') \<and> pool_inv (if ok then X else pc # X) K s'"
proof (cases "map_of (tp_idleConnWait s) (pc_cacheKey (tp_conn s pc))")
  case None
  then show ?thesis using assms by (intro exI[of _ False]) (simp add: offer_waiting_def Let_def)
next
  case (Some q)
  let ?k = "pc_cacheKey (tp_conn s pc)"
  have qs: "queues_ok s (tp_idleConnWait s)" "queues_ok s (tp_connsPerHostWait s)" using assms by (simp_all add: pool_inv_defs)
  have "queue_ok s ?k q" using queues_ok_at[OF qs(1), of ?k] Some by (simp add: queue_at_def)
  from offer_ok[OF assms this] obtain ok q' s' where o: "offer pc q s = Ret (ok, q', s')" "queue_ok s ?k q'"
    "if ok then (\<exists>w. s' = delivered_to w (Some pc) None s) \<and> pool_inv X K s' else s' = s"
    by blast
  have inv: "pool_inv (if ok then X else pc # X) K s'" using o(3) assms by (cases ok) simp_all
  have mono: "tp_nwant s' = tp_nwant s" "w_key (tp_want s' v) = w_key (tp_want s v)" "tp_idleConnWait s' = tp_idleConnWait s" for v
    using o(3) by (cases ok; auto)+
  have q: "queues_ok s' (store_queue ?k q' (tp_idleConnWait s'))"
    by (rule queues_ok_mono[OF queues_ok_store[OF qs(1) o(2)], of s', folded mono(3)]) (simp_all add: mono)
  have "pool_inv (if ok then X else pc # X) K (s'\<lparr>tp_idleConnWait := store_queue ?k q' (tp_idleConnWait s')\<rparr>)"
    by (rule pool_inv_frame[OF inv]) (use q inv in \<open>simp_all add: pool_inv_def inv_want_def\<close>)
  then show ?thesis using Some o(1) by (simp add: offer_waiting_def Let_def)
qed

lemma decConnsPerHost_idle:
  "decConnsPerHost k (s\<lparr>tp_idleConn := m\<rparr>) = go_bind (decConnsPerHost k s) (\<lambda>s'. Ret (s'\<lparr>tp_idleConn := m\<rparr>))"
proof (cases "0 < wq_len (queue_at (tp_connsPerHostWait s) k)")
  case True
  then show ?thesis
    by (cases "handoff (\<lambda>w. w_waiting (tp_want s w)) (queue_at (tp_connsPerHostWait s) k)")
      (auto simp: decConnsPerHost_def Let_def spawn_def split: option.splits)
qed (simp add: decConnsPerHost_def Let_def)

lemma pc_close_idle:
  "pc_close pc e (s\<lparr>tp_idleConn := m\<rparr>) = go_bind (pc_close pc e s) (\<lambda>s'. Ret (s'\<lparr>tp_idleConn := m\<rparr>))"
proof -
  have "set_conn pc c (s\<lparr>tp_idleConn := m\<rparr>) = (set_conn pc c s)\<lparr>tp_idleConn := m\<rparr>" for c by (simp add: set_conn_def)
  then show ?thesis by (simp add: pc_close_def Let_def decConnsPerHost_idle)
qed

text \<open>Closing the oldest connection and then taking it out is the same as the other way round.\<close>

lemma close_oldest_ok:
  assumes "pool_inv X K s" and "tp_idleLRU s \<noteq> []"
  shows "\<exists>s2. pc_close (last (tp_idleLRU s)) e (s\<lparr>tp_idleLRU := butlast (tp_idleLRU s)\<rparr>) = Ret s2 \<and>
    pool_inv X K (snd (removeIdleConn (last (tp_idleLRU s)) s2))"
proof -
  let ?o = "last (tp_idleLRU s)" and ?l = "butlast (tp_idleLRU s)" and ?m = "tp_idleConn s"
  let ?s = "snd (removeIdleConn ?o s)"
  have dist: "distinct (tp_idleLRU s)" using assms(1) by (simp add: pool_inv_defs)
  have l: "tp_idleLRU s = ?l @ [?o]" using assms(2) by simp
  have no: "?o \<notin> set ?l" by (rule last_notin_butlast[OF dist assms(2)])
  have rem: "remove1 ?o (tp_idleLRU s) = ?l" using no by (subst l) (simp add: remove1_append)
  let ?m' = "drop_idle (pc_cacheKey (tp_conn s ?o)) ?o ?m"
  have s: "?s = s\<lparr>tp_idleConn := ?m', tp_idleLRU := ?l\<rparr>" by (simp add: removeIdleConn_eq rem)
  have inv: "pool_inv X K ?s" by (rule removeIdleConn_ok[OF assms(1)])
  have less: "?o < tp_nconn ?s" using pooled_less[OF assms(1), of ?o] assms(2) by (simp add: s)
  obtain c a b d where close: "pc_close ?o e ?s = Ret (?s\<lparr>tp_conn := (tp_conn ?s)(?o := c), tp_connsPerHost := a, tp_connsPerHostWait := b, tp_tasks := d\<rparr>)"
    "pc_cacheKey c = pc_cacheKey (tp_conn ?s ?o)"
    "pool_inv X K (?s\<lparr>tp_conn := (tp_conn ?s)(?o := c), tp_connsPerHost := a, tp_connsPerHostWait := b, tp_tasks := d\<rparr>)"
    using pc_close_ok[OF inv less, of e] by blast
  let ?t = "?s\<lparr>tp_conn := (tp_conn ?s)(?o := c), tp_connsPerHost := a, tp_connsPerHostWait := b, tp_tasks := d\<rparr>"
  have "s\<lparr>tp_idleLRU := ?l\<rparr> = ?s\<lparr>tp_idleConn := ?m\<rparr>" by (simp add: s)
  then have r: "pc_close ?o e (s\<lparr>tp_idleLRU := ?l\<rparr>) = Ret (?t\<lparr>tp_idleConn := ?m\<rparr>)"
    by (simp add: pc_close_idle close(1))
  have "snd (removeIdleConn ?o (?t\<lparr>tp_idleConn := ?m\<rparr>)) = ?t"
    using close(2) remove1_idem[OF no] rem by (simp add: removeIdleConn_eq)
  then show ?thesis using r close(3) by auto
qed

lemma set_conn_idleAt:
  assumes "pool_inv X K s"
  shows "pool_inv X K (set_conn pc ((tp_conn s pc)\<lparr>pc_idleAt := t\<rparr>) s)"
  by (rule pool_inv_frame[OF assms]) (use assms in \<open>simp_all add: set_conn_def pool_inv_def inv_want_def\<close>)

lemma set_conn_reused:
  assumes "pool_inv X K s"
  shows "pool_inv X K (set_conn pc ((tp_conn s pc)\<lparr>pc_reused := t\<rparr>) s)"
  by (rule pool_inv_frame[OF assms]) (use assms in \<open>simp_all add: set_conn_def pool_inv_def inv_want_def\<close>)

lemma pool_add:
  assumes "pool_inv (pc # X) K s" and "pc_cacheKey (tp_conn s pc) = k"
  shows "pool_inv X K (s\<lparr>tp_idleConn := AList.update k (idles_at k s @ [pc]) (tp_idleConn s), tp_idleLRU := pc # tp_idleLRU s\<rparr>)"
proof (rule pool_inv_idle[OF assms(1)])
  let ?s = "s\<lparr>tp_idleConn := AList.update k (idles_at k s @ [pc]) (tp_idleConn s)\<rparr>"
  have inv: "gomap_ok (tp_idleConn s)" "distinct (tp_idleLRU s)" "\<And>k. distinct (idles_at k s)"
    "\<And>k c. c \<in> set (idles_at k s) \<Longrightarrow> pc_cacheKey (tp_conn s c) = k \<and> c \<in> set (tp_idleLRU s)"
    using assms(1) by (simp_all add: pool_inv_defs)
  note new = owned_new[OF assms(1)]
  show "gomap_ok (AList.update k (idles_at k s @ [pc]) (tp_idleConn s))" using inv(1) by (rule gomap_ok_update)
  show "distinct (pc # tp_idleLRU s)" using inv(2) new(2) by simp
  show "distinct (idles_at k' ?s)" for k' using inv(3) new(3) by (simp add: idles_at_update)
  show "pc_cacheKey (tp_conn s c) = k' \<and> c \<in> set (pc # tp_idleLRU s)" if "c \<in> set (idles_at k' ?s)" for k' c
    using that inv(4) assms(2) by (auto simp: idles_at_update split: if_splits)
  show "uses X (s\<lparr>tp_idleLRU := pc # tp_idleLRU s\<rparr>) c \<le> uses (pc # X) s c" for c
    using new(2) by (auto simp: uses_def held_def puts_def pooled_def)
qed

lemma add_idle_ok:
  assumes "pool_inv (pc # X) K s"
  shows "\<exists>s'. add_idle pc now s = Ret s' \<and> pool_inv X K s'"
proof -
  let ?k = "pc_cacheKey (tp_conn s pc)"
  let ?s = "s\<lparr>tp_idleConn := AList.update ?k (idles_at ?k s @ [pc]) (tp_idleConn s), tp_idleLRU := pc # tp_idleLRU s\<rparr>"
  note inv = pool_add[OF assms refl]
  have lru: "lru_add pc (tp_idleLRU s) = Ret (pc # tp_idleLRU s)" using owned_new(2)[OF assms] by (simp add: lru_add_def)
  have dup: "pc \<notin> set (idles_at ?k s)" by (rule owned_new(3)[OF assms])
  obtain s2 where s2: "pc_close (last (pc # tp_idleLRU s)) TooManyIdle (?s\<lparr>tp_idleLRU := butlast (pc # tp_idleLRU s)\<rparr>) = Ret s2"
    "pool_inv X K (snd (removeIdleConn (last (pc # tp_idleLRU s)) s2))"
    using close_oldest_ok[OF inv, of TooManyIdle] by auto
  define many where "many \<longleftrightarrow> tp_MaxIdleConns s \<noteq> 0 \<and> int (length (pc # tp_idleLRU s)) > tp_MaxIdleConns s"
  have "(if many then
      go_bind (lru_removeOldest (pc # tp_idleLRU s))
        (\<lambda>(oldest, ll'). go_bind (pc_close oldest TooManyIdle (?s\<lparr>tp_idleLRU := ll'\<rparr>))
           (\<lambda>s2. Ret (snd (removeIdleConn oldest s2)))) else Ret ?s) =
    Ret (if many then snd (removeIdleConn (last (pc # tp_idleLRU s)) s2) else ?s)" (is "?close = Ret ?s3")
    using s2(1) by (simp add: lru_removeOldest_def del: last.simps butlast.simps)
  moreover have "add_idle pc now s = go_bind ?close (\<lambda>s3. Ret (set_conn pc ((tp_conn s3 pc)\<lparr>pc_idleAt := now\<rparr>) s3))"
    unfolding add_idle_def Let_def lru many_def go_bind.simps using dup by simp
  ultimately have "add_idle pc now s = Ret (set_conn pc ((tp_conn ?s3 pc)\<lparr>pc_idleAt := now\<rparr>) ?s3)" by (simp only: go_bind.simps)
  moreover have "pool_inv X K ?s3" using inv s2(2) by simp
  ultimately show ?thesis using set_conn_idleAt by blast
qed

lemma put_idle_ok:
  assumes "pool_inv (pc # X) K s"
  shows "\<exists>e s'. put_idle pc now s = Ret (e, s') \<and> pool_inv (if e = None then X else pc # X) K s'"
proof -
  have "\<not> pc_alt (tp_conn s pc)" using assms by (simp add: pool_inv_def inv_want_def)
  moreover obtain ok s1 where o: "offer_waiting pc s = Ret (ok, s1)" "pool_inv (if ok then X else pc # X) K s1"
    using offer_waiting_ok[OF assms] by blast
  moreover obtain s2 where "\<not> ok \<longrightarrow> add_idle pc now s1 = Ret s2 \<and> pool_inv X K s2"
    using add_idle_ok[of pc X K s1 now] o(2) by (cases ok) auto
  ultimately show ?thesis unfolding put_idle_def by (cases ok) auto
qed

section \<open>Taking an idle connection\<close>

definition store_idles :: "connect_key \<Rightarrow> nat list \<Rightarrow> (connect_key, nat list) gomap \<Rightarrow> (connect_key, nat list) gomap" where
  "store_idles k l m = (if 0 < length l then AList.update k l m else AList.delete k m)"

lemma store_idles_at:
  "idles_at k' (s\<lparr>tp_idleConn := store_idles k l (tp_idleConn s)\<rparr>) = (if k' = k then l else idles_at k' s)"
  by (simp add: store_idles_def idles_at_update idles_at_delete)

lemma store_idles_ok: "gomap_ok m \<Longrightarrow> gomap_ok (store_idles k l m)"
  by (simp add: store_idles_def gomap_ok_update gomap_ok_delete)

text \<open>A part \<open>l\<close> of the idle connections is stored back, and \<open>r\<close> was taken out or is nothing.\<close>

lemma store_inv:
  assumes "pool_inv X K s" and "set l \<subseteq> set (idles_at k s)" and "distinct l"
  shows "pool_inv X K (s\<lparr>tp_idleConn := store_idles k l (tp_idleConn s)\<rparr>)"
    and "c \<in> set (tp_idleLRU s) \<Longrightarrow> c \<notin> set l \<Longrightarrow> pc_cacheKey (tp_conn s c) = k \<Longrightarrow>
      pool_inv (c # X) K (s\<lparr>tp_idleConn := store_idles k l (tp_idleConn s), tp_idleLRU := remove1 c (tp_idleLRU s)\<rparr>)"
proof -
  let ?s = "s\<lparr>tp_idleConn := store_idles k l (tp_idleConn s)\<rparr>"
  have inv: "gomap_ok (tp_idleConn s)" "distinct (tp_idleLRU s)" "\<And>k. distinct (idles_at k s)"
    "\<And>k c. c \<in> set (idles_at k s) \<Longrightarrow> pc_cacheKey (tp_conn s c) = k \<and> c \<in> set (tp_idleLRU s)"
    using assms(1) by (simp_all add: pool_inv_defs)
  have sub: "c \<in> set (idles_at k' ?s) \<Longrightarrow> pc_cacheKey (tp_conn s c) = k' \<and> c \<in> set (tp_idleLRU s)" for k' c
    using inv(4) assms(2) by (auto simp: store_idles_at split: if_splits)
  have "pool_inv X K (s\<lparr>tp_idleConn := store_idles k l (tp_idleConn s), tp_idleLRU := tp_idleLRU s\<rparr>)"
    by (rule pool_inv_idle[OF assms(1)]) (use inv assms(3) sub in \<open>simp_all add: store_idles_at store_idles_ok\<close>)
  then show "pool_inv X K ?s" by simp
  assume c: "c \<in> set (tp_idleLRU s)" "c \<notin> set l" "pc_cacheKey (tp_conn s c) = k"
  have nc: "c' \<in> set (idles_at k' ?s) \<Longrightarrow> c' \<noteq> c" for k' c'
    using c inv(4) by (auto simp: store_idles_at split: if_splits)
  show "pool_inv (c # X) K (s\<lparr>tp_idleConn := store_idles k l (tp_idleConn s), tp_idleLRU := remove1 c (tp_idleLRU s)\<rparr>)"
  proof (rule pool_inv_idle[OF assms(1)])
    show "uses (c # X) (s\<lparr>tp_idleLRU := remove1 c (tp_idleLRU s)\<rparr>) c' \<le> uses X s c'" for c'
      using c(1) inv(2) by (auto simp: uses_def held_def puts_def pooled_def)
  qed (use inv assms(3) sub nc in \<open>auto simp: store_idles_at store_idles_ok\<close>)
qed

lemma spawn_idle_inv: "pool_inv X K s \<Longrightarrow> pool_inv X K (spawn (CloseIfStillIdle pc) s)"
  by (rule spawn_inv) (simp_all add: task_conns_def task_slots_def task_ok_def)

lemma idles_at_spawn [simp]: "idles_at k (spawn t s) = idles_at k s"
  by (rule idles_at_cong) simp

lemma pick_ok:
  assumes "pool_inv X K s" and "set l \<subseteq> set (idles_at (w_key (tp_want s w)) s)" and "distinct l" and "w < tp_nwant s" and "\<not> w_ready (tp_want s w)"
  shows "\<exists>l' stop ok s'. pick w now l s = Ret (l', stop, ok, s') \<and>
    pool_inv X K (s'\<lparr>tp_idleConn := store_idles (w_key (tp_want s w)) l' (tp_idleConn s')\<rparr>) \<and>
    tp_nwant s' = tp_nwant s \<and> w_key (tp_want s' w) = w_key (tp_want s w) \<and> (ok \<longrightarrow> stop)"
  using assms
proof (induction "length l" arbitrary: l s rule: less_induct)
  case less
  let ?k = "w_key (tp_want s w)"
  show ?case
  proof (cases "l = []")
    case True
    have "pool_inv X K (s\<lparr>tp_idleConn := store_idles ?k [] (tp_idleConn s)\<rparr>)" by (rule store_inv(1)[OF less(2)]) simp_all
    moreover have "pick w now l s = Ret ([], False, False, s)" using True by (simp add: pick.simps[of w now "[]" s])
    ultimately show ?thesis by blast
  next
    case False
    define c where "c = last l"
    define old where "old \<longleftrightarrow> 0 < tp_IdleConnTimeout s \<and> pc_idleAt (tp_conn s c) < now - tp_IdleConnTimeout s"
    define s1 where "s1 = (if old then spawn (CloseIfStillIdle c) s else s)"
    have inv1: "pool_inv X K s1" using less(2) spawn_idle_inv by (simp add: s1_def)
    have same: "tp_want s1 = tp_want s" "idles_at k s1 = idles_at k s" "tp_nwant s1 = tp_nwant s" "tp_idleLRU s1 = tp_idleLRU s"
      "tp_conn s1 = tp_conn s" for k
      by (simp_all add: s1_def)
    have l: "l = butlast l @ [c]" using False by (simp add: c_def)
    have bl: "set (butlast l) \<subseteq> set (idles_at ?k s1)" "distinct (butlast l)" "c \<notin> set (butlast l)"
      using less(3,4) last_notin_butlast[OF less(4) False] by (auto simp: same c_def distinct_butlast dest: in_set_butlastD)
    have c: "pc_cacheKey (tp_conn s1 c) = ?k" "c \<in> set (tp_idleLRU s1)"
    proof -
      have "c \<in> set (idles_at ?k s)" using less(3) l by (metis in_set_conv_decomp subsetD)
      then show "pc_cacheKey (tp_conn s1 c) = ?k" "c \<in> set (tp_idleLRU s1)" using less(2) by (simp_all add: same pool_inv_defs)
    qed
    show ?thesis
    proof (cases "pc_isBroken (tp_conn s c) \<or> old")
      case True
      have "pick w now l s = pick w now (butlast l) s1"
        using True False by (simp add: pick.simps[of w now l s] Let_def c_def s1_def old_def)
      then show ?thesis using less(1)[of "butlast l" s1] False inv1 bl less(5,6) by (simp add: same)
    next
      case fresh: False
      let ?m = "store_idles ?k (butlast l) (tp_idleConn s1)"
      let ?s2 = "s1\<lparr>tp_idleConn := ?m, tp_idleLRU := remove1 c (tp_idleLRU s1)\<rparr>"
      have "pool_inv (c # X) K ?s2" by (rule store_inv(2)[OF inv1 bl(1,2) c(2) bl(3) c(1)])
      then have inv2: "pool_inv X K (delivered_to w (Some c) None ?s2)"
        by (intro delivered_inv[of "[c]"]) (use less(5,6) c in \<open>simp_all add: same\<close>)
      have d: "deliver w (Some c) None s1 = Ret (True, delivered_to w (Some c) None s1)"
        using deliver_ok[of s1 "Some c" None w] inv1 less(6) by (simp add: pool_inv_def same)
      have alt: "\<not> pc_alt (tp_conn s c)" using less(2) by (simp add: pool_inv_def inv_want_def)
      have p: "pick w now l s = Ret (butlast l, True, True,
          (delivered_to w (Some c) None s1)\<lparr>tp_idleLRU := remove1 c (tp_idleLRU s1)\<rparr>)"
        using False fresh d alt unfolding pick.simps[of w now l s] Let_def c_def[symmetric] old_def[symmetric]
        by (simp add: s1_def lru_remove_def)
      have "delivered_to w (Some c) None ?s2 =
          (delivered_to w (Some c) None s1)\<lparr>tp_idleLRU := remove1 c (tp_idleLRU s1), tp_idleConn := ?m\<rparr>"
        by (simp add: delivered_to_def Let_def set_want_def)
      then show ?thesis using p inv2 by (auto simp: same)
    qed
  qed
qed

lemma queue_update_inv:
  assumes "pool_inv X K s" and "w < tp_nwant s" and "w_key (tp_want s w) = k"
  shows "pool_inv X K (s\<lparr>tp_idleConnWait :=
      AList.update k (pushBack w (snd (cleanFront f (queue_at (tp_idleConnWait s) k) False))) (tp_idleConnWait s)\<rparr>)"
    and "pool_inv X K (s\<lparr>tp_connsPerHostWait :=
      AList.update k (pushBack w (snd (cleanFront f (queue_at (tp_connsPerHostWait s) k) False))) (tp_connsPerHostWait s)\<rparr>)"
proof -
  have qs: "queues_ok s (tp_idleConnWait s)" "queues_ok s (tp_connsPerHostWait s)" using assms(1) by (simp_all add: pool_inv_defs)
  have u: "queues_ok s m \<Longrightarrow> queues_ok s (AList.update k (pushBack w (snd (cleanFront f (queue_at m k) False))) m)" for m
    using queues_ok_update queue_ok_clean_push[OF queues_ok_at assms(2,3)] by blast
  show "pool_inv X K (s\<lparr>tp_idleConnWait :=
      AList.update k (pushBack w (snd (cleanFront f (queue_at (tp_idleConnWait s) k) False))) (tp_idleConnWait s)\<rparr>)"
    by (rule pool_inv_frame[OF assms(1)]) (use qs u in simp_all)
  show "pool_inv X K (s\<lparr>tp_connsPerHostWait :=
      AList.update k (pushBack w (snd (cleanFront f (queue_at (tp_connsPerHostWait s) k) False))) (tp_connsPerHostWait s)\<rparr>)"
    by (rule pool_inv_frame[OF assms(1)]) (use qs u in simp_all)
qed

lemma wait_for_idle_ok: "pool_inv X K s \<Longrightarrow> w < tp_nwant s \<Longrightarrow> pool_inv X K (wait_for_idle w s)"
  using queue_update_inv(1)[of X K s w "w_key (tp_want s w)"] by (simp add: wait_for_idle_def Let_def)

lemma wait_for_idle_nwant: "tp_nwant (wait_for_idle w s) = tp_nwant s"
  by (simp add: wait_for_idle_def Let_def)

lemma queueForIdleConn_ok:
  assumes "pool_inv X K s" and "w < tp_nwant s" and "\<not> w_ready (tp_want s w)"
  shows "\<exists>ok s'. queueForIdleConn w now s = Ret (ok, s') \<and> pool_inv X K s' \<and> tp_nwant s' = tp_nwant s"
proof (cases "tp_DisableKeepAlives s")
  case True
  then show ?thesis using assms(1) by (auto simp: queueForIdleConn_def)
next
  case False
  let ?s = "s\<lparr>tp_closeIdle := False\<rparr>" and ?k = "w_key (tp_want s w)"
  have inv: "pool_inv X K ?s" by (rule pool_inv_frame[OF assms(1)]) (use assms(1) in \<open>simp_all add: pool_inv_def inv_want_def\<close>)
  show ?thesis
  proof (cases "map_of (tp_idleConn s) ?k")
    case None
    then show ?thesis using False wait_for_idle_ok[OF inv, of w] assms(2) by (auto simp: queueForIdleConn_def Let_def wait_for_idle_nwant)
  next
    case (Some l)
    have l: "l = idles_at ?k ?s" using Some by (simp add: idles_at_def)
    have "distinct l" using inv unfolding l by (simp add: pool_inv_def inv_own_def)
    then obtain l' stop ok s' where p: "pick w now l ?s = Ret (l', stop, ok, s')"
      "pool_inv X K (s'\<lparr>tp_idleConn := store_idles ?k l' (tp_idleConn s')\<rparr>)" "tp_nwant s' = tp_nwant s" "ok \<longrightarrow> stop"
      using pick_ok[OF inv, of l w now] assms(2,3) l by auto
    let ?s2 = "s'\<lparr>tp_idleConn := store_idles ?k l' (tp_idleConn s')\<rparr>"
    have "queueForIdleConn w now s = Ret (if stop then (ok, ?s2) else (False, wait_for_idle w ?s2))"
      using False Some p(1) by (simp add: queueForIdleConn_def Let_def store_idles_def)
    moreover have "pool_inv X K (wait_for_idle w ?s2)" by (rule wait_for_idle_ok[OF p(2)]) (simp add: p(3) assms(2))
    ultimately show ?thesis using p(2,3) by (cases stop) (auto simp: wait_for_idle_nwant)
  qed
qed

section \<open>The calls\<close>

lemma new_want_ok:
  assumes "pool_inv X K s"
  shows "pool_inv X K ((set_want (tp_nwant s) \<lparr>w_key = key, w_ctx = True, w_pc = None, w_err = None, w_ready = False\<rparr> s)\<lparr>tp_nwant := Suc (tp_nwant s)\<rparr>)"
    (is "pool_inv X K ?s")
proof -
  have less: "\<forall>w\<in>set (tp_holders s). w < tp_nwant s" using assms by (simp add: pool_inv_defs)
  have "map (\<lambda>w. w_pc (tp_want ?s w)) (tp_holders s) = map (\<lambda>w. w_pc (tp_want s w)) (tp_holders s)"
    using less by (auto simp: set_want_def)
  moreover have "tp_holders ?s = tp_holders s" by (simp add: set_want_def)
  ultimately have "held ?s pc = held s pc" for pc by (simp only: held_def)
  then have u: "uses X ?s pc = uses X s pc" for pc by (simp add: uses_def puts_def pooled_def set_want_def)
  have ts: "task_ok s t \<Longrightarrow> task_slot ?s k t = task_slot s k t" for k t
    by (auto simp: task_slot_def task_ok_def set_want_def split: task.splits)
  have tok: "\<forall>t\<in>set (tp_tasks s). task_ok s t" using assms by (simp add: pool_inv_defs)
  have "filter (task_slot ?s k) (tp_tasks s) = filter (task_slot s k) (tp_tasks s)" for k
    by (rule filter_cong) (use ts tok in auto)
  then have d: "dials ?s k = dials s k" for k by (simp add: dials_def set_want_def)
  have i: "idles_at k ?s = idles_at k s" for k by (rule idles_at_cong) (simp add: set_want_def)
  have o: "open_conns ?s k = open_conns s k" "conn_count ?s k = conn_count s k" for k
    by (simp_all add: open_conns_def conn_count_def set_want_def)
  have q: "queues_ok s m \<Longrightarrow> queues_ok ?s m" for m by (erule queues_ok_mono) (simp_all add: set_want_def)
  have t: "task_ok s t \<Longrightarrow> task_ok ?s t" for t by (erule task_ok_mono) (simp_all add: set_want_def)
  have f: "tp_idleConn ?s = tp_idleConn s" "tp_idleLRU ?s = tp_idleLRU s" "tp_holders ?s = tp_holders s" "tp_tasks ?s = tp_tasks s"
    "tp_nwant ?s = Suc (tp_nwant s)" "tp_nconn ?s = tp_nconn s" "tp_conn ?s = tp_conn s" "tp_idleConnWait ?s = tp_idleConnWait s"
    "tp_connsPerHostWait ?s = tp_connsPerHostWait s" "tp_MaxConnsPerHost ?s = tp_MaxConnsPerHost s"
    by (simp_all add: set_want_def)
  have own: "inv_own X ?s" using assms unfolding pool_inv_def inv_own_def u i f by blast
  have cnt: "inv_count K ?s" using assms unfolding pool_inv_def inv_count_def d o f by blast
  have "inv_want ?s" using assms q t less unfolding pool_inv_def inv_want_def f by (auto simp: set_want_def)
  then show ?thesis using own cnt by (simp add: pool_inv_def)
qed

lemma getConn_ok:
  assumes "pool_inv [] [] s"
  shows "\<exists>s'. getConn key now s = Ret s' \<and> pool_inv [] [] s'"
proof -
  let ?w = "tp_nwant s"
  let ?s = "(set_want ?w \<lparr>w_key = key, w_ctx = True, w_pc = None, w_err = None, w_ready = False\<rparr> s)\<lparr>tp_nwant := Suc ?w\<rparr>"
  have inv: "pool_inv [] [] ?s" by (rule new_want_ok[OF assms])
  obtain ok s' where q: "queueForIdleConn ?w now ?s = Ret (ok, s')" "pool_inv [] [] s'" "tp_nwant s' = Suc ?w"
    using queueForIdleConn_ok[OF inv, of ?w now] by (auto simp: set_want_def)
  have "pool_inv [] [] (spawn (QueueDial ?w) s')"
    by (rule spawn_inv) (use q in \<open>simp_all add: task_conns_def task_slots_def task_ok_def\<close>)
  then show ?thesis using q by (simp add: getConn_def Let_def)
qed

text \<open>A call stops holding its connection, which the running operation owns from then on.\<close>

lemma removeAll_count:
  "distinct hs \<Longrightarrow> h \<in> set hs \<Longrightarrow>
    count_list (map f hs) x = (if f h = x then 1 else 0) + count_list (map f (removeAll h hs)) x"
proof (induction hs)
  case (Cons a hs)
  then show ?case by (cases "a = h") simp_all
qed simp

lemma unhold_inv:
  assumes "pool_inv X K s" and "w \<in> set (tp_holders s)" and "w_pc (tp_want s w) = Some pc"
  shows "pool_inv (pc # X) K (s\<lparr>tp_holders := removeAll w (tp_holders s)\<rparr>)"
proof -
  let ?s = "s\<lparr>tp_holders := removeAll w (tp_holders s)\<rparr>"
  have dist: "distinct (tp_holders s)" using assms(1) by (simp add: pool_inv_defs)
  have u: "uses (pc # X) ?s c = uses X s c" for c
    using removeAll_count[OF dist assms(2), of "\<lambda>w. w_pc (tp_want s w)" "Some c"] assms(3)
    by (auto simp: uses_def held_def puts_def pooled_def)
  have d: "dials ?s k = dials s k" for k by (rule dials_cong) simp_all
  have o: "open_conns ?s k = open_conns s k" "conn_count ?s k = conn_count s k" for k
    by (simp_all add: open_conns_def conn_count_def)
  have i: "idles_at k ?s = idles_at k s" for k by (rule idles_at_cong) simp
  have q: "queues_ok s m \<Longrightarrow> queues_ok ?s m" for m by (erule queues_ok_mono) simp_all
  have t: "task_ok s t \<Longrightarrow> task_ok ?s t" for t by (erule task_ok_mono) simp_all
  show ?thesis using assms(1) q t unfolding pool_inv_defs u d o i by (auto simp: distinct_removeAll)
qed

lemma release_ok:
  assumes "pool_inv [] [] s" and "w \<in> set (tp_holders s)"
  shows "pool_inv [] [] (release w alive e s)"
proof -
  obtain pc where pc: "w_pc (tp_want s w) = Some pc" using assms by (auto simp: pool_inv_defs)
  note inv = unhold_inv[OF assms pc]
  have "pool_inv [pc] [] (s\<lparr>tp_holders := removeAll w (tp_holders s)\<rparr>)" by (rule inv)
  then have "pool_inv [] [] (spawn (if alive then PutCheck pc else CloseConn pc e) (s\<lparr>tp_holders := removeAll w (tp_holders s)\<rparr>))"
    using drop_conns[of "[pc]" "[]"] owned_new(1)[OF inv] by (intro spawn_inv) (auto simp: task_conns_def task_slots_def task_ok_def)
  then show ?thesis by (simp add: release_def pc)
qed

lemma want_cancel_ok:
  assumes "pool_inv [] [] s" and "w \<in> set (tp_holders s) \<or> w_pc (tp_want s w) = None"
  shows "\<exists>s'. want_cancel w e s = Ret s' \<and> pool_inv [] [] s'"
proof -
  let ?x = "tp_want s w"
  define X where "X = (case w_pc ?x of None \<Rightarrow> [] | Some pc \<Rightarrow> [pc])"
  let ?h = "s\<lparr>tp_holders := removeAll w (tp_holders s)\<rparr>"
  have out: "w_pc ?x = None \<Longrightarrow> w \<notin> set (tp_holders s)" using assms(1) by (auto simp: pool_inv_defs)
  then have hold: "w_pc ?x \<noteq> None \<Longrightarrow> w \<in> set (tp_holders s)" using assms(2) by auto
  have invh: "pool_inv X [] ?h"
    using out hold unhold_inv[OF assms(1)] assms(1) by (cases "w_pc ?x") (simp_all add: X_def)
  define x1 where "x1 = ?x\<lparr>w_ready := True, w_ctx := False, w_pc := None, w_err := Some e\<rparr>"
  let ?s = "set_want w x1 ?h"
  have ready: "w_ready ?x \<longleftrightarrow> w_pc ?x \<noteq> None \<or> w_err ?x \<noteq> None" using assms(1) by (simp add: pool_inv_defs)
  have c: "want_cancel w e s = Ret (case w_pc ?x of None \<Rightarrow> ?s | Some pc \<Rightarrow> spawn (PutCheck pc) ?s)"
  proof (cases "w_ready ?x")
    case True
    then have "?x\<lparr>w_ready := True\<rparr> = ?x" by simp
    then have "x1 = ?x\<lparr>w_ctx := False, w_pc := None, w_err := Some e\<rparr>" unfolding x1_def by simp
    then show ?thesis using ready True by (auto simp: want_cancel_def Let_def set_want_def split: option.splits)
  next
    case False
    then show ?thesis using ready by (simp add: want_cancel_def Let_def close_ready_def set_want_def x1_def)
  qed
  have inv: "pool_inv X [] ?s"
  proof -
    have m: "map (\<lambda>v. w_pc (tp_want ?s v)) (tp_holders ?s) = map (\<lambda>v. w_pc (tp_want ?h v)) (tp_holders ?h)"
      by (auto simp: set_want_def)
    have f: "tp_idleConn ?s = tp_idleConn ?h" "tp_idleLRU ?s = tp_idleLRU ?h" "tp_holders ?s = tp_holders ?h" "tp_tasks ?s = tp_tasks ?h"
      "tp_nwant ?s = tp_nwant ?h" "tp_nconn ?s = tp_nconn ?h" "tp_conn ?s = tp_conn ?h" "tp_idleConnWait ?s = tp_idleConnWait ?h"
      "tp_connsPerHostWait ?s = tp_connsPerHostWait ?h" "tp_MaxConnsPerHost ?s = tp_MaxConnsPerHost ?h"
      by (simp_all add: set_want_def)
    have key: "w_key (tp_want ?s v) = w_key (tp_want ?h v)" for v by (simp add: set_want_def x1_def)
    have h: "held ?s c = held ?h c" for c unfolding held_def m ..
    have u: "uses X ?s c = uses X ?h c" for c unfolding uses_def puts_def pooled_def h f ..
    have d: "dials ?s k = dials ?h k" for k by (rule dials_cong) (simp_all only: key f)
    have o: "open_conns ?s k = open_conns ?h k" "conn_count ?s k = conn_count ?h k" for k
      by (simp_all add: open_conns_def conn_count_def set_want_def)
    have i: "idles_at k ?s = idles_at k ?h" for k by (rule idles_at_cong) (rule f)
    have q: "queues_ok ?h m \<Longrightarrow> queues_ok ?s m" for m by (erule queues_ok_mono) (simp_all only: key f order.refl)
    have t: "task_ok ?h t \<Longrightarrow> task_ok ?s t" for t by (erule task_ok_mono) (simp_all only: f order.refl)
    have own: "inv_own X ?s" using invh unfolding pool_inv_def inv_own_def u i f by blast
    have cnt: "inv_count [] ?s" using invh unfolding pool_inv_def inv_count_def d o f by blast
    have "inv_want ?s" using invh q t unfolding pool_inv_def inv_want_def f by (auto simp: set_want_def x1_def)
    then show ?thesis using own cnt by (simp add: pool_inv_def)
  qed
  have "pool_inv [] [] (case w_pc ?x of None \<Rightarrow> ?s | Some pc \<Rightarrow> spawn (PutCheck pc) ?s)"
  proof (cases "w_pc ?x")
    case None
    then show ?thesis using inv by (simp add: X_def)
  next
    case (Some pc)
    have "pool_inv [] [] (spawn (PutCheck pc) ?s)"
      by (rule spawn_inv) (use inv Some in \<open>simp_all add: task_conns_def task_slots_def task_ok_def X_def\<close>)
    then show ?thesis using Some by simp
  qed
  then show ?thesis using c by blast
qed

lemma close_all_ok:
  "pool_inv X K s \<Longrightarrow> \<forall>pc\<in>set l. pc < tp_nconn s \<Longrightarrow> pool_inv X K (fold (\<lambda>pc. spawn (CloseConn pc e)) l s)"
proof (induction l arbitrary: s)
  case (Cons pc l)
  have "pool_inv X K (spawn (CloseConn pc e) s)"
    by (rule spawn_inv) (use Cons.prems in \<open>simp_all add: task_conns_def task_slots_def task_ok_def\<close>)
  then show ?case using Cons by simp
qed simp

lemma CloseIdleConnections_ok:
  assumes "pool_inv [] [] s"
  shows "pool_inv [] [] (CloseIdleConnections s)"
proof -
  have "pool_inv [] [] (s\<lparr>tp_idleConn := [], tp_idleLRU := []\<rparr>)"
    by (rule pool_inv_idle[OF assms]) (simp_all add: idles_at_def uses_def held_def puts_def pooled_def)
  then have inv: "pool_inv [] [] (s\<lparr>tp_idleConn := [], tp_closeIdle := True, tp_idleLRU := []\<rparr>)"
    by (rule pool_inv_frame) (use assms in \<open>simp_all add: pool_inv_defs queues_ok_def queue_ok_def\<close>)
  have "pc < tp_nconn s" if "(k, l) \<in> set (tp_idleConn s)" "pc \<in> set l" for k l pc
  proof -
    have "map_of (tp_idleConn s) k = Some l" using that(1) assms by (simp add: pool_inv_defs map_of_is_SomeI)
    then have "pc \<in> set (idles_at k s)" using that(2) by (simp add: idles_at_def)
    then have "pc \<in> set (tp_idleLRU s)" using assms by (simp add: pool_inv_def inv_own_def)
    then show ?thesis by (rule pooled_less[OF assms])
  qed
  then show ?thesis unfolding CloseIdleConnections_def by (intro close_all_ok inv) auto
qed

section \<open>The goroutines\<close>

lemma queueForDial_ok:
  assumes "pool_inv [] [] s" and "w < tp_nwant s"
  shows "pool_inv [] [] (queueForDial w s)"
proof -
  let ?k = "w_key (tp_want s w)"
  have go: "pool_inv [] [] (spawn (DialFor w) s')" if "pool_inv [] [?k] s'" "tp_want s' = tp_want s" "tp_nwant s' = tp_nwant s" for s'
    by (rule spawn_inv) (use that assms(2) in \<open>simp_all add: task_conns_def task_slots_def task_ok_def\<close>)
  consider "tp_MaxConnsPerHost s \<le> 0" | "0 < tp_MaxConnsPerHost s" "conn_count s ?k < tp_MaxConnsPerHost s"
    | "0 < tp_MaxConnsPerHost s" "\<not> conn_count s ?k < tp_MaxConnsPerHost s" by linarith
  then show ?thesis
  proof cases
    case 1
    have "pool_inv [] [?k] s" using assms(1) 1 by (simp add: pool_inv_def inv_count_def)
    then show ?thesis using 1 go by (simp add: queueForDial_def)
  next
    case 2
    let ?s = "s\<lparr>tp_connsPerHost := AList.update ?k (conn_count s ?k + 1) (tp_connsPerHost s)\<rparr>"
    have count: "\<forall>k. int (card (open_conns s k) + dials s k + count_list [] k) \<le> conn_count s k \<and> conn_count s k \<le> tp_MaxConnsPerHost s"
      using assms(1) 2 by (simp add: pool_inv_def inv_count_def)
    have cnt: "conn_count ?s k = (if k = ?k then conn_count s k + 1 else conn_count s k)" for k
      by (simp add: conn_count_def update_conv')
    have d: "dials ?s k = dials s k" for k by (rule dials_cong) simp_all
    have o: "open_conns ?s k = open_conns s k" for k by (simp add: open_conns_def)
    have "inv_count [?k] ?s"
      unfolding inv_count_def cnt d o
    proof (intro impI allI)
      fix k
      show "int (card (open_conns s k) + dials s k + count_list [?k] k) \<le> (if k = ?k then conn_count s k + 1 else conn_count s k) \<and>
        (if k = ?k then conn_count s k + 1 else conn_count s k) \<le> tp_MaxConnsPerHost ?s"
        using spec[OF count, of k] 2(2) by auto
    qed
    then have "pool_inv [] [?k] ?s" by (rule pool_inv_count[OF assms(1)])
    then show ?thesis using go[of ?s] 2 by (simp add: queueForDial_def conn_count_def Let_def)
  next
    case 3
    then show ?thesis using queue_update_inv(2)[OF assms refl] by (simp add: queueForDial_def conn_count_def Let_def)
  qed
qed

text \<open>A new connection is owned by the operation, and uses its permission.\<close>

definition add_conn :: "persist_conn \<Rightarrow> http_transport \<Rightarrow> http_transport" where
  "add_conn c s = (set_conn (tp_nconn s) c s)\<lparr>tp_nconn := Suc (tp_nconn s)\<rparr>"

lemma add_conn_ok:
  assumes "pool_inv X (pc_cacheKey c # K) s" and "\<not> pc_alt c" and "pc_closed c = None"
  shows "pool_inv (tp_nconn s # X) K (add_conn c s)"
proof -
  let ?n = "tp_nconn s" and ?s = "add_conn c s"
  have f: "tp_idleConn ?s = tp_idleConn s" "tp_idleLRU ?s = tp_idleLRU s" "tp_holders ?s = tp_holders s" "tp_tasks ?s = tp_tasks s"
    "tp_want ?s = tp_want s" "tp_nwant ?s = tp_nwant s" "tp_nconn ?s = Suc ?n" "tp_idleConnWait ?s = tp_idleConnWait s"
    "tp_connsPerHostWait ?s = tp_connsPerHostWait s" "tp_MaxConnsPerHost ?s = tp_MaxConnsPerHost s" "tp_conn ?s = (tp_conn s)(?n := c)"
    by (simp_all add: add_conn_def set_conn_def)
  have old: "uses X s pc \<le> 1" "?n \<le> pc \<Longrightarrow> uses X s pc = 0" for pc using assms(1) by (simp_all add: pool_inv_defs)
  have u: "uses (?n # X) ?s pc = (if pc = ?n then 1 else 0) + uses X s pc" for pc
    by (simp add: uses_def held_def puts_def pooled_def f)
  have d: "dials ?s k = dials s k" for k by (rule dials_cong) (simp_all add: f)
  have i: "idles_at k ?s = idles_at k s" for k by (rule idles_at_cong) (rule f)
  have q: "queues_ok s m \<Longrightarrow> queues_ok ?s m" for m by (erule queues_ok_mono) (simp_all add: f)
  have t: "task_ok s t \<Longrightarrow> task_ok ?s t" for t by (erule task_ok_mono) (simp_all add: f)
  have "open_conns ?s k = (if k = pc_cacheKey c then insert ?n (open_conns s k) else open_conns s k)" for k
    using assms(3) by (auto simp: open_conns_def f less_Suc_eq)
  moreover have "?n \<notin> open_conns s k" for k by (simp add: open_conns_def)
  ultimately have o: "card (open_conns ?s k) + dials s k + count_list K k = card (open_conns s k) + dials s k + count_list (pc_cacheKey c # K) k"
    "conn_count ?s k = conn_count s k" for k
    by (simp_all add: conn_count_def add_conn_def set_conn_def)
  have cnt: "inv_count K ?s" using assms(1) unfolding pool_inv_def inv_count_def f d o by blast
  have in_pool: "pc < ?n" if "pc \<in> set (idles_at k s)" for pc k
    using that pooled_less[OF assms(1), of pc] assms(1) by (simp add: pool_inv_defs)
  have "inv_own X s" using assms(1) by (simp add: pool_inv_def)
  moreover have "(if pc = ?n then 1 else 0) + uses X s pc \<le> 1 \<and> (Suc ?n \<le> pc \<longrightarrow> (if pc = ?n then 1 else 0) + uses X s pc = 0)" for pc
    using old[of pc] by auto
  moreover have "pc_cacheKey (((tp_conn s)(?n := c)) pc) = pc_cacheKey (tp_conn s pc)" if "pc \<in> set (idles_at k s)" for pc k
    using in_pool[OF that] by simp
  ultimately have own: "inv_own (?n # X) ?s" unfolding inv_own_def i u f by simp
  have holder: "pc < ?n" if "w \<in> set (tp_holders s)" "w_pc (tp_want s w) = Some pc" for w pc
  proof (rule ccontr)
    assume "\<not> pc < ?n"
    then have "held s pc = 0" using old(2)[of pc] by (simp add: uses_def)
    then show False using that by (force simp: held_def count_list_0_iff)
  qed
  have held_key: "\<exists>pc. w_pc (tp_want s w) = Some pc \<and> pc_cacheKey (((tp_conn s)(?n := c)) pc) = w_key (tp_want s w)"
    if "w \<in> set (tp_holders s)" for w
  proof -
    have "\<exists>pc. w_pc (tp_want s w) = Some pc \<and> pc_cacheKey (tp_conn s pc) = w_key (tp_want s w)"
      using assms(1) that unfolding pool_inv_def inv_want_def by blast
    then obtain pc where "w_pc (tp_want s w) = Some pc" "pc_cacheKey (tp_conn s pc) = w_key (tp_want s w)" by blast
    then show ?thesis using holder[OF that] by (intro exI[of _ pc]) auto
  qed
  have "inv_want ?s"
    using assms(1,2) q t held_key unfolding pool_inv_def inv_want_def f by simp
  then show ?thesis using own cnt by (simp add: pool_inv_def)
qed

lemma dial_done_ok:
  assumes "pool_inv [] [w_key (tp_want s w)] s" and "w < tp_nwant s"
  shows "\<exists>s'. dial_done w err s = Ret s' \<and> pool_inv [] [] s'"
proof (cases err)
  case (Some e)
  let ?k = "w_key (tp_want s w)"
  have d: "deliver w None (Some e) s = (if w_ready (tp_want s w) then Ret (False, s) else Ret (True, delivered_to w None (Some e) s))"
    by (rule deliver_ok) (use assms(1) in \<open>simp_all add: pool_inv_def\<close>)
  have "\<not> w_ready (tp_want s w) \<Longrightarrow> pool_inv [] [?k] (delivered_to w None (Some e) s)"
    by (rule delivered_inv[of "[]"]) (use assms in simp_all)
  moreover have "pool_inv [] [] (spawn (DecConns ?k) s')" if "pool_inv [] [?k] s'" for s'
    by (rule spawn_inv) (use that in \<open>simp_all add: task_conns_def task_slots_def task_ok_def\<close>)
  ultimately show ?thesis using assms(1) d Some by (simp add: dial_done_def Let_def)
next
  case None
  let ?k = "w_key (tp_want s w)" and ?n = "tp_nconn s"
  let ?c = "\<lparr>pc_cacheKey = ?k, pc_alt = False, pc_idleAt = 0, pc_closed = None, pc_broken = False, pc_reused = False\<rparr>"
  let ?s = "add_conn ?c s"
  have inv: "pool_inv [?n] [] ?s" by (rule add_conn_ok) (use assms(1) in simp_all)
  have f: "tp_want ?s = tp_want s" "tp_nwant ?s = tp_nwant s" "tp_conn ?s ?n = ?c"
    by (simp_all add: add_conn_def set_conn_def)
  have d: "deliver w (Some ?n) None ?s = (if w_ready (tp_want ?s w) then Ret (False, ?s) else Ret (True, delivered_to w (Some ?n) None ?s))"
    by (rule deliver_ok) (use inv in \<open>simp_all add: pool_inv_def\<close>)
  have done_: "dial_done w err s = go_bind (deliver w (Some ?n) None ?s)
      (\<lambda>(delivered, s2). Ret (if \<not> delivered \<or> pc_alt (tp_conn s2 ?n) then spawn (PutCheck ?n) s2 else s2))"
    using None by (simp add: dial_done_def Let_def add_conn_def set_conn_def)
  show ?thesis
  proof (cases "w_ready (tp_want s w)")
    case True
    have "pool_inv [] [] (spawn (PutCheck ?n) ?s)"
      by (rule spawn_inv) (use inv in \<open>simp_all add: task_conns_def task_slots_def task_ok_def\<close>)
    then show ?thesis using True d done_ f by simp
  next
    case False
    have "pool_inv [] [] (delivered_to w (Some ?n) None ?s)"
      by (rule delivered_inv[of "[?n]"]) (use inv False assms(2) f in simp_all)
    then show ?thesis using False d done_ f by simp
  qed
qed

lemma closeConnIfStillIdle_ok:
  assumes "pool_inv [] [] s"
  shows "\<exists>s'. closeConnIfStillIdle pc s = Ret s' \<and> pool_inv [] [] s'"
proof (cases "pc \<in> set (tp_idleLRU s)")
  case True
  have "pc < tp_nconn (snd (removeIdleConn pc s))" using pooled_less[OF assms True] by (simp add: removeIdleConn_eq)
  then show ?thesis using pc_close_ok[OF removeIdleConn_ok[OF assms]] True by (fastforce simp: closeConnIfStillIdle_def)
qed (use assms in \<open>simp add: closeConnIfStillIdle_def\<close>)

lemma spawn_close:
  assumes "pool_inv [pc] [] s"
  shows "pool_inv [] [] (spawn (CloseConn pc e) s)"
proof -
  have "pool_inv [] [] s" by (rule drop_conns[of "[pc]"]) (simp add: assms)
  then show ?thesis
    using owned_new(1)[OF assms] by (intro spawn_inv) (simp_all add: task_conns_def task_slots_def task_ok_def)
qed

lemma run_task_ok:
  assumes "pool_inv (task_conns t) (task_slots s t) s" and "task_ok s t"
  shows "\<exists>s'. run_task t now err s = Ret s' \<and> pool_inv [] [] s'"
proof (cases t)
  case (QueueDial w)
  then show ?thesis using assms queueForDial_ok[of s w] by (simp add: task_conns_def task_slots_def task_ok_def)
next
  case (DialFor w)
  then have inv: "pool_inv [] [w_key (tp_want s w)] s" and w: "w < tp_nwant s"
    using assms by (simp_all add: task_conns_def task_slots_def task_ok_def)
  have "pool_inv [] [] s" using drop_slots[of "[]" "[w_key (tp_want s w)]" "[]"] inv by simp
  moreover have "pool_inv [] [] (spawn (Dialing w) s)"
    by (rule spawn_inv) (use inv w in \<open>simp_all add: task_conns_def task_slots_def task_ok_def\<close>)
  ultimately show ?thesis using DialFor by (simp add: dial_start_def)
next
  case (Dialing w)
  then show ?thesis using assms dial_done_ok[of s w err] by (simp add: task_conns_def task_slots_def task_ok_def)
next
  case (PutCheck pc)
  then have inv: "pool_inv [pc] [] s" using assms(1) by (simp add: task_conns_def task_slots_def)
  have "pool_inv [] [] (spawn (PutIdle pc) (set_conn pc ((tp_conn s pc)\<lparr>pc_reused := True\<rparr>) s))"
    by (rule spawn_inv) (use set_conn_reused[OF inv] in \<open>simp_all add: task_conns_def task_slots_def task_ok_def\<close>)
  then show ?thesis using PutCheck spawn_close[OF inv] by (simp add: put_check_def)
next
  case (PutIdle pc)
  then have inv: "pool_inv [pc] [] s" using assms(1) by (simp add: task_conns_def task_slots_def)
  obtain e s' where "put_idle pc now s = Ret (e, s')" "pool_inv (if e = None then [] else [pc]) [] s'"
    using put_idle_ok[OF inv] by blast
  then show ?thesis using PutIdle spawn_close by (cases e) simp_all
next
  case (CloseConn pc e)
  then show ?thesis using assms pc_close_ok[of "[]" "[]" s pc e] by (auto simp: task_conns_def task_slots_def task_ok_def)
next
  case (DecConns k)
  then show ?thesis using assms decConnsPerHost_ok[of "[]" k "[]" s] by (auto simp: task_conns_def task_slots_def)
next
  case (CloseIfStillIdle pc)
  then show ?thesis using assms closeConnIfStillIdle_ok by (simp add: task_conns_def task_slots_def)
qed

section \<open>All steps\<close>

lemma pool_step_ok:
  assumes "pool_inv [] [] s" and "pool_step s r"
  shows "\<exists>s'. r = Ret s' \<and> pool_inv [] [] s'"
  using assms(2)
proof cases
  case (get key now)
  then show ?thesis using getConn_ok[OF assms(1)] by simp
next
  case (run t now err)
  let ?s = "s\<lparr>tp_tasks := remove1 t (tp_tasks s)\<rparr>"
  note take = take_task_inv[OF assms(1) run(2)]
  have "task_slots ?s t = task_slots s t" by (simp add: task_slots_def split: task.split)
  moreover have "task_ok ?s t" using take(2) by (rule task_ok_mono) simp_all
  ultimately show ?thesis using run_task_ok[of t ?s now err] take(1) run(1) by simp
next
  case (cancel w e)
  then show ?thesis using want_cancel_ok[OF assms(1)] by simp
next
  case (finish w alive e)
  then show ?thesis using release_ok[OF assms(1)] by simp
next
  case (closing pc e)
  then show ?thesis using pc_close_ok[OF assms(1)] by fastforce
next
  case (remove pc)
  then show ?thesis using removeIdleConn_ok[OF assms(1)] by simp
next
  case (timer pc)
  then show ?thesis using closeConnIfStillIdle_ok[OF assms(1)] by simp
next
  case close_idle
  then show ?thesis using CloseIdleConnections_ok[OF assms(1)] by simp
qed

lemma pool_state_inv: "pool_state s \<Longrightarrow> pool_inv [] [] s"
proof (induction rule: pool_state.induct)
  case (new d i h m t)
  show ?case
    by (simp add: pool_inv_defs new_transport_def uses_def held_def puts_def pooled_def idles_at_def queues_ok_def
        open_conns_def dials_def conn_count_def)
next
  case (step s s')
  then show ?case using pool_step_ok by fastforce
qed

text \<open>C8: No panic of the pool is reachable.  Whatever calls, cancels, ends of round trips, dials with their results,
  timers, closing connections and calls of CloseIdleConnections come in whatever order, and wherever the goroutines
  are interrupted between two locked sections, no step panics: not for a connection that is already idle or
  already in the LRU list, not for an underflow of the count of connections, not for a result delivered twice or a
  channel closed twice.\<close>

theorem pool_no_panic:
  assumes "pool_state s" and "pool_step s r"
  shows "\<exists>s'. r = Ret s' \<and> pool_state s'"
proof -
  obtain s' where "r = Ret s'" using pool_step_ok[OF pool_state_inv[OF assms(1)] assms(2)] by blast
  then show ?thesis using pool_state.step[OF assms(1)] assms(2) by blast
qed

text \<open>C9: A connection is used by one call at a time, in every reachable state: two calls that hold the same
  connection are the same call, the connection that a call holds is in no list of idle connections and is not about
  to be put there, and it is a connection for the proxy, scheme and address that the call asked for.\<close>

theorem pool_exclusive:
  assumes "pool_state s" and "w \<in> set (tp_holders s)" and "w_pc (tp_want s w) = Some pc"
  shows "pc_cacheKey (tp_conn s pc) = w_key (tp_want s w) \<and> pc \<notin> set (idles_at k s) \<and> pc \<notin> set (tp_idleLRU s) \<and>
    PutCheck pc \<notin> set (tp_tasks s) \<and> PutIdle pc \<notin> set (tp_tasks s) \<and>
    (\<forall>v\<in>set (tp_holders s). w_pc (tp_want s v) = Some pc \<longrightarrow> v = w)"
proof -
  note inv = pool_state_inv[OF assms(1)]
  note own = unhold_inv[OF inv assms(2,3)]
  let ?s = "s\<lparr>tp_holders := removeAll w (tp_holders s)\<rparr>"
  have u: "uses [pc] ?s pc \<le> 1" using own by (simp add: pool_inv_defs)
  have "held ?s pc = 0" "puts s pc = 0" using u by (simp_all add: uses_def puts_def)
  then have "\<forall>v\<in>set (tp_holders s). w_pc (tp_want s v) = Some pc \<longrightarrow> v = w" "\<forall>t\<in>set (tp_tasks s). t \<noteq> PutCheck pc \<and> t \<noteq> PutIdle pc"
    by (force simp: held_def puts_def count_list_0_iff filter_empty_conv)+
  moreover have "pc_cacheKey (tp_conn s pc) = w_key (tp_want s w)" using inv assms(2,3) by (auto simp: pool_inv_defs)
  moreover have "idles_at k ?s = idles_at k s" by (rule idles_at_cong) simp
  ultimately show ?thesis using owned_new(2)[OF own] owned_new(3)[OF own, of k] by auto
qed

text \<open>C10: The limit of connections per host is kept in every reachable state: the open connections with a key and
  the dials for it that are under way are at most MaxConnsPerHost together, and the counter that the code
  compares is never below them.\<close>

theorem pool_host_limit:
  assumes "pool_state s" and "0 < tp_MaxConnsPerHost s"
  shows "int (card (open_conns s k) + dials s k) \<le> conn_count s k \<and> conn_count s k \<le> tp_MaxConnsPerHost s"
  using pool_state_inv[OF assms(1)] assms(2) by (simp add: pool_inv_defs)

section \<open>Examples\<close>

definition key0 :: connect_key where
  "key0 = \<lparr>ck_proxy = [], ck_scheme = ''http'', ck_addr = ''a:80'', ck_onlyH1 = False\<rparr>"

text \<open>With a limit of one connection, the first call has asked for a dial.\<close>

definition pool_limited :: http_transport where "pool_limited = new_transport False 100 2 1 90"

definition want0 :: want_conn where
  "want0 = \<lparr>w_key = key0, w_ctx = True, w_pc = None, w_err = None, w_ready = False\<rparr>"

definition conn0 :: persist_conn where
  "conn0 = \<lparr>pc_cacheKey = key0, pc_alt = False, pc_idleAt = 0, pc_closed = None, pc_broken = False, pc_reused = False\<rparr>"

definition pool_queued :: http_transport where
  "pool_queued = pool_limited\<lparr>tp_want := (tp_want pool_limited)(0 := want0), tp_nwant := 1,
     tp_idleConnWait := [(key0, pushBack 0 empty_queue)], tp_tasks := [QueueDial 0]\<rparr>"

definition pool_permitted :: http_transport where
  "pool_permitted = pool_queued\<lparr>tp_connsPerHost := [(key0, 1)], tp_tasks := [DialFor 0]\<rparr>"

definition pool_served :: http_transport where
  "pool_served = pool_permitted\<lparr>tp_conn := (tp_conn pool_limited)(0 := conn0), tp_nconn := 1,
     tp_want := (tp_want pool_limited)(0 := want0\<lparr>w_ctx := False, w_pc := Some 0, w_ready := True\<rparr>), tp_holders := [0], tp_tasks := []\<rparr>"

definition pool_leaked :: http_transport where
  "pool_leaked = pool_permitted\<lparr>tp_want := (tp_want pool_limited)(0 := want0\<lparr>w_ctx := False, w_err := Some ConnBroken, w_ready := True\<rparr>),
     tp_tasks := []\<rparr>"

lemmas pool_examples = pool_limited_def pool_queued_def pool_permitted_def pool_served_def pool_leaked_def new_transport_def
  want0_def conn0_def set_want_def set_conn_def spawn_def queue_at_def empty_queue_def

lemma pool_queued_get: "getConn key0 0 pool_limited = Ret pool_queued"
  by (simp add: getConn_def queueForIdleConn_def wait_for_idle_def Let_def pool_examples cleanFront.simps peekFront_def pushBack_def)

lemma pool_permitted_run: "run_task (QueueDial 0) 0 None (pool_queued\<lparr>tp_tasks := remove1 (QueueDial 0) (tp_tasks pool_queued)\<rparr>) = Ret pool_permitted"
  by (simp add: queueForDial_def Let_def pool_examples)

lemma pool_dialing_run: "run_task (DialFor 0) 0 None (pool_permitted\<lparr>tp_tasks := remove1 (DialFor 0) (tp_tasks pool_permitted)\<rparr>) =
    Ret (pool_permitted\<lparr>tp_tasks := [Dialing 0]\<rparr>)"
  by (simp add: dial_start_def Let_def pool_examples)

lemma pool_served_run: "run_task (Dialing 0) 0 None (pool_permitted\<lparr>tp_tasks := remove1 (Dialing 0) [Dialing 0]\<rparr>) = Ret pool_served"
  by (simp add: dial_done_def deliver_def tryDeliver_def close_ready_def Let_def pool_examples)

lemma pool_queued_reached: "pool_state pool_queued"
proof (rule pool_state.step)
  show "pool_state pool_limited" unfolding pool_limited_def by (rule pool_state.new)
  show "pool_step pool_limited (Ret pool_queued)"
    using pool_step.get[of pool_limited key0 0] by (simp only: pool_queued_get)
qed

lemma pool_permitted_reached: "pool_state pool_permitted"
proof (rule pool_state.step[OF pool_queued_reached])
  have "QueueDial 0 \<in> set (tp_tasks pool_queued)" by (simp add: pool_queued_def)
  from pool_step.run[OF this, of 0 None] show "pool_step pool_queued (Ret pool_permitted)" by (simp only: pool_permitted_run)
qed

lemma pool_served_reached: "pool_state pool_served"
proof (rule pool_state.step)
  show "pool_state (pool_permitted\<lparr>tp_tasks := [Dialing 0]\<rparr>)"
  proof (rule pool_state.step[OF pool_permitted_reached])
    have "DialFor 0 \<in> set (tp_tasks pool_permitted)" by (simp add: pool_permitted_def)
    from pool_step.run[OF this, of 0 None] show "pool_step pool_permitted (Ret (pool_permitted\<lparr>tp_tasks := [Dialing 0]\<rparr>))"
      by (simp only: pool_dialing_run)
  qed
  have "Dialing 0 \<in> set (tp_tasks (pool_permitted\<lparr>tp_tasks := [Dialing 0]\<rparr>))" by simp
  from pool_step.run[OF this, of 0 None] show "pool_step (pool_permitted\<lparr>tp_tasks := [Dialing 0]\<rparr>) (Ret pool_served)"
    using pool_served_run by simp
qed

lemma pool_no_panic_witness: "\<exists>s'. getConn key0 5 pool_served = Ret s' \<and> pool_state s'"
  by (rule pool_no_panic[OF pool_served_reached pool_step.get])

lemma pool_served_holder: "0 \<in> set (tp_holders pool_served)" "w_pc (tp_want pool_served 0) = Some 0"
  by (simp_all add: pool_examples)

lemma pool_exclusive_witness:
  "pc_cacheKey (tp_conn pool_served 0) = w_key (tp_want pool_served 0) \<and> 0 \<notin> set (idles_at key0 pool_served)"
  using pool_exclusive[OF pool_served_reached pool_served_holder, of key0] by simp

lemma pool_host_limit_witness:
  "int (card (open_conns pool_served key0) + dials pool_served key0) \<le> conn_count pool_served key0 \<and>
    conn_count pool_served key0 \<le> tp_MaxConnsPerHost pool_served"
  by (rule pool_host_limit[OF pool_served_reached]) (simp add: pool_examples)

text \<open>
  A dial that is given up because the call was canceled keeps its permission: the comment of dialConnFor says that
  the count is decremented then, the code only returns.  With a limit of one connection the next call to
  the host waits, while there is no connection, no dial and no task that could serve it.
\<close>

lemma pool_leaked_reached: "pool_state pool_leaked"
proof (rule pool_state.step)
  let ?s = "pool_leaked\<lparr>tp_tasks := [DialFor 0]\<rparr>"
  show "pool_state ?s"
  proof (rule pool_state.step[OF pool_permitted_reached])
    have "0 < tp_nwant pool_permitted" "0 \<in> set (tp_holders pool_permitted) \<or> w_pc (tp_want pool_permitted 0) = None"
      by (simp_all add: pool_examples)
    from pool_step.cancel[OF this, of ConnBroken] show "pool_step pool_permitted (Ret ?s)"
      by (simp add: want_cancel_def close_ready_def Let_def pool_examples)
  qed
  have "DialFor 0 \<in> set (tp_tasks ?s)" by simp
  from pool_step.run[OF this, of 0 None] show "pool_step ?s (Ret pool_leaked)"
    by (simp add: dial_start_def pool_examples)
qed

lemma canceled_dial_keeps_count:
  "pool_state pool_leaked \<and> open_conns pool_leaked key0 = {} \<and> tp_tasks pool_leaked = [] \<and> conn_count pool_leaked key0 = 1 \<and>
    (\<exists>s. getConn key0 0 pool_leaked = Ret s \<and> tp_tasks s = [QueueDial 1] \<and> tp_tasks (queueForDial 1 (s\<lparr>tp_tasks := []\<rparr>)) = [])"
proof -
  have "\<exists>s. getConn key0 0 pool_leaked = Ret s \<and> tp_tasks s = [QueueDial 1] \<and> tp_tasks (queueForDial 1 (s\<lparr>tp_tasks := []\<rparr>)) = []"
    by (simp add: getConn_def queueForIdleConn_def wait_for_idle_def queueForDial_def Let_def pool_examples cleanFront.simps
        peekFront_def pushBack_def popFront_def wq_len_def w_waiting_def)
  then show ?thesis using pool_leaked_reached by (simp add: open_conns_def conn_count_def pool_examples)
qed

end
