(* ===== verification/Go_Writer.thy ===== *)
theory Go_Writer
  imports Chunked
begin

text \<open>
  The buffered writer of package bufio, as src/http/server.go stacks two of them: its buffer, its sticky error and
  the writer behind it.  A writer that takes nothing of a slice without an error would make bufio loop; no
  io.Writer may do that, and here it is an error.
\<close>

record 'w bwriter =
  bw_buf :: string
  bw_err :: "io_error option"
  bw_wr :: 'w

definition new_bwriter :: "'w \<Rightarrow> 'w bwriter" where
  "new_bwriter w = \<lparr>bw_buf = [], bw_err = None, bw_wr = w\<rparr>"

definition bwriter_Flush :: "'w wire \<Rightarrow> 'w bwriter \<Rightarrow> io_error option \<times> 'w bwriter" where
  "bwriter_Flush wr b =
     (if bw_err b \<noteq> None then (bw_err b, b)
      else if bw_buf b = [] then (None, b)
      else case wr (bw_buf b) (bw_wr b) of
        (w, n, e) \<Rightarrow>
          (let err = (if n < length (bw_buf b) \<and> e = None then Some ShortWrite else e)
           in case err of
                None \<Rightarrow> (None, b\<lparr>bw_buf := [], bw_wr := w\<rparr>)
              | Some x \<Rightarrow> (Some x, b\<lparr>bw_buf := drop n (bw_buf b), bw_err := Some x, bw_wr := w\<rparr>)))"

text \<open>Write with a buffer of the given size; \<open>nn\<close> counts the bytes taken.\<close>

function bwriter_loop :: "nat \<Rightarrow> 'w wire \<Rightarrow> string \<Rightarrow> nat \<Rightarrow> 'w bwriter \<Rightarrow> 'w bwriter \<times> nat \<times> io_error option" where
  "bwriter_loop sz wr p nn b =
     (if bw_err b \<noteq> None then (b, nn, bw_err b)
      else if length p \<le> sz - length (bw_buf b) then (b\<lparr>bw_buf := bw_buf b @ p\<rparr>, nn + length p, None)
      else if bw_buf b = [] then
        (case wr p (bw_wr b) of
           (w, n, e) \<Rightarrow>
             if n = 0 \<and> e = None then (b\<lparr>bw_wr := w, bw_err := Some ShortWrite\<rparr>, nn, Some ShortWrite)
             else bwriter_loop sz wr (drop n p) (nn + n) (b\<lparr>bw_wr := w, bw_err := e\<rparr>))
      else (let n = sz - length (bw_buf b)
            in bwriter_loop sz wr (drop n p) (nn + n) (snd (bwriter_Flush wr (b\<lparr>bw_buf := bw_buf b @ take n p\<rparr>)))))"
  by pat_completeness auto
termination
  by (relation "measures [\<lambda>(sz, wr, p, nn, b). if bw_err b = None then 1 else 0, \<lambda>(sz, wr, p, nn, b). length p,
      \<lambda>(sz, wr, p, nn, b). length (bw_buf b)]")
    (auto simp: bwriter_Flush_def Let_def split: prod.splits option.splits if_splits)

declare bwriter_loop.simps [simp del]

definition bwriter_Write :: "nat \<Rightarrow> 'w wire \<Rightarrow> 'w bwriter wire" where
  "bwriter_Write sz wr p b = bwriter_loop sz wr p 0 b"

section \<open>Writers that take everything\<close>

text \<open>
  If the writer behind takes every slice without an error, and \<open>f\<close> is its state after a slice, then a write
  hands over some slices and keeps the rest: together they are the bytes.
\<close>

definition takes :: "'w wire \<Rightarrow> ('w \<Rightarrow> bool) \<Rightarrow> (string \<Rightarrow> 'w \<Rightarrow> 'w) \<Rightarrow> bool" where
  "takes wr P f \<longleftrightarrow> (\<forall>p w. P w \<and> p \<noteq> [] \<longrightarrow> wr p w = (f p w, length p, None) \<and> P (f p w))"

lemma takesD: "takes wr P f \<Longrightarrow> P w \<Longrightarrow> p \<noteq> [] \<Longrightarrow> wr p w = (f p w, length p, None)" "takes wr P f \<Longrightarrow> P w \<Longrightarrow> p \<noteq> [] \<Longrightarrow> P (f p w)"
  by (simp_all add: takes_def)

lemma Flush_takes:
  assumes "takes wr P f" and "P (bw_wr b)" and "bw_err b = None"
  shows "bwriter_Flush wr b =
    (None, b\<lparr>bw_buf := [], bw_wr := (if bw_buf b = [] then bw_wr b else f (bw_buf b) (bw_wr b))\<rparr>)"
  using assms by (simp add: bwriter_Flush_def takesD)

lemma loop_takes:
  assumes "takes wr P f" and "P (bw_wr b)" and "bw_err b = None" and "length (bw_buf b) \<le> sz" and "0 < sz"
  shows "\<exists>ds t. bwriter_loop sz wr p nn b = (b\<lparr>bw_buf := t, bw_wr := fold f ds (bw_wr b)\<rparr>, nn + length p, None) \<and>
    [] \<notin> set ds \<and> length t \<le> sz \<and> P (fold f ds (bw_wr b)) \<and> concat ds @ t = bw_buf b @ p"
  using assms
proof (induction "2 * length p + (if bw_buf b = [] then 0 else 1)" arbitrary: p nn b rule: less_induct)
  case less
  note step = bwriter_loop.simps[of sz wr p nn b]
  show ?case
  proof (cases "length p \<le> sz - length (bw_buf b)")
    case True
    then show ?thesis using less.prems by (intro exI[of _ "[]"] exI[of _ "bw_buf b @ p"]) (simp add: step)
  next
    case False
    show ?thesis
    proof (cases "bw_buf b = []")
      case True
      then have p: "p \<noteq> []" using False by auto
      let ?b = "b\<lparr>bw_wr := f p (bw_wr b)\<rparr>"
      note t = takesD[OF less.prems(1,2) p]
      have "bwriter_loop sz wr p nn b = bwriter_loop sz wr [] (nn + length p) (?b\<lparr>bw_err := None\<rparr>)"
        using False True less.prems(3) t(1) p by (simp add: step)
      also have "\<dots> = (?b, nn + length p, None)" using True less.prems(3) by (simp add: bwriter_loop.simps[of _ _ "[]"])
      finally show ?thesis using True p t(2)
        by (intro exI[of _ "[p]"] exI[of _ "[]"]) simp
    next
      case ne: False
      let ?n = "sz - length (bw_buf b)"
      let ?b1 = "b\<lparr>bw_buf := bw_buf b @ take ?n p\<rparr>"
      have ne1: "bw_buf ?b1 \<noteq> []" using ne by simp
      note t = takesD[OF less.prems(1) _ ne1, of "bw_wr b"]
      let ?b2 = "b\<lparr>bw_buf := [], bw_wr := f (bw_buf b @ take ?n p) (bw_wr b)\<rparr>"
      have fl: "bwriter_Flush wr ?b1 = (None, ?b2)"
        using Flush_takes[OF less.prems(1), of ?b1] less.prems(2,3) ne by simp
      have eq: "bwriter_loop sz wr p nn b = bwriter_loop sz wr (drop ?n p) (nn + ?n) ?b2"
        using False ne less.prems(3) fl by (simp add: step Let_def)
      have P2: "P (bw_wr ?b2)" using t(2) less.prems(2) by simp
      have "2 * length (drop ?n p) + (if bw_buf ?b2 = [] then 0 else 1) < 2 * length p + (if bw_buf b = [] then 0 else 1 :: nat)"
        using ne by simp
      from less.hyps[OF this less.prems(1) P2, where nn = "nn + ?n"] obtain ds u where
        u: "bwriter_loop sz wr (drop ?n p) (nn + ?n) ?b2 = (?b2\<lparr>bw_buf := u, bw_wr := fold f ds (bw_wr ?b2)\<rparr>, nn + ?n + length (drop ?n p), None)"
        "[] \<notin> set ds" "length u \<le> sz" "P (fold f ds (bw_wr ?b2))" "concat ds @ u = drop ?n p"
        using less.prems(3,5) by auto
      have len: "nn + ?n + length (drop ?n p) = nn + length p" using False by simp
      show ?thesis
        using eq u ne len by (intro exI[of _ "(bw_buf b @ take ?n p) # ds"] exI[of _ u]) simp
    qed
  qed
qed

text \<open>What every write keeps of the writer behind, the buffered writer keeps.\<close>

lemma Flush_keeps:
  assumes "\<And>p w. P w \<Longrightarrow> P (fst (wr p w))" and "P (bw_wr b)"
  shows "P (bw_wr (snd (bwriter_Flush wr b)))"
  using assms(1)[OF assms(2), of "bw_buf b"] assms(2)
  by (auto simp: bwriter_Flush_def Let_def split: prod.split option.split)

lemma loop_keeps:
  assumes "\<And>p w. P w \<Longrightarrow> P (fst (wr p w))" and "P (bw_wr b)"
  shows "P (bw_wr (fst (bwriter_loop sz wr p nn b)))"
  using assms
proof (induction sz wr p nn b rule: bwriter_loop.induct)
  case (1 sz wr p nn b)
  note step = bwriter_loop.simps[of sz wr p nn b]
  let ?n = "sz - length (bw_buf b)" and ?b1 = "snd (bwriter_Flush wr (b\<lparr>bw_buf := bw_buf b @ take (sz - length (bw_buf b)) p\<rparr>))"
  obtain w n e where wr: "wr p (bw_wr b) = (w, n, e)" by (metis surj_pair)
  have w: "P w" using "1.prems"(1)[OF "1.prems"(2), of p] wr by simp
  have b1: "P (bw_wr ?b1)" by (rule Flush_keeps) (use "1.prems" in auto)
  show ?case
  proof (cases "bw_err b \<noteq> None \<or> length p \<le> ?n")
    case True
    then show ?thesis using "1.prems"(2) by (auto simp: step)
  next
    case False
    show ?thesis
    proof (cases "bw_buf b = []")
      case True
      then show ?thesis
        using False wr w "1.IH"(1)[of w "(n, e)" n e] "1.prems"(1) by (auto simp: step)
    next
      case ne: False
      have "P (bw_wr (fst (bwriter_loop sz wr (drop ?n p) (nn + ?n) ?b1)))"
        using "1.IH"(2)[of ?n] False ne b1 "1.prems"(1) by auto
      then show ?thesis using False ne by (simp add: step Let_def)
    qed
  qed
qed

lemma Write_keeps:
  "(\<And>p w. P w \<Longrightarrow> P (fst (wr p w))) \<Longrightarrow> P (bw_wr b) \<Longrightarrow> P (bw_wr (fst (bwriter_Write sz wr p b)))"
  unfolding bwriter_Write_def by (rule loop_keeps)

end
