(* ===== verification/Server_Response.thy ===== *)
theory Server_Response
  imports Go_Writer Http_Response Clean_Path
begin

text \<open>
  The response of the server (type response, chunkWriter and conn of src/http/server.go): what a handler writes goes
  through a buffer of 2048 bytes to the chunkWriter, which finalizes the header at its first write, and from there
  through the buffer of the connection.  Parameters: \<open>C\<close> is HeaderValuesContainsToken and \<open>VT\<close> ValidTrailerHeader
  of golang.org/x/net/http/httpguts, \<open>now\<close> the current time.  Hijacking, logging and the cancellation of contexts are
  not modelled.
\<close>

section \<open>The connection\<close>

text \<open>The network takes \<open>nc_room\<close> more bytes, or everything.\<close>

record net_conn =
  nc_out :: string
  nc_room :: "nat option"
  nc_closed :: bool
  nc_werr :: "io_error option"

definition rwc_Write :: "net_conn wire" where
  "rwc_Write p c =
     (if nc_closed c then (c, 0, Some (IoMsg ''use of closed network connection''))
      else case nc_room c of
        None \<Rightarrow> (c\<lparr>nc_out := nc_out c @ p\<rparr>, length p, None)
      | Some r \<Rightarrow>
          if length p \<le> r then (c\<lparr>nc_out := nc_out c @ p, nc_room := Some (r - length p)\<rparr>, length p, None)
          else (c\<lparr>nc_out := nc_out c @ take r p, nc_room := Some 0\<rparr>, r, Some (IoMsg ''connection reset by peer'')))"

definition checkConnErrorWriter_Write :: "net_conn wire" where
  "checkConnErrorWriter_Write p c =
     (case rwc_Write p c of
        (c', n, e) \<Rightarrow> (if e \<noteq> None \<and> nc_werr c' = None then c'\<lparr>nc_werr := e\<rparr> else c', n, e))"

text \<open>The buffered writer of the connection.\<close>

definition bufw_size :: nat where "bufw_size = 4 * 1024"

definition bufw_wire :: "net_conn bwriter wire" where
  "bufw_wire = bwriter_Write bufw_size checkConnErrorWriter_Write"

definition rwc_Close :: "net_conn bwriter \<Rightarrow> net_conn bwriter" where
  "rwc_Close b = b\<lparr>bw_wr := (bw_wr b)\<lparr>nc_closed := True\<rparr>\<rparr>"

section \<open>The server\<close>

record http_server =
  sv_ReadTimeout :: int
  sv_ReadHeaderTimeout :: int
  sv_WriteTimeout :: int
  sv_IdleTimeout :: int
  sv_MaxHeaderBytes :: int
  sv_disableKeepAlives :: bool
  sv_inShutdown :: bool

definition shuttingDown :: "http_server \<Rightarrow> bool" where
  "shuttingDown s = sv_inShutdown s"

definition doKeepAlives :: "http_server \<Rightarrow> bool" where
  "doKeepAlives s = (\<not> sv_disableKeepAlives s \<and> \<not> shuttingDown s)"

definition idleTimeout :: "http_server \<Rightarrow> int" where
  "idleTimeout s = (if sv_IdleTimeout s \<noteq> 0 then sv_IdleTimeout s else sv_ReadTimeout s)"

definition readHeaderTimeout :: "http_server \<Rightarrow> int" where
  "readHeaderTimeout s = (if sv_ReadHeaderTimeout s \<noteq> 0 then sv_ReadHeaderTimeout s else sv_ReadTimeout s)"

definition maxHeaderBytes :: "http_server \<Rightarrow> int" where
  "maxHeaderBytes s = (if sv_MaxHeaderBytes s > 0 then sv_MaxHeaderBytes s else DefaultMaxHeaderBytes)"

definition initialReadLimitSize :: "http_server \<Rightarrow> int" where
  "initialReadLimitSize s = maxHeaderBytes s + 4096"

definition tlsHandshakeTimeout :: "http_server \<Rightarrow> int" where
  "tlsHandshakeTimeout s =
     fold (\<lambda>v ret. if v \<le> 0 then ret else if ret = 0 \<or> v < ret then v else ret)
       [sv_ReadHeaderTimeout s, sv_ReadTimeout s, sv_WriteTimeout s] 0"

section \<open>Times\<close>

text \<open>A time in UTC, as Date, Clock and Weekday of package time give it.\<close>

record utc_time =
  ut_year :: nat
  ut_month :: nat
  ut_day :: nat
  ut_weekday :: nat
  ut_hour :: nat
  ut_min :: nat
  ut_sec :: nat

definition digit_byte :: "nat \<Rightarrow> char" where
  "digit_byte n = char_of ((48 + n) mod 256)"

definition two_digits :: "nat \<Rightarrow> string" where
  "two_digits n = [digit_byte (n div 10), digit_byte (n mod 10)]"

definition appendTime :: "utc_time \<Rightarrow> string" where
  "appendTime t =
     (let days = ''SunMonTueWedThuFriSat''; months = ''JanFebMarAprMayJunJulAugSepOctNovDec'';
          day = drop (3 * ut_weekday t) days; mon = drop (3 * (ut_month t - 1)) months; yy = ut_year t
      in take 3 day @ '', '' @ two_digits (ut_day t) @ '' '' @ take 3 mon @ '' '' @
         [digit_byte (yy div 1000), digit_byte ((yy div 100) mod 10), digit_byte ((yy div 10) mod 10), digit_byte (yy mod 10)] @ '' '' @
         two_digits (ut_hour t) @ '':'' @ two_digits (ut_min t) @ '':'' @ two_digits (ut_sec t) @ '' GMT'')"

section \<open>The response\<close>

text \<open>
  The body of the request may be wrapped: the request then has the expectContinueReader, and reqBody the body
  itself, which is kept in \<open>sr_reqBody\<close> for both.
\<close>

record expect_reader =
  er_closed :: bool
  er_sawEOF :: bool

record srv_response =
  sr_bufw :: "net_conn bwriter"
  sr_server :: http_server
  sr_req :: "body request"
  sr_reqBody :: "body body_val"
  sr_expect :: "expect_reader option"
  sr_wroteHeader :: bool
  sr_wroteContinue :: bool
  sr_wants10KeepAlive :: bool
  sr_wantsClose :: bool
  sr_canWriteContinue :: bool
  cw_header :: "multimap option"
  cw_wroteHeader :: bool
  cw_chunking :: bool
  sr_handlerHeader :: multimap
  sr_calledHeader :: bool
  sr_written :: int
  sr_contentLength :: int
  sr_status :: int
  sr_closeAfterReply :: bool
  sr_fullDuplex :: bool
  sr_requestBodyLimitHit :: bool
  sr_trailers :: "string list"
  sr_handlerDone :: bool

text \<open>Writes to the buffer of the connection; the writer keeps its error.\<close>

definition put :: "string list \<Rightarrow> srv_response \<Rightarrow> srv_response" where
  "put ss w = w\<lparr>sr_bufw := fst (write_strings bufw_wire ss (sr_bufw w))\<rparr>"

definition put_header :: "(string, bool) gomap \<Rightarrow> multimap \<Rightarrow> srv_response \<Rightarrow> srv_response" where
  "put_header exclude h w = w\<lparr>sr_bufw := fst (writeSubset bufw_wire exclude h (sr_bufw w))\<rparr>"

definition flush_bufw :: "srv_response \<Rightarrow> io_error option \<times> srv_response" where
  "flush_bufw w = (case bwriter_Flush checkConnErrorWriter_Write (sr_bufw w) of (e, b) \<Rightarrow> (e, w\<lparr>sr_bufw := b\<rparr>))"

section \<open>The header map\<close>

text \<open>The map that a handler gets is changed by the handler; the copy is made when it is asked for between the
  logical and the physical write.\<close>

definition sr_Header :: "srv_response \<Rightarrow> srv_response" where
  "sr_Header w =
     (let w1 = (if cw_header w = None \<and> sr_wroteHeader w \<and> \<not> cw_wroteHeader w
                then w\<lparr>cw_header := Header_Clone (Some (sr_handlerHeader w))\<rparr> else w)
      in w1\<lparr>sr_calledHeader := True\<rparr>)"

definition change_header :: "(multimap \<Rightarrow> multimap) \<Rightarrow> srv_response \<Rightarrow> srv_response" where
  "change_header f w = (let w1 = sr_Header w in w1\<lparr>sr_handlerHeader := f (sr_handlerHeader w1)\<rparr>)"

definition requestTooLarge :: "srv_response \<Rightarrow> srv_response" where
  "requestTooLarge w =
     (let w1 = w\<lparr>sr_closeAfterReply := True, sr_requestBodyLimitHit := True\<rparr>
      in if \<not> sr_wroteHeader w1 then change_header (Header_Set ''Connection'' ''close'') w1 else w1)"

definition TrailerPrefix :: string where "TrailerPrefix = ''Trailer:''"

definition declareTrailer :: "(string \<Rightarrow> bool) \<Rightarrow> string \<Rightarrow> srv_response \<Rightarrow> srv_response" where
  "declareTrailer VT k0 w =
     (let k = CanonicalHeaderKey k0 in if \<not> VT k then w else w\<lparr>sr_trailers := sr_trailers w @ [k]\<rparr>)"

definition prefixed_trailers :: "multimap \<Rightarrow> multimap option \<Rightarrow> multimap option" where
  "prefixed_trailers h t0 =
     fold (\<lambda>(k, vv) t. if has_prefix k TrailerPrefix
         then Some (AList.update (drop (length TrailerPrefix) k) vv (case t of None \<Rightarrow> [] | Some m \<Rightarrow> m)) else t) h t0"

definition finalTrailers :: "srv_response \<Rightarrow> multimap option" where
  "finalTrailers w =
     fold (\<lambda>k t. Some (fold (\<lambda>v m. Header_Add k v m) (values_at (sr_handlerHeader w) k) (case t of None \<Rightarrow> [] | Some m \<Rightarrow> m)))
       (sr_trailers w) (prefixed_trailers (sr_handlerHeader w) None)"

section \<open>The status line and WriteHeader\<close>

definition status_strings :: "int \<Rightarrow> string list" where
  "status_strings code =
     (let t = StatusText code
      in if t \<noteq> [] then [Itoa code, '' '', t, crlf] else [fmt_03d code @ '' status code '' @ Itoa code @ crlf])"

definition writeStatusLine :: "bool \<Rightarrow> int \<Rightarrow> srv_response \<Rightarrow> srv_response" where
  "writeStatusLine is11 code w = put (status_strings code) (put [if is11 then ''HTTP/1.1 '' else ''HTTP/1.0 ''] w)"

definition excludedHeadersNoBody :: "(string, bool) gomap" where
  "excludedHeadersNoBody = [(''Content-Length'', True), (''Transfer-Encoding'', True)]"

definition checkWriteHeaderCode :: "int \<Rightarrow> unit go" where
  "checkWriteHeaderCode code =
     (if code < 100 \<or> code > 999 then Panic (''invalid WriteHeader code '' @ Itoa code) else Ret ())"

definition write_informational :: "int \<Rightarrow> srv_response \<Rightarrow> srv_response" where
  "write_informational code w =
     (let w1 = (if code = 100 \<and> sr_canWriteContinue w then w\<lparr>sr_canWriteContinue := False\<rparr> else w);
          w2 = writeStatusLine (request_ProtoAtLeast (sr_req w1) 1 1) code w1;
          w3 = put_header excludedHeadersNoBody (sr_handlerHeader w2) w2
      in snd (flush_bufw (put [crlf] w3)))"

definition note_length :: "srv_response \<Rightarrow> srv_response" where
  "note_length w =
     (let cl = header_get ''Content-Length'' (sr_handlerHeader w); bad = w\<lparr>sr_handlerHeader := Header_Del ''Content-Length'' (sr_handlerHeader w)\<rparr>
      in if cl = [] then w else case ParseInt 64 cl of Inr v \<Rightarrow> if 0 \<le> v then w\<lparr>sr_contentLength := v\<rparr> else bad | Inl _ \<Rightarrow> bad)"

definition write_logical :: "int \<Rightarrow> srv_response \<Rightarrow> srv_response" where
  "write_logical code w =
     (let w1 = w\<lparr>sr_wroteHeader := True, sr_status := code\<rparr>
      in note_length (if sr_calledHeader w1 \<and> cw_header w1 = None then w1\<lparr>cw_header := Header_Clone (Some (sr_handlerHeader w1))\<rparr> else w1))"

definition sr_WriteHeader :: "int \<Rightarrow> srv_response \<Rightarrow> srv_response go" where
  "sr_WriteHeader code w =
     (if sr_wroteHeader w then Ret w
      else go_bind (checkWriteHeaderCode code)
        (\<lambda>_. Ret (if 100 \<le> code \<and> code \<le> 199 \<and> code \<noteq> 101 then write_informational code w else write_logical code w)))"

section \<open>The rest of the request body\<close>

text \<open>io.CopyN to io.Discard of one byte more than the server is willing to read.\<close>

definition discard_body :: "body body_val \<Rightarrow> body_error option \<times> body body_val" where
  "discard_body v =
     (case v of
        TheBody b \<Rightarrow>
          (case drain (drain_fuel b) (Some (Suc maxPostHandlerReadBytes)) b of
             (n, e, b') \<Rightarrow> (if n = Suc maxPostHandlerReadBytes then None else e, TheBody b'))
      | _ \<Rightarrow> (Some (BodyIo EOF), v))"

definition close_reqBody :: "body body_val \<Rightarrow> body_error option \<times> body body_val" where
  "close_reqBody v = (case v of TheBody b \<Rightarrow> (case body_Close b of (e, b') \<Rightarrow> (e, TheBody b')) | _ \<Rightarrow> (None, v))"

text \<open>Which of the two, discard and tooBig, the body of the request asks for; it may also forbid the reuse.\<close>

definition body_choice :: "srv_response \<Rightarrow> bool \<times> bool \<times> srv_response" where
  "body_choice w =
     (case sr_expect w of
        Some _ \<Rightarrow> (sr_wroteContinue w, False, w)
      | None \<Rightarrow>
          (case sr_reqBody w of
             TheBody b \<Rightarrow>
               if b_closed b then (False, False, if b_sawEOF b then w else w\<lparr>sr_closeAfterReply := True\<rparr>)
               else if unreadDataSizeLocked b \<ge> int maxPostHandlerReadBytes then (False, True, w)
               else (True, False, w)
           | _ \<Rightarrow> (True, False, w)))"

definition consume_body :: "srv_response \<Rightarrow> bool \<times> srv_response" where
  "consume_body w =
     (case discard_body (sr_reqBody w) of
        (err, v) \<Rightarrow>
          (let w1 = w\<lparr>sr_reqBody := v\<rparr>
           in case err of
                None \<Rightarrow> (True, w1)
              | Some ErrBodyReadAfterClose \<Rightarrow> (False, w1)
              | Some (BodyIo EOF) \<Rightarrow>
                  (case close_reqBody v of
                     (e, v') \<Rightarrow> (False, (if e = None then w1 else w1\<lparr>sr_closeAfterReply := True\<rparr>)\<lparr>sr_reqBody := v'\<rparr>))
              | Some _ \<Rightarrow> (False, w1\<lparr>sr_closeAfterReply := True\<rparr>)))"

section \<open>Finalizing the header\<close>

text \<open>
  What writeHeader prepares: the map and whether the response owns it, the keys left out, and the headers that are
  added (type extraHeader).
\<close>

record header_plan =
  hp_header :: multimap
  hp_owned :: bool
  hp_exclude :: "(string, bool) gomap"
  hp_contentType :: string
  hp_connection :: string
  hp_transferEncoding :: string
  hp_date :: "string option"
  hp_contentLength :: "string option"

definition delHeader :: "string \<Rightarrow> header_plan \<Rightarrow> header_plan" where
  "delHeader key pl =
     (if hp_owned pl then pl\<lparr>hp_header := Header_Del key (hp_header pl)\<rparr>
      else if map_of (hp_header pl) key = None then pl
      else pl\<lparr>hp_exclude := AList.update key True (hp_exclude pl)\<rparr>)"

definition extra_lines :: "header_plan \<Rightarrow> string list list" where
  "extra_lines pl =
     (case hp_date pl of None \<Rightarrow> [] | Some d \<Rightarrow> [[''Date: '', d, crlf]]) @
     (case hp_contentLength pl of None \<Rightarrow> [] | Some n \<Rightarrow> [[''Content-Length: '', n, crlf]]) @
     map (\<lambda>(k, v). [k, '': '', v, crlf])
       (filter (\<lambda>(k, v). v \<noteq> [])
         [(''Content-Type'', hp_contentType pl), (''Connection'', hp_connection pl), (''Transfer-Encoding'', hp_transferEncoding pl)])"

definition extraHeader_Write :: "header_plan \<Rightarrow> srv_response \<Rightarrow> srv_response" where
  "extraHeader_Write pl w = fold put (extra_lines pl) w"

text \<open>The keys of trailers that are known only after the body are no headers.\<close>

definition start_plan :: "srv_response \<Rightarrow> header_plan" where
  "start_plan w =
     \<lparr>hp_header = (case cw_header w of None \<Rightarrow> sr_handlerHeader w | Some h \<Rightarrow> h), hp_owned = (cw_header w \<noteq> None),
      hp_exclude = (case cw_header w of None \<Rightarrow> []
        | Some h \<Rightarrow> map (\<lambda>k. (k, True)) (filter (\<lambda>k. has_prefix k TrailerPrefix) (keys_of h))),
      hp_contentType = [], hp_connection = [], hp_transferEncoding = [], hp_date = None, hp_contentLength = None\<rparr>"

definition announced :: "srv_response \<Rightarrow> string list" where
  "announced w = (case cw_header w of None \<Rightarrow> [] | Some h \<Rightarrow> values_at h ''Trailer'')"

definition has_trailers :: "srv_response \<Rightarrow> bool" where
  "has_trailers w =
     ((case cw_header w of None \<Rightarrow> False | Some h \<Rightarrow> list_ex (\<lambda>k. has_prefix k TrailerPrefix) (keys_of h)) \<or> announced w \<noteq> [])"

definition declare_trailers :: "(string \<Rightarrow> bool) \<Rightarrow> srv_response \<Rightarrow> srv_response" where
  "declare_trailers VT w = fold (declareTrailer VT) (concat (map foreachHeaderElement (announced w))) w"

definition is_HEAD :: "srv_response \<Rightarrow> bool" where
  "is_HEAD w = (rq_Method (sr_req w) = ''HEAD'')"

definition plan_length :: "bool \<Rightarrow> string \<Rightarrow> srv_response \<times> header_plan \<Rightarrow> srv_response \<times> header_plan" where
  "plan_length trailers p = (\<lambda>(w, pl).
     if sr_handlerDone w \<and> \<not> trailers \<and> header_get ''Transfer-Encoding'' (hp_header pl) = [] \<and>
        bodyAllowedForStatus (sr_status w) \<and> \<not> header_has ''Content-Length'' (hp_header pl) \<and> (\<not> is_HEAD w \<or> 0 < length p)
     then (w\<lparr>sr_contentLength := int (length p)\<rparr>, pl\<lparr>hp_contentLength := Some (Itoa (int (length p)))\<rparr>)
     else (w, pl))"

definition keepalive_10 :: "srv_response \<Rightarrow> multimap \<Rightarrow> srv_response" where
  "keepalive_10 w h =
     (if sr_wants10KeepAlive w \<and> doKeepAlives (sr_server w) \<and> header_get ''Content-Length'' h \<noteq> [] \<and>
         header_get ''Connection'' h = ''keep-alive''
      then w\<lparr>sr_closeAfterReply := False\<rparr> else w)"

definition keepalive_sent :: "srv_response \<Rightarrow> bool" where
  "keepalive_sent w =
     (sr_wants10KeepAlive w \<and> (is_HEAD w \<or> sr_contentLength w \<noteq> - 1 \<or> \<not> bodyAllowedForStatus (sr_status w)))"

definition keepalive_mark :: "srv_response \<Rightarrow> multimap \<Rightarrow> srv_response" where
  "keepalive_mark w h =
     (let w1 = (if \<not> keepalive_sent w \<and> (\<not> request_ProtoAtLeast (sr_req w) 1 1 \<or> sr_wantsClose w)
                then w\<lparr>sr_closeAfterReply := True\<rparr> else w)
      in if header_get ''Connection'' h = ''close'' \<or> \<not> doKeepAlives (sr_server w1) then w1\<lparr>sr_closeAfterReply := True\<rparr> else w1)"

definition keepalive_close :: "srv_response \<Rightarrow> multimap \<Rightarrow> srv_response" where
  "keepalive_close w h =
     (let w2 = keepalive_mark w h
      in if (case sr_expect w2 of None \<Rightarrow> False | Some er \<Rightarrow> \<not> er_sawEOF er) then w2\<lparr>sr_closeAfterReply := True\<rparr> else w2)"

definition plan_keepalive :: "srv_response \<times> header_plan \<Rightarrow> srv_response \<times> header_plan" where
  "plan_keepalive = (\<lambda>(w, pl).
     let w1 = keepalive_10 w (hp_header pl)
     in (keepalive_close w1 (hp_header pl),
         if keepalive_sent w1 \<and> \<not> header_has ''Connection'' (hp_header pl) then pl\<lparr>hp_connection := ''keep-alive''\<rparr> else pl))"

definition plan_request_body :: "srv_response \<times> header_plan \<Rightarrow> srv_response \<times> header_plan" where
  "plan_request_body = (\<lambda>(w, pl).
     if rq_ContentLength (sr_req w) \<noteq> 0 \<and> \<not> sr_closeAfterReply w \<and> \<not> sr_fullDuplex w
     then (case body_choice w of
             (discarding, tooBig, w1) \<Rightarrow>
               (case (if discarding then consume_body w1 else (tooBig, w1)) of
                  (tooBig', w2) \<Rightarrow>
                    if tooBig' then (requestTooLarge w2, (delHeader ''Connection'' pl)\<lparr>hp_connection := ''close''\<rparr>) else (w2, pl)))
     else (w, pl))"

definition plan_type :: "string \<Rightarrow> srv_response \<times> header_plan \<Rightarrow> srv_response \<times> header_plan" where
  "plan_type p = (\<lambda>(w, pl).
     (w, if bodyAllowedForStatus (sr_status w) then
           (if Header_Get ''Content-Encoding'' (hp_header pl) = [] \<and> \<not> header_has ''Content-Type'' (hp_header pl) \<and>
               header_get ''Transfer-Encoding'' (hp_header pl) = [] \<and> 0 < length p
            then pl\<lparr>hp_contentType := DetectContentType p\<rparr> else pl)
         else fold delHeader (suppressedHeaders (sr_status w)) pl))"

definition plan_date :: "utc_time \<Rightarrow> srv_response \<times> header_plan \<Rightarrow> srv_response \<times> header_plan" where
  "plan_date now = (\<lambda>(w, pl). (w, if \<not> header_has ''Date'' (hp_header pl) then pl\<lparr>hp_date := Some (appendTime now)\<rparr> else pl))"

text \<open>\<open>te\<close> and \<open>hasCL\<close> were read before the request body was consumed and the header changed.\<close>

definition plan_framing :: "string \<Rightarrow> bool \<Rightarrow> srv_response \<times> header_plan \<Rightarrow> srv_response \<times> header_plan" where
  "plan_framing te hasCL0 = (\<lambda>(w, pl0).
     let both = (hasCL0 \<and> te \<noteq> [] \<and> te \<noteq> ''identity'');
         pl = (if both then delHeader ''Content-Length'' pl0 else pl0);
         hasCL = (hasCL0 \<and> \<not> both); code = sr_status w;
         (w1, pl1) =
           (if is_HEAD w \<or> \<not> bodyAllowedForStatus code \<or> code = 204 then (w, delHeader ''Transfer-Encoding'' pl)
            else if hasCL then (w, delHeader ''Transfer-Encoding'' pl)
            else if request_ProtoAtLeast (sr_req w) 1 1 then
              (if te = ''identity''
               then (w\<lparr>cw_chunking := False, sr_closeAfterReply := True\<rparr>, delHeader ''Transfer-Encoding'' pl)
               else (w\<lparr>cw_chunking := True\<rparr>,
                     let pl2 = pl\<lparr>hp_transferEncoding := ''chunked''\<rparr>
                     in if te = ''chunked'' then delHeader ''Transfer-Encoding'' pl2 else pl2))
            else (w\<lparr>sr_closeAfterReply := True\<rparr>, delHeader ''Transfer-Encoding'' pl))
     in (w1, if cw_chunking w1 then delHeader ''Content-Length'' pl1 else pl1))"

text \<open>The header that chunkWriter owns after the deletions, if there is one.\<close>

definition owned_header :: "header_plan \<Rightarrow> multimap" where
  "owned_header pl = (if hp_owned pl then hp_header pl else [])"

definition plan_connection :: "(string list \<Rightarrow> string \<Rightarrow> bool) \<Rightarrow> srv_response \<times> header_plan \<Rightarrow> srv_response \<times> header_plan" where
  "plan_connection C = (\<lambda>(w, pl).
     if sr_closeAfterReply w \<and>
        (\<not> doKeepAlives (sr_server w) \<or> \<not> hasToken (header_get ''Connection'' (owned_header pl)) ''close'') \<and>
        \<not> isProtocolSwitchResponse C (sr_status w) (hp_header pl)
     then (w, let pl1 = delHeader ''Connection'' pl
              in if request_ProtoAtLeast (sr_req w) 1 1 then pl1\<lparr>hp_connection := ''close''\<rparr> else pl1)
     else (w, pl))"

definition write_plan :: "srv_response \<times> header_plan \<Rightarrow> srv_response" where
  "write_plan = (\<lambda>(w, pl).
     put [crlf] (extraHeader_Write pl (put_header (hp_exclude pl) (owned_header pl)
       (writeStatusLine (request_ProtoAtLeast (sr_req w) 1 1) (sr_status w) w))))"

definition save_header :: "srv_response \<times> header_plan \<Rightarrow> srv_response" where
  "save_header = (\<lambda>(w, pl). if hp_owned pl then w\<lparr>cw_header := Some (hp_header pl)\<rparr> else w)"

text \<open>The stages in their order: whether the response has a length is asked after the first, the encoding that the
  handler has set before it.\<close>

definition first_plan :: "(string \<Rightarrow> bool) \<Rightarrow> string \<Rightarrow> srv_response \<Rightarrow> srv_response \<times> header_plan" where
  "first_plan VT p w = plan_length (has_trailers w) p (declare_trailers VT w, start_plan w)"

definition rest_plan :: "utc_time \<Rightarrow> string \<Rightarrow> string \<Rightarrow> srv_response \<times> header_plan \<Rightarrow> srv_response \<times> header_plan" where
  "rest_plan now p te wp1 =
     plan_framing te (sr_contentLength (fst wp1) \<noteq> - 1) (plan_date now (plan_type p (plan_request_body (plan_keepalive wp1))))"

definition send_plan :: "srv_response \<times> header_plan \<Rightarrow> srv_response" where
  "send_plan wp = write_plan (save_header wp, snd wp)"

definition close_plan :: "(string list \<Rightarrow> string \<Rightarrow> bool) \<Rightarrow> srv_response \<Rightarrow> srv_response \<times> header_plan \<Rightarrow> srv_response" where
  "close_plan C w wp = (if \<not> request_ProtoAtLeast (sr_req w) 1 0 then save_header wp else send_plan (plan_connection C wp))"

definition cw_writeHeader ::
  "(string list \<Rightarrow> string \<Rightarrow> bool) \<Rightarrow> (string \<Rightarrow> bool) \<Rightarrow> utc_time \<Rightarrow> string \<Rightarrow> srv_response \<Rightarrow> srv_response" where
  "cw_writeHeader C VT now p w0 =
     (if cw_wroteHeader w0 then w0
      else let w = w0\<lparr>cw_wroteHeader := True\<rparr>
           in close_plan C w (rest_plan now p (header_get ''Transfer-Encoding'' (hp_header (start_plan w))) (first_plan VT p w)))"

section \<open>The chunkWriter\<close>

definition bufw_Write :: "string \<Rightarrow> srv_response \<Rightarrow> srv_response \<times> nat \<times> io_error option" where
  "bufw_Write p w = (case bufw_wire p (sr_bufw w) of (b, n, e) \<Rightarrow> (w\<lparr>sr_bufw := b\<rparr>, n, e))"

definition close_rwc :: "srv_response \<Rightarrow> srv_response" where
  "close_rwc w = w\<lparr>sr_bufw := rwc_Close (sr_bufw w)\<rparr>"

definition cw_Write ::
  "(string list \<Rightarrow> string \<Rightarrow> bool) \<Rightarrow> (string \<Rightarrow> bool) \<Rightarrow> utc_time \<Rightarrow> srv_response wire" where
  "cw_Write C VT now p w0 =
     (let w = (if \<not> cw_wroteHeader w0 then cw_writeHeader C VT now p w0 else w0)
      in if is_HEAD w then (w, length p, None)
         else case (if cw_chunking w then bufw_Write (hex_of (length p) @ crlf) w else (w, 0, None)) of
           (w1, _, Some err) \<Rightarrow> (close_rwc w1, 0, Some err)
         | (w1, _, None) \<Rightarrow>
             (case bufw_Write p w1 of
                (w2, n, e) \<Rightarrow>
                  (case (if cw_chunking w \<and> e = None then (case bufw_Write crlf w2 of (w3, _, e3) \<Rightarrow> (w3, e3)) else (w2, e)) of
                     (w4, e4) \<Rightarrow> (if e4 \<noteq> None then close_rwc w4 else w4, n, e4))))"

definition cw_flush ::
  "(string list \<Rightarrow> string \<Rightarrow> bool) \<Rightarrow> (string \<Rightarrow> bool) \<Rightarrow> utc_time \<Rightarrow> srv_response \<Rightarrow> io_error option \<times> srv_response" where
  "cw_flush C VT now w = flush_bufw (if \<not> cw_wroteHeader w then cw_writeHeader C VT now [] w else w)"

definition cw_close ::
  "(string list \<Rightarrow> string \<Rightarrow> bool) \<Rightarrow> (string \<Rightarrow> bool) \<Rightarrow> utc_time \<Rightarrow> srv_response \<Rightarrow> srv_response" where
  "cw_close C VT now w0 =
     (let w = (if \<not> cw_wroteHeader w0 then cw_writeHeader C VT now [] w0 else w0)
      in if cw_chunking w then
           (let w1 = put [''0'' @ crlf] w;
                w2 = (case finalTrailers w1 of None \<Rightarrow> w1 | Some t \<Rightarrow> put_header [] t w1)
            in put [crlf] w2)
         else w)"

section \<open>The ResponseWriter\<close>

text \<open>The response with the buffer in front of its chunkWriter.\<close>

type_synonym response_writer = "srv_response bwriter"

definition bufferBeforeChunkingSize :: nat where "bufferBeforeChunkingSize = 2048"

definition on_response :: "(srv_response \<Rightarrow> srv_response) \<Rightarrow> response_writer \<Rightarrow> response_writer" where
  "on_response f rw = rw\<lparr>bw_wr := f (bw_wr rw)\<rparr>"

definition rw_WriteHeader :: "int \<Rightarrow> response_writer \<Rightarrow> response_writer go" where
  "rw_WriteHeader code rw = go_bind (sr_WriteHeader code (bw_wr rw)) (\<lambda>w. Ret (rw\<lparr>bw_wr := w\<rparr>))"

datatype write_error =
  ErrBodyNotAllowed
| ErrContentLength
| WriteIo io_error

definition bodyAllowed :: "srv_response \<Rightarrow> bool go" where
  "bodyAllowed w = (if \<not> sr_wroteHeader w then Panic [] else Ret (bodyAllowedForStatus (sr_status w)))"

definition rw_write ::
  "(string list \<Rightarrow> string \<Rightarrow> bool) \<Rightarrow> (string \<Rightarrow> bool) \<Rightarrow> utc_time \<Rightarrow> string \<Rightarrow> response_writer \<Rightarrow>
   (response_writer \<times> nat \<times> write_error option) go" where
  "rw_write C VT now data rw0 =
     (let rw1 = on_response (\<lambda>w. if sr_canWriteContinue w then w\<lparr>sr_canWriteContinue := False\<rparr> else w) rw0
      in go_bind (if \<not> sr_wroteHeader (bw_wr rw1) then rw_WriteHeader 200 rw1 else Ret rw1)
        (\<lambda>rw. if length data = 0 then Ret (rw, 0, None)
          else go_bind (bodyAllowed (bw_wr rw))
            (\<lambda>allowed. if \<not> allowed then Ret (rw, 0, Some ErrBodyNotAllowed)
              else let rw2 = on_response (\<lambda>w. w\<lparr>sr_written := sr_written w + int (length data)\<rparr>) rw
                   in if sr_contentLength (bw_wr rw2) \<noteq> - 1 \<and> sr_contentLength (bw_wr rw2) < sr_written (bw_wr rw2)
                      then Ret (rw2, 0, Some ErrContentLength)
                      else case bwriter_Write bufferBeforeChunkingSize (cw_Write C VT now) data rw2 of
                        (rw3, n, e) \<Rightarrow> Ret (rw3, n, map_option WriteIo e))))"

definition rw_FlushError ::
  "(string list \<Rightarrow> string \<Rightarrow> bool) \<Rightarrow> (string \<Rightarrow> bool) \<Rightarrow> utc_time \<Rightarrow> response_writer \<Rightarrow> (io_error option \<times> response_writer) go" where
  "rw_FlushError C VT now rw0 =
     go_bind (if \<not> sr_wroteHeader (bw_wr rw0) then rw_WriteHeader 200 rw0 else Ret rw0)
       (\<lambda>rw. case bwriter_Flush (cw_Write C VT now) rw of
          (err, rw1) \<Rightarrow> (case cw_flush C VT now (bw_wr rw1) of
             (e2, w) \<Rightarrow> Ret (if err = None then e2 else err, rw1\<lparr>bw_wr := w\<rparr>)))"

definition finish_reply ::
  "(string list \<Rightarrow> string \<Rightarrow> bool) \<Rightarrow> (string \<Rightarrow> bool) \<Rightarrow> utc_time \<Rightarrow> response_writer \<Rightarrow> srv_response" where
  "finish_reply C VT now rw =
     (let w1 = cw_close C VT now (bw_wr (snd (bwriter_Flush (cw_Write C VT now) rw)));
          w2 = snd (flush_bufw w1)
      in w2\<lparr>sr_reqBody := snd (close_reqBody (sr_reqBody w2))\<rparr>)"

definition finishRequest ::
  "(string list \<Rightarrow> string \<Rightarrow> bool) \<Rightarrow> (string \<Rightarrow> bool) \<Rightarrow> utc_time \<Rightarrow> response_writer \<Rightarrow> srv_response go" where
  "finishRequest C VT now rw0 =
     (let rw1 = on_response (\<lambda>w. w\<lparr>sr_handlerDone := True\<rparr>) rw0
      in case (if \<not> sr_wroteHeader (bw_wr rw1) then rw_WriteHeader 200 rw1 else Ret rw1) of
           Panic m \<Rightarrow> Panic m
         | Ret rw \<Rightarrow> Ret (finish_reply C VT now rw))"

definition closedRequestBodyEarly :: "srv_response \<Rightarrow> bool" where
  "closedRequestBodyEarly w =
     (sr_expect w = None \<and> (case sr_reqBody w of TheBody b \<Rightarrow> didEarlyClose b | _ \<Rightarrow> False))"

definition shouldReuseConnection :: "srv_response \<Rightarrow> bool go" where
  "shouldReuseConnection w =
     (if sr_closeAfterReply w then Ret False
      else go_bind
        (if \<not> is_HEAD w \<and> sr_contentLength w \<noteq> - 1
         then go_bind (bodyAllowed w) (\<lambda>a. Ret (a \<and> sr_contentLength w \<noteq> sr_written w)) else Ret False)
        (\<lambda>short. Ret (\<not> short \<and> nc_werr (bw_wr (sr_bufw w)) = None \<and> \<not> closedRequestBodyEarly w)))"

end
