(* ===== verification/Server_Conn.thy ===== *)
theory Server_Conn
  imports Server_Response
begin

text \<open>
  The server side of a connection (conn.readRequest and conn.serve of src/http/server.go): a request is read, wrapped when
  it expects 100-continue, handled and answered, and the connection is used again or closed.  A handler is what it
  does with its ResponseWriter and the body of the request, a list of operations.  Parameters: \<open>T\<close> is httpguts.IsTokenRune,
  \<open>C\<close> HeaderValuesContainsToken, \<open>VH\<close> ValidHostHeader, \<open>VN\<close> ValidHeaderFieldName, \<open>V\<close> ValidHeaderFieldValue, \<open>VT\<close>
  ValidTrailerHeader.  Whether the limit for the size of a header was hit comes from outside (\<open>hit\<close>).  TLS,
  deadlines, connection states, background reads and panics of handlers are not modelled.
\<close>

section \<open>The body of a request\<close>

definition body_val_Read :: "nat \<Rightarrow> body body_val \<Rightarrow> string \<times> body_error option \<times> body body_val" where
  "body_val_Read k v =
     (case v of
        TheBody b \<Rightarrow> (case body_Read k b of (d, e, b') \<Rightarrow> (d, e, TheBody b'))
      | _ \<Rightarrow> ([], Some (BodyIo EOF), v))"

text \<open>The first read of the expectContinueReader answers 100 Continue.\<close>

definition send_continue :: "srv_response \<Rightarrow> srv_response" where
  "send_continue w =
     (if \<not> sr_wroteContinue w \<and> sr_canWriteContinue w
      then (snd (flush_bufw (put [''HTTP/1.1 100 Continue'' @ crlf @ crlf] (w\<lparr>sr_wroteContinue := True\<rparr>))))\<lparr>sr_canWriteContinue := False\<rparr>
      else w)"

definition expect_Read :: "nat \<Rightarrow> expect_reader \<Rightarrow> srv_response \<Rightarrow> string \<times> body_error option \<times> srv_response" where
  "expect_Read k er w0 =
     (if er_closed er then ([], Some ErrBodyReadAfterClose, w0)
      else let w = send_continue w0
      in case body_val_Read k (sr_reqBody w) of
        (d, e, v) \<Rightarrow>
          (d, e, w\<lparr>sr_reqBody := v, sr_expect := Some (if e = Some (BodyIo EOF) then er\<lparr>er_sawEOF := True\<rparr> else er)\<rparr>))"

definition req_Read :: "nat \<Rightarrow> srv_response \<Rightarrow> string \<times> body_error option \<times> srv_response" where
  "req_Read k w =
     (case sr_expect w of
        Some er \<Rightarrow> expect_Read k er w
      | None \<Rightarrow> (case body_val_Read k (sr_reqBody w) of (d, e, v) \<Rightarrow> (d, e, w\<lparr>sr_reqBody := v\<rparr>)))"

definition expect_Close :: "expect_reader \<Rightarrow> srv_response \<Rightarrow> body_error option \<times> srv_response" where
  "expect_Close er w =
     (case close_reqBody (sr_reqBody w) of (e, v) \<Rightarrow> (e, w\<lparr>sr_reqBody := v, sr_expect := Some (er\<lparr>er_closed := True\<rparr>)\<rparr>))"

definition req_Close :: "srv_response \<Rightarrow> body_error option \<times> srv_response" where
  "req_Close w =
     (case sr_expect w of
        Some er \<Rightarrow> expect_Close er w
      | None \<Rightarrow> (case close_reqBody (sr_reqBody w) of (e, v) \<Rightarrow> (e, w\<lparr>sr_reqBody := v\<rparr>)))"

section \<open>Handlers\<close>

datatype handler_op =
  HSet string string
| HAdd string string
| HDel string
| HWriteHeader int
| HWrite string
| HFlush
| HRead nat
| HClose
| HFullDuplex

text \<open>The data of a Write that reports no error is returned.\<close>

fun run_op ::
  "(string list \<Rightarrow> string \<Rightarrow> bool) \<Rightarrow> (string \<Rightarrow> bool) \<Rightarrow> utc_time \<Rightarrow> handler_op \<Rightarrow> response_writer \<Rightarrow> (string \<times> response_writer) go" where
  "run_op C VT now (HSet k v) rw = Ret ([], on_response (change_header (Header_Set k v)) rw)"
| "run_op C VT now (HAdd k v) rw = Ret ([], on_response (change_header (Header_Add k v)) rw)"
| "run_op C VT now (HDel k) rw = Ret ([], on_response (change_header (Header_Del k)) rw)"
| "run_op C VT now (HWriteHeader code) rw = go_bind (rw_WriteHeader code rw) (\<lambda>rw'. Ret ([], rw'))"
| "run_op C VT now (HWrite data) rw =
     go_bind (rw_write C VT now data rw) (\<lambda>(rw', n, e). Ret (if e = None then data else [], rw'))"
| "run_op C VT now HFlush rw = go_bind (rw_FlushError C VT now rw) (\<lambda>(e, rw'). Ret ([], rw'))"
| "run_op C VT now (HRead k) rw = (case req_Read k (bw_wr rw) of (d, e, w) \<Rightarrow> Ret ([], rw\<lparr>bw_wr := w\<rparr>))"
| "run_op C VT now HClose rw = Ret ([], rw\<lparr>bw_wr := snd (req_Close (bw_wr rw))\<rparr>)"
| "run_op C VT now HFullDuplex rw = Ret ([], on_response (\<lambda>w. w\<lparr>sr_fullDuplex := True\<rparr>) rw)"

fun run_ops ::
  "(string list \<Rightarrow> string \<Rightarrow> bool) \<Rightarrow> (string \<Rightarrow> bool) \<Rightarrow> utc_time \<Rightarrow> handler_op list \<Rightarrow> response_writer \<Rightarrow> (string \<times> response_writer) go" where
  "run_ops C VT now [] rw = Ret ([], rw)"
| "run_ops C VT now (x # xs) rw =
     go_bind (run_op C VT now x rw)
       (\<lambda>(d, rw1). go_bind (run_ops C VT now xs rw1) (\<lambda>(d', rw2). Ret (d @ d', rw2)))"

text \<open>Error, NotFound and Redirect.\<close>

definition Error_ops :: "string \<Rightarrow> int \<Rightarrow> handler_op list" where
  "Error_ops text code =
     [HSet ''Content-Type'' ''text/plain; charset=utf-8'', HSet ''X-Content-Type-Options'' ''nosniff'', HWriteHeader code,
      HWrite (text @ [CHR 0x0A])]"

definition NotFound_ops :: "handler_op list" where
  "NotFound_ops = Error_ops ''404 page not found'' 404"

definition html_byte :: "char \<Rightarrow> string" where
  "html_byte c =
     (if c = CHR ''&'' then ''&amp;'' else if c = CHR ''<'' then ''&lt;'' else if c = CHR ''>'' then ''&gt;''
      else if c = CHR 0x22 then ''&#34;'' else if c = CHR 0x27 then ''&#39;'' else [c])"

definition htmlEscape :: "string \<Rightarrow> string" where
  "htmlEscape s = concat (map html_byte s)"

definition redirect_target :: "string \<Rightarrow> string \<Rightarrow> string" where
  "redirect_target path0 url0 =
     (case Parse url0 of
        Inl _ \<Rightarrow> url0
      | Inr u \<Rightarrow>
          if Scheme u = [] \<and> Host u = [] then
            (let oldpath = (if path0 = [] then ''/'' else path0);
                 url1 = (if url0 = [] \<or> hd url0 \<noteq> CHR ''/'' then fst (path_Split oldpath) @ url0 else url0);
                 (url2, query) = (case index_byte (CHR ''?'') url1 of None \<Rightarrow> (url1, []) | Some i \<Rightarrow> (take i url1, drop i url1));
                 trailing = has_suffix url2 ''/'';
                 url3 = path_Clean url2;
                 url4 = (if trailing \<and> \<not> has_suffix url3 ''/'' then url3 @ ''/'' else url3)
             in url4 @ query)
          else url0)"

definition Redirect_ops :: "bool \<Rightarrow> string \<Rightarrow> string \<Rightarrow> string \<Rightarrow> int \<Rightarrow> handler_op list" where
  "Redirect_ops hadCT m path0 url0 code =
     (let url = redirect_target path0 url0
      in [HSet ''Location'' (hexEscapeNonASCII url)] @
         (if \<not> hadCT \<and> (m = ''GET'' \<or> m = ''HEAD'') then [HSet ''Content-Type'' ''text/html; charset=utf-8''] else []) @
         [HWriteHeader code] @
         (if \<not> hadCT \<and> m = ''GET''
          then [HWrite (''<a href='' @ [CHR 0x22] @ htmlEscape url @ [CHR 0x22] @ ''>'' @ StatusText code @ ''</a>.'' @ [CHR 0x0A, CHR 0x0A])]
          else []))"

section \<open>Reading a request\<close>

record http_conn =
  hc_server :: http_server
  hc_bufr :: bufio
  hc_bufw :: "net_conn bwriter"
  hc_lastMethod :: string

datatype serve_error =
  TooLarge
| ReadFailed request_error
| StatusError int string

definition numLeadingCRorLF :: "string \<Rightarrow> nat" where
  "numLeadingCRorLF v = length (takeWhile (\<lambda>b. b = CHR 0x0D \<or> b = CHR 0x0A) v)"

text \<open>Old clients send a line end after the body of a POST.\<close>

definition skip_line_ends :: "http_conn \<Rightarrow> bufio" where
  "skip_line_ends c =
     (if hc_lastMethod c = ''POST'' then (case Peek 4 (hc_bufr c) of (p, _, b) \<Rightarrow> discard (numLeadingCRorLF p) b) else hc_bufr c)"

definition check_request ::
  "(string \<Rightarrow> bool) \<Rightarrow> (string \<Rightarrow> bool) \<Rightarrow> (string \<Rightarrow> bool) \<Rightarrow> body request \<Rightarrow> serve_error option" where
  "check_request VH VN V req =
     (let hosts = values_at (rq_Header req) ''Host''
      in if length hosts = 1 \<and> \<not> VH (hosts ! 0) then Some (StatusError 400 ''malformed Host header'')
         else fold (\<lambda>(k, vv) e. if e \<noteq> None then e
             else if \<not> VN k then Some (StatusError 400 ''invalid header name'')
             else if \<not> list_all V vv then Some (StatusError 400 ''invalid header value'') else None) (rq_Header req) None)"

definition early_close :: "body body_val \<Rightarrow> body body_val" where
  "early_close v = (case v of TheBody b \<Rightarrow> TheBody (b\<lparr>b_doEarlyClose := True\<rparr>) | _ \<Rightarrow> v)"

definition new_srv_response :: "http_server \<Rightarrow> body request \<Rightarrow> net_conn bwriter \<Rightarrow> response_writer" where
  "new_srv_response sv req bufw =
     new_bwriter
       \<lparr>sr_bufw = bufw, sr_server = sv, sr_req = req, sr_reqBody = rq_Body req, sr_expect = None, sr_wroteHeader = False,
        sr_wroteContinue = False, sr_wants10KeepAlive = wantsHttp10KeepAlive req, sr_wantsClose = wantsClose req,
        sr_canWriteContinue = False, cw_header = None, cw_wroteHeader = False, cw_chunking = False, sr_handlerHeader = [],
        sr_calledHeader = False, sr_written = 0, sr_contentLength = - 1, sr_status = 0, sr_closeAfterReply = False,
        sr_fullDuplex = False, sr_requestBodyLimitHit = False, sr_trailers = [], sr_handlerDone = False\<rparr>"

text \<open>With the reader that is left if the request has no body.\<close>

definition conn_readRequest ::
  "(nat \<Rightarrow> bool) \<Rightarrow> bool \<Rightarrow> (string list \<Rightarrow> string \<Rightarrow> bool) \<Rightarrow> (string \<Rightarrow> bool) \<Rightarrow> (string \<Rightarrow> bool) \<Rightarrow> (string \<Rightarrow> bool) \<Rightarrow>
   bool \<Rightarrow> http_conn \<Rightarrow> (serve_error + response_writer) \<times> http_conn" where
  "conn_readRequest T lax C VH VN V hit c =
     (case readRequest T lax C (skip_line_ends c) of
        (Inl e, r) \<Rightarrow> (Inl (if hit then TooLarge else ReadFailed e), c\<lparr>hc_bufr := r\<rparr>)
      | (Inr req, r) \<Rightarrow>
          (let c1 = c\<lparr>hc_bufr := r, hc_lastMethod := rq_Method req\<rparr>
           in case check_request VH VN V req of
                Some e \<Rightarrow> (Inl e, c1)
              | None \<Rightarrow>
                  (Inr (new_srv_response (hc_server c)
                     (req\<lparr>rq_Header := AList.delete ''Host'' (rq_Header req), rq_Body := early_close (rq_Body req)\<rparr>) (hc_bufw c)), c1)))"

section \<open>Answers to a request that cannot be read\<close>

definition errorHeaders :: string where
  "errorHeaders = crlf @ ''Content-Type: text/plain; charset=utf-8'' @ crlf @ ''Connection: close'' @ crlf @ crlf"

definition isUnsupportedTEError :: "serve_error \<Rightarrow> bool" where
  "isUnsupportedTEError e =
     (case e of ReadFailed (FramingError (TooManyEncodings _)) \<Rightarrow> True | ReadFailed (FramingError (UnsupportedEncoding _)) \<Rightarrow> True | _ \<Rightarrow> False)"

definition isCommonNetReadError :: "serve_error \<Rightarrow> bool" where
  "isCommonNetReadError e = (e = ReadFailed (TpError (TpIo EOF)))"

definition error_reply :: "serve_error \<Rightarrow> string option" where
  "error_reply e =
     (if e = TooLarge then
        (let publicErr = ''431 Request Header Fields Too Large'' in Some (''HTTP/1.1 '' @ publicErr @ errorHeaders @ publicErr))
      else if isUnsupportedTEError e then
        Some (''HTTP/1.1 '' @ Itoa 501 @ '' '' @ StatusText 501 @ errorHeaders @ ''Unsupported transfer encoding'')
      else if isCommonNetReadError e then None
      else case e of
        StatusError code txt \<Rightarrow>
          Some (''HTTP/1.1 '' @ Itoa code @ '' '' @ StatusText code @ '': '' @ txt @ errorHeaders @
                Itoa code @ '' '' @ StatusText code @ '': '' @ txt)
      | _ \<Rightarrow> (let publicErr = ''400 Bad Request'' in Some (''HTTP/1.1 '' @ publicErr @ errorHeaders @ publicErr)))"

text \<open>The answer bypasses the buffer of the connection.\<close>

definition rwc_reply :: "string \<Rightarrow> net_conn bwriter \<Rightarrow> net_conn bwriter" where
  "rwc_reply s b = b\<lparr>bw_wr := fst (rwc_Write s (bw_wr b))\<rparr>"

section \<open>One request\<close>

definition sendExpectationFailed ::
  "(string list \<Rightarrow> string \<Rightarrow> bool) \<Rightarrow> (string \<Rightarrow> bool) \<Rightarrow> utc_time \<Rightarrow> response_writer \<Rightarrow> srv_response go" where
  "sendExpectationFailed C VT now rw =
     go_bind (rw_WriteHeader 417 (on_response (change_header (Header_Set ''Connection'' ''close'')) rw)) (finishRequest C VT now)"

text \<open>A request that expects 100-continue gets a wrapped body; another expectation is refused.\<close>

definition wrap_expect :: "response_writer \<Rightarrow> response_writer option" where
  "wrap_expect rw =
     (let req = sr_req (bw_wr rw)
      in if expectsContinue req then
           Some (if request_ProtoAtLeast req 1 1 \<and> rq_ContentLength req \<noteq> 0
             then on_response (\<lambda>w. w\<lparr>sr_expect := Some \<lparr>er_closed = False, er_sawEOF = False\<rparr>, sr_canWriteContinue := True\<rparr>) rw
             else rw)
         else if header_get ''Expect'' (rq_Header req) \<noteq> [] then None
         else Some rw)"

definition requestBodyRemains :: "body body_val \<Rightarrow> bool" where
  "requestBodyRemains v = (case v of TheBody b \<Rightarrow> bodyRemains b | _ \<Rightarrow> False)"

definition register_body :: "srv_response \<Rightarrow> srv_response" where
  "register_body w =
     (if requestBodyRemains (sr_reqBody w)
      then w\<lparr>sr_reqBody := (case sr_reqBody w of TheBody b \<Rightarrow> TheBody (registerOnHitEOF b) | v \<Rightarrow> v)\<rparr> else w)"

definition handle ::
  "(string list \<Rightarrow> string \<Rightarrow> bool) \<Rightarrow> (string \<Rightarrow> bool) \<Rightarrow> utc_time \<Rightarrow> handler_op list \<Rightarrow> response_writer \<Rightarrow> (string \<times> srv_response) go" where
  "handle C VT now ops rw =
     (case run_ops C VT now ops (on_response register_body rw) of
        Panic m \<Rightarrow> Panic m
      | Ret (d, rw1) \<Rightarrow> (case finishRequest C VT now rw1 of Panic m \<Rightarrow> Panic m | Ret w \<Rightarrow> Ret (d, w)))"

text \<open>The reader of the connection after a request: the body, if there is one, has moved it.\<close>

definition reader_after :: "srv_response \<Rightarrow> bufio \<Rightarrow> bufio" where
  "reader_after w r = (case sr_reqBody w of TheBody b \<Rightarrow> src_reader (b_src b) | _ \<Rightarrow> r)"

text \<open>finalFlush and close: what is buffered goes out before the network connection is closed.\<close>

definition finalFlush :: "http_conn \<Rightarrow> http_conn" where
  "finalFlush c = c\<lparr>hc_bufw := snd (bwriter_Flush checkConnErrorWriter_Write (hc_bufw c))\<rparr>"

definition http_conn_close :: "http_conn \<Rightarrow> http_conn" where
  "http_conn_close c = (let c1 = finalFlush c in c1\<lparr>hc_bufw := rwc_Close (hc_bufw c1)\<rparr>)"

text \<open>One turn of the loop of serve: the connection for the next turn, or the connection as it is closed.\<close>

definition serve_turn ::
  "(nat \<Rightarrow> bool) \<Rightarrow> bool \<Rightarrow> (string list \<Rightarrow> string \<Rightarrow> bool) \<Rightarrow> (string \<Rightarrow> bool) \<Rightarrow> (string \<Rightarrow> bool) \<Rightarrow> (string \<Rightarrow> bool) \<Rightarrow> (string \<Rightarrow> bool) \<Rightarrow>
   bool \<Rightarrow> utc_time \<Rightarrow> (body request \<Rightarrow> handler_op list) \<Rightarrow> http_conn \<Rightarrow> (bool \<times> http_conn) go" where
  "serve_turn T lax C VH VN V VT hit now handler c =
     (case conn_readRequest T lax C VH VN V hit c of
        (Inl e, c1) \<Rightarrow>
          Ret (False, http_conn_close (case error_reply e of None \<Rightarrow> c1 | Some s \<Rightarrow> c1\<lparr>hc_bufw := rwc_reply s (hc_bufw c1)\<rparr>))
      | (Inr rw, c1) \<Rightarrow>
          (case wrap_expect rw of
             None \<Rightarrow> go_bind (sendExpectationFailed C VT now rw) (\<lambda>w. Ret (False, http_conn_close (c1\<lparr>hc_bufw := sr_bufw w\<rparr>)))
           | Some rw1 \<Rightarrow>
               go_bind (handle C VT now (handler (sr_req (bw_wr rw1))) rw1)
                 (\<lambda>(d, w). let c2 = c1\<lparr>hc_bufw := sr_bufw w, hc_bufr := reader_after w (hc_bufr c1)\<rparr>
                   in go_bind (shouldReuseConnection w)
                     (\<lambda>reuse. if \<not> reuse \<or> \<not> doKeepAlives (sr_server w) then Ret (False, http_conn_close c2)
                       else (case Peek 4 (hc_bufr c2) of
                               (_, err, b) \<Rightarrow>
                                 let c3 = c2\<lparr>hc_bufr := b\<rparr> in Ret (if err = None then (True, c3) else (False, http_conn_close c3)))))))"

section \<open>Small functions\<close>

definition tlsRecordHeaderLooksLikeHTTP :: "string \<Rightarrow> bool" where
  "tlsRecordHeaderLooksLikeHTTP hdr = (hdr \<in> set [''GET /'', ''HEAD '', ''POST '', ''PUT /'', ''OPTIO''])"

definition validNextProto :: "string \<Rightarrow> bool" where
  "validNextProto proto = (proto \<notin> set [[], ''http/1.1'', ''http/1.0''])"

end
