(* ===== verification/Server_Reuse.thy ===== *)
theory Server_Reuse
  imports Server_Conn Response_Correct "HOL-Library.Code_Target_Nat"
begin

text \<open>
  Correctness of the server side of a connection.  If a connection is used again, the body of the request was read to
  its end, so the next request is read from where it starts.
\<close>

section \<open>What only writes to the connection\<close>

lemma put_bufw: "\<exists>b. put ss w = w\<lparr>sr_bufw := b\<rparr>"
  by (auto simp: put_def)

lemma put_header_bufw: "\<exists>b. put_header ex h w = w\<lparr>sr_bufw := b\<rparr>"
  by (auto simp: put_header_def)

lemma flush_bufw_bufw: "\<exists>b. snd (flush_bufw w) = w\<lparr>sr_bufw := b\<rparr>"
  by (auto simp: flush_bufw_def split: prod.split)

lemma bufw_Write_bufw: "\<exists>b. fst (bufw_Write p w) = w\<lparr>sr_bufw := b\<rparr>"
  by (auto simp: bufw_Write_def split: prod.split)

text \<open>A property of a response that does not look at the connection.\<close>

definition bufw_free :: "(srv_response \<Rightarrow> bool) \<Rightarrow> bool" where
  "bufw_free P \<longleftrightarrow> (\<forall>w b. P (w\<lparr>sr_bufw := b\<rparr>) = P w)"

lemma bufw_free_simps:
  assumes "bufw_free P"
  shows "P (put ss w) = P w" "P (put_header ex h w) = P w" "P (snd (flush_bufw w)) = P w" "P (fst (bufw_Write p w)) = P w"
    "P (close_rwc w) = P w" "P (w\<lparr>sr_bufw := b\<rparr>) = P w"
  using assms put_bufw[of ss w] put_header_bufw[of ex h w] flush_bufw_bufw[of w] bufw_Write_bufw[of p w]
  by (auto simp: bufw_free_def close_rwc_def)

lemma bufw_free_more:
  assumes "bufw_free P"
  shows "P (writeStatusLine is11 code w) = P w" "P (extraHeader_Write pl w) = P w"
proof -
  have "P (fold put ls w) = P w" for ls
    by (induction ls arbitrary: w) (simp_all add: bufw_free_simps[OF assms])
  then show "P (extraHeader_Write pl w) = P w" by (simp add: extraHeader_Write_def)
  show "P (writeStatusLine is11 code w) = P w" by (simp add: writeStatusLine_def bufw_free_simps[OF assms])
qed

section \<open>The body of the request\<close>

definition whole_body :: "srv_response \<Rightarrow> bool" where
  "whole_body w = (case sr_reqBody w of TheBody b \<Rightarrow> b_sawEOF b | _ \<Rightarrow> True)"

lemma body_Read_saw: "b_sawEOF b \<Longrightarrow> body_Read k b = (d, e, b') \<Longrightarrow> b_sawEOF b'"
  by (auto simp: body_Read_def readLocked_def split: if_splits)

lemma drain_keeps:
  assumes "drain fuel left b = (n, e, b')" and "Q b"
    and "\<And>k b d b1. Q b \<Longrightarrow> body_Read k b = (d, None, b1) \<Longrightarrow> Q b1"
    and "\<And>k b d x b1. Q b \<Longrightarrow> body_Read k b = (d, Some x, b1) \<Longrightarrow> R x b1"
  shows "case e of None \<Rightarrow> Q b' | Some x \<Rightarrow> R x b'"
  using assms(1,2)
proof (induction fuel arbitrary: left b n)
  case (Suc fuel)
  show ?case
  proof (cases "left = Some 0")
    case True
    then show ?thesis using Suc.prems by auto
  next
    case False
    let ?k = "case left of None \<Rightarrow> 8192 | Some n \<Rightarrow> min 8192 n"
    obtain d e1 b1 where rd: "body_Read ?k b = (d, e1, b1)" by (metis surj_pair)
    show ?thesis
    proof (cases e1)
      case None
      obtain m e2 b2 where dr: "drain fuel (map_option (\<lambda>n. n - length d) left) b1 = (m, e2, b2)" by (metis surj_pair)
      have "e = e2" "b' = b2" using Suc.prems(1) unfolding drain_step[OF False] by (simp_all add: rd None dr)
      then have "drain fuel (map_option (\<lambda>n. n - length d) left) b1 = (m, e, b')" using dr by simp
      moreover have "Q b1" using assms(3)[OF Suc.prems(2)] rd None by blast
      ultimately show ?thesis by (rule Suc.IH)
    next
      case (Some x)
      then have "e = Some x" "b' = b1" using Suc.prems(1) rd unfolding drain_step[OF False] by auto
      moreover have "R x b1" using assms(4)[OF Suc.prems(2)] rd Some by blast
      ultimately show ?thesis by simp
    qed
  qed
qed simp

lemma drain_saw: "b_sawEOF b \<Longrightarrow> drain fuel left b = (n, e, b') \<Longrightarrow> b_sawEOF b'"
proof -
  assume "b_sawEOF b" and d: "drain fuel left b = (n, e, b')"
  have "case e of None \<Rightarrow> b_sawEOF b' | Some _ \<Rightarrow> b_sawEOF b'"
    by (rule drain_keeps[OF d, where Q = b_sawEOF]) (use \<open>b_sawEOF b\<close> body_Read_saw in blast)+
  then show "b_sawEOF b'" by (cases e) simp_all
qed

lemma body_Close_saw: "b_sawEOF b \<Longrightarrow> body_Close b = (e, b') \<Longrightarrow> b_sawEOF b'"
  by (auto simp: body_Close_def Let_def split: if_splits)

text \<open>A read of a body that is not closed does not say that it is.\<close>

lemma readTrailer_not_closed: "readTrailer r tr \<noteq> (Some ErrBodyReadAfterClose, r', tr')"
  by (auto simp: readTrailer_def split: prod.splits if_splits option.splits bool.splits)

lemma body_Read_not_closed:
  assumes "body_Read k b = (d, e, b')" and "\<not> b_closed b"
  shows "e \<noteq> Some ErrBodyReadAfterClose" and "e = None \<Longrightarrow> \<not> b_closed b'"
  using assms readTrailer_not_closed
  by (auto simp: body_Read_def readLocked_def at_eof_def Let_def split: prod.splits if_splits option.splits)

lemma drain_result:
  assumes "drain fuel left b = (n, e, b')" and "\<not> b_closed b"
  shows "e \<noteq> Some ErrBodyReadAfterClose" and "e = Some (BodyIo EOF) \<Longrightarrow> b_sawEOF b'"
proof -
  have "case e of None \<Rightarrow> \<not> b_closed b' | Some x \<Rightarrow> x \<noteq> ErrBodyReadAfterClose \<and> (x = BodyIo EOF \<longrightarrow> b_sawEOF b')"
    by (rule drain_keeps[OF assms(1), where Q = "\<lambda>b. \<not> b_closed b"])
      (use assms(2) body_Read_not_closed body_Read_EOF in blast)+
  then show "e \<noteq> Some ErrBodyReadAfterClose" and "e = Some (BodyIo EOF) \<Longrightarrow> b_sawEOF b'" by auto
qed

lemma discard_whole: "whole_body w \<Longrightarrow> whole_body (w\<lparr>sr_reqBody := snd (discard_body (sr_reqBody w))\<rparr>)"
  by (auto simp: whole_body_def discard_body_def split: body_val.splits prod.splits dest: drain_saw)

lemma close_whole: "whole_body w \<Longrightarrow> whole_body (w\<lparr>sr_reqBody := snd (close_reqBody (sr_reqBody w))\<rparr>)"
  by (auto simp: whole_body_def close_reqBody_def split: body_val.splits prod.splits dest: body_Close_saw)

text \<open>Consuming the rest: it was too much, or the end was reached, or the connection is closed.\<close>

lemma consume_body_cases:
  assumes "consume_body w = (tooBig, w')" and "\<not> tooBig" and "whole_body w \<or> (\<exists>b. sr_reqBody w = TheBody b \<and> \<not> b_closed b)"
  shows "sr_closeAfterReply w' \<or> whole_body w'"
proof (cases "whole_body w")
  case True
  have "whole_body w'"
    using assms(1) discard_whole[OF True] close_whole[OF discard_whole[OF True]]
    by (auto simp: consume_body_def whole_body_def Let_def split: prod.splits option.splits body_error.splits io_error.splits if_splits)
  then show ?thesis by simp
next
  case False
  then obtain b where b: "sr_reqBody w = TheBody b" "\<not> b_closed b" using assms(3) by blast
  obtain n e b' where d: "drain (drain_fuel b) (Some (Suc maxPostHandlerReadBytes)) b = (n, e, b')" by (metis surj_pair)
  note r = drain_result[OF d b(2)]
  have small: "n \<noteq> Suc maxPostHandlerReadBytes"
    using assms(1,2) by (auto simp: consume_body_def discard_body_def b(1) d Let_def)
  show ?thesis
  proof (cases "e = Some (BodyIo EOF)")
    case True
    then have "body_Close b' = (e2, b2) \<Longrightarrow> b_sawEOF b2" for e2 b2 using r(2) body_Close_saw by blast
    then show ?thesis
      using assms(1) small True
      by (auto simp: consume_body_def discard_body_def close_reqBody_def b(1) d Let_def whole_body_def split: prod.splits if_splits)
  next
    case False
    then show ?thesis
      using assms(1,2) small r(1)
      by (auto simp: consume_body_def discard_body_def b(1) d Let_def split: option.splits body_error.splits io_error.splits)
  qed
qed

lemma consume_body_same:
  "sr_req (snd (consume_body w)) = sr_req w" "sr_expect (snd (consume_body w)) = sr_expect w"
  "sr_fullDuplex (snd (consume_body w)) = sr_fullDuplex w" "cw_wroteHeader (snd (consume_body w)) = cw_wroteHeader w"
  by (auto simp: consume_body_def Let_def split: prod.splits option.splits body_error.splits io_error.splits)

lemma consume_body_whole: "whole_body w \<Longrightarrow> whole_body (snd (consume_body w))"
  using discard_whole[of w] close_whole[OF discard_whole[of w]]
  by (auto simp: consume_body_def whole_body_def Let_def split: prod.splits option.splits body_error.splits io_error.splits if_splits)

section \<open>The invariant\<close>

text \<open>Once the header is written, the connection is closed after the reply or the body has been read to its end.\<close>

definition body_ok :: "srv_response \<Rightarrow> bool" where
  "body_ok w \<longleftrightarrow>
     (\<forall>er. sr_expect w = Some er \<longrightarrow> er_sawEOF er \<longrightarrow> whole_body w) \<and> (rq_ContentLength (sr_req w) = 0 \<longrightarrow> whole_body w)"

definition body_done :: "srv_response \<Rightarrow> bool" where
  "body_done w \<longleftrightarrow> sr_closeAfterReply w \<or> whole_body w"

definition reuse_inv :: "srv_response \<Rightarrow> bool" where
  "reuse_inv w \<longleftrightarrow> \<not> sr_fullDuplex w \<and> body_ok w \<and> (cw_wroteHeader w \<longrightarrow> body_done w)"

lemmas reuse_defs = reuse_inv_def body_ok_def body_done_def whole_body_def

lemma reuse_bufw: "bufw_free reuse_inv"
  by (simp add: bufw_free_def reuse_defs)

text \<open>A stage that leaves the body alone and only adds to closeAfterReply.\<close>

definition keeps_body :: "srv_response \<Rightarrow> srv_response \<Rightarrow> bool" where
  "keeps_body w w' \<longleftrightarrow>
     sr_reqBody w' = sr_reqBody w \<and> sr_expect w' = sr_expect w \<and> sr_req w' = sr_req w \<and> sr_fullDuplex w' = sr_fullDuplex w \<and>
     cw_wroteHeader w' = cw_wroteHeader w \<and> (sr_closeAfterReply w \<longrightarrow> sr_closeAfterReply w')"

lemma keeps_body_refl [simp]: "keeps_body w w"
  by (simp add: keeps_body_def)

lemma keeps_body_trans: "keeps_body w w' \<Longrightarrow> keeps_body w' w'' \<Longrightarrow> keeps_body w w''"
  by (simp add: keeps_body_def)

lemma keeps_body_inv: "keeps_body w w' \<Longrightarrow> reuse_inv w \<Longrightarrow> reuse_inv w'"
  by (auto simp: keeps_body_def reuse_defs)

lemma keeps_body_bufw: "bufw_free (keeps_body w)"
  by (simp add: bufw_free_def keeps_body_def)

lemma declare_trailers_keeps: "keeps_body w (declare_trailers VT w)"
proof -
  have "keeps_body w (fold (declareTrailer VT) ks w)" for ks
  proof (induction ks arbitrary: w)
    case (Cons k ks)
    have "keeps_body w (declareTrailer VT k w)" by (simp add: declareTrailer_def Let_def keeps_body_def)
    then show ?case using Cons keeps_body_trans by fastforce
  qed simp
  then show ?thesis by (simp add: declare_trailers_def)
qed

lemma plan_length_keeps: "keeps_body w (fst (plan_length tr p (w, pl)))"
  by (simp add: plan_length_def keeps_body_def)

lemma plan_framing_keeps: "keeps_body w (fst (plan_framing te cl (w, pl)))"
  by (simp add: plan_framing_def keeps_body_def Let_def)

lemma plan_other_keeps:
  "fst (plan_type p wp) = fst wp" "fst (plan_date now wp) = fst wp" "fst (plan_connection C wp) = fst wp"
  "keeps_body (fst wp) (save_header wp)"
  by (cases wp; simp add: plan_type_def plan_date_def plan_connection_def save_header_def keeps_body_def)+

lemma write_plan_keeps: "keeps_body w (write_plan (w, pl))"
  by (simp add: write_plan_def Let_def bufw_free_simps[OF keeps_body_bufw] bufw_free_more[OF keeps_body_bufw])

text \<open>The first stage that decides may reset closeAfterReply; it looks at the wrapped body.\<close>

lemma keepalive_10_same:
  "sr_reqBody (keepalive_10 w h) = sr_reqBody w" "sr_expect (keepalive_10 w h) = sr_expect w" "sr_req (keepalive_10 w h) = sr_req w"
  "sr_fullDuplex (keepalive_10 w h) = sr_fullDuplex w" "cw_wroteHeader (keepalive_10 w h) = cw_wroteHeader w"
  by (simp_all add: keepalive_10_def)

lemma keepalive_mark_same:
  "sr_reqBody (keepalive_mark w h) = sr_reqBody w" "sr_expect (keepalive_mark w h) = sr_expect w" "sr_req (keepalive_mark w h) = sr_req w"
  "sr_fullDuplex (keepalive_mark w h) = sr_fullDuplex w" "cw_wroteHeader (keepalive_mark w h) = cw_wroteHeader w"
  by (simp_all add: keepalive_mark_def Let_def)

lemma keepalive_close_same:
  "sr_reqBody (keepalive_close w h) = sr_reqBody w" "sr_expect (keepalive_close w h) = sr_expect w" "sr_req (keepalive_close w h) = sr_req w"
  "sr_fullDuplex (keepalive_close w h) = sr_fullDuplex w" "cw_wroteHeader (keepalive_close w h) = cw_wroteHeader w"
  by (simp_all add: keepalive_close_def Let_def keepalive_mark_same)

lemma keepalive_close_awaits:
  "\<not> sr_closeAfterReply (keepalive_close w h) \<Longrightarrow> \<forall>er. sr_expect w = Some er \<longrightarrow> er_sawEOF er"
  by (cases "sr_expect w") (simp_all add: keepalive_close_def Let_def keepalive_mark_same split: if_splits)

lemma plan_keepalive_body:
  assumes "plan_keepalive (w, pl) = (w', pl')"
  shows "sr_reqBody w' = sr_reqBody w \<and> sr_expect w' = sr_expect w \<and> sr_req w' = sr_req w \<and> sr_fullDuplex w' = sr_fullDuplex w \<and>
    cw_wroteHeader w' = cw_wroteHeader w"
    and "\<not> sr_closeAfterReply w' \<Longrightarrow> \<forall>er. sr_expect w = Some er \<longrightarrow> er_sawEOF er"
proof -
  have w': "w' = keepalive_close (keepalive_10 w (hp_header pl)) (hp_header pl)"
    using assms by (simp add: plan_keepalive_def Let_def)
  show "sr_reqBody w' = sr_reqBody w \<and> sr_expect w' = sr_expect w \<and> sr_req w' = sr_req w \<and> sr_fullDuplex w' = sr_fullDuplex w \<and>
    cw_wroteHeader w' = cw_wroteHeader w"
    by (simp add: w' keepalive_close_same keepalive_10_same)
  show "\<not> sr_closeAfterReply w' \<Longrightarrow> \<forall>er. sr_expect w = Some er \<longrightarrow> er_sawEOF er"
    using keepalive_close_awaits[of "keepalive_10 w (hp_header pl)" "hp_header pl"] by (simp add: w' keepalive_10_same)
qed

lemma requestTooLarge_close: "sr_closeAfterReply (requestTooLarge w)"
  by (simp add: requestTooLarge_def change_header_def sr_Header_def Let_def)

lemma requestTooLarge_keeps: "keeps_body w (requestTooLarge w)"
  by (simp add: requestTooLarge_def change_header_def sr_Header_def Let_def keeps_body_def)

lemma plan_request_body_done:
  assumes "plan_request_body (w, pl) = (w', pl')" and "body_ok w" and "\<not> sr_fullDuplex w"
    and "\<not> sr_closeAfterReply w \<Longrightarrow> \<forall>er. sr_expect w = Some er \<longrightarrow> er_sawEOF er"
  shows "body_done w'" and "body_ok w'" and "\<not> sr_fullDuplex w'" and "cw_wroteHeader w' = cw_wroteHeader w"
proof -
  have "body_done w' \<and> body_ok w' \<and> \<not> sr_fullDuplex w' \<and> cw_wroteHeader w' = cw_wroteHeader w"
  proof (cases "rq_ContentLength (sr_req w) \<noteq> 0 \<and> \<not> sr_closeAfterReply w")
    case False
    then have "w' = w" using assms(1) by (auto simp: plan_request_body_def)
    then show ?thesis using False assms(2,3) by (auto simp: body_done_def body_ok_def)
  next
    case True
    obtain dis big w1 where ch: "body_choice w = (dis, big, w1)" by (metis surj_pair)
    obtain big' w2 where con: "(if dis then consume_body w1 else (big, w1)) = (big', w2)" by (metis surj_pair)
    have w': "w' = (if big' then requestTooLarge w2 else w2)"
      using assms(1,3) True by (auto simp: plan_request_body_def ch con split: if_splits)
    have w1: "keeps_body w w1"
      using ch by (auto simp: body_choice_def keeps_body_def split: option.splits body_val.splits if_splits)
    have whole: "sr_expect w \<noteq> None \<Longrightarrow> whole_body w"
      using assms(2,4) True by (auto simp: body_ok_def)
    have same: "sr_req w2 = sr_req w1 \<and> sr_expect w2 = sr_expect w1 \<and> sr_fullDuplex w2 = sr_fullDuplex w1 \<and> cw_wroteHeader w2 = cw_wroteHeader w1"
      using con consume_body_same[of w1] by (cases dis) auto
    have mono: "whole_body w1 \<Longrightarrow> whole_body w2"
      using con consume_body_whole[of w1] by (cases dis) auto
    have w1w: "whole_body w1 = whole_body w" using w1 by (simp add: keeps_body_def whole_body_def)
    have exp: "body_ok w2" using True whole mono w1w same w1 by (auto simp: body_ok_def keeps_body_def split: option.split)
    have done2: "sr_closeAfterReply w2 \<or> whole_body w2" if nb: "\<not> big'"
    proof (cases "sr_expect w")
      case (Some er)
      then show ?thesis using whole mono w1w by simp
    next
      case None
      show ?thesis
      proof (cases dis)
        case False
        then show ?thesis
          using ch con nb None by (auto simp: body_choice_def whole_body_def split: body_val.splits if_splits)
      next
        case True
        then have c: "consume_body w1 = (big', w2)" using con by simp
        have "whole_body w1 \<or> (\<exists>b. sr_reqBody w1 = TheBody b \<and> \<not> b_closed b)"
          using ch None True by (auto simp: body_choice_def whole_body_def split: body_val.splits if_splits)
        then show ?thesis using consume_body_cases[OF c nb] by blast
      qed
    qed
    have big: "keeps_body w2 (requestTooLarge w2)" "sr_closeAfterReply (requestTooLarge w2)"
      by (rule requestTooLarge_keeps, rule requestTooLarge_close)
    show ?thesis
      using w' done2 exp big same w1 assms(3)
      by (auto simp: body_done_def body_ok_def keeps_body_def whole_body_def split: option.splits)
  qed
  then show "body_done w'" "body_ok w'" "\<not> sr_fullDuplex w'" "cw_wroteHeader w' = cw_wroteHeader w" by blast+
qed

text \<open>The header is written once, and settles what happens to the connection.\<close>

lemma writeHeader_settles:
  assumes "reuse_inv w"
  shows "reuse_inv (cw_writeHeader C VT now p w)" and "cw_wroteHeader (cw_writeHeader C VT now p w)"
proof -
  have "reuse_inv (cw_writeHeader C VT now p w) \<and> cw_wroteHeader (cw_writeHeader C VT now p w)"
  proof (cases "cw_wroteHeader w")
    case True
    then show ?thesis using assms by (simp add: cw_writeHeader_def)
  next
    case False
    let ?w = "w\<lparr>cw_wroteHeader := True\<rparr>"
    let ?pl = "start_plan ?w" and ?w1 = "declare_trailers VT ?w"
    let ?te = "header_get ''Transfer-Encoding'' (hp_header ?pl)"
    let ?wp1 = "plan_length (has_trailers ?w) p (?w1, ?pl)"
    obtain w2 pl2 where wp1: "?wp1 = (w2, pl2)" by (metis surj_pair)
    obtain w3 pl3 where wp2: "plan_keepalive (w2, pl2) = (w3, pl3)" by (metis surj_pair)
    obtain w4 pl4 where wp3: "plan_request_body (w3, pl3) = (w4, pl4)" by (metis surj_pair)
    let ?cl = "sr_contentLength (fst ?wp1) \<noteq> - 1"
    let ?wp4 = "plan_framing ?te ?cl (plan_date now (plan_type p (w4, pl4)))"
    have k2: "keeps_body ?w w2"
      using keeps_body_trans[OF declare_trailers_keeps plan_length_keeps] wp1 by (metis fst_conv)
    note ka = plan_keepalive_body[OF wp2]
    have e3: "body_ok w3" "\<not> sr_fullDuplex w3" "cw_wroteHeader w3"
      using assms k2 ka(1) by (auto simp: reuse_inv_def body_ok_def whole_body_def keeps_body_def)
    have "\<not> sr_closeAfterReply w3 \<Longrightarrow> \<forall>er. sr_expect w3 = Some er \<longrightarrow> er_sawEOF er" using ka by simp
    note d4 = plan_request_body_done[OF wp3 e3(1,2) this]
    have r4: "reuse_inv w4" "cw_wroteHeader w4" using d4 e3(3) by (simp_all add: reuse_inv_def)
    have k5: "keeps_body w4 (fst ?wp4)"
    proof -
      obtain pl5 where "plan_date now (plan_type p (w4, pl4)) = (w4, pl5)"
        using plan_other_keeps(1)[of p "(w4, pl4)"] plan_other_keeps(2)[of now "plan_type p (w4, pl4)"] by (metis fst_conv surj_pair)
      then show ?thesis using plan_framing_keeps by simp
    qed
    have k6: "keeps_body w4 (save_header ?wp4)" by (rule keeps_body_trans[OF k5 plan_other_keeps(4)])
    have k7: "keeps_body w4 (write_plan (save_header (plan_connection C ?wp4), snd (plan_connection C ?wp4)))"
    proof -
      have "keeps_body w4 (fst (plan_connection C ?wp4))" using k5 by (simp add: plan_other_keeps(3))
      then show ?thesis by (rule keeps_body_trans[OF keeps_body_trans[OF _ plan_other_keeps(4)] write_plan_keeps])
    qed
    have "cw_writeHeader C VT now p w =
      (if \<not> request_ProtoAtLeast (sr_req ?w) 1 0 then save_header ?wp4
       else write_plan (save_header (plan_connection C ?wp4), snd (plan_connection C ?wp4)))"
      using False unfolding cw_writeHeader_def close_plan_def rest_plan_def first_plan_def send_plan_def Let_def by (simp only: wp1 wp2 wp3 fst_conv if_False)
    then show ?thesis using k6 k7 r4 keeps_body_inv by (auto simp: keeps_body_def)
  qed
  then show "reuse_inv (cw_writeHeader C VT now p w)" and "cw_wroteHeader (cw_writeHeader C VT now p w)" by blast+
qed

lemma cw_Write_inv:
  assumes "reuse_inv w"
  shows "reuse_inv (fst (cw_Write C VT now p w))"
proof -
  define w1 where "w1 = (if \<not> cw_wroteHeader w then cw_writeHeader C VT now p w else w)"
  have inv: "reuse_inv w1" using assms writeHeader_settles(1) by (simp add: w1_def)
  note b = bufw_free_simps[OF reuse_bufw]
  have keep: "bufw_Write q v = (v', n, e) \<Longrightarrow> reuse_inv v' = reuse_inv v" for q v v' n e
    using b(4)[of q v] by simp
  show ?thesis
    using inv unfolding cw_Write_def w1_def[symmetric] Let_def
    by (auto simp: b(5) keep split: prod.split option.split if_splits)
qed

lemma cw_flush_inv: "reuse_inv w \<Longrightarrow> reuse_inv (snd (cw_flush C VT now w))"
  using writeHeader_settles(1) by (simp add: cw_flush_def bufw_free_simps[OF reuse_bufw])

lemma cw_close_inv:
  assumes "reuse_inv w"
  shows "reuse_inv (cw_close C VT now w)" and "cw_wroteHeader (cw_close C VT now w)"
proof -
  have wrote: "bufw_free cw_wroteHeader" by (simp add: bufw_free_def)
  show "reuse_inv (cw_close C VT now w)" "cw_wroteHeader (cw_close C VT now w)"
    using assms writeHeader_settles
    by (auto simp: cw_close_def Let_def bufw_free_simps[OF reuse_bufw] bufw_free_simps[OF wrote] split: option.split)
qed

section \<open>Handlers\<close>

lemma change_header_keeps: "keeps_body w (change_header f w)"
  by (simp add: change_header_def sr_Header_def Let_def keeps_body_def)

lemma note_length_keeps: "keeps_body w (note_length w)"
  by (auto simp: note_length_def Let_def keeps_body_def split: sum.split)

lemma write_logical_keeps: "keeps_body w (write_logical code w)"
  unfolding write_logical_def Let_def by (rule keeps_body_trans[OF _ note_length_keeps]) (simp add: keeps_body_def)

lemma write_informational_keeps: "keeps_body w (write_informational code w)"
  using bufw_free_simps[OF keeps_body_bufw[of w]] bufw_free_more[OF keeps_body_bufw[of w]]
  by (simp add: write_informational_def Let_def) (simp add: keeps_body_def)

lemma WriteHeader_keeps:
  assumes "sr_WriteHeader code w = Ret w'"
  shows "keeps_body w w'"
  using assms write_logical_keeps write_informational_keeps
  by (auto simp: sr_WriteHeader_def checkWriteHeaderCode_def keeps_body_def[of w w] split: if_splits)

lemma rw_WriteHeader_inv:
  assumes "rw_WriteHeader code rw = Ret rw'" and "reuse_inv (bw_wr rw)"
  shows "reuse_inv (bw_wr rw')" and "bw_buf rw' = bw_buf rw" and "bw_err rw' = bw_err rw"
  using assms keeps_body_inv[OF WriteHeader_keeps]
  by (cases "sr_WriteHeader code (bw_wr rw)"; auto simp: rw_WriteHeader_def)+

lemma req_Read_inv:
  assumes "req_Read k w = (d, e, w')" and "reuse_inv w"
  shows "reuse_inv w'"
proof -
  have read: "whole_body v \<longrightarrow> whole_body (v\<lparr>sr_reqBody := v'\<rparr>)" "e = Some (BodyIo EOF) \<Longrightarrow> whole_body (v\<lparr>sr_reqBody := v'\<rparr>)"
    if "body_val_Read k (sr_reqBody v) = (d, e, v')" for v d e v'
    using that by (auto simp: body_val_Read_def whole_body_def split: body_val.splits prod.splits dest: body_Read_saw body_Read_EOF)
  show ?thesis
  proof (cases "sr_expect w")
    case None
    obtain d1 e1 v1 where r: "body_val_Read k (sr_reqBody w) = (d1, e1, v1)" by (metis surj_pair)
    then have "w' = w\<lparr>sr_reqBody := v1\<rparr>" using assms(1) None by (simp add: req_Read_def)
    then show ?thesis using assms(2) None read(1)[OF r] by (auto simp: reuse_inv_def body_ok_def body_done_def)
  next
    case (Some er)
    show ?thesis
    proof (cases "er_closed er")
      case True
      then show ?thesis using assms Some by (simp add: req_Read_def expect_Read_def)
    next
      case False
      let ?w = "send_continue w"
      have kw: "keeps_body w ?w"
        using bufw_free_simps[OF keeps_body_bufw[of w]] by (simp add: send_continue_def) (simp add: keeps_body_def)
      obtain d1 e1 v1 where r: "body_val_Read k (sr_reqBody ?w) = (d1, e1, v1)" by (metis surj_pair)
      have w': "w' = ?w\<lparr>sr_reqBody := v1, sr_expect := Some (if e1 = Some (BodyIo EOF) then er\<lparr>er_sawEOF := True\<rparr> else er)\<rparr>"
        using assms(1) Some False r by (auto simp: req_Read_def expect_Read_def Let_def)
      have "reuse_inv ?w" by (rule keeps_body_inv[OF kw assms(2)])
      moreover have "sr_expect ?w = Some er" using kw Some by (simp add: keeps_body_def)
      moreover have "whole_body w' = whole_body (?w\<lparr>sr_reqBody := v1\<rparr>)" by (simp add: w' whole_body_def)
      ultimately show ?thesis using read[OF r] by (auto simp: reuse_inv_def body_ok_def body_done_def w')
    qed
  qed
qed

lemma req_Close_inv:
  assumes "reuse_inv w"
  shows "reuse_inv (snd (req_Close w))"
proof -
  have "whole_body (w\<lparr>sr_reqBody := snd (close_reqBody (sr_reqBody w)), sr_expect := x\<rparr>)" if "whole_body w" for x
    using close_whole[OF that] by (simp add: whole_body_def)
  moreover note close_whole[of w]
  ultimately show ?thesis
    using assms
    by (auto simp: req_Close_def expect_Close_def reuse_inv_def body_ok_def body_done_def split: option.splits prod.splits)
qed

lemma run_op_inv:
  assumes "run_op C VT now x rw = Ret (d, rw')" and "reuse_inv (bw_wr rw)" and "x \<noteq> HFullDuplex"
  shows "reuse_inv (bw_wr rw')"
proof -
  have writes: "reuse_inv (bw_wr (fst (bwriter_Write bufferBeforeChunkingSize (cw_Write C VT now) p rw)))" if "reuse_inv (bw_wr rw)" for p rw
    by (rule Write_keeps[where P = reuse_inv, OF cw_Write_inv that])
  have flushes: "reuse_inv (bw_wr (snd (bwriter_Flush (cw_Write C VT now) rw)))" if "reuse_inv (bw_wr rw)" for rw
    by (rule Flush_keeps[where P = reuse_inv, OF cw_Write_inv that])
  have header: "reuse_inv (bw_wr (on_response (change_header f) rw))" for f
    using keeps_body_inv[OF change_header_keeps assms(2)] by (simp add: on_response_def)
  have first: "reuse_inv (bw_wr rw2)"
    if "(if \<not> sr_wroteHeader (bw_wr rw1) then rw_WriteHeader 200 rw1 else Ret rw1) = Ret rw2" "reuse_inv (bw_wr rw1)" for rw1 rw2
    using that rw_WriteHeader_inv(1) by (auto split: if_splits)
  show ?thesis
  proof (cases x)
    case (HWriteHeader code)
    then show ?thesis using assms(1,2) rw_WriteHeader_inv(1) by (cases "rw_WriteHeader code rw") auto
  next
    case (HWrite data)
    let ?rw1 = "on_response (\<lambda>w. if sr_canWriteContinue w then w\<lparr>sr_canWriteContinue := False\<rparr> else w) rw"
    have i1: "reuse_inv (bw_wr ?rw1)" using assms(2) by (simp add: on_response_def reuse_inv_def body_ok_def body_done_def whole_body_def)
    obtain rw2 where r2: "(if \<not> sr_wroteHeader (bw_wr ?rw1) then rw_WriteHeader 200 ?rw1 else Ret ?rw1) = Ret rw2"
      using assms(1) HWrite by (cases "if \<not> sr_wroteHeader (bw_wr ?rw1) then rw_WriteHeader 200 ?rw1 else Ret ?rw1") (simp_all add: rw_write_def)
    have i2: "reuse_inv (bw_wr rw2)" by (rule first[OF r2 i1])
    have i3: "reuse_inv (bw_wr (on_response (\<lambda>w. w\<lparr>sr_written := sr_written w + int (length data)\<rparr>) rw2))"
      using i2 by (simp add: on_response_def reuse_inv_def body_ok_def body_done_def whole_body_def)
    show ?thesis
      using assms(1) HWrite r2 i2 i3 writes[OF i3, of data]
      by (cases "bodyAllowed (bw_wr rw2)") (auto simp: rw_write_def Let_def split: if_splits prod.splits)
  next
    case HFlush
    obtain rw2 where r2: "(if \<not> sr_wroteHeader (bw_wr rw) then rw_WriteHeader 200 rw else Ret rw) = Ret rw2"
      using assms(1) HFlush by (cases "if \<not> sr_wroteHeader (bw_wr rw) then rw_WriteHeader 200 rw else Ret rw") (simp_all add: rw_FlushError_def)
    obtain e rw3 where fl: "bwriter_Flush (cw_Write C VT now) rw2 = (e, rw3)" by (metis surj_pair)
    have "reuse_inv (bw_wr rw3)" using flushes[OF first[OF r2 assms(2)]] fl by simp
    then have "reuse_inv (snd (cw_flush C VT now (bw_wr rw3)))" by (rule cw_flush_inv)
    then show ?thesis using assms(1) HFlush r2 fl by (auto simp: rw_FlushError_def split: prod.splits)
  next
    case (HRead k)
    then show ?thesis using assms(1,2) req_Read_inv by (auto split: prod.splits)
  next
    case HClose
    then show ?thesis using assms(1,2) req_Close_inv by auto
  qed (use assms header in \<open>auto\<close>)
qed

lemma run_ops_inv:
  "run_ops C VT now xs rw = Ret (d, rw') \<Longrightarrow> reuse_inv (bw_wr rw) \<Longrightarrow> HFullDuplex \<notin> set xs \<Longrightarrow> reuse_inv (bw_wr rw')"
proof (induction xs arbitrary: rw d)
  case (Cons x xs)
  obtain d1 rw1 where r1: "run_op C VT now x rw = Ret (d1, rw1)"
    using Cons.prems(1) by (cases "run_op C VT now x rw") auto
  obtain d2 where r2: "run_ops C VT now xs rw1 = Ret (d2, rw')"
    using Cons.prems(1) r1 by (cases "run_ops C VT now xs rw1") auto
  have "reuse_inv (bw_wr rw1)" by (rule run_op_inv[OF r1 Cons.prems(2)]) (use Cons.prems(3) in auto)
  then show ?case using Cons.IH[OF r2] Cons.prems(3) by simp
qed simp

lemma finishRequest_inv:
  assumes "finishRequest C VT now rw = Ret w" and "reuse_inv (bw_wr rw)"
  shows "body_done w"
proof -
  let ?rw1 = "on_response (\<lambda>w. w\<lparr>sr_handlerDone := True\<rparr>) rw"
  have i1: "reuse_inv (bw_wr ?rw1)" using assms(2) by (simp add: on_response_def reuse_inv_def body_ok_def body_done_def whole_body_def)
  obtain rw2 where r2: "(if \<not> sr_wroteHeader (bw_wr ?rw1) then rw_WriteHeader 200 ?rw1 else Ret ?rw1) = Ret rw2"
    using assms(1) by (cases "if \<not> sr_wroteHeader (bw_wr ?rw1) then rw_WriteHeader 200 ?rw1 else Ret ?rw1") (simp_all add: finishRequest_def Let_def)
  have i2: "reuse_inv (bw_wr rw2)" using r2 i1 rw_WriteHeader_inv(1) by (auto split: if_splits)
  have "reuse_inv (bw_wr (snd (bwriter_Flush (cw_Write C VT now) rw2)))" (is "reuse_inv ?w3")
    by (rule Flush_keeps[where P = reuse_inv, OF cw_Write_inv i2])
  from cw_close_inv[OF this, of C VT now] have "body_done (cw_close C VT now ?w3)" by (simp add: reuse_inv_def)
  moreover have "bufw_free body_done" by (simp add: bufw_free_def body_done_def whole_body_def)
  ultimately have "body_done (snd (flush_bufw (cw_close C VT now ?w3)))" (is "body_done ?w4") by (simp add: bufw_free_simps)
  then have "body_done (?w4\<lparr>sr_reqBody := snd (close_reqBody (sr_reqBody ?w4))\<rparr>)"
    using close_whole[of ?w4] by (auto simp: body_done_def)
  then show ?thesis using assms(1) r2 by (simp add: finishRequest_def finish_reply_def Let_def)
qed

section \<open>One turn of the loop\<close>

lemma no_length_no_body:
  assumes "readTransfer lax C msg r = (None, m)" and "\<not> ms_isResponse msg" and "ms_ContentLength m = 0"
  shows "ms_Body m = NoBody"
proof -
  obtain t where t: "parseTransferEncoding (unify_input C msg) = (None, t)"
    using assms(1) by (cases "parseTransferEncoding (unify_input C msg)") (auto simp: readTransfer_def Let_def split: option.splits)
  have "tr_StatusCode (unify_input C msg) = 200" using assms(2) by (simp add: unify_input_def Let_def split: option.split)
  then have st: "tr_StatusCode t = 200"
    using t by (auto simp: parseTransferEncoding_def Let_def split: option.splits if_splits)
  obtain n h where fl: "fixLength lax False 200 (tr_RequestMethod t) (tr_Header t) (tr_Chunked t) = (Inr n, h)"
    using assms(1,2) t st
    by (cases "fixLength lax False 200 (tr_RequestMethod t) (tr_Header t) (tr_Chunked t)")
      (auto simp: readTransfer_def Let_def split: sum.splits)
  obtain tr h2 where ft: "fixTrailer h (tr_Chunked t) = (Inr tr, h2)"
    using assms(1,2) t st fl by (cases "fixTrailer h (tr_Chunked t)") (auto simp: readTransfer_def Let_def split: sum.splits)
  let ?t = "t\<lparr>tr_ContentLength := n, tr_Header := h2, tr_Trailer := tr\<rparr>"
  have m: "ms_ContentLength m = n" "ms_Body m = body_for False ?t n r"
    using assms(1,2) t st fl ft by (auto simp: readTransfer_def Let_def unify_output_def)
  have "n = - 1" if "tr_Chunked t"
    using fl that by (auto simp: fixLength_def Let_def split: sum.splits if_splits)
  then show ?thesis using m assms(3) by (auto simp: body_for_def)
qed

lemma readRequest_body:
  assumes "readRequest T lax C b = (Inr req, r)" and "rq_ContentLength req = 0"
  shows "rq_Body req = NoBody"
proof -
  obtain req0 h r1 where "request_header lax C req0 h r1 = Inr req"
    using assms(1) by (auto simp: readRequest_def split: prod.splits sum.splits option.splits)
  then obtain msg m req1 where "readTransfer lax C msg r1 = (None, m)" "\<not> ms_isResponse msg" "req = with_message m req1"
    by (auto simp: request_header_def message_of_request_def Let_def split: if_splits prod.splits option.splits)
  then show ?thesis using no_length_no_body[of lax C msg r1 m] assms(2) by (simp add: with_message_def)
qed

lemma conn_readRequest_inv:
  assumes "conn_readRequest T lax C VH VN V hit c = (Inr rw, c1)" and "wrap_expect rw = Some rw1"
  shows "reuse_inv (bw_wr (on_response register_body rw1))"
proof -
  obtain req r where req: "readRequest T lax C (skip_line_ends c) = (Inr req, r)"
    using assms(1) by (auto simp: conn_readRequest_def split: prod.splits sum.splits)
  let ?req = "req\<lparr>rq_Header := AList.delete ''Host'' (rq_Header req), rq_Body := early_close (rq_Body req)\<rparr>"
  have rw: "rw = new_srv_response (hc_server c) ?req (hc_bufw c)"
    using assms(1) req by (auto simp: conn_readRequest_def Let_def split: option.splits)
  have rw1: "\<not> sr_fullDuplex (bw_wr rw1)" "\<not> cw_wroteHeader (bw_wr rw1)" "sr_reqBody (bw_wr rw1) = early_close (rq_Body req)"
    "sr_req (bw_wr rw1) = ?req" "sr_expect (bw_wr rw1) = Some er \<Longrightarrow> \<not> er_sawEOF er" for er
    using assms(2) rw
    by (auto simp: wrap_expect_def new_srv_response_def new_bwriter_def on_response_def Let_def split: if_splits)
  have "rq_ContentLength req = 0 \<Longrightarrow> sr_reqBody (bw_wr rw1) = NoBody"
    using readRequest_body[OF req] rw1(3) by (simp add: early_close_def)
  then show ?thesis
    using rw1 by (auto simp: on_response_def register_body_def reuse_inv_def body_ok_def whole_body_def requestBodyRemains_def)
qed

lemma shouldReuse_open: "shouldReuseConnection w = Ret True \<Longrightarrow> \<not> sr_closeAfterReply w"
  by (simp add: shouldReuseConnection_def split: if_splits)

text \<open>C11: A connection is used for another request only after the body of the last one was read to its end.  For every
  request that the server reads and every handler that does not ask for full duplex, whatever it writes, flushes,
  reads or closes and in whatever
  order: if shouldReuseConnection answers true after the reply, the request had no body or its reader has seen the
  end, so nothing of a body can be taken for the next request.  For a handler that asks for full duplex this does not
  hold: lemma full_duplex_reuses.\<close>

theorem reuse_after_whole_body:
  assumes "conn_readRequest T lax C VH VN V hit c = (Inr rw, c1)" and "wrap_expect rw = Some rw1"
    and "handle C VT now ops rw1 = Ret (d, w)" and "HFullDuplex \<notin> set ops" and "shouldReuseConnection w = Ret True"
  shows "case sr_reqBody w of TheBody b \<Rightarrow> b_sawEOF b | _ \<Rightarrow> True"
proof -
  obtain d1 rw2 where run: "run_ops C VT now ops (on_response register_body rw1) = Ret (d1, rw2)"
    using assms(3) by (cases "run_ops C VT now ops (on_response register_body rw1)") (auto simp: handle_def)
  have fin: "finishRequest C VT now rw2 = Ret w"
    using assms(3) run by (cases "finishRequest C VT now rw2") (auto simp: handle_def)
  have "reuse_inv (bw_wr rw2)" by (rule run_ops_inv[OF run conn_readRequest_inv[OF assms(1,2)] assms(4)])
  from finishRequest_inv[OF fin this] shouldReuse_open[OF assms(5)] show ?thesis
    by (simp add: body_done_def whole_body_def)
qed

text \<open>A POST whose body the handler never reads: the server reads it and keeps the connection.\<close>

lemmas [code] = validHeaderFieldByte_token validHeaderValueByte_iff

definition sample_server :: http_server where
  "sample_server = \<lparr>sv_ReadTimeout = 0, sv_ReadHeaderTimeout = 0, sv_WriteTimeout = 0, sv_IdleTimeout = 0, sv_MaxHeaderBytes = 0,
     sv_disableKeepAlives = False, sv_inShutdown = False\<rparr>"

definition sample_net :: "net_conn bwriter" where
  "sample_net = new_bwriter \<lparr>nc_out = [], nc_room = None, nc_closed = False, nc_werr = None\<rparr>"

definition sample_conn :: http_conn where
  "sample_conn = \<lparr>hc_server = sample_server,
     hc_bufr = \<lparr>bf_buf = [], bf_src = [''POST / HTTP/1.1'' @ crlf @ ''Content-Length: 2'' @ crlf @ crlf @ ''hi'']\<rparr>,
     hc_bufw = sample_net, hc_lastMethod = []\<rparr>"

definition sample_time :: utc_time where
  "sample_time = \<lparr>ut_year = 2024, ut_month = 1, ut_day = 1, ut_weekday = 1, ut_hour = 0, ut_min = 0, ut_sec = 0\<rparr>"

definition sample_srv_request :: "body request" where
  "sample_srv_request = new_request\<lparr>rq_Method := ''POST'', rq_URL := Some (new_URL\<lparr>Path := ''/''\<rparr>), rq_Proto := ''HTTP/1.1'', rq_ProtoMajor := 1, rq_ProtoMinor := 1, rq_RequestURI := ''/'',
     rq_Header := [(''Content-Length'', [''2''])], rq_ContentLength := 2,
     rq_Body := TheBody \<lparr>b_src = LimitedSrc \<lparr>bf_buf = ''hi'', bf_src = []\<rparr> 2, b_hdr = False, b_closing = False,
       b_doEarlyClose = True, b_sawEOF = False, b_closed = False, b_earlyClose = False, b_onHitEOF = None, b_trailer = None\<rparr>\<rparr>"

abbreviation "sample_token \<equiv> (\<lambda>r::nat. r < 128 \<and> token_byte (char_of r))"

lemma sample_read:
  "conn_readRequest sample_token False (\<lambda>_ _. False) (\<lambda>_. True) (\<lambda>_. True) (\<lambda>_. True) False sample_conn =
     (Inr (new_srv_response sample_server sample_srv_request sample_net),
      sample_conn\<lparr>hc_bufr := \<lparr>bf_buf = ''hi'', bf_src = []\<rparr>, hc_lastMethod := ''POST''\<rparr>)"
  by code_simp

lemma sample_wrap:
  "wrap_expect (new_srv_response sample_server sample_srv_request sample_net) = Some (new_srv_response sample_server sample_srv_request sample_net)"
  by code_simp

lemma sample_handled:
  "go_bind (handle (\<lambda>_ _. False) (\<lambda>_. True) sample_time [HWrite ''ok''] (new_srv_response sample_server sample_srv_request sample_net))
     (shouldReuseConnection \<circ> snd) = Ret True"
  by code_simp

lemma reuse_after_whole_body_witness:
  "\<exists>rw c1 d w. conn_readRequest sample_token False (\<lambda>_ _. False) (\<lambda>_. True) (\<lambda>_. True) (\<lambda>_. True) False sample_conn = (Inr rw, c1) \<and>
     handle (\<lambda>_ _. False) (\<lambda>_. True) sample_time [HWrite ''ok''] rw = Ret (d, w) \<and> shouldReuseConnection w = Ret True \<and>
     (case sr_reqBody w of TheBody b \<Rightarrow> b_sawEOF b | _ \<Rightarrow> True)"
proof -
  obtain d w where h: "handle (\<lambda>_ _. False) (\<lambda>_. True) sample_time [HWrite ''ok''] (new_srv_response sample_server sample_srv_request sample_net) = Ret (d, w)"
    and r: "shouldReuseConnection w = Ret True"
    using sample_handled unfolding go_bind_Ret by auto
  from reuse_after_whole_body[OF sample_read sample_wrap h _ r] have "case sr_reqBody w of TheBody b \<Rightarrow> b_sawEOF b | _ \<Rightarrow> True" by simp
  then show ?thesis using sample_read h r by blast
qed

text \<open>
  With full duplex, the body is not read before the reply, and finishRequest ignores the error of its Close: after
  a malformed chunk the connection is used again, although the end of the body was not reached.\<close>

definition duplex_conn :: http_conn where
  "duplex_conn = sample_conn\<lparr>hc_bufr :=
     \<lparr>bf_buf = [], bf_src = [''POST / HTTP/1.1'' @ crlf @ ''Transfer-Encoding: chunked'' @ crlf @ crlf @ ''xyz'' @ crlf]\<rparr>\<rparr>"

definition duplex_outcome :: "(bool \<times> bool) option" where
  "duplex_outcome =
     (case fst (conn_readRequest sample_token False (\<lambda>_ _. False) (\<lambda>_. True) (\<lambda>_. True) (\<lambda>_. True) False duplex_conn) of
        Inl _ \<Rightarrow> None
      | Inr rw \<Rightarrow>
          (case wrap_expect rw of
             None \<Rightarrow> None
           | Some rw1 \<Rightarrow>
               (case handle (\<lambda>_ _. False) (\<lambda>_. True) sample_time [HFullDuplex, HWrite ''ok''] rw1 of
                  Panic _ \<Rightarrow> None
                | Ret (_, w) \<Rightarrow>
                    (case shouldReuseConnection w of
                       Panic _ \<Rightarrow> None
                     | Ret again \<Rightarrow> Some (again, case sr_reqBody w of TheBody b \<Rightarrow> b_sawEOF b | _ \<Rightarrow> True)))))"

lemma full_duplex_reuses: "duplex_outcome = Some (True, False)"
  by code_simp

end
