(* ===== verification/Server_Life.thy ===== *)
theory Server_Life
  imports Go_Prelude "HOL-Library.Word"
begin

text \<open>
  The life of a server (Serve, Shutdown, SetKeepAlivesEnabled and the tracking of listeners and connections in
  src/http/server.go): each Serve call, each connection and each Shutdown call is a goroutine, whose steps are the
  sections under the mutex of the server and the operations between them.  A Serve call and its listener have one
  number.  Parameters: \<open>lc\<close> gives the error of closing a listener.  The hooks ConnState, BaseContext and ConnContext,
  the functions registered for Shutdown and Serve's sleeping are not modelled.
\<close>

unbundle bit_operations_syntax

section \<open>The state of a connection\<close>

definition StateNew :: int where "StateNew = 0"
definition StateActive :: int where "StateActive = 1"
definition StateIdle :: int where "StateIdle = 2"
definition StateHijacked :: int where "StateHijacked = 3"
definition StateClosed :: int where "StateClosed = 4"

lemmas conn_state_defs = StateNew_def StateActive_def StateIdle_def StateHijacked_def StateClosed_def

text \<open>The state and the time of the change share a word.\<close>

definition pack_state :: "int \<Rightarrow> int \<Rightarrow> 64 word" where
  "pack_state now st = push_bit 8 (word_of_int now) OR word_of_int st"

definition getState :: "64 word \<Rightarrow> int \<times> int" where
  "getState packed = (uint (packed AND 0xFF), sint (drop_bit 8 packed))"

section \<open>The server\<close>

record server_life =
  sl_inShutdown :: bool
  sl_disableKeepAlives :: bool
  sl_listeners :: "nat list"
  sl_group :: int
  sl_active :: "nat list"
  sl_curState :: "nat \<Rightarrow> 64 word"
  sl_rwc_closed :: "nat list"
  sl_once :: "(nat \<times> string option) list"

text \<open>Close of an onceCloseListener: the first call closes the listener and keeps the error.\<close>

definition once_Close :: "(nat \<Rightarrow> string option) \<Rightarrow> nat \<Rightarrow> 'a server_life_scheme \<Rightarrow> string option \<times> 'a server_life_scheme" where
  "once_Close lc l s =
     (case map_of (sl_once s) l of
        Some e \<Rightarrow> (e, s)
      | None \<Rightarrow> (lc l, s\<lparr>sl_once := (l, lc l) # sl_once s\<rparr>))"

definition close_listener ::
  "(nat \<Rightarrow> string option) \<Rightarrow> nat \<Rightarrow> string option \<times> 'a server_life_scheme \<Rightarrow> string option \<times> 'a server_life_scheme" where
  "close_listener lc l = (\<lambda>(err, s). case once_Close lc l s of (cerr, s') \<Rightarrow> (if cerr \<noteq> None \<and> err = None then cerr else err, s'))"

definition closeListenersLocked ::
  "(nat \<Rightarrow> string option) \<Rightarrow> 'a server_life_scheme \<Rightarrow> string option \<times> 'a server_life_scheme" where
  "closeListenersLocked lc s = fold (close_listener lc) (sl_listeners s) (None, s)"

definition trackListener :: "nat \<Rightarrow> bool \<Rightarrow> 'a server_life_scheme \<Rightarrow> (bool \<times> 'a server_life_scheme) go" where
  "trackListener l add s =
     (if add then
        (if sl_inShutdown s then Ret (False, s)
         else Ret (True, s\<lparr>sl_listeners := List.insert l (sl_listeners s), sl_group := sl_group s + 1\<rparr>))
      else if sl_group s - 1 < 0 then Panic ''sync: negative WaitGroup counter''
      else Ret (True, s\<lparr>sl_listeners := removeAll l (sl_listeners s), sl_group := sl_group s - 1\<rparr>))"

definition trackConn :: "nat \<Rightarrow> bool \<Rightarrow> 'a server_life_scheme \<Rightarrow> 'a server_life_scheme" where
  "trackConn c add s =
     (if add then s\<lparr>sl_active := List.insert c (sl_active s)\<rparr> else s\<lparr>sl_active := removeAll c (sl_active s)\<rparr>)"

text \<open>setState in its two parts: the tracking, under the mutex, and the store.\<close>

definition state_track :: "nat \<Rightarrow> int \<Rightarrow> 'a server_life_scheme \<Rightarrow> 'a server_life_scheme" where
  "state_track c st s =
     (if st = StateNew then trackConn c True s
      else if st = StateHijacked \<or> st = StateClosed then trackConn c False s else s)"

definition state_store :: "nat \<Rightarrow> int \<Rightarrow> int \<Rightarrow> 'a server_life_scheme \<Rightarrow> 'a server_life_scheme go" where
  "state_store c st now s =
     (if st > 255 \<or> st < 0 then Panic ''internal error''
      else Ret (s\<lparr>sl_curState := (sl_curState s)(c := pack_state now st)\<rparr>))"

definition setState :: "nat \<Rightarrow> int \<Rightarrow> int \<Rightarrow> 'a server_life_scheme \<Rightarrow> 'a server_life_scheme go" where
  "setState c st now s = state_store c st now (state_track c st s)"

text \<open>A connection is closed when it is idle, or new for more than five seconds; a time of 0 says that the state is not set yet.\<close>

definition closable :: "int \<Rightarrow> 64 word \<Rightarrow> bool" where
  "closable now packed =
     (case getState packed of
        (st0, unixSec) \<Rightarrow>
          let st = (if st0 = StateNew \<and> unixSec < now - 5 then StateIdle else st0) in \<not> (st \<noteq> StateIdle \<or> unixSec = 0))"

definition close_idle :: "int \<Rightarrow> nat \<Rightarrow> bool \<times> 'a server_life_scheme \<Rightarrow> bool \<times> 'a server_life_scheme" where
  "close_idle now c = (\<lambda>(quiescent, s).
     if closable now (sl_curState s c)
     then (quiescent, s\<lparr>sl_rwc_closed := List.insert c (sl_rwc_closed s), sl_active := removeAll c (sl_active s)\<rparr>)
     else (False, s))"

definition closeIdleConns :: "int \<Rightarrow> 'a server_life_scheme \<Rightarrow> bool \<times> 'a server_life_scheme" where
  "closeIdleConns now s = fold (close_idle now) (sl_active s) (True, s)"

definition SetKeepAlivesEnabled :: "bool \<Rightarrow> int \<Rightarrow> 'a server_life_scheme \<Rightarrow> 'a server_life_scheme" where
  "SetKeepAlivesEnabled v now s =
     (if v then s\<lparr>sl_disableKeepAlives := False\<rparr> else snd (closeIdleConns now (s\<lparr>sl_disableKeepAlives := True\<rparr>)))"

section \<open>Serve\<close>

datatype serve_result =
  ErrServerClosed
| AcceptError string

text \<open>Where a Serve call is: about to start, in Accept after a delay, tracking a new connection, storing its state,
  running its deferred calls, or back.\<close>

datatype serve_pc =
  SvStart
| SvAccept int
| SvTrack nat
| SvStore nat
| SvUntrack serve_result
| SvClose serve_result
| SvReturned serve_result

text \<open>The delay in nanoseconds after a temporary error.\<close>

definition accept_delay :: "int \<Rightarrow> int" where
  "accept_delay d = (let t = (if d = 0 then 5000000 else d * 2) in if t > 1000000000 then 1000000000 else t)"

text \<open>What Serve does with an error of Accept.\<close>

definition accept_failed :: "bool \<Rightarrow> string \<Rightarrow> int \<Rightarrow> 'a server_life_scheme \<Rightarrow> serve_pc" where
  "accept_failed temporary err d s =
     (if sl_inShutdown s then SvUntrack ErrServerClosed
      else if temporary then SvAccept (accept_delay d) else SvUntrack (AcceptError err))"

text \<open>ListenAndServe, up to its call of Serve: the address, or nothing after Shutdown.\<close>

definition listen_address :: "string \<Rightarrow> string \<Rightarrow> 'a server_life_scheme \<Rightarrow> string option" where
  "listen_address dflt addr s = (if sl_inShutdown s then None else Some (if addr = [] then dflt else addr))"

section \<open>Shutdown\<close>

datatype shutdown_result =
  ShutdownDone "string option"
| ShutdownCtx

datatype shutdown_pc =
  DownStart
| DownLock
| DownWait "string option"
| DownPoll "string option" int
| DownReturned shutdown_result

definition shutdownPollIntervalMax :: int where "shutdownPollIntervalMax = 500 * 1000000"

text \<open>The interval before the next poll, with a random part \<open>r\<close> below a tenth of the base, and the next base.  rand.Intn
  panics if its argument is not positive.\<close>

definition nextPollInterval :: "int \<Rightarrow> int \<Rightarrow> (int \<times> int) go" where
  "nextPollInterval r base =
     (if base div 10 \<le> 0 then Panic ''invalid argument to Intn''
      else let b = base * 2 in Ret (base + r mod (base div 10), if b > shutdownPollIntervalMax then shutdownPollIntervalMax else b))"

section \<open>The goroutines\<close>

record life = server_life +
  lf_serve :: "nat \<Rightarrow> serve_pc"
  lf_down :: "nat \<Rightarrow> shutdown_pc"
  lf_running :: "nat list"
  lf_next :: nat

datatype life_action =
  ServeStart nat
| AcceptConn nat
| AcceptFail nat bool string
| ServeTrack nat
| ServeStore nat int
| ServeUntrack nat
| ServeClose nat
| ConnState nat bool int
| ConnClose nat
| ConnEnd nat bool int
| KeepAlives bool int
| ShutdownStart nat
| ShutdownLock nat
| ShutdownWaited nat int
| ShutdownPoll nat int int
| ShutdownCancel nat

definition set_serve :: "nat \<Rightarrow> serve_pc \<Rightarrow> life \<Rightarrow> life" where
  "set_serve l pc s = s\<lparr>lf_serve := (lf_serve s)(l := pc)\<rparr>"

definition set_down :: "nat \<Rightarrow> shutdown_pc \<Rightarrow> life \<Rightarrow> life" where
  "set_down k pc s = s\<lparr>lf_down := (lf_down s)(k := pc)\<rparr>"

text \<open>A step, if it can be taken.  Accept of a closed listener can only fail.\<close>

definition serve_do :: "(nat \<Rightarrow> string option) \<Rightarrow> life_action \<Rightarrow> life \<Rightarrow> life go option" where
  "serve_do lc a s =
     (case a of
        ServeStart l \<Rightarrow>
          (if lf_serve s l = SvStart
           then Some (go_bind (trackListener l True s)
             (\<lambda>(up, s'). Ret (set_serve l (if up then SvAccept 0 else SvClose ErrServerClosed) s')))
           else None)
      | AcceptConn l \<Rightarrow>
          (case lf_serve s l of
             SvAccept d \<Rightarrow>
               if map_of (sl_once s) l = None
               then Some (Ret (set_serve l (SvTrack (lf_next s)) (s\<lparr>lf_next := Suc (lf_next s)\<rparr>))) else None
           | _ \<Rightarrow> None)
      | AcceptFail l temporary err \<Rightarrow>
          (case lf_serve s l of SvAccept d \<Rightarrow> Some (Ret (set_serve l (accept_failed temporary err d s) s)) | _ \<Rightarrow> None)
      | ServeTrack l \<Rightarrow>
          (case lf_serve s l of SvTrack c \<Rightarrow> Some (Ret (set_serve l (SvStore c) (state_track c StateNew s))) | _ \<Rightarrow> None)
      | ServeStore l now \<Rightarrow>
          (case lf_serve s l of
             SvStore c \<Rightarrow> Some (go_bind (state_store c StateNew now s)
               (\<lambda>s'. Ret (set_serve l (SvAccept 0) (s'\<lparr>lf_running := c # lf_running s'\<rparr>))))
           | _ \<Rightarrow> None)
      | ServeUntrack l \<Rightarrow>
          (case lf_serve s l of
             SvUntrack r \<Rightarrow> Some (go_bind (trackListener l False s) (\<lambda>(up, s'). Ret (set_serve l (SvClose r) s')))
           | _ \<Rightarrow> None)
      | ServeClose l \<Rightarrow>
          (case lf_serve s l of SvClose r \<Rightarrow> Some (Ret (set_serve l (SvReturned r) (snd (once_Close lc l s)))) | _ \<Rightarrow> None)
      | _ \<Rightarrow> None)"

definition conn_do :: "life_action \<Rightarrow> life \<Rightarrow> life go option" where
  "conn_do a s =
     (case a of
        ConnState c active now \<Rightarrow>
          (if c \<in> set (lf_running s) then Some (setState c (if active then StateActive else StateIdle) now s) else None)
      | ConnClose c \<Rightarrow>
          (if c \<in> set (lf_running s) then Some (Ret (s\<lparr>sl_rwc_closed := List.insert c (sl_rwc_closed s)\<rparr>)) else None)
      | ConnEnd c hijacked now \<Rightarrow>
          (if c \<in> set (lf_running s)
           then Some (setState c (if hijacked then StateHijacked else StateClosed) now (s\<lparr>lf_running := removeAll c (lf_running s)\<rparr>))
           else None)
      | _ \<Rightarrow> None)"

text \<open>Wait returns when no Serve call is counted.  A poll that finds the server quiescent ends Shutdown.\<close>

definition shutdown_do :: "(nat \<Rightarrow> string option) \<Rightarrow> life_action \<Rightarrow> life \<Rightarrow> life go option" where
  "shutdown_do lc a s =
     (case a of
        ShutdownStart k \<Rightarrow>
          (if lf_down s k = DownStart then Some (Ret (set_down k DownLock (s\<lparr>sl_inShutdown := True\<rparr>))) else None)
      | ShutdownLock k \<Rightarrow>
          (if lf_down s k = DownLock
           then Some (case closeListenersLocked lc s of (lnerr, s') \<Rightarrow> Ret (set_down k (DownWait lnerr) s')) else None)
      | ShutdownWaited k r \<Rightarrow>
          (case lf_down s k of
             DownWait lnerr \<Rightarrow>
               if sl_group s = 0
               then Some (go_bind (nextPollInterval r 1000000) (\<lambda>(_, base). Ret (set_down k (DownPoll lnerr base) s))) else None
           | _ \<Rightarrow> None)
      | ShutdownPoll k now r \<Rightarrow>
          (case lf_down s k of
             DownPoll lnerr base \<Rightarrow>
               Some (case closeIdleConns now s of
                 (quiescent, s') \<Rightarrow>
                   if quiescent then Ret (set_down k (DownReturned (ShutdownDone lnerr)) s')
                   else go_bind (nextPollInterval r base) (\<lambda>(_, base'). Ret (set_down k (DownPoll lnerr base') s')))
           | _ \<Rightarrow> None)
      | ShutdownCancel k \<Rightarrow>
          (case lf_down s k of DownPoll lnerr base \<Rightarrow> Some (Ret (set_down k (DownReturned ShutdownCtx) s)) | _ \<Rightarrow> None)
      | KeepAlives v now \<Rightarrow> Some (Ret (SetKeepAlivesEnabled v now s))
      | _ \<Rightarrow> None)"

definition life_do :: "(nat \<Rightarrow> string option) \<Rightarrow> life_action \<Rightarrow> life \<Rightarrow> life go option" where
  "life_do lc a s =
     (case serve_do lc a s of
        Some r \<Rightarrow> Some r
      | None \<Rightarrow> (case conn_do a s of Some r \<Rightarrow> Some r | None \<Rightarrow> shutdown_do lc a s))"

definition life_start :: life where
  "life_start =
     \<lparr>sl_inShutdown = False, sl_disableKeepAlives = False, sl_listeners = [], sl_group = 0, sl_active = [],
      sl_curState = (\<lambda>_. 0), sl_rwc_closed = [], sl_once = [], lf_serve = (\<lambda>_. SvStart), lf_down = (\<lambda>_. DownStart),
      lf_running = [], lf_next = 0\<rparr>"

inductive life_reach :: "(nat \<Rightarrow> string option) \<Rightarrow> life \<Rightarrow> bool" for lc where
  life_reach_start: "life_reach lc life_start"
| life_reach_step: "life_reach lc s \<Longrightarrow> life_do lc a s = Some (Ret s') \<Longrightarrow> life_reach lc s'"

end
