(* ===== verification/Server_Life_Correct.thy ===== *)
theory Server_Life_Correct
  imports Server_Life
begin

text \<open>
  Correctness of the life of a server: the invariant that every step of every goroutine keeps, and what Shutdown
  promises.
\<close>

section \<open>The packed state\<close>

lemma uint_pack:
  assumes "0 \<le> now" and "now < 2 ^ 55" and "0 \<le> st" and "st < 256"
  shows "uint (pack_state now st) = push_bit 8 now OR st"
proof -
  have now: "uint (word_of_int now :: 64 word) = now" and st: "uint (word_of_int st :: 64 word) = st"
    using assms by (simp_all add: uint_word_of_int_eq take_bit_int_eq_self)
  have "take_bit 64 (push_bit 8 now) = push_bit 8 now"
    using assms by (simp add: take_bit_int_eq_self push_bit_eq_mult)
  then show ?thesis by (simp add: pack_state_def uint_or unsigned_push_bit_eq now st)
qed

lemma getState_pack:
  assumes "0 \<le> now" and "now < 2 ^ 55" and "0 \<le> st" and "st < 256"
  shows "getState (pack_state now st) = (st, now)"
proof -
  note u = uint_pack[OF assms]
  have "uint (pack_state now st AND 0xFF) = take_bit 8 (uint (pack_state now st))"
    by (simp add: uint_and take_bit_eq_mask mask_eq_exp_minus_1)
  also have "\<dots> = st" using assms by (simp add: u take_bit_or take_bit_push_bit take_bit_int_eq_self)
  finally have st: "uint (pack_state now st AND 0xFF) = st" .
  have "uint (drop_bit 8 (pack_state now st)) = drop_bit 8 (uint (pack_state now st))"
    using uint_bounded[of "pack_state now st"] by (simp add: unsigned_drop_bit_eq take_bit_int_eq_self)
  also have "\<dots> = drop_bit 8 (push_bit 8 now) OR drop_bit 8 st" by (simp only: u drop_bit_or)
  also have "\<dots> = now" using assms by (simp add: push_bit_eq_mult drop_bit_eq_div)
  finally have d: "uint (drop_bit 8 (pack_state now st)) = now" .
  have "sint (drop_bit 8 (pack_state now st)) = now"
    using assms d by (simp add: sint_uint signed_take_bit_int_eq_self)
  with st show ?thesis by (simp add: getState_def)
qed

section \<open>The loops over listeners and connections\<close>

lemma once_Close_eq:
  obtains o' where "snd (once_Close lc l s) = s\<lparr>sl_once := o'\<rparr>" and "map_of o' l \<noteq> None"
    and "\<forall>x. map_of (sl_once s) x \<noteq> None \<longrightarrow> map_of o' x \<noteq> None"
proof (cases "map_of (sl_once s) l")
  case None
  show ?thesis by (rule that[of "(l, lc l) # sl_once s"]) (simp_all add: once_Close_def None)
next
  case (Some e)
  show ?thesis by (rule that[of "sl_once s"]) (simp_all add: once_Close_def Some)
qed

lemma closeListeners_fold:
  "\<exists>o'. snd (fold (close_listener lc) ls (e, s)) = s\<lparr>sl_once := o'\<rparr> \<and>
     (\<forall>x. x \<in> set ls \<or> map_of (sl_once s) x \<noteq> None \<longrightarrow> map_of o' x \<noteq> None)"
proof (induction ls arbitrary: e s)
  case Nil
  show ?case by (rule exI[of _ "sl_once s"]) simp
next
  case (Cons l ls)
  obtain e1 where e1: "close_listener lc l (e, s) = (e1, snd (once_Close lc l s))"
    by (cases "once_Close lc l s") (simp add: close_listener_def)
  obtain o1 where o1: "snd (once_Close lc l s) = s\<lparr>sl_once := o1\<rparr>" "map_of o1 l \<noteq> None"
      "\<forall>x. map_of (sl_once s) x \<noteq> None \<longrightarrow> map_of o1 x \<noteq> None"
    by (rule once_Close_eq)
  obtain o2 where "snd (fold (close_listener lc) ls (e1, s\<lparr>sl_once := o1\<rparr>)) = s\<lparr>sl_once := o1\<rparr>\<lparr>sl_once := o2\<rparr>"
      "\<forall>x. x \<in> set ls \<or> map_of o1 x \<noteq> None \<longrightarrow> map_of o2 x \<noteq> None"
    using Cons.IH[of e1 "s\<lparr>sl_once := o1\<rparr>"] by auto
  then show ?case using o1 by (intro exI[of _ o2]) (simp add: e1)
qed

lemma closeListenersLocked_eq:
  obtains e o' where "closeListenersLocked lc s = (e, s\<lparr>sl_once := o'\<rparr>)"
    and "\<forall>x. x \<in> set (sl_listeners s) \<or> map_of (sl_once s) x \<noteq> None \<longrightarrow> map_of o' x \<noteq> None"
  using closeListeners_fold[of lc "sl_listeners s" None s] unfolding closeListenersLocked_def
  by (metis prod.collapse)

lemma closeIdle_fold:
  assumes "sl_curState s = f"
  shows "\<exists>rc ac. fold (close_idle now) cs (q, s) =
       (q \<and> (\<forall>c\<in>set cs. closable now (f c)), s\<lparr>sl_rwc_closed := rc, sl_active := ac\<rparr>) \<and>
     set rc = set (sl_rwc_closed s) \<union> {c \<in> set cs. closable now (f c)} \<and>
     set ac = set (sl_active s) - {c \<in> set cs. closable now (f c)}"
  using assms
proof (induction cs arbitrary: q s)
  case Nil
  show ?case by (intro exI[of _ "sl_rwc_closed s"] exI[of _ "sl_active s"]) simp
next
  case (Cons c cs)
  define r1 where "r1 = (if closable now (f c) then List.insert c (sl_rwc_closed s) else sl_rwc_closed s)"
  define a1 where "a1 = (if closable now (f c) then removeAll c (sl_active s) else sl_active s)"
  define s1 where "s1 = s\<lparr>sl_rwc_closed := r1, sl_active := a1\<rparr>"
  have s1: "sl_curState s1 = f" "sl_rwc_closed s1 = r1" "sl_active s1 = a1" "s1\<lparr>sl_rwc_closed := rc, sl_active := ac\<rparr> = s\<lparr>sl_rwc_closed := rc, sl_active := ac\<rparr>" for rc ac
    using Cons.prems by (simp_all add: s1_def)
  have step: "close_idle now c (q, s) = (q \<and> closable now (f c), s1)"
    by (simp add: close_idle_def s1_def r1_def a1_def Cons.prems)
  obtain rc ac where g: "fold (close_idle now) cs (q \<and> closable now (f c), s1) =
       ((q \<and> closable now (f c)) \<and> (\<forall>c\<in>set cs. closable now (f c)), s\<lparr>sl_rwc_closed := rc, sl_active := ac\<rparr>)"
     and rc: "set rc = set r1 \<union> {c \<in> set cs. closable now (f c)}"
     and ac: "set ac = set a1 - {c \<in> set cs. closable now (f c)}"
    using Cons.IH[OF s1(1), of "q \<and> closable now (f c)"] unfolding s1 by blast
  have "fold (close_idle now) (c # cs) (q, s) =
      (q \<and> (\<forall>c\<in>set (c # cs). closable now (f c)), s\<lparr>sl_rwc_closed := rc, sl_active := ac\<rparr>)"
    by (simp add: step g)
  moreover have "set rc = set (sl_rwc_closed s) \<union> {x \<in> set (c # cs). closable now (f x)}"
    unfolding rc by (auto simp: r1_def)
  moreover have "set ac = set (sl_active s) - {x \<in> set (c # cs). closable now (f x)}"
    unfolding ac by (auto simp: a1_def)
  ultimately show ?case by blast
qed

lemma closeIdleConns_eq:
  obtains q rc ac where "closeIdleConns now s = (q, s\<lparr>sl_rwc_closed := rc, sl_active := ac\<rparr>)"
    and "set ac \<subseteq> set (sl_active s)" and "set rc = set (sl_rwc_closed s) \<union> (set (sl_active s) - set ac)" and "q \<longleftrightarrow> ac = []"
proof -
  let ?ok = "\<lambda>c. closable now (sl_curState s c)"
  obtain rc ac where f: "fold (close_idle now) (sl_active s) (True, s) = (True \<and> (\<forall>c\<in>set (sl_active s). ?ok c), s\<lparr>sl_rwc_closed := rc, sl_active := ac\<rparr>)"
    and rc: "set rc = set (sl_rwc_closed s) \<union> {c \<in> set (sl_active s). ?ok c}"
    and ac: "set ac = set (sl_active s) - {c \<in> set (sl_active s). ?ok c}"
    by (rule exE[OF closeIdle_fold[OF refl, of now "sl_active s" True s]]) (elim exE conjE, rule that)
  show ?thesis
  proof (rule that)
    show "closeIdleConns now s = ((\<forall>c\<in>set (sl_active s). ?ok c), s\<lparr>sl_rwc_closed := rc, sl_active := ac\<rparr>)"
      by (simp add: closeIdleConns_def f)
    show "set ac \<subseteq> set (sl_active s)" unfolding ac by blast
    show "set rc = set (sl_rwc_closed s) \<union> (set (sl_active s) - set ac)" unfolding rc ac by blast
    have "(\<forall>c\<in>set (sl_active s). ?ok c) \<longleftrightarrow> set ac = {}" unfolding ac by blast
    then show "(\<forall>c\<in>set (sl_active s). ?ok c) \<longleftrightarrow> ac = []" by simp
  qed
qed

section \<open>The invariant\<close>

text \<open>A Serve call is counted while it is in its loop; the connection that it has accepted and not yet started.\<close>

definition in_loop :: "serve_pc \<Rightarrow> bool" where
  "in_loop pc = (case pc of SvAccept _ \<Rightarrow> True | SvTrack _ \<Rightarrow> True | SvStore _ \<Rightarrow> True | SvUntrack _ \<Rightarrow> True | _ \<Rightarrow> False)"

definition accepted :: "serve_pc \<Rightarrow> nat option" where
  "accepted pc = (case pc of SvTrack c \<Rightarrow> Some c | SvStore c \<Rightarrow> Some c | _ \<Rightarrow> None)"

lemma in_loop_simps [simp]:
  "\<not> in_loop SvStart" "in_loop (SvAccept d)" "in_loop (SvTrack c)" "in_loop (SvStore c)" "in_loop (SvUntrack r)"
  "\<not> in_loop (SvClose r)" "\<not> in_loop (SvReturned r)"
  by (simp_all add: in_loop_def)

lemma accepted_simps [simp]:
  "accepted SvStart = None" "accepted (SvAccept d) = None" "accepted (SvTrack c) = Some c" "accepted (SvStore c) = Some c"
  "accepted (SvUntrack r) = None" "accepted (SvClose r) = None" "accepted (SvReturned r) = None"
  by (simp_all add: accepted_def)

definition loops_ok :: "life \<Rightarrow> bool" where
  "loops_ok s \<longleftrightarrow>
     distinct (sl_listeners s) \<and> set (sl_listeners s) = {l. in_loop (lf_serve s l)} \<and> sl_group s = int (length (sl_listeners s))"

definition conns_ok :: "life \<Rightarrow> bool" where
  "conns_ok s \<longleftrightarrow> (\<forall>c\<in>set (lf_running s). c < lf_next s \<and> (c \<in> set (sl_active s) \<or> c \<in> set (sl_rwc_closed s)))"

definition fresh_ok :: "life \<Rightarrow> bool" where
  "fresh_ok s \<longleftrightarrow>
     (\<forall>l c. accepted (lf_serve s l) = Some c \<longrightarrow>
        c < lf_next s \<and> c \<notin> set (lf_running s) \<and> (\<forall>l'. accepted (lf_serve s l') = Some c \<longrightarrow> l' = l) \<and>
        (lf_serve s l = SvStore c \<longrightarrow> c \<in> set (sl_active s) \<or> c \<in> set (sl_rwc_closed s)))"

definition down_ok :: "life \<Rightarrow> shutdown_pc \<Rightarrow> bool" where
  "down_ok s pc =
     (case pc of
        DownStart \<Rightarrow> True
      | DownLock \<Rightarrow> sl_inShutdown s
      | DownWait e \<Rightarrow> sl_inShutdown s \<and> (\<forall>l\<in>set (sl_listeners s). map_of (sl_once s) l \<noteq> None)
      | DownPoll e base \<Rightarrow> sl_inShutdown s \<and> sl_listeners s = [] \<and> 1000000 \<le> base \<and> base \<le> shutdownPollIntervalMax
      | DownReturned r \<Rightarrow> sl_inShutdown s \<and> sl_listeners s = [] \<and> ((\<exists>e. r = ShutdownDone e) \<longrightarrow> sl_active s = []))"

definition life_inv :: "life \<Rightarrow> bool" where
  "life_inv s \<longleftrightarrow> loops_ok s \<and> conns_ok s \<and> fresh_ok s \<and> (\<forall>k. down_ok s (lf_down s k))"

lemma life_inv_start: "life_inv life_start"
  by (simp add: life_inv_def loops_ok_def conns_ok_def fresh_ok_def down_ok_def life_start_def)

text \<open>What the pcs of Shutdown calls depend on may only shrink.\<close>

lemma down_ok_mono:
  assumes "down_ok s pc" and "sl_inShutdown s \<Longrightarrow> sl_inShutdown s'" and "sl_inShutdown s \<Longrightarrow> set (sl_listeners s') \<subseteq> set (sl_listeners s)"
    and "sl_inShutdown s \<Longrightarrow> sl_listeners s = [] \<Longrightarrow> sl_active s = [] \<Longrightarrow> sl_active s' = []"
    and "\<And>l. map_of (sl_once s) l \<noteq> None \<Longrightarrow> map_of (sl_once s') l \<noteq> None"
  shows "down_ok s' pc"
proof (cases "pc = DownStart")
  case False
  then have down: "sl_inShutdown s" using assms(1) by (auto simp: down_ok_def split: shutdown_pc.splits)
  show ?thesis
  proof (cases pc)
    case (DownWait e)
    have "map_of (sl_once s') l \<noteq> None" if "l \<in> set (sl_listeners s')" for l
      using assms(1) assms(3)[OF down] assms(5)[of l] that unfolding DownWait down_ok_def by auto
    then show ?thesis using assms(2)[OF down] by (simp add: DownWait down_ok_def)
  qed (use assms(1) assms(2)[OF down] assms(3)[OF down] assms(4)[OF down] in \<open>auto simp: down_ok_def\<close>)
qed (simp add: down_ok_def)

lemma set_serve_simps [simp]:
  "lf_serve (set_serve l pc s) = (lf_serve s)(l := pc)" "sl_listeners (set_serve l pc s) = sl_listeners s"
  "sl_group (set_serve l pc s) = sl_group s" "sl_active (set_serve l pc s) = sl_active s"
  "sl_rwc_closed (set_serve l pc s) = sl_rwc_closed s" "sl_inShutdown (set_serve l pc s) = sl_inShutdown s"
  "sl_once (set_serve l pc s) = sl_once s" "lf_running (set_serve l pc s) = lf_running s"
  "lf_next (set_serve l pc s) = lf_next s" "lf_down (set_serve l pc s) = lf_down s"
  by (simp_all add: set_serve_def)

lemma set_down_simps [simp]:
  "lf_serve (set_down k pc s) = lf_serve s" "sl_listeners (set_down k pc s) = sl_listeners s"
  "sl_group (set_down k pc s) = sl_group s" "sl_active (set_down k pc s) = sl_active s"
  "sl_rwc_closed (set_down k pc s) = sl_rwc_closed s" "sl_inShutdown (set_down k pc s) = sl_inShutdown s"
  "sl_once (set_down k pc s) = sl_once s" "lf_running (set_down k pc s) = lf_running s"
  "lf_next (set_down k pc s) = lf_next s" "lf_down (set_down k pc s) = (lf_down s)(k := pc)"
  by (simp_all add: set_down_def)

lemma loops_ok_serve:
  assumes "loops_ok s" and "in_loop (lf_serve s l) = in_loop pc"
  shows "loops_ok (set_serve l pc s)"
proof -
  have "{l'. in_loop (((lf_serve s)(l := pc)) l')} = {l'. in_loop (lf_serve s l')}" using assms(2) by auto
  then show ?thesis using assms(1) by (simp add: loops_ok_def)
qed

lemma in_loop_listed: "loops_ok s \<Longrightarrow> in_loop (lf_serve s l) \<longleftrightarrow> l \<in> set (sl_listeners s)"
  by (simp add: loops_ok_def)

text \<open>A pc without an accepted connection may be replaced by another; the sets may change as long as they keep the connections.\<close>

lemma fresh_ok_serve: "fresh_ok s \<Longrightarrow> accepted pc = None \<Longrightarrow> fresh_ok (set_serve l pc s)"
  unfolding fresh_ok_def by (simp add: fun_upd_def)

lemma fresh_ok_kept:
  assumes "fresh_ok s" and "lf_serve s' = lf_serve s" and "lf_next s' = lf_next s" and "set (lf_running s') \<subseteq> set (lf_running s)"
    and "\<And>c l. lf_serve s l = SvStore c \<Longrightarrow> c \<in> set (sl_active s) \<or> c \<in> set (sl_rwc_closed s) \<Longrightarrow> c \<in> set (sl_active s') \<or> c \<in> set (sl_rwc_closed s')"
  shows "fresh_ok s'"
  unfolding fresh_ok_def assms(2,3)
proof (intro allI impI)
  fix l c
  assume "accepted (lf_serve s l) = Some c"
  then have "c < lf_next s \<and> c \<notin> set (lf_running s) \<and> (\<forall>l'. accepted (lf_serve s l') = Some c \<longrightarrow> l' = l) \<and>
      (lf_serve s l = SvStore c \<longrightarrow> c \<in> set (sl_active s) \<or> c \<in> set (sl_rwc_closed s))"
    using assms(1) unfolding fresh_ok_def by blast
  then show "c < lf_next s \<and> c \<notin> set (lf_running s') \<and> (\<forall>l'. accepted (lf_serve s l') = Some c \<longrightarrow> l' = l) \<and>
      (lf_serve s l = SvStore c \<longrightarrow> c \<in> set (sl_active s') \<or> c \<in> set (sl_rwc_closed s'))"
    using assms(4,5) by blast
qed

lemma fresh_okD:
  assumes "fresh_ok s" and "accepted (lf_serve s l) = Some c"
  shows "c < lf_next s" and "c \<notin> set (lf_running s)" and "accepted (lf_serve s l') = Some c \<Longrightarrow> l' = l"
    and "lf_serve s l = SvStore c \<Longrightarrow> c \<in> set (sl_active s) \<or> c \<in> set (sl_rwc_closed s)"
  using assms unfolding fresh_ok_def by blast+

section \<open>Every step keeps the invariant\<close>

lemma life_invD:
  "life_inv s \<Longrightarrow> loops_ok s" "life_inv s \<Longrightarrow> conns_ok s" "life_inv s \<Longrightarrow> fresh_ok s" "life_inv s \<Longrightarrow> down_ok s (lf_down s k)"
  by (simp_all add: life_inv_def)

text \<open>A step that only moves the pc of a Serve call, and does not change what is counted.\<close>

lemma life_inv_serve:
  assumes "life_inv s" and "in_loop (lf_serve s l) = in_loop pc" and "accepted pc = None"
  shows "life_inv (set_serve l pc s)"
  unfolding life_inv_def
proof (intro conjI allI)
  show "loops_ok (set_serve l pc s)" by (rule loops_ok_serve[OF life_invD(1)[OF assms(1)] assms(2)])
  show "conns_ok (set_serve l pc s)" using life_invD(2)[OF assms(1)] by (simp add: conns_ok_def)
  show "fresh_ok (set_serve l pc s)" by (rule fresh_ok_serve[OF life_invD(3)[OF assms(1)] assms(3)])
  show "down_ok (set_serve l pc s) (lf_down (set_serve l pc s) k)" for k
    using life_invD(4)[OF assms(1), of k] by (auto simp: down_ok_def split: shutdown_pc.split)
qed

text \<open>A step of a connection, or of a loop over them.\<close>

lemma life_inv_conns:
  assumes "life_inv s" and "lf_serve s' = lf_serve s" and "lf_next s' = lf_next s" and "lf_down s' = lf_down s"
    and "sl_inShutdown s' = sl_inShutdown s" and "sl_listeners s' = sl_listeners s" and "sl_group s' = sl_group s" and "sl_once s' = sl_once s"
    and "set (lf_running s') \<subseteq> set (lf_running s)" and "set (sl_active s') \<subseteq> set (sl_active s)"
    and "\<And>c. c \<in> set (lf_running s') \<or> (\<exists>l. lf_serve s l = SvStore c) \<Longrightarrow> c \<in> set (sl_active s) \<or> c \<in> set (sl_rwc_closed s) \<Longrightarrow>
      c \<in> set (sl_active s') \<or> c \<in> set (sl_rwc_closed s')"
  shows "life_inv s'"
  unfolding life_inv_def
proof (intro conjI allI)
  show "loops_ok s'" using life_invD(1)[OF assms(1)] by (simp add: loops_ok_def assms(2,6,7))
  show "conns_ok s'" using life_invD(2)[OF assms(1)] assms(9,11) unfolding conns_ok_def assms(3) by blast
  show "fresh_ok s'" by (rule fresh_ok_kept[OF life_invD(3)[OF assms(1)] assms(2,3,9)]) (use assms(11) in blast)
  show "down_ok s' (lf_down s' k)" for k
    unfolding assms(4) by (rule down_ok_mono[OF life_invD(4)[OF assms(1)]]) (use assms(5,6,8,10) in auto)
qed

lemma inv_ServeStart:
  assumes "life_inv s" and "lf_serve s l = SvStart" and "trackListener l True s = Ret (up, s1)"
  shows "life_inv (set_serve l (if up then SvAccept 0 else SvClose ErrServerClosed) s1)"
proof (cases "sl_inShutdown s")
  case True
  then have "\<not> up" "s1 = s" using assms(3) by (auto simp: trackListener_def)
  then show ?thesis using life_inv_serve[OF assms(1), of l "SvClose ErrServerClosed"] assms(2) by simp
next
  case False
  then have up: "up" and s1: "s1 = s\<lparr>sl_listeners := List.insert l (sl_listeners s), sl_group := sl_group s + 1\<rparr>"
    using assms(3) by (auto simp: trackListener_def)
  note loops = life_invD(1)[OF assms(1)]
  have new: "l \<notin> set (sl_listeners s)" using in_loop_listed[OF loops, of l] assms(2) by simp
  let ?s' = "set_serve l (SvAccept 0) s1"
  have "life_inv ?s'"
    unfolding life_inv_def
  proof (intro conjI allI)
    have "{l'. in_loop (lf_serve ?s' l')} = insert l {l'. in_loop (lf_serve s l')}" by (auto simp: s1)
    then show "loops_ok ?s'" using loops new by (simp add: loops_ok_def s1)
    show "conns_ok ?s'" using life_invD(2)[OF assms(1)] by (simp add: conns_ok_def s1)
    show "fresh_ok ?s'" by (rule fresh_ok_serve) (rule fresh_ok_kept[OF life_invD(3)[OF assms(1)]], simp_all add: s1)
    show "down_ok ?s' (lf_down ?s' k)" for k
      using life_invD(4)[OF assms(1), of k] False by (auto simp: s1 down_ok_def split: shutdown_pc.splits)
  qed
  then show ?thesis using up by simp
qed

lemma inv_AcceptConn:
  assumes "life_inv s" and "lf_serve s l = SvAccept d"
  shows "life_inv (set_serve l (SvTrack (lf_next s)) (s\<lparr>lf_next := Suc (lf_next s)\<rparr>))"
proof -
  let ?s' = "set_serve l (SvTrack (lf_next s)) (s\<lparr>lf_next := Suc (lf_next s)\<rparr>)"
  have old: "accepted (lf_serve s l') \<noteq> Some (lf_next s)" for l'
    using fresh_okD(1)[OF life_invD(3)[OF assms(1)], of l' "lf_next s"] by auto
  have new: "lf_next s \<notin> set (lf_running s)" using life_invD(2)[OF assms(1)] by (auto simp: conns_ok_def)
  show ?thesis
    unfolding life_inv_def
  proof (intro conjI allI)
    have "loops_ok (set_serve l (SvTrack (lf_next s)) s)" by (rule loops_ok_serve[OF life_invD(1)[OF assms(1)]]) (simp add: assms(2))
    then show "loops_ok ?s'" by (simp add: loops_ok_def)
    show "conns_ok ?s'" using life_invD(2)[OF assms(1)] by (auto simp: conns_ok_def)
    show "fresh_ok ?s'"
      unfolding fresh_ok_def
    proof (intro allI impI)
      fix l1 c
      assume a: "accepted (lf_serve ?s' l1) = Some c"
      show "c < lf_next ?s' \<and> c \<notin> set (lf_running ?s') \<and> (\<forall>l'. accepted (lf_serve ?s' l') = Some c \<longrightarrow> l' = l1) \<and>
          (lf_serve ?s' l1 = SvStore c \<longrightarrow> c \<in> set (sl_active ?s') \<or> c \<in> set (sl_rwc_closed ?s'))"
      proof (cases "l1 = l")
        case True
        then show ?thesis using a new old by auto
      next
        case False
        then have a1: "accepted (lf_serve s l1) = Some c" using a by simp
        have ne: "c \<noteq> lf_next s" using a1 old by blast
        show ?thesis using fresh_okD[OF life_invD(3)[OF assms(1)] a1] False ne by (auto simp: less_SucI)
      qed
    qed
    show "down_ok ?s' (lf_down ?s' k)" for k
      using life_invD(4)[OF assms(1), of k] by (auto simp: down_ok_def split: shutdown_pc.split)
  qed
qed

lemma inv_ServeTrack:
  assumes "life_inv s" and "lf_serve s l = SvTrack c"
  shows "life_inv (set_serve l (SvStore c) (state_track c StateNew s))"
proof -
  let ?s1 = "s\<lparr>sl_active := List.insert c (sl_active s)\<rparr>"
  have eq: "state_track c StateNew s = ?s1" by (simp add: state_track_def trackConn_def)
  have acc: "accepted (lf_serve s l) = Some c" by (simp add: assms(2))
  note fresh = life_invD(3)[OF assms(1)]
  let ?s' = "set_serve l (SvStore c) ?s1"
  have "life_inv ?s'"
    unfolding life_inv_def
  proof (intro conjI allI)
    have "loops_ok (set_serve l (SvStore c) s)" by (rule loops_ok_serve[OF life_invD(1)[OF assms(1)]]) (simp add: assms(2))
    then show "loops_ok ?s'" by (simp add: loops_ok_def)
    show "conns_ok ?s'" using life_invD(2)[OF assms(1)] by (auto simp: conns_ok_def)
    show "fresh_ok ?s'"
      unfolding fresh_ok_def
    proof (intro allI impI)
      fix l1 c1
      assume a: "accepted (lf_serve ?s' l1) = Some c1"
      show "c1 < lf_next ?s' \<and> c1 \<notin> set (lf_running ?s') \<and> (\<forall>l'. accepted (lf_serve ?s' l') = Some c1 \<longrightarrow> l' = l1) \<and>
          (lf_serve ?s' l1 = SvStore c1 \<longrightarrow> c1 \<in> set (sl_active ?s') \<or> c1 \<in> set (sl_rwc_closed ?s'))"
      proof (cases "l1 = l")
        case True
        then have "c1 = c" using a by simp
        then show ?thesis using True fresh_okD[OF fresh acc] by auto
      next
        case False
        then have a1: "accepted (lf_serve s l1) = Some c1" using a by simp
        have "c1 \<noteq> c" using fresh_okD(3)[OF fresh acc, of l1] a1 False by auto
        then show ?thesis using fresh_okD[OF fresh a1] False by auto
      qed
    qed
    show "down_ok ?s' (lf_down ?s' k)" for k
    proof -
      have "l \<in> set (sl_listeners s)" using in_loop_listed[OF life_invD(1)[OF assms(1)], of l] by (simp add: assms(2))
      then show ?thesis using life_invD(4)[OF assms(1), of k] by (auto simp: down_ok_def split: shutdown_pc.splits)
    qed
  qed
  then show ?thesis unfolding eq .
qed

lemma inv_ServeStore:
  assumes "life_inv s" and "lf_serve s l = SvStore c" and "state_store c StateNew now s = Ret s1"
  shows "life_inv (set_serve l (SvAccept 0) (s1\<lparr>lf_running := c # lf_running s1\<rparr>))"
proof -
  obtain f where s1: "s1 = s\<lparr>sl_curState := f\<rparr>" using assms(3) by (auto simp: state_store_def split: if_splits)
  have acc: "accepted (lf_serve s l) = Some c" by (simp add: assms(2))
  note fresh = life_invD(3)[OF assms(1)]
  let ?s' = "set_serve l (SvAccept 0) (s1\<lparr>lf_running := c # lf_running s1\<rparr>)"
  show ?thesis
    unfolding life_inv_def
  proof (intro conjI allI)
    have "loops_ok (set_serve l (SvAccept 0) s)" by (rule loops_ok_serve[OF life_invD(1)[OF assms(1)]]) (simp add: assms(2))
    then show "loops_ok ?s'" by (simp add: loops_ok_def s1)
    show "conns_ok ?s'" using life_invD(2)[OF assms(1)] fresh_okD(1,4)[OF fresh acc] assms(2) by (simp add: conns_ok_def s1)
    show "fresh_ok ?s'"
      unfolding fresh_ok_def
    proof (intro allI impI)
      fix l1 c1
      assume a: "accepted (lf_serve ?s' l1) = Some c1"
      then have ne: "l1 \<noteq> l" by auto
      then have a1: "accepted (lf_serve s l1) = Some c1" using a by (simp add: s1)
      have "c1 \<noteq> c" using fresh_okD(3)[OF fresh acc, of l1] a1 ne by auto
      then show "c1 < lf_next ?s' \<and> c1 \<notin> set (lf_running ?s') \<and> (\<forall>l'. accepted (lf_serve ?s' l') = Some c1 \<longrightarrow> l' = l1) \<and>
          (lf_serve ?s' l1 = SvStore c1 \<longrightarrow> c1 \<in> set (sl_active ?s') \<or> c1 \<in> set (sl_rwc_closed ?s'))"
        using fresh_okD[OF fresh a1] ne by (auto simp: s1)
    qed
    show "down_ok ?s' (lf_down ?s' k)" for k
      using life_invD(4)[OF assms(1), of k] by (auto simp: s1 down_ok_def split: shutdown_pc.split)
  qed
qed

lemma listed_length: "loops_ok s \<Longrightarrow> l \<in> set (sl_listeners s) \<Longrightarrow> 0 < sl_group s"
  by (auto simp: loops_ok_def)

lemma inv_ServeUntrack:
  assumes "life_inv s" and "lf_serve s l = SvUntrack r" and "trackListener l False s = Ret (up, s1)"
  shows "life_inv (set_serve l (SvClose r) s1)"
proof -
  note loops = life_invD(1)[OF assms(1)]
  have l: "l \<in> set (sl_listeners s)" using in_loop_listed[OF loops, of l] by (simp add: assms(2))
  have s1: "s1 = s\<lparr>sl_listeners := removeAll l (sl_listeners s), sl_group := sl_group s - 1\<rparr>"
    using assms(3) by (auto simp: trackListener_def split: if_splits)
  have len: "int (length (removeAll l (sl_listeners s))) = sl_group s - 1"
  proof -
    have one: "1 \<le> length (sl_listeners s)" using length_pos_if_in_set[OF l] by linarith
    have "length (removeAll l (sl_listeners s)) = length (sl_listeners s) - 1"
      using loops l by (simp add: loops_ok_def distinct_remove1_removeAll[symmetric] length_remove1)
    then show ?thesis using loops of_nat_diff[OF one, where 'a = int] unfolding loops_ok_def by linarith
  qed
  let ?s' = "set_serve l (SvClose r) s1"
  show ?thesis
    unfolding life_inv_def
  proof (intro conjI allI)
    have "{l'. in_loop (lf_serve ?s' l')} = {l'. in_loop (lf_serve s l')} - {l}" by (auto simp: s1)
    then show "loops_ok ?s'" using loops len by (simp add: loops_ok_def s1 distinct_removeAll)
    show "conns_ok ?s'" using life_invD(2)[OF assms(1)] by (simp add: conns_ok_def s1)
    show "fresh_ok ?s'" by (rule fresh_ok_serve) (rule fresh_ok_kept[OF life_invD(3)[OF assms(1)]], simp_all add: s1)
    show "down_ok ?s' (lf_down ?s' k)" for k
      using life_invD(4)[OF assms(1), of k] by (auto simp: s1 down_ok_def split: shutdown_pc.splits)
  qed
qed

lemma inv_once:
  assumes "life_inv s" and "\<forall>x. map_of (sl_once s) x \<noteq> None \<longrightarrow> map_of o' x \<noteq> None"
  shows "life_inv (s\<lparr>sl_once := o'\<rparr>)"
  unfolding life_inv_def
proof (intro conjI allI)
  show "loops_ok (s\<lparr>sl_once := o'\<rparr>)" using life_invD(1)[OF assms(1)] by (simp add: loops_ok_def)
  show "conns_ok (s\<lparr>sl_once := o'\<rparr>)" using life_invD(2)[OF assms(1)] by (simp add: conns_ok_def)
  show "fresh_ok (s\<lparr>sl_once := o'\<rparr>)" by (rule fresh_ok_kept[OF life_invD(3)[OF assms(1)]]) simp_all
  show "down_ok (s\<lparr>sl_once := o'\<rparr>) (lf_down (s\<lparr>sl_once := o'\<rparr>) k)" for k
    using down_ok_mono[OF life_invD(4)[OF assms(1), of k], of "s\<lparr>sl_once := o'\<rparr>"] assms(2) by simp
qed

lemma inv_ServeClose:
  assumes "life_inv s" and "lf_serve s l = SvClose r"
  shows "life_inv (set_serve l (SvReturned r) (snd (once_Close lc l s)))"
proof -
  obtain o' where o': "snd (once_Close lc l s) = s\<lparr>sl_once := o'\<rparr>" "\<forall>x. map_of (sl_once s) x \<noteq> None \<longrightarrow> map_of o' x \<noteq> None"
    by (rule once_Close_eq)
  have "life_inv (s\<lparr>sl_once := o'\<rparr>)" by (rule inv_once[OF assms(1) o'(2)])
  then show ?thesis unfolding o'(1) by (rule life_inv_serve) (simp_all add: assms(2))
qed

lemma inv_serve:
  assumes "life_inv s" and "serve_do lc a s = Some r"
  shows "\<exists>s'. r = Ret s' \<and> life_inv s'"
proof (cases a)
  case (ServeStart l)
  then have l: "lf_serve s l = SvStart" using assms(2) by (auto simp: serve_do_def split: if_splits)
  obtain up s1 where t: "trackListener l True s = Ret (up, s1)" unfolding trackListener_def by (metis (full_types))
  show ?thesis using assms(2) ServeStart l inv_ServeStart[OF assms(1) l t] by (auto simp: serve_do_def t)
next
  case (AcceptConn l)
  then show ?thesis using assms(2) inv_AcceptConn[OF assms(1)] by (auto simp: serve_do_def split: serve_pc.splits if_splits)
next
  case (AcceptFail l temporary err)
  then obtain d where d: "lf_serve s l = SvAccept d" "r = Ret (set_serve l (accept_failed temporary err d s) s)"
    using assms(2) by (auto simp: serve_do_def split: serve_pc.splits)
  have "life_inv (set_serve l (accept_failed temporary err d s) s)"
    by (rule life_inv_serve[OF assms(1)]) (simp_all add: d accept_failed_def)
  then show ?thesis using d by blast
next
  case (ServeTrack l)
  then show ?thesis using assms(2) inv_ServeTrack[OF assms(1)] by (auto simp: serve_do_def split: serve_pc.splits)
next
  case (ServeStore l now)
  then obtain c where c: "lf_serve s l = SvStore c" using assms(2) by (auto simp: serve_do_def split: serve_pc.splits)
  obtain s1 where t: "state_store c StateNew now s = Ret s1" by (simp add: state_store_def StateNew_def)
  show ?thesis using assms(2) ServeStore c inv_ServeStore[OF assms(1) c t] by (auto simp: serve_do_def t)
next
  case (ServeUntrack l)
  then obtain r' where r': "lf_serve s l = SvUntrack r'" using assms(2) by (auto simp: serve_do_def split: serve_pc.splits)
  note loops = life_invD(1)[OF assms(1)]
  have "0 < sl_group s" using listed_length[OF loops] in_loop_listed[OF loops, of l] by (simp add: r')
  then obtain up s1 where t: "trackListener l False s = Ret (up, s1)" by (auto simp: trackListener_def)
  show ?thesis using assms(2) ServeUntrack r' inv_ServeUntrack[OF assms(1) r' t] by (auto simp: serve_do_def t)
next
  case (ServeClose l)
  then show ?thesis using assms(2) inv_ServeClose[OF assms(1)] by (auto simp: serve_do_def split: serve_pc.splits)
qed (use assms(2) in \<open>simp_all add: serve_do_def\<close>)

lemma setState_eq:
  "st = StateActive \<or> st = StateIdle \<Longrightarrow> \<exists>f. setState c st now s = Ret (s\<lparr>sl_curState := f\<rparr>)"
  "st = StateHijacked \<or> st = StateClosed \<Longrightarrow>
     \<exists>f. setState c st now s = Ret (s\<lparr>sl_active := removeAll c (sl_active s), sl_curState := f\<rparr>)"
  by (auto simp: setState_def state_track_def state_store_def trackConn_def conn_state_defs)

lemma inv_conn:
  assumes "life_inv s" and "conn_do a s = Some r"
  shows "\<exists>s'. r = Ret s' \<and> life_inv s'"
proof (cases a)
  case (ConnState c active now)
  then have "r = setState c (if active then StateActive else StateIdle) now s" using assms(2) by (auto simp: conn_do_def split: if_splits)
  then obtain f where "r = Ret (s\<lparr>sl_curState := f\<rparr>)"
    using setState_eq(1)[of "if active then StateActive else StateIdle" c now s] by (cases active) auto
  then show ?thesis using life_inv_conns[OF assms(1), of "s\<lparr>sl_curState := f\<rparr>"] by simp
next
  case (ConnClose c)
  then have r: "r = Ret (s\<lparr>sl_rwc_closed := List.insert c (sl_rwc_closed s)\<rparr>)" using assms(2) by (auto simp: conn_do_def split: if_splits)
  have "life_inv (s\<lparr>sl_rwc_closed := List.insert c (sl_rwc_closed s)\<rparr>)"
    by (rule life_inv_conns[OF assms(1)]) auto
  then show ?thesis using r by blast
next
  case (ConnEnd c hijacked now)
  let ?s1 = "s\<lparr>lf_running := removeAll c (lf_running s)\<rparr>" and ?st = "if hijacked then StateHijacked else StateClosed"
  have run: "c \<in> set (lf_running s)" and r: "r = setState c ?st now ?s1"
    using ConnEnd assms(2) by (auto simp: conn_do_def split: if_splits)
  obtain f where f: "r = Ret (?s1\<lparr>sl_active := removeAll c (sl_active s), sl_curState := f\<rparr>)"
    using setState_eq(2)[of ?st c now ?s1] r by (cases hijacked) auto
  have new: "lf_serve s l \<noteq> SvStore c" for l
    using fresh_okD(2)[OF life_invD(3)[OF assms(1)], of l c] run by auto
  have "life_inv (?s1\<lparr>sl_active := removeAll c (sl_active s), sl_curState := f\<rparr>)"
    by (rule life_inv_conns[OF assms(1)]) (use new in auto)
  then show ?thesis using f by blast
qed (use assms(2) in \<open>simp_all add: conn_do_def\<close>)

text \<open>A poll closes connections, and leaves none exactly if it says so.\<close>

lemma inv_closeIdle:
  assumes "life_inv s" and "closeIdleConns now s = (q, s')"
  shows "life_inv s'" and "lf_down s' = lf_down s" and "sl_inShutdown s' = sl_inShutdown s" and "sl_listeners s' = sl_listeners s"
    and "q \<longleftrightarrow> sl_active s' = []"
proof -
  obtain rc ac where r: "s' = s\<lparr>sl_rwc_closed := rc, sl_active := ac\<rparr>" "set ac \<subseteq> set (sl_active s)"
    "set rc = set (sl_rwc_closed s) \<union> (set (sl_active s) - set ac)" "q \<longleftrightarrow> ac = []"
    by (rule closeIdleConns_eq[of now s]) (use assms(2) in simp)
  show "life_inv s'" unfolding r(1) by (rule life_inv_conns[OF assms(1)]) (use r(2,3) in auto)
  show "lf_down s' = lf_down s" "sl_inShutdown s' = sl_inShutdown s" "sl_listeners s' = sl_listeners s" "q \<longleftrightarrow> sl_active s' = []"
    using r(4) by (simp_all add: r(1))
qed

lemma life_inv_down:
  assumes "life_inv s" and "down_ok s pc"
  shows "life_inv (set_down k pc s)"
proof -
  have same: "down_ok (set_down k pc s) p = down_ok s p" for p by (simp add: down_ok_def split: shutdown_pc.split)
  have "loops_ok (set_down k pc s)" "conns_ok (set_down k pc s)" using life_invD(1,2)[OF assms(1)] by (simp_all add: loops_ok_def conns_ok_def)
  moreover have "fresh_ok (set_down k pc s)" by (rule fresh_ok_kept[OF life_invD(3)[OF assms(1)]]) simp_all
  ultimately show ?thesis using life_invD(4)[OF assms(1)] assms(2) by (simp add: life_inv_def same)
qed

text \<open>The argument of rand.Intn stays positive.\<close>

lemma nextPollInterval_ok:
  assumes "1000000 \<le> base" and "base \<le> shutdownPollIntervalMax"
  obtains i base' where "nextPollInterval r base = Ret (i, base')" and "1000000 \<le> base'" and "base' \<le> shutdownPollIntervalMax"
    and "base \<le> i" and "i < base + base div 10"
proof -
  have pos: "0 < base div 10" using assms(1) by simp
  show thesis
    by (rule that[of "base + r mod (base div 10)" "if base * 2 > shutdownPollIntervalMax then shutdownPollIntervalMax else base * 2"])
      (use assms pos in \<open>auto simp: nextPollInterval_def Let_def shutdownPollIntervalMax_def\<close>)
qed

lemma inv_shutdown:
  assumes "life_inv s" and "shutdown_do lc a s = Some r"
  shows "\<exists>s'. r = Ret s' \<and> life_inv s'"
proof (cases a)
  case (ShutdownStart k)
  then have r: "r = Ret (set_down k DownLock (s\<lparr>sl_inShutdown := True\<rparr>))" using assms(2) by (auto simp: shutdown_do_def split: if_splits)
  let ?s1 = "s\<lparr>sl_inShutdown := True\<rparr>"
  have "life_inv ?s1"
    unfolding life_inv_def
  proof (intro conjI allI)
    show "loops_ok ?s1" "conns_ok ?s1" using life_invD(1,2)[OF assms(1)] by (simp_all add: loops_ok_def conns_ok_def)
    show "fresh_ok ?s1" by (rule fresh_ok_kept[OF life_invD(3)[OF assms(1)]]) simp_all
    show "down_ok ?s1 (lf_down ?s1 k)" for k using down_ok_mono[OF life_invD(4)[OF assms(1), of k], of ?s1] by simp
  qed
  then show ?thesis using r life_inv_down[of ?s1 DownLock k] by (simp add: down_ok_def)
next
  case (ShutdownLock k)
  obtain e o' where cl: "closeListenersLocked lc s = (e, s\<lparr>sl_once := o'\<rparr>)"
    "\<forall>x. x \<in> set (sl_listeners s) \<or> map_of (sl_once s) x \<noteq> None \<longrightarrow> map_of o' x \<noteq> None"
    by (rule closeListenersLocked_eq)
  have k: "lf_down s k = DownLock" and r: "r = Ret (set_down k (DownWait e) (s\<lparr>sl_once := o'\<rparr>))"
    using ShutdownLock assms(2) by (auto simp: shutdown_do_def cl split: if_splits)
  have "life_inv (s\<lparr>sl_once := o'\<rparr>)" by (rule inv_once[OF assms(1)]) (use cl(2) in blast)
  moreover have "down_ok (s\<lparr>sl_once := o'\<rparr>) (DownWait e)"
    using life_invD(4)[OF assms(1), of k] cl(2) by (simp add: down_ok_def k)
  ultimately show ?thesis using r life_inv_down by blast
next
  case (ShutdownWaited k rd)
  obtain i base where n: "nextPollInterval rd 1000000 = Ret (i, base)" "1000000 \<le> base" "base \<le> shutdownPollIntervalMax"
    by (rule nextPollInterval_ok[of 1000000 rd]) (simp_all add: shutdownPollIntervalMax_def)
  obtain e where k: "lf_down s k = DownWait e" "sl_group s = 0" and r: "r = Ret (set_down k (DownPoll e base) s)"
    using ShutdownWaited assms(2) by (auto simp: shutdown_do_def n split: shutdown_pc.splits if_splits)
  have "down_ok s (DownPoll e base)"
    using life_invD(4)[OF assms(1), of k] life_invD(1)[OF assms(1)] k n by (simp add: down_ok_def loops_ok_def)
  then show ?thesis using r life_inv_down[OF assms(1)] by blast
next
  case (ShutdownPoll k now rd)
  obtain e base where k: "lf_down s k = DownPoll e base" using ShutdownPoll assms(2) by (auto simp: shutdown_do_def split: shutdown_pc.splits)
  obtain q s1 where c: "closeIdleConns now s = (q, s1)" by (metis surj_pair)
  note inv = inv_closeIdle[OF assms(1) c]
  have d: "sl_inShutdown s1" "sl_listeners s1 = []" "1000000 \<le> base" "base \<le> shutdownPollIntervalMax"
    using life_invD(4)[OF assms(1), of k] inv by (simp_all add: k down_ok_def)
  obtain i base' where n: "nextPollInterval rd base = Ret (i, base')" "1000000 \<le> base'" "base' \<le> shutdownPollIntervalMax"
    by (rule nextPollInterval_ok[OF d(3,4), of rd])
  show ?thesis
  proof (cases q)
    case True
    then have "r = Ret (set_down k (DownReturned (ShutdownDone e)) s1)" using ShutdownPoll assms(2) by (simp add: shutdown_do_def k c)
    then show ?thesis using life_inv_down[OF inv(1), of "DownReturned (ShutdownDone e)" k] inv(5) True d by (simp add: down_ok_def)
  next
    case False
    then have "r = Ret (set_down k (DownPoll e base') s1)" using ShutdownPoll assms(2) by (simp add: shutdown_do_def k c n)
    then show ?thesis using life_inv_down[OF inv(1), of "DownPoll e base'" k] d n by (simp add: down_ok_def)
  qed
next
  case (ShutdownCancel k)
  then obtain e base where k: "lf_down s k = DownPoll e base" "r = Ret (set_down k (DownReturned ShutdownCtx) s)"
    using assms(2) by (auto simp: shutdown_do_def split: shutdown_pc.splits)
  then show ?thesis using life_inv_down[OF assms(1), of "DownReturned ShutdownCtx" k] life_invD(4)[OF assms(1), of k] by (simp add: down_ok_def)
next
  case (KeepAlives v now)
  define s1 where "s1 = s\<lparr>sl_disableKeepAlives := \<not> v\<rparr>"
  have "life_inv s1" by (rule life_inv_conns[OF assms(1)]) (simp_all add: s1_def)
  moreover obtain q s2 where c: "closeIdleConns now s1 = (q, s2)" by (metis surj_pair)
  ultimately have "life_inv s1 \<and> life_inv s2" using inv_closeIdle(1) by blast
  then show ?thesis using KeepAlives assms(2) c by (cases v) (auto simp: shutdown_do_def SetKeepAlivesEnabled_def s1_def)
qed (use assms(2) in \<open>simp_all add: shutdown_do_def\<close>)

lemma life_step_inv:
  assumes "life_inv s" and "life_do lc a s = Some r"
  shows "\<exists>s'. r = Ret s' \<and> life_inv s'"
proof (cases "serve_do lc a s")
  case (Some x)
  then show ?thesis using inv_serve[OF assms(1) Some] assms(2) by (simp add: life_do_def)
next
  case None
  show ?thesis
  proof (cases "conn_do a s")
    case (Some x)
    then show ?thesis using inv_conn[OF assms(1) Some] assms(2) None by (simp add: life_do_def)
  next
    case n: None
    then show ?thesis using inv_shutdown[OF assms(1)] assms(2) None by (simp add: life_do_def)
  qed
qed

lemma life_reach_inv: "life_reach lc s \<Longrightarrow> life_inv s"
proof (induction rule: life_reach.induct)
  case life_reach_start
  show ?case by (rule life_inv_start)
next
  case (life_reach_step s a s')
  then show ?case using life_step_inv[of s lc a "Ret s'"] by auto
qed

section \<open>Progress of Shutdown\<close>

text \<open>How far a Serve call is from its return.\<close>

fun serve_rank :: "serve_pc \<Rightarrow> nat" where
  "serve_rank (SvTrack c) = 4"
| "serve_rank (SvStore c) = 3"
| "serve_rank (SvAccept d) = 2"
| "serve_rank (SvUntrack r) = 1"
| "serve_rank _ = 0"

definition serve_work :: "life \<Rightarrow> nat" where
  "serve_work s = sum_list (map (\<lambda>l. serve_rank (lf_serve s l)) (sl_listeners s))"

lemma sum_list_less:
  fixes g h :: "nat \<Rightarrow> nat"
  assumes "distinct xs" and "l \<in> set xs" and "g l < h l" and "\<And>x. x \<noteq> l \<Longrightarrow> g x = h x"
  shows "sum_list (map g xs) < sum_list (map h xs)"
  using assms(1,2)
proof (induction xs)
  case (Cons x xs)
  show ?case
  proof (cases "x = l")
    case True
    then have same: "map g xs = map h xs" using Cons.prems by (intro map_cong refl assms(4)) auto
    show ?thesis using assms(3) by (simp add: True same)
  next
    case False
    then show ?thesis using Cons assms(4) by simp
  qed
qed simp

lemma serve_work_less:
  assumes "distinct (sl_listeners s)" and "l \<in> set (sl_listeners s)" and "serve_rank pc < serve_rank (lf_serve s l)"
  shows "serve_work (set_serve l pc s) < serve_work s"
  unfolding serve_work_def set_serve_simps by (rule sum_list_less[OF assms(1,2)]) (use assms(3) in auto)

lemma serve_work_mono: "serve_work (s\<lparr>sl_listeners := removeAll l (sl_listeners s)\<rparr>) \<le> serve_work s"
proof -
  have "sum_list (map f (removeAll l xs)) \<le> sum_list (map f xs)" for f :: "nat \<Rightarrow> nat" and xs
    by (induction xs) auto
  then show ?thesis by (simp add: serve_work_def)
qed

lemma serve_work_unlisted: "l \<notin> set (sl_listeners s) \<Longrightarrow> serve_work (set_serve l pc s) = serve_work s"
  by (auto simp: serve_work_def intro!: arg_cong[where f = sum_list])

lemma serve_work_cong: "lf_serve s' = lf_serve s \<Longrightarrow> sl_listeners s' = sl_listeners s \<Longrightarrow> serve_work s' = serve_work s"
  by (simp add: serve_work_def)

lemma serve_work_set: "lf_serve s' = lf_serve s \<Longrightarrow> sl_listeners s' = sl_listeners s \<Longrightarrow> serve_work (set_serve l pc s') = serve_work (set_serve l pc s)"
  by (simp add: serve_work_def)

text \<open>After the listeners are closed no step of a Serve call adds work.\<close>

lemma serve_work_step:
  assumes "life_inv s" and "lf_down s k = DownWait e" and "serve_do lc a s = Some (Ret s')"
  shows "serve_work s' \<le> serve_work s"
proof -
  note loops = life_invD(1)[OF assms(1)]
  have dis: "distinct (sl_listeners s)" using loops by (simp add: loops_ok_def)
  have down: "sl_inShutdown s" and cl: "\<And>l. l \<in> set (sl_listeners s) \<Longrightarrow> map_of (sl_once s) l \<noteq> None"
    using life_invD(4)[OF assms(1), of k] by (simp_all add: assms(2) down_ok_def)
  have listed: "in_loop (lf_serve s l) \<longleftrightarrow> l \<in> set (sl_listeners s)" for l by (rule in_loop_listed[OF loops])
  have less: "serve_work (set_serve l pc s) \<le> serve_work s" if "l \<in> set (sl_listeners s)" "serve_rank pc < serve_rank (lf_serve s l)" for l pc
    using serve_work_less[OF dis that] by simp
  show ?thesis
  proof (cases a)
    case (ServeStart l)
    then have "lf_serve s l = SvStart" "s' = set_serve l (SvClose ErrServerClosed) s"
      using assms(3) down by (auto simp: serve_do_def trackListener_def split: if_splits)
    then show ?thesis using serve_work_unlisted[of l s] listed[of l] by simp
  next
    case (AcceptConn l)
    then have False using assms(3) cl[of l] listed[of l] by (auto simp: serve_do_def split: serve_pc.splits if_splits)
    then show ?thesis ..
  next
    case (AcceptFail l temporary err)
    then obtain d where d: "lf_serve s l = SvAccept d" "s' = set_serve l (SvUntrack ErrServerClosed) s"
      using assms(3) down by (auto simp: serve_do_def accept_failed_def split: serve_pc.splits)
    then show ?thesis using less[of l "SvUntrack ErrServerClosed"] listed[of l] by simp
  next
    case (ServeTrack l)
    then obtain c where c: "lf_serve s l = SvTrack c" "s' = set_serve l (SvStore c) (state_track c StateNew s)"
      using assms(3) by (auto simp: serve_do_def split: serve_pc.splits)
    have "serve_work s' = serve_work (set_serve l (SvStore c) s)"
      unfolding c(2) by (rule serve_work_set) (simp_all add: state_track_def trackConn_def)
    then show ?thesis using less[of l "SvStore c"] listed[of l] c(1) by simp
  next
    case (ServeStore l now)
    then obtain c s1 where c: "lf_serve s l = SvStore c" "state_store c StateNew now s = Ret s1"
        "s' = set_serve l (SvAccept 0) (s1\<lparr>lf_running := c # lf_running s1\<rparr>)"
      using assms(3) by (auto simp: serve_do_def go_bind_Ret split: serve_pc.splits)
    have "serve_work s' = serve_work (set_serve l (SvAccept 0) s)"
      unfolding c(3) by (rule serve_work_set) (use c(2) in \<open>auto simp: state_store_def split: if_splits\<close>)
    then show ?thesis using less[of l "SvAccept 0"] listed[of l] c(1) by simp
  next
    case (ServeUntrack l)
    then obtain r where r: "lf_serve s l = SvUntrack r" "s' = set_serve l (SvClose r) (s\<lparr>sl_listeners := removeAll l (sl_listeners s), sl_group := sl_group s - 1\<rparr>)"
      using assms(3) by (auto simp: serve_do_def trackListener_def split: serve_pc.splits if_splits)
    have "serve_work s' = serve_work (s\<lparr>sl_listeners := removeAll l (sl_listeners s)\<rparr>)"
      by (auto simp: r(2) serve_work_def intro!: arg_cong[where f = sum_list])
    then show ?thesis using serve_work_mono[of l s] by simp
  next
    case (ServeClose l)
    then obtain r where r: "lf_serve s l = SvClose r" "s' = set_serve l (SvReturned r) (snd (once_Close lc l s))"
      using assms(3) by (auto simp: serve_do_def split: serve_pc.splits)
    obtain o' where "snd (once_Close lc l s) = s\<lparr>sl_once := o'\<rparr>" by (rule once_Close_eq)
    then have "serve_work s' = serve_work (set_serve l (SvReturned r) s)"
      unfolding r(2) by (intro serve_work_set) simp_all
    then show ?thesis using serve_work_unlisted[of l s] listed[of l] r(1) by simp
  qed (use assms(3) in \<open>simp_all add: serve_do_def\<close>)
qed

lemma other_work:
  assumes "conn_do a s = Some (Ret s') \<or> shutdown_do lc a s = Some (Ret s')"
  shows "serve_work s' = serve_work s"
proof -
  have idle: "serve_work (snd (closeIdleConns now s1)) = serve_work s1" for now and s1 :: life
    by (rule closeIdleConns_eq[of now s1]) (simp add: serve_work_def)
  have "lf_serve s' = lf_serve s \<and> sl_listeners s' = sl_listeners s" if "conn_do a s = Some (Ret s')"
  proof (cases a)
    case (ConnState c active now)
    then have "setState c (if active then StateActive else StateIdle) now s = Ret s'" using that by (auto simp: conn_do_def split: if_splits)
    then show ?thesis using setState_eq(1)[of "if active then StateActive else StateIdle" c now s] by (cases active) auto
  next
    case (ConnEnd c hijacked now)
    let ?s1 = "s\<lparr>lf_running := removeAll c (lf_running s)\<rparr>"
    have "setState c (if hijacked then StateHijacked else StateClosed) now ?s1 = Ret s'" using that ConnEnd by (auto simp: conn_do_def split: if_splits)
    then show ?thesis using setState_eq(2)[of "if hijacked then StateHijacked else StateClosed" c now ?s1] by (cases hijacked) auto
  qed (use that in \<open>auto simp: conn_do_def split: if_splits\<close>)
  moreover have "serve_work s' = serve_work s" if sd: "shutdown_do lc a s = Some (Ret s')"
  proof (cases a)
    case (ShutdownLock k)
    obtain e o' where "closeListenersLocked lc s = (e, s\<lparr>sl_once := o'\<rparr>)" by (rule closeListenersLocked_eq)
    then show ?thesis using sd ShutdownLock by (auto simp: shutdown_do_def serve_work_def split: if_splits)
  next
    case (ShutdownPoll k now r)
    then obtain e b where k: "lf_down s k = DownPoll e b" using sd by (auto simp: shutdown_do_def split: shutdown_pc.splits)
    obtain q s1 where c: "closeIdleConns now s = (q, s1)" by (metis surj_pair)
    have "\<exists>pc. s' = set_down k pc s1" using sd ShutdownPoll k by (auto simp: shutdown_do_def c go_bind_Ret split: if_splits)
    then show ?thesis using idle[of now s] by (auto simp: c serve_work_def)
  next
    case (KeepAlives v now)
    then show ?thesis using sd idle[of now "s\<lparr>sl_disableKeepAlives := True\<rparr>"]
      by (auto simp: shutdown_do_def SetKeepAlivesEnabled_def serve_work_def split: if_splits)
  qed (use sd in \<open>auto simp: shutdown_do_def serve_work_def go_bind_Ret split: shutdown_pc.splits if_splits\<close>)
  ultimately show ?thesis using assms serve_work_cong by blast
qed

text \<open>A counted Serve call can always take a step to its return.\<close>

lemma serve_can_step:
  assumes "life_inv s" and "lf_down s k = DownWait e" and l: "l \<in> set (sl_listeners s)"
  shows "\<exists>a s'. life_do lc a s = Some (Ret s') \<and> lf_down s' k = DownWait e \<and> serve_work s' < serve_work s"
proof -
  note loops = life_invD(1)[OF assms(1)]
  have dis: "distinct (sl_listeners s)" using loops by (simp add: loops_ok_def)
  have down: "sl_inShutdown s" using life_invD(4)[OF assms(1), of k] by (simp add: assms(2) down_ok_def)
  have step: ?thesis if "serve_do lc a s = Some (Ret s')" "lf_down s' k = DownWait e" "serve_work s' < serve_work s" for a s'
    by (intro exI[of _ a] exI[of _ s']) (use that in \<open>simp add: life_do_def\<close>)
  note less = serve_work_less[OF dis l]
  show ?thesis
  proof (cases "lf_serve s l")
    case (SvAccept d)
    show ?thesis
      by (rule step[of "AcceptFail l False []" "set_serve l (SvUntrack ErrServerClosed) s"])
        (use SvAccept down assms(2) less in \<open>simp_all add: serve_do_def accept_failed_def\<close>)
  next
    case (SvTrack c)
    have "serve_work (set_serve l (SvStore c) (state_track c StateNew s)) = serve_work (set_serve l (SvStore c) s)"
      by (rule serve_work_set) (simp_all add: state_track_def trackConn_def)
    then show ?thesis
      by (intro step[of "ServeTrack l" "set_serve l (SvStore c) (state_track c StateNew s)"])
        (use SvTrack assms(2) less in \<open>simp_all add: serve_do_def state_track_def trackConn_def\<close>)
  next
    case (SvStore c)
    obtain s1 where t: "state_store c StateNew 0 s = Ret s1" "lf_serve s1 = lf_serve s" "sl_listeners s1 = sl_listeners s" "lf_down s1 = lf_down s"
      by (simp add: state_store_def StateNew_def)
    have "serve_work (set_serve l (SvAccept 0) (s1\<lparr>lf_running := c # lf_running s1\<rparr>)) = serve_work (set_serve l (SvAccept 0) s)"
      by (rule serve_work_set) (simp_all add: t)
    then show ?thesis
      by (intro step[of "ServeStore l 0" "set_serve l (SvAccept 0) (s1\<lparr>lf_running := c # lf_running s1\<rparr>)"])
        (use SvStore assms(2) less in \<open>simp_all add: serve_do_def t\<close>)
  next
    case (SvUntrack r')
    let ?s1 = "s\<lparr>sl_listeners := removeAll l (sl_listeners s), sl_group := sl_group s - 1\<rparr>"
    have t: "trackListener l False s = Ret (True, ?s1)" using listed_length[OF loops l] by (simp add: trackListener_def)
    have "serve_work (set_serve l (SvClose r') ?s1) = serve_work (set_serve l (SvClose r') s)"
    proof -
      have "sum_list (map f (removeAll l xs)) = sum_list (map f xs)" if "f l = 0" for f :: "nat \<Rightarrow> nat" and xs
        by (induction xs) (use that in auto)
      then show ?thesis by (simp add: serve_work_def)
    qed
    then show ?thesis
      by (intro step[of "ServeUntrack l" "set_serve l (SvClose r') ?s1"])
        (use SvUntrack assms(2) less in \<open>simp_all add: serve_do_def t\<close>)
  qed (use in_loop_listed[OF loops, of l] l in simp_all)
qed

section \<open>Runs\<close>

fun life_run :: "(nat \<Rightarrow> string option) \<Rightarrow> life_action list \<Rightarrow> life \<Rightarrow> life option" where
  "life_run lc [] s = Some s"
| "life_run lc (a # as) s = (case life_do lc a s of Some (Ret s') \<Rightarrow> life_run lc as s' | _ \<Rightarrow> None)"

lemma life_run_reach: "life_reach lc s \<Longrightarrow> life_run lc as s = Some s' \<Longrightarrow> life_reach lc s'"
proof (induction as arbitrary: s)
  case (Cons a as)
  from Cons.prems(2) obtain s1 where s1: "life_do lc a s = Some (Ret s1)" "life_run lc as s1 = Some s'"
    by (auto split: option.splits go.splits)
  then show ?case using Cons.IH life_reach_step[OF Cons.prems(1) s1(1)] by blast
qed simp

text \<open>A server accepts a connection, which gets idle, and is shut down; its Serve call fails in Accept.\<close>

definition sample_up :: "life_action list" where
  "sample_up = [ServeStart 0, AcceptConn 0, ServeTrack 0, ServeStore 0 100, ConnState 0 False 101, ShutdownStart 0, ShutdownLock 0]"

definition sample_down :: "life_action list" where
  "sample_down = [AcceptFail 0 True ''closed'', ServeUntrack 0, ShutdownWaited 0 0, ShutdownPoll 0 102 0]"

section \<open>Properties\<close>

text \<open>C12: When Shutdown returns because the server is quiescent, the server is at rest: no Serve call is in its loop, no
  listener and no connection is tracked, and every connection whose goroutine still runs has been closed.  This is
  so in every later state as well, however Serve, connections and other Shutdown calls interleave, because no
  Serve call that starts now enters its loop.\<close>

theorem shutdown_complete:
  assumes "life_reach lc s" and "lf_down s k = DownReturned (ShutdownDone e)"
  shows "sl_active s = [] \<and> sl_listeners s = [] \<and> (\<forall>l. \<not> in_loop (lf_serve s l)) \<and>
    (\<forall>c\<in>set (lf_running s). c \<in> set (sl_rwc_closed s))"
proof -
  note inv = life_reach_inv[OF assms(1)]
  have d: "sl_active s = []" "sl_listeners s = []" using life_invD(4)[OF inv, of k] by (simp_all add: assms(2) down_ok_def)
  then show ?thesis using life_invD(1,2)[OF inv] by (auto simp: loops_ok_def conns_ok_def)
qed

lemma shutdown_complete_witness:
  "\<exists>s. life_reach (\<lambda>_. None) s \<and> lf_down s 0 = DownReturned (ShutdownDone None) \<and> lf_running s = [0] \<and>
     sl_active s = [] \<and> 0 \<in> set (sl_rwc_closed s)"
proof -
  have "case life_run (\<lambda>_. None) (sample_up @ sample_down) life_start of
      None \<Rightarrow> False | Some s \<Rightarrow> lf_down s 0 = DownReturned (ShutdownDone None) \<and> lf_running s = [0]"
    by code_simp
  then obtain s where s: "life_run (\<lambda>_. None) (sample_up @ sample_down) life_start = Some s"
      "lf_down s 0 = DownReturned (ShutdownDone None)" "lf_running s = [0]"
    by (auto split: option.splits)
  have reach: "life_reach (\<lambda>_. None) s" by (rule life_run_reach[OF life_reach_start s(1)])
  show ?thesis using shutdown_complete[OF reach s(2)] reach s by (intro exI[of _ s]) simp
qed

text \<open>No step of a server panics, in whatever order its goroutines run: the counter of the Serve calls never gets
  negative, no state is out of range, and the argument of rand.Intn is positive in every poll of Shutdown.\<close>

theorem life_no_panic:
  assumes "life_reach lc s"
  shows "life_do lc a s \<noteq> Some (Panic m)"
  using life_step_inv[OF life_reach_inv[OF assms]] by blast

lemma life_no_panic_witness: "life_do (\<lambda>_. None) (ServeStart 0) life_start \<noteq> Some (Panic [])"
  by (rule life_no_panic[OF life_reach_start])

text \<open>C13: Shutdown does not hang in its wait for the Serve calls.  While one is counted, some Serve call can take a step that
  brings it nearer to its return, and no step of any goroutine takes one back, since a closed listener accepts nothing; when none
  is counted, the wait ends and the polls begin.\<close>

theorem shutdown_progress:
  assumes "life_reach lc s" and "lf_down s k = DownWait e"
  shows "if sl_group s = 0 then \<exists>s' base. life_do lc (ShutdownWaited k r) s = Some (Ret s') \<and> lf_down s' k = DownPoll e base
    else (\<exists>a s'. life_do lc a s = Some (Ret s') \<and> lf_down s' k = DownWait e \<and> serve_work s' < serve_work s) \<and>
      (\<forall>a s'. life_do lc a s = Some (Ret s') \<longrightarrow> serve_work s' \<le> serve_work s)"
proof -
  note inv = life_reach_inv[OF assms(1)]
  note loops = life_invD(1)[OF inv]
  show ?thesis
  proof (cases "sl_group s = 0")
    case True
    obtain i base where n: "nextPollInterval r 1000000 = Ret (i, base)"
      by (rule nextPollInterval_ok[of 1000000 r]) (simp_all add: shutdownPollIntervalMax_def)
    have "life_do lc (ShutdownWaited k r) s = Some (Ret (set_down k (DownPoll e base) s))"
      using True by (simp add: life_do_def serve_do_def conn_do_def shutdown_do_def assms(2) n)
    then show ?thesis using True by auto
  next
    case False
    have mono: "serve_work s' \<le> serve_work s" if "life_do lc a s = Some (Ret s')" for a s'
      using that serve_work_step[OF inv assms(2), of lc a s'] other_work[of a s s' lc]
      by (auto simp: life_do_def split: option.splits)
    obtain l where l: "l \<in> set (sl_listeners s)" using False loops by (cases "sl_listeners s") (auto simp: loops_ok_def)
    from serve_can_step[OF inv assms(2) l] show ?thesis using False mono by auto
  qed
qed

lemma shutdown_progress_witness:
  "\<exists>s a s'. life_reach (\<lambda>_. None) s \<and> lf_down s 0 = DownWait None \<and> sl_group s = 1 \<and>
     life_do (\<lambda>_. None) a s = Some (Ret s') \<and> serve_work s' < serve_work s"
proof -
  have "case life_run (\<lambda>_. None) sample_up life_start of None \<Rightarrow> False | Some s \<Rightarrow> lf_down s 0 = DownWait None \<and> sl_group s = 1"
    by code_simp
  then obtain s where s: "life_run (\<lambda>_. None) sample_up life_start = Some s" "lf_down s 0 = DownWait None" "sl_group s = 1"
    by (auto split: option.splits)
  have reach: "life_reach (\<lambda>_. None) s" by (rule life_run_reach[OF life_reach_start s(1)])
  show ?thesis using shutdown_progress[OF reach s(2), of 0] reach s by auto
qed

end
