(* ===== verification/Spec2Isabelle.thy ===== *)
theory Spec2Isabelle
  imports Mux_Correct Url_Resolve Url_Values Response_Correct Client_Correct H2_Server_Correct H2_Uint Conn_Pool_Correct Server_Reuse Server_Life_Correct
begin

text \<open>
  Verification library of the repository go_net_http_pkg: Go's package net/http and the packages net,
  net/url and net/textproto that it is built on.

  The program and its parts.  A client (src/http/client.go) turns a URL (src/url/url.go) into a request
  (src/http/request.go), sends it through a RoundTripper and follows redirects.  A request is written by the
  transferWriter of src/http/transfer.go with its headers (src/http/header.go, src/textproto/header.go) and a
  body that is plain, limited or chunked (src/http/internal/chunked.go).  On the other side the text protocol
  reader (src/textproto/reader.go) takes lines and headers from the connection, readTransfer decides the
  framing, and the type body delivers the bytes.  The server multiplexer (src/http/server.go,
  src/http/pattern.go, src/http/routing_tree.go) finds the handler of the request.  HTTP/2
  (src/http/h2_bundle.go) has its own framing, flow control and write scheduler.

  The model.  A Go string or slice of bytes is a HOL string, of which a char is one byte; machine integers
  have their width where it matters (words of 64, 32 or 8 bits) and are unbounded where the sources cannot
  reach the bound; structures are records; errors are values of a datatype per component; a panic is the value
  \<open>Panic\<close> of the type \<open>go\<close> (theory Go_Prelude), so each panic of the sources is a result that a theorem can speak
  about.  A method that changes its receiver returns the changed record; a reader on a connection is the
  bytes of its buffer and the list of pieces in which the rest arrives, so a theorem over all readers covers
  every way the network may cut the same bytes.  A Go map is an association list without duplicate keys.
\<close>

text \<open>
  Theories and sources.

  Shared vocabulary: Go_Prelude (strings, slices, panics, maps), Go_Utf8 (ranging over a string), Go_Strconv (the
  used part of strconv), Go_Bufio (bufio.Reader, io.ReadFull, io.LimitReader), Ascii (internal/ascii), and
  Multi_Store, the locale of a map from canonical keys to lists of values that url.Values,
  textproto.MIMEHeader and http.Header interpret.

  URLs (src/url/url.go): Url_Escape (escape, unescape, shouldEscape), Url (Parse, String, ResolveReference and
  the accessors), Url_Values (Values, ParseQuery, Encode); the lemmas are in Url_Correct and Url_Resolve:
  escaping is inverted, printing and parsing are inverse on normal URLs, and resolvePath equals a
  reference on lists of segments.

  Multiplexer: Clean_Path (cleanPath), Pattern (parsePattern), Go_Mapping (hybrid mapping, locale key_store),
  Routing_Tree (the decision tree), Routing_Match (locale pattern_store; the search against a declarative
  reading of patterns, and when it panics), Serve_Mux (registration and findHandler), Mux_Correct (the invariant of
  the multiplexers that registrations reach, and what every answer means), Host_Port (src/ipsock.go).  The code
  files a literal segment * under the key of the multi wildcards and can panic in a search after that
  (star_pattern_panics); the properties of the answers therefore assume mux_starless, that no registered pattern has
  such a segment, while those of the tree and of registration hold for every pattern.

  Messages: Mime_Key and Textproto (src/textproto), Http_Header (src/http/header.go), Cookie, Chunked,
  Http_Body (type body), Message_Framing (readTransfer), Http_Message (the types Request and Response),
  Transfer_Write (transferWriter), Http_Request (construction, Write, ReadRequest), Http_Response (Write,
  ReadResponse, src/http/status.go).  Their lemmas are in Textproto_Correct, Chunked_Correct, Body_Correct,
  Framing_Correct, Transfer_Write_Correct, Request_Correct and Response_Correct; the last two compose all of
  them: a message that Write puts on the wire is read back by ReadRequest or ReadResponse, body and trailer
  included, and what follows on the connection is untouched.

  Client (src/http/client.go): Client models Do as a loop over hops that records in a history what the
  RoundTripper, the bodies and the jar are asked; Client_Correct has the locale stopping_policy, interpreted by
  the default policy, and what the request that follows a redirect carries, in every state that Do reaches.

  Transport (src/http/transport.go): Want_Queue (wantConnQueue), Connect_Method (connectMethod and its key),
  Conn_Pool (the pool: idle connections, waiting calls, connections per host).  What one goroutine does while it holds a
  lock is one function, what it does next is a task of the state, and \<open>pool_step\<close> runs the tasks in any
  order.  Pool_Invariant states which call, task or list owns each connection and each permission to dial, and
  Conn_Pool_Correct shows that every step keeps this: no panic, no connection used twice, no host above its limit.

  Server side of a connection (src/http/server.go): Go_Writer (bufio.Writer), Server_Response (type response and
  chunkWriter: the stages of writeHeader work on the response and a plan of the header), Server_Conn
  (conn.readRequest, the expectContinueReader, one turn of serve, Error and Redirect).  A handler is the list of what it
  does with its ResponseWriter and the body of its request.  Server_Reuse shows that a connection is used again
  only after the body of the request was read to its end, unless the handler asks for full duplex
  (full_duplex_reuses).  Server_Life models the life of a server: Serve, Shutdown
  and the connections as goroutines, whose steps \<open>life_do\<close> runs in any order; Server_Life_Correct has the invariant,
  and shows that Shutdown ends its wait and leaves nothing tracked.

  HTTP/2 (src/http/h2_bundle.go): H2_Flow (windows), H2_Frame and H2_Meta (frames, the Framer and the merging of
  header blocks), H2_Server (configuration, scheduler, the write path up to ServeConn), H2_Uint (the number of
  a goroutine).  H2_Frame_Correct and H2_Server_Correct hold their lemmas; the locale fifo
  (Go_Queue) is interpreted by the round robin scheduler and by wantConnQueue.
\<close>

text \<open>
  Bounds and termination.  Loops over a reader terminate by the number of bytes that it still holds
  (\<open>rsize\<close>).  The drain of a body at its close takes fuel, and \<open>drain_fuel\<close>, the bytes left plus two reads, is
  enough: body_Close_drains needs no more.  The buffers have the sizes of the sources, 4096 bytes for bufio and
  32768 for io.Copy; the round trips hold for bodies of every length.  The redirect loop is a partial function to
  option, \<open>None\<close> if it does not return; default_policy_returns shows that it does.  The loops of the framer and of the
  scheduler have measures on the bytes and frames left.

  Parameters.  Code outside of src/ is an argument of the definitions that use it: the Unicode letter tests of
  package unicode, httpguts.IsTokenRune (T), httpguts.HeaderValuesContainsToken (C), httpguts.PunycodeHostPort
  (PH), httpguts.ValidHostHeader (VH), ValidHeaderFieldValue (V), idna.Lookup.ToASCII, time.Parse (P), the HPACK
  decoder, the RoundTripper, the cookie jar, the redirect policy, the clock, and the readers and writers that
  a user supplies.  The values of GODEBUG settings are arguments as well.

  Not modelled.  Locks (an operation that holds one from its begin to its end is atomic in the model), goroutines and timers
  except those of the connection pool and of the life of a server,
  tracing callbacks, debug output and the texts of most errors, the system calls of package net (sockets,
  dialing, lookup), and the parts of the repository that the manifest lists as not modelled, each with its reason.
\<close>

end
